(* ===== verification/Prelude.thy ===== *)
theory Prelude
  imports
    Main
    "HOL-Library.AList"
    "HOL-Library.Char_ord"
    "HOL-Library.List_Lexorder"
    "HOL-Library.Product_Lexorder"
    "HOL-Library.Multiset"
begin

section \<open>Shared vocabulary of the CSGClaw development\<close>

text \<open>
  What every component uses: Go values as HOL values (byte strings, instants, 64-bit signed
  counters, maps), the pieces of the Go standard library the sources call
  (\<open>strings.TrimSpace\<close>, \<open>strings.HasPrefix\<close>, \<open>fmt\<close>'s decimal verb), the result type of
  fallible operations, and the interface of a state machine with an invariant.
\<close>

named_theorems go_defs \<open>definitions of small Go helpers, unfolded on demand\<close>
named_theorems trim_simps \<open>facts about trimmed strings\<close>

text \<open>
  A Go \<open>string\<close> is a byte sequence, so it is a HOL \<^typ>\<open>string\<close>. A \<open>time.Time\<close> is an
  \<^typ>\<open>int\<close>: nanoseconds since Go's zero instant, so \<open>IsZero\<close> is equality with \<open>0\<close> and
  \<open>Before\<close>, \<open>After\<close> and \<open>Equal\<close> are the integer comparisons. A \<open>*time.Time\<close> is an
  option.
\<close>

type_synonym time = int

text \<open>
  A Go map is an association list with distinct keys. Go leaves the order in which \<open>range\<close>
  visits a map unspecified; the list fixes one order, and the theorems hold for every list.
\<close>

type_synonym ('k, 'v) gomap = "('k \<times> 'v) list"

abbreviation mget :: "('k, 'v) gomap \<Rightarrow> 'k \<Rightarrow> 'v option" where
  "mget m k \<equiv> map_of m k"

abbreviation mput :: "'k \<Rightarrow> 'v \<Rightarrow> ('k, 'v) gomap \<Rightarrow> ('k, 'v) gomap" where
  "mput k v m \<equiv> AList.update k v m"

abbreviation mdel :: "'k \<Rightarrow> ('k, 'v) gomap \<Rightarrow> ('k, 'v) gomap" where
  "mdel k m \<equiv> AList.delete k m"

definition mgets :: "('k, 'v list) gomap \<Rightarrow> 'k \<Rightarrow> 'v list" where
  "mgets m k = (case mget m k of None \<Rightarrow> [] | Some v \<Rightarrow> v)"

subsection \<open>Association lists as Go maps\<close>

lemma mget_mput [simp]: "mget (mput k v m) k' = (if k' = k then Some v else mget m k')"
  by (simp add: update_conv')

lemma mget_mdel [simp]: "mget (mdel k m) k' = (if k' = k then None else mget m k')"
  by (simp add: delete_conv')

lemma mgets_mput [simp]: "mgets (mput k v m) k' = (if k' = k then v else mgets m k')"
  by (simp add: mgets_def)

lemma mgets_mdel [simp]: "mgets (mdel k m) k' = (if k' = k then [] else mgets m k')"
  by (simp add: mgets_def)

lemma mgets_Nil [simp]: "mgets [] k = []"
  by (simp add: mgets_def)

lemma distinct_mput [simp]:
  "distinct (map fst m) \<Longrightarrow> distinct (map fst (mput k v m))"
  by (rule distinct_update)

lemma distinct_mdel [simp]:
  "distinct (map fst m) \<Longrightarrow> distinct (map fst (mdel k m))"
  by (rule distinct_delete)

lemma keys_mput [simp]: "fst ` set (mput k v m) = insert k (fst ` set m)"
  by (induction m) auto

lemma keys_mdel [simp]: "fst ` set (mdel k m) = fst ` set m - {k}"
  by (induction m) auto

lemma mem_mput:
  "distinct (map fst m) \<Longrightarrow> (k', v') \<in> set (mput k v m) \<longleftrightarrow>
     (if k' = k then v' = v else (k', v') \<in> set m)"
  by (metis distinct_mput map_of_eq_Some_iff mget_mput option.inject)

lemma mem_mdel: "(k', v') \<in> set (mdel k m) \<longleftrightarrow> k' \<noteq> k \<and> (k', v') \<in> set m"
  by (induction m) auto

lemma mget_mem: "mget m k = Some v \<Longrightarrow> (k, v) \<in> set m"
  by (rule map_of_SomeD)

lemma mget_key: "mget m k = Some v \<Longrightarrow> k \<in> fst ` set m"
  by (metis mget_mem fst_conv image_eqI)

lemma mget_None_key: "mget m k = None \<longleftrightarrow> k \<notin> fst ` set m"
  by (rule map_of_eq_None_iff)

text \<open>
  Lookups stay lookups: the library's rules that turn them into membership are used by name.
\<close>

declare map_of_eq_Some_iff [simp del] Some_eq_map_of_iff [simp del]

subsection \<open>Results\<close>

text \<open>
  An operation that returns \<open>(T, error)\<close> returns \<^typ>\<open>'e + 'a\<close>: \<^const>\<open>Inl\<close> an error,
  \<^const>\<open>Inr\<close> a value.
\<close>

definition is_ok :: "'e + 'a \<Rightarrow> bool" where
  "is_ok r = (case r of Inl _ \<Rightarrow> False | Inr _ \<Rightarrow> True)"

lemma is_ok_simps [simp]: "is_ok (Inr a)" "\<not> is_ok (Inl e)"
  by (simp_all add: is_ok_def)

lemma is_okE: "is_ok r \<Longrightarrow> (\<And>a. r = Inr a \<Longrightarrow> P) \<Longrightarrow> P"
  by (cases r) auto

text \<open>
  Operations that change a state and may fail: the state is threaded through, also past an
  error, because what was changed before the error stays changed.
\<close>

type_synonym ('s, 'e, 'a) sm = "'s \<Rightarrow> ('e + 'a) \<times> 's"

definition returnE :: "'a \<Rightarrow> ('s, 'e, 'a) sm" where
  "returnE a s = (Inr a, s)"

definition throwE :: "'e \<Rightarrow> ('s, 'e, 'a) sm" where
  "throwE e s = (Inl e, s)"

definition bindE :: "('s, 'e, 'a) sm \<Rightarrow> ('a \<Rightarrow> ('s, 'e, 'b) sm) \<Rightarrow> ('s, 'e, 'b) sm" where
  "bindE m k s = (case m s of (Inl e, s') \<Rightarrow> (Inl e, s') | (Inr a, s') \<Rightarrow> k a s')"

lemma returnE_apply [simp]: "returnE a s = (Inr a, s)"
  by (simp add: returnE_def)

lemma throwE_apply [simp]: "throwE e s = (Inl e, s)"
  by (simp add: throwE_def)

lemma bindE_Inr [simp]: "m s = (Inr a, s') \<Longrightarrow> bindE m k s = k a s'"
  by (simp add: bindE_def)

lemma bindE_Inl [simp]: "m s = (Inl e, s') \<Longrightarrow> bindE m k s = (Inl e, s')"
  by (simp add: bindE_def)

lemma bindE_InrE:
  assumes "bindE m k s = (Inr b, u)"
  obtains a t where "m s = (Inr a, t)" and "k a t = (Inr b, u)"
  using assms by (auto simp: bindE_def split: prod.splits sum.splits)

lemma bindE_casesE:
  assumes "bindE m k s = (r, u)"
  obtains (left) e where "m s = (Inl e, u)" and "r = Inl e"
    | (right) a t where "m s = (Inr a, t)" and "k a t = (r, u)"
  using assms by (auto simp: bindE_def split: prod.splits sum.splits)

subsection \<open>\<open>strings.TrimSpace\<close>\<close>

text \<open>
  The UTF-8 encodings of the runes for which \<open>unicode.IsSpace\<close> holds.
\<close>

definition go_spaces :: "string list" where
  "go_spaces =
     [[CHR 0x09], [CHR 0x0A], [CHR 0x0B], [CHR 0x0C], [CHR 0x0D], [CHR 0x20],
      [CHR 0xC2, CHR 0x85], [CHR 0xC2, CHR 0xA0], [CHR 0xE1, CHR 0x9A, CHR 0x80],
      [CHR 0xE2, CHR 0x80, CHR 0x80], [CHR 0xE2, CHR 0x80, CHR 0x81],
      [CHR 0xE2, CHR 0x80, CHR 0x82], [CHR 0xE2, CHR 0x80, CHR 0x83],
      [CHR 0xE2, CHR 0x80, CHR 0x84], [CHR 0xE2, CHR 0x80, CHR 0x85],
      [CHR 0xE2, CHR 0x80, CHR 0x86], [CHR 0xE2, CHR 0x80, CHR 0x87],
      [CHR 0xE2, CHR 0x80, CHR 0x88], [CHR 0xE2, CHR 0x80, CHR 0x89],
      [CHR 0xE2, CHR 0x80, CHR 0x8A], [CHR 0xE2, CHR 0x80, CHR 0xA8],
      [CHR 0xE2, CHR 0x80, CHR 0xA9], [CHR 0xE2, CHR 0x80, CHR 0xAF],
      [CHR 0xE2, CHR 0x81, CHR 0x9F], [CHR 0xE3, CHR 0x80, CHR 0x80]]"

definition starts_with :: "string \<Rightarrow> string \<Rightarrow> bool" where
  "starts_with e s \<longleftrightarrow> take (length e) s = e"

text \<open>Remove any of the given non-empty words from the front, as long as one is there.\<close>

function strip :: "string list \<Rightarrow> string \<Rightarrow> string" where
  "strip es s =
     (case find (\<lambda>e. e \<noteq> [] \<and> starts_with e s) es of
        None \<Rightarrow> s
      | Some e \<Rightarrow> strip es (drop (length e) s))"
  by pat_completeness auto
termination
proof (relation "measure (\<lambda>(es, s). length s)")
  fix es s e
  assume "find (\<lambda>e. e \<noteq> [] \<and> starts_with e s) es = Some e"
  then have "e \<noteq> [] \<and> starts_with e s"
    by (auto simp: find_Some_iff)
  then have "0 < length e \<and> 0 < length s"
    by (cases s) (auto simp: starts_with_def)
  then show "((es, drop (length e) s), (es, s)) \<in> measure (\<lambda>(es, s). length s)"
    by simp
qed simp

declare strip.simps [simp del]

definition TrimSpace :: "string \<Rightarrow> string" where
  "TrimSpace s = rev (strip (map rev go_spaces) (rev (strip go_spaces s)))"

definition HasPrefix :: "string \<Rightarrow> string \<Rightarrow> bool" where
  "HasPrefix s p = starts_with p s"

definition TrimPrefix :: "string \<Rightarrow> string \<Rightarrow> string" where
  "TrimPrefix s p = (if HasPrefix s p then drop (length p) s else s)"

definition strippable :: "string list \<Rightarrow> string \<Rightarrow> bool" where
  "strippable es s \<longleftrightarrow> (\<exists>e \<in> set es. e \<noteq> [] \<and> starts_with e s)"

lemma find_strippable:
  "find (\<lambda>e. e \<noteq> [] \<and> starts_with e s) es = None \<longleftrightarrow> \<not> strippable es s"
  by (auto simp: find_None_iff strippable_def)

lemma strip_id: "\<not> strippable es s \<Longrightarrow> strip es s = s"
  using find_strippable [of s es] by (simp add: strip.simps [of es s])

lemma strip_not_strippable: "\<not> strippable es (strip es s)"
proof (induction es s rule: strip.induct)
  case (1 es s)
  show ?case
  proof (cases "find (\<lambda>e. e \<noteq> [] \<and> starts_with e s) es")
    case None
    then have "\<not> strippable es s" by (simp add: find_strippable)
    then show ?thesis by (simp add: strip_id)
  next
    case (Some e)
    with "1.IH" show ?thesis by (simp add: strip.simps [of es s])
  qed
qed

lemma strip_suffix: "\<exists>p. s = p @ strip es s"
proof (induction es s rule: strip.induct)
  case (1 es s)
  show ?case
  proof (cases "find (\<lambda>e. e \<noteq> [] \<and> starts_with e s) es")
    case None
    then show ?thesis by (simp add: strip.simps [of es s])
  next
    case (Some e)
    with "1.IH" obtain p where "drop (length e) s = p @ strip es (drop (length e) s)" by blast
    then have "s = (take (length e) s @ p) @ strip es (drop (length e) s)"
      by (metis append.assoc append_take_drop_id)
    moreover from Some have "strip es s = strip es (drop (length e) s)"
      by (simp add: strip.simps [of es s])
    ultimately show ?thesis by metis
  qed
qed

lemma starts_with_append: "starts_with e s \<Longrightarrow> starts_with e (s @ t)"
  unfolding starts_with_def
  by (metis append_take_drop_id append.assoc append_eq_conv_conj)

lemma strippable_append: "strippable es s \<Longrightarrow> strippable es (s @ t)"
  unfolding strippable_def by (blast intro: starts_with_append)

text \<open>The two ends that \<^const>\<open>TrimSpace\<close> leaves are not spaces, and that is when it is the identity.\<close>

definition trimmed :: "string \<Rightarrow> bool" where
  "trimmed s \<longleftrightarrow> \<not> strippable go_spaces s \<and> \<not> strippable (map rev go_spaces) (rev s)"

lemma TrimSpace_trimmed [simp]: "trimmed (TrimSpace s)"
proof -
  let ?u = "strip go_spaces s"
  obtain q where "rev ?u = q @ strip (map rev go_spaces) (rev ?u)"
    using strip_suffix by blast
  then have "rev (rev ?u) = rev (q @ strip (map rev go_spaces) (rev ?u))"
    by (rule arg_cong)
  then have "?u = TrimSpace s @ rev q"
    by (simp only: TrimSpace_def rev_append rev_rev_ident)
  then have "\<not> strippable go_spaces (TrimSpace s)"
    by (metis strip_not_strippable strippable_append)
  moreover have "\<not> strippable (map rev go_spaces) (rev (TrimSpace s))"
    by (simp add: TrimSpace_def strip_not_strippable)
  ultimately show ?thesis by (simp add: trimmed_def)
qed

lemma trimmed_TrimSpace: "trimmed s \<Longrightarrow> TrimSpace s = s"
  by (simp add: trimmed_def TrimSpace_def strip_id)

lemma TrimSpace_idem [simp]: "TrimSpace (TrimSpace s) = TrimSpace s"
  by (simp add: trimmed_TrimSpace)

lemma trimmed_iff: "trimmed s \<longleftrightarrow> TrimSpace s = s"
  by (metis TrimSpace_trimmed trimmed_TrimSpace)

lemma trimmed_Nil [simp]: "trimmed []"
  by (auto simp: trimmed_def strippable_def starts_with_def)

lemma TrimSpace_Nil [simp]: "TrimSpace [] = []"
  by (simp add: trimmed_TrimSpace)

text \<open>
  A string that begins and ends in ASCII bytes above the space is trimmed.
\<close>

definition visible :: "char \<Rightarrow> bool" where
  "visible c \<longleftrightarrow> (of_char c :: nat) \<in> {33..126}"

lemma go_spaces_ends:
  "\<forall>e \<in> set go_spaces. \<not> visible (hd e) \<and> \<not> visible (last e)"
  by (simp add: go_spaces_def visible_def)

lemma go_spaces_nonempty: "[] \<notin> set go_spaces"
  by (simp add: go_spaces_def)

lemma visible_trimmed:
  assumes "s \<noteq> []" and "visible (hd s)" and "visible (last s)"
  shows "trimmed s"
proof -
  have left_end: "\<not> strippable go_spaces s"
  proof
    assume "strippable go_spaces s"
    then obtain e where e: "e \<in> set go_spaces" "e \<noteq> []" "starts_with e s"
      by (auto simp: strippable_def)
    then have "hd e = hd s"
      by (metis hd_append2 starts_with_def append_take_drop_id)
    with e(1) assms(2) show False using go_spaces_ends by auto
  qed
  have right_end: "\<not> strippable (map rev go_spaces) (rev s)"
  proof
    assume "strippable (map rev go_spaces) (rev s)"
    then obtain e where e: "e \<in> set go_spaces" "e \<noteq> []" "starts_with (rev e) (rev s)"
      by (auto simp: strippable_def)
    then have "hd (rev e) = hd (rev s)"
      by (metis hd_append2 starts_with_def append_take_drop_id rev_is_Nil_conv)
    then have "last e = last s" by (simp add: hd_rev)
    with e(1) assms(3) show False using go_spaces_ends by auto
  qed
  from left_end right_end show ?thesis by (simp add: trimmed_def)
qed

lemma HasPrefix_append [simp]: "HasPrefix (p @ s) p"
  by (simp add: HasPrefix_def starts_with_def)

lemma HasPrefixE: "HasPrefix s p \<Longrightarrow> s = p @ drop (length p) s"
  unfolding HasPrefix_def starts_with_def by (metis append_take_drop_id)

subsection \<open>64-bit signed counters and \<open>fmt\<close>'s decimal verb\<close>

text \<open>An \<open>int64\<close> is an \<^typ>\<open>int\<close>; arithmetic that can overflow wraps in two's complement.\<close>

definition wrap64 :: "int \<Rightarrow> int" where
  "wrap64 x = (x + 2 ^ 63) mod 2 ^ 64 - 2 ^ 63"

abbreviation int64_max :: int where
  "int64_max \<equiv> 9223372036854775807"

abbreviation int64_min :: int where
  "int64_min \<equiv> - 9223372036854775808"

lemma wrap64_id: "int64_min \<le> x \<Longrightarrow> x \<le> int64_max \<Longrightarrow> wrap64 x = x"
  by (simp add: wrap64_def)

lemma wrap64_range: "int64_min \<le> wrap64 x" "wrap64 x \<le> int64_max"
proof -
  have "0 \<le> (x + 2 ^ 63) mod 2 ^ 64" "(x + 2 ^ 63) mod 2 ^ 64 < 2 ^ 64"
    by simp_all
  then show "int64_min \<le> wrap64 x" "wrap64 x \<le> int64_max"
    by (simp_all add: wrap64_def)
qed

lemma wrap64_cong: "wrap64 (wrap64 a * 10 + d) = wrap64 (a * 10 + d)"
proof -
  have "((a + 2 ^ 63) mod 2 ^ 64 * 10) mod 2 ^ 64 = ((a + 2 ^ 63) * 10) mod (2 ^ 64 :: int)"
    by (rule mod_mult_left_eq)
  then have "((a + 2 ^ 63) mod 2 ^ 64 * 10 + (d + 2 ^ 63 - 2 ^ 63 * 10)) mod 2 ^ 64
      = ((a + 2 ^ 63) * 10 + (d + 2 ^ 63 - 2 ^ 63 * 10)) mod (2 ^ 64 :: int)"
    by (rule mod_add_cong [OF _ refl])
  then show ?thesis
    by (simp add: wrap64_def algebra_simps)
qed

lemma wrap64_overflow [simp]: "wrap64 (int64_max + 1) = int64_min"
  by (simp add: wrap64_def)

definition dec_digit :: "nat \<Rightarrow> char" where
  "dec_digit d = char_of (48 + d)"

definition is_digit :: "char \<Rightarrow> bool" where
  "is_digit c \<longleftrightarrow> (of_char c :: nat) \<in> {48..57}"

definition digit_val :: "char \<Rightarrow> int" where
  "digit_val c = int (of_char c) - 48"

fun dec_of_nat :: "nat \<Rightarrow> string" where
  "dec_of_nat n =
     (if n < 10 then [dec_digit n] else dec_of_nat (n div 10) @ [dec_digit (n mod 10)])"

declare dec_of_nat.simps [simp del]

definition dec_of_int :: "int \<Rightarrow> string" where
  "dec_of_int i = (if i < 0 then CHR ''-'' # dec_of_nat (nat (- i)) else dec_of_nat (nat i))"

lemma of_char_dec_digit: "d < 10 \<Longrightarrow> (of_char (dec_digit d) :: nat) = 48 + d"
  by (simp add: dec_digit_def)

lemma is_digit_dec_digit [simp]: "d < 10 \<Longrightarrow> is_digit (dec_digit d)"
  by (simp add: is_digit_def of_char_dec_digit)

lemma digit_val_dec_digit [simp]: "d < 10 \<Longrightarrow> digit_val (dec_digit d) = int d"
  by (simp add: digit_val_def of_char_dec_digit)

lemma is_digit_visible: "is_digit c \<Longrightarrow> visible c"
  by (simp add: is_digit_def visible_def)

lemma digit_val_bounds: "is_digit c \<Longrightarrow> 0 \<le> digit_val c \<and> digit_val c \<le> 9"
  by (auto simp: is_digit_def digit_val_def)

lemma dec_of_nat_digits: "\<forall>c \<in> set (dec_of_nat n). is_digit c"
proof (induction n rule: dec_of_nat.induct)
  case (1 n)
  then show ?case by (auto simp: dec_of_nat.simps [of n])
qed

lemma dec_of_nat_nonempty [simp]: "dec_of_nat n \<noteq> []"
  by (simp add: dec_of_nat.simps [of n])

lemma dec_of_nat_value: "foldl (\<lambda>v c. v * 10 + digit_val c) 0 (dec_of_nat n) = int n"
proof (induction n rule: dec_of_nat.induct)
  case (1 n)
  show ?case
  proof (cases "n < 10")
    case True
    then show ?thesis by (simp add: dec_of_nat.simps [of n])
  next
    case False
    with "1.IH" have "foldl (\<lambda>v c. v * 10 + digit_val c) 0 (dec_of_nat (n div 10)) = int (n div 10)"
      by simp
    moreover have "int (n div 10) * 10 + int (n mod 10) = int n"
      by (metis div_mult_mod_eq of_nat_add of_nat_mult of_nat_numeral)
    ultimately show ?thesis using False
      by (simp only: dec_of_nat.simps [of n] if_False foldl_append foldl.simps
          digit_val_dec_digit mod_less_divisor zero_less_numeral)
  qed
qed

lemma dec_of_nat_inject: "dec_of_nat m = dec_of_nat n \<longleftrightarrow> m = n"
  by (metis dec_of_nat_value of_nat_eq_iff)

lemma dec_of_int_inject_nonneg:
  "0 \<le> i \<Longrightarrow> 0 \<le> j \<Longrightarrow> dec_of_int i = dec_of_int j \<longleftrightarrow> i = j"
  by (simp add: dec_of_int_def dec_of_nat_inject eq_nat_nat_iff)

subsection \<open>State machines with an invariant\<close>

text \<open>
  A component whose lock serialises its operations is a labelled step relation: the label is
  the operation with its arguments and environment. \<^term>\<open>reachable init step\<close> are the
  states some sequence of operations leads to from an initial state.
\<close>

inductive reachable :: "('s \<Rightarrow> bool) \<Rightarrow> ('s \<Rightarrow> 'a \<Rightarrow> 's \<Rightarrow> bool) \<Rightarrow> 's \<Rightarrow> bool"
  for init :: "'s \<Rightarrow> bool" and step :: "'s \<Rightarrow> 'a \<Rightarrow> 's \<Rightarrow> bool" where
  reachable_init: "init s \<Longrightarrow> reachable init step s"
| reachable_step: "reachable init step s \<Longrightarrow> step s a t \<Longrightarrow> reachable init step t"

inductive steps :: "('s \<Rightarrow> 'a \<Rightarrow> 's \<Rightarrow> bool) \<Rightarrow> 's \<Rightarrow> 'a list \<Rightarrow> 's \<Rightarrow> bool"
  for step :: "'s \<Rightarrow> 'a \<Rightarrow> 's \<Rightarrow> bool" where
  steps_Nil: "steps step s [] s"
| steps_Cons: "step s a t \<Longrightarrow> steps step t as u \<Longrightarrow> steps step s (a # as) u"

inductive_simps steps_Nil_iff [simp]: "steps step s [] u"
inductive_simps steps_Cons_iff: "steps step s (a # as) u"

locale invariant_system =
  fixes init :: "'s \<Rightarrow> bool"
    and step :: "'s \<Rightarrow> 'a \<Rightarrow> 's \<Rightarrow> bool"
    and inv :: "'s \<Rightarrow> bool"
  assumes init_inv: "init s \<Longrightarrow> inv s"
    and step_inv: "inv s \<Longrightarrow> step s a t \<Longrightarrow> inv t"
begin

lemma reachable_inv: "reachable init step s \<Longrightarrow> inv s"
  by (induction rule: reachable.induct) (blast intro: init_inv step_inv)+

lemma steps_inv: "steps step s as t \<Longrightarrow> inv s \<Longrightarrow> inv t"
  by (induction rule: steps.induct) (blast intro: step_inv)+

end

text \<open>
  A monotone observation of a state machine: a preorder that every step moves up, so that it
  never decreases along a run. Extends an invariant system, because steps are compared in
  states that satisfy the invariant.
\<close>

locale monotone_system = invariant_system init step inv
  for init :: "'s \<Rightarrow> bool" and step :: "'s \<Rightarrow> 'a \<Rightarrow> 's \<Rightarrow> bool" and inv :: "'s \<Rightarrow> bool" +
  fixes le :: "'s \<Rightarrow> 's \<Rightarrow> bool"
  assumes le_refl: "le s s"
    and le_trans: "le s t \<Longrightarrow> le t u \<Longrightarrow> le s u"
    and step_le: "inv s \<Longrightarrow> step s a t \<Longrightarrow> le s t"
begin

lemma steps_le: "steps step s as t \<Longrightarrow> inv s \<Longrightarrow> le s t"
proof (induction rule: steps.induct)
  case (steps_Nil s)
  show ?case by (rule le_refl)
next
  case (steps_Cons s a t as u)
  then show ?case by (blast intro: le_trans step_le step_inv)
qed

end

subsection \<open>Small shared helpers\<close>

text \<open>\<open>firstNonEmpty\<close> is written out identically in several packages.\<close>

fun firstNonEmpty :: "string list \<Rightarrow> string" where
  "firstNonEmpty [] = []"
| "firstNonEmpty (v # vs) = (if TrimSpace v \<noteq> [] then TrimSpace v else firstNonEmpty vs)"

lemma firstNonEmpty_trimmed [simp]: "trimmed (firstNonEmpty vs)"
  by (induction vs) auto

lemma set_sort_key [simp]: "set (sort_key f xs) = set xs"
  by simp

lemma distinct_map_sort_key [simp]: "distinct (map f (sort_key g xs)) = distinct (map f xs)"
  by (metis mset_sort mset_map distinct_map mset_eq_imp_distinct_iff)

lemma sort_key_sorted: "sorted (map f xs) \<Longrightarrow> sort_key f xs = xs"
  by (induction xs) (auto simp: insort_is_Cons)

lemma sort_key_idem [simp]: "sort_key f (sort_key f xs) = sort_key f xs"
  by (rule sort_key_sorted) simp

text \<open>
  Sorting by a key that identifies the elements does not depend on the order of the input, so
  a slice collected from a map and sorted by its unique ID is determined by the map.
\<close>

lemma sort_key_unique_perm:
  assumes "mset xs = mset ys" and "inj_on f (set xs)"
  shows "sort_key f xs = sort_key f ys"
proof (rule properties_for_sort_key)
  show "mset (sort_key f ys) = mset xs" by (simp add: assms(1))
next
  fix k
  assume "k \<in> set (sort_key f ys)"
  then have "k \<in> set xs" using assms(1) by (auto dest: mset_eq_setD)
  have eq: "filter (\<lambda>x. f x = f k) zs = replicate (count (mset xs) k) k"
    if "mset zs = mset xs" for zs
  proof -
    have "filter (\<lambda>x. f x = f k) zs = filter (\<lambda>x. x = k) zs"
      using assms(2) \<open>k \<in> set xs\<close> that by (intro filter_cong) (auto dest: mset_eq_setD inj_onD)
    also have "\<dots> = replicate (count (mset zs) k) k"
      by (induction zs) auto
    finally show ?thesis using that by simp
  qed
  show "filter (\<lambda>x. f k = f x) (sort_key f ys) = filter (\<lambda>x. f k = f x) xs"
    using eq [of "sort_key f ys"] eq [of xs] assms(1) by (simp add: eq_commute)
next
  show "sorted (map f (sort_key f ys))" by simp
qed

end
