(* ===== verification/TaskModel.thy ===== *)
theory TaskModel
  imports Prelude
begin

section \<open>The task data model (\<open>internal/taskcore/model.go\<close>)\<close>

text \<open>
  The structs of the shared task aggregate as records, field by field, and the string
  constants of statuses, event types and approval states. Statuses stay strings, as in the
  code: a record read from disk may carry any string, and callers pass strings in. Pointers
  to times are options; \<open>cloneTask\<close>, \<open>cloneApproval\<close>, \<open>clonePresence\<close>, \<open>cloneEvents\<close> and
  \<open>cloneStrings\<close> copy values and are the identity on HOL values, so they do not appear.
\<close>

definition AssignmentTypeRoom :: string where "AssignmentTypeRoom = ''room''"
definition AssignmentTypeTeam :: string where "AssignmentTypeTeam = ''team''"
definition AssignmentTypeAgent :: string where "AssignmentTypeAgent = ''agent''"

definition StatusPending :: string where "StatusPending = ''pending''"
definition StatusAssigned :: string where "StatusAssigned = ''assigned''"
definition StatusInProgress :: string where "StatusInProgress = ''in_progress''"
definition StatusBlocked :: string where "StatusBlocked = ''blocked''"
definition StatusCompleted :: string where "StatusCompleted = ''completed''"
definition StatusFailed :: string where "StatusFailed = ''failed''"
definition StatusCancelled :: string where "StatusCancelled = ''cancelled''"
definition StatusQueued :: string where "StatusQueued = ''queued''"
definition StatusReview :: string where "StatusReview = ''pending_review''"
definition StatusStopping :: string where "StatusStopping = ''stopping''"

definition ApprovalStatusPending :: string where "ApprovalStatusPending = ''pending''"
definition ApprovalStatusApproved :: string where "ApprovalStatusApproved = ''approved''"
definition ApprovalStatusRejected :: string where "ApprovalStatusRejected = ''rejected''"
definition ApprovalStatusCancelled :: string where "ApprovalStatusCancelled = ''cancelled''"

definition EventTaskCreated :: string where "EventTaskCreated = ''task.created''"
definition EventTaskExecutionRoom :: string where "EventTaskExecutionRoom = ''task.execution_room''"
definition EventTaskClaimed :: string where "EventTaskClaimed = ''task.claimed''"
definition EventTaskBlocked :: string where "EventTaskBlocked = ''task.blocked''"
definition EventTaskCompleted :: string where "EventTaskCompleted = ''task.completed''"
definition EventTaskFailed :: string where "EventTaskFailed = ''task.failed''"
definition EventTaskCancelled :: string where "EventTaskCancelled = ''task.cancelled''"
definition EventApprovalRequested :: string where "EventApprovalRequested = ''approval.requested''"
definition EventApprovalResolved :: string where "EventApprovalResolved = ''approval.resolved''"

lemmas status_defs =
  StatusPending_def StatusAssigned_def StatusInProgress_def StatusBlocked_def
  StatusCompleted_def StatusFailed_def StatusCancelled_def StatusQueued_def
  StatusReview_def StatusStopping_def

lemmas approval_status_defs =
  ApprovalStatusPending_def ApprovalStatusApproved_def ApprovalStatusRejected_def
  ApprovalStatusCancelled_def

lemmas event_type_defs =
  EventTaskCreated_def EventTaskExecutionRoom_def EventTaskClaimed_def EventTaskBlocked_def
  EventTaskCompleted_def EventTaskFailed_def EventTaskCancelled_def EventApprovalRequested_def
  EventApprovalResolved_def

lemma status_distinct:
  "distinct [StatusPending, StatusAssigned, StatusInProgress, StatusBlocked, StatusCompleted,
     StatusFailed, StatusCancelled, StatusQueued, StatusReview, StatusStopping]"
  by (simp add: status_defs)

lemma status_distinct_rev:
  "distinct [StatusStopping, StatusReview, StatusQueued, StatusCancelled, StatusFailed,
     StatusCompleted, StatusBlocked, StatusInProgress, StatusAssigned, StatusPending]"
  by (simp add: status_defs)

lemmas status_neq [simp] = status_distinct [simplified] status_distinct_rev [simplified]

lemma status_nonempty [simp]:
  "StatusPending \<noteq> []" "StatusAssigned \<noteq> []" "StatusInProgress \<noteq> []" "StatusBlocked \<noteq> []"
  "StatusCompleted \<noteq> []" "StatusFailed \<noteq> []" "StatusCancelled \<noteq> []" "StatusQueued \<noteq> []"
  "StatusReview \<noteq> []" "StatusStopping \<noteq> []"
  by (simp_all add: status_defs)

record Task =
  t_WaitingOnTaskID :: string
  t_RecoveryRequired :: bool
  t_Attempt :: int
  t_Review :: string
  t_ReviewedBy :: string
  t_GoalOutcome :: string
  t_Report :: string
  t_ReportStatus :: string
  t_SourceMessageID :: string
  t_ID :: string
  t_ParentID :: string
  t_AssignmentType :: string
  t_AssignmentID :: string
  t_Title :: string
  t_Body :: string
  t_Status :: string
  t_CreatedBy :: string
  t_AssignedTo :: string
  t_ClaimedBy :: string
  t_ExecutionChannel :: string
  t_RoomID :: string
  t_DependsOn :: "string list"
  t_Priority :: int
  t_PlanSummary :: string
  t_DispatchedAt :: "time option"
  t_DeadlineAt :: "time option"
  t_TimeoutAt :: "time option"
  t_Result :: string
  t_Error :: string
  t_CreatedAt :: time
  t_UpdatedAt :: time
  t_CompletedAt :: "time option"

record TaskEvent =
  e_RequestID :: string
  e_RequestHash :: string
  e_Attempt :: int
  e_Seq :: int
  e_AssignmentType :: string
  e_AssignmentID :: string
  e_Channel :: string
  e_RoomID :: string
  e_Type :: string
  e_ActorID :: string
  e_TaskID :: string
  e_TargetID :: string
  e_Summary :: string
  e_CreatedAt :: time

record TaskApproval =
  a_ID :: string
  a_AssignmentType :: string
  a_AssignmentID :: string
  a_RoomID :: string
  a_TaskID :: string
  a_RequestedBy :: string
  a_ApproverID :: string
  a_Kind :: string
  a_Summary :: string
  a_Payload :: string
  a_Status :: string
  a_Resolution :: string
  a_CreatedAt :: time
  a_ResolvedAt :: "time option"

record TaskPresence =
  p_AssignmentType :: string
  p_AssignmentID :: string
  p_ParticipantID :: string
  p_UserID :: string
  p_AgentID :: string
  p_Role :: string
  p_State :: string
  p_CurrentTaskID :: string
  p_Summary :: string
  p_LastHeartbeatAt :: time
  p_UpdatedAt :: time

record Snapshot =
  sn_Root :: Task
  sn_Children :: "Task list"
  sn_Approvals :: "TaskApproval list"
  sn_Presence :: "TaskPresence list"
  sn_Events :: "TaskEvent list"

text \<open>The zero values that a Go composite literal starts from.\<close>

definition zero_task :: Task where
  "zero_task =
     \<lparr>t_WaitingOnTaskID = [], t_RecoveryRequired = False, t_Attempt = 0, t_Review = [],
      t_ReviewedBy = [], t_GoalOutcome = [], t_Report = [], t_ReportStatus = [],
      t_SourceMessageID = [], t_ID = [], t_ParentID = [], t_AssignmentType = [],
      t_AssignmentID = [], t_Title = [], t_Body = [], t_Status = [], t_CreatedBy = [],
      t_AssignedTo = [], t_ClaimedBy = [], t_ExecutionChannel = [], t_RoomID = [],
      t_DependsOn = [], t_Priority = 0, t_PlanSummary = [], t_DispatchedAt = None,
      t_DeadlineAt = None, t_TimeoutAt = None, t_Result = [], t_Error = [], t_CreatedAt = 0,
      t_UpdatedAt = 0, t_CompletedAt = None\<rparr>"

definition zero_event :: TaskEvent where
  "zero_event =
     \<lparr>e_RequestID = [], e_RequestHash = [], e_Attempt = 0, e_Seq = 0, e_AssignmentType = [],
      e_AssignmentID = [], e_Channel = [], e_RoomID = [], e_Type = [], e_ActorID = [],
      e_TaskID = [], e_TargetID = [], e_Summary = [], e_CreatedAt = 0\<rparr>"

text \<open>
  The errors the task packages return. The sentinel errors keep their names; an error made by
  \<open>fmt.Errorf\<close> from a format is \<open>ErrText\<close> with the constant text of the format, and a
  failure of the file system is \<open>ErrIO\<close>.
\<close>

datatype error =
    ErrTaskNotFound
  | ErrApprovalNotFound
  | ErrTransitionInvalid
  | ErrApprovalAlreadyClosed
  | ErrRoomHasActiveTasks
  | ErrActiveTask
  | ErrText string
  | ErrIO

end
