(* ===== verification/TaskDisk.thy ===== *)
theory TaskDisk
  imports TaskModel
begin

section \<open>The task store's files and how they fail\<close>

text \<open>
  The directory a \<open>taskcore.Store\<close> owns: one sub-directory per root task with \<open>tasks.json\<close>
  (the committed record) and \<open>events.jsonl\<close> (the append-only journal), and \<open>sequence.json\<close>
  (the last allocated task number). A JSON file is absent, blank, the encoding of a value or
  undecodable: \<open>encoding/json\<close> itself is not modelled beyond "decoding an encoded value gives
  the value back".

  Every access to the file system may fail. The failures are a list of \<open>fault\<close>s in the
  state: each access consumes one, and an exhausted list means no more failures, so a
  statement for every list is a statement for every pattern of failures. A process that is
  killed in the middle of a save leaves the same files as a save whose next accesses fail.
\<close>

datatype 'a jfile = Blank | Json 'a | Garbled

text \<open>
  A journal is the list of its newline-terminated lines and the unterminated rest that a torn
  write leaves, which may or may not decode. The code never writes a blank line.
\<close>

datatype jline = Line TaskEvent | BadLine

datatype jtail = NoTail | TornEvent TaskEvent | TornBad

record journal =
  j_lines :: "jline list"
  j_tail :: jtail

definition empty_journal :: journal where
  "empty_journal = \<lparr>j_lines = [], j_tail = NoTail\<rparr>"

text \<open>
  \<open>FailBefore\<close>: the access fails and changes nothing. \<open>FailAfter\<close>: the change is made and
  then a later sync or close fails. \<open>Short n t\<close>: an append stops after \<open>n\<close> whole lines,
  leaving the torn rest \<open>t\<close>.
\<close>

datatype fault = NoFault | FailBefore | FailAfter | Short nat jtail

record taskRecord =
  r_SchemaVersion :: int
  r_Tasks :: "Task list"
  r_EventSeq :: int
  r_Approvals :: "TaskApproval list"
  r_Presence :: "TaskPresence list"

record taskSequenceState =
  q_SchemaVersion :: int
  q_LastTask :: int

record World =
  w_dirs :: "string list"
  w_tasks :: "(string, taskRecord jfile) gomap"
  w_journal :: "(string, journal) gomap"
  w_sequence :: "taskSequenceState jfile option"
  w_index :: "int jfile option"
  w_faults :: "fault list"

type_synonym 'a io = "(World, error, 'a) sm"

definition currentTaskSchemaVersion :: int where "currentTaskSchemaVersion = 2"
definition currentSequenceVersion :: int where "currentSequenceVersion = 1"

definition take_fault :: "World \<Rightarrow> fault \<times> World" where
  "take_fault w =
     (case w_faults w of [] \<Rightarrow> (NoFault, w) | f # fs \<Rightarrow> (f, w\<lparr>w_faults := fs\<rparr>))"

text \<open>An access that reads, or that fails as a whole.\<close>

definition io_step :: "unit io" where
  "io_step w = (case take_fault w of
      (NoFault, w') \<Rightarrow> (Inr (), w')
    | (_, w') \<Rightarrow> (Inl ErrIO, w'))"

definition zero_record :: taskRecord where
  "zero_record = \<lparr>r_SchemaVersion = 0, r_Tasks = [], r_EventSeq = 0, r_Approvals = [],
     r_Presence = []\<rparr>"

definition zero_sequence :: taskSequenceState where
  "zero_sequence = \<lparr>q_SchemaVersion = 0, q_LastTask = 0\<rparr>"

text \<open>
  \<open>readJSONFile\<close> into a zero target: a missing file is an error of the read, a blank file
  leaves the target at its zero value, an undecodable file is an error of the decoder.
\<close>

definition readJSONFile :: "'a jfile option \<Rightarrow> 'a \<Rightarrow> 'a io" where
  "readJSONFile f zero =
     bindE io_step (\<lambda>_.
       (case f of
          None \<Rightarrow> throwE ErrIO
        | Some Blank \<Rightarrow> returnE zero
        | Some (Json v) \<Rightarrow> returnE v
        | Some Garbled \<Rightarrow> throwE (ErrText ''decode'')))"

text \<open>
  \<open>writeJSONFileAtomic\<close>: the value is written to a temporary file that is then renamed over
  the target; up to the rename every failure leaves the target as it was.
\<close>

definition writeJSONFileAtomic :: "(World \<Rightarrow> World) \<Rightarrow> unit io" where
  "writeJSONFileAtomic install =
     bindE io_step (\<lambda>_ w. (Inr (), install w))"

definition validateTaskRecordVersion :: "taskRecord \<Rightarrow> error + taskRecord" where
  "validateTaskRecordVersion r =
     (if r_SchemaVersion r = 0 then Inr (r\<lparr>r_SchemaVersion := currentTaskSchemaVersion\<rparr>)
      else if r_SchemaVersion r \<noteq> currentTaskSchemaVersion
      then Inl (ErrText ''unsupported task schema version'')
      else Inr r)"

definition readTaskSequence :: "(taskSequenceState \<times> bool) io" where
  "readTaskSequence w =
     (case w_sequence w of
        None \<Rightarrow> bindE io_step (\<lambda>_. returnE (zero_sequence, False)) w
      | Some f \<Rightarrow>
          bindE (readJSONFile (Some f) zero_sequence) (\<lambda>st.
            if q_LastTask st < 0 then throwE (ErrText ''task id sequence is invalid'')
            else if q_SchemaVersion st \<noteq> 0 \<and> q_SchemaVersion st \<noteq> currentSequenceVersion
            then throwE (ErrText ''unsupported task sequence schema version'')
            else returnE (st, True)) w)"

definition writeTaskSequence :: "taskSequenceState \<Rightarrow> unit io" where
  "writeTaskSequence st =
     (if q_LastTask st < 0 then throwE (ErrText ''task id sequence is invalid'')
      else writeJSONFileAtomic (\<lambda>w. w\<lparr>w_sequence :=
             Some (Json (st\<lparr>q_SchemaVersion := currentSequenceVersion\<rparr>))\<rparr>))"

subsection \<open>What the accesses keep\<close>

text \<open>The files of a world, without the failures still to come.\<close>

definition disk :: "World \<Rightarrow> World" where
  "disk w = w\<lparr>w_faults := []\<rparr>"

lemma disk_fields [simp]:
  "w_dirs (disk w) = w_dirs w" "w_tasks (disk w) = w_tasks w"
  "w_journal (disk w) = w_journal w" "w_sequence (disk w) = w_sequence w"
  "w_index (disk w) = w_index w" "w_faults (disk w) = []"
  by (simp_all add: disk_def)

lemma disk_idem [simp]: "disk (disk w) = disk w"
  by (simp add: disk_def)

lemma disk_eqD:
  assumes "disk w' = disk w"
  shows "w_dirs w' = w_dirs w" "w_tasks w' = w_tasks w" "w_journal w' = w_journal w"
    "w_sequence w' = w_sequence w" "w_index w' = w_index w"
  using assms by (metis disk_fields)+

lemma disk_update_cong:
  "disk v = disk w \<Longrightarrow> disk (v\<lparr>w_dirs := d\<rparr>) = disk (w\<lparr>w_dirs := d\<rparr>)"
  "disk v = disk w \<Longrightarrow> disk (v\<lparr>w_tasks := t\<rparr>) = disk (w\<lparr>w_tasks := t\<rparr>)"
  "disk v = disk w \<Longrightarrow> disk (v\<lparr>w_journal := j\<rparr>) = disk (w\<lparr>w_journal := j\<rparr>)"
  "disk v = disk w \<Longrightarrow> disk (v\<lparr>w_sequence := q\<rparr>) = disk (w\<lparr>w_sequence := q\<rparr>)"
  by (cases v; cases w; simp add: disk_def)+

lemma take_fault_disk: "take_fault w = (f, w') \<Longrightarrow> disk w' = disk w"
  by (auto simp: take_fault_def disk_def split: list.splits)

lemma take_fault_none [simp]: "w_faults w = [] \<Longrightarrow> take_fault w = (NoFault, w)"
  by (simp add: take_fault_def)

lemma io_step_disk: "io_step w = (r, w') \<Longrightarrow> disk w' = disk w"
  by (auto simp: io_step_def dest: take_fault_disk split: prod.splits fault.splits)

lemma io_step_ok [simp]: "w_faults w = [] \<Longrightarrow> io_step w = (Inr (), w)"
  by (simp add: io_step_def)

lemma readJSONFile_disk: "readJSONFile f z w = (r, w') \<Longrightarrow> disk w' = disk w"
  by (auto simp: readJSONFile_def elim!: bindE_casesE dest: io_step_disk
      split: option.splits jfile.splits)

lemma readJSONFile_Json [simp]:
  "w_faults w = [] \<Longrightarrow> readJSONFile (Some (Json v)) z w = (Inr v, w)"
  by (simp add: readJSONFile_def)

lemma readJSONFile_value:
  "readJSONFile (Some f) z w = (Inr v, w') \<Longrightarrow> f = Json v \<or> f = Blank \<and> v = z"
  by (auto simp: readJSONFile_def elim!: bindE_InrE split: jfile.splits)

lemma writeJSONFileAtomic_cases:
  assumes "writeJSONFileAtomic f w = (r, w')"
  obtains (failed) e where "r = Inl e" and "disk w' = disk w"
    | (written) w'' where "r = Inr ()" and "w' = f w''" and "disk w'' = disk w"
  using assms unfolding writeJSONFileAtomic_def
  by (elim bindE_casesE) (auto dest: io_step_disk)

end
