(* ===== verification/TaskIDs.thy ===== *)
theory TaskIDs
  imports TaskDisk
begin

section \<open>Task identifiers (\<open>internal/taskcore/id_allocator.go\<close>)\<close>

text \<open>
  The allocator of \<open>task-N\<close> identifiers: a 64-bit counter, written to \<open>sequence.json\<close> on
  every change when the allocator has a directory, and reconciled at start-up with every
  identifier found on disk. \<open>NewService\<close> always installs an allocator, so the nil receivers
  of the source are not modelled. The interface \<open>id_source\<close> states what the task service
  relies on.
\<close>

record TaskIDAllocator =
  al_root :: string
  al_next :: int

type_synonym alloc_state = "TaskIDAllocator \<times> World"

definition NewMemoryTaskIDAllocator :: TaskIDAllocator where
  "NewMemoryTaskIDAllocator = \<lparr>al_root = [], al_next = 0\<rparr>"

fun counter_value :: "string \<Rightarrow> int \<Rightarrow> int option" where
  "counter_value [] v = Some v"
| "counter_value (c # cs) v =
     (if \<not> is_digit c then None else counter_value cs (wrap64 (v * 10 + digit_val c)))"

definition maxCounterFromIdentifier :: "string \<Rightarrow> string \<Rightarrow> int \<Rightarrow> int" where
  "maxCounterFromIdentifier ident pref current =
     (let i = TrimSpace ident in
      if \<not> HasPrefix i pref then current
      else case counter_value (drop (length pref) i) 0 of
             None \<Rightarrow> current
           | Some v \<Rightarrow> if v > current then v else current)"

definition formatTaskIdentifier :: "int \<Rightarrow> string" where
  "formatTaskIdentifier v = ''task-'' @ dec_of_int v"

definition on_world :: "'a io \<Rightarrow> (alloc_state, error, 'a) sm" where
  "on_world m = (\<lambda>(a, w). case m w of (r, w') \<Rightarrow> (r, (a, w')))"

definition saveLocked :: "(alloc_state, error, unit) sm" where
  "saveLocked = (\<lambda>(a, w).
     if al_root a = [] then (Inr (), (a, w))
     else on_world (writeTaskSequence
            \<lparr>q_SchemaVersion = 0, q_LastTask = al_next a\<rparr>) (a, w))"

definition Next :: "(alloc_state, error, string) sm" where
  "Next = (\<lambda>(a, w).
     let previous = al_next a; a1 = a\<lparr>al_next := wrap64 (al_next a + 1)\<rparr> in
     case saveLocked (a1, w) of
       (Inl e, (a2, w')) \<Rightarrow> (Inl e, (a2\<lparr>al_next := previous\<rparr>, w'))
     | (Inr _, (a2, w')) \<Rightarrow> (Inr (formatTaskIdentifier (al_next a2)), (a2, w')))"

definition Peek :: "TaskIDAllocator \<Rightarrow> int \<Rightarrow> string" where
  "Peek a offset = formatTaskIdentifier (wrap64 (al_next a + offset + 1))"

definition Bump :: "string \<Rightarrow> (alloc_state, error, unit) sm" where
  "Bump ident = (\<lambda>(a, w).
     let nxt = maxCounterFromIdentifier ident ''task-'' (al_next a) in
     if nxt = al_next a then (Inr (), (a, w))
     else let previous = al_next a; a1 = a\<lparr>al_next := nxt\<rparr> in
          case saveLocked (a1, w) of
            (Inl e, (a2, w')) \<Rightarrow> (Inl e, (a2\<lparr>al_next := previous\<rparr>, w'))
          | (Inr _, s) \<Rightarrow> (Inr (), s))"

definition record_counter :: "Task list \<Rightarrow> int \<Rightarrow> int" where
  "record_counter ts n = foldl (\<lambda>n t. maxCounterFromIdentifier (t_ID t) ''task-'' n) n ts"

text \<open>
  \<open>persistedTaskSequence\<close> visits the directory entries in the order of \<open>os.ReadDir\<close>, sorted
  by name, and then the legacy \<open>index.json\<close>.
\<close>

fun scan_entries :: "string list \<Rightarrow> int \<Rightarrow> int io" where
  "scan_entries [] n w = (Inr n, w)"
| "scan_entries (d # ds) n w =
     (let n1 = maxCounterFromIdentifier d ''task-'' n in
      case mget (w_tasks w) d of
        None \<Rightarrow> bindE io_step (\<lambda>_. scan_entries ds n1) w
      | Some f \<Rightarrow>
          bindE (readJSONFile (Some f) zero_record) (\<lambda>rec.
            case validateTaskRecordVersion rec of
              Inl e \<Rightarrow> throwE e
            | Inr rec' \<Rightarrow> scan_entries ds (record_counter (r_Tasks rec') n1)) w)"

definition persistedTaskSequence :: "int io" where
  "persistedTaskSequence w =
     bindE io_step (\<lambda>_. bindE (scan_entries (sort (w_dirs w)) 0) (\<lambda>n.
       case w_index w of
         None \<Rightarrow> bindE io_step (\<lambda>_. returnE n)
       | Some f \<Rightarrow> bindE (readJSONFile (Some f) 0) (\<lambda>legacy.
           if legacy < 0 then throwE (ErrText ''legacy task id counter is invalid'')
           else returnE (if legacy > n then legacy else n)))) w"

definition load :: "(alloc_state, error, unit) sm" where
  "load = (\<lambda>(a, w).
     if al_root a = [] then (Inr (), (a, w))
     else bindE (on_world readTaskSequence) (\<lambda>(st, ok).
            bindE (on_world persistedTaskSequence) (\<lambda>n0.
              let n = (if ok \<and> q_LastTask st > n0 then q_LastTask st else n0) in
              bindE (if \<not> ok \<or> q_SchemaVersion st \<noteq> currentSequenceVersion \<or> q_LastTask st \<noteq> n
                     then on_world (writeTaskSequence \<lparr>q_SchemaVersion = 0, q_LastTask = n\<rparr>)
                     else returnE ()) (\<lambda>_ (a', w').
                (Inr (), (a'\<lparr>al_next := n\<rparr>, w'))))) (a, w))"

text \<open>
  \<open>filepath.Clean\<close> on a slash-separated path: empty and \<open>.\<close> elements are dropped, \<open>..\<close> takes
  the element before it away, and nothing left is the current directory.
\<close>

fun slash_elements :: "string \<Rightarrow> string \<Rightarrow> string list" where
  "slash_elements [] acc = [acc]"
| "slash_elements (c # cs) acc =
     (if c = CHR ''/'' then acc # slash_elements cs [] else slash_elements cs (acc @ [c]))"

fun clean_elements :: "bool \<Rightarrow> string list \<Rightarrow> string list \<Rightarrow> string list" where
  "clean_elements rooted out [] = out"
| "clean_elements rooted out (e # es) =
     (if e = [] \<or> e = ''.'' then clean_elements rooted out es
      else if e = ''..'' then
        (if out \<noteq> [] \<and> last out \<noteq> ''..'' then clean_elements rooted (butlast out) es
         else if rooted then clean_elements rooted out es
         else clean_elements rooted (out @ [e]) es)
      else clean_elements rooted (out @ [e]) es)"

fun path_join :: "string list \<Rightarrow> string" where
  "path_join [] = []"
| "path_join [e] = e"
| "path_join (e # es) = e @ ''/'' @ path_join es"

definition Clean :: "string \<Rightarrow> string" where
  "Clean p =
     (let rooted = HasPrefix p ''/'';
          r = (if rooted then ''/'' else []) @ path_join (clean_elements rooted [] (slash_elements p []))
      in if r = [] then ''.'' else r)"

text \<open>
  \<open>newPersistentTaskIDAllocator\<close>. The files of the model are those of one store; the entry
  that \<open>taskIDAllocators.byRoot\<close> has for the absolute path of its directory is the first
  component of the state, and belongs to the process: every service of a process that opens
  the store shares the allocator found there.
\<close>

type_synonym registry = "TaskIDAllocator option"

definition newPersistentTaskIDAllocator ::
    "string \<Rightarrow> (registry \<times> World, error, TaskIDAllocator) sm" where
  "newPersistentTaskIDAllocator root = (\<lambda>(reg, w).
     if TrimSpace root = [] then (Inl (ErrText ''task store root is required''), (reg, w))
     else case reg of
       Some a \<Rightarrow> (Inr a, (reg, w))
     | None \<Rightarrow>
         (case load (\<lparr>al_root = Clean (TrimSpace root), al_next = 0\<rparr>, w) of
            (Inl e, (a, w')) \<Rightarrow> (Inl e, (None, w'))
          | (Inr _, (a, w')) \<Rightarrow> (Inr a, (Some a, w'))))"

subsection \<open>The counter of an identifier\<close>

text \<open>An identifier is covered by a counter value when it does not raise it.\<close>

definition covered :: "int \<Rightarrow> string \<Rightarrow> bool" where
  "covered n ident \<longleftrightarrow> maxCounterFromIdentifier ident ''task-'' n = n"

lemma maxCounter_ge: "n \<le> maxCounterFromIdentifier ident pref n"
  by (auto simp: maxCounterFromIdentifier_def Let_def split: option.splits)

lemma maxCounter_mono:
  "m \<le> n \<Longrightarrow> maxCounterFromIdentifier ident pref m \<le> maxCounterFromIdentifier ident pref n"
  by (auto simp: maxCounterFromIdentifier_def Let_def split: option.splits)

lemma covered_mono: "covered m ident \<Longrightarrow> m \<le> n \<Longrightarrow> covered n ident"
  by (auto simp: covered_def maxCounterFromIdentifier_def Let_def split: option.splits if_splits)

lemma covered_maxCounter: "covered (maxCounterFromIdentifier ident ''task-'' n) ident"
  by (auto simp: covered_def maxCounterFromIdentifier_def Let_def split: option.splits if_splits)

lemma counter_value_foldl:
  "\<forall>c \<in> set cs. is_digit c \<Longrightarrow> int64_min \<le> v \<Longrightarrow> v \<le> int64_max \<Longrightarrow>
     counter_value cs v = Some (wrap64 (foldl (\<lambda>v c. v * 10 + digit_val c) v cs))"
proof (induction cs arbitrary: v)
  case Nil
  then show ?case by (simp add: wrap64_id)
next
  case (Cons c cs)
  have eq: "wrap64 (foldl (\<lambda>v c. v * 10 + digit_val c) (wrap64 u) cs)
      = wrap64 (foldl (\<lambda>v c. v * 10 + digit_val c) u cs)" for u
  proof (induction cs rule: rev_induct)
    case Nil
    show ?case using wrap64_range [of u] by (simp add: wrap64_id)
  next
    case (snoc c cs)
    have "wrap64 (foldl (\<lambda>v c. v * 10 + digit_val c) (wrap64 u) cs * 10 + digit_val c)
        = wrap64 (wrap64 (foldl (\<lambda>v c. v * 10 + digit_val c) (wrap64 u) cs) * 10 + digit_val c)"
      by (rule wrap64_cong [symmetric])
    also have "\<dots> = wrap64 (wrap64 (foldl (\<lambda>v c. v * 10 + digit_val c) u cs) * 10 + digit_val c)"
      by (simp only: snoc.IH)
    also have "\<dots> = wrap64 (foldl (\<lambda>v c. v * 10 + digit_val c) u cs * 10 + digit_val c)"
      by (rule wrap64_cong)
    finally show ?case by (simp only: foldl_append foldl.simps)
  qed
  from Cons show ?case
    using eq [of "v * 10 + digit_val c"] wrap64_range [of "v * 10 + digit_val c"] by simp
qed

lemma counter_value_dec:
  "0 \<le> n \<Longrightarrow> n \<le> int64_max \<Longrightarrow> counter_value (dec_of_int n) 0 = Some n"
  using dec_of_nat_digits [of "nat n"] dec_of_nat_value [of "nat n"]
  by (simp add: dec_of_int_def counter_value_foldl wrap64_id)

lemma trimmed_prefixed:
  assumes "p \<noteq> []" and "visible (hd p)" and "0 \<le> n"
  shows "trimmed (p @ dec_of_int n)"
proof (rule visible_trimmed)
  have "is_digit (last (dec_of_nat (nat n)))"
    using dec_of_nat_digits [of "nat n"] dec_of_nat_nonempty [of "nat n"] last_in_set by blast
  with assms show "visible (last (p @ dec_of_int n))"
    by (simp add: dec_of_int_def is_digit_visible)
qed (use assms in auto)

lemma maxCounter_prefixed:
  assumes "p \<noteq> []" and "visible (hd p)" and "0 \<le> n" and "n \<le> int64_max"
  shows "maxCounterFromIdentifier (p @ dec_of_int n) p c = max c n"
  using assms
  by (simp add: maxCounterFromIdentifier_def trimmed_TrimSpace [OF trimmed_prefixed]
      counter_value_dec)

lemma maxCounter_format:
  "0 \<le> n \<Longrightarrow> n \<le> int64_max \<Longrightarrow>
     maxCounterFromIdentifier (formatTaskIdentifier n) ''task-'' c = max c n"
  unfolding formatTaskIdentifier_def by (rule maxCounter_prefixed) (simp_all add: visible_def)

lemma formatTaskIdentifier_trimmed: "0 \<le> n \<Longrightarrow> trimmed (formatTaskIdentifier n)"
  unfolding formatTaskIdentifier_def by (rule trimmed_prefixed) (simp_all add: visible_def)

lemma formatTaskIdentifier_nonempty [simp]: "formatTaskIdentifier n \<noteq> []"
  by (simp add: formatTaskIdentifier_def)

lemma covered_format_iff:
  "0 \<le> n \<Longrightarrow> n \<le> int64_max \<Longrightarrow> covered c (formatTaskIdentifier n) \<longleftrightarrow> n \<le> c"
  by (auto simp: covered_def maxCounter_format)

lemma record_counter_ge: "n \<le> record_counter ts n"
  unfolding record_counter_def
  by (induction ts arbitrary: n) (auto intro: order_trans maxCounter_ge)

lemma record_counter_covered:
  assumes "t \<in> set ts"
  shows "covered (record_counter ts n) (t_ID t)"
  using assms
proof (induction ts arbitrary: n)
  case (Cons u us)
  let ?m = "maxCounterFromIdentifier (t_ID u) ''task-'' n"
  have step: "record_counter (u # us) n = record_counter us ?m"
    by (simp add: record_counter_def)
  show ?case
  proof (cases "t = u")
    case True
    then show ?thesis
      unfolding step by (metis covered_maxCounter covered_mono record_counter_ge)
  next
    case False
    with Cons show ?thesis by (simp add: step)
  qed
qed simp

subsection \<open>The operations of the allocator\<close>

lemma writeTaskSequence_cases:
  assumes "writeTaskSequence st w = (r, w')"
  obtains (failed) e where "r = Inl e" and "disk w' = disk w"
    | (written) "r = Inr ()" and "0 \<le> q_LastTask st"
      and "w_sequence w' = Some (Json (st\<lparr>q_SchemaVersion := currentSequenceVersion\<rparr>))"
      and "w_dirs w' = w_dirs w" and "w_tasks w' = w_tasks w"
      and "w_journal w' = w_journal w" and "w_index w' = w_index w"
proof (cases "q_LastTask st < 0")
  case True
  show ?thesis by (rule that(1)) (use True assms in \<open>auto simp: writeTaskSequence_def\<close>)
next
  case False
  with assms have "writeJSONFileAtomic (\<lambda>w. w\<lparr>w_sequence :=
      Some (Json (st\<lparr>q_SchemaVersion := currentSequenceVersion\<rparr>))\<rparr>) w = (r, w')"
    by (simp add: writeTaskSequence_def)
  then show ?thesis
  proof (cases rule: writeJSONFileAtomic_cases)
    case (failed e)
    show ?thesis by (rule that(1)) (use failed in simp_all)
  next
    case (written w'')
    show ?thesis by (rule that(2)) (use False written in \<open>auto dest: disk_eqD\<close>)
  qed
qed

lemma saveLocked_cases:
  assumes "saveLocked (a, w) = (r, (a', w'))"
  obtains (memory) "al_root a = []" and "r = Inr ()" and "a' = a" and "w' = w"
    | (failed) e where "al_root a \<noteq> []" and "r = Inl e" and "a' = a" and "disk w' = disk w"
    | (written) "al_root a \<noteq> []" and "r = Inr ()" and "a' = a" and "0 \<le> al_next a"
      and "w_sequence w' = Some (Json
             \<lparr>q_SchemaVersion = currentSequenceVersion, q_LastTask = al_next a\<rparr>)"
      and "w_dirs w' = w_dirs w" and "w_tasks w' = w_tasks w"
      and "w_journal w' = w_journal w" and "w_index w' = w_index w"
proof (cases "al_root a = []")
  case True
  show ?thesis by (rule that(1)) (use True assms in \<open>auto simp: saveLocked_def\<close>)
next
  case False
  with assms have "a' = a"
    and "writeTaskSequence \<lparr>q_SchemaVersion = 0, q_LastTask = al_next a\<rparr> w = (r, w')"
    by (auto simp: saveLocked_def on_world_def split: prod.splits)
  from this(2) show ?thesis
  proof (cases rule: writeTaskSequence_cases)
    case (failed e)
    show ?thesis by (rule that(2)) (use False \<open>a' = a\<close> failed in simp_all)
  next
    case written
    show ?thesis by (rule that(3)) (use False \<open>a' = a\<close> written in simp_all)
  qed
qed

lemma Next_cases:
  assumes "Next (a, w) = (r, (a', w'))"
  obtains (failed) e where "r = Inl e" and "a' = a" and "disk w' = disk w"
    | (allocated) "r = Inr (formatTaskIdentifier (wrap64 (al_next a + 1)))"
      and "a' = a\<lparr>al_next := wrap64 (al_next a + 1)\<rparr>"
      and "al_root a = [] \<and> w_sequence w' = w_sequence w \<or> 0 \<le> al_next a' \<and> w_sequence w' = Some (Json
             \<lparr>q_SchemaVersion = currentSequenceVersion, q_LastTask = al_next a'\<rparr>)"
      and "w_dirs w' = w_dirs w" and "w_tasks w' = w_tasks w"
      and "w_journal w' = w_journal w" and "w_index w' = w_index w"
proof -
  obtain r1 a1 w1 where sv: "saveLocked (a\<lparr>al_next := wrap64 (al_next a + 1)\<rparr>, w) = (r1, (a1, w1))"
    by (metis prod_cases3)
  then show ?thesis
  proof (cases rule: saveLocked_cases)
    case memory
    show ?thesis by (rule that(2)) (use assms memory in \<open>auto simp: Next_def sv\<close>)
  next
    case (failed e)
    show ?thesis by (rule that(1)) (use assms failed in \<open>auto simp: Next_def sv\<close>)
  next
    case written
    show ?thesis by (rule that(2)) (use assms written in \<open>auto simp: Next_def sv\<close>)
  qed
qed

lemma Bump_cases:
  assumes "Bump ident (a, w) = (r, (a', w'))"
  obtains (failed) e where "r = Inl e" and "a' = a" and "disk w' = disk w"
    | (bumped) "r = Inr ()"
      and "a' = a\<lparr>al_next := maxCounterFromIdentifier ident ''task-'' (al_next a)\<rparr>"
      and "w_dirs w' = w_dirs w" and "w_tasks w' = w_tasks w"
      and "w_journal w' = w_journal w" and "w_index w' = w_index w"
      and "w_sequence w' = w_sequence w \<and> (al_root a = [] \<or> a' = a) \<or> 0 \<le> al_next a' \<and> w_sequence w' = Some (Json
             \<lparr>q_SchemaVersion = currentSequenceVersion, q_LastTask = al_next a'\<rparr>)"
proof (cases "maxCounterFromIdentifier ident ''task-'' (al_next a) = al_next a")
  case True
  show ?thesis by (rule that(2)) (use True assms in \<open>auto simp: Bump_def\<close>)
next
  case False
  let ?a1 = "a\<lparr>al_next := maxCounterFromIdentifier ident ''task-'' (al_next a)\<rparr>"
  obtain r1 a1 w1 where sv: "saveLocked (?a1, w) = (r1, (a1, w1))"
    by (metis prod_cases3)
  then show ?thesis
  proof (cases rule: saveLocked_cases)
    case memory
    show ?thesis by (rule that(2)) (use assms False memory in \<open>auto simp: Bump_def sv\<close>)
  next
    case (failed e)
    show ?thesis by (rule that(1)) (use assms False failed in \<open>auto simp: Bump_def sv\<close>)
  next
    case written
    show ?thesis by (rule that(2)) (use assms False written in \<open>auto simp: Bump_def sv\<close>)
  qed
qed

subsection \<open>The interface of an identifier source\<close>

text \<open>
  What the task service relies on when it creates tasks: an identifier it is handed was not
  covered before and is covered from then on, and an identifier it announces is covered.
  \<open>room n\<close> says that \<open>n\<close> more identifiers fit before the counter overflows.
\<close>

fun alloc_many :: "('s \<Rightarrow> (error + string) \<times> 's) \<Rightarrow> nat \<Rightarrow> 's \<Rightarrow> (error + string list) \<times> 's" where
  "alloc_many nxt 0 s = (Inr [], s)"
| "alloc_many nxt (Suc n) s =
     bindE nxt (\<lambda>i. bindE (alloc_many nxt n) (\<lambda>is. returnE (i # is))) s"

locale id_source =
  fixes next_id :: "'s \<Rightarrow> (error + string) \<times> 's"
    and bump_id :: "string \<Rightarrow> 's \<Rightarrow> (error + unit) \<times> 's"
    and covers :: "'s \<Rightarrow> string \<Rightarrow> bool"
    and room :: "nat \<Rightarrow> 's \<Rightarrow> bool"
  assumes room_less: "room (Suc n) s \<Longrightarrow> room n s"
    and next_room: "room (Suc n) s \<Longrightarrow> next_id s = (r, t) \<Longrightarrow> room n t"
    and next_fresh: "room (Suc n) s \<Longrightarrow> next_id s = (Inr i, t) \<Longrightarrow> \<not> covers s i \<and> covers t i"
    and next_keeps: "room (Suc n) s \<Longrightarrow> next_id s = (r, t) \<Longrightarrow> covers s j \<Longrightarrow> covers t j"
    and bump_covers: "bump_id i s = (Inr (), t) \<Longrightarrow> covers t i"
    and bump_keeps: "bump_id i s = (b, t) \<Longrightarrow> covers s j \<Longrightarrow> covers t j"
begin

lemma alloc_many_keeps:
  "room n s \<Longrightarrow> alloc_many next_id n s = (r, t) \<Longrightarrow> covers s j \<Longrightarrow> covers t j"
proof (induction n arbitrary: s r)
  case (Suc n)
  from Suc.prems(2) consider (fail) e where "next_id s = (Inl e, t)"
    | (ok) i s1 r1 where "next_id s = (Inr i, s1)" and "alloc_many next_id n s1 = (r1, t)"
    by (auto elim!: bindE_casesE)
  then show ?case
    by cases (use Suc next_keeps next_room in blast)+
qed simp

lemma alloc_many_fresh:
  "room n s \<Longrightarrow> alloc_many next_id n s = (Inr is, t) \<Longrightarrow>
     length is = n \<and> distinct is \<and> (\<forall>i \<in> set is. \<not> covers s i \<and> covers t i)"
proof (induction n arbitrary: s "is")
  case (Suc n)
  from Suc.prems(2) obtain i js u where nxt: "next_id s = (Inr i, u)"
    and rest: "alloc_many next_id n u = (Inr js, t)" and is_eq: "is = i # js"
    by (auto elim!: bindE_InrE)
  from Suc.prems(1) nxt have room_u: "room n u" by (rule next_room)
  from Suc.prems(1) nxt have i: "\<not> covers s i" "covers u i" by (auto dest: next_fresh)
  from Suc.IH [OF room_u rest] have js: "length js = n" "distinct js"
    "\<forall>j \<in> set js. \<not> covers u j \<and> covers t j" by auto
  have "covers t i" using alloc_many_keeps [OF room_u rest i(2)] .
  moreover have "\<forall>j \<in> set js. \<not> covers s j"
    using js(3) next_keeps [OF Suc.prems(1) nxt] by blast
  ultimately show ?case using js i is_eq by auto
qed simp

end

definition alloc_covers :: "alloc_state \<Rightarrow> string \<Rightarrow> bool" where
  "alloc_covers s = covered (al_next (fst s))"

definition alloc_room :: "nat \<Rightarrow> alloc_state \<Rightarrow> bool" where
  "alloc_room n s \<longleftrightarrow> 0 \<le> al_next (fst s) \<and> al_next (fst s) + int n \<le> int64_max"

interpretation allocator: id_source Next Bump alloc_covers alloc_room
proof unfold_locales
  fix n r j and s t :: alloc_state
  assume room: "alloc_room (Suc n) s" and nxt: "Next s = (r, t)"
  obtain a w a' w' where st: "s = (a, w)" "t = (a', w')" by (cases s; cases t)
  from room st have w: "wrap64 (al_next a + 1) = al_next a + 1"
    by (simp add: alloc_room_def wrap64_id)
  from nxt [unfolded st] show "alloc_room n t"
    by (cases rule: Next_cases) (use room w in \<open>auto simp: alloc_room_def st\<close>)
  assume "alloc_covers s j"
  with nxt [unfolded st] show "alloc_covers t j"
    by (cases rule: Next_cases) (use w in \<open>auto simp: alloc_covers_def st elim: covered_mono\<close>)
next
  fix n i and s t :: alloc_state
  assume room: "alloc_room (Suc n) s" and nxt: "Next s = (Inr i, t)"
  obtain a w a' w' where st: "s = (a, w)" "t = (a', w')" by (cases s; cases t)
  from room st have w: "wrap64 (al_next a + 1) = al_next a + 1"
    by (simp add: alloc_room_def wrap64_id)
  from nxt [unfolded st] show "\<not> alloc_covers s i \<and> alloc_covers t i"
    by (cases rule: Next_cases)
      (use room w in \<open>auto simp: alloc_covers_def alloc_room_def st covered_format_iff\<close>)
next
  fix i r j and s t :: alloc_state
  obtain a w a' w' where st: "s = (a, w)" "t = (a', w')" by (cases s; cases t)
  { assume "Bump i s = (Inr (), t)"
    from this [unfolded st] show "alloc_covers t i"
      by (cases rule: Bump_cases) (auto simp: alloc_covers_def st covered_maxCounter) }
  { assume bmp: "Bump i s = (r, t)" and "alloc_covers s j"
    from bmp [unfolded st] show "alloc_covers t j"
      by (cases rule: Bump_cases)
        (use \<open>alloc_covers s j\<close> in \<open>auto simp: alloc_covers_def st elim: covered_mono intro: maxCounter_ge\<close>) }
qed (simp add: alloc_room_def)

subsection \<open>Start-up reconciliation\<close>

lemma validateTaskRecordVersion_Inr:
  "validateTaskRecordVersion r = Inr r' \<Longrightarrow>
     r' = r\<lparr>r_SchemaVersion := currentTaskSchemaVersion\<rparr>"
  by (auto simp: validateTaskRecordVersion_def split: if_splits)

lemma scan_entries_covers:
  assumes "scan_entries ds n w = (Inr m, w')"
  shows "disk w' = disk w \<and> n \<le> m \<and> (\<forall>d \<in> set ds. covered m d \<and>
     (\<forall>rec. mget (w_tasks w) d = Some (Json rec) \<longrightarrow> (\<forall>t \<in> set (r_Tasks rec). covered m (t_ID t))))"
  using assms
proof (induction ds arbitrary: n w)
  case (Cons d ds)
  let ?n1 = "maxCounterFromIdentifier d ''task-'' n"
  show ?case
  proof (cases "mget (w_tasks w) d")
    case None
    with Cons.prems obtain u where u: "io_step w = (Inr (), u)" "scan_entries ds ?n1 u = (Inr m, w')"
      by (auto elim!: bindE_InrE)
    with Cons.IH [OF u(2)] None show ?thesis
      using io_step_disk [OF u(1)] disk_eqD(2) [of u w] maxCounter_ge [of n d "''task-''"]
      by (auto intro: covered_mono [OF covered_maxCounter])
  next
    case (Some f)
    with Cons.prems obtain rec rec' u where rd: "readJSONFile (Some f) zero_record w = (Inr rec, u)"
      and v: "validateTaskRecordVersion rec = Inr rec'"
      and rest: "scan_entries ds (record_counter (r_Tasks rec') ?n1) u = (Inr m, w')"
      by (auto elim!: bindE_InrE split: sum.splits)
    from v have rt: "r_Tasks rec' = r_Tasks rec"
      by (auto dest!: validateTaskRecordVersion_Inr)
    note IH = Cons.IH [OF rest]
    have le: "?n1 \<le> m" using IH record_counter_ge [of ?n1 "r_Tasks rec'"] by linarith
    moreover have "covered m (t_ID t)" if "f = Json r" "t \<in> set (r_Tasks r)" for r t
      using that readJSONFile_value [OF rd] rt IH
      by (auto intro: covered_mono [OF record_counter_covered])
    ultimately show ?thesis
      using IH Some readJSONFile_disk [OF rd] disk_eqD(2) [of u w] maxCounter_ge [of n d "''task-''"]
      by (auto intro: covered_mono [OF covered_maxCounter])
  qed
qed simp

lemma persistedTaskSequence_covers:
  assumes "persistedTaskSequence w = (Inr m, w')"
  shows "disk w' = disk w \<and> 0 \<le> m \<and> (\<forall>d \<in> set (w_dirs w). covered m d \<and>
     (\<forall>rec. mget (w_tasks w) d = Some (Json rec) \<longrightarrow> (\<forall>t \<in> set (r_Tasks rec). covered m (t_ID t))))"
proof -
  from assms obtain u n v where u: "io_step w = (Inr (), u)"
    and sc: "scan_entries (sort (w_dirs w)) 0 u = (Inr n, v)"
    and rest: "(case w_index w of None \<Rightarrow> bindE io_step (\<lambda>_. returnE n)
       | Some f \<Rightarrow> bindE (readJSONFile (Some f) 0) (\<lambda>legacy.
           if legacy < 0 then throwE (ErrText ''legacy task id counter is invalid'')
           else returnE (if legacy > n then legacy else n))) v = (Inr m, w')"
    unfolding persistedTaskSequence_def by (elim bindE_InrE) auto
  from rest have "disk w' = disk v \<and> n \<le> m"
    by (auto split: option.splits if_splits elim!: bindE_InrE dest: io_step_disk readJSONFile_disk)
  with scan_entries_covers [OF sc] io_step_disk [OF u] disk_eqD(2) [of u w] show ?thesis
    by (auto intro: covered_mono)
qed

lemma readTaskSequence_cases:
  assumes "readTaskSequence w = (Inr (st, ok), w')"
  shows "disk w' = disk w \<and> (ok \<longrightarrow> 0 \<le> q_LastTask st) \<and>
     (\<forall>q. w_sequence w = Some (Json q) \<longrightarrow> ok \<and> st = q)"
  using assms unfolding readTaskSequence_def
  by (auto split: option.splits if_splits elim!: bindE_InrE
      dest: io_step_disk readJSONFile_disk readJSONFile_value)

lemma on_world_Inr: "on_world m (a, w) = (Inr x, s) \<longleftrightarrow> (\<exists>w'. m w = (Inr x, w') \<and> s = (a, w'))"
  by (auto simp: on_world_def split: prod.splits)

lemma load_obtains:
  assumes "load (a, w) = (Inr (), (a', w'))" and "al_root a \<noteq> []"
  obtains st ok n0 w1 w2 where
    "readTaskSequence w = (Inr (st, ok), w1)" and "persistedTaskSequence w1 = (Inr n0, w2)"
    and "a' = a\<lparr>al_next := (if ok \<and> q_LastTask st > n0 then q_LastTask st else n0)\<rparr>"
    and "(if \<not> ok \<or> q_SchemaVersion st \<noteq> currentSequenceVersion \<or> q_LastTask st \<noteq> al_next a'
          then writeTaskSequence \<lparr>q_SchemaVersion = 0, q_LastTask = al_next a'\<rparr>
          else returnE ()) w2 = (Inr (), w')"
  using assms(1) unfolding load_def
  by (auto simp: assms(2) Let_def on_world_Inr elim!: bindE_InrE split: if_splits intro!: that)

lemma load_covers:
  assumes "load (a, w) = (Inr (), (a', w'))" and "al_root a \<noteq> []"
  shows "0 \<le> al_next a'"
    and "d \<in> set (w_dirs w) \<Longrightarrow> covered (al_next a') d"
    and "d \<in> set (w_dirs w) \<Longrightarrow> mget (w_tasks w) d = Some (Json rec) \<Longrightarrow>
           t \<in> set (r_Tasks rec) \<Longrightarrow> covered (al_next a') (t_ID t)"
    and "w_sequence w = Some (Json q) \<Longrightarrow> q_LastTask q \<le> al_next a'"
proof -
  from assms obtain st ok n0 w1 w2 where rd: "readTaskSequence w = (Inr (st, ok), w1)"
    and ps: "persistedTaskSequence w1 = (Inr n0, w2)"
    and a': "a' = a\<lparr>al_next := (if ok \<and> q_LastTask st > n0 then q_LastTask st else n0)\<rparr>"
    by (rule load_obtains)
  note R = readTaskSequence_cases [OF rd] and P = persistedTaskSequence_covers [OF ps]
  have D: "w_dirs w1 = w_dirs w" "w_tasks w1 = w_tasks w" using R disk_eqD by blast+
  have le: "n0 \<le> al_next a'" using a' by simp
  with P show "0 \<le> al_next a'" by linarith
  show "covered (al_next a') d" if "d \<in> set (w_dirs w)"
    using that P D le covered_mono by metis
  show "covered (al_next a') (t_ID t)"
    if "d \<in> set (w_dirs w)" "mget (w_tasks w) d = Some (Json rec)" "t \<in> set (r_Tasks rec)"
    using that P D le covered_mono by metis
  show "q_LastTask q \<le> al_next a'" if "w_sequence w = Some (Json q)"
    using R that a' by auto
qed

text \<open>
  A successful \<open>load\<close> of the persistent allocator leaves a counter that covers every
  directory name and every task identifier in every readable record of the store, and is at
  least the number in \<open>sequence.json\<close>: no identifier on disk can be handed out again.
\<close>

theorem load_covers_store:
  assumes "load (a, w) = (Inr (), (a', w'))" and "al_root a \<noteq> []"
  shows "0 \<le> al_next a' \<and>
     (\<forall>d \<in> set (w_dirs w). covered (al_next a') d \<and>
        (\<forall>rec t. mget (w_tasks w) d = Some (Json rec) \<and> t \<in> set (r_Tasks rec) \<longrightarrow>
           covered (al_next a') (t_ID t))) \<and>
     (\<forall>q. w_sequence w = Some (Json q) \<longrightarrow> q_LastTask q \<le> al_next a')"
  using load_covers [OF assms] by blast

theorem load_covers_store_witness:
  "(let w = \<lparr>w_dirs = [''task-7''],
        w_tasks = [(''task-7'', Json (zero_record\<lparr>r_Tasks :=
          [zero_task\<lparr>t_ID := ''task-7''\<rparr>, zero_task\<lparr>t_ID := ''task-12''\<rparr>]\<rparr>))],
        w_journal = [], w_sequence = None, w_index = None, w_faults = []\<rparr>;
      a = \<lparr>al_root = ''tasks'', al_next = 0\<rparr>;
      a' = fst (snd (load (a, w)))
    in fst (load (a, w)) = Inr () \<and> al_next a' = 12 \<and> covered 12 ''task-7'')"
proof -
  let ?w = "\<lparr>w_dirs = [''task-7''],
        w_tasks = [(''task-7'', Json (zero_record\<lparr>r_Tasks :=
          [zero_task\<lparr>t_ID := ''task-7''\<rparr>, zero_task\<lparr>t_ID := ''task-12''\<rparr>]\<rparr>))],
        w_journal = [], w_sequence = None, w_index = None, w_faults = []\<rparr>"
  let ?a = "\<lparr>al_root = ''tasks'', al_next = 0\<rparr>"
  have l: "load (?a, ?w) = (Inr (), (\<lparr>al_root = ''tasks'', al_next = 12\<rparr>, ?w\<lparr>w_sequence :=
      Some (Json \<lparr>q_SchemaVersion = 1, q_LastTask = 12\<rparr>)\<rparr>))"
    by code_simp
  have "covered 12 ''task-7''" using load_covers_store [OF l] by simp
  then show ?thesis by (simp add: l Let_def)
qed

text \<open>
  At the largest \<open>int64\<close> the counter wraps: an allocator with a directory then refuses
  and keeps its state and its files, but an in-memory one hands out a negative number.
\<close>

theorem Next_overflow:
  assumes "al_next a = int64_max"
  shows "Next (a, w) =
     (if al_root a \<noteq> [] then (Inl (ErrText ''task id sequence is invalid''), (a, w))
      else (Inr (formatTaskIdentifier int64_min), (a\<lparr>al_next := int64_min\<rparr>, w)))"
proof -
  have w: "wrap64 (al_next a + 1) = int64_min" by (simp only: assms wrap64_overflow)
  with assms show ?thesis
    by (cases a) (simp add: Next_def saveLocked_def on_world_def writeTaskSequence_def)
qed

theorem Next_overflow_witness:
  "(let w = \<lparr>w_dirs = [], w_tasks = [], w_journal = [], w_sequence = None, w_index = None,
        w_faults = []\<rparr>;
      a = \<lparr>al_root = [], al_next = int64_max\<rparr>
    in Next (a, w) = (Inr (formatTaskIdentifier int64_min), (\<lparr>al_root = [], al_next = int64_min\<rparr>, w)))"
  using Next_overflow [of "\<lparr>al_root = [], al_next = int64_max\<rparr>"] by (simp add: Let_def)

text \<open>
  The counters in the files can be read: \<open>sequence.json\<close> and the legacy \<open>index.json\<close>, where they
  exist, decode to a number that is not negative, and the version of the first is known.
\<close>

definition counters_ok :: "World \<Rightarrow> bool" where
  "counters_ok w \<longleftrightarrow>
     (case w_sequence w of
        Some (Json q) \<Rightarrow> 0 \<le> q_LastTask q \<and> (q_SchemaVersion q = 0 \<or> q_SchemaVersion q = currentSequenceVersion)
      | Some Garbled \<Rightarrow> False | _ \<Rightarrow> True) \<and>
     (case w_index w of Some (Json n) \<Rightarrow> 0 \<le> n | Some Garbled \<Rightarrow> False | _ \<Rightarrow> True)"

lemma counters_ok_cong:
  "w_sequence w' = w_sequence w \<Longrightarrow> w_index w' = w_index w \<Longrightarrow> counters_ok w' = counters_ok w"
  by (simp add: counters_ok_def)

lemma counters_ok_disk: "disk w' = disk w \<Longrightarrow> counters_ok w \<Longrightarrow> counters_ok w'"
  using counters_ok_cong [OF disk_eqD(4,5)] by blast

lemma counters_ok_written:
  "counters_ok w \<Longrightarrow> w_index w' = w_index w \<Longrightarrow> 0 \<le> n \<Longrightarrow>
     w_sequence w' = Some (Json \<lparr>q_SchemaVersion = currentSequenceVersion, q_LastTask = n\<rparr>) \<Longrightarrow> counters_ok w'"
  by (simp add: counters_ok_def)

lemma scan_entries_succeeds:
  assumes "w_faults w = []" and "\<forall>d f. mget (w_tasks w) d = Some f \<longrightarrow> (\<exists>rec. f = Json rec \<and> r_SchemaVersion rec \<in> {0, 2})"
  shows "\<exists>m. scan_entries ds n w = (Inr m, w)"
proof (induction ds arbitrary: n)
  case (Cons d ds)
  show ?case
  proof (cases "mget (w_tasks w) d")
    case None
    with Cons assms(1) show ?thesis by simp
  next
    case (Some f)
    with assms(2) obtain rec where "f = Json rec" "r_SchemaVersion rec \<in> {0, 2}" by blast
    with Some Cons assms(1) show ?thesis
      by (auto simp: readJSONFile_def validateTaskRecordVersion_def currentTaskSchemaVersion_def)
  qed
qed simp

lemma persistedTaskSequence_succeeds:
  assumes "w_faults w = []" and "\<forall>d f. mget (w_tasks w) d = Some f \<longrightarrow> (\<exists>rec. f = Json rec \<and> r_SchemaVersion rec \<in> {0, 2})"
    and "counters_ok w"
  shows "\<exists>m. persistedTaskSequence w = (Inr m, w)"
proof -
  obtain m where "scan_entries (sort (w_dirs w)) 0 w = (Inr m, w)" using scan_entries_succeeds [OF assms(1,2)] by blast
  with assms(1,3) show ?thesis
    by (auto simp: persistedTaskSequence_def readJSONFile_def counters_ok_def split: option.splits jfile.splits)
qed

text \<open>On readable files \<open>load\<close> succeeds, if no access fails, and leaves the task files as they are.\<close>

lemma load_succeeds:
  assumes "w_faults w = []" and "\<forall>d f. mget (w_tasks w) d = Some f \<longrightarrow> (\<exists>rec. f = Json rec \<and> r_SchemaVersion rec \<in> {0, 2})"
    and "counters_ok w" and "al_root a \<noteq> []"
  obtains n q where "load (a, w) = (Inr (), (a\<lparr>al_next := n\<rparr>, w\<lparr>w_sequence := q\<rparr>))"
proof -
  obtain m where m: "persistedTaskSequence w = (Inr m, w)" using persistedTaskSequence_succeeds [OF assms(1-3)] by blast
  have m0: "0 \<le> m" using persistedTaskSequence_covers [OF m] by simp
  have "\<exists>st ok. readTaskSequence w = (Inr (st, ok), w) \<and> 0 \<le> q_LastTask st"
    using assms(1,3)
    by (auto simp: readTaskSequence_def readJSONFile_def counters_ok_def zero_sequence_def
        split: option.splits jfile.splits)
  then obtain st ok where rd: "readTaskSequence w = (Inr (st, ok), w)" "0 \<le> q_LastTask st" by blast
  let ?n = "if ok \<and> q_LastTask st > m then q_LastTask st else m"
  have wr: "writeTaskSequence \<lparr>q_SchemaVersion = 0, q_LastTask = ?n\<rparr> w = (Inr (), w\<lparr>w_sequence :=
      Some (Json \<lparr>q_SchemaVersion = currentSequenceVersion, q_LastTask = ?n\<rparr>)\<rparr>)"
    using assms(1) m0 rd(2) by (simp add: writeTaskSequence_def writeJSONFileAtomic_def)
  show ?thesis
  proof (cases "\<not> ok \<or> q_SchemaVersion st \<noteq> currentSequenceVersion \<or> q_LastTask st \<noteq> ?n")
    case True
    show ?thesis
      by (rule that [of ?n "Some (Json \<lparr>q_SchemaVersion = currentSequenceVersion, q_LastTask = ?n\<rparr>)"])
        (use True wr rd(1) m assms(4) in \<open>simp add: load_def on_world_def Let_def\<close>)
  next
    case False
    show ?thesis
      by (rule that [of ?n "w_sequence w"])
        (use False rd(1) m assms(4) in \<open>simp add: load_def on_world_def Let_def\<close>)
  qed
qed

subsection \<open>No identifier is issued twice\<close>

text \<open>
  The life of a store across processes. A state is the registered allocator of the running
  process, if any, the files, and the identifiers handed out so far, by all processes. A
  process opens the store, draws and announces identifiers, and may end at any moment; every
  call may meet failures of the file system. Everything else that happens to the files leaves
  \<open>sequence.json\<close> alone, since only this component writes it; \<open>int64_files\<close> says that the
  counters in the files are 64-bit numbers.
\<close>

definition int64_files :: "World \<Rightarrow> bool" where
  "int64_files w \<longleftrightarrow>
     (case w_sequence w of Some (Json q) \<Rightarrow> q_LastTask q \<le> int64_max | _ \<Rightarrow> True) \<and>
     (case w_index w of Some (Json n) \<Rightarrow> n \<le> int64_max | _ \<Rightarrow> True)"

datatype alloc_op = OpenStore string | DrawNext | Announce string | EndProcess | OtherFiles

type_synonym alloc_run = "registry \<times> World \<times> string list"

definition alloc_init :: "alloc_run \<Rightarrow> bool" where
  "alloc_init = (\<lambda>(reg, w, issued). reg = None \<and> int64_files w \<and> issued = [])"

inductive alloc_step :: "alloc_run \<Rightarrow> alloc_op \<Rightarrow> alloc_run \<Rightarrow> bool" where
  step_open: "newPersistentTaskIDAllocator root (reg, w) = (r, (reg', w')) \<Longrightarrow>
     alloc_step (reg, w, issued) (OpenStore root) (reg', w', issued)"
| step_drawn: "Next (a, w) = (Inr ident, (a', w')) \<Longrightarrow>
     alloc_step (Some a, w, issued) DrawNext (Some a', w', issued @ [ident])"
| step_refused: "Next (a, w) = (Inl e, (a', w')) \<Longrightarrow>
     alloc_step (Some a, w, issued) DrawNext (Some a', w', issued)"
| step_bump: "Bump ident (a, w) = (r, (a', w')) \<Longrightarrow>
     alloc_step (Some a, w, issued) (Announce ident) (Some a', w', issued)"
| step_end: "alloc_step (reg, w, issued) EndProcess (None, w, issued)"
| step_files: "w_sequence w' = w_sequence w \<Longrightarrow> int64_files w' \<Longrightarrow>
     alloc_step (reg, w, issued) OtherFiles (reg, w', issued)"

text \<open>The invariant: what was issued is covered by the file, and by the registered counter.\<close>

definition alloc_inv :: "alloc_run \<Rightarrow> bool" where
  "alloc_inv = (\<lambda>(reg, w, issued). int64_files w \<and> distinct issued \<and>
     (\<forall>a. reg = Some a \<longrightarrow> al_root a \<noteq> [] \<and> 0 \<le> al_next a \<and> al_next a \<le> int64_max \<and>
        (\<forall>i \<in> set issued. covered (al_next a) i)) \<and>
     (issued \<noteq> [] \<longrightarrow> (\<exists>q. w_sequence w = Some (Json q) \<and> (\<forall>i \<in> set issued. covered (q_LastTask q) i))))"

lemma counter_value_le: "counter_value cs v = Some u \<Longrightarrow> v \<le> int64_max \<Longrightarrow> u \<le> int64_max"
proof (induction cs arbitrary: v)
  case (Cons c cs)
  then show ?case using wrap64_range [of "v * 10 + digit_val c"] by (auto split: if_splits)
qed simp

lemma maxCounter_le: "n \<le> int64_max \<Longrightarrow> maxCounterFromIdentifier ident pref n \<le> int64_max"
  using counter_value_le [of _ 0]
  by (auto simp: maxCounterFromIdentifier_def Let_def split: option.splits)

lemma record_counter_le: "n \<le> int64_max \<Longrightarrow> record_counter ts n \<le> int64_max"
  unfolding record_counter_def by (induction ts arbitrary: n) (simp_all add: maxCounter_le)

lemma scan_entries_le:
  "scan_entries ds n w = (Inr m, w') \<Longrightarrow> n \<le> int64_max \<Longrightarrow> m \<le> int64_max"
proof (induction ds arbitrary: n w)
  case (Cons d ds)
  then show ?case
    by (auto simp: Let_def elim!: bindE_InrE split: option.splits sum.splits
        dest!: Cons.IH simp: record_counter_le maxCounter_le)
qed simp

lemma persistedTaskSequence_le:
  assumes "persistedTaskSequence w = (Inr m, w')" and "int64_files w"
  shows "m \<le> int64_max"
proof -
  from assms(1) obtain u n v where sc: "scan_entries (sort (w_dirs w)) 0 u = (Inr n, v)"
    and rest: "(case w_index w of None \<Rightarrow> bindE io_step (\<lambda>_. returnE n)
       | Some f \<Rightarrow> bindE (readJSONFile (Some f) 0) (\<lambda>legacy.
           if legacy < 0 then throwE (ErrText ''legacy task id counter is invalid'')
           else returnE (if legacy > n then legacy else n))) v = (Inr m, w')"
    unfolding persistedTaskSequence_def by (elim bindE_InrE) auto
  from scan_entries_le [OF sc] have n: "n \<le> int64_max" by (simp add:)
  show ?thesis
  proof (cases "w_index w")
    case None
    with rest n show ?thesis by (auto elim!: bindE_InrE)
  next
    case (Some f)
    with rest assms(2) n show ?thesis
      by (cases f) (auto simp: readJSONFile_def int64_files_def elim!: bindE_InrE split: if_splits)
  qed
qed

lemma readTaskSequence_le:
  "readTaskSequence w = (Inr (st, ok), w') \<Longrightarrow> int64_files w \<Longrightarrow> q_LastTask st \<le> int64_max"
  unfolding readTaskSequence_def
  by (auto simp: readJSONFile_def int64_files_def zero_sequence_def elim!: bindE_InrE
      split: option.splits jfile.splits if_splits)

lemma int64_files_disk: "disk w' = disk w \<Longrightarrow> int64_files w' \<longleftrightarrow> int64_files w"
  by (auto simp: int64_files_def dest: disk_eqD)

lemma load_persistent:
  assumes "load (a, w) = (Inr (), (a', w'))" and "al_root a \<noteq> []" and "int64_files w"
  shows "al_root a' = al_root a" and "al_next a' \<le> int64_max" and "int64_files w'"
    and "w_sequence w = Some (Json q) \<Longrightarrow> \<exists>q'. w_sequence w' = Some (Json q') \<and> q_LastTask q \<le> q_LastTask q'"
proof -
  from assms(1,2) obtain st ok n0 w1 w2 where rd: "readTaskSequence w = (Inr (st, ok), w1)"
    and ps: "persistedTaskSequence w1 = (Inr n0, w2)"
    and a': "a' = a\<lparr>al_next := (if ok \<and> q_LastTask st > n0 then q_LastTask st else n0)\<rparr>"
    and wr: "(if \<not> ok \<or> q_SchemaVersion st \<noteq> currentSequenceVersion \<or> q_LastTask st \<noteq> al_next a'
          then writeTaskSequence \<lparr>q_SchemaVersion = 0, q_LastTask = al_next a'\<rparr>
          else returnE ()) w2 = (Inr (), w')" by (rule load_obtains)
  note R = readTaskSequence_cases [OF rd] and P = persistedTaskSequence_covers [OF ps]
  have d: "disk w2 = disk w" using R P by simp
  show "al_root a' = al_root a" using a' by simp
  show le: "al_next a' \<le> int64_max"
  proof -
    have "int64_files w1" using R assms(3) int64_files_disk by blast
    then show ?thesis
      using readTaskSequence_le [OF rd assms(3)] persistedTaskSequence_le [OF ps] by (simp add: a')
  qed
  from wr consider "disk w' = disk w" | "w_index w' = w_index w2" "w_sequence w' = Some (Json
      \<lparr>q_SchemaVersion = currentSequenceVersion, q_LastTask = al_next a'\<rparr>)"
    using d by (auto split: if_splits elim: writeTaskSequence_cases)
  then have "int64_files w' \<and> (w_sequence w = Some (Json q) \<longrightarrow>
      (\<exists>q'. w_sequence w' = Some (Json q') \<and> q_LastTask q \<le> q_LastTask q'))"
  proof cases
    case 1
    with assms(3) disk_eqD(4) [OF 1] int64_files_disk [OF 1] show ?thesis by auto
  next
    case 2
    with assms(3) disk_eqD [OF d] le show ?thesis
      using load_covers(4) [OF assms(1,2)] by (auto simp: int64_files_def)
  qed
  then show "int64_files w'"
    and "w_sequence w = Some (Json q) \<Longrightarrow> \<exists>q'. w_sequence w' = Some (Json q') \<and> q_LastTask q \<le> q_LastTask q'"
    by auto
qed

lemma scan_entries_disk: "scan_entries ds n w = (r, w') \<Longrightarrow> disk w' = disk w"
proof (induction ds arbitrary: n w)
  case (Cons d ds)
  then show ?case
    by (auto simp: Let_def throwE_def elim!: bindE_casesE split: option.splits sum.splits
        dest!: Cons.IH io_step_disk readJSONFile_disk)
qed simp

lemma persistedTaskSequence_disk:
  assumes "persistedTaskSequence w = (r, w')"
  shows "disk w' = disk w"
proof -
  have rest: "disk v' = disk v"
    if "(case i of None \<Rightarrow> bindE io_step (\<lambda>_. returnE n)
       | Some f \<Rightarrow> bindE (readJSONFile (Some f) 0) (\<lambda>legacy.
           if legacy < 0 then throwE (ErrText ''legacy task id counter is invalid'')
           else returnE (if legacy > n then legacy else n))) v = (r, v')" for i n v v'
    using that by (auto simp: throwE_def split: option.splits if_splits elim!: bindE_casesE
        dest: io_step_disk readJSONFile_disk)
  from assms show ?thesis
    unfolding persistedTaskSequence_def
    by (elim bindE_casesE) (auto dest!: rest dest!: io_step_disk scan_entries_disk)
qed

lemma load_failed:
  assumes "load (a, w) = (Inl e, (a', w'))"
  shows "disk w' = disk w"
proof (cases "al_root a = []")
  case True
  with assms show ?thesis by (simp add: load_def)
next
  case False
  have rd: "disk v' = disk v" if "readTaskSequence v = (r, v')" for r v v'
    using that unfolding readTaskSequence_def
    by (auto split: option.splits if_splits elim!: bindE_casesE dest: io_step_disk readJSONFile_disk)
  note ps = persistedTaskSequence_disk
  from assms False show ?thesis
    unfolding load_def
    by (auto simp: on_world_def Let_def elim!: bindE_casesE split: prod.splits if_splits
        dest!: rd ps elim!: writeTaskSequence_cases)
qed

lemma Clean_nonempty: "Clean p \<noteq> []"
  by (simp add: Clean_def Let_def)

lemma newPersistentTaskIDAllocator_cases:
  assumes "newPersistentTaskIDAllocator root (reg, w) = (r, (reg', w'))"
  obtains (kept) "reg' = reg" and "disk w' = disk w"
    | (loaded) a where "reg = None" and "reg' = Some a"
      and "load (\<lparr>al_root = Clean (TrimSpace root), al_next = 0\<rparr>, w) = (Inr (), (a, w'))"
  using assms
  by (auto simp: newPersistentTaskIDAllocator_def split: if_splits option.splits prod.splits sum.splits
      dest: load_failed)

lemma alloc_inv_step:
  assumes "alloc_inv x" and "alloc_step x p y"
  shows "alloc_inv y"
  using assms(2,1)
proof cases
  case (step_open root reg w r reg' w' issued)
  from step_open(4) show ?thesis
  proof (cases rule: newPersistentTaskIDAllocator_cases)
    case kept
    with step_open assms(1) show ?thesis
      using disk_eqD(4) [OF kept(2)] int64_files_disk [OF kept(2)] by (simp add: alloc_inv_def)
  next
    case (loaded a)
    have "al_root \<lparr>al_root = Clean (TrimSpace root), al_next = 0\<rparr> \<noteq> []" by (simp add: Clean_nonempty)
    note L = load_covers(1,4) [OF loaded(3) this] load_persistent [OF loaded(3) this]
    from step_open assms(1) have i: "int64_files w" "distinct issued"
      "issued \<noteq> [] \<longrightarrow> (\<exists>q. w_sequence w = Some (Json q) \<and> (\<forall>i \<in> set issued. covered (q_LastTask q) i))"
      by (simp_all add: alloc_inv_def)
    have "covered (al_next a) j" if "j \<in> set issued" for j
      using that i(3) L(2) covered_mono by fastforce
    moreover have "\<exists>q. w_sequence w' = Some (Json q) \<and> (\<forall>i \<in> set issued. covered (q_LastTask q) i)"
      if "issued \<noteq> []"
      using that i(3) L(6) [OF i(1)] covered_mono by metis
    ultimately show ?thesis
      using step_open loaded i L by (simp add: alloc_inv_def Clean_nonempty)
  qed
next
  case (step_drawn a w ident a' w' issued)
  from step_drawn assms(1) have i: "int64_files w" "distinct issued" "al_root a \<noteq> []" "0 \<le> al_next a"
    "al_next a \<le> int64_max" "\<forall>i \<in> set issued. covered (al_next a) i" by (simp_all add: alloc_inv_def)
  have "al_next a \<noteq> int64_max" using step_drawn(4) i(3) Next_overflow [of a w] by auto
  then have room: "alloc_room 1 (a, w)" using i(4,5) by (simp add: alloc_room_def)
  have fresh: "\<not> covered (al_next a) ident" "covered (al_next a') ident"
    using allocator.next_fresh [of 0 "(a, w)" ident "(a', w')"] room step_drawn(4)
    by (simp_all add: alloc_covers_def)
  have old: "covered (al_next a') j" if "j \<in> set issued" for j
    using allocator.next_keeps [of 0 "(a, w)" "Inr ident" "(a', w')" j] room step_drawn(4) i(6) that
    by (simp add: alloc_covers_def)
  from step_drawn(4) have nx: "a' = a\<lparr>al_next := wrap64 (al_next a + 1)\<rparr>" "0 \<le> al_next a'"
    "w_sequence w' = Some (Json \<lparr>q_SchemaVersion = currentSequenceVersion, q_LastTask = al_next a'\<rparr>)"
    "w_index w' = w_index w" by (cases rule: Next_cases; use i(3) in simp)+
  have "al_next a' \<le> int64_max" using nx(1) wrap64_range [of "al_next a + 1"] by simp
  moreover have "ident \<notin> set issued" using fresh(1) i(6) by blast
  ultimately show ?thesis
    using step_drawn i nx(2-4) fresh(2) old nx(1) by (auto simp: alloc_inv_def int64_files_def)
next
  case (step_refused a w e a' w' issued)
  from step_refused(4) have "a' = a" and d: "disk w' = disk w" by (cases rule: Next_cases; simp)+
  with step_refused assms(1) disk_eqD(4) [OF d] int64_files_disk [OF d] show ?thesis
    by (simp add: alloc_inv_def)
next
  case (step_bump ident a w r a' w' issued)
  from step_bump assms(1) have i: "int64_files w" "distinct issued" "al_root a \<noteq> []" "0 \<le> al_next a"
    "al_next a \<le> int64_max" "\<forall>i \<in> set issued. covered (al_next a) i"
    "issued \<noteq> [] \<longrightarrow> (\<exists>q. w_sequence w = Some (Json q) \<and> (\<forall>i \<in> set issued. covered (q_LastTask q) i))"
    by (simp_all add: alloc_inv_def)
  from step_bump(4) show ?thesis
  proof (cases rule: Bump_cases)
    case (failed e)
    with step_bump assms(1) disk_eqD(4) [OF failed(3)] int64_files_disk [OF failed(3)] show ?thesis
      by (simp add: alloc_inv_def)
  next
    case bumped
    have le: "al_next a \<le> al_next a'" "al_next a' \<le> int64_max" "al_root a' \<noteq> []"
      using bumped(2) maxCounter_ge maxCounter_le i(3,5) by simp_all
    have "covered (al_next a') j" if "j \<in> set issued" for j using that i(6) le(1) covered_mono by blast
    with step_bump i le bumped(6,7) show ?thesis
      by (auto simp: alloc_inv_def int64_files_def)
  qed
next
  case (step_end reg w issued)
  with assms(1) show ?thesis by (simp add: alloc_inv_def)
next
  case (step_files w' w reg issued)
  with assms(1) show ?thesis by (simp add: alloc_inv_def)
qed

interpretation alloc_runs: invariant_system alloc_init alloc_step alloc_inv
proof unfold_locales
  show "alloc_init x \<Longrightarrow> alloc_inv x" for x by (auto simp: alloc_init_def alloc_inv_def)
qed (rule alloc_inv_step)

lemmas alloc_reach = reachable_step [where init = alloc_init and step = alloc_step]

text \<open>
  C3. No identifier is handed out twice over the whole life of a store: in every run of
  openings, draws, announcements of foreign identifiers, ends of processes and failures of
  the file system, the identifiers that \<open>Next\<close> returned are pairwise distinct. Nothing is
  assumed of the counter: at the largest \<open>int64\<close> the allocator refuses. The only condition is
  that nothing but the allocator writes \<open>sequence.json\<close>.
\<close>

theorem identifiers_never_reissued:
  assumes "reachable alloc_init alloc_step (reg, w, issued)"
  shows "distinct issued"
  using alloc_runs.reachable_inv [OF assms] by (simp add: alloc_inv_def)

theorem identifiers_never_reissued_witness:
  "\<exists>reg w. reachable alloc_init alloc_step (reg, w, [''task-1'', ''task-2'']) \<and>
     distinct [''task-1'', ''task-2'']"
proof -
  let ?w = "\<lparr>w_dirs = [], w_tasks = [], w_journal = [], w_sequence = None, w_index = None,
        w_faults = []\<rparr>"
  let ?q = "\<lambda>n. ?w\<lparr>w_sequence := Some (Json \<lparr>q_SchemaVersion = 1, q_LastTask = n\<rparr>)\<rparr>"
  let ?a = "\<lambda>n. \<lparr>al_root = ''tasks'', al_next = n\<rparr>"
  have r0: "reachable alloc_init alloc_step (None, ?w, [])"
    by (rule reachable_init) (simp add: alloc_init_def int64_files_def)
  have "newPersistentTaskIDAllocator ''tasks/'' (None, ?w) = (Inr (?a 0), (Some (?a 0), ?q 0))"
    by code_simp
  from alloc_reach [OF r0 step_open [OF this]]
  have r1: "reachable alloc_init alloc_step (Some (?a 0), ?q 0, [])" .
  have "Next (?a 0, ?q 0) = (Inr ''task-1'', (?a 1, ?q 1))" by code_simp
  from alloc_reach [OF r1 step_drawn [OF this]]
  have r2: "reachable alloc_init alloc_step (Some (?a 1), ?q 1, [''task-1''])" by simp
  note r3 = alloc_reach [OF r2 step_end]
  have "newPersistentTaskIDAllocator ''tasks'' (None, ?q 1) = (Inr (?a 1), (Some (?a 1), ?q 1))"
    by code_simp
  note r4 = alloc_reach [OF r3 step_open [OF this]]
  have "Next (?a 1, ?q 1) = (Inr ''task-2'', (?a 2, ?q 2))" by code_simp
  from alloc_reach [OF r4 step_drawn [OF this]]
  have r5: "reachable alloc_init alloc_step (Some (?a 2), ?q 2, [''task-1'', ''task-2''])" by simp
  show ?thesis by (intro exI conjI, rule r5, rule identifiers_never_reissued [OF r5])
qed

text \<open>
  The identifiers of one planning step: allocating \<open>n\<close> identifiers yields \<open>n\<close> distinct
  ones, none of which was covered before, provided the counter does not overflow.
\<close>

theorem Next_many_distinct:
  assumes "alloc_room n (a, w)" and "alloc_many Next n (a, w) = (Inr idents, (a', w'))"
  shows "length idents = n \<and> distinct idents \<and> (\<forall>i \<in> set idents. \<not> covered (al_next a) i)"
  using allocator.alloc_many_fresh [OF assms] by (auto simp: alloc_covers_def)

theorem Next_many_distinct_witness:
  "(let w = \<lparr>w_dirs = [], w_tasks = [], w_journal = [], w_sequence = None, w_index = None,
        w_faults = []\<rparr>;
      r = alloc_many Next 3 (NewMemoryTaskIDAllocator, w)
    in fst r = Inr [''task-1'', ''task-2'', ''task-3''] \<and>
       distinct [''task-1'', ''task-2'', ''task-3''] \<and> \<not> covered 0 ''task-1'')"
proof -
  let ?w = "\<lparr>w_dirs = [], w_tasks = [], w_journal = [], w_sequence = None, w_index = None,
        w_faults = []\<rparr>"
  have r: "alloc_room 3 (NewMemoryTaskIDAllocator, ?w)"
    by (simp add: alloc_room_def NewMemoryTaskIDAllocator_def)
  have m: "alloc_many Next 3 (NewMemoryTaskIDAllocator, ?w) =
      (Inr [''task-1'', ''task-2'', ''task-3''], (\<lparr>al_root = [], al_next = 3\<rparr>, ?w))"
    by code_simp
  have "distinct [''task-1'', ''task-2'', ''task-3''] \<and>
      \<not> covered (al_next NewMemoryTaskIDAllocator) ''task-1''"
    using Next_many_distinct [OF r m] by simp
  then show ?thesis using m by (simp add: Let_def NewMemoryTaskIDAllocator_def)
qed

end
