(* ===== verification/TaskStore.thy ===== *)
theory TaskStore
  imports TaskIDs
begin

section \<open>The task store (\<open>internal/taskcore/store.go\<close>)\<close>

text \<open>
  The durable form of a task aggregate: a flat, validated record in \<open>tasks.json\<close> and an
  append-only journal in \<open>events.jsonl\<close>, of which the record's \<open>event_seq\<close> is the commit
  marker. \<open>SaveSnapshot\<close> first repairs the journal, then appends the new events, then
  replaces the record; \<open>LoadRoot\<close> reads the record and exactly the committed events. The
  main result is that a save is atomic under every pattern of failures.
\<close>

subsection \<open>Records and snapshots\<close>

definition latestEventSeq :: "TaskEvent list \<Rightarrow> int" where
  "latestEventSeq es = foldl (\<lambda>l e. if e_Seq e > l then e_Seq e else l) 0 es"

fun index_tasks ::
    "Task list \<Rightarrow> (string, Task) gomap \<Rightarrow> string \<Rightarrow> error + (string, Task) gomap \<times> string" where
  "index_tasks [] byID rootID = Inr (byID, rootID)"
| "index_tasks (t # ts) byID rootID =
     (let t' = t\<lparr>t_ID := TrimSpace (t_ID t)\<rparr> in
      if t_ID t' = [] then Inl (ErrText ''task record contains an empty task id'')
      else if mget byID (t_ID t') \<noteq> None then Inl (ErrText ''task record contains duplicate task'')
      else if TrimSpace (t_ParentID t') = [] then
        (if rootID \<noteq> [] then Inl (ErrText ''task record contains multiple root tasks'')
         else index_tasks ts (mput (t_ID t') t' byID) (t_ID t'))
      else index_tasks ts (mput (t_ID t') t' byID) rootID)"

text \<open>
  The walk from a task up its parents. It stops: every further step needs a parent that is in
  the index and was not seen before.
\<close>

function walk_parents :: "(string, Task) gomap \<Rightarrow> string list \<Rightarrow> Task \<Rightarrow> error + Task" where
  "walk_parents byID seen cursor =
     (let pid = TrimSpace (t_ParentID cursor) in
      if pid = [] then Inr cursor
      else if pid \<in> set seen then Inl (ErrText ''task has a parent cycle'')
      else case mget byID pid of
             None \<Rightarrow> Inl (ErrText ''task references missing parent'')
           | Some parent \<Rightarrow> walk_parents byID (pid # seen) parent)"
  by pat_completeness auto
termination
proof (relation "measure (\<lambda>(byID, seen, cursor). card (fst ` set byID - set seen))")
  fix byID :: "(string, Task) gomap" and seen cursor pid parent
  assume "pid \<notin> set seen" and "mget byID pid = Some parent"
  then have "pid \<in> fst ` set byID - set seen" by (auto dest: mget_key)
  moreover have "fst ` set byID - set (pid # seen) = (fst ` set byID - set seen) - {pid}" by auto
  ultimately show "((byID, pid # seen, parent), (byID, seen, cursor))
      \<in> measure (\<lambda>(byID, seen, cursor). card (fst ` set byID - set seen))"
    by (simp add: card_Diff1_less del: card_Diff_insert)
qed simp

declare walk_parents.simps [simp del]

fun collect_children ::
    "(string, Task) gomap \<Rightarrow> string \<Rightarrow> Task \<Rightarrow> Task list \<Rightarrow> error + Task list" where
  "collect_children byID rootID root [] = Inr []"
| "collect_children byID rootID root (t # ts) =
     (if t_ID t = rootID then collect_children byID rootID root ts
      else if t_AssignmentType t \<noteq> t_AssignmentType root \<or> t_AssignmentID t \<noteq> t_AssignmentID root
      then Inl (ErrText ''task does not share root assignment'')
      else case walk_parents byID [t_ID t] t of
             Inl e \<Rightarrow> Inl e
           | Inr cursor \<Rightarrow>
               if t_ID cursor \<noteq> rootID then Inl (ErrText ''task does not belong to root'')
               else case collect_children byID rootID root ts of
                      Inl e \<Rightarrow> Inl e
                    | Inr cs \<Rightarrow> Inr (t # cs))"

definition snapshotFromRecord :: "string \<Rightarrow> taskRecord \<Rightarrow> error + Snapshot" where
  "snapshotFromRecord expected rec =
     (let expectedRootID = TrimSpace expected in
      if r_Tasks rec = [] then Inl (ErrText ''task record has no tasks'')
      else case index_tasks (r_Tasks rec) [] [] of
        Inl e \<Rightarrow> Inl e
      | Inr (byID, rootID) \<Rightarrow>
          if rootID = [] then Inl (ErrText ''task record has no root task'')
          else if rootID \<noteq> expectedRootID
          then Inl (ErrText ''task record directory does not match root task'')
          else case mget byID rootID of
            None \<Rightarrow> Inl (ErrText ''unreachable'')
          | Some root \<Rightarrow>
              (case collect_children byID rootID root (r_Tasks rec) of
                 Inl e \<Rightarrow> Inl e
               | Inr children \<Rightarrow>
                   Inr \<lparr>sn_Root = root, sn_Children = sort_key t_ID children,
                        sn_Approvals = r_Approvals rec, sn_Presence = r_Presence rec,
                        sn_Events = []\<rparr>))"

definition recordFromSnapshot :: "Snapshot \<Rightarrow> error + taskRecord" where
  "recordFromSnapshot sn =
     (let rec = \<lparr>r_SchemaVersion = currentTaskSchemaVersion,
            r_Tasks = sn_Root sn # sn_Children sn,
            r_EventSeq = latestEventSeq (sn_Events sn),
            r_Approvals = sn_Approvals sn, r_Presence = sn_Presence sn\<rparr>
      in case snapshotFromRecord (t_ID (sn_Root sn)) rec of
           Inl e \<Rightarrow> Inl e
         | Inr _ \<Rightarrow> Inr rec)"

subsection \<open>The journal\<close>

text \<open>
  The reading loop of \<open>readCommittedEvents\<close>: it stops as soon as the commit marker is
  reached or passed, skips nothing, and accepts an undecodable unterminated rest only when it
  is going to cut it off. It returns the accepted lines, the accepted unterminated rest and
  the largest sequence number.
\<close>

fun scan_journal ::
    "bool \<Rightarrow> int \<Rightarrow> jline list \<Rightarrow> jtail \<Rightarrow> int \<Rightarrow> error + TaskEvent list \<times> jtail \<times> int" where
  "scan_journal repair committedSeq [] tail latest =
     (if latest \<ge> committedSeq then Inr ([], NoTail, latest)
      else case tail of
        NoTail \<Rightarrow> Inr ([], NoTail, latest)
      | TornEvent e \<Rightarrow>
          if e_Seq e > committedSeq then Inr ([], NoTail, latest)
          else Inr ([], TornEvent e, max latest (e_Seq e))
      | TornBad \<Rightarrow>
          if repair then Inr ([], NoTail, latest) else Inl (ErrText ''decode''))"
| "scan_journal repair committedSeq (BadLine # ls) tail latest =
     (if latest \<ge> committedSeq then Inr ([], NoTail, latest) else Inl (ErrText ''decode''))"
| "scan_journal repair committedSeq (Line e # ls) tail latest =
     (if latest \<ge> committedSeq then Inr ([], NoTail, latest)
      else if e_Seq e > committedSeq then Inr ([], NoTail, latest)
      else case scan_journal repair committedSeq ls tail (max latest (e_Seq e)) of
             Inl err \<Rightarrow> Inl err
           | Inr (es, t, l) \<Rightarrow> Inr (e # es, t, l))"

fun tail_events :: "jtail \<Rightarrow> TaskEvent list" where
  "tail_events (TornEvent e) = [e]"
| "tail_events _ = []"

text \<open>
  With \<open>repair\<close> the file is truncated to the accepted bytes and synced; \<open>FailAfter\<close> is a
  truncation whose sync failed.
\<close>

definition readCommittedEvents :: "string \<Rightarrow> int \<Rightarrow> bool \<Rightarrow> TaskEvent list io" where
  "readCommittedEvents i committedSeq repair w =
     (case take_fault w of (f, w1) \<Rightarrow>
      if f \<noteq> NoFault \<and> f \<noteq> FailAfter \<or> f = FailAfter \<and> \<not> repair then (Inl ErrIO, w1)
      else case mget (w_journal w1) i of
        None \<Rightarrow>
          if f \<noteq> NoFault then (Inl ErrIO, w1)
          else if committedSeq > 0 then (Inl (ErrText ''task event journal is missing''), w1)
          else (Inr [], w1)
      | Some j \<Rightarrow>
          (case scan_journal repair committedSeq (j_lines j) (j_tail j) 0 of
             Inl e \<Rightarrow> (Inl e, w1)
           | Inr (es, t, latest) \<Rightarrow>
               if latest < committedSeq then (Inl (ErrText ''task event journal ends early''), w1)
               else if repair then
                 let w2 = w1\<lparr>w_journal :=
                       mput i \<lparr>j_lines = map Line es, j_tail = t\<rparr> (w_journal w1)\<rparr>
                 in (if f = NoFault then Inr (es @ tail_events t) else Inl ErrIO, w2)
               else (Inr (es @ tail_events t), w1)))"

text \<open>
  Bytes appended after an unterminated rest extend that rest's line, which then no longer
  decodes.
\<close>

definition append_lines :: "journal \<Rightarrow> TaskEvent list \<Rightarrow> jtail \<Rightarrow> journal" where
  "append_lines j es t =
     (if j_tail j = NoTail then \<lparr>j_lines = j_lines j @ map Line es, j_tail = t\<rparr>
      else case es of
        [] \<Rightarrow> (if t = NoTail then j else j\<lparr>j_tail := TornBad\<rparr>)
      | e # es' \<Rightarrow> \<lparr>j_lines = j_lines j @ BadLine # map Line es', j_tail = t\<rparr>)"

definition journal_of :: "World \<Rightarrow> string \<Rightarrow> journal" where
  "journal_of w i = (case mget (w_journal w) i of None \<Rightarrow> empty_journal | Some j \<Rightarrow> j)"

definition appendEvents :: "string \<Rightarrow> TaskEvent list \<Rightarrow> unit io" where
  "appendEvents i es w =
     (if es = [] then (Inr (), w)
      else case take_fault w of (f, w1) \<Rightarrow>
        let put = (\<lambda>es t. w1\<lparr>w_journal :=
              mput i (append_lines (journal_of w1 i) es t) (w_journal w1)\<rparr>)
        in case f of
             NoFault \<Rightarrow> (Inr (), put es NoTail)
           | FailBefore \<Rightarrow> (Inl ErrIO, w1)
           | FailAfter \<Rightarrow> (Inl ErrIO, put es NoTail)
           | Short n t \<Rightarrow> (Inl ErrIO, put (take n es) t))"

definition committedEventSeq :: "string \<Rightarrow> int io" where
  "committedEventSeq i w =
     (case mget (w_tasks w) i of
        None \<Rightarrow> bindE io_step (\<lambda>_. returnE 0) w
      | Some f \<Rightarrow>
          bindE (readJSONFile (Some f) zero_record) (\<lambda>rec.
            case validateTaskRecordVersion rec of
              Inl e \<Rightarrow> throwE e
            | Inr rec' \<Rightarrow> returnE (r_EventSeq rec')) w)"

subsection \<open>The operations of the store\<close>

definition SaveSnapshot :: "Snapshot \<Rightarrow> TaskEvent list \<Rightarrow> unit io" where
  "SaveSnapshot sn newEvents =
     (let i = t_ID (sn_Root sn) in
      if TrimSpace i = [] then throwE (ErrText ''root task id is required'')
      else if TrimSpace (t_ParentID (sn_Root sn)) \<noteq> []
      then throwE (ErrText ''root task cannot have parent_id'')
      else case recordFromSnapshot sn of
        Inl e \<Rightarrow> throwE e
      | Inr rec \<Rightarrow>
          bindE io_step (\<lambda>_ w.
            bindE (committedEventSeq i) (\<lambda>committedSeq.
              bindE (readCommittedEvents i committedSeq True) (\<lambda>_.
                bindE (appendEvents i newEvents) (\<lambda>_ w1.
                  case writeJSONFileAtomic
                         (\<lambda>w. w\<lparr>w_tasks := mput i (Json rec) (w_tasks w)\<rparr>) w1 of
                    (Inr _, w2) \<Rightarrow> (Inr (), w2)
                  | (Inl e, w2) \<Rightarrow> (Inl e, snd (readCommittedEvents i committedSeq True w2)))))
              (w\<lparr>w_dirs := List.insert i (w_dirs w)\<rparr>)))"

definition LoadRoot :: "string \<Rightarrow> Snapshot io" where
  "LoadRoot taskID w =
     (let i = TrimSpace taskID in
      if i = [] then (Inl (ErrText ''task id is required''), w)
      else bindE (readJSONFile (mget (w_tasks w) i) zero_record) (\<lambda>rec.
        case validateTaskRecordVersion rec of
          Inl e \<Rightarrow> throwE e
        | Inr rec' \<Rightarrow>
            (case snapshotFromRecord i rec' of
               Inl e \<Rightarrow> throwE e
             | Inr sn \<Rightarrow>
                 bindE (readCommittedEvents i (r_EventSeq rec') False) (\<lambda>events.
                   returnE (sn\<lparr>sn_Events := events\<rparr>)))) w)"

record IndexEntry =
  x_ID :: string
  x_AssignmentType :: string
  x_AssignmentID :: string
  x_Title :: string
  x_Status :: string

fun index_entries :: "string list \<Rightarrow> IndexEntry list io" where
  "index_entries [] w = (Inr [], w)"
| "index_entries (d # ds) w =
     (case mget (w_tasks w) d of
        None \<Rightarrow> bindE io_step (\<lambda>_. index_entries ds) w
      | Some f \<Rightarrow>
          bindE (readJSONFile (Some f) zero_record) (\<lambda>rec.
            case validateTaskRecordVersion rec of
              Inl e \<Rightarrow> throwE e
            | Inr rec' \<Rightarrow>
                (case snapshotFromRecord d rec' of
                   Inl e \<Rightarrow> throwE e
                 | Inr sn \<Rightarrow> bindE (index_entries ds) (\<lambda>xs.
                     returnE (\<lparr>x_ID = t_ID (sn_Root sn),
                       x_AssignmentType = t_AssignmentType (sn_Root sn),
                       x_AssignmentID = t_AssignmentID (sn_Root sn),
                       x_Title = t_Title (sn_Root sn),
                       x_Status = t_Status (sn_Root sn)\<rparr> # xs)))) w)"

definition buildTaskIndex :: "IndexEntry list io" where
  "buildTaskIndex w =
     bindE io_step (\<lambda>_. bindE (index_entries (sort (w_dirs w))) (\<lambda>xs.
       returnE (sort_key x_ID xs))) w"

fun load_roots :: "string list \<Rightarrow> Snapshot list io" where
  "load_roots [] w = (Inr [], w)"
| "load_roots (i # is) w =
     bindE (LoadRoot i) (\<lambda>sn. bindE (load_roots is) (\<lambda>sns. returnE (sn # sns))) w"

definition Load :: "Snapshot list io" where
  "Load = bindE buildTaskIndex (\<lambda>xs. load_roots (map x_ID xs))"

definition LoadByAssignment :: "string \<Rightarrow> string \<Rightarrow> Snapshot list io" where
  "LoadByAssignment assignmentType assignmentID =
     bindE Load (\<lambda>sns. returnE (filter (\<lambda>sn.
       t_AssignmentType (sn_Root sn) = TrimSpace assignmentType \<and>
       t_AssignmentID (sn_Root sn) = TrimSpace assignmentID) sns))"

text \<open>
  \<open>os.RemoveAll\<close> of a task directory; when it fails half-way it has removed one of the two
  files.
\<close>

definition DeleteRoot :: "string \<Rightarrow> unit io" where
  "DeleteRoot taskID w =
     (let i = TrimSpace taskID in
      if i = [] then (Inl (ErrText ''task id is required''), w)
      else case take_fault w of (f, w1) \<Rightarrow>
        (case f of
           NoFault \<Rightarrow> (Inr (), w1\<lparr>w_dirs := removeAll i (w_dirs w1),
             w_tasks := mdel i (w_tasks w1), w_journal := mdel i (w_journal w1)\<rparr>)
         | FailBefore \<Rightarrow> (Inl ErrIO, w1)
         | FailAfter \<Rightarrow> (Inl ErrIO, w1\<lparr>w_journal := mdel i (w_journal w1)\<rparr>)
         | Short _ _ \<Rightarrow> (Inl ErrIO, w1\<lparr>w_tasks := mdel i (w_tasks w1)\<rparr>)))"

fun delete_roots :: "string list \<Rightarrow> unit io" where
  "delete_roots [] w = (Inr (), w)"
| "delete_roots (i # is) w = bindE (DeleteRoot i) (\<lambda>_. delete_roots is) w"

definition DeleteAssignment :: "string \<Rightarrow> string \<Rightarrow> unit io" where
  "DeleteAssignment assignmentType assignmentID =
     bindE (LoadByAssignment (TrimSpace assignmentType) (TrimSpace assignmentID)) (\<lambda>sns.
       delete_roots (map (\<lambda>sn. t_ID (sn_Root sn)) sns))"

fun save_all :: "Snapshot list \<Rightarrow> (string, TaskEvent list) gomap \<Rightarrow> unit io" where
  "save_all [] evs w = (Inr (), w)"
| "save_all (sn # sns) evs w =
     bindE (SaveSnapshot sn (mgets evs (t_ID (sn_Root sn)))) (\<lambda>_. save_all sns evs) w"

definition ReplaceAssignment ::
    "string \<Rightarrow> string \<Rightarrow> Snapshot list \<Rightarrow> (string, TaskEvent list) gomap \<Rightarrow> unit io" where
  "ReplaceAssignment assignmentType assignmentID sns eventsByRoot =
     bindE (DeleteAssignment assignmentType assignmentID) (\<lambda>_. save_all sns eventsByRoot)"

subsection \<open>Reading back what was written\<close>

definition seq_ok :: "TaskEvent list \<Rightarrow> bool" where
  "seq_ok es \<longleftrightarrow> sorted_wrt (<) (map e_Seq es) \<and> (\<forall>e \<in> set es. 0 < e_Seq e)"

lemma seq_ok_Nil [simp]: "seq_ok []"
  by (simp add: seq_ok_def)

lemma seq_ok_append:
  "seq_ok (es @ fs) \<longleftrightarrow> seq_ok es \<and> seq_ok fs \<and> (\<forall>e \<in> set es. \<forall>f \<in> set fs. e_Seq e < e_Seq f)"
  by (auto simp: seq_ok_def sorted_wrt_append)

lemma latestEventSeq_snoc:
  "latestEventSeq (es @ [e]) = max (latestEventSeq es) (e_Seq e)"
  by (simp add: latestEventSeq_def max_def)

lemma latestEventSeq_ge0: "0 \<le> latestEventSeq es"
proof (induction es rule: rev_induct)
  case Nil
  show ?case by (simp add: latestEventSeq_def)
next
  case (snoc e es)
  then show ?case by (simp add: latestEventSeq_snoc)
qed

lemma latestEventSeq_ge: "e \<in> set es \<Longrightarrow> e_Seq e \<le> latestEventSeq es"
  by (induction es rule: rev_induct) (auto simp: latestEventSeq_snoc)

lemma latestEventSeq_le: "\<forall>e \<in> set es. e_Seq e \<le> n \<Longrightarrow> 0 \<le> n \<Longrightarrow> latestEventSeq es \<le> n"
  by (induction es rule: rev_induct) (auto simp: latestEventSeq_def)

lemma latestEventSeq_seq_ok:
  assumes "seq_ok es"
  shows "latestEventSeq es = (if es = [] then 0 else e_Seq (last es))"
proof (cases es rule: rev_cases)
  case Nil
  then show ?thesis by (simp add: latestEventSeq_def)
next
  case (snoc fs e)
  with assms have "\<forall>f \<in> set fs. e_Seq f \<le> e_Seq e" "0 < e_Seq e"
    by (auto simp: seq_ok_append) (auto simp: seq_ok_def)
  then have "latestEventSeq fs \<le> e_Seq e" by (simp add: latestEventSeq_le)
  with snoc show ?thesis by (simp add: latestEventSeq_snoc)
qed

text \<open>
  The scan of a journal that starts with strictly increasing events returns exactly those up
  to the commit marker, whatever follows them.
\<close>

lemma scan_journal_prefix:
  assumes "sorted_wrt (<) (map e_Seq es)" and "\<forall>e \<in> set es. l < e_Seq e"
    and "c = (if es = [] then l else e_Seq (last es))"
  shows "scan_journal repair c (map Line es @ rest) tail l = Inr (es, NoTail, c)"
  using assms
proof (induction es arbitrary: l)
  case Nil
  then show ?case by (cases rest rule: list.exhaust; cases "hd rest") auto
next
  case (Cons e es)
  have le: "e_Seq e \<le> c" and "l < c"
    using Cons.prems by (auto simp: less_imp_le dest!: last_in_set split: if_splits)
  have "scan_journal repair c (map Line es @ rest) tail (e_Seq e) = Inr (es, NoTail, c)"
    using Cons.prems by (intro Cons.IH) auto
  with le \<open>l < c\<close> Cons.prems(2) show ?case by (simp add: max_def)
qed

corollary scan_journal_committed:
  "seq_ok es \<Longrightarrow>
     scan_journal repair (latestEventSeq es) (map Line es @ rest) tail 0
       = Inr (es, NoTail, latestEventSeq es)"
  by (rule scan_journal_prefix) (auto simp: seq_ok_def latestEventSeq_seq_ok)

text \<open>
  What a task directory commits to: no record, or a readable record whose commit marker is the
  last of the strictly increasing events the journal starts with.
\<close>

definition journal_has :: "World \<Rightarrow> string \<Rightarrow> TaskEvent list \<Rightarrow> bool" where
  "journal_has w i es \<longleftrightarrow>
     es = [] \<or> (\<exists>j rest. mget (w_journal w) i = Some j \<and> j_lines j = map Line es @ rest)"

definition committed :: "World \<Rightarrow> string \<Rightarrow> TaskEvent list \<Rightarrow> bool" where
  "committed w i es \<longleftrightarrow> seq_ok es \<and>
     (case mget (w_tasks w) i of
        None \<Rightarrow> es = []
      | Some (Json rec) \<Rightarrow> r_SchemaVersion rec \<in> {0, 2} \<and>
          r_EventSeq rec = latestEventSeq es \<and> journal_has w i es
      | Some _ \<Rightarrow> False)"

lemma committed_disk [simp]: "committed (disk w) i es = committed w i es"
  by (auto simp: committed_def journal_has_def split: option.splits jfile.splits)

lemma committed_cong:
  "mget (w_tasks v) i = mget (w_tasks w) i \<Longrightarrow> mget (w_journal v) i = mget (w_journal w) i \<Longrightarrow>
     committed v i es = committed w i es"
  by (auto simp: committed_def journal_has_def split: option.splits jfile.splits)

lemma committed_disk_cong: "disk v = disk w \<Longrightarrow> committed v i es = committed w i es"
  by (metis committed_disk)

lemma readCommittedEvents_ok:
  assumes "seq_ok es" and "journal_has w i es" and "w_faults w = []"
  shows "readCommittedEvents i (latestEventSeq es) False w = (Inr es, w)"
proof (cases "mget (w_journal w) i")
  case None
  with assms have "es = []" by (simp add: journal_has_def)
  with None assms show ?thesis by (simp add: readCommittedEvents_def latestEventSeq_def)
next
  case (Some j)
  with assms(2) obtain rest where "j_lines j = map Line es @ rest"
    by (auto simp: journal_has_def)
  with Some assms scan_journal_committed [OF assms(1), of False rest "j_tail j"] show ?thesis
    by (simp add: readCommittedEvents_def)
qed

lemma validateTaskRecordVersion_ok:
  "r_SchemaVersion rec \<in> {0, 2} \<Longrightarrow>
     validateTaskRecordVersion rec = Inr (rec\<lparr>r_SchemaVersion := 2\<rparr>)"
  by (auto simp: validateTaskRecordVersion_def currentTaskSchemaVersion_def)

lemma snapshotFromRecord_version [simp]:
  "snapshotFromRecord i (rec\<lparr>r_SchemaVersion := v\<rparr>) = snapshotFromRecord i rec"
  by (simp add: snapshotFromRecord_def cong: sum.case_cong prod.case_cong option.case_cong if_cong)

text \<open>What \<open>LoadRoot\<close> reads from a committed directory.\<close>

definition durable :: "World \<Rightarrow> string \<Rightarrow> TaskEvent list \<Rightarrow> error + Snapshot" where
  "durable w i es =
     (case mget (w_tasks w) i of
        Some (Json rec) \<Rightarrow> map_sum id (\<lambda>sn. sn\<lparr>sn_Events := es\<rparr>) (snapshotFromRecord i rec)
      | _ \<Rightarrow> Inl ErrIO)"

lemma LoadRoot_committed:
  assumes "committed w i es" and "trimmed i" and "i \<noteq> []" and "w_faults w = []"
  shows "LoadRoot i w = (durable w i es, w)"
proof (cases "mget (w_tasks w) i")
  case None
  with assms show ?thesis
    by (simp add: LoadRoot_def trimmed_TrimSpace readJSONFile_def durable_def)
next
  case (Some f)
  with assms(1) obtain rec where rec: "f = Json rec" "r_SchemaVersion rec \<in> {0, 2}"
    "r_EventSeq rec = latestEventSeq es" "journal_has w i es" "seq_ok es"
    by (auto simp: committed_def split: jfile.splits)
  then have "readCommittedEvents i (r_EventSeq rec) False w = (Inr es, w)"
    by (simp add: readCommittedEvents_ok assms(4))
  with Some rec assms show ?thesis
    by (auto simp: LoadRoot_def trimmed_TrimSpace durable_def validateTaskRecordVersion_ok
        split: sum.splits)
qed

subsection \<open>Saving is atomic\<close>

text \<open>\<open>same_but i w w'\<close>: outside the directory of \<open>i\<close> the files did not change.\<close>

definition same_but :: "string \<Rightarrow> World \<Rightarrow> World \<Rightarrow> bool" where
  "same_but i w w' \<longleftrightarrow>
     (\<forall>k. k \<noteq> i \<longrightarrow> mget (w_tasks w') k = mget (w_tasks w) k \<and>
        mget (w_journal w') k = mget (w_journal w) k) \<and>
     w_sequence w' = w_sequence w \<and> w_index w' = w_index w"

lemma same_but_refl [simp]: "same_but i w w"
  by (simp add: same_but_def)

lemma same_but_trans: "same_but i u v \<Longrightarrow> same_but i v w \<Longrightarrow> same_but i u w"
  by (simp add: same_but_def)

lemma same_but_disk: "disk v = disk w \<Longrightarrow> same_but i w v"
  using disk_eqD [of v w] by (simp add: same_but_def)

text \<open>A step of a save that leaves the committed state of the directory in place.\<close>

definition keeps :: "string \<Rightarrow> World \<Rightarrow> World \<Rightarrow> bool" where
  "keeps i w w' \<longleftrightarrow> same_but i w w' \<and> mget (w_tasks w') i = mget (w_tasks w) i \<and>
     (\<forall>es. committed w i es \<longrightarrow> committed w' i es)"

lemma keeps_refl [simp]: "keeps i w w"
  by (simp add: keeps_def)

lemma keeps_trans: "keeps i u v \<Longrightarrow> keeps i v w \<Longrightarrow> keeps i u w"
  by (auto simp: keeps_def intro: same_but_trans)

lemma keeps_disk: "disk v = disk w \<Longrightarrow> keeps i w v"
  using disk_eqD(2) [of v w] committed_disk_cong [of v w i] by (simp add: keeps_def same_but_disk)

lemma keeps_committed: "keeps i w w' \<Longrightarrow> committed w i es \<Longrightarrow> committed w' i es"
  by (simp add: keeps_def)

lemma committedEventSeq_keeps: "committedEventSeq i w = (r, w') \<Longrightarrow> keeps i w w'"
  by (auto simp: committedEventSeq_def elim!: bindE_casesE
      dest!: io_step_disk readJSONFile_disk intro: keeps_disk split: option.splits sum.splits)

lemma committedEventSeq_value:
  assumes "committed w i es" and "committedEventSeq i w = (Inr c, w')"
  shows "c = latestEventSeq es"
proof (cases "mget (w_tasks w) i")
  case None
  with assms show ?thesis
    by (auto simp: committedEventSeq_def committed_def latestEventSeq_def elim: bindE_InrE)
next
  case (Some f)
  with assms(1) obtain rec where f: "f = Json rec" "r_SchemaVersion rec \<in> {0, 2}"
    "r_EventSeq rec = latestEventSeq es"
    by (auto simp: committed_def split: jfile.splits)
  from assms(2) Some f(1) obtain rec' t where "readJSONFile (Some (Json rec)) zero_record w = (Inr rec', t)"
    and r: "(case validateTaskRecordVersion rec' of Inl e \<Rightarrow> throwE e
      | Inr rec' \<Rightarrow> returnE (r_EventSeq rec')) t = (Inr c, w')"
    by (auto simp: committedEventSeq_def elim: bindE_InrE)
  then have "rec' = rec" by (auto dest: readJSONFile_value)
  with r f(2,3) show ?thesis by (simp add: validateTaskRecordVersion_ok)
qed

definition journal_clean :: "World \<Rightarrow> string \<Rightarrow> TaskEvent list \<Rightarrow> bool" where
  "journal_clean w i es \<longleftrightarrow>
     (case mget (w_journal w) i of
        None \<Rightarrow> es = []
      | Some j \<Rightarrow> j = \<lparr>j_lines = map Line es, j_tail = NoTail\<rparr>)"

lemma journal_clean_disk: "disk v = disk w \<Longrightarrow> journal_clean v i es = journal_clean w i es"
  using disk_eqD(3) [of v w] by (simp add: journal_clean_def)

lemma committed_journal: "committed w i es \<Longrightarrow> journal_has w i es \<and> seq_ok es"
  by (auto simp: committed_def journal_has_def split: option.splits jfile.splits)

lemma committed_set_journal:
  assumes "committed w i es" and "j_lines j = map Line es @ rest"
  shows "committed (w\<lparr>w_journal := mput i j (w_journal w)\<rparr>) i es"
  using assms by (auto simp: committed_def journal_has_def split: option.splits jfile.splits)

lemma repair_committed:
  assumes "committed w i es" and "readCommittedEvents i (latestEventSeq es) True w = (r, w')"
  shows "same_but i w w'" and "mget (w_tasks w') i = mget (w_tasks w) i"
    and "committed w' i es" and "is_ok r \<Longrightarrow> journal_clean w' i es"
proof -
  obtain f w1 where f: "take_fault w = (f, w1)" by (cases "take_fault w")
  then have d: "disk w1 = disk w" by (rule take_fault_disk)
  with assms(1) have c1: "committed w1 i es" using committed_disk_cong [OF d] by simp
  have t1: "w_tasks w1 = w_tasks w" using d by (rule disk_eqD)
  have J: "journal_has w1 i es" "seq_ok es" using committed_journal [OF c1] by auto
  have "same_but i w1 w' \<and> w_tasks w' = w_tasks w1 \<and> committed w' i es \<and>
      (is_ok r \<longrightarrow> journal_clean w' i es)"
  proof (cases "mget (w_journal w1) i")
    case None
    with J have "es = []" by (simp add: journal_has_def)
    with None assms(2) f c1 show ?thesis
      by (auto simp: readCommittedEvents_def journal_clean_def latestEventSeq_def split: if_splits)
  next
    case (Some j)
    have sc: "scan_journal True (latestEventSeq es) (j_lines j) (j_tail j) 0
        = Inr (es, NoTail, latestEventSeq es)"
    proof (cases "es = []")
      case True
      then show ?thesis
        using scan_journal_committed [of "[]" True "j_lines j"] by simp
    next
      case False
      with J(1) Some obtain rest where "j_lines j = map Line es @ rest"
        by (auto simp: journal_has_def)
      with J(2) show ?thesis by (simp add: scan_journal_committed)
    qed
    let ?w2 = "w1\<lparr>w_journal := mput i \<lparr>j_lines = map Line es, j_tail = NoTail\<rparr> (w_journal w1)\<rparr>"
    have "committed ?w2 i es" using c1 by (rule committed_set_journal [of _ _ _ _ "[]"]) simp
    with Some sc assms(2) f c1 show ?thesis
      by (auto simp: readCommittedEvents_def journal_clean_def same_but_def split: if_splits)
  qed
  then have *: "same_but i w1 w'" "w_tasks w' = w_tasks w1" "committed w' i es"
    "is_ok r \<longrightarrow> journal_clean w' i es" by simp_all
  from same_but_trans [OF same_but_disk [OF d] *(1)] show "same_but i w w'" .
  from *(2) t1 show "mget (w_tasks w') i = mget (w_tasks w) i" by simp
  from *(3) show "committed w' i es" .
  from *(4) show "is_ok r \<Longrightarrow> journal_clean w' i es" by simp
qed

lemma appendEvents_clean:
  assumes "committed w i es" and "journal_clean w i es" and "appendEvents i new w = (r, w')"
  shows "same_but i w w'" and "mget (w_tasks w') i = mget (w_tasks w) i"
    and "committed w' i es" and "is_ok r \<Longrightarrow> journal_has w' i (es @ new)"
proof -
  have "same_but i w w' \<and> mget (w_tasks w') i = mget (w_tasks w) i \<and> committed w' i es \<and>
      (is_ok r \<longrightarrow> journal_has w' i (es @ new))"
  proof (cases "new = []")
    case True
    with assms show ?thesis by (auto simp: appendEvents_def dest: committed_journal)
  next
    case False
    obtain f w1 where f: "take_fault w = (f, w1)" by (cases "take_fault w")
    then have d: "disk w1 = disk w" by (rule take_fault_disk)
    with assms(1,2) have c1: "committed w1 i es" and cl: "journal_clean w1 i es"
      using committed_disk_cong [OF d] journal_clean_disk [OF d] by simp_all
    have j: "journal_of w1 i = \<lparr>j_lines = map Line es, j_tail = NoTail\<rparr>"
      using cl by (auto simp: journal_clean_def journal_of_def empty_journal_def split: option.splits)
    have put: "same_but i w1 v \<and> mget (w_tasks v) i = mget (w_tasks w1) i \<and> committed v i es \<and>
        mget (w_journal v) i = Some \<lparr>j_lines = map Line es @ map Line xs, j_tail = t\<rparr>"
      if "v = w1\<lparr>w_journal := mput i (append_lines (journal_of w1 i) xs t) (w_journal w1)\<rparr>" for v xs t
      using that c1 by (auto simp: j append_lines_def same_but_def intro: committed_set_journal)
    have "same_but i w1 w' \<and> mget (w_tasks w') i = mget (w_tasks w1) i \<and> committed w' i es \<and>
        (is_ok r \<longrightarrow> journal_has w' i (es @ new))"
    proof (cases f)
      case NoFault
      with assms(3) False f put [of w' new NoTail] show ?thesis
        by (auto simp: appendEvents_def journal_has_def)
    next
      case FailBefore
      with assms(3) False f c1 show ?thesis by (auto simp: appendEvents_def)
    next
      case FailAfter
      with assms(3) False f put [of w' new NoTail] show ?thesis by (auto simp: appendEvents_def)
    next
      case (Short n t)
      with assms(3) False f put [of w' "take n new" t] show ?thesis by (auto simp: appendEvents_def)
    qed
    then show ?thesis
      using same_but_trans [OF same_but_disk [OF d], of i w'] disk_eqD(2) [OF d] by simp
  qed
  then show "same_but i w w'" "mget (w_tasks w') i = mget (w_tasks w) i"
    "committed w' i es" "is_ok r \<Longrightarrow> journal_has w' i (es @ new)" by auto
qed

definition record_of :: "Snapshot \<Rightarrow> taskRecord" where
  "record_of sn = \<lparr>r_SchemaVersion = currentTaskSchemaVersion,
     r_Tasks = sn_Root sn # sn_Children sn, r_EventSeq = latestEventSeq (sn_Events sn),
     r_Approvals = sn_Approvals sn, r_Presence = sn_Presence sn\<rparr>"

lemma recordFromSnapshot_alt:
  "recordFromSnapshot sn =
     map_sum id (\<lambda>_. record_of sn) (snapshotFromRecord (t_ID (sn_Root sn)) (record_of sn))"
  by (simp add: recordFromSnapshot_def record_of_def Let_def split: sum.splits)

text \<open>
  The part of a save after the journal was repaired: the append, the replacement of the record
  and, if that fails, the second repair.
\<close>

lemma save_tail:
  assumes "committed w i es" and "journal_clean w i es" and "seq_ok (es @ new)"
    and "r_EventSeq rec = latestEventSeq (es @ new)" and "r_SchemaVersion rec = 2"
    and "bindE (appendEvents i new) (\<lambda>_ w1.
           case writeJSONFileAtomic (\<lambda>w. w\<lparr>w_tasks := mput i (Json rec) (w_tasks w)\<rparr>) w1 of
             (Inr _, w2) \<Rightarrow> (Inr (), w2)
           | (Inl e, w2) \<Rightarrow> (Inl e, snd (readCommittedEvents i (latestEventSeq es) True w2))) w
         = (r, w')"
  shows "same_but i w w' \<and>
    (if is_ok r then mget (w_tasks w') i = Some (Json rec) \<and> committed w' i (es @ new)
     else mget (w_tasks w') i = mget (w_tasks w) i \<and> committed w' i es)"
  using assms(6)
proof (cases rule: bindE_casesE)
  case (left e)
  with appendEvents_clean [OF assms(1,2) left(1)] show ?thesis by simp
next
  case (right a w1)
  note A = appendEvents_clean [OF assms(1,2) right(1)]
  obtain x w2 where wr: "writeJSONFileAtomic (\<lambda>w. w\<lparr>w_tasks := mput i (Json rec) (w_tasks w)\<rparr>) w1
      = (x, w2)" by fastforce
  from wr show ?thesis
  proof (cases rule: writeJSONFileAtomic_cases)
    case (failed e)
    obtain y w3 where rep: "readCommittedEvents i (latestEventSeq es) True w2 = (y, w3)" by fastforce
    have "committed w2 i es" using A(3) committed_disk_cong [OF failed(2)] by simp
    note R = repair_committed [OF this rep]
    have "r = Inl e" "w' = w3" using right(2) wr failed(1) rep by simp_all
    moreover have "same_but i w w3"
      using same_but_trans [OF A(1) same_but_trans [OF same_but_disk [OF failed(2)] R(1)]] .
    ultimately show ?thesis using R(2,3) A(2) disk_eqD(2) [OF failed(2)] by simp
  next
    case (written w'')
    have r: "r = Inr ()" "w' = w''\<lparr>w_tasks := mput i (Json rec) (w_tasks w'')\<rparr>"
      using right(2) wr written by simp_all
    have "journal_has w' i (es @ new)"
      using A(4) r(2) disk_eqD(3) [OF written(3)] by (simp add: journal_has_def)
    with assms(3-5) r have c: "committed w' i (es @ new)" by (simp add: committed_def)
    have "same_but i w1 w'" using r(2) disk_eqD [OF written(3)] by (simp add: same_but_def)
    with same_but_trans [OF A(1)] c r show ?thesis by simp
  qed
qed

lemma SaveSnapshot_effect:
  assumes "SaveSnapshot sn new w = (r, w')" and "i = t_ID (sn_Root sn)"
    and "committed w i es" and "sn_Events sn = es @ new" and "seq_ok (es @ new)"
  shows "same_but i w w' \<and>
    (if is_ok r
     then mget (w_tasks w') i = Some (Json (record_of sn)) \<and> committed w' i (es @ new) \<and>
       is_ok (snapshotFromRecord i (record_of sn)) \<and> TrimSpace i \<noteq> []
     else mget (w_tasks w') i = mget (w_tasks w) i \<and> committed w' i es)"
proof (cases "TrimSpace i = [] \<or> TrimSpace (t_ParentID (sn_Root sn)) \<noteq> [] \<or>
    \<not> is_ok (snapshotFromRecord i (record_of sn))")
  case True
  then have "is_ok r = False" "w' = w"
    using assms(1,2)
    by (cases "snapshotFromRecord (t_ID (sn_Root sn)) (record_of sn)";
        auto simp: SaveSnapshot_def Let_def recordFromSnapshot_alt split: if_splits)+
  with assms(3) show ?thesis by simp
next
  case False
  then have rec: "recordFromSnapshot sn = Inr (record_of sn)"
    using assms(2) by (auto simp: recordFromSnapshot_alt elim: is_okE)
  let ?tail = "\<lambda>c. bindE (appendEvents i new) (\<lambda>_ w1.
           case writeJSONFileAtomic (\<lambda>w. w\<lparr>w_tasks := mput i (Json (record_of sn)) (w_tasks w)\<rparr>) w1 of
             (Inr _, w2) \<Rightarrow> (Inr (), w2)
           | (Inl e, w2) \<Rightarrow> (Inl e, snd (readCommittedEvents i c True w2)))"
  let ?mid = "\<lambda>c. bindE (readCommittedEvents i c True) (\<lambda>_. ?tail c)"
  have run: "bindE io_step (\<lambda>_ w. bindE (committedEventSeq i) ?mid
      (w\<lparr>w_dirs := List.insert i (w_dirs w)\<rparr>)) w = (r, w')"
    using False assms(1) rec unfolding assms(2) by (simp add: SaveSnapshot_def Let_def)
  from run show ?thesis
  proof (cases rule: bindE_casesE)
    case (left e)
    then show ?thesis using assms(3) keeps_disk [OF io_step_disk [OF left(1)], of i]
      by (simp add: keeps_def)
  next
    case (right a w1)
    let ?w2 = "w1\<lparr>w_dirs := List.insert i (w_dirs w1)\<rparr>"
    have k2: "keeps i w ?w2"
      using disk_eqD [OF io_step_disk [OF right(1)]] committed_cong [of ?w2 i w]
      by (simp add: keeps_def same_but_def)
    from right(2) show ?thesis
    proof (cases rule: bindE_casesE)
      case (left e)
      have "keeps i w w'" using keeps_trans [OF k2 committedEventSeq_keeps [OF left(1)]] .
      with left(2) assms(3) show ?thesis by (simp add: keeps_def)
    next
      case (right c w3)
      have c: "c = latestEventSeq es"
        by (rule committedEventSeq_value [OF keeps_committed [OF k2 assms(3)] right(1)])
      have k3: "keeps i w w3" using keeps_trans [OF k2 committedEventSeq_keeps [OF right(1)]] .
      then have c3: "committed w3 i es" "same_but i w w3" "mget (w_tasks w3) i = mget (w_tasks w) i"
        using assms(3) by (simp_all add: keeps_def)
      from right(2) show ?thesis
      proof (cases rule: bindE_casesE)
        case (left e)
        note R = repair_committed [OF c3(1) left(1) [unfolded c]]
        show ?thesis using R(2,3) same_but_trans [OF c3(2) R(1)] c3(3) left(2) by simp
      next
        case (right b w4)
        note R = repair_committed [OF c3(1) right(1) [unfolded c]]
        have "same_but i w4 w' \<and>
          (if is_ok r then mget (w_tasks w') i = Some (Json (record_of sn)) \<and> committed w' i (es @ new)
           else mget (w_tasks w') i = mget (w_tasks w4) i \<and> committed w' i es)"
          by (rule save_tail [OF R(3) _ assms(5) _ _ right(2) [unfolded c]])
            (use R(4) assms(4) in \<open>simp_all add: record_of_def currentTaskSchemaVersion_def\<close>)
        then show ?thesis
          using R(2) c3(3) same_but_trans [OF same_but_trans [OF c3(2) R(1)]] False
          by (simp split: if_splits)
      qed
    qed
  qed
qed

subsection \<open>A loaded record is one tree, and a saved snapshot loads back\<close>

abbreviation trim_id :: "Task \<Rightarrow> Task" where
  "trim_id t \<equiv> t\<lparr>t_ID := TrimSpace (t_ID t)\<rparr>"

text \<open>\<open>chain ts t u\<close>: the parent references lead from \<open>t\<close> through tasks of \<open>ts\<close> to \<open>u\<close>, which has no parent.\<close>

inductive chain :: "Task list \<Rightarrow> Task \<Rightarrow> Task \<Rightarrow> bool" for ts :: "Task list" where
  chain_top: "TrimSpace (t_ParentID t) = [] \<Longrightarrow> chain ts t t"
| chain_up: "TrimSpace (t_ParentID t) \<noteq> [] \<Longrightarrow> u \<in> set ts \<Longrightarrow>
    t_ID u = TrimSpace (t_ParentID t) \<Longrightarrow> chain ts u v \<Longrightarrow> chain ts t v"

lemma index_tasks_Inr:
  assumes "index_tasks ts m r = Inr (m', r')" and "distinct (map fst m)"
  shows "distinct (map (TrimSpace \<circ> t_ID) ts) \<and> distinct (map fst m') \<and>
    fst ` set m \<inter> set (map (TrimSpace \<circ> t_ID) ts) = {} \<and>
    (\<forall>k t. mget m' k = Some t \<longleftrightarrow> mget m k = Some t \<or> (t \<in> trim_id ` set ts \<and> t_ID t = k)) \<and>
    [] \<notin> set (map (TrimSpace \<circ> t_ID) ts) \<and>
    (if r \<noteq> [] then r' = r \<and> (\<forall>t \<in> set ts. TrimSpace (t_ParentID t) \<noteq> [])
     else map (TrimSpace \<circ> t_ID) (filter (\<lambda>t. TrimSpace (t_ParentID t) = []) ts)
       = (if r' = [] then [] else [r']))"
  using assms
proof (induction ts arbitrary: m r)
  case Nil
  then show ?case by simp
next
  case (Cons t ts)
  let ?k = "TrimSpace (t_ID t)"
  have k: "?k \<noteq> []" "mget m ?k = None" using Cons.prems(1) by (auto simp: Let_def split: if_splits)
  then have fresh: "?k \<notin> fst ` set m" by (simp add: mget_None_key)
  obtain q where q: "index_tasks ts (mput ?k (trim_id t) m) q = Inr (m', r')"
    and qr: "q = (if TrimSpace (t_ParentID t) = [] then ?k else r)"
    and one: "TrimSpace (t_ParentID t) = [] \<longrightarrow> r = []"
    using Cons.prems(1) by (auto simp: Let_def split: if_splits)
  note IH = Cons.IH [OF q distinct_mput [OF Cons.prems(2)]]
  have ids: "distinct (map (TrimSpace \<circ> t_ID) (t # ts))"
    "fst ` set m \<inter> set (map (TrimSpace \<circ> t_ID) (t # ts)) = {}"
    "[] \<notin> set (map (TrimSpace \<circ> t_ID) (t # ts))"
    using IH fresh k(1) by (simp_all add: comp_def)
  have get: "mget m' j = Some u \<longleftrightarrow>
      mget m j = Some u \<or> (u \<in> trim_id ` set (t # ts) \<and> t_ID u = j)" for j u
    using IH k(2) by (cases "j = ?k") auto
  have root: "if r \<noteq> [] then r' = r \<and> (\<forall>t \<in> set (t # ts). TrimSpace (t_ParentID t) \<noteq> [])
     else map (TrimSpace \<circ> t_ID) (filter (\<lambda>t. TrimSpace (t_ParentID t) = []) (t # ts))
       = (if r' = [] then [] else [r'])"
  proof (cases "TrimSpace (t_ParentID t) = []")
    case True
    with qr one k(1) IH have "r = []" "r' = ?k" "\<forall>t \<in> set ts. TrimSpace (t_ParentID t) \<noteq> []"
      by simp_all
    with True k(1) show ?thesis by (simp add: filter_False)
  next
    case False
    with qr IH show ?thesis by simp
  qed
  from ids get root IH show ?case by blast
qed

lemma walk_parents_chain:
  assumes "walk_parents m seen t = Inr v" and "\<forall>k u. mget m k = Some u \<longrightarrow> u \<in> set ts \<and> t_ID u = k"
  shows "chain ts t v"
  using assms
proof (induction m seen t rule: walk_parents.induct)
  case (1 m seen t)
  let ?p = "TrimSpace (t_ParentID t)"
  show ?case
  proof (cases "?p = []")
    case True
    with "1.prems"(1) show ?thesis by (simp add: walk_parents.simps [of m seen t] chain_top)
  next
    case False
    with "1.prems"(1) obtain u where u: "?p \<notin> set seen" "mget m ?p = Some u"
      "walk_parents m (?p # seen) u = Inr v"
      by (auto simp: walk_parents.simps [of m seen t] Let_def split: if_splits option.splits)
    have "chain ts u v" by (rule "1.IH" [OF refl False u(1,2,3) "1.prems"(2)])
    with False u(2) "1.prems"(2) show ?thesis by (auto intro: chain_up)
  qed
qed

lemma collect_children_Inr:
  assumes "collect_children m r root ts = Inr cs"
  shows "cs = filter (\<lambda>t. t_ID t \<noteq> r) ts \<and>
    (\<forall>t \<in> set cs. t_AssignmentType t = t_AssignmentType root \<and>
      t_AssignmentID t = t_AssignmentID root \<and>
      (\<exists>u. walk_parents m [t_ID t] t = Inr u \<and> t_ID u = r))"
  using assms
  by (induction ts arbitrary: cs) (auto split: if_splits sum.splits)

lemma snapshotFromRecord_Inr:
  assumes "snapshotFromRecord i rec = Inr sn"
  shows "t_ID (sn_Root sn) = TrimSpace i \<and> sn_Root sn \<in> trim_id ` set (r_Tasks rec) \<and>
    TrimSpace i \<noteq> [] \<and> distinct (map (TrimSpace \<circ> t_ID) (r_Tasks rec)) \<and>
    map (TrimSpace \<circ> t_ID) (filter (\<lambda>t. TrimSpace (t_ParentID t) = []) (r_Tasks rec))
      = [TrimSpace i] \<and>
    sn_Children sn = sort_key t_ID (filter (\<lambda>t. t_ID t \<noteq> TrimSpace i) (r_Tasks rec)) \<and>
    (\<forall>t \<in> set (sn_Children sn). t_AssignmentType t = t_AssignmentType (sn_Root sn) \<and>
       t_AssignmentID t = t_AssignmentID (sn_Root sn) \<and>
       (\<exists>u. chain (map trim_id (r_Tasks rec)) t u \<and> t_ID u = TrimSpace i)) \<and>
    sn_Approvals sn = r_Approvals rec \<and> sn_Presence sn = r_Presence rec \<and> sn_Events sn = []"
proof -
  obtain byID root cs where ix: "index_tasks (r_Tasks rec) [] [] = Inr (byID, TrimSpace i)"
    and ne: "TrimSpace i \<noteq> []" and root: "mget byID (TrimSpace i) = Some root"
    and cs: "collect_children byID (TrimSpace i) root (r_Tasks rec) = Inr cs"
    and sn: "sn = \<lparr>sn_Root = root, sn_Children = sort_key t_ID cs,
      sn_Approvals = r_Approvals rec, sn_Presence = r_Presence rec, sn_Events = []\<rparr>"
    using assms
    by (auto simp: snapshotFromRecord_def Let_def split: if_splits sum.splits prod.splits option.splits)
  note I = index_tasks_Inr [OF ix, simplified]
  note C = collect_children_Inr [OF cs]
  have m: "\<forall>k u. mget byID k = Some u \<longrightarrow> u \<in> set (map trim_id (r_Tasks rec)) \<and> t_ID u = k"
    using I by simp
  have "\<exists>u. chain (map trim_id (r_Tasks rec)) t u \<and> t_ID u = TrimSpace i" if "t \<in> set cs" for t
    using C that walk_parents_chain [OF _ m] by blast
  moreover have "t_ID root = TrimSpace i \<and> root \<in> trim_id ` set (r_Tasks rec)"
    using m root by simp
  ultimately show ?thesis using I C ne by (simp add: sn comp_def)
qed

lemma trim_id_trimmed: "trimmed (t_ID t) \<Longrightarrow> trim_id t = t"
  by (cases t) (simp add: trimmed_TrimSpace)

lemma snapshotFromRecord_record_of:
  assumes "snapshotFromRecord (t_ID (sn_Root sn)) (record_of sn) = Inr sn'"
    and "trimmed (t_ID (sn_Root sn))"
  shows "sn'\<lparr>sn_Events := es\<rparr> = sn\<lparr>sn_Children := sort_key t_ID (sn_Children sn), sn_Events := es\<rparr>"
proof -
  let ?i = "t_ID (sn_Root sn)"
  note S = snapshotFromRecord_Inr [OF assms(1)]
  have i: "TrimSpace ?i = ?i" using assms(2) by (rule trimmed_TrimSpace)
  have d: "distinct (map (TrimSpace \<circ> t_ID) (sn_Root sn # sn_Children sn))"
    using S by (simp add: record_of_def)
  obtain t where t: "t \<in> set (sn_Root sn # sn_Children sn)" "sn_Root sn' = trim_id t"
    using S by (auto simp: record_of_def)
  have "(TrimSpace \<circ> t_ID) t = (TrimSpace \<circ> t_ID) (sn_Root sn)" using S i t(2) by simp
  with t(1) d have "t = sn_Root sn" by (metis distinct_map inj_onD list.set_intros(1))
  with t(2) have "sn_Root sn' = sn_Root sn" by (simp only: trim_id_trimmed assms(2))
  moreover have "filter (\<lambda>t. t_ID t \<noteq> ?i) (r_Tasks (record_of sn)) = sn_Children sn"
    using d i by (auto simp: record_of_def filter_id_conv image_iff)
  ultimately show ?thesis using S i by (simp add: record_of_def)
qed

subsection \<open>Properties\<close>

lemma same_but_LoadRoot:
  assumes "same_but i w w'" and "TrimSpace k \<noteq> i"
  shows "fst (LoadRoot k (disk w')) = fst (LoadRoot k (disk w))"
proof (cases "TrimSpace k = []")
  case True
  then show ?thesis by (simp add: LoadRoot_def)
next
  case False
  have j: "fst (readCommittedEvents (TrimSpace k) c False (disk w'))
      = fst (readCommittedEvents (TrimSpace k) c False (disk w))" for c
    using assms by (auto simp: readCommittedEvents_def same_but_def split: option.splits sum.splits)
  have t: "mget (w_tasks w') (TrimSpace k) = mget (w_tasks w) (TrimSpace k)"
    using assms by (simp add: same_but_def)
  obtain x where x: "\<forall>v. readJSONFile (mget (w_tasks w) (TrimSpace k)) zero_record (disk v) = (x, disk v)"
    by (cases "mget (w_tasks w) (TrimSpace k)"; cases "the (mget (w_tasks w) (TrimSpace k))")
      (auto simp: readJSONFile_def)
  have b: "fst (bindE (readCommittedEvents (TrimSpace k) c False) (\<lambda>es. returnE (g es)) (disk w'))
    = fst (bindE (readCommittedEvents (TrimSpace k) c False) (\<lambda>es. returnE (g es)) (disk w))" for c g
    using j [of c] by (auto simp: bindE_def split: prod.splits sum.splits)
  show ?thesis
    using False t x b
    by (cases x) (auto simp: LoadRoot_def Let_def bindE_def [of "readJSONFile _ _"] split: sum.splits)
qed

text \<open>
  C1. A save is atomic. Whatever accesses fail, and wherever a save is cut off, a later
  \<open>LoadRoot\<close> of the task returns the new snapshot with all its events if the save reported
  success, and exactly what it returned before if the save reported an error; no other task is
  affected. The events to save extend the committed ones with increasing sequence numbers.
\<close>

theorem SaveSnapshot_atomic:
  assumes "SaveSnapshot sn new w = (r, w')" and "i = t_ID (sn_Root sn)"
    and "committed w i es" and "sn_Events sn = es @ new" and "seq_ok (es @ new)" and "trimmed i"
  shows "fst (LoadRoot i (disk w')) =
      (if is_ok r then Inr (sn\<lparr>sn_Children := sort_key t_ID (sn_Children sn)\<rparr>)
       else fst (LoadRoot i (disk w))) \<and>
    (\<forall>k. TrimSpace k \<noteq> i \<longrightarrow> fst (LoadRoot k (disk w')) = fst (LoadRoot k (disk w)))"
proof -
  note E = SaveSnapshot_effect [OF assms(1-5)]
  note i = assms(6)
  have L: "fst (LoadRoot i (disk v)) = (if i = [] then Inl (ErrText ''task id is required'')
      else durable v i fs)" if "committed v i fs" for v fs
  proof (cases "i = []")
    case True
    then show ?thesis by (simp add: LoadRoot_def)
  next
    case False
    with that i LoadRoot_committed [of "disk v" i fs] show ?thesis by (simp add: durable_def)
  qed
  have "fst (LoadRoot i (disk w')) =
      (if is_ok r then Inr (sn\<lparr>sn_Children := sort_key t_ID (sn_Children sn)\<rparr>)
       else fst (LoadRoot i (disk w)))"
  proof (cases "is_ok r")
    case True
    with E have "i \<noteq> []" by auto
    with E True obtain sn' where sn': "snapshotFromRecord i (record_of sn) = Inr sn'" "i \<noteq> []"
      "mget (w_tasks w') i = Some (Json (record_of sn))" "committed w' i (es @ new)"
      by (cases "snapshotFromRecord i (record_of sn)") auto
    with snapshotFromRecord_record_of [of sn sn' "es @ new"] assms(2,4,6) True L [of w' "es @ new"]
    show ?thesis by (simp add: durable_def)
  next
    case False
    with E have "committed w' i es" "mget (w_tasks w') i = mget (w_tasks w) i" by simp_all
    with L [of w es] L [of w' es] assms(3) False show ?thesis by (simp add: durable_def)
  qed
  with E same_but_LoadRoot show ?thesis by blast
qed

theorem SaveSnapshot_atomic_witness:
  "(let t = zero_task\<lparr>t_ID := ''task-1''\<rparr>; e = zero_event\<lparr>e_Seq := 1\<rparr>; f = zero_event\<lparr>e_Seq := 2\<rparr>;
      w = \<lparr>w_dirs = [''task-1''],
        w_tasks = [(''task-1'', Json (zero_record\<lparr>r_Tasks := [t], r_EventSeq := 1\<rparr>))],
        w_journal = [(''task-1'', \<lparr>j_lines = [Line e, BadLine], j_tail = TornBad\<rparr>)],
        w_sequence = None, w_index = None,
        w_faults = [NoFault, NoFault, NoFault, Short 1 (TornEvent f)]\<rparr>;
      sn = \<lparr>sn_Root = t\<lparr>t_Status := StatusCompleted\<rparr>, sn_Children = [], sn_Approvals = [],
        sn_Presence = [], sn_Events = [e, f]\<rparr>;
      w' = snd (SaveSnapshot sn [f] w)
    in fst (SaveSnapshot sn [f] w) = Inl ErrIO \<and>
       mget (w_journal w') ''task-1'' = Some \<lparr>j_lines = [Line e, Line f], j_tail = TornEvent f\<rparr> \<and>
       fst (LoadRoot ''task-1'' (disk w')) = fst (LoadRoot ''task-1'' (disk w)))"
proof -
  let ?t = "zero_task\<lparr>t_ID := ''task-1''\<rparr>"
  let ?e = "zero_event\<lparr>e_Seq := 1\<rparr>" and ?f = "zero_event\<lparr>e_Seq := 2\<rparr>"
  let ?w = "\<lparr>w_dirs = [''task-1''],
        w_tasks = [(''task-1'', Json (zero_record\<lparr>r_Tasks := [?t], r_EventSeq := 1\<rparr>))],
        w_journal = [(''task-1'', \<lparr>j_lines = [Line ?e, BadLine], j_tail = TornBad\<rparr>)],
        w_sequence = None, w_index = None,
        w_faults = [NoFault, NoFault, NoFault, Short 1 (TornEvent ?f)]\<rparr>"
  let ?sn = "\<lparr>sn_Root = ?t\<lparr>t_Status := StatusCompleted\<rparr>, sn_Children = [], sn_Approvals = [],
        sn_Presence = [], sn_Events = [?e, ?f]\<rparr>"
  let ?w' = "?w\<lparr>w_journal := [(''task-1'', \<lparr>j_lines = [Line ?e, Line ?f], j_tail = TornEvent ?f\<rparr>)],
        w_faults := []\<rparr>"
  have s: "SaveSnapshot ?sn [?f] ?w = (Inl ErrIO, ?w')" by code_simp
  have c: "committed ?w ''task-1'' [?e]"
    by (simp add: committed_def journal_has_def seq_ok_def latestEventSeq_def zero_record_def)
  have i: "trimmed ''task-1''" by (simp add: visible_trimmed visible_def)
  have "fst (LoadRoot ''task-1'' (disk ?w')) = fst (LoadRoot ''task-1'' (disk ?w))"
    using SaveSnapshot_atomic [OF s _ c _ _ i] by (simp add: seq_ok_def zero_task_def)
  then show ?thesis using s by (simp add: Let_def)
qed

lemma repair_no_faults:
  assumes "committed w i es" and "w_faults w = []"
  obtains w' where "readCommittedEvents i (latestEventSeq es) True w = (Inr es, w')"
    and "w_faults w' = []"
proof (cases "mget (w_journal w) i")
  case None
  with committed_journal [OF assms(1)] have "es = []" by (simp add: journal_has_def)
  with None assms(2) show ?thesis
    by (intro that [of w]) (simp_all add: readCommittedEvents_def latestEventSeq_def)
next
  case (Some j)
  have "es = [] \<or> (\<exists>rest. j_lines j = map Line es @ rest)" "seq_ok es"
    using committed_journal [OF assms(1)] Some by (auto simp: journal_has_def)
  then obtain rest where "j_lines j = map Line es @ rest" by fastforce
  with scan_journal_committed [OF \<open>seq_ok es\<close>] Some assms(2) show ?thesis
    by (intro that [of "w\<lparr>w_journal := mput i \<lparr>j_lines = map Line es, j_tail = NoTail\<rparr> (w_journal w)\<rparr>"])
      (simp_all add: readCommittedEvents_def)
qed

lemma committedEventSeq_no_faults:
  assumes "committed w i es" and "w_faults w = []"
  shows "committedEventSeq i w = (Inr (latestEventSeq es), w)"
  using assms
  by (auto simp: committedEventSeq_def committed_def latestEventSeq_def validateTaskRecordVersion_def
      currentTaskSchemaVersion_def split: option.splits jfile.splits)

text \<open>
  Without failures a save of a well-formed snapshot on a committed directory succeeds, so
  the errors of a save are failures of the file system or a malformed snapshot.
\<close>

theorem SaveSnapshot_succeeds:
  assumes "w_faults w = []" and "i = t_ID (sn_Root sn)" and "committed w i es"
    and "is_ok (recordFromSnapshot sn)" and "TrimSpace (t_ParentID (sn_Root sn)) = []"
  shows "is_ok (fst (SaveSnapshot sn new w))"
proof -
  have ok: "recordFromSnapshot sn = Inr (record_of sn)" "TrimSpace i \<noteq> []"
    using assms(2,4) snapshotFromRecord_Inr [of i "record_of sn"]
    by (auto simp: recordFromSnapshot_alt elim!: is_okE split: sum.splits)
      (cases "snapshotFromRecord (t_ID (sn_Root sn)) (record_of sn)"; simp)+
  let ?w = "w\<lparr>w_dirs := List.insert i (w_dirs w)\<rparr>"
  have c: "committed ?w i es" using assms(3) committed_cong [of ?w i w] by simp
  then obtain w1 where w1: "readCommittedEvents i (latestEventSeq es) True ?w = (Inr es, w1)"
    "w_faults w1 = []" by (rule repair_no_faults) (simp add: assms(1))
  obtain w2 where w2: "appendEvents i new w1 = (Inr (), w2)" "w_faults w2 = []"
    using w1(2) by (cases "new = []") (auto simp: appendEvents_def)
  show ?thesis
    using ok assms(1,2,5) w1 w2 committedEventSeq_no_faults [OF c]
    by (simp add: SaveSnapshot_def Let_def writeJSONFileAtomic_def)
qed

theorem SaveSnapshot_succeeds_witness:
  "(let t = zero_task\<lparr>t_ID := ''task-1''\<rparr>;
      w = \<lparr>w_dirs = [], w_tasks = [], w_journal = [], w_sequence = None, w_index = None, w_faults = []\<rparr>;
      sn = \<lparr>sn_Root = t, sn_Children = [t\<lparr>t_ID := ''task-2'', t_ParentID := ''task-1''\<rparr>],
        sn_Approvals = [], sn_Presence = [], sn_Events = []\<rparr>
    in is_ok (fst (SaveSnapshot sn [] w)))"
proof -
  let ?t = "zero_task\<lparr>t_ID := ''task-1''\<rparr>"
  let ?w = "\<lparr>w_dirs = [], w_tasks = [], w_journal = [], w_sequence = None, w_index = None,
    w_faults = []\<rparr>"
  let ?sn = "\<lparr>sn_Root = ?t, sn_Children = [?t\<lparr>t_ID := ''task-2'', t_ParentID := ''task-1''\<rparr>],
        sn_Approvals = [], sn_Presence = [], sn_Events = []\<rparr>"
  have ok: "is_ok (recordFromSnapshot ?sn)" and p: "TrimSpace (t_ParentID (sn_Root ?sn)) = []"
    by code_simp+
  have "committed ?w (t_ID (sn_Root ?sn)) []" by (simp add: committed_def)
  from SaveSnapshot_succeeds [OF _ refl this ok p, of "[]"] show ?thesis by (simp add: Let_def)
qed

text \<open>
  C2. What \<open>snapshotFromRecord\<close> accepts is one tree: the task IDs are distinct, exactly one
  task has no parent and it is the expected root, and from every child the parent references
  lead, through tasks of the record, to the root, whose assignment the child shares.
\<close>

theorem snapshotFromRecord_tree:
  assumes "snapshotFromRecord i rec = Inr sn"
  shows "distinct (map (TrimSpace \<circ> t_ID) (r_Tasks rec)) \<and>
    map (TrimSpace \<circ> t_ID) (filter (\<lambda>t. TrimSpace (t_ParentID t) = []) (r_Tasks rec))
      = [TrimSpace i] \<and> t_ID (sn_Root sn) = TrimSpace i \<and>
    (\<forall>t \<in> set (sn_Children sn). t_AssignmentType t = t_AssignmentType (sn_Root sn) \<and>
       t_AssignmentID t = t_AssignmentID (sn_Root sn) \<and>
       (\<exists>u. chain (map trim_id (r_Tasks rec)) t u \<and> t_ID u = TrimSpace i))"
  using snapshotFromRecord_Inr [OF assms] by simp

theorem snapshotFromRecord_tree_witness:
  "(let t = zero_task\<lparr>t_ID := ''task-1''\<rparr>; c = t\<lparr>t_ID := ''task-2'', t_ParentID := ''task-1''\<rparr>;
      d = t\<lparr>t_ID := ''task-3'', t_ParentID := ''task-2''\<rparr>
    in is_ok (snapshotFromRecord ''task-1'' (zero_record\<lparr>r_Tasks := [t, d, c]\<rparr>)) \<and>
       (\<exists>u. chain [t, d, c] d u \<and> t_ID u = ''task-1''))"
proof -
  let ?t = "zero_task\<lparr>t_ID := ''task-1''\<rparr>"
  let ?c = "?t\<lparr>t_ID := ''task-2'', t_ParentID := ''task-1''\<rparr>"
  let ?d = "?t\<lparr>t_ID := ''task-3'', t_ParentID := ''task-2''\<rparr>"
  have s: "snapshotFromRecord ''task-1'' (zero_record\<lparr>r_Tasks := [?t, ?d, ?c]\<rparr>) =
      Inr \<lparr>sn_Root = ?t, sn_Children = [?c, ?d], sn_Approvals = [], sn_Presence = [], sn_Events = []\<rparr>"
    by code_simp
  have "map trim_id [?t, ?d, ?c] = [?t, ?d, ?c]" and "TrimSpace ''task-1'' = ''task-1''"
    by code_simp+
  then have "\<exists>u. chain [?t, ?d, ?c] ?d u \<and> t_ID u = ''task-1''"
    using snapshotFromRecord_tree [OF s] by simp
  then show ?thesis unfolding Let_def s by simp
qed

end
