(* ===== verification/TaskService.thy ===== *)
theory TaskService
  imports TaskStore
begin

section \<open>The task service (\<open>internal/taskcore/service.go\<close>, \<open>transaction.go\<close>)\<close>

text \<open>
  The in-memory aggregates behind one mutex, each operation of which is a function on the
  service and the files. The maps of pointers own their tasks, so an update through a pointer
  is an update of the map entry. The lazily created inner maps of \<open>childrenForRootLocked\<close>,
  \<open>approvalsForRootLocked\<close> and \<open>presenceForRootLocked\<close> are lookups with an empty default. The
  time an operation reads is its argument \<open>now\<close>. \<open>s_store\<close> says whether a store is attached.
\<close>

record Service =
  s_store :: bool
  s_taskIDs :: TaskIDAllocator
  s_nextApprovalID :: int
  s_nextSeq :: int
  s_roots :: "(string, Task) gomap"
  s_children :: "(string, (string, Task) gomap) gomap"
  s_events :: "(string, TaskEvent list) gomap"
  s_approvals :: "(string, (string, TaskApproval) gomap) gomap"
  s_presence :: "(string, (string, TaskPresence) gomap) gomap"

type_synonym svc_state = "Service \<times> World"
type_synonym 'a svc = "(svc_state, error, 'a) sm"

record CreateRootInput =
  cr_Status :: string
  cr_SourceMessageID :: string
  cr_ID :: string
  cr_AssignmentType :: string
  cr_AssignmentID :: string
  cr_Title :: string
  cr_Body :: string
  cr_CreatedBy :: string
  cr_AssignedTo :: string
  cr_ExecutionChannel :: string
  cr_RoomID :: string
  cr_DependsOn :: "string list"

record CreateChildInput =
  cc_ParentID :: string
  cc_Title :: string
  cc_Body :: string
  cc_CreatedBy :: string
  cc_AssignedTo :: string
  cc_DependsOn :: "string list"

record BindRoomInput =
  br_TaskID :: string
  br_ActorID :: string
  br_ExecutionChannel :: string
  br_RoomID :: string

record ClaimInput =
  cl_TaskID :: string
  cl_ParticipantID :: string

record CompleteInput =
  co_TaskID :: string
  co_ActorID :: string
  co_Result :: string

record FailInput =
  fa_TaskID :: string
  fa_ActorID :: string
  fa_Error :: string

record BlockInput =
  bl_TaskID :: string
  bl_ActorID :: string
  bl_Reason :: string

record RequestApprovalInput =
  ra_TaskID :: string
  ra_RequestedBy :: string
  ra_ApproverID :: string
  ra_Kind :: string
  ra_Summary :: string
  ra_Payload :: string

record ResolveApprovalInput =
  rv_ApprovalID :: string
  rv_ApproverID :: string
  rv_Status :: string
  rv_Resolution :: string

subsection \<open>Lookup, events and persistence\<close>

definition childrenForRootLocked :: "Service \<Rightarrow> string \<Rightarrow> (string, Task) gomap" where
  "childrenForRootLocked s rootID = mgets (s_children s) rootID"

definition approvalsForRootLocked :: "Service \<Rightarrow> string \<Rightarrow> (string, TaskApproval) gomap" where
  "approvalsForRootLocked s rootID = mgets (s_approvals s) rootID"

definition presenceForRootLocked :: "Service \<Rightarrow> string \<Rightarrow> (string, TaskPresence) gomap" where
  "presenceForRootLocked s rootID = mgets (s_presence s) rootID"

fun find_inner :: "(string, (string, 'v) gomap) gomap \<Rightarrow> string \<Rightarrow> (string \<times> 'v) option" where
  "find_inner [] k = None"
| "find_inner ((r, m) # rest) k =
     (case mget m k of Some v \<Rightarrow> Some (r, v) | None \<Rightarrow> find_inner rest k)"

definition requireTaskLocked :: "Service \<Rightarrow> string \<Rightarrow> error + string \<times> Task" where
  "requireTaskLocked s taskID =
     (let i = TrimSpace taskID in
      if i = [] then Inl ErrTaskNotFound
      else case mget (s_roots s) i of
        Some root \<Rightarrow> Inr (i, root)
      | None \<Rightarrow>
          (case find_inner (s_children s) i of
             Some (rootID, task) \<Rightarrow> Inr (rootID, task)
           | None \<Rightarrow> Inl ErrTaskNotFound))"

definition requireApprovalLocked :: "Service \<Rightarrow> string \<Rightarrow> error + string \<times> TaskApproval" where
  "requireApprovalLocked s approvalID =
     (case find_inner (s_approvals s) (TrimSpace approvalID) of
        Some x \<Rightarrow> Inr x
      | None \<Rightarrow> Inl ErrApprovalNotFound)"

text \<open>The task that \<open>requireTaskLocked\<close> found for \<open>taskID\<close> in \<open>rootID\<close> is overwritten in place.\<close>

definition set_task :: "string \<Rightarrow> string \<Rightarrow> Task \<Rightarrow> Service \<Rightarrow> Service" where
  "set_task rootID taskID t s =
     (let i = TrimSpace taskID in
      if mget (s_roots s) i \<noteq> None then s\<lparr>s_roots := mput i t (s_roots s)\<rparr>
      else s\<lparr>s_children := mput rootID (mput i t (childrenForRootLocked s rootID)) (s_children s)\<rparr>)"

definition appendEventLocked :: "string \<Rightarrow> TaskEvent \<Rightarrow> Service \<Rightarrow> Service" where
  "appendEventLocked rootID event s =
     (case mget (s_roots s) rootID of
        None \<Rightarrow> s
      | Some root \<Rightarrow>
          let seq = wrap64 (s_nextSeq s + 1);
              e1 = event\<lparr>e_Seq := seq, e_AssignmentType := t_AssignmentType root,
                         e_AssignmentID := t_AssignmentID root\<rparr>;
              e2 = (if TrimSpace (e_RoomID e1) = [] then
                      (case requireTaskLocked s (e_TaskID e1) of
                         Inr (_, task) \<Rightarrow>
                           e1\<lparr>e_RoomID := t_RoomID task, e_Channel := t_ExecutionChannel task\<rparr>
                       | Inl _ \<Rightarrow> e1)
                    else e1)
          in s\<lparr>s_nextSeq := seq,
               s_events := mput rootID (mgets (s_events s) rootID @ [e2]) (s_events s)\<rparr>)"

definition snapshotLocked :: "Service \<Rightarrow> string \<Rightarrow> Snapshot" where
  "snapshotLocked s rootID =
     \<lparr>sn_Root = (case mget (s_roots s) rootID of Some t \<Rightarrow> t | None \<Rightarrow> zero_task),
      sn_Children = sort_key t_ID (map snd (childrenForRootLocked s rootID)),
      sn_Approvals = sort_key a_ID (map snd (approvalsForRootLocked s rootID)),
      sn_Presence = sort_key p_ParticipantID (map snd (presenceForRootLocked s rootID)),
      sn_Events = mgets (s_events s) rootID\<rparr>"

definition persistRootLocked :: "string \<Rightarrow> nat \<Rightarrow> Service \<Rightarrow> unit io" where
  "persistRootLocked rootID eventStart s w =
     (if \<not> s_store s then (Inr (), w)
      else if eventStart > length (mgets (s_events s) rootID)
      then (Inl (ErrText ''invalid event start''), w)
      else SaveSnapshot (snapshotLocked s rootID) (drop eventStart (mgets (s_events s) rootID)) w)"

text \<open>The common end of the operations that keep their change in memory when the save fails.\<close>

definition record_event :: "string \<Rightarrow> nat \<Rightarrow> TaskEvent \<Rightarrow> 'a \<Rightarrow> 'a svc" where
  "record_event rootID eventStart event v = (\<lambda>(s, w).
     let s1 = appendEventLocked rootID event s in
     case persistRootLocked rootID eventStart s1 w of
       (Inl e, w1) \<Rightarrow> (Inl e, (s1, w1))
     | (Inr _, w1) \<Rightarrow> (Inr v, (s1, w1)))"

definition nextTaskIdentifier :: "string svc" where
  "nextTaskIdentifier = (\<lambda>(s, w).
     case Next (s_taskIDs s, w) of (r, (a, w1)) \<Rightarrow> (r, (s\<lparr>s_taskIDs := a\<rparr>, w1)))"

definition bumpTaskIdentifier :: "string \<Rightarrow> unit svc" where
  "bumpTaskIdentifier i = (\<lambda>(s, w).
     case Bump i (s_taskIDs s, w) of (r, (a, w1)) \<Rightarrow> (r, (s\<lparr>s_taskIDs := a\<rparr>, w1)))"

definition nextApprovalIdentifier :: "Service \<Rightarrow> string \<times> Service" where
  "nextApprovalIdentifier s =
     (let n = wrap64 (s_nextApprovalID s + 1) in
      (''approval-'' @ dec_of_int n, s\<lparr>s_nextApprovalID := n\<rparr>))"

definition bumpApprovalIdentifier :: "string \<Rightarrow> Service \<Rightarrow> Service" where
  "bumpApprovalIdentifier i s =
     s\<lparr>s_nextApprovalID := maxCounterFromIdentifier i ''approval-'' (s_nextApprovalID s)\<rparr>"

definition validateAssignment :: "string \<Rightarrow> string \<Rightarrow> error + unit" where
  "validateAssignment assignmentType assignmentID =
     (if TrimSpace assignmentType \<notin> {AssignmentTypeTeam, AssignmentTypeAgent, AssignmentTypeRoom}
      then Inl (ErrText ''unsupported assignment_type'')
      else if TrimSpace assignmentID = [] then Inl (ErrText ''assignment_id is required'')
      else Inr ())"

subsection \<open>The operations\<close>

text \<open>The task literals of the two create operations, and the event both append.\<close>

definition new_root :: "CreateRootInput \<Rightarrow> time \<Rightarrow> string \<Rightarrow> Task" where
  "new_root input now i = zero_task\<lparr>
     t_SourceMessageID := TrimSpace (cr_SourceMessageID input), t_ID := i,
     t_AssignmentType := TrimSpace (cr_AssignmentType input),
     t_AssignmentID := TrimSpace (cr_AssignmentID input), t_Title := TrimSpace (cr_Title input),
     t_Body := TrimSpace (cr_Body input),
     t_Status := (if cr_Status input \<noteq> [] then cr_Status input
       else if TrimSpace (cr_AssignedTo input) \<noteq> [] then StatusAssigned else StatusPending),
     t_CreatedBy := TrimSpace (cr_CreatedBy input), t_AssignedTo := TrimSpace (cr_AssignedTo input),
     t_ExecutionChannel := TrimSpace (cr_ExecutionChannel input), t_RoomID := TrimSpace (cr_RoomID input),
     t_DependsOn := cr_DependsOn input, t_CreatedAt := now, t_UpdatedAt := now\<rparr>"

definition new_child :: "CreateChildInput \<Rightarrow> time \<Rightarrow> Task \<Rightarrow> string \<Rightarrow> Task" where
  "new_child input now parent childID = zero_task\<lparr>
     t_ID := childID, t_ParentID := t_ID parent, t_AssignmentType := t_AssignmentType parent,
     t_AssignmentID := t_AssignmentID parent, t_Title := TrimSpace (cc_Title input),
     t_Body := TrimSpace (cc_Body input),
     t_Status := (if TrimSpace (cc_AssignedTo input) \<noteq> [] then StatusAssigned else StatusPending),
     t_CreatedBy := TrimSpace (cc_CreatedBy input), t_AssignedTo := TrimSpace (cc_AssignedTo input),
     t_ExecutionChannel := t_ExecutionChannel parent, t_RoomID := t_RoomID parent,
     t_DependsOn := cc_DependsOn input, t_CreatedAt := now, t_UpdatedAt := now\<rparr>"

definition created_event :: "Task \<Rightarrow> time \<Rightarrow> TaskEvent" where
  "created_event task now = zero_event\<lparr>
     e_Type := EventTaskCreated, e_ActorID := t_CreatedBy task, e_TaskID := t_ID task,
     e_TargetID := t_AssignedTo task, e_Summary := t_Title task, e_CreatedAt := now\<rparr>"

definition CreateRoot :: "CreateRootInput \<Rightarrow> time \<Rightarrow> Task svc" where
  "CreateRoot input now = (\<lambda>(s, w).
     case validateAssignment (cr_AssignmentType input) (cr_AssignmentID input) of
       Inl e \<Rightarrow> (Inl e, (s, w))
     | Inr _ \<Rightarrow>
     if TrimSpace (cr_Title input) = [] then (Inl (ErrText ''title is required''), (s, w))
     else if TrimSpace (cr_CreatedBy input) = [] then (Inl (ErrText ''created_by is required''), (s, w))
     else bindE
       (if TrimSpace (cr_ID input) = [] then nextTaskIdentifier else returnE (TrimSpace (cr_ID input)))
       (\<lambda>i (s, w).
         if mget (s_roots s) i \<noteq> None then (Inl (ErrText ''task already exists''), (s, w))
         else bindE (bumpTaskIdentifier i) (\<lambda>_ (s, w).
           if cr_Status input \<noteq> [] \<and> cr_Status input \<noteq> StatusQueued
           then (Inl (ErrText ''unsupported initial task status''), (s, w))
           else
             let task = new_root input now i;
                 s1 = appendEventLocked i (created_event task now)
                        (s\<lparr>s_roots := mput i task (s_roots s)\<rparr>)
             in case persistRootLocked i 0 s1 w of
                  (Inl e, w1) \<Rightarrow>
                    (Inl e, (s1\<lparr>s_roots := mdel i (s_roots s1), s_events := mdel i (s_events s1)\<rparr>, w1))
                | (Inr _, w1) \<Rightarrow> (Inr task, (s1, w1))) (s, w)) (s, w))"

definition CreateChild :: "CreateChildInput \<Rightarrow> time \<Rightarrow> Task svc" where
  "CreateChild input now = (\<lambda>(s, w).
     case requireTaskLocked s (cc_ParentID input) of
       Inl e \<Rightarrow> (Inl e, (s, w))
     | Inr (rootID, parent) \<Rightarrow>
     if TrimSpace (cc_Title input) = [] then (Inl (ErrText ''title is required''), (s, w))
     else if TrimSpace (cc_CreatedBy input) = [] then (Inl (ErrText ''created_by is required''), (s, w))
     else bindE nextTaskIdentifier (\<lambda>childID (s, w).
       let eventStart = length (mgets (s_events s) rootID);
           child = new_child input now parent childID;
           s1 = appendEventLocked rootID (created_event child now)
             (s\<lparr>s_children :=
                 mput rootID (mput childID child (childrenForRootLocked s rootID)) (s_children s)\<rparr>)
       in case persistRootLocked rootID eventStart s1 w of
            (Inl e, w1) \<Rightarrow>
              (Inl e, (s1\<lparr>s_children :=
                  mput rootID (mdel childID (childrenForRootLocked s1 rootID)) (s_children s1),
                s_events := mput rootID (take eventStart (mgets (s_events s1) rootID)) (s_events s1)\<rparr>, w1))
          | (Inr _, w1) \<Rightarrow> (Inr child, (s1, w1))) (s, w))"

definition BindRoom :: "BindRoomInput \<Rightarrow> time \<Rightarrow> Task svc" where
  "BindRoom input now = (\<lambda>(s, w).
     case requireTaskLocked s (br_TaskID input) of
       Inl e \<Rightarrow> (Inl e, (s, w))
     | Inr (rootID, task) \<Rightarrow>
     let roomID = TrimSpace (br_RoomID input) in
     if roomID = [] then (Inl (ErrText ''room_id is required''), (s, w))
     else
       let eventStart = length (mgets (s_events s) rootID);
           task' = task\<lparr>t_RoomID := roomID, t_ExecutionChannel := TrimSpace (br_ExecutionChannel input),
             t_UpdatedAt := now\<rparr>;
           s1 = set_task rootID (br_TaskID input) task' s;
           s2 = (if TrimSpace (t_ParentID task') = [] then
                   s1\<lparr>s_children := mput rootID
                     (map (\<lambda>(k, c). (k, c\<lparr>t_RoomID := roomID,
                         t_ExecutionChannel := t_ExecutionChannel task', t_UpdatedAt := now\<rparr>))
                       (childrenForRootLocked s1 rootID)) (s_children s1)\<rparr>
                 else s1)
       in record_event rootID eventStart (zero_event\<lparr>
            e_Type := EventTaskExecutionRoom, e_ActorID := TrimSpace (br_ActorID input),
            e_TaskID := t_ID task', e_TargetID := roomID, e_Summary := t_Title task',
            e_CreatedAt := now\<rparr>) task' (s2, w))"

definition Claim :: "ClaimInput \<Rightarrow> time \<Rightarrow> Task svc" where
  "Claim input now = (\<lambda>(s, w).
     case requireTaskLocked s (cl_TaskID input) of
       Inl e \<Rightarrow> (Inl e, (s, w))
     | Inr (rootID, task) \<Rightarrow>
     let participantID = TrimSpace (cl_ParticipantID input) in
     if participantID = [] then (Inl (ErrText ''participant_id is required''), (s, w))
     else if t_Status task \<notin> {StatusPending, StatusAssigned, StatusBlocked}
     then (Inl ErrTransitionInvalid, (s, w))
     else if t_AssignedTo task \<noteq> [] \<and> t_AssignedTo task \<noteq> participantID
     then (Inl ErrTransitionInvalid, (s, w))
     else
       let eventStart = length (mgets (s_events s) rootID);
           task' = task\<lparr>t_Status := StatusInProgress, t_ClaimedBy := participantID, t_Error := [],
             t_UpdatedAt := now\<rparr>
       in record_event rootID eventStart (zero_event\<lparr>
            e_Type := EventTaskClaimed, e_ActorID := participantID, e_TaskID := t_ID task',
            e_Summary := t_Title task', e_CreatedAt := now\<rparr>) task'
            (set_task rootID (cl_TaskID input) task' s, w))"

definition finishTask :: "string \<Rightarrow> string \<Rightarrow> string \<Rightarrow> string \<Rightarrow> time \<Rightarrow> Task svc" where
  "finishTask taskID actorID status summary now = (\<lambda>(s, w).
     case requireTaskLocked s taskID of
       Inl e \<Rightarrow> (Inl e, (s, w))
     | Inr (rootID, task) \<Rightarrow>
     if t_Status task \<noteq> StatusInProgress then (Inl ErrTransitionInvalid, (s, w))
     else if summary = [] then
       (Inl (ErrText (if status = StatusCompleted then ''result is required'' else ''error is required'')),
        (s, w))
     else
       let eventStart = length (mgets (s_events s) rootID);
           task1 = task\<lparr>t_Status := status, t_UpdatedAt := now\<rparr>;
           task' = (if status = StatusCompleted
                    then task1\<lparr>t_Result := summary, t_Error := [], t_CompletedAt := Some now\<rparr>
                    else task1\<lparr>t_Error := summary, t_Result := [], t_CompletedAt := None\<rparr>);
           eventType = (if status = StatusFailed then EventTaskFailed else EventTaskCompleted)
       in record_event rootID eventStart (zero_event\<lparr>
            e_Type := eventType, e_ActorID := TrimSpace actorID, e_TaskID := t_ID task',
            e_Summary := summary, e_CreatedAt := now\<rparr>) task'
            (set_task rootID taskID task' s, w))"

definition Complete :: "CompleteInput \<Rightarrow> time \<Rightarrow> Task svc" where
  "Complete input now =
     finishTask (co_TaskID input) (co_ActorID input) StatusCompleted (TrimSpace (co_Result input)) now"

definition Fail :: "FailInput \<Rightarrow> time \<Rightarrow> Task svc" where
  "Fail input now =
     finishTask (fa_TaskID input) (fa_ActorID input) StatusFailed (TrimSpace (fa_Error input)) now"

definition Block :: "BlockInput \<Rightarrow> time \<Rightarrow> Task svc" where
  "Block input now = (\<lambda>(s, w).
     case requireTaskLocked s (bl_TaskID input) of
       Inl e \<Rightarrow> (Inl e, (s, w))
     | Inr (rootID, task) \<Rightarrow>
     if t_Status task \<noteq> StatusInProgress then (Inl ErrTransitionInvalid, (s, w))
     else
       let reason = TrimSpace (bl_Reason input) in
       if reason = [] then (Inl (ErrText ''reason is required''), (s, w))
       else
         let eventStart = length (mgets (s_events s) rootID);
             task' = task\<lparr>t_Status := StatusBlocked, t_Error := reason, t_Result := [],
               t_CompletedAt := None, t_UpdatedAt := now\<rparr>
         in record_event rootID eventStart (zero_event\<lparr>
              e_Type := EventTaskBlocked, e_ActorID := TrimSpace (bl_ActorID input),
              e_TaskID := t_ID task', e_Summary := reason, e_CreatedAt := now\<rparr>) task'
              (set_task rootID (bl_TaskID input) task' s, w))"

definition RequestApproval :: "RequestApprovalInput \<Rightarrow> time \<Rightarrow> TaskApproval svc" where
  "RequestApproval input now = (\<lambda>(s, w).
     case requireTaskLocked s (ra_TaskID input) of
       Inl e \<Rightarrow> (Inl e, (s, w))
     | Inr (rootID, task) \<Rightarrow>
     if TrimSpace (ra_RequestedBy input) = [] then (Inl (ErrText ''requested_by is required''), (s, w))
     else if TrimSpace (ra_Kind input) = [] then (Inl (ErrText ''kind is required''), (s, w))
     else if TrimSpace (ra_Summary input) = [] then (Inl (ErrText ''summary is required''), (s, w))
     else
       let eventStart = length (mgets (s_events s) rootID);
           (approvalID, s1) = nextApprovalIdentifier s;
           approval = \<lparr>a_ID = approvalID,
             a_AssignmentType = t_AssignmentType task,
             a_AssignmentID = t_AssignmentID task,
             a_RoomID = t_RoomID task,
             a_TaskID = t_ID task,
             a_RequestedBy = TrimSpace (ra_RequestedBy input),
             a_ApproverID = TrimSpace (ra_ApproverID input),
             a_Kind = TrimSpace (ra_Kind input),
             a_Summary = TrimSpace (ra_Summary input),
             a_Payload = TrimSpace (ra_Payload input),
             a_Status = ApprovalStatusPending,
             a_Resolution = [],
             a_CreatedAt = now,
             a_ResolvedAt = None\<rparr>
       in record_event rootID eventStart (zero_event\<lparr>
            e_Type := EventApprovalRequested, e_ActorID := a_RequestedBy approval,
            e_TaskID := t_ID task, e_TargetID := a_ID approval, e_Summary := a_Summary approval,
            e_CreatedAt := now\<rparr>) approval
            (s1\<lparr>s_approvals := mput rootID
               (mput (a_ID approval) approval (approvalsForRootLocked s1 rootID)) (s_approvals s1)\<rparr>, w))"

definition ResolveApproval :: "ResolveApprovalInput \<Rightarrow> time \<Rightarrow> TaskApproval svc" where
  "ResolveApproval input now = (\<lambda>(s, w).
     case requireApprovalLocked s (rv_ApprovalID input) of
       Inl e \<Rightarrow> (Inl e, (s, w))
     | Inr (rootID, approval) \<Rightarrow>
     if a_Status approval \<noteq> ApprovalStatusPending then (Inl ErrApprovalAlreadyClosed, (s, w))
     else
       let status = TrimSpace (rv_Status input) in
       if status \<notin> {ApprovalStatusApproved, ApprovalStatusRejected, ApprovalStatusCancelled}
       then (Inl (ErrText ''unsupported approval status''), (s, w))
       else
         let eventStart = length (mgets (s_events s) rootID);
             approval' = approval\<lparr>a_Status := status,
               a_ApproverID := firstNonEmpty [TrimSpace (rv_ApproverID input), a_ApproverID approval],
               a_Resolution := TrimSpace (rv_Resolution input),
               a_ResolvedAt := Some now\<rparr>
         in record_event rootID eventStart (zero_event\<lparr>
              e_Type := EventApprovalResolved, e_ActorID := a_ApproverID approval',
              e_TaskID := a_TaskID approval', e_TargetID := a_ID approval',
              e_Summary := a_Status approval', e_CreatedAt := now\<rparr>) approval'
              (s\<lparr>s_approvals := mput rootID
                 (mput (TrimSpace (rv_ApprovalID input)) approval' (approvalsForRootLocked s rootID))
                 (s_approvals s)\<rparr>, w))"

definition Get :: "Service \<Rightarrow> string \<Rightarrow> Task option" where
  "Get s taskID = (case requireTaskLocked s taskID of Inl _ \<Rightarrow> None | Inr (_, task) \<Rightarrow> Some task)"

text \<open>
  \<open>sort.Slice\<close> by last update, newest first, and then by ID. It is not stable; on distinct IDs
  every comparison sort gives the same list.
\<close>

definition all_tasks :: "Service \<Rightarrow> Task list" where
  "all_tasks s = concat (map (\<lambda>(_, root). root # map snd (childrenForRootLocked s (t_ID root))) (s_roots s))"

definition ListGlobal :: "Service \<Rightarrow> Task list" where
  "ListGlobal s = sort_key (\<lambda>t. (- t_UpdatedAt t, t_ID t)) (all_tasks s)"

definition ListByAssignment :: "Service \<Rightarrow> string \<Rightarrow> string \<Rightarrow> Task list" where
  "ListByAssignment s assignmentType assignmentID =
     filter (\<lambda>t. t_AssignmentType t = TrimSpace assignmentType \<and>
       t_AssignmentID t = TrimSpace assignmentID) (ListGlobal s)"

definition Events :: "Service \<Rightarrow> string \<Rightarrow> TaskEvent list" where
  "Events s rootID = mgets (s_events s) (TrimSpace rootID)"

definition DiagnosticSnapshot :: "Service \<Rightarrow> string \<Rightarrow> Snapshot option" where
  "DiagnosticSnapshot s taskID =
     (case requireTaskLocked s taskID of
        Inl _ \<Rightarrow> None
      | Inr (rootID, _) \<Rightarrow> Some (snapshotLocked s rootID))"

subsection \<open>Start-up\<close>

fun load_children :: "Task list \<Rightarrow> (string, Task) gomap \<Rightarrow> ((string, Task) gomap) svc" where
  "load_children [] m = returnE m"
| "load_children (c # cs) m =
     bindE (bumpTaskIdentifier (t_ID c)) (\<lambda>_. load_children cs (mput (t_ID c) c m))"

definition latest_from :: "int \<Rightarrow> TaskEvent list \<Rightarrow> int" where
  "latest_from n es = foldl (\<lambda>l e. if e_Seq e > l then e_Seq e else l) n es"

fun load_snapshots :: "Snapshot list \<Rightarrow> unit svc" where
  "load_snapshots [] = returnE ()"
| "load_snapshots (sn # sns) = (\<lambda>(s, w).
     let root = sn_Root sn; rid = t_ID root in
     bindE (bumpTaskIdentifier rid) (\<lambda>_.
       bindE (load_children (sn_Children sn) []) (\<lambda>childMap (s, w).
         let s1 = s\<lparr>s_children := mput rid childMap (s_children s)\<rparr>;
             s2 = foldl (\<lambda>s a. bumpApprovalIdentifier (a_ID a) s) s1 (sn_Approvals sn);
             s3 = s2\<lparr>s_approvals := mput rid
                    (foldl (\<lambda>m a. mput (a_ID a) a m) [] (sn_Approvals sn)) (s_approvals s2),
                  s_presence := mput rid
                    (foldl (\<lambda>m p. mput (p_ParticipantID p) p m) [] (sn_Presence sn)) (s_presence s2),
                  s_events := mput rid (sn_Events sn) (s_events s2),
                  s_nextSeq := latest_from (s_nextSeq s2) (sn_Events sn)\<rparr>
         in load_snapshots sns (s3, w)))
       (s\<lparr>s_roots := mput rid root (s_roots s)\<rparr>, w))"

definition loadStoreState :: "unit svc" where
  "loadStoreState = (\<lambda>(s, w).
     case Load w of
       (Inl e, w1) \<Rightarrow> (Inl e, (s, w1))
     | (Inr sns, w1) \<Rightarrow> load_snapshots sns (s, w1))"

text \<open>\<open>NewService\<close> with the options of the callers: with a store and its allocator, or with neither.\<close>

definition NewService :: "TaskIDAllocator option \<Rightarrow> World \<Rightarrow> (error + unit) \<times> svc_state" where
  "NewService store w =
     (let s = \<lparr>s_store = (store \<noteq> None),
               s_taskIDs = (case store of None \<Rightarrow> NewMemoryTaskIDAllocator | Some a \<Rightarrow> a),
               s_nextApprovalID = 0, s_nextSeq = 0, s_roots = [], s_children = [], s_events = [],
               s_approvals = [], s_presence = []\<rparr>
      in if s_store s then loadStoreState (s, w) else (Inr (), (s, w)))"

subsection \<open>Transactions\<close>

text \<open>
  The callback of \<open>Mutate\<close> edits the snapshot it is given and may draw task IDs; it is modelled
  as a function that returns the edited snapshot with the caller's own result, or an error.
\<close>

type_synonym 'r change = "Snapshot \<Rightarrow> (alloc_state, error, Snapshot \<times> 'r) sm"

fun check_children ::
    "Service \<Rightarrow> Task \<Rightarrow> string \<Rightarrow> Task list \<Rightarrow> string list \<Rightarrow> (string, string) gomap \<Rightarrow>
      error + string list \<times> (string, string) gomap" where
  "check_children s root rootID [] seen parents = Inr (seen, parents)"
| "check_children s root rootID (c # cs) seen parents =
     (if t_ID c = [] \<or> t_ID c \<in> set seen \<or> t_ParentID c = [] \<or>
         t_AssignmentType c \<noteq> t_AssignmentType root \<or> t_AssignmentID c \<noteq> t_AssignmentID root \<or>
         t_RoomID c \<noteq> t_RoomID root
      then Inl (ErrText ''invalid child task identity'')
      else if (case requireTaskLocked s (t_ID c) of Inr (owner, _) \<Rightarrow> owner \<noteq> rootID | Inl _ \<Rightarrow> False)
      then Inl (ErrText ''child ID belongs to another aggregate'')
      else check_children s root rootID cs (t_ID c # seen) (mput (t_ID c) (t_ParentID c) parents))"

function parent_path_ok ::
    "string \<Rightarrow> string list \<Rightarrow> (string, string) gomap \<Rightarrow> string list \<Rightarrow> string \<Rightarrow> bool" where
  "parent_path_ok rootID seen parents path current =
     (if current = rootID then True
      else if current \<notin> set seen \<or> current \<in> set path then False
      else parent_path_ok rootID seen parents (current # path)
             (case mget parents current of Some p \<Rightarrow> p | None \<Rightarrow> []))"
  by pat_completeness auto
termination
proof (relation "measure (\<lambda>(rootID, seen, parents, path, current). card (set seen - set path))")
  fix rootID :: string and seen parents path current
  assume "current \<noteq> rootID" and "\<not> (current \<notin> set seen \<or> current \<in> set path)"
  then have "set seen - set (current # path) \<subset> set seen - set path" by auto
  then show "((rootID, seen, parents, current # path,
        case mget parents current of Some p \<Rightarrow> p | None \<Rightarrow> []), rootID, seen, parents, path, current)
      \<in> measure (\<lambda>(rootID, seen, parents, path, current). card (set seen - set path))"
    by (auto intro: psubset_card_mono)
qed simp

declare parent_path_ok.simps [simp del]

text \<open>\<open>clock i\<close> is the time read for the \<open>i\<close>-th event, if it carries none.\<close>

fun stamp_events ::
    "Task \<Rightarrow> (nat \<Rightarrow> time) \<Rightarrow> nat \<Rightarrow> int \<Rightarrow> TaskEvent list \<Rightarrow> TaskEvent list \<times> int" where
  "stamp_events root clock i seq [] = ([], seq)"
| "stamp_events root clock i seq (e # es) =
     (let seq1 = wrap64 (seq + 1);
          e1 = e\<lparr>e_Seq := seq1, e_AssignmentType := t_AssignmentType root,
                 e_AssignmentID := t_AssignmentID root, e_RoomID := t_RoomID root,
                 e_Channel := t_ExecutionChannel root,
                 e_CreatedAt := (if e_CreatedAt e = 0 then clock i else e_CreatedAt e)\<rparr>;
          (es1, seq2) = stamp_events root clock (Suc i) seq1 es
      in (e1 # es1, seq2))"

text \<open>
  The append-only check compares slices with \<open>reflect.DeepEqual\<close>, so a slice is more than the
  list of its elements: it is nil or not, and \<open>DeepEqual\<close> tells a nil slice from an empty one
  (equality of \<open>slice\<close>s). \<open>cloneEvents\<close> gives nil for no events and an allocated slice
  otherwise. The callback gets such a slice and appends to it, and appending to nil allocates,
  so what it leaves is nil only without any event. Re-slicing \<open>s[:n]\<close> keeps an allocated slice
  allocated, also for \<open>n = 0\<close>.
\<close>

datatype 'a slice = NilSlice | SliceOf "'a list"

definition cloneEvents :: "TaskEvent list \<Rightarrow> TaskEvent slice" where
  "cloneEvents es = (if length es = 0 then NilSlice else SliceOf es)"

fun append_slice :: "'a slice \<Rightarrow> 'a list \<Rightarrow> 'a slice" where
  "append_slice NilSlice xs = (if xs = [] then NilSlice else SliceOf xs)"
| "append_slice (SliceOf ys) xs = SliceOf (ys @ xs)"

fun slice_to :: "nat \<Rightarrow> 'a slice \<Rightarrow> 'a slice" where
  "slice_to n NilSlice = NilSlice"
| "slice_to n (SliceOf xs) = SliceOf (take n xs)"

definition events_extend :: "TaskEvent list \<Rightarrow> TaskEvent list \<Rightarrow> bool" where
  "events_extend before next \<longleftrightarrow>
     length before \<le> length next \<and>
     slice_to (length before) (append_slice NilSlice next) = cloneEvents before"

lemma events_extend_iff:
  "events_extend before next \<longleftrightarrow>
     take (length before) next = before \<and> (before = [] \<longrightarrow> next = [])"
proof -
  have "length before \<le> length next" if "take (length before) next = before"
    using arg_cong [OF that, of length] by simp
  then show ?thesis by (auto simp: events_extend_def cloneEvents_def)
qed

definition validate_change :: "Service \<Rightarrow> string \<Rightarrow> Snapshot \<Rightarrow> Snapshot \<Rightarrow> error + unit" where
  "validate_change s rootID before next =
     (let root = sn_Root before in
      if t_ID (sn_Root next) \<noteq> rootID \<or> t_ParentID (sn_Root next) \<noteq> [] \<or>
         t_AssignmentType (sn_Root next) \<noteq> t_AssignmentType root \<or>
         t_AssignmentID (sn_Root next) \<noteq> t_AssignmentID root \<or>
         t_RoomID (sn_Root next) \<noteq> t_RoomID root
      then Inl (ErrText ''task aggregate identity cannot change'')
      else case check_children s root rootID (sn_Children next) [rootID] [] of
        Inl e \<Rightarrow> Inl e
      | Inr (seen, parents) \<Rightarrow>
      if \<not> list_all (parent_path_ok rootID seen parents []) (map fst parents)
      then Inl (ErrText ''task parent is missing or cyclic'')
      else if \<not> events_extend (sn_Events before) (sn_Events next)
      then Inl (ErrText ''task events are append-only'')
      else if sn_Approvals next \<noteq> sn_Approvals before \<or> sn_Presence next \<noteq> sn_Presence before
      then Inl (ErrText ''use the approval and presence operations to change those records'')
      else Inr ())"

definition Mutate :: "string \<Rightarrow> 'r change \<Rightarrow> (nat \<Rightarrow> time) \<Rightarrow> 'r svc" where
  "Mutate taskID change clock = (\<lambda>(s, w).
     case requireTaskLocked s taskID of
       Inl e \<Rightarrow> (Inl e, (s, w))
     | Inr (rootID, _) \<Rightarrow>
     let before = snapshotLocked s rootID; root = sn_Root before; start = length (sn_Events before) in
     case change before (s_taskIDs s, w) of
       (Inl e, (a, w1)) \<Rightarrow> (Inl e, (s\<lparr>s_taskIDs := a\<rparr>, w1))
     | (Inr (next, result), (a, w1)) \<Rightarrow>
     let s1 = s\<lparr>s_taskIDs := a\<rparr> in
     case validate_change s1 rootID before next of
       Inl e \<Rightarrow> (Inl e, (s1, w1))
     | Inr _ \<Rightarrow>
       let (new, seq) = stamp_events root clock 0 (s_nextSeq s1) (drop start (sn_Events next));
           next' = next\<lparr>sn_Events := take start (sn_Events next) @ new\<rparr>
       in case (if s_store s1 then SaveSnapshot next' new w1 else (Inr (), w1)) of
            (Inl e, w2) \<Rightarrow> (Inl e, (s1, w2))
          | (Inr _, w2) \<Rightarrow>
              (Inr result, (s1\<lparr>s_nextSeq := seq,
                 s_roots := mput rootID (sn_Root next') (s_roots s1),
                 s_children := mput rootID
                   (foldl (\<lambda>m c. mput (t_ID c) c m) [] (sn_Children next')) (s_children s1),
                 s_events := mput rootID (sn_Events next') (s_events s1)\<rparr>, w2)))"

subsection \<open>Well-formed services\<close>

text \<open>
  The maps have distinct keys, a task is stored under its own ID, root IDs are non-empty and
  trimmed, and only roots own children, approvals and events.
\<close>

definition svc_wf :: "Service \<Rightarrow> bool" where
  "svc_wf s \<longleftrightarrow>
     distinct (map fst (s_roots s)) \<and> distinct (map fst (s_children s)) \<and>
     distinct (map fst (s_approvals s)) \<and>
     (\<forall>r t. mget (s_roots s) r = Some t \<longrightarrow> t_ID t = r \<and> r \<noteq> [] \<and> trimmed r) \<and>
     (\<forall>r. distinct (map fst (childrenForRootLocked s r)) \<and>
        (\<forall>k c. mget (childrenForRootLocked s r) k = Some c \<longrightarrow> t_ID c = k)) \<and>
     (\<forall>r. distinct (map fst (approvalsForRootLocked s r)) \<and>
        (\<forall>k a. mget (approvalsForRootLocked s r) k = Some a \<longrightarrow> a_ID a = k)) \<and>
     (\<forall>r. distinct (map fst (presenceForRootLocked s r)) \<and>
        (\<forall>k p. mget (presenceForRootLocked s r) k = Some p \<longrightarrow> p_ParticipantID p = k)) \<and>
     (\<forall>r. mget (s_roots s) r = None \<longrightarrow>
        childrenForRootLocked s r = [] \<and> approvalsForRootLocked s r = [] \<and> mgets (s_events s) r = [])"

lemma svc_wf_root: "svc_wf s \<Longrightarrow> mget (s_roots s) r = Some t \<Longrightarrow> t_ID t = r \<and> r \<noteq> [] \<and> trimmed r"
  by (simp add: svc_wf_def)

lemma svc_wf_no_root: "svc_wf s \<Longrightarrow> mget (s_roots s) r = None \<Longrightarrow>
    childrenForRootLocked s r = [] \<and> approvalsForRootLocked s r = [] \<and> mgets (s_events s) r = []"
  by (simp add: svc_wf_def)

lemma find_inner_Some:
  assumes "find_inner mm k = Some (r, v)" and "distinct (map fst mm)"
  shows "mget (mgets mm r) k = Some v"
  using assms
proof (induction mm k rule: find_inner.induct)
  case (2 r' m rest k)
  show ?case
  proof (cases "mget m k")
    case None
    with 2 have IH: "mget (mgets rest r) k = Some v" by simp
    then have "mget rest r \<noteq> None" by (cases "mget rest r") (auto simp: mgets_def)
    then have "r \<in> fst ` set rest" by (metis mget_None_key)
    with 2 IH show ?thesis by (auto simp: mgets_def)
  qed (use 2 in \<open>auto simp: mgets_def\<close>)
qed simp

lemma requireTaskLocked_cases:
  assumes "requireTaskLocked s taskID = Inr (r, t)" and "svc_wf s"
  obtains (root) "TrimSpace taskID = r" and "mget (s_roots s) r = Some t"
    | (child) root where "mget (s_roots s) (TrimSpace taskID) = None" and "mget (s_roots s) r = Some root"
      and "mget (childrenForRootLocked s r) (TrimSpace taskID) = Some t"
proof (cases "mget (s_roots s) (TrimSpace taskID)")
  case None
  with assms(1) have "find_inner (s_children s) (TrimSpace taskID) = Some (r, t)"
    by (auto simp: requireTaskLocked_def Let_def split: if_splits option.splits)
  then have c: "mget (childrenForRootLocked s r) (TrimSpace taskID) = Some t"
    using find_inner_Some [of "s_children s"] assms(2) by (simp add: svc_wf_def childrenForRootLocked_def)
  then have "mget (s_roots s) r \<noteq> None" using svc_wf_no_root [OF assms(2), of r] by fastforce
  then obtain root where "mget (s_roots s) r = Some root" by auto
  from that(2) [OF None this c] show ?thesis .
next
  case (Some t')
  with assms(1) have "TrimSpace taskID = r" "mget (s_roots s) r = Some t"
    by (auto simp: requireTaskLocked_def Let_def split: if_splits)
  from that(1) [OF this] show ?thesis .
qed

lemma requireTaskLocked_root:
  "requireTaskLocked s taskID = Inr (r, t) \<Longrightarrow> svc_wf s \<Longrightarrow> \<exists>root. mget (s_roots s) r = Some root"
  by (erule requireTaskLocked_cases) auto

lemma requireTaskLocked_id:
  assumes "requireTaskLocked s taskID = Inr (r, t)" and "svc_wf s"
  shows "t_ID t = TrimSpace taskID"
  using assms by (cases rule: requireTaskLocked_cases) (use assms(2) in \<open>auto simp: svc_wf_def\<close>)

text \<open>
  The changes an operation makes before it appends its event: the aggregate \<open>r\<close> of a
  well-formed service is edited and nothing else.
\<close>

definition edits :: "string \<Rightarrow> Service \<Rightarrow> Service \<Rightarrow> bool" where
  "edits r s s' \<longleftrightarrow> svc_wf s' \<and> mget (s_roots s') r \<noteq> None \<and>
     s_store s' = s_store s \<and> s_nextSeq s' = s_nextSeq s \<and> s_events s' = s_events s \<and>
     (\<forall>k. k \<noteq> r \<longrightarrow> mget (s_roots s') k = mget (s_roots s) k \<and>
        childrenForRootLocked s' k = childrenForRootLocked s k \<and>
        approvalsForRootLocked s' k = approvalsForRootLocked s k \<and>
        presenceForRootLocked s' k = presenceForRootLocked s k)"

lemmas svc_views = childrenForRootLocked_def approvalsForRootLocked_def presenceForRootLocked_def

lemma edits_wf: "edits r s s' \<Longrightarrow> svc_wf s'"
  by (simp add: edits_def)

lemma edits_set_task:
  assumes "svc_wf s" and "requireTaskLocked s taskID = Inr (r, t)" and "t_ID t' = t_ID t"
  shows "edits r s (set_task r taskID t' s)"
  using assms(2,1)
proof (cases rule: requireTaskLocked_cases)
  case root
  with assms(1,3) show ?thesis
    by (auto simp: edits_def set_task_def svc_wf_def svc_views Let_def)
next
  case (child root)
  with assms(1,3) requireTaskLocked_id [OF assms(2,1)] show ?thesis
    by (auto simp: edits_def set_task_def svc_wf_def svc_views Let_def)
qed

subsection \<open>Appending an event and saving\<close>

lemma snapshotLocked_cong:
  assumes "mget (s_roots s') r = mget (s_roots s) r"
    and "childrenForRootLocked s' r = childrenForRootLocked s r"
    and "approvalsForRootLocked s' r = approvalsForRootLocked s r"
    and "presenceForRootLocked s' r = presenceForRootLocked s r"
    and "mgets (s_events s') r = mgets (s_events s) r"
  shows "snapshotLocked s' r = snapshotLocked s r"
  using assms by (simp add: snapshotLocked_def)

lemma sn_Events_snapshotLocked [simp]: "sn_Events (snapshotLocked s r) = mgets (s_events s) r"
  by (simp add: snapshotLocked_def)

lemma sn_Root_snapshotLocked: "mget (s_roots s) r = Some t \<Longrightarrow> sn_Root (snapshotLocked s r) = t"
  by (simp add: snapshotLocked_def)

lemma sn_Children_snapshotLocked_sorted [simp]:
  "sort_key t_ID (sn_Children (snapshotLocked s r)) = sn_Children (snapshotLocked s r)"
  by (simp add: snapshotLocked_def)

lemma appendEventLocked_cases:
  assumes "mget (s_roots s) r = Some root" and "s_nextSeq s < int64_max" and "0 \<le> s_nextSeq s"
  obtains e where "appendEventLocked r ev s = s\<lparr>s_nextSeq := s_nextSeq s + 1,
      s_events := mput r (mgets (s_events s) r @ [e]) (s_events s)\<rparr>"
    and "e_Seq e = s_nextSeq s + 1" and "e_Type e = e_Type ev" and "e_TaskID e = e_TaskID ev"
    and "e_ActorID e = e_ActorID ev"
proof -
  let ?e1 = "ev\<lparr>e_Seq := s_nextSeq s + 1, e_AssignmentType := t_AssignmentType root,
                         e_AssignmentID := t_AssignmentID root\<rparr>"
  let ?e2 = "if TrimSpace (e_RoomID ?e1) = [] then
                      (case requireTaskLocked s (e_TaskID ?e1) of
                         Inr (_, task) \<Rightarrow>
                           ?e1\<lparr>e_RoomID := t_RoomID task, e_Channel := t_ExecutionChannel task\<rparr>
                       | Inl _ \<Rightarrow> ?e1)
                    else ?e1"
  have "wrap64 (s_nextSeq s + 1) = s_nextSeq s + 1" using assms(2,3) by (simp add: wrap64_id)
  with assms(1) show ?thesis
    by (intro that [of ?e2]) (auto simp: appendEventLocked_def Let_def split: sum.splits prod.splits)
qed

text \<open>
  The service agrees with its files: what \<open>LoadRoot\<close> reads for a root is its aggregate in
  memory, there is no record without a root, and the next sequence number is beyond all events.
\<close>

definition synced :: "Service \<Rightarrow> World \<Rightarrow> bool" where
  "synced s w \<longleftrightarrow> s_store s \<and> 0 \<le> s_nextSeq s \<and>
     (\<forall>r. \<forall>e \<in> set (mgets (s_events s) r). e_Seq e \<le> s_nextSeq s) \<and>
     (\<forall>r. mget (s_roots s) r = None \<longrightarrow> mget (w_tasks w) r = None) \<and>
     (\<forall>r t. mget (s_roots s) r = Some t \<longrightarrow> committed w r (mgets (s_events s) r) \<and>
        durable w r (mgets (s_events s) r) = Inr (snapshotLocked s r))"

lemma synced_events_le: "synced s w \<Longrightarrow> e \<in> set (mgets (s_events s) r) \<Longrightarrow> e_Seq e \<le> s_nextSeq s"
  by (simp add: synced_def)

lemma synced_committed:
  assumes "synced s w" and "svc_wf s"
  shows "committed w r (mgets (s_events s) r)"
proof (cases "mget (s_roots s) r")
  case None
  with assms svc_wf_no_root [OF assms(2) None] show ?thesis by (simp add: synced_def committed_def)
next
  case (Some t)
  with assms(1) show ?thesis by (simp add: synced_def)
qed

lemma synced_LoadRoot:
  assumes "synced s w" and "svc_wf s" and "mget (s_roots s) r = Some t"
  shows "LoadRoot r (disk w) = (Inr (snapshotLocked s r), disk w)"
  using assms svc_wf_root [OF assms(2,3)] LoadRoot_committed [of "disk w" r "mgets (s_events s) r"]
  by (simp add: synced_def durable_def)


lemma synced_cong:
  assumes "synced s w" and "s_store s' = s_store s" and "s_nextSeq s \<le> s_nextSeq s'"
    and "\<And>r. mget (s_roots s') r = mget (s_roots s) r" and "\<And>r. snapshotLocked s' r = snapshotLocked s r"
    and "w_tasks w' = w_tasks w" and "w_journal w' = w_journal w"
  shows "synced s' w'"
proof -
  have e: "mgets (s_events s') r = mgets (s_events s) r" for r
    using assms(5) [of r] by (metis sn_Events_snapshotLocked)
  have c: "committed w' r es = committed w r es" for r es
    by (rule committed_cong) (simp_all add: assms(6,7))
  have d: "durable w' r es = durable w r es" for r es
    by (simp add: durable_def assms(6))
  have le: "e_Seq x \<le> s_nextSeq s'" if "x \<in> set (mgets (s_events s) r)" for x r
    using synced_events_le [OF assms(1) that] assms(3) by simp
  have "0 \<le> s_nextSeq s'" using assms(1,3) by (simp add: synced_def)
  with assms(1) le show ?thesis
    unfolding synced_def assms(2,4,5,6) e c d by simp
qed

lemma synced_world:
  "w_tasks w' = w_tasks w \<Longrightarrow> w_journal w' = w_journal w \<Longrightarrow> synced s w \<Longrightarrow> synced s w'"
  by (rule synced_cong) auto

lemma synced_same_but:
  assumes "same_but r w w'" and "k \<noteq> r"
  shows "mget (w_tasks w') k = mget (w_tasks w) k" and "committed w' k es = committed w k es"
    and "durable w' k es = durable w k es"
proof -
  from assms show t: "mget (w_tasks w') k = mget (w_tasks w) k" by (simp add: same_but_def)
  with assms show "committed w' k es = committed w k es"
    by (intro committed_cong) (simp_all add: same_but_def)
  from t show "durable w' k es = durable w k es" by (simp add: durable_def)
qed

text \<open>
  The save of one edited aggregate, whose new events lie beyond all events so far: it brings
  the files to the new state, or leaves them at the old one.
\<close>

lemma save_synced:
  assumes syn: "synced s w" and wf: "svc_wf s"
    and save: "SaveSnapshot sn new w = (res, w')"
    and r: "t_ID (sn_Root sn) = r" "trimmed r"
    and ev: "sn_Events sn = mgets (s_events s) r @ new" "seq_ok new" "\<forall>e \<in> set new. s_nextSeq s < e_Seq e"
  shows "\<not> is_ok res \<Longrightarrow> synced s w'"
    and "is_ok res \<Longrightarrow> s_store s' \<Longrightarrow> s_nextSeq s \<le> s_nextSeq s' \<Longrightarrow>
      (\<forall>e \<in> set new. e_Seq e \<le> s_nextSeq s') \<Longrightarrow>
      (\<And>k. k \<noteq> r \<Longrightarrow> mget (s_roots s') k = mget (s_roots s) k \<and> snapshotLocked s' k = snapshotLocked s k) \<Longrightarrow>
      mget (s_roots s') r \<noteq> None \<Longrightarrow>
      snapshotLocked s' r = sn\<lparr>sn_Children := sort_key t_ID (sn_Children sn)\<rparr> \<Longrightarrow> synced s' w'"
proof -
  let ?es = "mgets (s_events s) r"
  note c = synced_committed [OF syn wf, of r]
  have "seq_ok (?es @ new)"
    using ev(2,3) synced_events_le [OF syn] c
    by (auto simp: seq_ok_append dest: committed_journal) fastforce
  note E = SaveSnapshot_effect [OF save r(1) [symmetric] c ev(1) this]
  show "synced s w'" if "\<not> is_ok res"
  proof -
    have E': "mget (w_tasks w') r = mget (w_tasks w) r" "committed w' r ?es" using E that by simp_all
    have "mget (w_tasks w') k = mget (w_tasks w) k \<and>
      (committed w k (mgets (s_events s) k) \<longrightarrow> committed w' k (mgets (s_events s) k)) \<and>
      durable w' k (mgets (s_events s) k) = durable w k (mgets (s_events s) k)" for k
      using E' E synced_same_but [of r w w' k] by (cases "k = r") (auto simp: durable_def)
    with syn show ?thesis by (simp add: synced_def)
  qed
  show "synced s' w'" if ok: "is_ok res" and st: "s_store s'" "s_nextSeq s \<le> s_nextSeq s'"
    "\<forall>e \<in> set new. e_Seq e \<le> s_nextSeq s'"
    and others: "\<And>k. k \<noteq> r \<Longrightarrow> mget (s_roots s') k = mget (s_roots s) k \<and> snapshotLocked s' k = snapshotLocked s k"
    and root: "mget (s_roots s') r \<noteq> None"
    and sn: "snapshotLocked s' r = sn\<lparr>sn_Children := sort_key t_ID (sn_Children sn)\<rparr>"
  proof -
    from E ok obtain sn' where sn': "snapshotFromRecord r (record_of sn) = Inr sn'"
      and rec: "mget (w_tasks w') r = Some (Json (record_of sn))" "committed w' r (?es @ new)"
      and sb: "same_but r w w'"
      by (cases "snapshotFromRecord r (record_of sn)") auto
    have evs: "mgets (s_events s') r = ?es @ new"
      using arg_cong [OF sn, of sn_Events] ev(1) by simp
    have evk: "mgets (s_events s') k = mgets (s_events s) k" if "k \<noteq> r" for k
      using others [OF that] by (metis sn_Events_snapshotLocked)
    have "sn'\<lparr>sn_Events := ?es @ new\<rparr> = snapshotLocked s' r"
      using snapshotFromRecord_record_of [of sn sn' "?es @ new"] sn' r sn ev(1) by simp
    then have dr: "durable w' r (?es @ new) = Inr (snapshotLocked s' r)"
      using rec(1) sn' by (simp add: durable_def)
    have le: "e_Seq e \<le> s_nextSeq s'" if "e \<in> set (mgets (s_events s') k)" for e k
      using that st(2,3) synced_events_le [OF syn, of e] evs evk by (cases "k = r") fastforce+
    have roots: "committed w' k (mgets (s_events s') k) \<and>
        durable w' k (mgets (s_events s') k) = Inr (snapshotLocked s' k)"
      if "mget (s_roots s') k = Some t" for k t
    proof (cases "k = r")
      case True
      with evs rec(2) dr show ?thesis by simp
    next
      case False
      with that others [OF False] syn evk [OF False] synced_same_but [OF sb False] show ?thesis
        by (simp add: synced_def)
    qed
    have "mget (w_tasks w') k = None" if "mget (s_roots s') k = None" for k
      using that root others [of k] syn synced_same_but(1) [OF sb, of k]
      by (cases "k = r") (auto simp: synced_def)
    with st le roots syn show ?thesis by (auto simp: synced_def)
  qed
qed

subsection \<open>Operations that append one event\<close>

lemma appendEventLocked_wf: "svc_wf s \<Longrightarrow> svc_wf (appendEventLocked r ev s)"
  by (auto simp: appendEventLocked_def svc_wf_def svc_views Let_def split: option.splits)

lemma appendEventLocked_fields [simp]:
  "s_store (appendEventLocked r ev s) = s_store s" "s_taskIDs (appendEventLocked r ev s) = s_taskIDs s"
  "s_roots (appendEventLocked r ev s) = s_roots s" "s_children (appendEventLocked r ev s) = s_children s"
  "s_approvals (appendEventLocked r ev s) = s_approvals s"
  "s_presence (appendEventLocked r ev s) = s_presence s"
  "s_nextApprovalID (appendEventLocked r ev s) = s_nextApprovalID s"
  by (simp_all add: appendEventLocked_def Let_def split: option.splits)

lemma snapshotLocked_events:
  "snapshotLocked (s\<lparr>s_nextSeq := n, s_events := mput r es (s_events s)\<rparr>) k =
     (if k = r then (snapshotLocked s r)\<lparr>sn_Events := es\<rparr> else snapshotLocked s k)"
  by (simp add: snapshotLocked_def svc_views)

text \<open>
  Saving after one appended event, for an aggregate that was edited (or is new).
\<close>

lemma persist_synced:
  assumes syn: "synced s w" and wf: "svc_wf s" and ed: "edits r s s1" and room: "s_nextSeq s < int64_max"
    and per: "persistRootLocked r (length (mgets (s_events s) r)) (appendEventLocked r ev s1) w = (res, w')"
  shows "\<not> is_ok res \<Longrightarrow> synced s w'" and "is_ok res \<Longrightarrow> synced (appendEventLocked r ev s1) w'"
proof -
  from ed obtain root where root: "mget (s_roots s1) r = Some root" by (auto simp: edits_def)
  from ed have s1: "svc_wf s1" "s_store s1 = s_store s" "s_nextSeq s1 = s_nextSeq s" "s_events s1 = s_events s"
    by (simp_all add: edits_def)
  have pos: "0 \<le> s_nextSeq s" "s_store s" using syn by (simp_all add: synced_def)
  obtain e where ap: "appendEventLocked r ev s1 = s1\<lparr>s_nextSeq := s_nextSeq s + 1,
      s_events := mput r (mgets (s_events s) r @ [e]) (s_events s1)\<rparr>" and e: "e_Seq e = s_nextSeq s + 1"
    using appendEventLocked_cases [OF root, of ev] room pos s1 by auto
  let ?s2 = "appendEventLocked r ev s1" and ?es = "mgets (s_events s) r"
  have ev2: "mgets (s_events ?s2) r = ?es @ [e]" by (simp add: ap)
  have save: "SaveSnapshot (snapshotLocked ?s2 r) [e] w = (res, w')"
    using per pos s1 by (simp add: persistRootLocked_def ev2)
  have rt: "t_ID (sn_Root (snapshotLocked ?s2 r)) = r" "trimmed r"
    using svc_wf_root [OF s1(1) root] sn_Root_snapshotLocked [of ?s2 r root] root by simp_all
  have new: "seq_ok [e]" "\<forall>x \<in> set [e]. s_nextSeq s < e_Seq x"
    using e pos by (simp_all add: seq_ok_def)
  have evs: "sn_Events (snapshotLocked ?s2 r) = ?es @ [e]" by (simp add: ev2)
  note S = save_synced [OF syn wf save rt evs new]
  from S(1) show "synced s w'" if "\<not> is_ok res" using that .
  have others: "mget (s_roots ?s2) k = mget (s_roots s) k \<and> snapshotLocked ?s2 k = snapshotLocked s k"
    if "k \<noteq> r" for k
    using that ed by (auto simp: ap edits_def svc_views intro!: snapshotLocked_cong)
  show "synced ?s2 w'" if "is_ok res"
    by (rule S(2) [OF that _ _ _ others]) (use pos s1 e root in \<open>simp_all add: ap\<close>)
qed

text \<open>The runs of the operations that edit one aggregate, append an event and save.\<close>

definition same_keys :: "Service \<Rightarrow> Service \<Rightarrow> bool" where
  "same_keys s s' \<longleftrightarrow> s_taskIDs s' = s_taskIDs s \<and>
     (\<forall>k. mget (s_roots s') k = None \<longleftrightarrow> mget (s_roots s) k = None) \<and>
     (\<forall>r k. mget (childrenForRootLocked s' r) k = None \<longleftrightarrow> mget (childrenForRootLocked s r) k = None)"

lemma same_keys_set_task:
  assumes "svc_wf s" and "requireTaskLocked s taskID = Inr (r, t)"
  shows "same_keys s (set_task r taskID t' s)"
  using assms(2,1)
  by (cases rule: requireTaskLocked_cases) (auto simp: same_keys_def set_task_def Let_def svc_views)

lemma same_keys_room_children:
  assumes "same_keys s s1"
  shows "same_keys s (s1\<lparr>s_children :=
    mput r (map (\<lambda>(k, c). (k, f c)) (childrenForRootLocked s1 r)) (s_children s1)\<rparr>)"
proof -
  have m: "mget (map (\<lambda>(k, c). (k, f c)) m) k = map_option f (mget m k)" for m k
    by (induction m) auto
  show ?thesis using assms by (auto simp: same_keys_def svc_views m)
qed

lemma same_keys_approvals [simp]:
  "same_keys s (s\<lparr>s_approvals := a\<rparr>)" "same_keys s (s\<lparr>s_nextApprovalID := n, s_approvals := a\<rparr>)"
  by (simp_all add: same_keys_def svc_views)

inductive event_run :: "Service \<Rightarrow> World \<Rightarrow> (error + 'a) \<times> svc_state \<Rightarrow> bool" for s w where
  refused: "event_run s w (Inl e, (s, w))"
| recorded: "edits r s s1 \<Longrightarrow> same_keys s s1 \<Longrightarrow>
    event_run s w (record_event r (length (mgets (s_events s) r)) ev v (s1, w))"

lemma set_task_ids [simp]: "s_taskIDs (set_task r i t s) = s_taskIDs s"
  by (simp add: set_task_def Let_def)

lemma set_task_events [simp]: "s_events (set_task r i t s) = s_events s"
  by (simp add: set_task_def Let_def)

lemma event_run_Claim: "svc_wf s \<Longrightarrow> event_run s w (Claim input now (s, w))"
  by (auto simp: Claim_def Let_def split: sum.splits intro!: event_run.intros edits_set_task same_keys_set_task)

lemma event_run_finishTask: "svc_wf s \<Longrightarrow> event_run s w (finishTask i a st txt now (s, w))"
  by (auto simp: finishTask_def Let_def split: sum.splits intro!: event_run.intros edits_set_task same_keys_set_task)

lemma event_run_Block: "svc_wf s \<Longrightarrow> event_run s w (Block input now (s, w))"
  by (auto simp: Block_def Let_def split: sum.splits intro!: event_run.intros edits_set_task same_keys_set_task)

lemma edits_children:
  assumes "edits r s s1" and "distinct (map fst m)" and "\<And>k c. mget m k = Some c \<Longrightarrow> t_ID c = k"
  shows "edits r s (s1\<lparr>s_children := mput r m (s_children s1)\<rparr>)"
proof -
  have "svc_wf s1" "mget (s_roots s1) r \<noteq> None" using assms(1) by (simp_all add: edits_def)
  then have "svc_wf (s1\<lparr>s_children := mput r m (s_children s1)\<rparr>)"
    using assms(2,3) by (auto simp: svc_wf_def svc_views)
  with assms(1) show ?thesis by (simp add: edits_def svc_views)
qed

lemma edits_room_children:
  assumes "edits r s s1" and "\<And>c. t_ID (f c) = t_ID c"
  shows "edits r s (s1\<lparr>s_children :=
    mput r (map (\<lambda>(k, c). (k, f c)) (childrenForRootLocked s1 r)) (s_children s1)\<rparr>)"
proof (rule edits_children [OF assms(1)])
  have m: "mget (map (\<lambda>(k, c). (k, f c)) m) k = map_option f (mget m k)" for m k
    by (induction m) auto
  have k: "map fst (map (\<lambda>(k, c). (k, f c)) m) = map fst m" for m :: "(string, Task) gomap"
    by (induction m) auto
  have wf: "svc_wf s1" using assms(1) by (rule edits_wf)
  show "distinct (map fst (map (\<lambda>(k, c). (k, f c)) (childrenForRootLocked s1 r)))"
    using wf by (simp only: k svc_wf_def)
  show "t_ID c = k" if "mget (map (\<lambda>(k, c). (k, f c)) (childrenForRootLocked s1 r)) k = Some c" for k c
    using that wf assms(2) by (auto simp: m svc_wf_def)
qed

lemma event_run_BindRoom: "svc_wf s \<Longrightarrow> event_run s w (BindRoom input now (s, w))"
  by (auto simp: BindRoom_def Let_def split: sum.splits
      intro!: event_run.intros edits_set_task edits_room_children
        same_keys_set_task same_keys_room_children)

lemma edits_approval:
  assumes "svc_wf s" and "mget (s_roots s) r \<noteq> None" and "a_ID a = k"
  shows "edits r s (s\<lparr>s_nextApprovalID := n, s_approvals :=
    mput r (mput k a (approvalsForRootLocked s r)) (s_approvals s)\<rparr>)"
  using assms by (auto simp: edits_def svc_wf_def svc_views)

lemma edits_approval_only:
  assumes "svc_wf s" and "mget (s_roots s) r \<noteq> None" and "a_ID a = k"
  shows "edits r s (s\<lparr>s_approvals := mput r (mput k a (approvalsForRootLocked s r)) (s_approvals s)\<rparr>)"
  using assms by (auto simp: edits_def svc_wf_def svc_views)

lemma approvalsForRootLocked_counter [simp]:
  "approvalsForRootLocked (s\<lparr>s_nextApprovalID := n\<rparr>) r = approvalsForRootLocked s r"
  by (simp add: svc_views)

lemma event_run_RequestApproval: "svc_wf s \<Longrightarrow> event_run s w (RequestApproval input now (s, w))"
  by (auto simp: RequestApproval_def nextApprovalIdentifier_def Let_def split: sum.splits
      intro!: event_run.intros edits_approval dest: requireTaskLocked_root)

lemma requireApprovalLocked_root:
  assumes "requireApprovalLocked s i = Inr (r, a)" and "svc_wf s"
  shows "mget (approvalsForRootLocked s r) (TrimSpace i) = Some a \<and> a_ID a = TrimSpace i \<and>
    (\<exists>t. mget (s_roots s) r = Some t)"
proof -
  have "mget (approvalsForRootLocked s r) (TrimSpace i) = Some a"
    using assms find_inner_Some [of "s_approvals s"]
    by (auto simp: requireApprovalLocked_def svc_wf_def svc_views split: option.splits)
  moreover from this have "mget (s_roots s) r \<noteq> None"
    using svc_wf_no_root [OF assms(2), of r] by fastforce
  ultimately show ?thesis using assms(2) by (auto simp: svc_wf_def)
qed

lemma event_run_ResolveApproval: "svc_wf s \<Longrightarrow> event_run s w (ResolveApproval input now (s, w))"
  by (auto simp: ResolveApproval_def Let_def split: sum.splits
      intro!: event_run.intros edits_approval_only dest: requireApprovalLocked_root)

lemma record_event_cases:
  assumes "record_event r start ev v (s1, w) = (res, (s2, w2))"
  obtains x where "persistRootLocked r start (appendEventLocked r ev s1) w = (x, w2)"
    and "s2 = appendEventLocked r ev s1" and "res = map_sum id (\<lambda>_. v) x"
  using assms by (auto simp: record_event_def Let_def split: prod.splits sum.splits)

lemma is_ok_map_sum [simp]: "is_ok (map_sum f g x) = is_ok x"
  by (cases x) auto

lemma event_run_wf:
  assumes "event_run s w (res, (s', w'))" and "svc_wf s"
  shows "svc_wf s' \<and> same_keys s s'"
  using assms(1)
proof cases
  case refused
  with assms(2) show ?thesis by (simp add: same_keys_def)
next
  case (recorded r s1 ev v)
  from recorded(1) [symmetric] show ?thesis
    by (cases rule: record_event_cases)
      (use recorded in \<open>auto intro: appendEventLocked_wf edits_wf simp: same_keys_def svc_views\<close>)
qed

lemma event_run_synced:
  assumes "event_run s w (res, (s', w'))" and "svc_wf s" and "synced s w"
    and "s_nextSeq s < int64_max"
  shows "if is_ok res then synced s' w' else synced s w'"
  using assms(1)
proof cases
  case refused
  with assms(3) show ?thesis by simp
next
  case (recorded r s1 ev v)
  from recorded(1) [symmetric] obtain x where
    "persistRootLocked r (length (mgets (s_events s) r)) (appendEventLocked r ev s1) w = (x, w')"
    "s' = appendEventLocked r ev s1" "is_ok res = is_ok x"
    by (cases rule: record_event_cases) auto
  with persist_synced [OF assms(3,2) recorded(2) assms(4)] show ?thesis by simp
qed

subsection \<open>Task IDs are unique\<close>

text \<open>
  Every ID in use is covered by the allocator, and no ID is used twice, as a root or as a child.
\<close>

definition ids_ok :: "Service \<Rightarrow> bool" where
  "ids_ok s \<longleftrightarrow>
     (\<forall>r t. mget (s_roots s) r = Some t \<longrightarrow> covered (al_next (s_taskIDs s)) r) \<and>
     (\<forall>r k c. mget (childrenForRootLocked s r) k = Some c \<longrightarrow>
        covered (al_next (s_taskIDs s)) k \<and> mget (s_roots s) k = None) \<and>
     (\<forall>r r' k c c'. mget (childrenForRootLocked s r) k = Some c \<longrightarrow>
        mget (childrenForRootLocked s r') k = Some c' \<longrightarrow> r = r')"

lemma same_keys_ids_ok: "same_keys s s' \<Longrightarrow> ids_ok s \<Longrightarrow> ids_ok s'"
  by (simp add: same_keys_def ids_ok_def) (metis not_None_eq)

lemma ids_ok_alloc:
  "ids_ok s \<Longrightarrow> al_next (s_taskIDs s) \<le> al_next a \<Longrightarrow> ids_ok (s\<lparr>s_taskIDs := a\<rparr>)"
  by (simp add: ids_ok_def svc_views) (meson covered_mono)

lemma svc_wf_alloc [simp]: "svc_wf (s\<lparr>s_taskIDs := a\<rparr>) = svc_wf s"
  by (simp add: svc_wf_def svc_views)

lemma snapshotLocked_alloc [simp]: "snapshotLocked (s\<lparr>s_taskIDs := a\<rparr>) r = snapshotLocked s r"
  by (simp add: snapshotLocked_def svc_views)

lemma synced_alloc:
  "synced s w \<Longrightarrow> w_tasks w' = w_tasks w \<Longrightarrow> w_journal w' = w_journal w \<Longrightarrow> synced (s\<lparr>s_taskIDs := a\<rparr>) w'"
  by (rule synced_cong) auto

text \<open>
  What drawing identifiers does to the state: the counter grows, the task files stay, and the
  counters in the files stay readable.
\<close>

definition ids_drawn :: "alloc_state \<Rightarrow> alloc_state \<Rightarrow> bool" where
  "ids_drawn = (\<lambda>(a, w) (b, v). al_next a \<le> al_next b \<and> al_root b = al_root a \<and>
     w_tasks v = w_tasks w \<and> w_journal v = w_journal w \<and> w_dirs v = w_dirs w \<and>
     (counters_ok w \<longrightarrow> counters_ok v))"

lemma ids_drawn_refl [simp]: "ids_drawn x x"
  by (simp add: ids_drawn_def split: prod.splits)

lemma ids_drawn_trans: "ids_drawn x y \<Longrightarrow> ids_drawn y z \<Longrightarrow> ids_drawn x z"
  by (auto simp: ids_drawn_def)

lemma Next_drawn:
  assumes "Next x = (res, y)" and "alloc_room 1 x"
  shows "ids_drawn x y"
proof -
  obtain a w b v where x: "x = (a, w)" "y = (b, v)" by (cases x; cases y)
  from assms(1) [unfolded x] show ?thesis
    by (cases rule: Next_cases)
      (use assms(2) in \<open>auto simp: x ids_drawn_def alloc_room_def wrap64_id
        dest: disk_eqD intro: counters_ok_written [where n = "al_next a + 1"] counters_ok_disk counters_ok_cong [THEN iffD2]\<close>)
qed

lemma Bump_drawn:
  assumes "Bump i x = (res, y)"
  shows "ids_drawn x y"
proof -
  obtain a w b v where x: "x = (a, w)" "y = (b, v)" by (cases x; cases y)
  from assms [unfolded x] show ?thesis
    by (cases rule: Bump_cases)
      (auto simp: x ids_drawn_def maxCounter_ge
        dest: disk_eqD intro: counters_ok_written counters_ok_disk counters_ok_cong [THEN iffD2])
qed

lemma formatTaskIdentifier_always_trimmed [simp]: "trimmed (formatTaskIdentifier n)"
proof (rule visible_trimmed)
  have "is_digit (last (dec_of_nat m))" for m
    using dec_of_nat_digits [of m] dec_of_nat_nonempty [of m] last_in_set by blast
  then show "visible (last (formatTaskIdentifier n))"
    by (auto simp: formatTaskIdentifier_def dec_of_int_def intro: is_digit_visible)
qed (simp_all add: formatTaskIdentifier_def visible_def)

lemma Next_ident:
  assumes "Next x = (Inr i, y)"
  shows "trimmed i \<and> i \<noteq> []"
proof -
  obtain a w b v where x: "x = (a, w)" "y = (b, v)" by (cases x; cases y)
  from assms [unfolded x] show ?thesis by (cases rule: Next_cases) auto
qed

subsection \<open>Creating roots and children\<close>

lemma new_root_ID [simp]: "t_ID (new_root input now i) = i" "t_ParentID (new_root input now i) = []"
  by (simp_all add: new_root_def zero_task_def)

lemma root_ident_cases:
  assumes "(if TrimSpace x = [] then nextTaskIdentifier else returnE (TrimSpace x)) (s, w) = (res, (s1, w1))"
    and "alloc_room 1 (s_taskIDs s, w)"
  shows "\<exists>a. s1 = s\<lparr>s_taskIDs := a\<rparr> \<and> ids_drawn (s_taskIDs s, w) (a, w1) \<and>
    (\<forall>i. res = Inr i \<longrightarrow> trimmed i \<and> i \<noteq> [] \<and>
      (TrimSpace x = [] \<longrightarrow> \<not> covered (al_next (s_taskIDs s)) i) \<and> (TrimSpace x \<noteq> [] \<longrightarrow> i = TrimSpace x))"
proof (cases "TrimSpace x = []")
  case True
  with assms(1) obtain a where a: "Next (s_taskIDs s, w) = (res, (a, w1))" "s1 = s\<lparr>s_taskIDs := a\<rparr>"
    by (auto simp: nextTaskIdentifier_def split: prod.splits)
  have f: "\<not> covered (al_next (s_taskIDs s)) i" if "res = Inr i" for i
    using allocator.next_fresh [of 0 "(s_taskIDs s, w)" i "(a, w1)"] assms(2) a(1) that
    by (simp add: alloc_covers_def)
  have "trimmed i \<and> i \<noteq> []" if "res = Inr i" for i
    using Next_ident [of "(s_taskIDs s, w)" i] a(1) that by simp
  with a(2) Next_drawn [OF a(1) assms(2)] f True show ?thesis by (intro exI [of _ a]) simp
next
  case False
  with assms(1) show ?thesis by (intro exI [of _ "s_taskIDs s"]) auto
qed

lemma bumpTaskIdentifier_cases:
  assumes "bumpTaskIdentifier i (s, w) = (res, (s1, w1))"
  shows "\<exists>a. s1 = s\<lparr>s_taskIDs := a\<rparr> \<and> ids_drawn (s_taskIDs s, w) (a, w1) \<and>
    (is_ok res \<longrightarrow> covered (al_next a) i)"
proof -
  obtain a where a: "Bump i (s_taskIDs s, w) = (res, (a, w1))" "s1 = s\<lparr>s_taskIDs := a\<rparr>"
    using assms by (auto simp: bumpTaskIdentifier_def split: prod.splits)
  have "covered (al_next a) i" if "is_ok res"
    using allocator.bump_covers [of i "(s_taskIDs s, w)" "(a, w1)"] a(1) that
    by (cases res) (auto simp: alloc_covers_def)
  with a Bump_drawn [OF a(1)] show ?thesis by blast
qed

definition drop_root :: "string \<Rightarrow> Service \<Rightarrow> Service" where
  "drop_root i s = s\<lparr>s_roots := mdel i (s_roots s), s_events := mdel i (s_events s)\<rparr>"

lemma CreateRoot_cases:
  assumes "CreateRoot input now (s, w) = (res, (s', w'))" and "alloc_room 1 (s_taskIDs s, w)"
  obtains (refused) e a where "res = Inl e" and "s' = s\<lparr>s_taskIDs := a\<rparr>"
      and "ids_drawn (s_taskIDs s, w) (a, w')"
    | (created) i a w1 ev x where "ids_drawn (s_taskIDs s, w) (a, w1)" and "trimmed i" and "i \<noteq> []"
      and "mget (s_roots s) i = None" and "covered (al_next a) i"
      and "TrimSpace (cr_ID input) = [] \<longrightarrow> \<not> covered (al_next (s_taskIDs s)) i"
      and "TrimSpace (cr_ID input) \<noteq> [] \<longrightarrow> i = TrimSpace (cr_ID input)"
      and "persistRootLocked i 0 (appendEventLocked i ev
             (s\<lparr>s_taskIDs := a, s_roots := mput i (new_root input now i) (s_roots s)\<rparr>)) w1 = (x, w')"
      and "res = map_sum id (\<lambda>_. new_root input now i) x"
      and "s' = (if is_ok x then appendEventLocked i ev
             (s\<lparr>s_taskIDs := a, s_roots := mput i (new_root input now i) (s_roots s)\<rparr>)
           else drop_root i (appendEventLocked i ev
             (s\<lparr>s_taskIDs := a, s_roots := mput i (new_root input now i) (s_roots s)\<rparr>)))"
proof (cases "is_ok (validateAssignment (cr_AssignmentType input) (cr_AssignmentID input)) \<and>
    TrimSpace (cr_Title input) \<noteq> [] \<and> TrimSpace (cr_CreatedBy input) \<noteq> []")
  case False
  then have "\<exists>e. CreateRoot input now (s, w) = (Inl e, (s, w))"
    by (cases "validateAssignment (cr_AssignmentType input) (cr_AssignmentID input)")
      (auto simp: CreateRoot_def)
  then obtain e where "CreateRoot input now (s, w) = (Inl e, (s, w))" by blast
  with assms(1) show ?thesis by (intro that(1) [of e "s_taskIDs s"]) auto
next
  case True
  let ?id = "if TrimSpace (cr_ID input) = [] then nextTaskIdentifier else returnE (TrimSpace (cr_ID input))"
  obtain r1 s1 w1 where id1: "?id (s, w) = (r1, (s1, w1))" by (metis prod_cases3)
  from root_ident_cases [OF id1 assms(2)] obtain a1 where s1: "s1 = s\<lparr>s_taskIDs := a1\<rparr>"
    and d1: "ids_drawn (s_taskIDs s, w) (a1, w1)"
    and i1: "\<forall>i. r1 = Inr i \<longrightarrow> trimmed i \<and> i \<noteq> [] \<and>
      (TrimSpace (cr_ID input) = [] \<longrightarrow> \<not> covered (al_next (s_taskIDs s)) i) \<and>
      (TrimSpace (cr_ID input) \<noteq> [] \<longrightarrow> i = TrimSpace (cr_ID input))" by blast
  note run = assms(1) [unfolded CreateRoot_def]
  show ?thesis
  proof (cases r1)
    case (Inl e)
    with True run id1 s1 d1 show ?thesis
      by (intro that(1) [of e a1]) (auto split: sum.splits)
  next
    case (Inr i)
    show ?thesis
    proof (cases "mget (s_roots s) i")
      case (Some t)
      with True run id1 s1 Inr d1 show ?thesis
        by (intro that(1) [of "ErrText ''task already exists''" a1]) (auto split: sum.splits)
    next
      case None
      obtain r2 s2 w2 where b: "bumpTaskIdentifier i (s1, w1) = (r2, (s2, w2))" by (metis prod_cases3)
      from bumpTaskIdentifier_cases [OF b] s1 obtain a2 where s2: "s2 = s\<lparr>s_taskIDs := a2\<rparr>"
        and d2: "ids_drawn (a1, w1) (a2, w2)" and c2: "is_ok r2 \<longrightarrow> covered (al_next a2) i" by auto
      note d = ids_drawn_trans [OF d1 d2]
      show ?thesis
      proof (cases "is_ok r2 \<and> (cr_Status input = [] \<or> cr_Status input = StatusQueued)")
        case False
        then obtain e where "res = Inl e \<and> s' = s2 \<and> w' = w2"
          using True run id1 s1 Inr None b
          by (cases r2) (auto simp: Let_def split: sum.splits)
        with s2 d show ?thesis by (intro that(1) [of e a2]) auto
      next
        case ok: True
        let ?ev = "created_event (new_root input now i) now"
        let ?s3 = "appendEventLocked i ?ev (s2\<lparr>s_roots := mput i (new_root input now i) (s_roots s2)\<rparr>)"
        obtain x w3 where x: "persistRootLocked i 0 ?s3 w2 = (x, w3)" by fastforce
        have "res = map_sum id (\<lambda>_. new_root input now i) x \<and> w' = w3 \<and>
            s' = (if is_ok x then ?s3 else drop_root i ?s3)"
          using True ok run id1 s1 s2 Inr None b x
          by (cases r2; cases x) (auto simp: Let_def drop_root_def split: sum.splits)
        then show ?thesis
          using i1 Inr None c2 ok d x s2 by (intro that(2) [of a2 w2 i ?ev x]) simp_all
      qed
    qed
  qed
qed

definition id_free :: "Service \<Rightarrow> string \<Rightarrow> bool" where
  "id_free s i \<longleftrightarrow> (\<forall>r. mget (childrenForRootLocked s r) i = None)"

lemma ids_ok_free: "ids_ok s \<Longrightarrow> \<not> covered (al_next (s_taskIDs s)) i \<Longrightarrow> id_free s i \<and> mget (s_roots s) i = None"
  unfolding ids_ok_def id_free_def by (metis not_None_eq)

lemma wf_new_root:
  assumes "svc_wf s" and "trimmed i" and "i \<noteq> []" and "t_ID t = i"
  shows "svc_wf (s\<lparr>s_taskIDs := a, s_roots := mput i t (s_roots s)\<rparr>)"
  using assms by (simp add: svc_wf_def svc_views)

lemma wf_drop_root:
  assumes "svc_wf s" and "svc_wf s'" and "mget (s_roots s) i = None"
    and "s_children s' = s_children s" and "s_approvals s' = s_approvals s"
  shows "svc_wf (drop_root i s')"
  using assms(2) svc_wf_no_root [OF assms(1,3)] assms(4,5) by (simp add: svc_wf_def drop_root_def svc_views)

lemma edits_new_root:
  assumes "svc_wf s" and "trimmed i" and "i \<noteq> []" and "t_ID t = i"
  shows "edits i s (s\<lparr>s_taskIDs := a, s_roots := mput i t (s_roots s)\<rparr>)"
  using wf_new_root [OF assms] by (simp add: edits_def svc_views)

lemma CreateRoot_wf:
  assumes "CreateRoot input now (s, w) = (res, (s', w'))" and "alloc_room 1 (s_taskIDs s, w)" and "svc_wf s"
  shows "svc_wf s'"
  using assms(1,2)
proof (cases rule: CreateRoot_cases)
  case (refused e a)
  with assms(3) show ?thesis by simp
next
  case (created i a w1 ev x)
  have "svc_wf (appendEventLocked i ev (s\<lparr>s_taskIDs := a, s_roots := mput i (new_root input now i) (s_roots s)\<rparr>))"
    by (rule appendEventLocked_wf, rule wf_new_root) (use assms(3) created in auto)
  with wf_drop_root [OF assms(3) this created(4)] created(10) show ?thesis by simp
qed

lemma CreateRoot_ids:
  assumes "CreateRoot input now (s, w) = (res, (s', w'))" and "alloc_room 1 (s_taskIDs s, w)"
    and "svc_wf s" and "ids_ok s"
    and "TrimSpace (cr_ID input) \<noteq> [] \<longrightarrow> id_free s (TrimSpace (cr_ID input))"
  shows "ids_ok s'"
  using assms(1,2)
proof (cases rule: CreateRoot_cases)
  case (refused e a)
  with assms(4) show ?thesis by (auto simp: ids_drawn_def intro: ids_ok_alloc)
next
  case (created i a w1 ev x)
  have ok: "ids_ok (s\<lparr>s_taskIDs := a\<rparr>)"
    using created(1) assms(4) by (auto simp: ids_drawn_def intro: ids_ok_alloc)
  have free: "id_free s i"
  proof (cases "TrimSpace (cr_ID input) = []")
    case True
    with created(6) ids_ok_free [OF assms(4)] show ?thesis by simp
  qed (use created(7) assms(5) in simp)
  let ?s1 = "s\<lparr>s_taskIDs := a, s_roots := mput i (new_root input now i) (s_roots s)\<rparr>"
  have "ids_ok (appendEventLocked i ev ?s1)" "ids_ok (drop_root i (appendEventLocked i ev ?s1))"
    using ok free created(5) by (auto simp: ids_ok_def id_free_def svc_views drop_root_def)
  with created(10) show ?thesis by simp
qed

lemma CreateRoot_ids_failed:
  assumes "CreateRoot input now (s, w) = (res, (s', w'))" and "alloc_room 1 (s_taskIDs s, w)"
    and "ids_ok s" and "\<not> is_ok res"
  shows "ids_ok s'"
  using assms(1,2)
proof (cases rule: CreateRoot_cases)
  case (refused e a)
  with assms(3) show ?thesis by (auto simp: ids_drawn_def intro: ids_ok_alloc)
next
  case (created i a w1 ev x)
  have "ids_ok (s\<lparr>s_taskIDs := a\<rparr>)" using created(1) assms(3) by (auto simp: ids_drawn_def intro: ids_ok_alloc)
  then have "ids_ok (drop_root i (appendEventLocked i ev
      (s\<lparr>s_taskIDs := a, s_roots := mput i (new_root input now i) (s_roots s)\<rparr>)))"
    by (auto simp: ids_ok_def svc_views drop_root_def)
  with assms(4) created(9,10) show ?thesis by simp
qed

lemma CreateRoot_synced:
  assumes "CreateRoot input now (s, w) = (res, (s', w'))" and "alloc_room 1 (s_taskIDs s, w)"
    and "svc_wf s" and "synced s w" and "s_nextSeq s < int64_max"
  shows "synced s' w'"
  using assms(1,2)
proof (cases rule: CreateRoot_cases)
  case (refused e a)
  with assms(4) show ?thesis by (auto simp: ids_drawn_def intro: synced_alloc)
next
  case (created i a w1 ev x)
  let ?s0 = "s\<lparr>s_roots := s_roots s\<rparr>"
  let ?s1 = "s\<lparr>s_taskIDs := a, s_roots := mput i (new_root input now i) (s_roots s)\<rparr>"
  have syn: "synced s w1" using created(1) assms(4) by (auto simp: ids_drawn_def intro: synced_world)
  have ed: "edits i s ?s1" by (rule edits_new_root) (use assms(3) created in auto)
  have none: "mgets (s_events s) i = []" using svc_wf_no_root [OF assms(3) created(4)] by simp
  note P = persist_synced [OF syn assms(3) ed assms(5), unfolded none, simplified, OF created(8)]
  show ?thesis
  proof (cases "is_ok x")
    case True
    with P(2) created(10) show ?thesis by simp
  next
    case False
    have pos: "0 \<le> s_nextSeq s" using assms(4) by (simp add: synced_def)
    obtain e where ap: "appendEventLocked i ev ?s1 = ?s1\<lparr>s_nextSeq := s_nextSeq s + 1,
        s_events := mput i [e] (s_events s)\<rparr>"
      using appendEventLocked_cases [of ?s1 i "new_root input now i" ev] assms(5) pos none by auto
    have s': "s' = drop_root i (?s1\<lparr>s_nextSeq := s_nextSeq s + 1, s_events := mput i [e] (s_events s)\<rparr>)"
      using False created(10) ap by simp
    show ?thesis
    proof (rule synced_cong [OF P(1) [OF False]])
      show roots: "mget (s_roots s') r = mget (s_roots s) r" for r
        using created(4) by (simp add: s' drop_root_def)
      show "snapshotLocked s' r = snapshotLocked s r" for r
        by (rule snapshotLocked_cong [OF roots]) (use none in \<open>auto simp: s' drop_root_def svc_views\<close>)
    qed (simp_all add: s' drop_root_def)
  qed
qed

definition drop_child :: "string \<Rightarrow> string \<Rightarrow> nat \<Rightarrow> Service \<Rightarrow> Service" where
  "drop_child r i n s = s\<lparr>s_children := mput r (mdel i (childrenForRootLocked s r)) (s_children s),
     s_events := mput r (take n (mgets (s_events s) r)) (s_events s)\<rparr>"

definition add_child :: "string \<Rightarrow> string \<Rightarrow> Task \<Rightarrow> Service \<Rightarrow> Service" where
  "add_child r i c s = s\<lparr>s_children := mput r (mput i c (childrenForRootLocked s r)) (s_children s)\<rparr>"

lemma CreateChild_cases:
  assumes "CreateChild input now (s, w) = (res, (s', w'))" and "alloc_room 1 (s_taskIDs s, w)"
  obtains (refused) e a where "res = Inl e" and "s' = s\<lparr>s_taskIDs := a\<rparr>"
      and "ids_drawn (s_taskIDs s, w) (a, w')"
    | (created) r parent i a w1 ev x s1 where "requireTaskLocked s (cc_ParentID input) = Inr (r, parent)"
      and "ids_drawn (s_taskIDs s, w) (a, w1)" and "\<not> covered (al_next (s_taskIDs s)) i"
      and "covered (al_next a) i"
      and "s1 = appendEventLocked r ev (add_child r i (new_child input now parent i) (s\<lparr>s_taskIDs := a\<rparr>))"
      and "persistRootLocked r (length (mgets (s_events s) r)) s1 w1 = (x, w')"
      and "res = map_sum id (\<lambda>_. new_child input now parent i) x"
      and "s' = (if is_ok x then s1 else drop_child r i (length (mgets (s_events s) r)) s1)"
proof (cases "is_ok (requireTaskLocked s (cc_ParentID input)) \<and>
    TrimSpace (cc_Title input) \<noteq> [] \<and> TrimSpace (cc_CreatedBy input) \<noteq> []")
  case False
  then have "\<exists>e. CreateChild input now (s, w) = (Inl e, (s, w))"
    by (cases "requireTaskLocked s (cc_ParentID input)") (auto simp: CreateChild_def)
  then obtain e where "CreateChild input now (s, w) = (Inl e, (s, w))" by blast
  with assms(1) show ?thesis by (intro that(1) [of e "s_taskIDs s"]) auto
next
  case True
  then obtain r parent where rp: "requireTaskLocked s (cc_ParentID input) = Inr (r, parent)"
    by (cases "requireTaskLocked s (cc_ParentID input)") auto
  obtain r1 a w1 where nx: "Next (s_taskIDs s, w) = (r1, (a, w1))" by (metis prod_cases3)
  note d = Next_drawn [OF nx assms(2)]
  show ?thesis
  proof (cases r1)
    case (Inl e)
    with True rp nx d assms(1) show ?thesis
      by (intro that(1) [of e a]) (auto simp: CreateChild_def nextTaskIdentifier_def bindE_def)
  next
    case (Inr i)
    have f: "\<not> covered (al_next (s_taskIDs s)) i" "covered (al_next a) i"
      using allocator.next_fresh [of 0 "(s_taskIDs s, w)" i "(a, w1)"] assms(2) nx Inr
      by (simp_all add: alloc_covers_def)
    let ?c = "new_child input now parent i"
    let ?s1 = "appendEventLocked r (created_event ?c now) (add_child r i ?c (s\<lparr>s_taskIDs := a\<rparr>))"
    obtain x w2 where x: "persistRootLocked r (length (mgets (s_events s) r)) ?s1 w1 = (x, w2)" by fastforce
    have "res = map_sum id (\<lambda>_. ?c) x \<and> w' = w2 \<and>
        s' = (if is_ok x then ?s1 else drop_child r i (length (mgets (s_events s) r)) ?s1)"
      using True rp nx Inr x assms(1)
      by (cases x) (auto simp: CreateChild_def nextTaskIdentifier_def bindE_def Let_def add_child_def
          drop_child_def)
    with rp d f x show ?thesis by (intro that(2) [of r parent a w1 i ?s1 "created_event ?c now" x]) simp_all
  qed
qed

lemma add_child_simps [simp]:
  "s_roots (add_child r i c s) = s_roots s" "s_events (add_child r i c s) = s_events s"
  "s_taskIDs (add_child r i c s) = s_taskIDs s" "s_approvals (add_child r i c s) = s_approvals s"
  "s_presence (add_child r i c s) = s_presence s" "s_store (add_child r i c s) = s_store s"
  "s_nextSeq (add_child r i c s) = s_nextSeq s"
  "childrenForRootLocked (add_child r i c s) k =
     (if k = r then mput i c (childrenForRootLocked s r) else childrenForRootLocked s k)"
  by (simp_all add: add_child_def svc_views)

lemma drop_child_simps [simp]:
  "s_roots (drop_child r i n s) = s_roots s" "s_taskIDs (drop_child r i n s) = s_taskIDs s"
  "s_approvals (drop_child r i n s) = s_approvals s" "s_presence (drop_child r i n s) = s_presence s"
  "s_store (drop_child r i n s) = s_store s" "s_nextSeq (drop_child r i n s) = s_nextSeq s"
  "childrenForRootLocked (drop_child r i n s) k =
     (if k = r then mdel i (childrenForRootLocked s r) else childrenForRootLocked s k)"
  "mgets (s_events (drop_child r i n s)) k =
     (if k = r then take n (mgets (s_events s) r) else mgets (s_events s) k)"
  by (simp_all add: drop_child_def svc_views)

lemma appendEventLocked_children [simp]:
  "childrenForRootLocked (appendEventLocked r ev s) k = childrenForRootLocked s k"
  "approvalsForRootLocked (appendEventLocked r ev s) k = approvalsForRootLocked s k"
  "presenceForRootLocked (appendEventLocked r ev s) k = presenceForRootLocked s k"
  by (simp_all add: svc_views)

lemma alloc_children [simp]:
  "childrenForRootLocked (s\<lparr>s_taskIDs := a\<rparr>) k = childrenForRootLocked s k"
  "approvalsForRootLocked (s\<lparr>s_taskIDs := a\<rparr>) k = approvalsForRootLocked s k"
  "presenceForRootLocked (s\<lparr>s_taskIDs := a\<rparr>) k = presenceForRootLocked s k"
  by (simp_all add: svc_views)

lemma events_children [simp]:
  "childrenForRootLocked (s\<lparr>s_nextSeq := n, s_events := es\<rparr>) k = childrenForRootLocked s k"
  "approvalsForRootLocked (s\<lparr>s_nextSeq := n, s_events := es\<rparr>) k = approvalsForRootLocked s k"
  "presenceForRootLocked (s\<lparr>s_nextSeq := n, s_events := es\<rparr>) k = presenceForRootLocked s k"
  by (simp_all add: svc_views)

lemma edits_add_child:
  assumes "svc_wf s" and "mget (s_roots s) r \<noteq> None" and "t_ID c = i"
  shows "edits r s (add_child r i c (s\<lparr>s_taskIDs := a\<rparr>))"
proof -
  have "edits r s (s\<lparr>s_taskIDs := a\<rparr>)" using assms(1,2) by (simp add: edits_def)
  then show ?thesis unfolding add_child_def
    by (rule edits_children) (use assms in \<open>auto simp: svc_wf_def split: if_splits\<close>)
qed

lemma new_child_ID [simp]:
  "t_ID (new_child input now p i) = i" "t_ParentID (new_child input now p i) = t_ID p"
  by (simp_all add: new_child_def)

lemma wf_drop_child: "svc_wf s \<Longrightarrow> mget (s_roots s) r \<noteq> None \<Longrightarrow> svc_wf (drop_child r i n s)"
  by (auto simp: svc_wf_def drop_child_def svc_views)

lemma ids_ok_child: "ids_ok s \<Longrightarrow> mget (childrenForRootLocked s r) k = Some c \<Longrightarrow>
    covered (al_next (s_taskIDs s)) k \<and> mget (s_roots s) k = None"
  unfolding ids_ok_def by blast

lemma ids_ok_add_child:
  assumes ok: "ids_ok s" and free: "id_free s i" "mget (s_roots s) i = None" "covered (al_next (s_taskIDs s)) i"
  shows "ids_ok (add_child r i c s)"
proof -
  have "r1 = r2" if "mget (childrenForRootLocked (add_child r i c s) r1) k = Some c1"
    "mget (childrenForRootLocked (add_child r i c s) r2) k = Some c2" for r1 r2 k c1 c2
  proof (cases "k = i")
    case True
    with that free(1) show ?thesis by (auto simp: id_free_def split: if_splits)
  next
    case False
    with that have "mget (childrenForRootLocked s r1) k = Some c1" "mget (childrenForRootLocked s r2) k = Some c2"
      by (auto split: if_splits)
    with ok show ?thesis unfolding ids_ok_def by blast
  qed
  moreover have "covered (al_next (s_taskIDs s)) k \<and> mget (s_roots s) k = None"
    if "mget (childrenForRootLocked (add_child r i c s) r1) k = Some c1" for r1 k c1
    using that ids_ok_child [OF ok] free by (auto split: if_splits)
  ultimately show ?thesis using ok unfolding ids_ok_def by (metis add_child_simps(1,3))
qed

lemma ids_ok_drop_child:
  assumes "ids_ok s"
  shows "ids_ok (drop_child r i n s)"
proof -
  have "mget (childrenForRootLocked s r1) k = Some c1"
    if "mget (childrenForRootLocked (drop_child r i n s) r1) k = Some c1" for r1 k c1
    using that by (auto split: if_splits)
  with assms show ?thesis unfolding ids_ok_def by (metis drop_child_simps(1,2))
qed

lemma ids_ok_append_event [simp]: "ids_ok (appendEventLocked r ev s) = ids_ok s"
  by (simp add: ids_ok_def)

lemma CreateChild_wf:
  assumes "CreateChild input now (s, w) = (res, (s', w'))" and "alloc_room 1 (s_taskIDs s, w)" and "svc_wf s"
  shows "svc_wf s'"
  using assms(1,2)
proof (cases rule: CreateChild_cases)
  case (refused e a)
  with assms(3) show ?thesis by simp
next
  case (created r parent i a w1 ev x s1)
  have root: "mget (s_roots s) r \<noteq> None" using requireTaskLocked_root [OF created(1) assms(3)] by simp
  have wf1: "svc_wf s1" unfolding created(5)
    by (intro appendEventLocked_wf edits_wf [OF edits_add_child [OF assms(3) root]]) simp
  then have "svc_wf (drop_child r i n s1)" for n
    by (rule wf_drop_child) (simp add: created(5) root)
  with wf1 created(8) show ?thesis by simp
qed

lemma CreateChild_ids:
  assumes "CreateChild input now (s, w) = (res, (s', w'))" and "alloc_room 1 (s_taskIDs s, w)"
    and "svc_wf s" and "ids_ok s"
  shows "ids_ok s'"
  using assms(1,2)
proof (cases rule: CreateChild_cases)
  case (refused e a)
  with assms(4) show ?thesis by (auto simp: ids_drawn_def intro: ids_ok_alloc)
next
  case (created r parent i a w1 ev x s1)
  have ok: "ids_ok (s\<lparr>s_taskIDs := a\<rparr>)"
    using created(2) assms(4) by (auto simp: ids_drawn_def intro: ids_ok_alloc)
  note free = ids_ok_free [OF assms(4) created(3)]
  have "ids_ok s1" unfolding created(5) ids_ok_append_event
    by (rule ids_ok_add_child [OF ok]) (use free created(4) in \<open>simp_all add: id_free_def\<close>)
  with ids_ok_drop_child created(8) show ?thesis by simp
qed

lemma CreateChild_synced:
  assumes "CreateChild input now (s, w) = (res, (s', w'))" and "alloc_room 1 (s_taskIDs s, w)"
    and "svc_wf s" and "ids_ok s" and "synced s w" and "s_nextSeq s < int64_max"
  shows "synced s' w'"
  using assms(1,2)
proof (cases rule: CreateChild_cases)
  case (refused e a)
  with assms(5) show ?thesis by (auto simp: ids_drawn_def intro: synced_alloc)
next
  case (created r parent i a w1 ev x s1)
  let ?c = "new_child input now parent i" and ?n = "length (mgets (s_events s) r)"
  let ?s0 = "add_child r i ?c (s\<lparr>s_taskIDs := a\<rparr>)"
  obtain root where root: "mget (s_roots s) r = Some root"
    using requireTaskLocked_root [OF created(1) assms(3)] by auto
  have syn: "synced s w1" using created(2) assms(5) by (auto simp: ids_drawn_def intro: synced_world)
  have ed: "edits r s ?s0" by (rule edits_add_child) (use assms(3) root in auto)
  note P = persist_synced [OF syn assms(3) ed assms(6), OF created(6) [unfolded created(5)], folded created(5)]
  show ?thesis
  proof (cases "is_ok x")
    case True
    with P(2) created(8) show ?thesis by simp
  next
    case False
    have pos: "0 \<le> s_nextSeq s" using assms(5) by (simp add: synced_def)
    obtain e where ap: "s1 = ?s0\<lparr>s_nextSeq := s_nextSeq s + 1,
        s_events := mput r (mgets (s_events s) r @ [e]) (s_events s)\<rparr>"
      using appendEventLocked_cases [of ?s0 r root ev] assms(6) pos root created(5) by auto
    have gone: "mdel i (mput i ?c m) = mdel i m" for m :: "(string, Task) gomap"
      by (induction m) auto
    have free: "mdel i (childrenForRootLocked s r) = childrenForRootLocked s r"
      using ids_ok_free [OF assms(4) created(3)] by (simp add: id_free_def delete_idem mget_None_key)
    have s': "s' = drop_child r i ?n s1" using False created(8) by simp
    show ?thesis
    proof (rule synced_cong [OF P(1) [OF False]])
      show roots: "mget (s_roots s') k = mget (s_roots s) k" for k
        by (simp add: s' ap)
      show "snapshotLocked s' k = snapshotLocked s k" for k
        by (rule snapshotLocked_cong [OF roots]) (auto simp: s' ap gone free approvalsForRootLocked_def presenceForRootLocked_def)
    qed (simp_all add: s' ap)
  qed
qed

subsection \<open>Transactions\<close>

text \<open>
  The discipline of the callbacks of \<open>Mutate\<close>: they draw at most \<open>n\<close> IDs, touch nothing
  else, and every child they return has an ID it had before or one of those drawn
  (\<open>change_ok\<close>); they append at most \<open>n\<close> events (\<open>change_small\<close>).
\<close>

inductive draws :: "alloc_state \<Rightarrow> string list \<Rightarrow> alloc_state \<Rightarrow> bool" where
  draws_none: "draws x [] x"
| draws_next: "Next x = (Inr i, y) \<Longrightarrow> draws y is z \<Longrightarrow> draws x (i # is) z"
| draws_fail: "Next x = (Inl e, y) \<Longrightarrow> draws y is z \<Longrightarrow> draws x is z"

definition change_ok :: "nat \<Rightarrow> 'r change \<Rightarrow> bool" where
  "change_ok n change \<longleftrightarrow> (\<forall>sn x res y. change sn x = (res, y) \<longrightarrow>
     (\<exists>is. draws x is y \<and> length is \<le> n \<and>
        (\<forall>next v. res = Inr (next, v) \<longrightarrow>
           t_ID ` set (sn_Children next) \<subseteq> t_ID ` set (sn_Children sn) \<union> set is)))"

definition change_small :: "nat \<Rightarrow> 'r change \<Rightarrow> bool" where
  "change_small n change \<longleftrightarrow> (\<forall>sn x next v y. change sn x = (Inr (next, v), y) \<longrightarrow>
     length (sn_Events next) \<le> length (sn_Events sn) + n)"

lemma change_okE:
  assumes "change_ok n change" and "change sn x = (res, y)"
  obtains ids where "draws x ids y" and "length ids \<le> n"
    and "\<And>next v. res = Inr (next, v) \<Longrightarrow>
      t_ID ` set (sn_Children next) \<subseteq> t_ID ` set (sn_Children sn) \<union> set ids"
proof -
  from assms(1) [unfolded change_ok_def, THEN spec, THEN spec, THEN spec, THEN spec, THEN mp, OF assms(2)]
  obtain ids where "draws x ids y" and "length ids \<le> n" and sub: "\<forall>next v. res = Inr (next, v) \<longrightarrow>
      t_ID ` set (sn_Children next) \<subseteq> t_ID ` set (sn_Children sn) \<union> set ids"
    by (elim exE conjE)
  from this(1,2) show ?thesis by (rule that) (use sub in simp)
qed

lemma Next_failed_drawn:
  assumes "Next x = (Inl e, y)"
  shows "ids_drawn x y \<and> (\<forall>n. alloc_room n x \<longrightarrow> alloc_room n y) \<and> alloc_covers y = alloc_covers x"
proof -
  obtain a w b v where x: "x = (a, w)" "y = (b, v)" by (cases x; cases y)
  from assms [unfolded x] show ?thesis
    by (cases rule: Next_cases)
      (auto simp: x ids_drawn_def alloc_room_def alloc_covers_def dest: disk_eqD intro: counters_ok_disk)
qed

lemma alloc_room_le: "alloc_room n x \<Longrightarrow> m \<le> n \<Longrightarrow> alloc_room m x"
  by (auto simp: alloc_room_def)

lemma draws_fresh:
  assumes "draws x is z" and "alloc_room (length is) x"
  shows "ids_drawn x z \<and> (\<forall>i \<in> set is. \<not> alloc_covers x i \<and> alloc_covers z i)"
  using assms
proof (induction rule: draws.induct)
  case (draws_none x)
  then show ?case by simp
next
  case (draws_next x i y "is" z)
  have r1: "alloc_room 1 x" using draws_next.prems by (rule alloc_room_le) simp
  have ry: "alloc_room (length is) y"
    using allocator.next_room [of "length is" x "Inr i" y] draws_next by simp
  note IH = draws_next.IH [OF ry]
  have d: "ids_drawn x y" by (rule Next_drawn [OF draws_next.hyps(1) r1])
  have f: "\<not> alloc_covers x i" "alloc_covers y i"
    using allocator.next_fresh [of 0 x i y] draws_next.hyps(1) r1 by simp_all
  have up: "alloc_covers v j" if "ids_drawn u v" "alloc_covers u j" for u v j
    using that by (auto simp: ids_drawn_def alloc_covers_def elim: covered_mono)
  from IH d f up [OF d] up [of y z] show ?case by (auto intro: ids_drawn_trans)
next
  case (draws_fail x e y "is" z)
  note N = Next_failed_drawn [OF draws_fail.hyps(1)]
  with draws_fail.IH draws_fail.prems show ?case by (auto intro: ids_drawn_trans)
qed

lemma check_children_Inr:
  assumes "check_children s root r cs seen par = Inr (seen', par')"
  shows "distinct (map t_ID cs) \<and> t_ID ` set cs \<inter> set seen = {} \<and> set seen' = set seen \<union> t_ID ` set cs \<and>
    (\<forall>c \<in> set cs. t_ID c \<noteq> [] \<and> t_ParentID c \<noteq> [] \<and> t_AssignmentType c = t_AssignmentType root \<and>
       t_AssignmentID c = t_AssignmentID root \<and> t_RoomID c = t_RoomID root)"
  using assms
proof (induction cs arbitrary: seen par)
  case (Cons c cs)
  let ?bad = "case requireTaskLocked s (t_ID c) of Inr (owner, _) \<Rightarrow> owner \<noteq> r | Inl _ \<Rightarrow> False"
  from Cons.prems have c: "t_ID c \<noteq> [] \<and> t_ID c \<notin> set seen \<and> t_ParentID c \<noteq> [] \<and>
      t_AssignmentType c = t_AssignmentType root \<and> t_AssignmentID c = t_AssignmentID root \<and>
      t_RoomID c = t_RoomID root"
    and rest: "check_children s root r cs (t_ID c # seen) (mput (t_ID c) (t_ParentID c) par) = Inr (seen', par')"
    by (auto split: if_splits)
  from Cons.IH [OF rest] c show ?case by auto
qed simp

lemma stamp_events_spec:
  assumes "stamp_events root clock i seq es = (new, seq')" and "0 \<le> seq" and "seq + int (length es) \<le> int64_max"
  shows "length new = length es \<and> seq' = seq + int (length es) \<and> sorted_wrt (<) (map e_Seq new) \<and>
    (\<forall>e \<in> set new. seq < e_Seq e \<and> e_Seq e \<le> seq') \<and>
    map e_Type new = map e_Type es \<and> map e_TaskID new = map e_TaskID es"
  using assms
proof (induction es arbitrary: i seq new seq')
  case Nil
  then show ?case by simp
next
  case (Cons e es)
  from Cons.prems(2,3) have w: "wrap64 (seq + 1) = seq + 1" by (simp add: wrap64_id)
  obtain new1 seq1 where r: "stamp_events root clock (Suc i) (seq + 1) es = (new1, seq1)" by fastforce
  have IH: "length new1 = length es \<and> seq1 = seq + 1 + int (length es) \<and>
    sorted_wrt (<) (map e_Seq new1) \<and> (\<forall>e \<in> set new1. seq + 1 < e_Seq e \<and> e_Seq e \<le> seq1) \<and>
    map e_Type new1 = map e_Type es \<and> map e_TaskID new1 = map e_TaskID es"
    by (rule Cons.IH [OF r]) (use Cons.prems in simp_all)
  then have le: "\<forall>e \<in> set new1. seq < e_Seq e \<and> e_Seq e \<le> seq + 1 + int (length es)" by auto
  from Cons.prems(1) r w have "seq' = seq1" "tl new = new1" "new \<noteq> []" "e_Seq (hd new) = seq + 1"
    "e_Type (hd new) = e_Type e" "e_TaskID (hd new) = e_TaskID e"
    by (auto simp: Let_def)
  with IH le show ?case by (cases new) auto
qed

lemma foldl_mput_distinct:
  assumes "distinct (map f xs)" and "set (map fst m) \<inter> set (map f xs) = {}"
  shows "foldl (\<lambda>m c. mput (f c) c m) m xs = m @ map (\<lambda>c. (f c, c)) xs"
  using assms
proof (induction xs arbitrary: m)
  case (Cons x xs)
  have "mput (f x) x m = m @ [(f x, x)]"
    using Cons.prems(2) by (induction m) auto
  with Cons show ?case by auto
qed simp

definition install :: "string \<Rightarrow> Snapshot \<Rightarrow> int \<Rightarrow> Service \<Rightarrow> Service" where
  "install r sn seq s = s\<lparr>s_nextSeq := seq, s_roots := mput r (sn_Root sn) (s_roots s),
     s_children := mput r (map (\<lambda>c. (t_ID c, c)) (sn_Children sn)) (s_children s),
     s_events := mput r (sn_Events sn) (s_events s)\<rparr>"

text \<open>
  The runs of \<open>Mutate\<close>: refused before the save, or one save of a snapshot that keeps the
  identity of the aggregate, has distinct children and extends the events.
\<close>

definition same_aggregate :: "Task \<Rightarrow> Snapshot \<Rightarrow> bool" where
  "same_aggregate root sn \<longleftrightarrow>
     t_ParentID (sn_Root sn) = [] \<and> t_AssignmentType (sn_Root sn) = t_AssignmentType root \<and>
     t_AssignmentID (sn_Root sn) = t_AssignmentID root \<and> t_RoomID (sn_Root sn) = t_RoomID root \<and>
     (\<forall>c \<in> set (sn_Children sn). t_ID c \<noteq> [] \<and> t_ParentID c \<noteq> [] \<and>
        t_AssignmentType c = t_AssignmentType root \<and> t_AssignmentID c = t_AssignmentID root \<and>
        t_RoomID c = t_RoomID root)"

lemma same_aggregate_events [simp]: "same_aggregate root (sn\<lparr>sn_Events := es\<rparr>) = same_aggregate root sn"
  by (simp add: same_aggregate_def)

lemma validate_change_Inr:
  assumes "validate_change s r before next = Inr u"
  shows "t_ID (sn_Root next) = r \<and> distinct (map t_ID (sn_Children next)) \<and>
    events_extend (sn_Events before) (sn_Events next) \<and> sn_Approvals next = sn_Approvals before \<and>
    sn_Presence next = sn_Presence before \<and> same_aggregate (sn_Root before) next"
  using assms check_children_Inr [of s "sn_Root before" r "sn_Children next" "[r]" "[]"]
  by (auto simp: validate_change_def same_aggregate_def Let_def split: if_splits sum.splits)

text \<open>
  What the proofs need of a callback: from the given allocator it draws fresh IDs only, and
  each child it returns has an old ID or a fresh one. A disciplined callback has this if the
  counter leaves room for its draws, one that leaves the allocator alone has it always.
\<close>

definition fresh_change :: "'r change \<Rightarrow> alloc_state \<Rightarrow> bool" where
  "fresh_change change x \<longleftrightarrow> (\<forall>sn res y. change sn x = (res, y) \<longrightarrow>
     (\<exists>ids. ids_drawn x y \<and>
        (\<forall>i \<in> set ids. \<not> covered (al_next (fst x)) i \<and> covered (al_next (fst y)) i) \<and>
        (\<forall>next v. res = Inr (next, v) \<longrightarrow>
           t_ID ` set (sn_Children next) \<subseteq> t_ID ` set (sn_Children sn) \<union> set ids)))"

lemma fresh_changeE:
  assumes "fresh_change change x" and "change sn x = (res, y)"
  obtains ids where "ids_drawn x y"
    and "\<forall>i \<in> set ids. \<not> covered (al_next (fst x)) i \<and> covered (al_next (fst y)) i"
    and "\<And>next v. res = Inr (next, v) \<Longrightarrow>
      t_ID ` set (sn_Children next) \<subseteq> t_ID ` set (sn_Children sn) \<union> set ids"
proof -
  from assms(1) [unfolded fresh_change_def, THEN spec, THEN spec, THEN spec, THEN mp, OF assms(2)]
  obtain ids where "ids_drawn x y"
    "\<forall>i \<in> set ids. \<not> covered (al_next (fst x)) i \<and> covered (al_next (fst y)) i"
    and sub: "\<forall>next v. res = Inr (next, v) \<longrightarrow>
      t_ID ` set (sn_Children next) \<subseteq> t_ID ` set (sn_Children sn) \<union> set ids"
    by (elim exE conjE)
  from this(1,2) show ?thesis by (rule that) (use sub in simp)
qed

lemma change_ok_fresh:
  assumes "change_ok n change" and "alloc_room n x"
  shows "fresh_change change x"
  unfolding fresh_change_def
proof (intro allI impI)
  fix sn res y
  assume "change sn x = (res, y)"
  with assms(1) obtain ids where "draws x ids y" "length ids \<le> n"
    and sub: "\<And>next v. res = Inr (next, v) \<Longrightarrow>
      t_ID ` set (sn_Children next) \<subseteq> t_ID ` set (sn_Children sn) \<union> set ids" by (rule change_okE) blast
  from draws_fresh [OF this(1) alloc_room_le [OF assms(2) this(2)]] sub
  show "\<exists>ids. ids_drawn x y \<and>
      (\<forall>i \<in> set ids. \<not> covered (al_next (fst x)) i \<and> covered (al_next (fst y)) i) \<and>
      (\<forall>next v. res = Inr (next, v) \<longrightarrow>
         t_ID ` set (sn_Children next) \<subseteq> t_ID ` set (sn_Children sn) \<union> set ids)"
    by (intro exI [of _ ids]) (simp add: alloc_covers_def)
qed

lemma Mutate_cases:
  assumes run: "Mutate taskID change clock (s, w) = (res, (s', w'))"
    and ch: "fresh_change change (s_taskIDs s, w)"
  obtains (refused) e a where "res = Inl e" and "s' = s\<lparr>s_taskIDs := a\<rparr>"
      and "ids_drawn (s_taskIDs s, w) (a, w')"
    | (attempted) r t ids a w1 sn evs v new seq x where
      "requireTaskLocked s taskID = Inr (r, t)"
      and "ids_drawn (s_taskIDs s, w) (a, w1)"
      and "\<forall>i \<in> set ids. \<not> covered (al_next (s_taskIDs s)) i \<and> covered (al_next a) i"
      and "t_ID ` set (sn_Children sn) \<subseteq> t_ID ` set (sn_Children (snapshotLocked s r)) \<union> set ids"
      and "t_ID (sn_Root sn) = r" and "distinct (map t_ID (sn_Children sn))"
      and "stamp_events (sn_Root (snapshotLocked s r)) clock 0 (s_nextSeq s) evs = (new, seq)"
      and "sn_Events sn = mgets (s_events s) r @ new" and "mgets (s_events s) r = [] \<longrightarrow> evs = []" 
      and "same_aggregate (sn_Root (snapshotLocked s r)) sn"
      and "sn_Approvals sn = sn_Approvals (snapshotLocked s r)" and "sn_Presence sn = sn_Presence (snapshotLocked s r)"
      and "(if s_store s then SaveSnapshot sn new w1 else (Inr (), w1)) = (x, w')"
      and "res = map_sum id (\<lambda>_. v) x"
      and "s' = (if is_ok x then install r sn seq (s\<lparr>s_taskIDs := a\<rparr>) else s\<lparr>s_taskIDs := a\<rparr>)"
      and "\<exists>x1 y1. change (snapshotLocked s r) x1 = (Inr (sn\<lparr>sn_Events := mgets (s_events s) r @ evs\<rparr>, v), y1)"
proof (cases "requireTaskLocked s taskID")
  case (Inl e)
  with run show ?thesis by (intro that(1) [of e "s_taskIDs s"]) (simp_all add: Mutate_def)
next
  case (Inr rt)
  obtain r t where rt: "rt = (r, t)" by (cases rt)
  let ?b = "snapshotLocked s r"
  obtain cres a w1 where c: "change ?b (s_taskIDs s, w) = (cres, (a, w1))" by (metis prod_cases3)
  from ch c obtain ids where F: "ids_drawn (s_taskIDs s, w) (a, w1)"
    "\<forall>i \<in> set ids. \<not> covered (al_next (s_taskIDs s)) i \<and> covered (al_next a) i"
    and sub: "\<And>next v. cres = Inr (next, v) \<Longrightarrow>
      t_ID ` set (sn_Children next) \<subseteq> t_ID ` set (sn_Children ?b) \<union> set ids"
    by (rule fresh_changeE) auto
  have refuse: "\<And>e. (res, (s', w')) = (Inl e, (s\<lparr>s_taskIDs := a\<rparr>, w1)) \<Longrightarrow> thesis"
    by (rule that(1)) (use F(1) in auto)
  show ?thesis
  proof (cases cres)
    case (Inl e)
    with run \<open>requireTaskLocked s taskID = Inr rt\<close> rt c show ?thesis
      by (intro refuse [of e]) (simp add: Mutate_def Let_def)
  next
    case cok: (Inr nv)
    obtain nx v where nv: "nv = (nx, v)" by (cases nv)
    let ?s1 = "s\<lparr>s_taskIDs := a\<rparr>"
    show ?thesis
    proof (cases "validate_change ?s1 r ?b nx")
      case (Inl e)
      with run \<open>requireTaskLocked s taskID = Inr rt\<close> rt c cok nv show ?thesis
        by (intro refuse [of e]) (simp add: Mutate_def Let_def)
    next
      case vok: (Inr u)
      obtain new seq where st: "stamp_events (sn_Root ?b) clock 0 (s_nextSeq s)
          (drop (length (mgets (s_events s) r)) (sn_Events nx)) = (new, seq)" by fastforce
      let ?sn = "nx\<lparr>sn_Events := take (length (mgets (s_events s) r)) (sn_Events nx) @ new\<rparr>"
      obtain x w2 where x: "(if s_store s then SaveSnapshot ?sn new w1 else (Inr (), w1)) = (x, w2)" by fastforce
      note V = validate_change_Inr [OF vok]
      have "foldl (\<lambda>m c. mput (t_ID c) c m) [] (sn_Children nx) = map (\<lambda>c. (t_ID c, c)) (sn_Children nx)"
        using foldl_mput_distinct [of t_ID "sn_Children nx" "[]"] V by simp
      with run \<open>requireTaskLocked s taskID = Inr rt\<close> rt c cok nv vok st x
      have out: "res = map_sum id (\<lambda>_. v) x \<and> w' = w2 \<and>
          s' = (if is_ok x then install r ?sn seq ?s1 else ?s1)"
        by (cases x) (simp_all add: Mutate_def Let_def install_def)
      have ext: "take (length (mgets (s_events s) r)) (sn_Events nx) = mgets (s_events s) r"
        "mgets (s_events s) r = [] \<longrightarrow> drop (length (mgets (s_events s) r)) (sn_Events nx) = []"
        using V by (auto simp: events_extend_iff)
      have nxe: "?sn\<lparr>sn_Events := mgets (s_events s) r @ drop (length (mgets (s_events s) r)) (sn_Events nx)\<rparr> = nx"
        using ext(1) append_take_drop_id [of "length (mgets (s_events s) r)" "sn_Events nx"] by (cases nx) simp
      show ?thesis
        by (intro that(2) [of r t a w1 ids ?sn "drop (length (mgets (s_events s) r)) (sn_Events nx)" new seq x v])
          (use Inr rt F sub cok nv V st ext x out c nxe in auto)
    qed
  qed
qed

lemma install_simps [simp]:
  "s_store (install r sn seq s) = s_store s" "s_nextSeq (install r sn seq s) = seq"
  "s_taskIDs (install r sn seq s) = s_taskIDs s"
  "mget (s_roots (install r sn seq s)) k = (if k = r then Some (sn_Root sn) else mget (s_roots s) k)"
  "childrenForRootLocked (install r sn seq s) k =
     (if k = r then map (\<lambda>c. (t_ID c, c)) (sn_Children sn) else childrenForRootLocked s k)"
  "approvalsForRootLocked (install r sn seq s) k = approvalsForRootLocked s k"
  "presenceForRootLocked (install r sn seq s) k = presenceForRootLocked s k"
  "mgets (s_events (install r sn seq s)) k = (if k = r then sn_Events sn else mgets (s_events s) k)"
  by (simp_all add: install_def svc_views)

lemma mget_by_id: "mget (map (\<lambda>c. (t_ID c, c)) cs) k = Some c \<Longrightarrow> t_ID c = k \<and> c \<in> set cs"
  by (induction cs) (auto split: if_splits)

lemma map_fst_by_id [simp]: "map fst (map (\<lambda>c. (t_ID c, c)) cs) = map t_ID cs"
  by (induction cs) auto

lemma Mutate_wf:
  assumes "Mutate taskID change clock (s, w) = (res, (s', w'))" 
    and "fresh_change change (s_taskIDs s, w)" and "svc_wf s"
  shows "svc_wf s'"
  using assms(1,2)
proof (cases rule: Mutate_cases)
  case (refused e a)
  with assms(3) show ?thesis by simp
next
  case (attempted r t ids a w1 sn evs v new seq x)
  obtain root where root: "mget (s_roots s) r = Some root"
    using requireTaskLocked_root [OF attempted(1) assms(3)] by auto
  let ?s = "install r sn seq (s\<lparr>s_taskIDs := a\<rparr>)"
  have "distinct (map fst (s_roots ?s))" "distinct (map fst (s_children ?s))" "distinct (map fst (s_approvals ?s))"
    using assms(3) by (simp_all add: install_def svc_wf_def)
  then have "svc_wf ?s"
    unfolding svc_wf_def
    using root assms(3) attempted(5,6) by (auto simp: svc_wf_def dest!: mget_by_id simp del: map_map)
  with assms(3) attempted(15) show ?thesis by simp
qed

lemma Mutate_synced:
  assumes "Mutate taskID change clock (s, w) = (res, (s', w'))" 
    and "fresh_change change (s_taskIDs s, w)" and "svc_wf s" and "synced s w"
    and "s_nextSeq s + int n \<le> int64_max" and "change_small n change"
  shows "synced s' w'"
  using assms(1,2)
proof (cases rule: Mutate_cases)
  case (refused e a)
  with assms(4) show ?thesis by (auto simp: ids_drawn_def intro: synced_alloc)
next
  case (attempted r t ids a w1 sn evs v new seq x)
  obtain root where root: "mget (s_roots s) r = Some root"
    using requireTaskLocked_root [OF attempted(1) assms(3)] by auto
  have pos: "0 \<le> s_nextSeq s" "s_store s" using assms(4) by (simp_all add: synced_def)
  have syn: "synced s w1" using attempted(2) assms(4) by (auto simp: ids_drawn_def intro: synced_world)
  have save: "SaveSnapshot sn new w1 = (x, w')" using attempted(13) pos by simp
  have few: "length evs \<le> n"
    using attempted(16) assms(6) by (force simp: change_small_def)
  have st: "seq = s_nextSeq s + int (length evs)" "sorted_wrt (<) (map e_Seq new)"
    "\<forall>e \<in> set new. s_nextSeq s < e_Seq e \<and> e_Seq e \<le> seq"
    using stamp_events_spec [OF attempted(7) pos(1)] few assms(5) by auto
  have tr: "trimmed r" using svc_wf_root [OF assms(3) root] by simp
  have new: "seq_ok new" "\<forall>e \<in> set new. s_nextSeq s < e_Seq e"
    using st pos by (auto simp: seq_ok_def)
  note S = save_synced [OF syn assms(3) save attempted(5) tr attempted(8) new]
  show ?thesis
  proof (cases "is_ok x")
    case False
    then show ?thesis using S(1) attempted(15) by (auto intro: synced_alloc)
  next
    case True
    let ?s = "install r sn seq (s\<lparr>s_taskIDs := a\<rparr>)"
    have "synced ?s w'"
    proof (rule S(2) [OF True])
      show "snapshotLocked ?s r = sn\<lparr>sn_Children := sort_key t_ID (sn_Children sn)\<rparr>"
        using attempted(11,12) by (cases sn) (simp add: snapshotLocked_def comp_def)
      show "mget (s_roots ?s) k = mget (s_roots s) k \<and> snapshotLocked ?s k = snapshotLocked s k"
        if "k \<noteq> r" for k
        using that by (auto intro: snapshotLocked_cong)
    qed (use st pos in auto)
    with True attempted(15) show ?thesis by simp
  qed
qed

lemma svc_wf_child:
  assumes "svc_wf s" and "(j, c) \<in> set (childrenForRootLocked s r)"
  shows "mget (childrenForRootLocked s r) j = Some c \<and> t_ID c = j"
proof -
  have "distinct (map fst (childrenForRootLocked s r))" using assms(1) by (simp add: svc_wf_def)
  then have "mget (childrenForRootLocked s r) j = Some c" using assms(2) by simp
  with assms(1) show ?thesis by (simp add: svc_wf_def)
qed

lemma Mutate_ids:
  assumes "Mutate taskID change clock (s, w) = (res, (s', w'))" 
    and "fresh_change change (s_taskIDs s, w)" and "svc_wf s" and "ids_ok s"
  shows "ids_ok s'"
  using assms(1,2)
proof (cases rule: Mutate_cases)
  case (refused e a)
  with assms(4) show ?thesis by (auto simp: ids_drawn_def intro: ids_ok_alloc)
next
  case (attempted r t ids a w1 sn evs v new seq x)
  let ?base = "s\<lparr>s_taskIDs := a\<rparr>"
  let ?s = "install r sn seq ?base"
  have ok: "ids_ok ?base"
    using attempted(2) assms(4) by (auto simp: ids_drawn_def intro: ids_ok_alloc)
  obtain root where root: "mget (s_roots s) r = Some root"
    using requireTaskLocked_root [OF attempted(1) assms(3)] by auto
  have child: "(\<exists>c'. mget (childrenForRootLocked s r) k = Some c') \<or> k \<in> set ids"
    if "mget (map (\<lambda>c. (t_ID c, c)) (sn_Children sn)) k = Some c" for k c
  proof -
    have "k \<in> t_ID ` set (sn_Children (snapshotLocked s r)) \<union> set ids"
      using mget_by_id [OF that] attempted(4) by blast
    then show ?thesis
    proof
      assume "k \<in> t_ID ` set (sn_Children (snapshotLocked s r))"
      then obtain j c' where "(j, c') \<in> set (childrenForRootLocked s r)" "k = t_ID c'"
        by (auto simp: snapshotLocked_def)
      with svc_wf_child [OF assms(3)] have "mget (childrenForRootLocked s r) j = Some c'" "t_ID c' = j"
        by blast+
      with \<open>k = t_ID c'\<close> show ?thesis by auto
    qed simp
  qed
  have free: "id_free s i \<and> mget (s_roots s) i = None \<and> covered (al_next a) i" if "i \<in> set ids" for i
    using that attempted(3) ids_ok_free [OF assms(4)] by blast
  have kr: "covered (al_next a) k \<and> mget (s_roots s) k = None"
    if "mget (childrenForRootLocked ?s r1) k = Some c" for r1 k c
    using that child [of k c] free [of k] ids_ok_child [OF ok, of r1 k] by (auto split: if_splits)
  have one: "r1 = r2" if "mget (childrenForRootLocked ?s r1) k = Some c1"
    "mget (childrenForRootLocked ?s r2) k = Some c2" for r1 r2 k c1 c2
  proof -
    have "\<exists>c'. mget (childrenForRootLocked s q) k = Some c'"
      if "mget (childrenForRootLocked ?s q) k = Some d" "k \<notin> set ids" for q d
      using that child [of k d] by (auto split: if_splits)
    moreover have "q = r" if "mget (childrenForRootLocked ?s q) k = Some d" "k \<in> set ids" for q d
      using that free [of k] by (auto simp: id_free_def split: if_splits)
    ultimately show ?thesis using that assms(4) unfolding ids_ok_def by metis
  qed
  have "ids_ok ?s"
    unfolding ids_ok_def
  proof (intro conjI allI impI)
    show "covered (al_next (s_taskIDs ?s)) r'" if "mget (s_roots ?s) r' = Some t'" for r' t'
      using that ok root by (auto simp: ids_ok_def split: if_splits)
    show "covered (al_next (s_taskIDs ?s)) k" "mget (s_roots ?s) k = None"
      if "mget (childrenForRootLocked ?s r') k = Some c" for r' k c
      using kr [OF that] root by (auto split: if_splits)
  qed (use one in blast)
  with ok attempted(15) show ?thesis by simp
qed

subsection \<open>The service as a state machine\<close>

text \<open>
  The mutex serialises the operations, so a run of the service is a sequence of them. Each
  label carries the arguments; \<open>exec\<close> forgets the returned task.
\<close>

datatype op =
    OCreateRoot CreateRootInput time
  | OCreateChild CreateChildInput time
  | OBindRoom BindRoomInput time
  | OClaim ClaimInput time
  | OComplete CompleteInput time
  | OFail FailInput time
  | OBlock BlockInput time
  | ORequestApproval RequestApprovalInput time
  | OResolveApproval ResolveApprovalInput time
  | OMutate string "unit change" "nat \<Rightarrow> time"

definition discard :: "(error + 'a) \<times> svc_state \<Rightarrow> (error + unit) \<times> svc_state" where
  "discard = (\<lambda>(r, t). (map_sum id (\<lambda>_. ()) r, t))"

fun exec :: "op \<Rightarrow> svc_state \<Rightarrow> (error + unit) \<times> svc_state" where
  "exec (OCreateRoot i now) x = discard (CreateRoot i now x)"
| "exec (OCreateChild i now) x = discard (CreateChild i now x)"
| "exec (OBindRoom i now) x = discard (BindRoom i now x)"
| "exec (OClaim i now) x = discard (Claim i now x)"
| "exec (OComplete i now) x = discard (Complete i now x)"
| "exec (OFail i now) x = discard (Fail i now x)"
| "exec (OBlock i now) x = discard (Block i now x)"
| "exec (ORequestApproval i now) x = discard (RequestApproval i now x)"
| "exec (OResolveApproval i now) x = discard (ResolveApproval i now x)"
| "exec (OMutate taskID change clock) x = Mutate taskID change clock x"

text \<open>
  What a caller respects: explicit root IDs are not the ID of a child, callbacks are
  disciplined, and the counters are below the bound of \<open>int64\<close>.
\<close>

fun op_ok :: "Service \<Rightarrow> nat \<Rightarrow> op \<Rightarrow> bool" where
  "op_ok s n (OCreateRoot i now) = (TrimSpace (cr_ID i) \<noteq> [] \<longrightarrow> id_free s (TrimSpace (cr_ID i)))"
| "op_ok s n (OMutate taskID change clock) = (change_ok n change \<and> change_small n change)"
| "op_ok s n _ = True"

definition op_room :: "nat \<Rightarrow> svc_state \<Rightarrow> bool" where
  "op_room n x \<longleftrightarrow> 0 < n \<and> alloc_room n (s_taskIDs (fst x), snd x) \<and> s_nextSeq (fst x) + int n \<le> int64_max"

fun rolls_back :: "op \<Rightarrow> bool" where
  "rolls_back (OCreateRoot i now) = True"
| "rolls_back (OCreateChild i now) = True"
| "rolls_back (OMutate taskID change clock) = True"
| "rolls_back _ = False"

lemma discardE:
  assumes "discard m = (res, t)"
  obtains r where "m = (r, t)" and "is_ok res = is_ok r"
  using assms by (cases m) (auto simp: discard_def)

definition event_effect :: "Service \<Rightarrow> World \<Rightarrow> (error + unit) \<Rightarrow> Service \<Rightarrow> World \<Rightarrow> bool" where
  "event_effect s w res s' w' \<longleftrightarrow> svc_wf s' \<and> same_keys s s' \<and>
    (synced s w \<and> s_nextSeq s < int64_max \<longrightarrow> (if is_ok res then synced s' w' else synced s w'))"

lemma event_run_discard:
  assumes "event_run s w m" and "svc_wf s" and "discard m = (res, (s', w'))"
  shows "event_effect s w res s' w'"
proof -
  from assms(3) obtain r where m: "m = (r, (s', w'))" "is_ok res = is_ok r" by (rule discardE)
  note er = assms(1) [unfolded m(1)]
  from event_run_wf [OF er assms(2)] event_run_synced [OF er assms(2)] m(2) show ?thesis
    by (simp add: event_effect_def)
qed

lemmas event_runs = event_run_Claim event_run_BindRoom event_run_Block event_run_RequestApproval
  event_run_ResolveApproval event_run_finishTask

lemma exec_event_run:
  assumes "exec p (s, w) = (res, (s', w'))" and "\<not> rolls_back p" and "svc_wf s"
  shows "event_effect s w res s' w'"
  using assms
  by (cases p) (auto simp: Complete_def Fail_def intro: event_run_discard event_runs)

lemma exec_rolls_back:
  assumes run: "exec p (s, w) = (res, (s', w'))" and rb: "rolls_back p" and wf: "svc_wf s"
    and ids: "ids_ok s" and ok: "op_ok s n p" and room: "op_room n (s, w)"
  shows "svc_wf s' \<and> ids_ok s' \<and> (synced s w \<longrightarrow> synced s' w')"
proof -
  have n: "alloc_room n (s_taskIDs s, w)" "s_nextSeq s + int n \<le> int64_max" "0 < n"
    using room by (simp_all add: op_room_def)
  have one: "alloc_room 1 (s_taskIDs s, w)" using n(1) by (rule alloc_room_le) (use n(3) in simp)
  have lt: "s_nextSeq s < int64_max" using n by simp
  show ?thesis
  proof (cases p)
    case (OCreateRoot i now)
    with run obtain r where r: "CreateRoot i now (s, w) = (r, (s', w'))" by (auto elim: discardE)
    with OCreateRoot ok CreateRoot_wf [OF r one wf] CreateRoot_ids [OF r one wf ids]
      CreateRoot_synced [OF r one wf _ lt] show ?thesis by simp
  next
    case (OCreateChild i now)
    with run obtain r where r: "CreateChild i now (s, w) = (r, (s', w'))" by (auto elim: discardE)
    with CreateChild_wf [OF r one wf] CreateChild_ids [OF r one wf ids]
      CreateChild_synced [OF r one wf ids _ lt] show ?thesis by simp
  next
    case (OMutate i c clock)
    with run have r: "Mutate i c clock (s, w) = (res, (s', w'))" by simp
    from OMutate ok have "change_ok n c" "change_small n c" by simp_all
    from change_ok_fresh [OF this(1) n(1)] have f: "fresh_change c (s_taskIDs s, w)" .
    from Mutate_wf [OF r f wf] Mutate_ids [OF r f wf ids]
      Mutate_synced [OF r f wf _ n(2) \<open>change_small n c\<close>] show ?thesis by simp
  qed (use rb in simp_all)
qed

text \<open>
  Runs of the service. Every operation of the interface may be called with any input; the
  callbacks of \<open>Mutate\<close> are disciplined, and the counters are below the bound of \<open>int64\<close>. One
  call of the interface is left out of the careful runs: a \<open>CreateRoot\<close> with an explicit ID that
  already is the ID of a child and that the service does not refuse for another reason.
\<close>

fun disciplined :: "nat \<Rightarrow> op \<Rightarrow> bool" where
  "disciplined n (OMutate taskID change clock) = (change_ok n change \<and> change_small n change)"
| "disciplined n _ = True"

fun reuses :: "Service \<Rightarrow> op \<Rightarrow> bool" where
  "reuses s (OCreateRoot i now) = (TrimSpace (cr_ID i) \<noteq> [] \<and> \<not> id_free s (TrimSpace (cr_ID i)))"
| "reuses s _ = False"

lemma op_ok_iff: "op_ok s n p \<longleftrightarrow> disciplined n p \<and> \<not> reuses s p"
  by (cases p) auto

inductive svc_step :: "svc_state \<Rightarrow> op \<Rightarrow> svc_state \<Rightarrow> bool" where
  "disciplined n p \<Longrightarrow> op_room n (s, w) \<Longrightarrow> exec p (s, w) = (res, t) \<Longrightarrow> svc_step (s, w) p t"

definition careful_step :: "svc_state \<Rightarrow> op \<Rightarrow> svc_state \<Rightarrow> bool" where
  "careful_step x p y \<longleftrightarrow> svc_step x p y \<and> \<not> (reuses (fst x) p \<and> is_ok (fst (exec p x)))"

definition svc_inv :: "svc_state \<Rightarrow> bool" where
  "svc_inv x \<longleftrightarrow> svc_wf (fst x) \<and> ids_ok (fst x)"

definition svc_init :: "svc_state \<Rightarrow> bool" where
  "svc_init x \<longleftrightarrow> s_roots (fst x) = [] \<and> s_children (fst x) = [] \<and> s_events (fst x) = [] \<and>
     s_approvals (fst x) = [] \<and> s_presence (fst x) = []"

lemma svc_step_out: "svc_step x p y \<Longrightarrow> exec p x = (fst (exec p x), y)"
  by (auto elim!: svc_step.cases)

text \<open>
  One careful step: the invariants hold again, and the files agree with the new memory, or,
  after a failed operation that does not roll back, with the old one.
\<close>

lemma careful_step_effect:
  assumes "careful_step (s, w) p (s', w')" and "svc_wf s" and "ids_ok s"
  shows "svc_wf s' \<and> ids_ok s' \<and> (synced s w \<longrightarrow>
    (if is_ok (fst (exec p (s, w))) \<or> rolls_back p then synced s' w' else synced s w'))"
proof -
  from assms(1) have st: "svc_step (s, w) p (s', w')" by (simp add: careful_step_def)
  from st obtain n where dis: "disciplined n p" and room: "op_room n (s, w)" by (cases rule: svc_step.cases) auto
  obtain res where run: "exec p (s, w) = (res, (s', w'))" using svc_step_out [OF st] by blast
  show ?thesis
  proof (cases "rolls_back p")
    case False
    from exec_event_run [OF run False assms(2)] room False show ?thesis
      using same_keys_ids_ok [OF _ assms(3)] by (simp add: event_effect_def op_room_def run)
  next
    case rb: True
    show ?thesis
    proof (cases "reuses s p")
      case False
      with dis have "op_ok s n p" by (simp add: op_ok_iff)
      from exec_rolls_back [OF run rb assms(2,3) this room] rb show ?thesis by simp
    next
      case True
      with assms(1) run have bad: "\<not> is_ok res" by (simp add: careful_step_def)
      from True obtain i now where p: "p = OCreateRoot i now" by (cases p) auto
      with run bad obtain r where r: "CreateRoot i now (s, w) = (r, (s', w'))" "\<not> is_ok r"
        by (auto elim: discardE)
      have one: "alloc_room 1 (s_taskIDs s, w)" "s_nextSeq s < int64_max"
        using room by (auto simp: op_room_def intro: alloc_room_le)
      from CreateRoot_wf [OF r(1) one(1) assms(2)] CreateRoot_ids_failed [OF r(1) one(1) assms(3) r(2)]
        CreateRoot_synced [OF r(1) one(1) assms(2) _ one(2)] rb show ?thesis by simp
    qed
  qed
qed

lemma svc_inv_step: "svc_inv x \<Longrightarrow> careful_step x p y \<Longrightarrow> svc_inv y"
  using careful_step_effect [of "fst x" "snd x" p "fst y" "snd y"] by (simp add: svc_inv_def)

interpretation task_service: invariant_system svc_init careful_step svc_inv
proof unfold_locales
  fix x
  assume "svc_init x"
  then show "svc_inv x" by (simp add: svc_init_def svc_inv_def svc_wf_def ids_ok_def svc_views)
qed (rule svc_inv_step)

end
