(* ===== verification/TaskProps.thy ===== *)
theory TaskProps
  imports TaskService
begin

section \<open>What the task service guarantees\<close>

text \<open>
  The properties of \<open>internal/taskcore\<close> as a whole: unique task IDs, agreement of memory and
  files, recovery after a restart, the life cycle of a task, approvals that are resolved at
  most once, and the order of listings.
\<close>

subsection \<open>Restart\<close>

lemma Bump_covered: "covered (al_next a) i \<Longrightarrow> Bump i (a, w) = (Inr (), (a, w))"
  by (simp add: Bump_def covered_def)

lemma bumpTaskIdentifier_covered:
  "covered (al_next (s_taskIDs s)) i \<Longrightarrow> bumpTaskIdentifier i (s, w) = (Inr (), (s, w))"
  by (simp add: bumpTaskIdentifier_def Bump_covered)

lemma load_children_covered:
  "\<forall>c \<in> set cs. covered (al_next (s_taskIDs s)) (t_ID c) \<Longrightarrow>
     load_children cs m (s, w) = (Inr (foldl (\<lambda>m c. mput (t_ID c) c m) m cs), (s, w))"
  by (induction cs arbitrary: m) (simp_all add: bumpTaskIdentifier_covered)

lemma foldl_bumpApproval:
  "\<exists>n. foldl (\<lambda>s a. bumpApprovalIdentifier (a_ID a) s) s as = s\<lparr>s_nextApprovalID := n\<rparr>"
proof (induction as rule: rev_induct)
  case Nil
  show ?case by (rule exI [of _ "s_nextApprovalID s"]) simp
next
  case (snoc a as)
  then show ?case by (auto simp: bumpApprovalIdentifier_def)
qed

text \<open>A snapshot as \<open>snapshotLocked\<close> makes it: sorted by keys that identify the entries.\<close>

definition canonical :: "Snapshot \<Rightarrow> bool" where
  "canonical sn \<longleftrightarrow>
     distinct (map t_ID (sn_Children sn)) \<and> sort_key t_ID (sn_Children sn) = sn_Children sn \<and>
     distinct (map a_ID (sn_Approvals sn)) \<and> sort_key a_ID (sn_Approvals sn) = sn_Approvals sn \<and>
     distinct (map p_ParticipantID (sn_Presence sn)) \<and>
     sort_key p_ParticipantID (sn_Presence sn) = sn_Presence sn"

lemma map_snd_ids:
  assumes "distinct (map fst m)" and "\<And>k c. mget m k = Some c \<Longrightarrow> f c = k"
  shows "map f (map snd m) = map fst m"
  using assms(2) by (auto intro!: map_cong simp: assms(1))

lemma canonical_snapshotLocked:
  assumes "svc_wf s"
  shows "canonical (snapshotLocked s r)"
proof -
  have "map t_ID (map snd (childrenForRootLocked s r)) = map fst (childrenForRootLocked s r)"
    "map a_ID (map snd (approvalsForRootLocked s r)) = map fst (approvalsForRootLocked s r)"
    "map p_ParticipantID (map snd (presenceForRootLocked s r)) = map fst (presenceForRootLocked s r)"
    using assms by (intro map_snd_ids; simp add: svc_wf_def)+
  then have "distinct (map t_ID (map snd (childrenForRootLocked s r)))"
    "distinct (map a_ID (map snd (approvalsForRootLocked s r)))"
    "distinct (map p_ParticipantID (map snd (presenceForRootLocked s r)))"
    using assms unfolding svc_wf_def by presburger+
  then show ?thesis
    by (simp only: canonical_def snapshotLocked_def Snapshot.select_convs distinct_map_sort_key sort_key_idem)
qed

text \<open>Loading one canonical snapshot into a service installs exactly that aggregate.\<close>

lemma load_one:
  assumes "covered (al_next (s_taskIDs s)) (t_ID (sn_Root sn))"
    and "\<forall>c \<in> set (sn_Children sn). covered (al_next (s_taskIDs s)) (t_ID c)" and "canonical sn"
  obtains s1 where "load_snapshots (sn # sns) (s, w) = load_snapshots sns (s1, w)"
    and "s_store s1 = s_store s" and "s_taskIDs s1 = s_taskIDs s"
    and "\<And>k. mget (s_roots s1) k = (if k = t_ID (sn_Root sn) then Some (sn_Root sn) else mget (s_roots s) k)"
    and "\<And>k. snapshotLocked s1 k = (if k = t_ID (sn_Root sn) then sn else snapshotLocked s k)"
proof -
  let ?r = "t_ID (sn_Root sn)"
  let ?c = "map (\<lambda>c. (t_ID c, c)) (sn_Children sn)"
  let ?a = "map (\<lambda>a. (a_ID a, a)) (sn_Approvals sn)"
  let ?p = "map (\<lambda>p. (p_ParticipantID p, p)) (sn_Presence sn)"
  have f: "foldl (\<lambda>m c. mput (t_ID c) c m) [] (sn_Children sn) = ?c"
    "foldl (\<lambda>m a. mput (a_ID a) a m) [] (sn_Approvals sn) = ?a"
    "foldl (\<lambda>m p. mput (p_ParticipantID p) p m) [] (sn_Presence sn) = ?p"
    using assms(3) foldl_mput_distinct [of t_ID "sn_Children sn" "[]"]
      foldl_mput_distinct [of a_ID "sn_Approvals sn" "[]"]
      foldl_mput_distinct [of p_ParticipantID "sn_Presence sn" "[]"]
    by (simp_all add: canonical_def)
  let ?s0 = "s\<lparr>s_roots := mput ?r (sn_Root sn) (s_roots s), s_children := mput ?r ?c (s_children s)\<rparr>"
  obtain n where n: "foldl (\<lambda>s a. bumpApprovalIdentifier (a_ID a) s) ?s0 (sn_Approvals sn)
      = ?s0\<lparr>s_nextApprovalID := n\<rparr>" using foldl_bumpApproval by blast
  let ?s1 = "?s0\<lparr>s_nextApprovalID := n, s_approvals := mput ?r ?a (s_approvals s),
      s_presence := mput ?r ?p (s_presence s), s_events := mput ?r (sn_Events sn) (s_events s),
      s_nextSeq := latest_from (s_nextSeq s) (sn_Events sn)\<rparr>"
  show ?thesis
  proof (rule that [of ?s1])
    show "load_snapshots (sn # sns) (s, w) = load_snapshots sns (?s1, w)"
      using assms(1,2) n by (simp add: Let_def bumpTaskIdentifier_covered load_children_covered f)
    show "snapshotLocked ?s1 k = (if k = ?r then sn else snapshotLocked s k)" for k
      using assms(3) by (cases sn) (simp add: snapshotLocked_def svc_views canonical_def comp_def)
  qed simp_all
qed

lemma load_snapshots_all:
  assumes "\<forall>sn \<in> set sns. covered (al_next (s_taskIDs s)) (t_ID (sn_Root sn)) \<and>
      (\<forall>c \<in> set (sn_Children sn). covered (al_next (s_taskIDs s)) (t_ID c)) \<and> canonical sn"
    and "distinct (map (t_ID \<circ> sn_Root) sns)"
  obtains s1 where "load_snapshots sns (s, w) = (Inr (), (s1, w))"
    and "s_store s1 = s_store s" and "s_taskIDs s1 = s_taskIDs s"
    and "\<And>sn. sn \<in> set sns \<Longrightarrow> mget (s_roots s1) (t_ID (sn_Root sn)) = Some (sn_Root sn) \<and>
           snapshotLocked s1 (t_ID (sn_Root sn)) = sn"
    and "\<And>k. k \<notin> set (map (t_ID \<circ> sn_Root) sns) \<Longrightarrow> mget (s_roots s1) k = mget (s_roots s) k \<and>
           snapshotLocked s1 k = snapshotLocked s k"
proof -
  have "\<exists>s1. load_snapshots sns (s, w) = (Inr (), (s1, w)) \<and> s_store s1 = s_store s \<and>
      s_taskIDs s1 = s_taskIDs s \<and>
      (\<forall>sn \<in> set sns. mget (s_roots s1) (t_ID (sn_Root sn)) = Some (sn_Root sn) \<and>
           snapshotLocked s1 (t_ID (sn_Root sn)) = sn) \<and>
      (\<forall>k. k \<notin> set (map (t_ID \<circ> sn_Root) sns) \<longrightarrow> mget (s_roots s1) k = mget (s_roots s) k \<and>
           snapshotLocked s1 k = snapshotLocked s k)"
    using assms
  proof (induction sns arbitrary: s)
    case Nil
    show ?case by (rule exI [of _ s]) simp
  next
    case (Cons sn sns)
    obtain s0 where s0: "load_snapshots (sn # sns) (s, w) = load_snapshots sns (s0, w)"
      "s_store s0 = s_store s" "s_taskIDs s0 = s_taskIDs s"
      "\<And>k. mget (s_roots s0) k = (if k = t_ID (sn_Root sn) then Some (sn_Root sn) else mget (s_roots s) k)"
      "\<And>k. snapshotLocked s0 k = (if k = t_ID (sn_Root sn) then sn else snapshotLocked s k)"
      using Cons.prems(1) by (auto intro: load_one [of s sn sns w])
    have pre: "\<forall>sn \<in> set sns. covered (al_next (s_taskIDs s0)) (t_ID (sn_Root sn)) \<and>
      (\<forall>c \<in> set (sn_Children sn). covered (al_next (s_taskIDs s0)) (t_ID c)) \<and> canonical sn"
      and dis: "distinct (map (t_ID \<circ> sn_Root) sns)" "t_ID (sn_Root sn) \<notin> (t_ID \<circ> sn_Root) ` set sns"
      using Cons.prems s0(3) by (auto simp: comp_def)
    from Cons.IH [OF pre dis(1)] obtain s1 where s1: "load_snapshots sns (s0, w) = (Inr (), (s1, w))"
      "s_store s1 = s_store s0" "s_taskIDs s1 = s_taskIDs s0"
      "\<forall>sn \<in> set sns. mget (s_roots s1) (t_ID (sn_Root sn)) = Some (sn_Root sn) \<and>
           snapshotLocked s1 (t_ID (sn_Root sn)) = sn"
      "\<forall>k. k \<notin> set (map (t_ID \<circ> sn_Root) sns) \<longrightarrow> mget (s_roots s1) k = mget (s_roots s0) k \<and>
           snapshotLocked s1 k = snapshotLocked s0 k" by blast
    have "mget (s_roots s1) (t_ID (sn_Root sn)) = Some (sn_Root sn) \<and> snapshotLocked s1 (t_ID (sn_Root sn)) = sn"
      using s1(5) dis(2) s0(4,5) by simp
    with s0 s1 show ?case by (intro exI [of _ s1]) (simp add: dis)
  qed
  with that show ?thesis by blast
qed

lemma synced_record:
  assumes "synced s w" and "svc_wf s" and "mget (w_tasks w) d = Some f"
  obtains rec sn where "f = Json rec" and "r_SchemaVersion rec \<in> {0, 2}" and "snapshotFromRecord d rec = Inr sn"
    and "sn\<lparr>sn_Events := mgets (s_events s) d\<rparr> = snapshotLocked s d"
    and "\<exists>t. mget (s_roots s) d = Some t" and "t_ID (sn_Root sn) = d"
proof -
  from assms obtain t where t: "mget (s_roots s) d = Some t"
    by (cases "mget (s_roots s) d") (auto simp: synced_def)
  with assms have c: "committed w d (mgets (s_events s) d)"
    and du: "durable w d (mgets (s_events s) d) = Inr (snapshotLocked s d)" by (simp_all add: synced_def)
  from c assms(3) obtain rec where rec: "f = Json rec" "r_SchemaVersion rec \<in> {0, 2}"
    by (auto simp: committed_def split: jfile.splits)
  from du assms(3) rec(1) obtain sn where sn: "snapshotFromRecord d rec = Inr sn"
    "sn\<lparr>sn_Events := mgets (s_events s) d\<rparr> = snapshotLocked s d"
    by (cases "snapshotFromRecord d rec") (auto simp: durable_def)
  have "sn_Root sn = sn_Root (sn\<lparr>sn_Events := mgets (s_events s) d\<rparr>)" by simp
  also have "\<dots> = t" using sn(2) t by (simp add: sn_Root_snapshotLocked)
  finally have "t_ID (sn_Root sn) = d" using svc_wf_root [OF assms(2) t] by simp
  with rec sn t that show ?thesis by blast
qed

lemma index_entries_synced:
  assumes "synced s w" and "svc_wf s" and "w_faults w = []"
  shows "\<exists>xs. index_entries ds w = (Inr xs, w) \<and>
    map x_ID xs = filter (\<lambda>d. mget (w_tasks w) d \<noteq> None) ds"
proof (induction ds)
  case Nil
  show ?case by simp
next
  case (Cons d ds)
  then obtain xs where xs: "index_entries ds w = (Inr xs, w)"
    "map x_ID xs = filter (\<lambda>d. mget (w_tasks w) d \<noteq> None) ds" by blast
  show ?case
  proof (cases "mget (w_tasks w) d")
    case None
    with xs assms(3) show ?thesis by simp
  next
    case (Some f)
    obtain rec sn where r: "f = Json rec" "r_SchemaVersion rec \<in> {0, 2}" "snapshotFromRecord d rec = Inr sn"
      "t_ID (sn_Root sn) = d" using assms(1,2) Some by (rule synced_record)
    from r(2) have v: "validateTaskRecordVersion rec = Inr (rec\<lparr>r_SchemaVersion := 2\<rparr>)"
      by (rule validateTaskRecordVersion_ok)
    from Some r(1,3,4) v xs assms(3) show ?thesis by simp
  qed
qed

lemma load_roots_synced:
  assumes "synced s w" and "svc_wf s" and "\<forall>r \<in> set rs. mget (s_roots s) r \<noteq> None"
  shows "load_roots rs (disk w) = (Inr (map (snapshotLocked s) rs), disk w)"
  using assms(3)
  by (induction rs) (auto simp: synced_LoadRoot [OF assms(1,2)])

text \<open>The files are those of a file system: each directory is listed once, and the directory of every record is.\<close>

definition dirs_ok :: "World \<Rightarrow> bool" where
  "dirs_ok w \<longleftrightarrow> distinct (w_dirs w) \<and> (\<forall>d. mget (w_tasks w) d \<noteq> None \<longrightarrow> d \<in> set (w_dirs w))"

definition task_dirs :: "World \<Rightarrow> string list" where
  "task_dirs w = filter (\<lambda>d. mget (w_tasks w) d \<noteq> None) (sort (w_dirs w))"

lemma synced_disk: "synced s w \<Longrightarrow> synced s (disk w)"
  by (rule synced_world) simp_all

lemma Load_synced:
  assumes "synced s w" and "svc_wf s"
  shows "Load (disk w) = (Inr (map (snapshotLocked s) (task_dirs w)), disk w)"
proof -
  note syn = synced_disk [OF assms(1)]
  obtain xs where xs: "index_entries (sort (w_dirs w)) (disk w) = (Inr xs, disk w)"
    "map x_ID xs = task_dirs w"
    using index_entries_synced [OF syn assms(2)] by (auto simp: task_dirs_def)
  have "sorted (map x_ID xs)" by (simp add: xs(2) task_dirs_def sorted_wrt_filter)
  then have "sort_key x_ID xs = xs" by (rule sort_key_sorted)
  moreover have "\<forall>r \<in> set (task_dirs w). mget (s_roots s) r \<noteq> None"
    using assms(1) by (auto simp: task_dirs_def synced_def)
  ultimately show ?thesis
    using xs load_roots_synced [OF assms] by (simp add: Load_def buildTaskIndex_def bindE_def)
qed

lemma restart:
  assumes "synced s w" and "svc_wf s"
    and "\<And>r t. mget (s_roots s) r = Some t \<Longrightarrow> covered (al_next a) r"
    and "dirs_ok w"
    and "\<And>r k c. mget (childrenForRootLocked s r) k = Some c \<Longrightarrow> covered (al_next a) k"
  obtains s' where "NewService (Some a) (disk w) = (Inr (), (s', disk w))"
    and "\<And>r. mget (s_roots s') r = mget (s_roots s) r"
    and "\<And>r t. mget (s_roots s) r = Some t \<Longrightarrow> snapshotLocked s' r = snapshotLocked s r"
    and "s_store s'" and "s_taskIDs s' = a"
proof -
  let ?s0 = "\<lparr>s_store = True, s_taskIDs = a, s_nextApprovalID = 0, s_nextSeq = 0, s_roots = [],
      s_children = [], s_events = [], s_approvals = [], s_presence = []\<rparr>"
  let ?sns = "map (snapshotLocked s) (task_dirs w)"
  have root: "\<exists>t. mget (s_roots s) r = Some t \<and> sn_Root (snapshotLocked s r) = t \<and> t_ID t = r"
    if "r \<in> set (task_dirs w)" for r
  proof -
    from that obtain f where "mget (w_tasks w) r = Some f" by (auto simp: task_dirs_def)
    then obtain t where "mget (s_roots s) r = Some t" using synced_record [OF assms(1,2)] by metis
    with svc_wf_root [OF assms(2) this] sn_Root_snapshotLocked show ?thesis by auto
  qed
  then have ids: "map (t_ID \<circ> sn_Root) ?sns = task_dirs w"
    by (auto simp: comp_def intro!: map_idI)
  have dis: "distinct (task_dirs w)" using assms(4) by (simp add: task_dirs_def dirs_ok_def)
  have kids: "covered (al_next a) (t_ID c)" if "c \<in> set (sn_Children (snapshotLocked s r))" for c r
  proof -
    from that obtain j where "(j, c) \<in> set (childrenForRootLocked s r)" by (auto simp: snapshotLocked_def)
    with svc_wf_child [OF assms(2)] assms(5) show ?thesis by metis
  qed
  have roots: "covered (al_next a) r" if "r \<in> set (task_dirs w)" for r
    using root [OF that] assms(3) by blast
  have pre: "\<forall>sn \<in> set ?sns. covered (al_next (s_taskIDs ?s0)) (t_ID (sn_Root sn)) \<and>
      (\<forall>c \<in> set (sn_Children sn). covered (al_next (s_taskIDs ?s0)) (t_ID c)) \<and> canonical sn"
    using root roots kids canonical_snapshotLocked [OF assms(2)] by force
  obtain s1 where s1: "load_snapshots ?sns (?s0, disk w) = (Inr (), (s1, disk w))"
    "s_store s1 = s_store ?s0" "s_taskIDs s1 = s_taskIDs ?s0"
    "\<And>sn. sn \<in> set ?sns \<Longrightarrow> mget (s_roots s1) (t_ID (sn_Root sn)) = Some (sn_Root sn) \<and>
           snapshotLocked s1 (t_ID (sn_Root sn)) = sn"
    "\<And>k. k \<notin> set (map (t_ID \<circ> sn_Root) ?sns) \<Longrightarrow> mget (s_roots s1) k = mget (s_roots ?s0) k \<and>
           snapshotLocked s1 k = snapshotLocked ?s0 k"
    using load_snapshots_all [OF pre, of "disk w"] ids dis by auto
  have in_dirs: "r \<in> set (task_dirs w)" if "mget (s_roots s) r = Some t" for r t
  proof -
    have "durable w r (mgets (s_events s) r) = Inr (snapshotLocked s r)"
      using that assms(1) by (simp add: synced_def)
    then have "mget (w_tasks w) r \<noteq> None" by (cases "mget (w_tasks w) r") (auto simp: durable_def)
    with assms(4) show ?thesis by (simp add: task_dirs_def dirs_ok_def)
  qed
  show ?thesis
  proof (rule that [of s1])
    show "NewService (Some a) (disk w) = (Inr (), (s1, disk w))"
      using s1(1) Load_synced [OF assms(1,2)] by (simp add: NewService_def loadStoreState_def)
    show "mget (s_roots s1) r = mget (s_roots s) r" for r
    proof (cases "r \<in> set (task_dirs w)")
      case True
      with root [OF True] s1(4) [of "snapshotLocked s r"] show ?thesis by auto
    next
      case False
      with s1(5) [unfolded ids, of r] in_dirs show ?thesis by (cases "mget (s_roots s) r") auto
    qed
    show "snapshotLocked s1 r = snapshotLocked s r" if "mget (s_roots s) r = Some t" for r t
      using in_dirs [OF that] root s1(4) [of "snapshotLocked s r"] by auto
  qed (use s1 in simp_all)
qed

text \<open>
  The files of a running store. A save makes the directory of its task, replaces the record in
  it and changes nothing but journals otherwise, so directories and counters stay well-formed.
\<close>

definition files_ok :: "World \<Rightarrow> bool" where
  "files_ok w \<longleftrightarrow> dirs_ok w \<and> counters_ok w"

definition journal_only :: "World \<Rightarrow> World \<Rightarrow> bool" where
  "journal_only w w' \<longleftrightarrow> w_dirs w' = w_dirs w \<and> w_tasks w' = w_tasks w \<and>
     w_sequence w' = w_sequence w \<and> w_index w' = w_index w"

lemma journal_only_disk: "disk w' = disk w \<Longrightarrow> journal_only w w'"
  using disk_eqD [of w' w] by (simp add: journal_only_def)

lemma journal_only_trans: "journal_only u v \<Longrightarrow> journal_only v w \<Longrightarrow> journal_only u w"
  by (simp add: journal_only_def)

lemma files_ok_journal_only: "journal_only w w' \<Longrightarrow> files_ok w \<Longrightarrow> files_ok w'"
  using counters_ok_cong [of w' w] by (simp add: journal_only_def files_ok_def dirs_ok_def)

lemma journal_only_take_fault: "take_fault w = (f, w') \<Longrightarrow> journal_only w w'"
  by (rule journal_only_disk) (rule take_fault_disk)

lemma journal_only_readCommittedEvents:
  assumes "readCommittedEvents i c repair w = (r, w')"
  shows "journal_only w w'"
proof -
  obtain f w1 where f: "take_fault w = (f, w1)" by (cases "take_fault w")
  have "journal_only w1 w'"
    using assms f
    by (auto simp: readCommittedEvents_def journal_only_def Let_def split: if_splits option.splits sum.splits prod.splits)
  with journal_only_take_fault [OF f] show ?thesis by (rule journal_only_trans)
qed

lemma journal_only_appendEvents:
  assumes "appendEvents i es w = (r, w')"
  shows "journal_only w w'"
proof -
  obtain f w1 where f: "take_fault w = (f, w1)" by (cases "take_fault w")
  have "es = [] \<and> w' = w \<or> journal_only w1 w'"
    using assms f by (auto simp: appendEvents_def journal_only_def Let_def split: if_splits fault.splits)
  with journal_only_take_fault [OF f] show ?thesis
    by (auto intro: journal_only_trans simp: journal_only_def)
qed

lemma journal_only_committedEventSeq: "committedEventSeq i w = (r, w') \<Longrightarrow> journal_only w w'"
  by (rule journal_only_disk)
    (auto simp: committedEventSeq_def elim!: bindE_casesE dest!: io_step_disk readJSONFile_disk
      split: option.splits sum.splits)

lemma files_ok_SaveSnapshot:
  assumes "SaveSnapshot sn new w = (r, w')" and "files_ok w"
  shows "files_ok w'"
proof -
  let ?i = "t_ID (sn_Root sn)"
  have put: "files_ok (v\<lparr>w_tasks := mput ?i f (w_tasks v)\<rparr>)" if "files_ok v" "?i \<in> set (w_dirs v)" for v f
    using that counters_ok_cong [of "v\<lparr>w_tasks := mput ?i f (w_tasks v)\<rparr>" v] by (simp add: files_ok_def dirs_ok_def)
  have mk: "files_ok (v\<lparr>w_dirs := List.insert ?i (w_dirs v)\<rparr>)" if "files_ok v" for v
    using that counters_ok_cong [of "v\<lparr>w_dirs := List.insert ?i (w_dirs v)\<rparr>" v]
    by (simp add: files_ok_def dirs_ok_def)
  have wr: "files_ok v' \<and> w_dirs v' = w_dirs v"
    if "writeJSONFileAtomic (\<lambda>w. w\<lparr>w_tasks := mput ?i f (w_tasks w)\<rparr>) v = (x, v')" "files_ok v" "?i \<in> set (w_dirs v)"
    for v v' x f
    using that(1)
  proof (cases rule: writeJSONFileAtomic_cases)
    case (failed e)
    with that(2) files_ok_journal_only [OF journal_only_disk] disk_eqD(1) show ?thesis by blast
  next
    case (written u)
    from files_ok_journal_only [OF journal_only_disk [OF written(3)] that(2)] disk_eqD(1) [OF written(3)] that(3)
    show ?thesis using put [of u f] written(2) by simp
  qed
  note jo = journal_only_readCommittedEvents journal_only_appendEvents journal_only_committedEventSeq
  have dirs: "w_dirs v' = w_dirs v" if "journal_only v v'" for v v' using that by (simp add: journal_only_def)
  let ?tail = "\<lambda>c rec. bindE (appendEvents ?i new) (\<lambda>_ w1.
           case writeJSONFileAtomic (\<lambda>w. w\<lparr>w_tasks := mput ?i (Json rec) (w_tasks w)\<rparr>) w1 of
             (Inr _, w2) \<Rightarrow> (Inr (), w2)
           | (Inl e, w2) \<Rightarrow> (Inl e, snd (readCommittedEvents ?i c True w2)))"
  have tail: "files_ok v'" if run: "?tail c rec v = (x, v')" and v: "files_ok v" "?i \<in> set (w_dirs v)" for c rec x v v'
    using run
  proof (cases rule: bindE_casesE)
    case (left e)
    with v jo(2) files_ok_journal_only show ?thesis by blast
  next
    case (right a v1)
    have v1: "files_ok v1" "?i \<in> set (w_dirs v1)"
      using files_ok_journal_only [OF jo(2) [OF right(1)] v(1)] dirs [OF jo(2) [OF right(1)]] v(2) by simp_all
    obtain y v2 where w2: "writeJSONFileAtomic (\<lambda>w. w\<lparr>w_tasks := mput ?i (Json rec) (w_tasks w)\<rparr>) v1 = (y, v2)"
      by fastforce
    have f2: "files_ok v2" using wr [OF w2 v1] by simp
    have "files_ok (snd (readCommittedEvents ?i c True v2))"
      using files_ok_journal_only [OF jo(1) f2] by (metis prod.collapse)
    with right(2) w2 f2 show ?thesis by (cases y) auto
  qed
  have mid: "files_ok v'"
    if run: "bindE (committedEventSeq ?i) (\<lambda>c. bindE (readCommittedEvents ?i c True) (\<lambda>_. ?tail c rec)) v = (x, v')"
      and v: "files_ok v" "?i \<in> set (w_dirs v)" for rec x v v'
    using run
  proof (cases rule: bindE_casesE)
    case (left e)
    with v jo(3) files_ok_journal_only show ?thesis by blast
  next
    case (right c v1)
    have v1: "files_ok v1" "?i \<in> set (w_dirs v1)"
      using files_ok_journal_only [OF jo(3) [OF right(1)] v(1)] dirs [OF jo(3) [OF right(1)]] v(2) by simp_all
    from right(2) show ?thesis
    proof (cases rule: bindE_casesE)
      case (left e)
      with v1 jo(1) files_ok_journal_only show ?thesis by blast
    next
      case (right es v2)
      have "files_ok v2" "?i \<in> set (w_dirs v2)"
        using files_ok_journal_only [OF jo(1) [OF right(1)] v1(1)] dirs [OF jo(1) [OF right(1)]] v1(2) by simp_all
      with tail [OF right(2)] show ?thesis by blast
    qed
  qed
  show ?thesis
  proof (cases "TrimSpace ?i = [] \<or> TrimSpace (t_ParentID (sn_Root sn)) \<noteq> [] \<or> \<not> is_ok (recordFromSnapshot sn)")
    case True
    then have "w' = w"
      using assms(1) by (cases "recordFromSnapshot sn") (auto simp: SaveSnapshot_def Let_def split: if_splits)
    with assms(2) show ?thesis by simp
  next
    case False
    then obtain rec where "recordFromSnapshot sn = Inr rec" by (auto elim: is_okE)
    with False assms(1) have "bindE io_step (\<lambda>_ w. bindE (committedEventSeq ?i)
        (\<lambda>c. bindE (readCommittedEvents ?i c True) (\<lambda>_. ?tail c rec)) (w\<lparr>w_dirs := List.insert ?i (w_dirs w)\<rparr>)) w = (r, w')"
      by (simp add: SaveSnapshot_def Let_def)
    then show ?thesis
    proof (cases rule: bindE_casesE)
      case (left e)
      with assms(2) files_ok_journal_only [OF journal_only_disk [OF io_step_disk]] show ?thesis by blast
    next
      case (right a w1)
      have "files_ok w1" using assms(2) files_ok_journal_only [OF journal_only_disk [OF io_step_disk [OF right(1)]]] by blast
      from mid [OF right(2) mk [OF this]] show ?thesis by simp
    qed
  qed
qed

lemma files_ok_persist:
  "persistRootLocked r n s w = (x, w') \<Longrightarrow> files_ok w \<Longrightarrow> files_ok w'"
  by (auto simp: persistRootLocked_def split: if_splits intro: files_ok_SaveSnapshot)

lemma files_ok_drawn: "ids_drawn (a, w) (b, w') \<Longrightarrow> files_ok w \<Longrightarrow> files_ok w'"
  by (auto simp: ids_drawn_def files_ok_def dirs_ok_def)

text \<open>
  What an operation that records one event does: it is refused without any effect, or it edits
  one aggregate, appends one event and saves, and keeps the edit whatever the save returned.
\<close>

definition event_shape :: "Service \<Rightarrow> World \<Rightarrow> (error + unit) \<Rightarrow> Service \<Rightarrow> World \<Rightarrow> bool" where
  "event_shape s w res s' w' \<longleftrightarrow> \<not> is_ok res \<and> s' = s \<and> w' = w \<or>
     (\<exists>r s1 ev x. edits r s s1 \<and> same_keys s s1 \<and> s' = appendEventLocked r ev s1 \<and>
        persistRootLocked r (length (mgets (s_events s) r)) s' w = (x, w') \<and> is_ok res = is_ok x)"

lemma event_shape_discard:
  assumes "event_run s w m" and "discard m = (res, (s', w'))"
  shows "event_shape s w res s' w'"
proof -
  from assms(2) obtain r where m: "m = (r, (s', w'))" "is_ok res = is_ok r" by (rule discardE)
  from assms(1) [unfolded m(1)] show ?thesis
  proof cases
    case refused
    with m(2) show ?thesis by (simp add: event_shape_def)
  next
    case (recorded r s1 ev v)
    from recorded(1) [symmetric] obtain x where
      "persistRootLocked r (length (mgets (s_events s) r)) (appendEventLocked r ev s1) w = (x, w')"
      "s' = appendEventLocked r ev s1" "is_ok res = is_ok x"
      by (cases rule: record_event_cases) (use m(2) in auto)
    with recorded(2,3) show ?thesis unfolding event_shape_def by blast
  qed
qed

lemma exec_event_shape:
  assumes "exec p (s, w) = (res, (s', w'))" and "\<not> rolls_back p" and "svc_wf s"
  shows "event_shape s w res s' w'"
  using assms
  by (cases p) (auto simp: Complete_def Fail_def intro: event_shape_discard event_runs)

lemma svc_step_files:
  assumes "svc_step (s, w) p (s', w')" and "svc_wf s" and "files_ok w"
  shows "files_ok w'"
proof -
  from assms(1) obtain n where dis: "disciplined n p" and room: "op_room n (s, w)" by (cases rule: svc_step.cases) auto
  obtain res where run: "exec p (s, w) = (res, (s', w'))" using svc_step_out [OF assms(1)] by blast
  have one: "alloc_room 1 (s_taskIDs s, w)" and nn: "alloc_room n (s_taskIDs s, w)"
    using room by (auto simp: op_room_def intro: alloc_room_le)
  show ?thesis
  proof (cases "rolls_back p")
    case False
    from exec_event_shape [OF run False assms(2)] assms(3) show ?thesis
      by (auto simp: event_shape_def intro: files_ok_persist)
  next
    case True
    show ?thesis
    proof (cases p)
      case (OCreateRoot i now)
      with run obtain r where r: "CreateRoot i now (s, w) = (r, (s', w'))" by (auto elim: discardE)
      from r one assms(3) show ?thesis
        by (cases rule: CreateRoot_cases) (blast intro: files_ok_drawn files_ok_persist)+
    next
      case (OCreateChild i now)
      with run obtain r where r: "CreateChild i now (s, w) = (r, (s', w'))" by (auto elim: discardE)
      from r one assms(3) show ?thesis
        by (cases rule: CreateChild_cases) (blast intro: files_ok_drawn files_ok_persist)+
    next
      case (OMutate i c clock)
      with run have r: "Mutate i c clock (s, w) = (res, (s', w'))" by simp
      from OMutate dis have "change_ok n c" by simp
      from change_ok_fresh [OF this nn] have f: "fresh_change c (s_taskIDs s, w)" .
      from r f show ?thesis
      proof (cases rule: Mutate_cases)
        case (refused e a)
        with assms(3) show ?thesis by (blast intro: files_ok_drawn)
      next
        case (attempted r t ids a w1 sn evs v new seq x)
        have "files_ok w1" using attempted(2) assms(3) by (rule files_ok_drawn)
        with attempted(13) show ?thesis by (auto split: if_splits intro: files_ok_SaveSnapshot)
      qed
    qed (use True in simp_all)
  qed
qed

text \<open>
  Runs of a service over a store that starts empty. Every operation either reports success or
  is one that rolls back; the other case is the subject of \<open>failed_save_loses_event\<close> below.
\<close>

definition store_init :: "svc_state \<Rightarrow> bool" where
  "store_init x \<longleftrightarrow> svc_init x \<and> s_store (fst x) \<and> s_nextSeq (fst x) = 0 \<and>
     w_dirs (snd x) = [] \<and> w_tasks (snd x) = [] \<and> counters_ok (snd x)"

definition kept_step :: "svc_state \<Rightarrow> op \<Rightarrow> svc_state \<Rightarrow> bool" where
  "kept_step x p y \<longleftrightarrow> careful_step x p y \<and> (is_ok (fst (exec p x)) \<or> rolls_back p)"

definition store_inv :: "svc_state \<Rightarrow> bool" where
  "store_inv x \<longleftrightarrow> svc_wf (fst x) \<and> ids_ok (fst x) \<and> synced (fst x) (snd x) \<and> files_ok (snd x)"

lemma careful_step_files:
  "careful_step x p y \<Longrightarrow> svc_wf (fst x) \<Longrightarrow> files_ok (snd x) \<Longrightarrow> files_ok (snd y)"
  using svc_step_files [of "fst x" "snd x" p "fst y" "snd y"] by (simp add: careful_step_def)

interpretation store_runs: invariant_system store_init kept_step store_inv
proof unfold_locales
  fix x
  assume i: "store_init x"
  then have "svc_inv x" using task_service.init_inv by (simp add: store_init_def)
  with i show "store_inv x"
    by (auto simp: store_init_def store_inv_def svc_inv_def svc_init_def synced_def files_ok_def dirs_ok_def svc_views)
next
  fix x p y
  assume "store_inv x" and k: "kept_step x p y"
  then have x: "svc_wf (fst x)" "ids_ok (fst x)" "synced (fst x) (snd x)" "files_ok (snd x)" by (simp_all add: store_inv_def)
  from k have c: "careful_step x p y" "is_ok (fst (exec p x)) \<or> rolls_back p" by (simp_all add: kept_step_def)
  from careful_step_effect [of "fst x" "snd x" p "fst y" "snd y"] c x careful_step_files [OF c(1) x(1,4)]
  show "store_inv y" by (simp add: store_inv_def)
qed

text \<open>The allocator a new process loads covers every task of the files.\<close>

lemma load_covers_synced:
  assumes "synced s w" and "svc_wf s" and "dirs_ok w" and "load (b, w) = (Inr (), (a, w1))" and "al_root b \<noteq> []"
  shows "mget (s_roots s) r = Some t \<Longrightarrow> covered (al_next a) r"
    and "mget (childrenForRootLocked s r) k = Some c \<Longrightarrow> covered (al_next a) k"
proof -
  have root: "\<exists>f. mget (w_tasks w) r = Some f \<and> r \<in> set (w_dirs w)" if "mget (s_roots s) r = Some t" for r t
  proof -
    have "durable w r (mgets (s_events s) r) = Inr (snapshotLocked s r)" using that assms(1) by (simp add: synced_def)
    then have "mget (w_tasks w) r \<noteq> None" by (cases "mget (w_tasks w) r") (auto simp: durable_def)
    with assms(3) show ?thesis by (auto simp: dirs_ok_def)
  qed
  show "covered (al_next a) r" if "mget (s_roots s) r = Some t"
    using root [OF that] load_covers(2) [OF assms(4,5)] by blast
  show "covered (al_next a) k" if c: "mget (childrenForRootLocked s r) k = Some c"
  proof -
    have "mget (s_roots s) r \<noteq> None" using svc_wf_no_root [OF assms(2)] c by fastforce
    then obtain t f where t: "mget (w_tasks w) r = Some f" "r \<in> set (w_dirs w)" using root by blast
    obtain rec sn where f: "f = Json rec" "snapshotFromRecord r rec = Inr sn"
      "sn\<lparr>sn_Events := mgets (s_events s) r\<rparr> = snapshotLocked s r" using synced_record [OF assms(1,2) t(1)] by metis
    have "c \<in> set (sn_Children (snapshotLocked s r))"
      using mget_mem [OF c] by (force simp: snapshotLocked_def)
    then have "c \<in> set (sn_Children sn)" using f(3) [symmetric] by simp
    then have "c \<in> set (r_Tasks rec)" using snapshotFromRecord_Inr [OF f(2)] by simp
    with load_covers(3) [OF assms(4,5) t(2)] t(1) f(1) have "covered (al_next a) (t_ID c)" by simp
    with assms(2) c show ?thesis by (simp add: svc_wf_def)
  qed
qed

lemma fresh_process:
  assumes "synced s w" and "svc_wf s" and "files_ok w" and "TrimSpace root \<noteq> []"
  obtains a w1 s' where "newPersistentTaskIDAllocator root (None, disk w) = (Inr a, (Some a, w1))"
    and "NewService (Some a) w1 = (Inr (), (s', w1))"
    and "\<And>r. mget (s_roots s') r = mget (s_roots s) r"
    and "\<And>r t. mget (s_roots s) r = Some t \<Longrightarrow> snapshotLocked s' r = snapshotLocked s r"
proof -
  let ?b = "\<lparr>al_root = Clean (TrimSpace root), al_next = 0\<rparr>"
  have b: "al_root ?b \<noteq> []" by (simp add: Clean_nonempty)
  have fs: "dirs_ok (disk w)" "counters_ok (disk w)"
    using assms(3) counters_ok_cong [of "disk w" w] by (simp_all add: files_ok_def dirs_ok_def)
  have recs: "\<forall>d f. mget (w_tasks (disk w)) d = Some f \<longrightarrow> (\<exists>rec. f = Json rec \<and> r_SchemaVersion rec \<in> {0, 2})"
    using synced_record [OF assms(1,2)] by (metis disk_fields(2))
  obtain n q where ld: "load (?b, disk w) = (Inr (), (?b\<lparr>al_next := n\<rparr>, (disk w)\<lparr>w_sequence := q\<rparr>))"
    using load_succeeds [OF _ recs fs(2) b] by auto
  let ?a = "?b\<lparr>al_next := n\<rparr>" and ?w = "(disk w)\<lparr>w_sequence := q\<rparr>"
  note cov = load_covers_synced [OF synced_disk [OF assms(1)] assms(2) fs(1) ld b]
  have syn: "synced s ?w" by (rule synced_world [OF _ _ assms(1)]) simp_all
  have "dirs_ok ?w" using fs(1) by (simp add: dirs_ok_def)
  have d: "disk ?w = ?w" by (simp add: disk_def)
  have al: "newPersistentTaskIDAllocator root (None, disk w) = (Inr ?a, (Some ?a, ?w))"
    using assms(4) ld by (simp add: newPersistentTaskIDAllocator_def)
  show ?thesis
  proof (rule restart [OF syn assms(2) cov(1) \<open>dirs_ok ?w\<close> cov(2)])
    fix s'
    assume "NewService (Some ?a) (disk ?w) = (Inr (), (s', disk ?w))"
      and "\<And>r. mget (s_roots s') r = mget (s_roots s) r"
      and "\<And>r t. mget (s_roots s) r = Some t \<Longrightarrow> snapshotLocked s' r = snapshotLocked s r"
    from that [OF al this [unfolded d]] show ?thesis .
  qed
qed

subsection \<open>Uniqueness of task IDs\<close>

lemma distinct_concat_rows:
  assumes "distinct (map fst m)" and "\<And>k v. (k, v) \<in> set m \<Longrightarrow> distinct (f k v)"
    and "\<And>k v k' v'. (k, v) \<in> set m \<Longrightarrow> (k', v') \<in> set m \<Longrightarrow> k \<noteq> k' \<Longrightarrow> set (f k v) \<inter> set (f k' v') = {}"
  shows "distinct (concat (map (\<lambda>(k, v). f k v) m))"
  using assms
proof (induction m)
  case (Cons x m)
  obtain k v where x: "x = (k, v)" by (cases x)
  have "distinct (map fst m)" "k \<notin> fst ` set m" using Cons.prems(1) x by auto
  have "distinct (concat (map (\<lambda>(k, v). f k v) m))"
  proof (rule Cons.IH)
    show "distinct (map fst m)" by fact
    show "distinct (f k v)" if "(k, v) \<in> set m" for k v
      by (rule Cons.prems(2)) (simp add: that)
    show "set (f k v) \<inter> set (f k' v') = {}" if "(k, v) \<in> set m" "(k', v') \<in> set m" "k \<noteq> k'" for k v k' v'
      by (rule Cons.prems(3) [OF _ _ that(3)]) (simp_all add: that)
  qed
  moreover have "set (f k v) \<inter> set (f k' v') = {}" if "(k', v') \<in> set m" for k' v'
  proof (rule Cons.prems(3))
    show "k \<noteq> k'" using that \<open>k \<notin> fst ` set m\<close> by force
  qed (simp_all add: x that)
  ultimately show ?case using Cons.prems(2) [of k v] x by auto
qed simp

lemma distinct_concat_rowsD:
  assumes "distinct (concat (map g m))" and "x \<in> set m" and "y \<in> set m" and "fst x \<noteq> fst y"
  shows "set (g x) \<inter> set (g y) = {}"
  using assms by (induction m) fastforce+

lemma children_ids:
  assumes "svc_wf s"
  shows "map t_ID (map snd (childrenForRootLocked s r)) = map fst (childrenForRootLocked s r)"
  using assms by (intro map_snd_ids) (simp_all add: svc_wf_def)

lemma all_tasks_ids:
  assumes "svc_wf s"
  shows "map t_ID (all_tasks s) = concat (map (\<lambda>(r, _). r # map fst (childrenForRootLocked s r)) (s_roots s))"
proof -
  have "t_ID t = r" if "(r, t) \<in> set (s_roots s)" for r t
  proof -
    have "distinct (map fst (s_roots s))" using assms by (simp add: svc_wf_def)
    then have "mget (s_roots s) r = Some t" using that by simp
    with svc_wf_root [OF assms] show ?thesis by simp
  qed
  then have "map t_ID (case x of (_, root) \<Rightarrow> root # map snd (childrenForRootLocked s (t_ID root)))
    = (case x of (r, _) \<Rightarrow> r # map fst (childrenForRootLocked s r))" if "x \<in> set (s_roots s)" for x
    using that children_ids [OF assms] by (cases x) (simp del: map_map)
  then show ?thesis
    by (simp only: all_tasks_def map_concat map_map comp_def cong: map_cong)
qed

lemma unique_ids:
  assumes "svc_wf s" and "ids_ok s"
  shows "distinct (map t_ID (all_tasks s))"
  unfolding all_tasks_ids [OF assms(1)]
proof (rule distinct_concat_rows)
  have root: "mget (s_roots s) r = Some t" if "(r, t) \<in> set (s_roots s)" for r t
    using that assms(1) by (simp add: svc_wf_def)
  have key: "\<exists>c. mget (childrenForRootLocked s r) k = Some c" if "k \<in> fst ` set (childrenForRootLocked s r)" for r k
    using that by (metis mget_None_key not_None_eq)
  show "distinct (map fst (s_roots s))" using assms(1) by (simp add: svc_wf_def)
  have none: "mget (s_roots s) k = None" if "k \<in> fst ` set (childrenForRootLocked s q)" for k q
    using key [OF that] ids_ok_child [OF assms(2)] by blast
  show "distinct (r # map fst (childrenForRootLocked s r))" if "(r, t) \<in> set (s_roots s)" for r t
  proof -
    have "distinct (map fst (childrenForRootLocked s r))" using assms(1) by (simp add: svc_wf_def)
    moreover have "r \<notin> fst ` set (childrenForRootLocked s r)" using none [of r r] root [OF that] by auto
    ultimately show ?thesis by simp
  qed
  show "set (r # map fst (childrenForRootLocked s r)) \<inter> set (r' # map fst (childrenForRootLocked s r')) = {}"
    if "(r, t) \<in> set (s_roots s)" "(r', t') \<in> set (s_roots s)" "r \<noteq> r'" for r t r' t'
  proof -
    have one: "q = q'" if "k \<in> fst ` set (childrenForRootLocked s q)" "k \<in> fst ` set (childrenForRootLocked s q')" for k q q'
      using key [OF that(1)] key [OF that(2)] assms(2) unfolding ids_ok_def by blast
    have "r \<notin> fst ` set (childrenForRootLocked s r')" "r' \<notin> fst ` set (childrenForRootLocked s r)"
      using none root [OF that(1)] root [OF that(2)] by fastforce+
    with one [of _ r r'] that(3) show ?thesis by auto
  qed
qed

text \<open>A successful \<open>CreateRoot\<close> with the ID of a child lists that ID twice.\<close>

lemma reuse_breaks:
  assumes "svc_wf s" and "svc_step (s, w) p (s', w')" and "reuses s p" and "is_ok (fst (exec p (s, w)))"
  shows "\<not> distinct (map t_ID (all_tasks s'))"
proof -
  from assms(3) obtain input now where p: "p = OCreateRoot input now" by (cases p) auto
  let ?i = "TrimSpace (cr_ID input)"
  from assms(3) p obtain q c where i: "?i \<noteq> []" and c: "mget (childrenForRootLocked s q) ?i = Some c"
    by (auto simp: id_free_def)
  have "exec p (s, w) = (fst (exec p (s, w)), (s', w'))" by (rule svc_step_out [OF assms(2)])
  then have "discard (CreateRoot input now (s, w)) = (fst (exec p (s, w)), (s', w'))" by (simp only: p exec.simps)
  then obtain r where r: "CreateRoot input now (s, w) = (r, (s', w'))" "is_ok (fst (exec p (s, w))) = is_ok r"
    by (rule discardE)
  have room: "alloc_room 1 (s_taskIDs s, w)"
    using assms(2) by (cases rule: svc_step.cases) (auto simp: op_room_def intro: alloc_room_le)
  have wf: "svc_wf s'" by (rule CreateRoot_wf [OF r(1) room assms(1)])
  from r(1) room obtain t where new: "mget (s_roots s) ?i = None" "mget (s_roots s') ?i = Some t"
    and old: "\<And>k. k \<noteq> ?i \<Longrightarrow> mget (s_roots s') k = mget (s_roots s) k"
    and kids: "\<And>k. childrenForRootLocked s' k = childrenForRootLocked s k"
  proof (cases rule: CreateRoot_cases)
    case (refused e a)
    with r(2) assms(4) show ?thesis by simp
  next
    case (created j a w1 ev x)
    have "is_ok x" using created(9) r(2) assms(4) by simp
    with created(4,7,10) i show ?thesis by (intro that [of "new_root input now j"]) (simp_all add: svc_views)
  qed
  have q: "mget (s_roots s) q \<noteq> None" using svc_wf_no_root [OF assms(1), of q] c by fastforce
  have "q \<noteq> ?i" using q new(1) by metis
  with q old [of q] obtain u where u: "mget (s_roots s') q = Some u" "q \<noteq> ?i"
    by (cases "mget (s_roots s) q") simp_all
  let ?row = "\<lambda>(r, _). r # map fst (childrenForRootLocked s' r)"
  have a: "(?i, t) \<in> set (s_roots s')" "(q, u) \<in> set (s_roots s')" using mget_mem new(2) u(1) by fast+
  have "?i \<in> set (?row (q, u))" "?i \<in> set (?row (?i, t))" using kids [of q] mget_key [OF c] by simp_all
  moreover have "set (?row (q, u)) \<inter> set (?row (?i, t)) = {}" if "distinct (concat (map ?row (s_roots s')))"
    by (rule distinct_concat_rowsD [OF that a(2,1)]) (use u(2) in simp)
  ultimately show ?thesis unfolding all_tasks_ids [OF wf] by blast
qed

subsection \<open>Looking up tasks\<close>

lemma find_inner_None: "find_inner mm k = None \<Longrightarrow> mget (mgets mm r) k = None"
  by (induction mm k rule: find_inner.induct) (auto simp: mgets_def split: option.splits if_splits)

lemma Get_iff:
  assumes "svc_wf s" and "ids_ok s"
  shows "Get s i = Some t \<longleftrightarrow> TrimSpace i \<noteq> [] \<and>
    (mget (s_roots s) (TrimSpace i) = Some t \<or> (\<exists>r. mget (childrenForRootLocked s r) (TrimSpace i) = Some t))"
proof
  assume "Get s i = Some t"
  then obtain r where q: "requireTaskLocked s i = Inr (r, t)"
    by (auto simp: Get_def split: sum.splits)
  then have "TrimSpace i \<noteq> []" by (auto simp: requireTaskLocked_def split: if_splits)
  with q assms(1) show "TrimSpace i \<noteq> [] \<and>
    (mget (s_roots s) (TrimSpace i) = Some t \<or> (\<exists>r. mget (childrenForRootLocked s r) (TrimSpace i) = Some t))"
    by (cases rule: requireTaskLocked_cases) auto
next
  assume *: "TrimSpace i \<noteq> [] \<and>
    (mget (s_roots s) (TrimSpace i) = Some t \<or> (\<exists>r. mget (childrenForRootLocked s r) (TrimSpace i) = Some t))"
  show "Get s i = Some t"
  proof (cases "mget (s_roots s) (TrimSpace i) = Some t")
    case True
    with * show ?thesis by (simp add: Get_def requireTaskLocked_def)
  next
    case False
    with * obtain r where c: "mget (childrenForRootLocked s r) (TrimSpace i) = Some t" by blast
    with ids_ok_child [OF assms(2)] have none: "mget (s_roots s) (TrimSpace i) = None" by blast
    show ?thesis
    proof (cases "find_inner (s_children s) (TrimSpace i)")
      case None
      from find_inner_None [OF None, of r] c show ?thesis by (simp add: childrenForRootLocked_def)
    next
      case (Some rv)
      obtain r' v where rv: "rv = (r', v)" by (cases rv)
      have "mget (childrenForRootLocked s r') (TrimSpace i) = Some v"
        using find_inner_Some [of "s_children s"] Some rv assms(1) by (simp add: svc_wf_def childrenForRootLocked_def)
      with c assms(2) have "r' = r" unfolding ids_ok_def by blast
      with \<open>mget (childrenForRootLocked s r') (TrimSpace i) = Some v\<close> c have "v = t" by simp
      with none Some rv * show ?thesis by (simp add: Get_def requireTaskLocked_def)
    qed
  qed
qed

lemma Get_cong:
  "s_roots s' = s_roots s \<Longrightarrow> s_children s' = s_children s \<Longrightarrow> Get s' i = Get s i"
  by (simp only: Get_def requireTaskLocked_def)

lemma Get_append_event [simp]: "Get (appendEventLocked r ev s) i = Get s i"
  by (rule Get_cong) simp_all

lemma Get_set_task:
  assumes "svc_wf s" and "ids_ok s" and "requireTaskLocked s i = Inr (r, t)" and "t_ID t' = t_ID t"
    and "Get (set_task r i t' s) j = Some u"
  shows "if TrimSpace j = TrimSpace i then u = t' else Get s j = Some u"
proof -
  let ?s = "set_task r i t' s"
  have wf: "svc_wf ?s" using edits_set_task [OF assms(1,3,4)] by (rule edits_wf)
  have ids: "ids_ok ?s" using same_keys_set_task [OF assms(1,3)] assms(2) by (rule same_keys_ids_ok)
  from assms(5) have g: "TrimSpace j \<noteq> []" "mget (s_roots ?s) (TrimSpace j) = Some u \<or>
      (\<exists>q. mget (childrenForRootLocked ?s q) (TrimSpace j) = Some u)"
    by (simp_all add: Get_iff [OF wf ids])
  from assms(3,1) show ?thesis
  proof (cases rule: requireTaskLocked_cases)
    case root
    then have "mget (s_roots ?s) k = (if k = TrimSpace i then Some t' else mget (s_roots s) k)"
      "childrenForRootLocked ?s q = childrenForRootLocked s q" for k q
      by (simp_all add: set_task_def svc_views)
    moreover have "mget (childrenForRootLocked s q) (TrimSpace i) \<noteq> Some u" for q
      using ids_ok_child [OF assms(2)] root by fastforce
    ultimately show ?thesis using g by (auto simp: Get_iff [OF assms(1,2)] split: if_splits)
  next
    case (child root)
    then have *: "s_roots ?s = s_roots s" "childrenForRootLocked ?s q =
        (if q = r then mput (TrimSpace i) t' (childrenForRootLocked s r) else childrenForRootLocked s q)" for q
      by (simp_all add: set_task_def svc_views)
    have "q = r" if "mget (childrenForRootLocked s q) (TrimSpace i) = Some v" for q v
      using that child(3) assms(2) unfolding ids_ok_def by blast
    with g child(1) show ?thesis unfolding * by (auto simp: Get_iff [OF assms(1,2)] split: if_splits)
  qed
qed

subsection \<open>The life cycle of a task\<close>

definition status_step :: "string \<Rightarrow> string \<Rightarrow> bool" where
  "status_step a b \<longleftrightarrow> a = b \<or>
     (a \<in> {StatusPending, StatusAssigned, StatusBlocked} \<and> b = StatusInProgress) \<or>
     (a = StatusInProgress \<and> b \<in> {StatusCompleted, StatusFailed, StatusBlocked})"

lemma status_step_refl [simp]: "status_step a a"
  by (simp add: status_step_def)

text \<open>Between two states, every task that both know made at most one step of the life cycle.\<close>

definition lifecycle :: "Service \<Rightarrow> Service \<Rightarrow> bool" where
  "lifecycle s s' \<longleftrightarrow> (\<forall>i t u. Get s i = Some t \<longrightarrow> Get s' i = Some u \<longrightarrow> status_step (t_Status t) (t_Status u))"

lemma lifecycle_same: "(\<And>i u. Get s' i = Some u \<Longrightarrow> Get s i = Some u \<or> Get s i = None) \<Longrightarrow> lifecycle s s'"
  unfolding lifecycle_def by (metis option.distinct(1) option.inject status_step_refl)

lemma lifecycle_refl [simp]: "lifecycle s s"
  by (rule lifecycle_same) simp

lemma lifecycle_set_task:
  assumes "svc_wf s" and "ids_ok s" and "requireTaskLocked s i = Inr (r, t)" and "t_ID t' = t_ID t"
    and "status_step (t_Status t) (t_Status t')"
  shows "lifecycle s (set_task r i t' s)"
  unfolding lifecycle_def
proof (intro allI impI)
  fix j x u
  assume j: "Get s j = Some x" "Get (set_task r i t' s) j = Some u"
  show "status_step (t_Status x) (t_Status u)"
  proof (cases "TrimSpace j = TrimSpace i")
    case True
    then have "Get s j = Get s i" by (simp add: Get_def requireTaskLocked_def)
    with assms(3) j(1) have "x = t" by (simp add: Get_def)
    with Get_set_task [OF assms(1-4) j(2)] True assms(5) show ?thesis by simp
  next
    case False
    with Get_set_task [OF assms(1-4) j(2)] j(1) show ?thesis by simp
  qed
qed

lemma lifecycle_record_event:
  "lifecycle s s1 \<Longrightarrow> record_event r n ev v (s1, w) = (res, (s', w')) \<Longrightarrow> lifecycle s s'"
  by (erule record_event_cases) (simp add: lifecycle_def)

lemma lifecycle_room_children:
  assumes "svc_wf s1" and "ids_ok s1" and "lifecycle s s1" and "\<And>c. t_ID (f c) = t_ID c \<and> t_Status (f c) = t_Status c"
    and "mget (s_roots s1) r \<noteq> None"
  shows "lifecycle s (s1\<lparr>s_children :=
    mput r (map (\<lambda>(k, c). (k, f c)) (childrenForRootLocked s1 r)) (s_children s1)\<rparr>)"
proof -
  let ?s = "s1\<lparr>s_children := mput r (map (\<lambda>(k, c). (k, f c)) (childrenForRootLocked s1 r)) (s_children s1)\<rparr>"
  have m: "mget (map (\<lambda>(k, c). (k, f c)) m) k = map_option f (mget m k)" for m k
    by (induction m) auto
  have ed: "edits r s1 s1" using assms(1,5) by (simp add: edits_def)
  have wf: "svc_wf ?s" by (rule edits_wf, rule edits_room_children [OF ed]) (use assms(4) in simp)
  have "same_keys s1 s1" by (simp add: same_keys_def)
  then have ids: "ids_ok ?s" by (rule same_keys_ids_ok [OF same_keys_room_children assms(2)])
  have "\<exists>u'. Get s1 i = Some u' \<and> t_Status u = t_Status u'" if "Get ?s i = Some u" for i u
    using that unfolding Get_iff [OF wf ids] Get_iff [OF assms(1,2)]
    by (auto simp: svc_views m assms(4) split: if_splits)
  with assms(3) show ?thesis unfolding lifecycle_def by metis
qed

lemma lifecycle_BindRoom:
  assumes "svc_wf s" and "ids_ok s" and "BindRoom input now (s, w) = (res, (s', w'))"
  shows "lifecycle s s'"
proof (cases "is_ok (requireTaskLocked s (br_TaskID input)) \<and> TrimSpace (br_RoomID input) \<noteq> []")
  case False
  with assms(3) have "s' = s"
    by (cases "requireTaskLocked s (br_TaskID input)") (auto simp: BindRoom_def Let_def split: if_splits)
  then show ?thesis by simp
next
  case True
  then obtain r t where q: "requireTaskLocked s (br_TaskID input) = Inr (r, t)"
    by (cases "requireTaskLocked s (br_TaskID input)") auto
  let ?t = "t\<lparr>t_RoomID := TrimSpace (br_RoomID input),
    t_ExecutionChannel := TrimSpace (br_ExecutionChannel input), t_UpdatedAt := now\<rparr>"
  let ?s1 = "set_task r (br_TaskID input) ?t s"
  have l1: "lifecycle s ?s1" by (rule lifecycle_set_task [OF assms(1,2) q]) simp_all
  have wf: "svc_wf ?s1" by (rule edits_wf [OF edits_set_task [OF assms(1) q]]) simp
  have ids: "ids_ok ?s1" by (rule same_keys_ids_ok [OF same_keys_set_task [OF assms(1) q] assms(2)])
  have root: "mget (s_roots ?s1) r \<noteq> None"
    using requireTaskLocked_root [OF q assms(1)] by (auto simp: set_task_def Let_def)
  note l2 = lifecycle_room_children [OF wf ids l1 _ root, of "\<lambda>c. c\<lparr>t_RoomID := TrimSpace (br_RoomID input),
    t_ExecutionChannel := t_ExecutionChannel ?t, t_UpdatedAt := now\<rparr>"]
  from assms(3) True q show ?thesis
    by (cases "TrimSpace (t_ParentID t) = []")
      (auto simp: BindRoom_def Let_def intro: lifecycle_record_event [OF l1] lifecycle_record_event [OF l2])
qed

lemma lifecycle_Claim:
  assumes "svc_wf s" and "ids_ok s" and "Claim input now (s, w) = (res, (s', w'))"
  shows "lifecycle s s'"
  using assms(3)
  by (auto simp: Claim_def Let_def status_step_def split: sum.splits if_splits
      elim!: lifecycle_record_event [rotated] intro!: lifecycle_set_task [OF assms(1,2)])

lemma lifecycle_finishTask:
  assumes "svc_wf s" and "ids_ok s" and "finishTask i a st txt now (s, w) = (res, (s', w'))"
    and "st \<in> {StatusCompleted, StatusFailed}"
  shows "lifecycle s s'"
  using assms(3,4)
  by (auto simp: finishTask_def Let_def status_step_def split: sum.splits if_splits
      elim!: lifecycle_record_event [rotated] intro!: lifecycle_set_task [OF assms(1,2)])

lemma lifecycle_Block:
  assumes "svc_wf s" and "ids_ok s" and "Block input now (s, w) = (res, (s', w'))"
  shows "lifecycle s s'"
  using assms(3)
  by (auto simp: Block_def Let_def status_step_def split: sum.splits if_splits
      elim!: lifecycle_record_event [rotated] intro!: lifecycle_set_task [OF assms(1,2)])

lemma lifecycle_approvals [simp]:
  "lifecycle s (s\<lparr>s_approvals := a\<rparr>)" "lifecycle s (s\<lparr>s_nextApprovalID := n, s_approvals := a\<rparr>)"
  by (rule lifecycle_same; subst (asm) Get_cong [of _ s]; simp)+

lemma lifecycle_RequestApproval:
  assumes "RequestApproval input now (s, w) = (res, (s', w'))"
  shows "lifecycle s s'"
  using assms
  by (auto simp: RequestApproval_def nextApprovalIdentifier_def Let_def split: sum.splits if_splits
      elim!: lifecycle_record_event [rotated])

lemma lifecycle_ResolveApproval:
  assumes "ResolveApproval input now (s, w) = (res, (s', w'))"
  shows "lifecycle s s'"
  using assms
  by (auto simp: ResolveApproval_def Let_def split: sum.splits if_splits
      elim!: lifecycle_record_event [rotated])

lemma Get_alloc [simp]: "Get (s\<lparr>s_taskIDs := a\<rparr>) i = Get s i"
  by (rule Get_cong) simp_all

lemma lifecycle_CreateRoot:
  assumes "svc_wf s" and "ids_ok s" and "CreateRoot input now (s, w) = (res, (s', w'))"
    and "alloc_room 1 (s_taskIDs s, w)" and "TrimSpace (cr_ID input) \<noteq> [] \<longrightarrow> id_free s (TrimSpace (cr_ID input))"
  shows "lifecycle s s'"
  using assms(3,4)
proof (cases rule: CreateRoot_cases)
  case (refused e a)
  then show ?thesis by (auto intro!: lifecycle_same)
next
  case (created i a w1 ev x)
  have wf: "svc_wf s'" by (rule CreateRoot_wf [OF assms(3,4,1)])
  have ids: "ids_ok s'" by (rule CreateRoot_ids [OF assms(3,4,1,2,5)])
  have free: "id_free s i"
    using created(6,7) assms(5) ids_ok_free [OF assms(2)] by (cases "TrimSpace (cr_ID input) = []") auto
  show ?thesis
  proof (rule lifecycle_same)
    fix j u
    assume "Get s' j = Some u"
    then have g: "TrimSpace j \<noteq> []" "mget (s_roots s') (TrimSpace j) = Some u \<or>
        (\<exists>r. mget (childrenForRootLocked s' r) (TrimSpace j) = Some u)" by (simp_all add: Get_iff [OF wf ids])
    have c: "childrenForRootLocked s' r = childrenForRootLocked s r" for r
      by (simp add: created(10) drop_root_def svc_views)
    show "Get s j = Some u \<or> Get s j = None"
    proof (cases "TrimSpace j = i")
      case True
      have "Get s j \<noteq> Some v" for v
        using True created(4) free by (simp add: Get_iff [OF assms(1,2)] id_free_def)
      then show ?thesis by (metis not_None_eq)
    next
      case False
      then have "mget (s_roots s') (TrimSpace j) = mget (s_roots s) (TrimSpace j)"
        by (simp add: created(10) drop_root_def)
      with g c show ?thesis by (simp add: Get_iff [OF assms(1,2)])
    qed
  qed
qed

lemma lifecycle_CreateChild:
  assumes "svc_wf s" and "ids_ok s" and "CreateChild input now (s, w) = (res, (s', w'))"
    and "alloc_room 1 (s_taskIDs s, w)"
  shows "lifecycle s s'"
  using assms(3,4)
proof (cases rule: CreateChild_cases)
  case (refused e a)
  then show ?thesis by (auto intro!: lifecycle_same)
next
  case (created r parent i a w1 ev x s1)
  have wf: "svc_wf s'" by (rule CreateChild_wf [OF assms(3,4,1)])
  have ids: "ids_ok s'" by (rule CreateChild_ids [OF assms(3,4,1,2)])
  note free = ids_ok_free [OF assms(2) created(3)]
  show ?thesis
  proof (rule lifecycle_same)
    fix j u
    assume "Get s' j = Some u"
    then have g: "TrimSpace j \<noteq> []" "mget (s_roots s') (TrimSpace j) = Some u \<or>
        (\<exists>r. mget (childrenForRootLocked s' r) (TrimSpace j) = Some u)" by (simp_all add: Get_iff [OF wf ids])
    have rt: "s_roots s' = s_roots s" by (simp add: created(5,8))
    show "Get s j = Some u \<or> Get s j = None"
    proof (cases "TrimSpace j = i")
      case True
      have "Get s j \<noteq> Some v" for v
        using True free by (simp add: Get_iff [OF assms(1,2)] id_free_def)
      then show ?thesis by (metis not_None_eq)
    next
      case False
      then have "mget (childrenForRootLocked s' q) (TrimSpace j) = mget (childrenForRootLocked s q) (TrimSpace j)" for q
        by (simp add: created(5,8))
      with g rt show ?thesis by (simp add: Get_iff [OF assms(1,2)])
    qed
  qed
qed

fun is_mutate :: "op \<Rightarrow> bool" where
  "is_mutate (OMutate taskID change clock) = True"
| "is_mutate _ = False"

lemma exec_lifecycle:
  assumes "svc_wf s" and "ids_ok s" and "op_ok s n p" and "op_room n (s, w)"
    and "exec p (s, w) = (res, (s', w'))" and "\<not> is_mutate p"
  shows "lifecycle s s'"
proof -
  have one: "alloc_room 1 (s_taskIDs s, w)"
    using assms(4) by (auto simp: op_room_def intro: alloc_room_le)
  show ?thesis
  proof (cases p)
    case (OCreateRoot i now)
    with assms(3,5) show ?thesis
      by (auto elim!: discardE intro: lifecycle_CreateRoot [OF assms(1,2) _ one])
  qed (use assms in \<open>auto simp: Complete_def Fail_def elim!: discardE
        intro: lifecycle_CreateChild [OF _ _ _ one] lifecycle_BindRoom lifecycle_Claim lifecycle_finishTask
        lifecycle_Block lifecycle_RequestApproval lifecycle_ResolveApproval\<close>)
qed

subsection \<open>A concrete service\<close>

text \<open>A service over empty files, and the state after one root task was created.\<close>

definition demo_world :: World where
  "demo_world = \<lparr>w_dirs = [], w_tasks = [], w_journal = [], w_sequence = None, w_index = None, w_faults = []\<rparr>"

definition demo_service :: Service where
  "demo_service = \<lparr>s_store = True, s_taskIDs = \<lparr>al_root = ''tasks'', al_next = 0\<rparr>, s_nextApprovalID = 0,
     s_nextSeq = 0, s_roots = [], s_children = [], s_events = [], s_approvals = [], s_presence = []\<rparr>"

definition demo_root :: CreateRootInput where
  "demo_root = \<lparr>cr_Status = [], cr_SourceMessageID = [], cr_ID = [], cr_AssignmentType = ''room'',
     cr_AssignmentID = ''r1'', cr_Title = ''build'', cr_Body = [], cr_CreatedBy = ''alice'',
     cr_AssignedTo = ''bob'', cr_ExecutionChannel = [], cr_RoomID = [], cr_DependsOn = []\<rparr>"

definition demo_state :: svc_state where
  "demo_state = snd (CreateRoot demo_root 7 (demo_service, demo_world))"

lemma demo_init: "svc_wf demo_service" "ids_ok demo_service" "synced demo_service demo_world"
  by (simp_all add: demo_service_def demo_world_def svc_wf_def ids_ok_def synced_def svc_views)

lemma demo_run: "CreateRoot demo_root 7 (demo_service, demo_world) =
    (Inr (new_root demo_root 7 ''task-1''), (fst demo_state, snd demo_state))"
  unfolding demo_state_def by code_simp

lemma demo_room: "alloc_room 1 (s_taskIDs demo_service, demo_world)" "s_nextSeq demo_service < int64_max"
  by (simp_all add: alloc_room_def demo_service_def)

lemma demo_facts: "svc_wf (fst demo_state)" "ids_ok (fst demo_state)" "synced (fst demo_state) (snd demo_state)"
  by (rule CreateRoot_wf [OF demo_run demo_room(1) demo_init(1)],
      rule CreateRoot_ids [OF demo_run demo_room(1) demo_init(1,2)], simp add: demo_root_def,
      rule CreateRoot_synced [OF demo_run demo_room(1) demo_init(1,3) demo_room(2)])

lemma demo_values:
  "al_next (s_taskIDs (fst demo_state)) = 1" "s_nextSeq (fst demo_state) = 1"
  "map fst (s_roots (fst demo_state)) = [''task-1'']" "w_dirs (snd demo_state) = [''task-1'']"
  "map fst (w_tasks (snd demo_state)) = [''task-1'']" "s_children (fst demo_state) = []"
  "s_approvals (fst demo_state) = []" "map_option t_Status (Get (fst demo_state) ''task-1'') = Some StatusAssigned"
  unfolding demo_state_def by code_simp+

lemma demo_op_room: "op_room 1 demo_state"
  using demo_values(1,2) by (simp add: op_room_def alloc_room_def prod_eq_iff)

lemma demo_dirs: "dirs_ok (snd demo_state)"
proof -
  have "fst ` set (w_tasks (snd demo_state)) = {''task-1''}"
    using arg_cong [OF demo_values(5), of set] by simp
  then have "d = ''task-1''" if "mget (w_tasks (snd demo_state)) d \<noteq> None" for d
    using that mget_None_key [of "w_tasks (snd demo_state)" d] by simp
  then show ?thesis unfolding dirs_ok_def demo_values(4) by simp
qed

subsection \<open>Properties\<close>

definition demo_child_op :: op where
  "demo_child_op = OCreateChild \<lparr>cc_ParentID = ''task-1'', cc_Title = ''part'', cc_Body = [], cc_CreatedBy = ''alice'',
     cc_AssignedTo = ''bob'', cc_DependsOn = []\<rparr> 8"

lemmas svc_reach = reachable_step [where init = svc_init and step = careful_step]

lemma demo_careful:
  "careful_step (demo_service, demo_world) (OCreateRoot demo_root 7) demo_state"
  "careful_step demo_state demo_child_op (snd (exec demo_child_op demo_state))"
proof -
  have "svc_step (demo_service, demo_world) (OCreateRoot demo_root 7) demo_state"
    by (rule svc_step.intros [of 1])
      (use demo_room in \<open>simp_all add: op_room_def demo_root_def demo_run [unfolded demo_root_def] discard_def\<close>)
  then show "careful_step (demo_service, demo_world) (OCreateRoot demo_root 7) demo_state"
    by (simp add: careful_step_def demo_root_def)
  have "svc_step demo_state demo_child_op (snd (exec demo_child_op demo_state))"
    using svc_step.intros [of 1 demo_child_op "fst demo_state" "snd demo_state"
        "fst (exec demo_child_op demo_state)" "snd (exec demo_child_op demo_state)"] demo_op_room
    by (simp add: demo_child_op_def)
  then show "careful_step demo_state demo_child_op (snd (exec demo_child_op demo_state))"
    by (simp add: careful_step_def demo_child_op_def)
qed

text \<open>
  C4. No two tasks, roots or children of whatever aggregate, share an ID, and the one way to lose
  this is known. In every run without a successful reuse the IDs are distinct, and any further
  call of the interface keeps them distinct except exactly this: a \<open>CreateRoot\<close> with an explicit
  ID that is the ID of a child, and which succeeds. File-system failures may happen anywhere;
  callbacks of \<open>Mutate\<close> name new children by IDs they drew, and the counters stay below the bound
  of \<open>int64\<close>.
\<close>

theorem task_ids_unique:
  assumes "reachable svc_init careful_step x" and "svc_step x p y"
  shows "distinct (map t_ID (all_tasks (fst x))) \<and>
    (distinct (map t_ID (all_tasks (fst y))) \<longleftrightarrow> \<not> (reuses (fst x) p \<and> is_ok (fst (exec p x))))"
proof -
  have inv: "svc_inv x" by (rule task_service.reachable_inv [OF assms(1)])
  have "\<not> distinct (map t_ID (all_tasks (fst y)))" if "reuses (fst x) p" "is_ok (fst (exec p x))"
    using reuse_breaks [of "fst x" "snd x" p "fst y" "snd y"] inv assms(2) that by (simp add: svc_inv_def)
  moreover have "distinct (map t_ID (all_tasks (fst y)))" if "\<not> (reuses (fst x) p \<and> is_ok (fst (exec p x)))"
    using svc_inv_step [OF inv, of p y] assms(2) that by (simp add: careful_step_def svc_inv_def unique_ids)
  ultimately show ?thesis using inv by (auto simp: svc_inv_def unique_ids)
qed

theorem task_ids_unique_witness:
  "(let y = snd (exec demo_child_op demo_state); p = OCreateRoot (demo_root\<lparr>cr_ID := ''task-2''\<rparr>) 9
    in map t_ID (all_tasks (fst y)) = [''task-1'', ''task-2''] \<and> is_ok (fst (exec p y)) \<and>
       distinct (map t_ID (all_tasks (fst y))) \<and> \<not> distinct (map t_ID (all_tasks (fst (snd (exec p y))))))"
proof -
  let ?y = "snd (exec demo_child_op demo_state)" and ?p = "OCreateRoot (demo_root\<lparr>cr_ID := ''task-2''\<rparr>) 9"
  have r: "reachable svc_init careful_step (demo_service, demo_world)"
    by (rule reachable_init) (simp add: svc_init_def demo_service_def)
  have r2: "reachable svc_init careful_step ?y"
    by (rule svc_reach [OF svc_reach [OF r demo_careful(1)] demo_careful(2)])
  have v: "al_next (s_taskIDs (fst ?y)) = 2" "s_nextSeq (fst ?y) = 2"
    unfolding demo_state_def demo_child_op_def by (code_simp, code_simp)
  have st: "svc_step ?y ?p (snd (exec ?p ?y))"
    using svc_step.intros [of 1 ?p "fst ?y" "snd ?y" "fst (exec ?p ?y)" "snd (exec ?p ?y)"] v
    by (simp add: op_room_def alloc_room_def)
  have ids: "map t_ID (all_tasks (fst ?y)) = [''task-1'', ''task-2'']"
    unfolding demo_state_def demo_child_op_def by code_simp
  have ok: "is_ok (fst (exec ?p ?y))" unfolding demo_state_def demo_child_op_def by code_simp
  have "mget (childrenForRootLocked (fst ?y) ''task-1'') ''task-2'' \<noteq> None" "TrimSpace ''task-2'' = ''task-2''"
    unfolding demo_state_def demo_child_op_def by (code_simp, code_simp)
  then have "reuses (fst ?y) ?p" by (auto simp: id_free_def)
  with task_ids_unique [OF r2 st] ok ids show ?thesis by (simp add: Let_def)
qed

text \<open>
  C5. Memory and files stay in step: from a state in which every root loads back as it is in
  memory, an operation that succeeds leads to such a state again, and so does a
  \<open>CreateRoot\<close>, \<open>CreateChild\<close> or \<open>Mutate\<close> that fails; after any other failed operation the files
  still agree with the memory before it.
\<close>

theorem exec_keeps_synced:
  assumes "svc_wf s" and "ids_ok s" and "synced s w" and "op_ok s n p" and "op_room n (s, w)"
    and "exec p (s, w) = (res, (s', w'))"
  shows "if is_ok res \<or> rolls_back p then synced s' w' else synced s w'"
proof (cases "rolls_back p")
  case True
  with exec_rolls_back [OF assms(6) True assms(1,2,4,5)] assms(3) show ?thesis by simp
next
  case False
  have "s_nextSeq s < int64_max" using assms(5) by (simp add: op_room_def)
  with exec_event_run [OF assms(6) False assms(1)] assms(3) False show ?thesis
    by (simp add: event_effect_def)
qed

theorem exec_keeps_synced_witness:
  "(let x = exec (OClaim \<lparr>cl_TaskID = ''task-1'', cl_ParticipantID = ''bob''\<rparr> 9) demo_state
    in is_ok (fst x) \<and> synced (fst (snd x)) (snd (snd x)))"
proof -
  let ?p = "OClaim \<lparr>cl_TaskID = ''task-1'', cl_ParticipantID = ''bob''\<rparr> 9"
  obtain res s' w' where r: "exec ?p (fst demo_state, snd demo_state) = (res, (s', w'))" by (metis prod_cases3)
  have "is_ok (fst (exec ?p demo_state))" unfolding demo_state_def by code_simp
  then have ok: "is_ok res" using r by simp
  have "op_ok (fst demo_state) 1 ?p" by simp
  from exec_keeps_synced [OF demo_facts this _ r] demo_op_room ok have "synced s' w'" by simp
  with r ok show ?thesis by (simp add: Let_def)
qed

text \<open>
  C6. Restart. Take a service that started on an empty store, a run of operations each of which
  succeeded or rolled back, and one more operation with whatever result. A process started then on
  the files can open the allocator and the service, and finds exactly the roots, children,
  approvals, presence and events of the memory after that operation; if the last operation failed
  without rolling back, those before it. The run makes no successful reuse of a child's ID (C4)
  and stays below the bounds of the counters; failures of the file system happen up to the
  restart, which itself meets none.
\<close>

theorem restart_recovers:
  assumes "reachable store_init kept_step x" and "careful_step x p y" and "TrimSpace root \<noteq> []"
  shows "let s = (if is_ok (fst (exec p x)) \<or> rolls_back p then fst y else fst x) in
    \<exists>a w1 s'. newPersistentTaskIDAllocator root (None, disk (snd y)) = (Inr a, (Some a, w1)) \<and>
      NewService (Some a) w1 = (Inr (), (s', w1)) \<and>
      (\<forall>r. mget (s_roots s') r = mget (s_roots s) r) \<and>
      (\<forall>r t. mget (s_roots s) r = Some t \<longrightarrow> snapshotLocked s' r = snapshotLocked s r)"
proof -
  let ?s = "if is_ok (fst (exec p x)) \<or> rolls_back p then fst y else fst x"
  have "store_inv x" by (rule store_runs.reachable_inv [OF assms(1)])
  then have x: "svc_wf (fst x)" "ids_ok (fst x)" "synced (fst x) (snd x)" "files_ok (snd x)" by (simp_all add: store_inv_def)
  have eff: "svc_wf ?s" "synced ?s (snd y)"
    using careful_step_effect [of "fst x" "snd x" p "fst y" "snd y"] assms(2) x by (simp_all split: if_splits)
  obtain a w1 s' where "newPersistentTaskIDAllocator root (None, disk (snd y)) = (Inr a, (Some a, w1))"
    "NewService (Some a) w1 = (Inr (), (s', w1))" "\<And>r. mget (s_roots s') r = mget (s_roots ?s) r"
    "\<And>r t. mget (s_roots ?s) r = Some t \<Longrightarrow> snapshotLocked s' r = snapshotLocked ?s r"
    using fresh_process [OF eff(2,1) careful_step_files [OF assms(2) x(1,4)] assms(3)] by metis
  then show ?thesis unfolding Let_def by blast
qed

theorem restart_recovers_witness:
  "\<exists>a w1 s'. newPersistentTaskIDAllocator ''tasks'' (None, disk (snd (snd (exec demo_child_op demo_state)))) = (Inr a, (Some a, w1)) \<and>
     NewService (Some a) w1 = (Inr (), (s', w1)) \<and>
     snapshotLocked s' ''task-1'' = snapshotLocked (fst (snd (exec demo_child_op demo_state))) ''task-1''"
proof -
  have "reachable store_init kept_step (demo_service, demo_world)"
    by (rule reachable_init)
      (simp add: store_init_def svc_init_def demo_service_def demo_world_def counters_ok_def)
  moreover have "kept_step (demo_service, demo_world) (OCreateRoot demo_root 7) demo_state"
    using demo_careful(1) by (simp add: kept_step_def)
  ultimately have r: "reachable store_init kept_step demo_state" by (rule reachable_step)
  have "mget (s_roots (fst (snd (exec demo_child_op demo_state)))) ''task-1'' \<noteq> None" "TrimSpace ''tasks'' \<noteq> []"
    unfolding demo_state_def demo_child_op_def by (code_simp, code_simp)
  with restart_recovers [OF r demo_careful(2), of "''tasks''"] show ?thesis
    by (auto simp: Let_def demo_child_op_def)
qed

text \<open>
  C9. The life cycle: outside \<open>Mutate\<close> an operation changes the status of an existing task only
  from pending, assigned or blocked to in progress, or from in progress to completed, failed or
  blocked, whatever it returns.
\<close>

theorem status_lifecycle:
  assumes "svc_wf s" and "ids_ok s" and "op_ok s n p" and "op_room n (s, w)"
    and "exec p (s, w) = (res, (s', w'))" and "\<not> is_mutate p"
    and "Get s i = Some t" and "Get s' i = Some u"
  shows "status_step (t_Status t) (t_Status u)"
  using exec_lifecycle [OF assms(1-6)] assms(7,8) by (simp add: lifecycle_def)

theorem status_lifecycle_witness:
  "(\<exists>s' w' t u. exec (OClaim \<lparr>cl_TaskID = ''task-1'', cl_ParticipantID = ''bob''\<rparr> 9) demo_state = (Inr (), (s', w')) \<and>
     Get (fst demo_state) ''task-1'' = Some t \<and> Get s' ''task-1'' = Some u \<and>
     t_Status t = StatusAssigned \<and> t_Status u = StatusInProgress \<and> status_step (t_Status t) (t_Status u))"
proof -
  let ?p = "OClaim \<lparr>cl_TaskID = ''task-1'', cl_ParticipantID = ''bob''\<rparr> 9"
  obtain res s' w' where r: "exec ?p (fst demo_state, snd demo_state) = (res, (s', w'))" by (metis prod_cases3)
  have "fst (exec ?p demo_state) = Inr ()"
    "map_option t_Status (Get (fst (snd (exec ?p demo_state))) ''task-1'') = Some StatusInProgress"
    unfolding demo_state_def by code_simp+
  with r have res: "res = Inr ()" "map_option t_Status (Get s' ''task-1'') = Some StatusInProgress" by simp_all
  obtain t u where tu: "Get (fst demo_state) ''task-1'' = Some t" "Get s' ''task-1'' = Some u"
    "t_Status t = StatusAssigned" "t_Status u = StatusInProgress"
    using demo_values(8) res(2) by auto
  have "status_step (t_Status t) (t_Status u)"
    by (rule status_lifecycle [OF demo_facts(1,2) _ _ r _ tu(1,2)]) (use demo_op_room in simp_all)
  with tu r res show ?thesis by auto
qed

lemma find_inner_update:
  assumes "find_inner mm k = Some (r, v)" and "distinct (map fst mm)"
  shows "find_inner (mput r (mput k v' (mgets mm r)) mm) k = Some (r, v')"
  using assms
proof (induction mm k rule: find_inner.induct)
  case (2 q m rest k)
  show ?case
  proof (cases "mget m k")
    case None
    with 2 have IH: "find_inner (mput r (mput k v' (mgets rest r)) rest) k = Some (r, v')"
      and f: "find_inner rest k = Some (r, v)" by simp_all
    have "mget (mgets rest r) k = Some v" using find_inner_Some [OF f] 2(3) by simp
    then have "mget rest r \<noteq> None" by (cases "mget rest r") (simp_all add: mgets_def)
    then have "r \<noteq> q" using 2(3) mget_None_key [of rest r] by auto
    with IH None show ?thesis by (simp add: mgets_def)
  qed (use 2 in \<open>simp_all add: mgets_def\<close>)
qed simp

lemma record_event_ok: "record_event r n ev v x = (Inr a, y) \<Longrightarrow> a = v"
  by (cases x) (auto simp: record_event_def Let_def split: prod.splits sum.splits)

lemma ResolveApproval_ok:
  assumes "ResolveApproval input now (s, w) = (Inr a, x)"
  shows "\<exists>r b n ev. requireApprovalLocked s (rv_ApprovalID input) = Inr (r, b) \<and>
    a_Status a \<noteq> ApprovalStatusPending \<and>
    record_event r n ev a (s\<lparr>s_approvals := mput r (mput (TrimSpace (rv_ApprovalID input)) a
      (approvalsForRootLocked s r)) (s_approvals s)\<rparr>, w) = (Inr a, x)"
proof (cases "requireApprovalLocked s (rv_ApprovalID input)")
  case (Inl e)
  with assms show ?thesis by (simp add: ResolveApproval_def)
next
  case (Inr rb)
  obtain r b where rb: "rb = (r, b)" by (cases rb)
  let ?b = "b\<lparr>a_Status := TrimSpace (rv_Status input),
      a_ApproverID := firstNonEmpty [TrimSpace (rv_ApproverID input), a_ApproverID b],
      a_Resolution := TrimSpace (rv_Resolution input), a_ResolvedAt := Some now\<rparr>"
  let ?ev = "zero_event\<lparr>e_Type := EventApprovalResolved, e_ActorID := a_ApproverID ?b,
      e_TaskID := a_TaskID ?b, e_TargetID := a_ID ?b, e_Summary := a_Status ?b, e_CreatedAt := now\<rparr>"
  have st: "TrimSpace (rv_Status input) \<in> {ApprovalStatusApproved, ApprovalStatusRejected, ApprovalStatusCancelled}"
    and rec: "record_event r (length (mgets (s_events s) r)) ?ev ?b
      (s\<lparr>s_approvals := mput r (mput (TrimSpace (rv_ApprovalID input)) ?b
      (approvalsForRootLocked s r)) (s_approvals s)\<rparr>, w) = (Inr a, x)"
    using assms Inr rb by (simp_all add: ResolveApproval_def Let_def split: if_splits)
  have "a = ?b" by (rule record_event_ok [OF rec])
  moreover have "a_Status ?b \<noteq> ApprovalStatusPending" using st by (auto simp: approval_status_defs)
  ultimately show ?thesis using Inr rb rec by blast
qed

lemma Claim_ok:
  assumes "Claim input now (s, w) = (Inr t, x)"
  shows "\<exists>r t0 n ev. requireTaskLocked s (cl_TaskID input) = Inr (r, t0) \<and>
    t = t0\<lparr>t_Status := StatusInProgress, t_ClaimedBy := TrimSpace (cl_ParticipantID input), t_Error := [],
      t_UpdatedAt := now\<rparr> \<and>
    record_event r n ev t (set_task r (cl_TaskID input) t s, w) = (Inr t, x)"
proof (cases "requireTaskLocked s (cl_TaskID input)")
  case (Inl e)
  with assms show ?thesis by (simp add: Claim_def)
next
  case (Inr rt)
  obtain r t0 where rt: "rt = (r, t0)" by (cases rt)
  let ?t = "t0\<lparr>t_Status := StatusInProgress, t_ClaimedBy := TrimSpace (cl_ParticipantID input), t_Error := [],
      t_UpdatedAt := now\<rparr>"
  let ?ev = "zero_event\<lparr>e_Type := EventTaskClaimed, e_ActorID := TrimSpace (cl_ParticipantID input),
      e_TaskID := t_ID ?t, e_Summary := t_Title ?t, e_CreatedAt := now\<rparr>"
  have rec: "record_event r (length (mgets (s_events s) r)) ?ev ?t
      (set_task r (cl_TaskID input) ?t s, w) = (Inr t, x)"
    using assms Inr rt by (simp add: Claim_def Let_def split: if_splits)
  have "t = ?t" by (rule record_event_ok [OF rec])
  then show ?thesis using Inr rt rec by blast
qed

text \<open>
  An approval is resolved at most once: after a successful \<open>ResolveApproval\<close>, resolving the
  same approval again, by whomever and to whatever status, is refused and changes nothing.
\<close>

theorem ResolveApproval_once:
  assumes "svc_wf s" and "ResolveApproval input now (s, w) = (Inr a, (s', w'))"
    and "TrimSpace (rv_ApprovalID again) = TrimSpace (rv_ApprovalID input)"
  shows "ResolveApproval again later (s', v) = (Inl ErrApprovalAlreadyClosed, (s', v))"
proof -
  let ?i = "TrimSpace (rv_ApprovalID input)"
  from ResolveApproval_ok [OF assms(2)] obtain r b n ev where
    q: "requireApprovalLocked s (rv_ApprovalID input) = Inr (r, b)" and a: "a_Status a \<noteq> ApprovalStatusPending"
    and rec: "record_event r n ev a (s\<lparr>s_approvals := mput r (mput ?i a (approvalsForRootLocked s r))
          (s_approvals s)\<rparr>, w) = (Inr a, (s', w'))" by blast
  from rec have ap: "s_approvals s' = mput r (mput ?i a (approvalsForRootLocked s r)) (s_approvals s)"
    by (rule record_event_cases) simp
  have "find_inner (s_approvals s) ?i = Some (r, b)"
    using q by (auto simp: requireApprovalLocked_def split: option.splits)
  then have "find_inner (s_approvals s') ?i = Some (r, a)"
    using find_inner_update [of "s_approvals s" ?i r b a] assms(1)
    by (simp add: ap svc_wf_def approvalsForRootLocked_def)
  then show ?thesis using a assms(3) by (simp add: ResolveApproval_def requireApprovalLocked_def)
qed

text \<open>
  A claim is exclusive: after a successful \<open>Claim\<close> every further claim of the task is refused
  with an invalid transition, by the same participant or another.
\<close>

theorem Claim_exclusive:
  assumes "svc_wf s" and "ids_ok s" and "Claim input now (s, w) = (Inr t, (s', w'))"
    and "TrimSpace (cl_TaskID again) = TrimSpace (cl_TaskID input)" and "TrimSpace (cl_ParticipantID again) \<noteq> []"
  shows "Claim again later (s', v) = (Inl ErrTransitionInvalid, (s', v)) \<and>
    t_Status t = StatusInProgress \<and> t_ClaimedBy t = TrimSpace (cl_ParticipantID input)"
proof -
  from Claim_ok [OF assms(3)] obtain r t0 n ev where q: "requireTaskLocked s (cl_TaskID input) = Inr (r, t0)"
    and t: "t = t0\<lparr>t_Status := StatusInProgress, t_ClaimedBy := TrimSpace (cl_ParticipantID input), t_Error := [],
             t_UpdatedAt := now\<rparr>"
    and rec: "record_event r n ev t (set_task r (cl_TaskID input) t s, w) = (Inr t, (s', w'))"
    by blast
  let ?s1 = "set_task r (cl_TaskID input) t s"
  have tid: "t_ID t = t_ID t0" by (simp add: t)
  have wf: "svc_wf ?s1" by (rule edits_wf [OF edits_set_task [OF assms(1) q tid]])
  have ids: "ids_ok ?s1" by (rule same_keys_ids_ok [OF same_keys_set_task [OF assms(1) q] assms(2)])
  have "Get ?s1 (cl_TaskID input) = Some t"
    unfolding Get_iff [OF wf ids]
    using q assms(1) by (cases rule: requireTaskLocked_cases)
      (use q in \<open>auto simp: set_task_def svc_views Let_def requireTaskLocked_def split: if_splits\<close>)
  with rec have "Get s' (cl_TaskID input) = Some t" by (elim record_event_cases) simp
  then have "Get s' (cl_TaskID again) = Some t"
    using assms(4) by (simp add: Get_def requireTaskLocked_def)
  then obtain r' where "requireTaskLocked s' (cl_TaskID again) = Inr (r', t)"
    by (auto simp: Get_def split: sum.splits)
  with assms(5) t show ?thesis by (simp add: Claim_def Let_def)
qed

theorem ResolveApproval_once_witness:
  "(let x = RequestApproval \<lparr>ra_TaskID = ''task-1'', ra_RequestedBy = ''bob'', ra_ApproverID = [], ra_Kind = ''shell'',
         ra_Summary = ''run'', ra_Payload = []\<rparr> 8 demo_state;
      i = \<lparr>rv_ApprovalID = ''approval-1'', rv_ApproverID = ''alice'', rv_Status = ''approved'', rv_Resolution = []\<rparr>;
      y = ResolveApproval i 9 (snd x)
    in is_ok (fst x) \<and> is_ok (fst y) \<and>
       ResolveApproval (i\<lparr>rv_Status := ''rejected''\<rparr>) 10 (snd y) = (Inl ErrApprovalAlreadyClosed, snd y))"
proof -
  let ?q = "\<lparr>ra_TaskID = ''task-1'', ra_RequestedBy = ''bob'', ra_ApproverID = [], ra_Kind = ''shell'',
         ra_Summary = ''run'', ra_Payload = []\<rparr>"
  let ?i = "\<lparr>rv_ApprovalID = ''approval-1'', rv_ApproverID = ''alice'', rv_Status = ''approved'', rv_Resolution = []\<rparr>"
  obtain rx sx wx where x: "RequestApproval ?q 8 (fst demo_state, snd demo_state) = (rx, (sx, wx))" by (metis prod_cases3)
  obtain ry sy wy where y: "ResolveApproval ?i 9 (sx, wx) = (ry, (sy, wy))" by (metis prod_cases3)
  have "is_ok (fst (RequestApproval ?q 8 demo_state))"
    "is_ok (fst (ResolveApproval ?i 9 (snd (RequestApproval ?q 8 demo_state))))"
    unfolding demo_state_def by code_simp+
  then have ok: "is_ok rx" "is_ok ry" using x y by simp_all
  then obtain a where a: "ry = Inr a" by (auto elim: is_okE)
  have "event_run (fst demo_state) (snd demo_state) (rx, (sx, wx))"
    using event_run_RequestApproval [OF demo_facts(1), of "snd demo_state" ?q 8] x by simp
  then have "svc_wf sx" using event_run_wf demo_facts(1) by blast
  from ResolveApproval_once [OF this y [unfolded a], of "?i\<lparr>rv_Status := ''rejected''\<rparr>" 10 wy] x y ok show ?thesis
    by (simp add: Let_def)
qed

theorem Claim_exclusive_witness:
  "(let x = Claim \<lparr>cl_TaskID = ''task-1'', cl_ParticipantID = ''bob''\<rparr> 9 demo_state
    in is_ok (fst x) \<and>
       Claim \<lparr>cl_TaskID = ''task-1'', cl_ParticipantID = ''carol''\<rparr> 10 (snd x) = (Inl ErrTransitionInvalid, snd x))"
proof -
  let ?i = "\<lparr>cl_TaskID = ''task-1'', cl_ParticipantID = ''bob''\<rparr>"
  let ?j = "\<lparr>cl_TaskID = ''task-1'', cl_ParticipantID = ''carol''\<rparr>"
  obtain r s' w' where x: "Claim ?i 9 (fst demo_state, snd demo_state) = (r, (s', w'))" by (metis prod_cases3)
  have "is_ok (fst (Claim ?i 9 demo_state))" unfolding demo_state_def by code_simp
  then obtain t where t: "r = Inr t" using x by (auto elim: is_okE)
  have "TrimSpace (cl_ParticipantID ?j) \<noteq> []" by code_simp
  from Claim_exclusive [OF demo_facts(1,2) x [unfolded t] _ this, of 10 w'] x t show ?thesis
    by (simp add: Let_def)
qed

text \<open>
  How the record is written: the events of a snapshot enter it only through their last sequence
  number, so that a snapshot whose earlier events were never journalled is saved all the same.
\<close>

lemma SaveSnapshot_events_cong:
  assumes "latestEventSeq es = latestEventSeq (sn_Events sn)"
  shows "SaveSnapshot (sn\<lparr>sn_Events := es\<rparr>) new = SaveSnapshot sn new"
proof -
  have "record_of (sn\<lparr>sn_Events := es\<rparr>) = record_of sn" using assms by (simp add: record_of_def)
  then have "recordFromSnapshot (sn\<lparr>sn_Events := es\<rparr>) = recordFromSnapshot sn"
    by (simp add: recordFromSnapshot_alt)
  then show ?thesis by (simp add: SaveSnapshot_def Let_def)
qed

lemma latestEventSeq_last:
  "\<forall>e \<in> set es. e_Seq e \<le> e_Seq l \<Longrightarrow> 0 \<le> e_Seq l \<Longrightarrow> latestEventSeq (es @ [l]) = e_Seq l"
  using latestEventSeq_le [of "es @ [l]" "e_Seq l"] latestEventSeq_ge [of l "es @ [l]"] by force

text \<open>What an operation that records an event does to the history of a root, if it changes it.\<close>

lemma event_shape_history:
  assumes "event_shape s w res s' w'" and "mgets (s_events s') r \<noteq> mgets (s_events s) r"
    and "0 \<le> s_nextSeq s" and "s_nextSeq s < int64_max"
  obtains e s1 ev x where "edits r s s1" and "s' = appendEventLocked r ev s1"
    and "mgets (s_events s') r = mgets (s_events s) r @ [e]" and "e_Seq e = s_nextSeq s + 1"
    and "s_nextSeq s' = s_nextSeq s + 1"
    and "persistRootLocked r (length (mgets (s_events s) r)) s' w = (x, w')" and "is_ok res = is_ok x"
proof -
  from assms(1,2) obtain q s1 ev x where h: "edits q s s1" "s' = appendEventLocked q ev s1"
    "persistRootLocked q (length (mgets (s_events s) q)) s' w = (x, w')" "is_ok res = is_ok x"
    unfolding event_shape_def by blast
  from h(1) obtain t where t: "mget (s_roots s1) q = Some t" "s_nextSeq s1 = s_nextSeq s" "s_events s1 = s_events s"
    by (auto simp: edits_def)
  obtain e where e: "appendEventLocked q ev s1 = s1\<lparr>s_nextSeq := s_nextSeq s1 + 1,
      s_events := mput q (mgets (s_events s1) q @ [e]) (s_events s1)\<rparr>" "e_Seq e = s_nextSeq s1 + 1"
    using appendEventLocked_cases [OF t(1), of ev] assms(3,4) t(2) by metis
  have "q = r" using assms(2) h(2) e(1) t(3) by (cases "q = r") simp_all
  with h e t show ?thesis by (intro that [of s1 ev e x]) simp_all
qed

text \<open>
  C10. The operations that keep their change in memory when the save fails lose an event. Let
  memory and files agree, let an operation that does not roll back (a claim, completion, failure,
  block, room binding or approval) fail in its save, so that it reports an error although the
  history of task \<open>r\<close> grew in memory, and let a second such operation on the task succeed. Then the
  files load back as the memory after the second operation, except that the event of the first is
  missing from the history for good.
\<close>

theorem failed_save_loses_event:
  assumes "synced s w" and "svc_wf s" and "s_nextSeq s + 2 \<le> int64_max"
    and "\<not> rolls_back p" and "exec p (s, w) = (Inl err, (s1, w1))" and "mgets (s_events s1) r \<noteq> mgets (s_events s) r"
    and "\<not> rolls_back q" and "exec q (s1, w1) = (Inr (), (s2, w2))" and "mgets (s_events s2) r \<noteq> mgets (s_events s1) r"
  shows "\<exists>lost new. mgets (s_events s2) r = mgets (s_events s) r @ [lost, new] \<and>
    fst (LoadRoot r (disk w2)) = Inr ((snapshotLocked s2 r)\<lparr>sn_Events := mgets (s_events s) r @ [new]\<rparr>) \<and>
    lost \<notin> set (mgets (s_events s) r @ [new])"
proof -
  let ?es = "mgets (s_events s) r"
  have pos: "0 \<le> s_nextSeq s" "s_store s" using assms(1) by (simp_all add: synced_def)
  have sh: "event_shape s w (Inl err) s1 w1" by (rule exec_event_shape [OF assms(5,4,2)])
  have eff: "svc_wf s1" "synced s w1"
    using exec_event_run [OF assms(5,4,2)] assms(1,3) by (simp_all add: event_effect_def)
  from sh assms(6) pos(1) obtain lost sa ea x where h1: "edits r s sa" "s1 = appendEventLocked r ea sa"
    "mgets (s_events s1) r = ?es @ [lost]" "e_Seq lost = s_nextSeq s + 1" "s_nextSeq s1 = s_nextSeq s + 1"
    by (rule event_shape_history) (use assms(3) in auto)
  have sh2: "event_shape s1 w1 (Inr ()) s2 w2" by (rule exec_event_shape [OF assms(8,7) eff(1)])
  from sh2 assms(9) obtain new sb eb y where h2: "edits r s1 sb" "s2 = appendEventLocked r eb sb"
    "mgets (s_events s2) r = (?es @ [lost]) @ [new]" "e_Seq new = s_nextSeq s1 + 1"
    "persistRootLocked r (length (?es @ [lost])) s2 w1 = (y, w2)" "is_ok (Inr () :: error + unit) = is_ok y"
    by (rule event_shape_history) (use assms(3) pos(1) h1 in auto)
  have y: "is_ok y" using h2(6) by simp
  have st: "s_store s2" using h1 h2(1,2) pos(2) by (simp add: edits_def)
  have le: "e_Seq e \<le> s_nextSeq s" if "e \<in> set ?es" for e using that synced_events_le [OF assms(1)] by blast
  let ?sn = "(snapshotLocked s2 r)\<lparr>sn_Events := ?es @ [new]\<rparr>"
  have "latestEventSeq (?es @ [new]) = e_Seq new" "latestEventSeq ((?es @ [lost]) @ [new]) = e_Seq new"
    using le h1(4,5) h2(4) pos(1) by (intro latestEventSeq_last; force)+
  then have "SaveSnapshot ?sn [new] = SaveSnapshot (snapshotLocked s2 r) [new]"
    by (intro SaveSnapshot_events_cong) (simp add: h2(3))
  then have save: "SaveSnapshot ?sn [new] w1 = (y, w2)"
    using h2(5) st by (simp add: persistRootLocked_def h2(3))
  obtain root where root: "mget (s_roots s2) r = Some root" and "svc_wf s2"
    using h2(1,2) exec_event_run [OF assms(8,7) eff(1)] by (auto simp: edits_def event_effect_def)
  then have id: "t_ID (sn_Root ?sn) = r" "trimmed r" "r \<noteq> []"
    using svc_wf_root [of s2 r root] by (simp_all add: sn_Root_snapshotLocked)
  have c1: "committed w1 r ?es" by (rule synced_committed [OF eff(2) assms(2)])
  have sq: "seq_ok (?es @ [new])"
    using committed_journal [OF c1] le h1(4,5) h2(4) pos(1) by (force simp: seq_ok_def sorted_wrt_append)
  from SaveSnapshot_effect [OF save id(1) [symmetric] c1 _ sq] y
  have E: "mget (w_tasks w2) r = Some (Json (record_of ?sn))" "committed w2 r (?es @ [new])"
    "is_ok (snapshotFromRecord r (record_of ?sn))" by simp_all
  then obtain sn' where sn': "snapshotFromRecord r (record_of ?sn) = Inr sn'" by (auto elim: is_okE)
  have srt: "sort_key t_ID (sn_Children (snapshotLocked s2 r)) = sn_Children (snapshotLocked s2 r)"
    using canonical_snapshotLocked [OF \<open>svc_wf s2\<close>] by (simp add: canonical_def)
  have "sn'\<lparr>sn_Events := ?es @ [new]\<rparr> = ?sn"
    using snapshotFromRecord_record_of [of ?sn sn' "?es @ [new]"] sn' id srt by simp
  then have "fst (LoadRoot r (disk w2)) = Inr ?sn"
    using LoadRoot_committed [of "disk w2" r "?es @ [new]"] E id sn' by (simp add: durable_def)
  moreover have "lost \<notin> set (?es @ [new])" using le [of lost] h1(4,5) h2(4) by auto
  ultimately show ?thesis using h2(3) by auto
qed

theorem failed_save_loses_event_witness:
  "(let p = OClaim \<lparr>cl_TaskID = ''task-1'', cl_ParticipantID = ''bob''\<rparr> 9;
      q = OComplete \<lparr>co_TaskID = ''task-1'', co_ActorID = ''bob'', co_Result = ''ok''\<rparr> 10;
      x = snd (exec p (fst demo_state, (snd demo_state)\<lparr>w_faults := [FailBefore]\<rparr>));
      y = snd (exec q x)
    in \<exists>lost new. mgets (s_events (fst y)) ''task-1'' = mgets (s_events (fst demo_state)) ''task-1'' @ [lost, new] \<and>
       fst (LoadRoot ''task-1'' (disk (snd y))) =
         Inr ((snapshotLocked (fst y) ''task-1'')\<lparr>sn_Events := mgets (s_events (fst demo_state)) ''task-1'' @ [new]\<rparr>) \<and>
       lost \<notin> set (mgets (s_events (fst demo_state)) ''task-1'' @ [new]))"
proof -
  let ?p = "OClaim \<lparr>cl_TaskID = ''task-1'', cl_ParticipantID = ''bob''\<rparr> 9"
  let ?q = "OComplete \<lparr>co_TaskID = ''task-1'', co_ActorID = ''bob'', co_Result = ''ok''\<rparr> 10"
  let ?w = "(snd demo_state)\<lparr>w_faults := [FailBefore]\<rparr>"
  let ?x = "exec ?p (fst demo_state, ?w)"
  let ?y = "exec ?q (snd ?x)"
  have syn: "synced (fst demo_state) ?w" by (rule synced_world [OF _ _ demo_facts(3)]) simp_all
  have n: "s_nextSeq (fst demo_state) + 2 \<le> int64_max" using demo_values(2) by simp
  have f: "fst ?x = Inl ErrIO" unfolding demo_state_def by code_simp
  have g: "fst ?y = Inr ()" unfolding demo_state_def by code_simp
  have l: "length (mgets (s_events (fst demo_state)) ''task-1'') = 1"
    unfolding demo_state_def by code_simp
  have l1: "length (mgets (s_events (fst (snd ?x))) ''task-1'') = 2" unfolding demo_state_def by code_simp
  have l2: "length (mgets (s_events (fst (snd ?y))) ''task-1'') = 3" unfolding demo_state_def by code_simp
  have x: "?x = (Inl ErrIO, (fst (snd ?x), snd (snd ?x)))" using f by (simp add: prod_eq_iff)
  have y: "exec ?q (fst (snd ?x), snd (snd ?x)) = (Inr (), (fst (snd ?y), snd (snd ?y)))"
    using g by (simp add: prod_eq_iff)
  have "mgets (s_events (fst (snd ?x))) ''task-1'' \<noteq> mgets (s_events (fst demo_state)) ''task-1''"
    "mgets (s_events (fst (snd ?y))) ''task-1'' \<noteq> mgets (s_events (fst (snd ?x))) ''task-1''"
    using l l1 l2 by auto
  from failed_save_loses_event [OF syn demo_facts(1) n _ x this(1) _ y this(2)] show ?thesis
    by (simp only: Let_def rolls_back.simps not_False_eq_True simp_thms)
qed

text \<open>
  C11. An aggregate without events, such as one migrated from the legacy layout, rejects every
  transaction that appends an event: its history is the nil slice, and the empty prefix of the
  appended slice is not deeply equal to it.
\<close>

theorem Mutate_no_events:
  assumes "requireTaskLocked s taskID = Inr (r, t)" and "mgets (s_events s) r = []"
    and "change (snapshotLocked s r) (s_taskIDs s, w) = (Inr (next, v), (a, w1))" and "sn_Events next \<noteq> []"
  shows "\<exists>e. Mutate taskID change clock (s, w) = (Inl e, (s\<lparr>s_taskIDs := a\<rparr>, w1))"
proof -
  have "\<not> is_ok (validate_change (s\<lparr>s_taskIDs := a\<rparr>) r (snapshotLocked s r) next)"
    using validate_change_Inr [of "s\<lparr>s_taskIDs := a\<rparr>" r "snapshotLocked s r" "next"] assms(2,4)
    by (auto simp: events_extend_iff elim!: is_okE)
  then obtain e where "validate_change (s\<lparr>s_taskIDs := a\<rparr>) r (snapshotLocked s r) next = Inl e"
    by (cases "validate_change (s\<lparr>s_taskIDs := a\<rparr>) r (snapshotLocked s r) next") auto
  with assms(1,3) show ?thesis by (simp add: Mutate_def Let_def)
qed

theorem Mutate_no_events_witness:
  "(let s = (fst demo_state)\<lparr>s_events := []\<rparr>
    in requireTaskLocked s ''task-1'' = Inr (''task-1'', new_root demo_root 7 ''task-1'') \<and>
       (\<exists>e. Mutate ''task-1'' (\<lambda>sn x. (Inr (sn\<lparr>sn_Events := sn_Events sn @ [zero_event]\<rparr>, ()), x)) (\<lambda>_. 9)
         (s, snd demo_state) = (Inl e, (s, snd demo_state))))"
proof -
  let ?s = "(fst demo_state)\<lparr>s_events := []\<rparr>"
  let ?ch = "\<lambda>sn x. (Inr (sn\<lparr>sn_Events := sn_Events sn @ [zero_event]\<rparr>, ()), x)"
  have r: "requireTaskLocked ?s ''task-1'' = Inr (''task-1'', new_root demo_root 7 ''task-1'')"
    unfolding demo_state_def by code_simp
  have "?s\<lparr>s_taskIDs := s_taskIDs ?s\<rparr> = ?s" by simp
  with Mutate_no_events [OF r, of ?ch "snd demo_state" _ _ _ _ "\<lambda>_. 9"] r show ?thesis by (auto simp: Let_def)
qed

end
