(* ===== verification/RoomTask.thy ===== *)
theory RoomTask
  imports TaskProps
begin

section \<open>Room tasks (\<open>internal/roomtask\<close>)\<close>

text \<open>
  The coordination of room work over the shared task aggregate: a manager plans a parent task
  into worker children, dispatches them, reviews their results and reports the parent. Each
  operation runs a callback in one transaction (\<open>Mutate\<close>) and then replays the pending
  notifications. The callbacks are functions on snapshots; the operations are functions on the
  room service, the task service and the files.

  The room roster and the delivery of a message are outside the package: the roster is the
  parameter \<open>roster\<close>, and the outcomes of the next deliveries are the list \<open>rs_sends\<close>
  (exhausted: every delivery succeeds); what was delivered is \<open>rs_sent\<close>. One callback reads the
  clock within one transaction, as the instant \<open>now\<close>. The task that \<open>UpdateExecution\<close> and
  \<open>Report\<close> return beside the error is a \<open>RoomGet\<close> on the final state and is left out.
\<close>

definition EventDispatched :: string where "EventDispatched = ''task.dispatched''"
definition EventFeedback :: string where "EventFeedback = ''task.feedback''"
definition EventReported :: string where "EventReported = ''task.reported''"
definition EventPlanned :: string where "EventPlanned = ''task.planned''"
definition EventExtended :: string where "EventExtended = ''task.plan_extended''"
definition EventReviewed :: string where "EventReviewed = ''task.reviewed''"

text \<open>The constant texts of the notifications, as UTF-8 bytes.\<close>

definition msg_assigned :: string where
  "msg_assigned =
     [CHR 0xE5, CHR 0xB7, CHR 0xB2, CHR 0xE5, CHR 0x88, CHR 0x86, CHR 0xE9, CHR 0x85, CHR 0x8D,
      CHR 0xE4, CHR 0xBB, CHR 0xBB, CHR 0xE5, CHR 0x8A, CHR 0xA1, CHR 0xEF, CHR 0xBC, CHR 0x9A]"

definition msg_updated :: string where
  "msg_updated =
     [CHR 0xE4, CHR 0xBB, CHR 0xBB, CHR 0xE5, CHR 0x8A, CHR 0xA1, CHR 0xE7, CHR 0x8A, CHR 0xB6,
      CHR 0xE6, CHR 0x80, CHR 0x81, CHR 0xE5, CHR 0xB7, CHR 0xB2, CHR 0xE6, CHR 0x9B, CHR 0xB4,
      CHR 0xE6, CHR 0x96, CHR 0xB0, CHR 0xEF, CHR 0xBC, CHR 0x8C, CHR 0xE7, CHR 0xAD, CHR 0x89,
      CHR 0xE5, CHR 0xBE, CHR 0x85, CHR 0x20, CHR 0x4D, CHR 0x61, CHR 0x6E, CHR 0x61, CHR 0x67,
      CHR 0x65, CHR 0x72, CHR 0x20, CHR 0xE5, CHR 0xA4, CHR 0x84, CHR 0xE7, CHR 0x90, CHR 0x86,
      CHR 0xEF, CHR 0xBC, CHR 0x9A]"

definition msg_planned :: string where
  "msg_planned =
     [CHR 0xE5, CHR 0xB7, CHR 0xB2, CHR 0xE8, CHR 0xAE, CHR 0xB0, CHR 0xE5, CHR 0xBD, CHR 0x95,
      CHR 0xE4, CHR 0xBB, CHR 0xBB, CHR 0xE5, CHR 0x8A, CHR 0xA1, CHR 0xE8, CHR 0xAE, CHR 0xA1,
      CHR 0xE5, CHR 0x88, CHR 0x92, CHR 0xEF, CHR 0xBC, CHR 0x9A]"

definition msg_extended :: string where
  "msg_extended =
     [CHR 0xE5, CHR 0xB7, CHR 0xB2, CHR 0xE8, CHR 0xA1, CHR 0xA5, CHR 0xE5, CHR 0x85, CHR 0x85,
      CHR 0xE5, CHR 0xAD, CHR 0x90, CHR 0xE4, CHR 0xBB, CHR 0xBB, CHR 0xE5, CHR 0x8A, CHR 0xA1,
      CHR 0xEF, CHR 0xBC, CHR 0x9A]"

definition msg_default_extension :: string where
  "msg_default_extension =
     [CHR 0xE5, CHR 0xB7, CHR 0xB2, CHR 0xE8, CHR 0xA1, CHR 0xA5, CHR 0xE5, CHR 0x85, CHR 0x85,
      CHR 0xE5, CHR 0x90, CHR 0x8E, CHR 0xE7, CHR 0xBB, CHR 0xAD, CHR 0xE5, CHR 0xAD, CHR 0x90,
      CHR 0xE4, CHR 0xBB, CHR 0xBB, CHR 0xE5, CHR 0x8A, CHR 0xA1]"

definition middle_dot :: string where
  "middle_dot =
     [CHR 0x20, CHR 0xC2, CHR 0xB7, CHR 0x20]"

record Roster =
  ro_RoomID :: string
  ro_ManagerID :: string
  ro_WorkerIDs :: "string list"

record Projection =
  pj_ID :: string
  pj_RoomID :: string
  pj_TaskID :: string
  pj_SenderID :: string
  pj_TargetID :: string
  pj_Kind :: string
  pj_Title :: string
  pj_Content :: string
  pj_Attempt :: int

record RoomService =
  rs_closing :: "string list"
  rs_hasSend :: bool
  rs_sends :: "bool list"
  rs_sent :: "Projection list"

record PlanItem =
  pi_IDRef :: string
  pi_Title :: string
  pi_Body :: string
  pi_AssignedTo :: string
  pi_DependsOnRefs :: "string list"

type_synonym roster_fn = "string \<Rightarrow> Roster option"
type_synonym room_state = "RoomService \<times> svc_state"
type_synonym 'a room = "(room_state, error, 'a) sm"

text \<open>
  The replay of notifications calls itself as long as it finds new work. Those functions carry
  fuel: \<open>None\<close> is running out of it.
\<close>

type_synonym 'a froom = "room_state \<Rightarrow> ((error + 'a) \<times> room_state) option"

definition run_room :: "'a room \<Rightarrow> 'a froom" where
  "run_room m = (\<lambda>x. Some (m x))"

definition out_of_fuel :: "'a froom" where
  "out_of_fuel = (\<lambda>x. None)"

definition bindF :: "'a froom \<Rightarrow> ('a \<Rightarrow> 'b froom) \<Rightarrow> 'b froom" where
  "bindF m k = (\<lambda>x. case m x of None \<Rightarrow> None
     | Some (Inl e, y) \<Rightarrow> Some (Inl e, y)
     | Some (Inr a, y) \<Rightarrow> k a y)"

definition on_core :: "'a svc \<Rightarrow> 'a room" where
  "on_core m = (\<lambda>(rs, x). case m x of (r, y) \<Rightarrow> (r, (rs, y)))"

subsection \<open>Reading\<close>

definition first :: "string \<Rightarrow> string \<Rightarrow> string" where
  "first a b = (if a \<noteq> [] then a else b)"

definition RoomList :: "Service \<Rightarrow> string \<Rightarrow> Task list" where
  "RoomList s roomID =
     filter (\<lambda>t. t_AssignmentType t = AssignmentTypeRoom \<and> (roomID = [] \<or> t_RoomID t = roomID)) (ListGlobal s)"

definition RoomGet :: "Service \<Rightarrow> string \<Rightarrow> string \<Rightarrow> Task option" where
  "RoomGet s roomID i =
     (case Get s i of
        Some t \<Rightarrow> if t_AssignmentType t = AssignmentTypeRoom \<and> t_RoomID t = roomID then Some t else None
      | None \<Rightarrow> None)"

definition Resolve :: "Service \<Rightarrow> string \<Rightarrow> Task option" where
  "Resolve s i =
     (case Get s i of
        Some t \<Rightarrow> if t_AssignmentType t = AssignmentTypeRoom then Some t else None
      | None \<Rightarrow> None)"

definition members :: "roster_fn \<Rightarrow> string \<Rightarrow> error + Roster" where
  "members roster room =
     (case roster room of
        None \<Rightarrow> Inl (ErrText ''collaboration room or manager unavailable'')
      | Some r \<Rightarrow>
          if ro_RoomID r \<noteq> room \<or> ro_ManagerID r = []
          then Inl (ErrText ''collaboration room or manager unavailable'')
          else Inr r)"

definition worker :: "Roster \<Rightarrow> string \<Rightarrow> bool" where
  "worker r i \<longleftrightarrow> i \<noteq> [] \<and> i \<noteq> ro_ManagerID r \<and> i \<in> set (ro_WorkerIDs r)"

definition Terminal :: "string \<Rightarrow> bool" where
  "Terminal status \<longleftrightarrow> status = StatusCompleted \<or> status = StatusFailed \<or> status = StatusCancelled"

definition running :: "Task \<Rightarrow> bool" where
  "running t \<longleftrightarrow> t_Status t = StatusInProgress \<or> t_Status t = StatusAssigned \<and> t_DispatchedAt t \<noteq> None"

definition firstParent :: "Task list \<Rightarrow> string \<Rightarrow> string" where
  "firstParent tasks room =
     (case sort_key (\<lambda>t. (t_CreatedAt t, t_ID t))
             (filter (\<lambda>t. t_RoomID t = room \<and> t_ParentID t = [] \<and> \<not> Terminal (t_Status t)) tasks) of
        [] \<Rightarrow> []
      | t # _ \<Rightarrow> t_ID t)"

definition eventID :: "string \<Rightarrow> int \<Rightarrow> string" where
  "eventID root seq = ''task:'' @ root @ '':event:'' @ dec_of_int seq"

subsection \<open>Editing a snapshot\<close>

definition appendEvent :: "string \<Rightarrow> Task \<Rightarrow> string \<Rightarrow> string \<Rightarrow> time \<Rightarrow> Snapshot \<Rightarrow> Snapshot" where
  "appendEvent kind t actor summary now a =
     a\<lparr>sn_Events := sn_Events a @ [zero_event\<lparr>e_Type := kind, e_TaskID := t_ID t,
        e_TargetID := t_AssignedTo t, e_ActorID := actor, e_Summary := summary,
        e_Attempt := t_Attempt t, e_CreatedAt := now\<rparr>]\<rparr>"

definition feedback :: "Roster \<Rightarrow> Task \<Rightarrow> string \<Rightarrow> time \<Rightarrow> Snapshot \<Rightarrow> Snapshot" where
  "feedback r t summary now a =
     a\<lparr>sn_Events := sn_Events a @ [zero_event\<lparr>e_Type := EventFeedback, e_TaskID := t_ID t,
        e_TargetID := ro_ManagerID r, e_ActorID := t_AssignedTo t, e_Summary := summary,
        e_Attempt := t_Attempt t, e_CreatedAt := now\<rparr>]\<rparr>"

definition child :: "Snapshot \<Rightarrow> string \<Rightarrow> Task option" where
  "child a i = find (\<lambda>t. t_ID t = i) (sn_Children a)"

text \<open>Writing through the pointer that \<open>child\<close> returned.\<close>

fun replace_first :: "string \<Rightarrow> Task \<Rightarrow> Task list \<Rightarrow> Task list" where
  "replace_first i t [] = []"
| "replace_first i t (c # cs) = (if t_ID c = i then t # cs else c # replace_first i t cs)"

definition set_child :: "string \<Rightarrow> Task \<Rightarrow> Snapshot \<Rightarrow> Snapshot" where
  "set_child i t a = a\<lparr>sn_Children := replace_first i t (sn_Children a)\<rparr>"

text \<open>
  A loop over all children that changes those with \<open>p\<close> by \<open>f\<close> and appends an event for each.
\<close>

definition sweep :: "(Task \<Rightarrow> bool) \<Rightarrow> (Task \<Rightarrow> Task) \<Rightarrow> (Task \<Rightarrow> Snapshot \<Rightarrow> Snapshot) \<Rightarrow> Snapshot \<Rightarrow> Snapshot" where
  "sweep p f ev a =
     foldl (\<lambda>a c. ev (f c) a) (a\<lparr>sn_Children := map (\<lambda>c. if p c then f c else c) (sn_Children a)\<rparr>)
       (filter p (sn_Children a))"

definition dependenciesReady :: "Snapshot \<Rightarrow> Task \<Rightarrow> bool" where
  "dependenciesReady a t =
     list_all (\<lambda>i. case child a i of None \<Rightarrow> False | Some dep \<Rightarrow> t_Status dep = StatusCompleted) (t_DependsOn t)"

text \<open>A callback that draws no ID.\<close>

type_synonym edit = "Roster \<Rightarrow> Task list \<Rightarrow> Snapshot \<Rightarrow> error + Snapshot"

definition pure_edit :: "edit \<Rightarrow> Roster \<Rightarrow> Task list \<Rightarrow> unit change" where
  "pure_edit f r tasks a x = (map_sum id (\<lambda>b. (b, ())) (f r tasks a), x)"

subsection \<open>Validating a plan\<close>

definition plan_refs :: "PlanItem list \<Rightarrow> Roster \<Rightarrow> (string, PlanItem) gomap \<Rightarrow> error + (string, PlanItem) gomap" where
  "plan_refs items roster refs0 =
     foldl (\<lambda>acc item. case acc of Inl e \<Rightarrow> Inl e | Inr refs \<Rightarrow>
         if TrimSpace (pi_IDRef item) = [] \<or> TrimSpace (pi_Title item) = [] \<or> \<not> worker roster (pi_AssignedTo item)
         then Inl (ErrText ''each task needs id_ref, title and an assigned_to from current room workers'')
         else if mget refs (pi_IDRef item) \<noteq> None then Inl (ErrText ''duplicate id_ref'')
         else Inr (mput (pi_IDRef item) item refs)) (Inr refs0) items"

text \<open>
  The depth-first search. \<open>visiting\<close> is set on entry and reset on success, so it is the path of
  the current call; \<open>visited\<close> (\<open>done\<close> in the source) grows.
\<close>

function (sequential) visit ::
    "(string, PlanItem) gomap \<Rightarrow> string list \<Rightarrow> string list \<Rightarrow> string \<Rightarrow> error + string list"
  and visit_all ::
    "(string, PlanItem) gomap \<Rightarrow> string list \<Rightarrow> string list \<Rightarrow> string list \<Rightarrow> error + string list" where
  "visit refs visiting visited ref =
     (if ref \<in> set visiting then Inl (ErrText ''cyclic task dependency'')
      else if ref \<in> set visited then Inr visited
      else case mget refs ref of
        None \<Rightarrow> Inl (ErrText ''unknown dependency'')
      | Some item \<Rightarrow>
          (case visit_all refs (ref # visiting) visited (pi_DependsOnRefs item) of
             Inl e \<Rightarrow> Inl e
           | Inr visited' \<Rightarrow> Inr (ref # visited')))"
| "visit_all refs visiting visited [] = Inr visited"
| "visit_all refs visiting visited (d # ds) =
     (case visit refs visiting visited d of
        Inl e \<Rightarrow> Inl e
      | Inr visited' \<Rightarrow> visit_all refs visiting visited' ds)"
  by pat_completeness auto
termination
proof (relation "measures [\<lambda>x. case x of
      Inl (refs, visiting, visited, ref) \<Rightarrow> card (fst ` set refs - set visiting)
    | Inr (refs, visiting, visited, ds) \<Rightarrow> card (fst ` set refs - set visiting),
    \<lambda>x. case x of Inl _ \<Rightarrow> 0 | Inr (refs, visiting, visited, ds) \<Rightarrow> Suc (length ds)]", goal_cases)
  case 1
  show ?case by simp
next
  case (2 refs visiting visited ref item)
  then have "ref \<in> fst ` set refs - set visiting" by (auto dest: mget_key)
  moreover have "fst ` set refs - set (ref # visiting) = (fst ` set refs - set visiting) - {ref}" by auto
  ultimately have "card (fst ` set refs - set (ref # visiting)) < card (fst ` set refs - set visiting)"
    by (simp add: card_Diff1_less del: card_Diff_insert)
  then show ?case by simp
qed simp_all

declare visit.simps [simp del]

definition validatePlan :: "PlanItem list \<Rightarrow> Roster \<Rightarrow> Task list \<Rightarrow> error + unit" where
  "validatePlan items roster existing =
     (if items = [] then Inl (ErrText ''tasks must contain at least one concrete worker subtask'')
      else case plan_refs items roster
             (foldl (\<lambda>m t. mput (t_ID t) \<lparr>pi_IDRef = t_ID t, pi_Title = [], pi_Body = [], pi_AssignedTo = [],
                pi_DependsOnRefs = []\<rparr> m) [] existing) of
        Inl e \<Rightarrow> Inl e
      | Inr refs \<Rightarrow>
          (case visit_all refs [] [] (map fst refs) of
             Inl e \<Rightarrow> Inl e
           | Inr _ \<Rightarrow> Inr ()))"

subsection \<open>The callbacks\<close>

fun allocate_ids :: "PlanItem list \<Rightarrow> (string, string) gomap \<Rightarrow> (alloc_state, error, (string, string) gomap) sm" where
  "allocate_ids [] ids = returnE ids"
| "allocate_ids (item # items) ids =
     bindE Next (\<lambda>v. allocate_ids items (mput (pi_IDRef item) v ids))"

definition ref_id :: "(string, string) gomap \<Rightarrow> string \<Rightarrow> string" where
  "ref_id ids ref = (case mget ids ref of None \<Rightarrow> [] | Some v \<Rightarrow> v)"

definition plan_task :: "string \<Rightarrow> string \<Rightarrow> Roster \<Rightarrow> time \<Rightarrow> (string, string) gomap \<Rightarrow> Task \<Rightarrow> nat \<Rightarrow> PlanItem \<Rightarrow> Task" where
  "plan_task room i r now ids root priority item = zero_task\<lparr>
     t_ID := ref_id ids (pi_IDRef item), t_ParentID := i,
     t_AssignmentType := t_AssignmentType root, t_AssignmentID := t_AssignmentID root,
     t_RoomID := room, t_ExecutionChannel := ''csgclaw'', t_Title := TrimSpace (pi_Title item),
     t_Body := pi_Body item, t_AssignedTo := pi_AssignedTo item, t_CreatedBy := ro_ManagerID r,
     t_Status := StatusPending, t_Priority := int priority, t_CreatedAt := now, t_UpdatedAt := now,
     t_DependsOn := map (ref_id ids) (pi_DependsOnRefs item)\<rparr>"

fun add_plan_tasks ::
    "string \<Rightarrow> string \<Rightarrow> Roster \<Rightarrow> time \<Rightarrow> (string, string) gomap \<Rightarrow> PlanItem list \<Rightarrow> Snapshot \<Rightarrow> Snapshot" where
  "add_plan_tasks room i r now ids [] a = a"
| "add_plan_tasks room i r now ids (item # items) a =
     (let t = plan_task room i r now ids (sn_Root a) (length (item # items)) item
      in add_plan_tasks room i r now ids items
           (appendEvent EventTaskCreated t (ro_ManagerID r) (t_Title t) now
             (a\<lparr>sn_Children := sn_Children a @ [t]\<rparr>)))"

definition Plan_fn ::
    "string \<Rightarrow> string \<Rightarrow> string \<Rightarrow> PlanItem list \<Rightarrow> bool \<Rightarrow> time \<Rightarrow> Roster \<Rightarrow> Task list \<Rightarrow> unit change" where
  "Plan_fn room i summary items autoStart now r tasks a =
     (if t_ID (sn_Root a) \<noteq> i \<or> Terminal (t_Status (sn_Root a)) \<or> t_Status (sn_Root a) = StatusStopping
      then throwE (ErrText ''only a manager parent task can be planned'')
      else case validatePlan items r [] of
        Inl e \<Rightarrow> throwE e
      | Inr _ \<Rightarrow>
      if sn_Children a \<noteq> [] then throwE (ErrText ''task already planned; inspect existing tasks'')
      else bindE (allocate_ids items []) (\<lambda>ids.
        let a1 = add_plan_tasks room i r now ids items a;
            root1 = (sn_Root a1)\<lparr>t_PlanSummary := summary, t_UpdatedAt := now\<rparr>;
            root2 = (if autoStart \<and> firstParent tasks room = i
                     then root1\<lparr>t_Status := StatusInProgress\<rparr> else root1);
            a2 = a1\<lparr>sn_Root := root2\<rparr>
        in returnE (appendEvent EventPlanned root2 (ro_ManagerID r) (first summary (t_Title root2)) now a2, ())))"

definition AppendPlan_fn ::
    "string \<Rightarrow> string \<Rightarrow> string \<Rightarrow> string \<Rightarrow> string \<Rightarrow> PlanItem list \<Rightarrow> time \<Rightarrow> Roster \<Rightarrow> Task list \<Rightarrow> unit change" where
  "AppendPlan_fn room i requestID hash summary items now r tasks a =
     (if t_ID (sn_Root a) \<noteq> i then throwE (ErrText ''append requires the existing parent task'')
      else case find (\<lambda>e. e_Type e = EventExtended \<and> e_RequestID e = requestID) (sn_Events a) of
        Some e \<Rightarrow>
          if e_RequestHash e \<noteq> hash
          then throwE (ErrText ''request_id already used for a different plan extension'')
          else returnE (a, ())
      | None \<Rightarrow>
      if Terminal (t_Status (sn_Root a)) \<or> t_Status (sn_Root a) = StatusStopping \<or> sn_Children a = []
      then throwE (ErrText ''append requires an unfinished, already planned parent'')
      else case validatePlan items r (sn_Children a) of
        Inl e \<Rightarrow> throwE e
      | Inr _ \<Rightarrow>
        bindE (allocate_ids items (foldl (\<lambda>m t. mput (t_ID t) (t_ID t) m) [] (sn_Children a))) (\<lambda>ids.
          let a1 = add_plan_tasks room i r now ids items a;
              root1 = (if t_Status (sn_Root a1) = StatusReview
                       then (sn_Root a1)\<lparr>t_Status := StatusInProgress\<rparr> else sn_Root a1);
              a2 = a1\<lparr>sn_Root := root1\<lparr>t_UpdatedAt := now\<rparr>\<rparr>
          in returnE (a2\<lparr>sn_Events := sn_Events a2 @ [zero_event\<lparr>e_Type := EventExtended, e_TaskID := i,
               e_ActorID := ro_ManagerID r, e_Summary := first summary msg_default_extension,
               e_RequestID := requestID, e_RequestHash := hash, e_CreatedAt := now\<rparr>]\<rparr>, ())))"

definition Start_fn :: "string \<Rightarrow> string \<Rightarrow> edit" where
  "Start_fn room i r tasks a =
     (if t_ID (sn_Root a) \<noteq> i \<or> Terminal (t_Status (sn_Root a)) \<or> t_Status (sn_Root a) = StatusStopping \<or>
         sn_Children a = []
      then Inl (ErrText ''a planned parent is required'')
      else if firstParent tasks room \<noteq> i
      then Inl (ErrText ''another parent task is ahead in the room queue'')
      else if t_Status (sn_Root a) = StatusQueued
      then Inr (a\<lparr>sn_Root := (sn_Root a)\<lparr>t_Status := StatusInProgress\<rparr>\<rparr>)
      else Inr a)"

definition Dispatch_fn :: "string \<Rightarrow> string \<Rightarrow> string \<Rightarrow> time \<Rightarrow> edit" where
  "Dispatch_fn room i assignee0 now r tasks a =
     (case child a i of
        None \<Rightarrow> Inl (ErrText ''first-version dispatch requires a direct worker child'')
      | Some t \<Rightarrow>
      if t_ParentID t \<noteq> t_ID (sn_Root a)
      then Inl (ErrText ''first-version dispatch requires a direct worker child'')
      else if firstParent tasks room \<noteq> t_ID (sn_Root a) \<or> Terminal (t_Status (sn_Root a)) \<or>
              t_Status (sn_Root a) = StatusStopping
      then Inl (ErrText ''parent task is not active in the room queue'')
      else if t_RecoveryRequired t
      then Inl (ErrText ''verify the previous execution and resolve recovery before dispatch'')
      else
      let assignee = (if assignee0 = [] then t_AssignedTo t else assignee0) in
      if \<not> worker r assignee then Inl (ErrText ''assignee must be a current room worker'')
      else if running t then
        (if assignee = t_AssignedTo t then Inr a
         else Inl (ErrText ''stop the active execution before reassignment''))
      else if t_Status t = StatusCompleted \<or> t_Status t = StatusReview
      then Inl (ErrText ''review the submitted result before dispatching again'')
      else if \<not> dependenciesReady a t
      then Inl (ErrText ''waiting for predecessor acceptance by the manager'')
      else case find (\<lambda>other. t_ID other \<noteq> i \<and> t_AssignedTo other = assignee \<and>
                        (running other \<or> t_RecoveryRequired other)) tasks of
        Some other \<Rightarrow>
          let t' = t\<lparr>t_AssignedTo := assignee, t_Status := StatusBlocked, t_WaitingOnTaskID := t_ID other,
                t_Error := ''worker is busy on task '' @ t_ID other @ ''; waiting for capacity''\<rparr>
          in Inr (appendEvent EventTaskBlocked t' (ro_ManagerID r) (t_Error t') now (set_child i t' a))
      | None \<Rightarrow>
          let t' = t\<lparr>t_AssignedTo := assignee, t_ClaimedBy := [], t_Status := StatusAssigned,
                t_Attempt := wrap64 (t_Attempt t + 1), t_DispatchedAt := Some now, t_CompletedAt := None,
                t_UpdatedAt := now, t_Error := [], t_Review := [], t_ReviewedBy := [], t_WaitingOnTaskID := []\<rparr>;
              a1 = set_child i t' a;
              a2 = a1\<lparr>sn_Root := (sn_Root a1)\<lparr>t_Status := StatusInProgress\<rparr>\<rparr>
          in Inr (appendEvent EventDispatched t' (ro_ManagerID r) (t_Title t') now a2))"

definition UpdateExecution_fn ::
    "string \<Rightarrow> string \<Rightarrow> string \<Rightarrow> string \<Rightarrow> string \<Rightarrow> int \<Rightarrow> time \<Rightarrow> edit" where
  "UpdateExecution_fn i actor status result reason attempt now r tasks a =
     (case child a i of
        None \<Rightarrow> Inl (ErrText ''only the assigned current room worker can update a subtask'')
      | Some t \<Rightarrow>
      if \<not> worker r actor \<or> actor \<noteq> t_AssignedTo t
      then Inl (ErrText ''only the assigned current room worker can update a subtask'')
      else if attempt < 1 \<or> attempt \<noteq> t_Attempt t
      then Inl (ErrText ''stale or missing execution attempt'')
      else if (t_Status t = status \<or> t_Status t = StatusCompleted \<and> status = StatusReview) \<and>
              t_Result t = result \<and> t_Error t = reason
      then Inr a
      else if Terminal (t_Status (sn_Root a)) \<or> t_RecoveryRequired t
      then Inl (ErrText ''parent execution has ended or execution requires recovery'')
      else
      let refusal =
        (if status = StatusInProgress then
           (if t_Status (sn_Root a) = StatusStopping \<or> t_Status t \<noteq> StatusAssigned \<or>
               t_DispatchedAt t = None \<or> \<not> dependenciesReady a t
            then Some (ErrText ''only a valid dispatched task with accepted dependencies can be claimed'')
            else None)
         else if t_Status t \<noteq> StatusInProgress
         then Some (ErrText ''claim the current dispatch before reporting'')
         else if status = StatusReview then
           (if TrimSpace result = [] then Some (ErrText ''result is required'') else None)
         else if status \<in> {StatusFailed, StatusBlocked, StatusCancelled} then
           (if TrimSpace reason = [] then Some (ErrText ''reason is required'') else None)
         else Some (ErrText ''unsupported worker status''))
      in case refusal of
        Some e \<Rightarrow> Inl e
      | None \<Rightarrow>
          let t1 = (if status = StatusInProgress then t\<lparr>t_ClaimedBy := actor\<rparr> else t);
              t' = t1\<lparr>t_Status := status, t_Result := result, t_Error := reason, t_UpdatedAt := now\<rparr>;
              a1 = appendEvent (''task.'' @ status) t' actor (first result reason) now (set_child i t' a)
          in Inr (if status \<noteq> StatusInProgress
                  then feedback r t' (i @ '': '' @ status @ ''. '' @ first result reason) now a1
                  else a1))"

definition Review_fn :: "string \<Rightarrow> int \<Rightarrow> bool \<Rightarrow> string \<Rightarrow> time \<Rightarrow> edit" where
  "Review_fn i attempt accept summary now r tasks a =
     (case child a i of
        None \<Rightarrow> Inl (ErrText ''task, current attempt and review summary are required'')
      | Some t \<Rightarrow>
      if attempt \<noteq> t_Attempt t \<or> attempt < 1 \<or> TrimSpace summary = []
      then Inl (ErrText ''task, current attempt and review summary are required'')
      else if t_Review t = summary \<and> t_ReviewedBy t = ro_ManagerID r \<and>
              (accept \<and> t_Status t = StatusCompleted \<or> \<not> accept \<and> t_Status t = StatusBlocked)
      then Inr a
      else
      let reportedFailure = (t_Status t = StatusFailed \<and> TrimSpace (t_Result t) \<noteq> []) in
      if Terminal (t_Status (sn_Root a)) \<or> t_Status (sn_Root a) = StatusStopping \<or> t_RecoveryRequired t \<or>
         (t_Status t \<noteq> StatusReview \<and> \<not> reportedFailure)
      then Inl (ErrText ''only submitted results can be reviewed'')
      else
      let t1 = t\<lparr>t_Review := summary, t_ReviewedBy := ro_ManagerID r, t_UpdatedAt := now\<rparr>;
          t' = (if accept then t1\<lparr>t_Status := StatusCompleted, t_CompletedAt := Some now, t_Error := []\<rparr>
                else t1\<lparr>t_Status := StatusBlocked, t_Error := summary\<rparr>);
          a1 = appendEvent EventReviewed t' (ro_ManagerID r) summary now (set_child i t' a)
      in Inr (if sn_Children a1 \<noteq> [] \<and> list_all (\<lambda>c. t_Status c = StatusCompleted) (sn_Children a1)
              then a1\<lparr>sn_Root := (sn_Root a1)\<lparr>t_Status := StatusReview\<rparr>\<rparr> else a1))"

definition Report_fn :: "string \<Rightarrow> string \<Rightarrow> string \<Rightarrow> time \<Rightarrow> edit" where
  "Report_fn i outcome summary now r tasks a =
     (if t_ID (sn_Root a) \<noteq> i \<or> TrimSpace summary = []
      then Inl (ErrText ''parent task and summary are required'')
      else if t_Report (sn_Root a) \<noteq> [] then
        (if t_Report (sn_Root a) \<noteq> summary \<or> t_GoalOutcome (sn_Root a) \<noteq> outcome
         then Inl (ErrText ''parent already has a different final report'')
         else Inr a)
      else if t_Status (sn_Root a) = StatusStopping \<and> outcome \<noteq> ''stopped''
      then Inl (ErrText ''stopping parent requires a stopped outcome'')
      else if outcome \<notin> {''succeeded'', ''issues'', ''failed'', ''stopped''}
      then Inl (ErrText ''invalid goal outcome'')
      else case find (\<lambda>c. running c \<or> t_RecoveryRequired c \<or>
                  (outcome = ''succeeded'' \<or> outcome = ''issues'') \<and> t_Status c \<noteq> StatusCompleted) (sn_Children a) of
        Some c \<Rightarrow>
          Inl (ErrText (if running c \<or> t_RecoveryRequired c
            then ''stop or verify previous workers before closing the parent''
            else ''all child tasks must be accepted before closing with succeeded/issues; review submitted work and append repair/regression tasks to this parent while work remains''))
      | None \<Rightarrow>
      if outcome = ''succeeded'' \<and> sn_Children a = []
      then Inl (ErrText ''a worker plan is required before success'')
      else
      let a1 = sweep (\<lambda>c. \<not> Terminal (t_Status c))
                 (\<lambda>c. c\<lparr>t_Status := StatusCancelled, t_Error := ''parent closed by manager''\<rparr>)
                 (\<lambda>c. appendEvent EventTaskCancelled c (ro_ManagerID r) (t_Error c) now) a;
          root1 = (sn_Root a1)\<lparr>
            t_Status := (if outcome = ''stopped'' then StatusCancelled
                         else if outcome = ''failed'' then StatusFailed else StatusCompleted),
            t_CompletedAt := Some now, t_UpdatedAt := now,
            t_GoalOutcome := outcome, t_Report := summary, t_ReportStatus := ''pending''\<rparr>
      in Inr (appendEvent EventReported root1 (ro_ManagerID r) summary now (a1\<lparr>sn_Root := root1\<rparr>)))"

definition RequestStop_fn :: "string \<Rightarrow> time \<Rightarrow> edit" where
  "RequestStop_fn i now r tasks a =
     (if t_ID (sn_Root a) \<noteq> i then Inl (ErrText ''stop requires a parent task'')
      else if Terminal (t_Status (sn_Root a)) \<or> t_Status (sn_Root a) = StatusStopping then Inr a
      else
      let a1 = a\<lparr>sn_Root := (sn_Root a)\<lparr>t_Status := StatusStopping, t_UpdatedAt := now\<rparr>\<rparr>;
          a2 = sweep (\<lambda>c. \<not> (t_Status c = StatusInProgress \<or> t_RecoveryRequired c \<or> Terminal (t_Status c)))
                 (\<lambda>c. c\<lparr>t_Status := StatusCancelled, t_Error := ''parent stop requested'', t_WaitingOnTaskID := []\<rparr>)
                 (\<lambda>c. appendEvent EventTaskCancelled c (ro_ManagerID r) (t_Error c) now) a1
      in Inr (feedback r (sn_Root a2) (''Parent stop requested. Do not dispatch more work. Await exact execution stop confirmations and preserve all existing results, then report the parent with outcome stopped.'') now a2))"

definition Recover_fn :: "Roster \<Rightarrow> time \<Rightarrow> Snapshot \<Rightarrow> error + Snapshot" where
  "Recover_fn r now a =
     Inr (sweep running
       (\<lambda>c. c\<lparr>t_Status := StatusBlocked, t_RecoveryRequired := True,
          t_Error := ''service restarted; verify the previous execution and saved artifacts before resuming''\<rparr>)
       (\<lambda>c. feedback r c (t_ID c @ '': '' @ t_Error c) now) a)"

definition ResolveRecovery_fn :: "string \<Rightarrow> int \<Rightarrow> string \<Rightarrow> time \<Rightarrow> edit" where
  "ResolveRecovery_fn i attempt assessment now r tasks a =
     (case child a i of
        None \<Rightarrow> Inl (ErrText ''current attempt and recovery assessment are required'')
      | Some c \<Rightarrow>
      if t_Attempt c \<noteq> attempt \<or> attempt < 1 \<or> TrimSpace assessment = []
      then Inl (ErrText ''current attempt and recovery assessment are required'')
      else if \<not> t_RecoveryRequired c then Inl (ErrText ''task is not awaiting recovery'')
      else
      let c1 = c\<lparr>t_RecoveryRequired := False, t_Error := assessment\<rparr>;
          c' = (if t_Status (sn_Root a) = StatusStopping then c1\<lparr>t_Status := StatusCancelled\<rparr> else c1)
      in Inr (appendEvent ''task.recovered'' c' (ro_ManagerID r) assessment now (set_child i c' a)))"

definition memberRemovalBlocks :: "string \<Rightarrow> bool" where
  "memberRemovalBlocks status \<longleftrightarrow> status \<in> {StatusPending, StatusAssigned, StatusInProgress}"

definition MembersChanged_fn :: "time \<Rightarrow> edit" where
  "MembersChanged_fn now r tasks a =
     Inr (sweep (\<lambda>t. memberRemovalBlocks (t_Status t) \<and> \<not> worker r (t_AssignedTo t))
       (\<lambda>t. t\<lparr>t_Status := StatusBlocked, t_Error := ''assigned worker is no longer a room member''\<rparr>)
       (\<lambda>t. feedback r t (t_ID t @ '': '' @ t_Error t) now) a)"

definition WorkerStopped_fn :: "string \<Rightarrow> string \<Rightarrow> int \<Rightarrow> time \<Rightarrow> edit" where
  "WorkerStopped_fn i actor attempt now r tasks a =
     (case child a i of
        None \<Rightarrow> Inl (ErrText ''stale stop confirmation'')
      | Some t \<Rightarrow>
      if t_AssignedTo t \<noteq> actor \<or> t_Attempt t \<noteq> attempt \<or> attempt < 1
      then Inl (ErrText ''stale stop confirmation'')
      else if \<not> running t then Inr a
      else
      let t' = t\<lparr>t_Status := StatusCancelled, t_Error := ''stopped by user''\<rparr>
      in Inr (feedback r t' (t_ID t' @ '': stopped; inspect preserved results and decide whether to continue or report the parent'') now
           (appendEvent EventTaskCancelled t' actor (t_Error t') now (set_child i t' a))))"

definition CancelAgentTask_fn :: "string \<Rightarrow> string \<Rightarrow> time \<Rightarrow> Snapshot \<Rightarrow> error + Snapshot" where
  "CancelAgentTask_fn i assignedTo now a =
     (case child a i of
        None \<Rightarrow> Inr a
      | Some t \<Rightarrow>
      if Terminal (t_Status t) then Inr a
      else
      let t' = t\<lparr>t_Status := StatusCancelled, t_Error := ''agent archived'', t_WaitingOnTaskID := [],
            t_RecoveryRequired := False, t_UpdatedAt := now\<rparr>
      in Inr (appendEvent EventTaskCancelled t' assignedTo (t_Error t') now (set_child i t' a)))"

definition ReleaseCapacity_fn :: "Roster \<Rightarrow> string \<Rightarrow> time \<Rightarrow> Snapshot \<Rightarrow> error + Snapshot \<times> bool" where
  "ReleaseCapacity_fn r i now a =
     (case child a i of
        None \<Rightarrow> Inr (a, False)
      | Some c \<Rightarrow>
      if Terminal (t_Status (sn_Root a)) \<or> t_Status (sn_Root a) = StatusStopping then Inr (a, False)
      else
      let c' = c\<lparr>t_Status := StatusPending, t_WaitingOnTaskID := [], t_Error := []\<rparr>
      in Inr (feedback r c' (t_ID c' @ '': worker capacity released; inspect current dependencies and explicitly dispatch if still appropriate'') now
           (set_child i c' a), True))"

definition RecordNext_fn :: "Roster \<Rightarrow> string \<Rightarrow> time \<Rightarrow> Snapshot \<Rightarrow> error + Snapshot \<times> bool" where
  "RecordNext_fn r i now a =
     (if t_Status (sn_Root a) \<noteq> StatusQueued then Inr (a, False)
      else if list_ex (\<lambda>e. e_Type e = EventFeedback \<and> e_TaskID e = i) (sn_Events a) then Inr (a, False)
      else Inr (feedback r (sn_Root a) (''Previous parent ended. Review this queued parent, plan/start it and explicitly dispatch eligible worker tasks.'') now a, True))"

subsection \<open>Transactions and delivery\<close>

definition changeState ::
    "roster_fn \<Rightarrow> string \<Rightarrow> string \<Rightarrow> (Roster \<Rightarrow> Task list \<Rightarrow> unit change) \<Rightarrow> time \<Rightarrow> unit room" where
  "changeState roster room i fn now = (\<lambda>(rs, (s, w)).
     if room \<in> set (rs_closing rs) then (Inl (ErrText ''room is being deleted''), (rs, (s, w)))
     else case members roster room of
       Inl e \<Rightarrow> (Inl e, (rs, (s, w)))
     | Inr r \<Rightarrow>
     if RoomGet s room i = None then (Inl (ErrText ''room task not found''), (rs, (s, w)))
     else on_core (Mutate i (fn r (RoomList s [])) (\<lambda>_. now)) (rs, (s, w)))"

definition projection :: "Service \<Rightarrow> Task \<Rightarrow> TaskEvent \<Rightarrow> Roster \<Rightarrow> Projection option" where
  "projection s root e r =
     (case RoomGet s (ro_RoomID r) (e_TaskID e) of
        None \<Rightarrow> None
      | Some t \<Rightarrow>
      let p = \<lparr>pj_ID = eventID (t_ID root) (e_Seq e), pj_RoomID = ro_RoomID r, pj_TaskID = e_TaskID e,
               pj_SenderID = ro_ManagerID r, pj_TargetID = e_TargetID e, pj_Kind = [],
               pj_Title = e_Summary e, pj_Content = e_Summary e, pj_Attempt = e_Attempt e\<rparr> in
      if e_Type e = EventDispatched then
        (if t_Status t \<noteq> StatusAssigned \<or> t_DispatchedAt t = None \<or> e_Attempt e \<noteq> t_Attempt t \<or>
            \<not> worker r (t_AssignedTo t)
         then None
         else Some (p\<lparr>pj_Kind := ''task_assigned'', pj_Title := t_ID t @ middle_dot @ t_Title t,
                pj_Content := msg_assigned @ t_Title t\<rparr>))
      else if e_Type e = EventFeedback then
        (if t_ReportStatus root = ''delivered'' \<or>
            (t_ParentID t \<noteq> [] \<and> (t_Attempt t \<noteq> e_Attempt e \<or> t_Status t = StatusCompleted))
         then None
         else Some (p\<lparr>pj_Kind := ''task_feedback'', pj_TargetID := ro_ManagerID r, pj_SenderID := e_ActorID e,
                pj_Title := t_ID t @ middle_dot @ t_Title t, pj_Content := msg_updated @ t_Title t\<rparr>))
      else if e_Type e = EventPlanned then
        Some (p\<lparr>pj_Kind := ''task_planned'', pj_TargetID := [],
           pj_Content := msg_planned @ first (t_PlanSummary root) (t_Title root)\<rparr>)
      else if e_Type e = EventExtended then
        Some (p\<lparr>pj_Kind := ''task_plan_updated'', pj_TargetID := [], pj_Content := msg_extended @ e_Summary e\<rparr>)
      else if e_Type e = EventReported then
        (if t_ReportStatus root = ''delivered'' then None
         else Some (p\<lparr>pj_Kind := ''task_reported'', pj_TargetID := []\<rparr>))
      else None)"

definition send :: "Projection \<Rightarrow> unit room" where
  "send p = (\<lambda>(rs, x).
     let (ok, rest) = (case rs_sends rs of [] \<Rightarrow> (True, []) | b # bs \<Rightarrow> (b, bs)) in
     if ok then (Inr (), (rs\<lparr>rs_sends := rest, rs_sent := rs_sent rs @ [p]\<rparr>, x))
     else (Inl (ErrText ''task state saved; notification delivery failed''), (rs\<lparr>rs_sends := rest\<rparr>, x)))"

definition mark_delivered :: "unit change" where
  "mark_delivered a x = (Inr (a\<lparr>sn_Root := (sn_Root a)\<lparr>t_ReportStatus := ''delivered''\<rparr>\<rparr>, ()), x)"

fun deliver_events :: "Roster \<Rightarrow> time \<Rightarrow> Task \<Rightarrow> TaskEvent list \<Rightarrow> unit room" where
  "deliver_events r now root [] = returnE ()"
| "deliver_events r now root (e # es) = (\<lambda>(rs, (s, w)).
     case projection s root e r of
       None \<Rightarrow> deliver_events r now root es (rs, (s, w))
     | Some p \<Rightarrow>
         bindE (send p) (\<lambda>_.
           bindE (if e_Type e = EventReported
                  then on_core (Mutate (t_ID root) mark_delivered (\<lambda>_. now)) else returnE ()) (\<lambda>_.
             deliver_events r now root es)) (rs, (s, w)))"

fun deliver_roots :: "Roster \<Rightarrow> time \<Rightarrow> Task list \<Rightarrow> unit room" where
  "deliver_roots r now [] = returnE ()"
| "deliver_roots r now (root # roots) = (\<lambda>(rs, (s, w)).
     if t_ParentID root \<noteq> [] then deliver_roots r now roots (rs, (s, w))
     else bindE (deliver_events r now root (Events s (t_ID root))) (\<lambda>_. deliver_roots r now roots) (rs, (s, w)))"

definition recordNext :: "roster_fn \<Rightarrow> string \<Rightarrow> time \<Rightarrow> bool room" where
  "recordNext roster room now = (\<lambda>(rs, (s, w)).
     let tasks = RoomList s room;
         delivered = list_ex (\<lambda>t. t_ParentID t = [] \<and> t_ReportStatus t = ''delivered'') tasks;
         i = firstParent tasks room in
     if \<not> delivered \<or> i = [] then (Inr False, (rs, (s, w)))
     else case members roster room of
       Inl e \<Rightarrow> (Inl e, (rs, (s, w)))
     | Inr r \<Rightarrow> on_core (Mutate i (\<lambda>a x. (RecordNext_fn r i now a, x)) (\<lambda>_. now)) (rs, (s, w)))"

text \<open>
  One pass of \<open>releaseCapacity\<close> over the tasks listed at its start; it returns the rooms in
  which a task was released.
\<close>

fun release_tasks :: "roster_fn \<Rightarrow> time \<Rightarrow> Task list \<Rightarrow> Task list \<Rightarrow> string list \<Rightarrow> (string list) room" where
  "release_tasks roster now all [] rooms = returnE rooms"
| "release_tasks roster now all (t # ts) rooms =
     (if t_WaitingOnTaskID t = [] \<or> t_Status t \<noteq> StatusBlocked then release_tasks roster now all ts rooms
      else if (case find (\<lambda>other. t_ID other = t_WaitingOnTaskID t) (rev all) of
                 Some occupied \<Rightarrow> running occupied \<or> t_RecoveryRequired occupied | None \<Rightarrow> False)
      then release_tasks roster now all ts rooms
      else case members roster (t_RoomID t) of
        Inl _ \<Rightarrow> release_tasks roster now all ts rooms
      | Inr r \<Rightarrow>
          bindE (on_core (Mutate (t_ID t) (\<lambda>a x. (ReleaseCapacity_fn r (t_ID t) now a, x)) (\<lambda>_. now)))
            (\<lambda>released. release_tasks roster now all ts
               (if released then List.insert (t_RoomID t) rooms else rooms)))"

fun RetryDelivery :: "nat \<Rightarrow> roster_fn \<Rightarrow> time \<Rightarrow> string \<Rightarrow> unit froom"
  and releaseCapacity :: "nat \<Rightarrow> roster_fn \<Rightarrow> time \<Rightarrow> unit froom"
  and retry_rooms :: "nat \<Rightarrow> roster_fn \<Rightarrow> time \<Rightarrow> string list \<Rightarrow> unit froom" where
  "RetryDelivery 0 roster now room = out_of_fuel"
| "RetryDelivery (Suc n) roster now room = (\<lambda>(rs, (s, w)).
     case members roster room of
       Inl e \<Rightarrow> Some (Inl e, (rs, (s, w)))
     | Inr r \<Rightarrow>
     if \<not> rs_hasSend rs then Some (Inr (), (rs, (s, w)))
     else bindF (run_room (deliver_roots r now (RoomList s room))) (\<lambda>_.
            bindF (run_room (recordNext roster room now)) (\<lambda>created.
              if created then RetryDelivery n roster now room
              else releaseCapacity n roster now)) (rs, (s, w)))"
| "releaseCapacity 0 roster now = out_of_fuel"
| "releaseCapacity (Suc n) roster now = (\<lambda>(rs, (s, w)).
     let tasks = RoomList s [] in
     bindF (run_room (release_tasks roster now tasks tasks [])) (\<lambda>rooms. retry_rooms n roster now rooms) (rs, (s, w)))"
| "retry_rooms n roster now [] = run_room (returnE ())"
| "retry_rooms 0 roster now (room # rooms) = out_of_fuel"
| "retry_rooms (Suc n) roster now (room # rooms) =
     bindF (RetryDelivery n roster now room) (\<lambda>_. retry_rooms n roster now rooms)"

definition change ::
    "nat \<Rightarrow> roster_fn \<Rightarrow> string \<Rightarrow> string \<Rightarrow> (Roster \<Rightarrow> Task list \<Rightarrow> unit change) \<Rightarrow> time \<Rightarrow> unit froom" where
  "change fuel roster room i fn now =
     bindF (run_room (changeState roster room i fn now)) (\<lambda>_. RetryDelivery fuel roster now room)"

subsection \<open>The operations\<close>

definition RoomCreate :: "roster_fn \<Rightarrow> string \<Rightarrow> string \<Rightarrow> string \<Rightarrow> string \<Rightarrow> string \<Rightarrow> time \<Rightarrow> Task room" where
  "RoomCreate roster room source requester title body now = (\<lambda>(rs, (s, w)).
     if room \<in> set (rs_closing rs) then (Inl (ErrText ''room is being deleted''), (rs, (s, w)))
     else case members roster room of
       Inl e \<Rightarrow> (Inl e, (rs, (s, w)))
     | Inr r \<Rightarrow>
     if worker r requester then (Inl (ErrText ''workers cannot create parent tasks''), (rs, (s, w)))
     else if TrimSpace source = [] then (Inl (ErrText ''source message is required''), (rs, (s, w)))
     else case find (\<lambda>t. t_ParentID t = [] \<and> t_SourceMessageID t = source) (RoomList s room) of
       Some t \<Rightarrow> (Inr t, (rs, (s, w)))
     | None \<Rightarrow>
     if ro_WorkerIDs r = [] then (Inl (ErrText ''add an available room worker before starting''), (rs, (s, w)))
     else on_core (CreateRoot \<lparr>cr_Status = StatusQueued, cr_SourceMessageID = source, cr_ID = [],
            cr_AssignmentType = AssignmentTypeRoom, cr_AssignmentID = room, cr_Title = title, cr_Body = body,
            cr_CreatedBy = requester, cr_AssignedTo = ro_ManagerID r, cr_ExecutionChannel = ''csgclaw'',
            cr_RoomID = room, cr_DependsOn = []\<rparr> now) (rs, (s, w)))"

definition Plan ::
    "nat \<Rightarrow> roster_fn \<Rightarrow> string \<Rightarrow> string \<Rightarrow> string \<Rightarrow> PlanItem list \<Rightarrow> bool \<Rightarrow> time \<Rightarrow> unit froom" where
  "Plan fuel roster room i summary items autoStart now =
     change fuel roster room i (Plan_fn room i summary items autoStart now) now"

text \<open>\<open>digest\<close> is the hex SHA-256 of the JSON encoding of the summary and the items.\<close>

definition AppendPlan ::
    "(string \<Rightarrow> PlanItem list \<Rightarrow> string) \<Rightarrow> nat \<Rightarrow> roster_fn \<Rightarrow> string \<Rightarrow> string \<Rightarrow> string \<Rightarrow> string \<Rightarrow>
      PlanItem list \<Rightarrow> time \<Rightarrow> unit froom" where
  "AppendPlan digest fuel roster room i requestID0 summary items now =
     (let requestID = TrimSpace requestID0 in
      if requestID = [] then run_room (throwE (ErrText ''a stable request_id is required when appending tasks''))
      else change fuel roster room i
             (AppendPlan_fn room i requestID (digest summary items) summary items now) now)"

definition Start :: "nat \<Rightarrow> roster_fn \<Rightarrow> string \<Rightarrow> string \<Rightarrow> time \<Rightarrow> unit froom" where
  "Start fuel roster room i now = change fuel roster room i (pure_edit (Start_fn room i)) now"

definition Dispatch :: "nat \<Rightarrow> roster_fn \<Rightarrow> string \<Rightarrow> string \<Rightarrow> string \<Rightarrow> time \<Rightarrow> unit froom" where
  "Dispatch fuel roster room i assignee now =
     change fuel roster room i (pure_edit (Dispatch_fn room i assignee now)) now"

definition UpdateExecution ::
    "nat \<Rightarrow> roster_fn \<Rightarrow> string \<Rightarrow> string \<Rightarrow> string \<Rightarrow> string \<Rightarrow> string \<Rightarrow> string \<Rightarrow> int \<Rightarrow> time \<Rightarrow> unit froom" where
  "UpdateExecution fuel roster room i actor status0 result reason attempt now =
     (let status = (if status0 = StatusCompleted then StatusReview else status0);
          fn = pure_edit (UpdateExecution_fn i actor status result reason attempt now)
      in if status = StatusInProgress then run_room (changeState roster room i fn now)
         else change fuel roster room i fn now)"

definition Update ::
    "nat \<Rightarrow> roster_fn \<Rightarrow> string \<Rightarrow> string \<Rightarrow> string \<Rightarrow> string \<Rightarrow> string \<Rightarrow> string \<Rightarrow> time \<Rightarrow> unit froom" where
  "Update fuel roster room i actor status result reason now = (\<lambda>(rs, (s, w)).
     case RoomGet s room i of
       None \<Rightarrow> Some (Inl (ErrText ''task not found''), (rs, (s, w)))
     | Some t \<Rightarrow> UpdateExecution fuel roster room i actor status result reason (t_Attempt t) now (rs, (s, w)))"

definition Review :: "nat \<Rightarrow> roster_fn \<Rightarrow> string \<Rightarrow> string \<Rightarrow> int \<Rightarrow> bool \<Rightarrow> string \<Rightarrow> time \<Rightarrow> unit froom" where
  "Review fuel roster room i attempt accept summary now =
     change fuel roster room i (pure_edit (Review_fn i attempt accept summary now)) now"

definition Report :: "nat \<Rightarrow> roster_fn \<Rightarrow> string \<Rightarrow> string \<Rightarrow> string \<Rightarrow> string \<Rightarrow> time \<Rightarrow> unit froom" where
  "Report fuel roster room i outcome summary now =
     change fuel roster room i (pure_edit (Report_fn i outcome summary now)) now"

definition RequestStop :: "nat \<Rightarrow> roster_fn \<Rightarrow> string \<Rightarrow> string \<Rightarrow> time \<Rightarrow> unit froom" where
  "RequestStop fuel roster room i now = change fuel roster room i (pure_edit (RequestStop_fn i now)) now"

definition ResolveRecovery :: "nat \<Rightarrow> roster_fn \<Rightarrow> string \<Rightarrow> string \<Rightarrow> int \<Rightarrow> string \<Rightarrow> time \<Rightarrow> unit froom" where
  "ResolveRecovery fuel roster room i attempt assessment now =
     change fuel roster room i (pure_edit (ResolveRecovery_fn i attempt assessment now)) now"

definition WorkerStopped :: "nat \<Rightarrow> roster_fn \<Rightarrow> string \<Rightarrow> string \<Rightarrow> string \<Rightarrow> int \<Rightarrow> time \<Rightarrow> unit froom" where
  "WorkerStopped fuel roster room i actor attempt now =
     (if i = [] then run_room (returnE ())
      else change fuel roster room i (pure_edit (WorkerStopped_fn i actor attempt now)) now)"

fun members_changed_roots :: "nat \<Rightarrow> roster_fn \<Rightarrow> string \<Rightarrow> time \<Rightarrow> Task list \<Rightarrow> unit froom" where
  "members_changed_roots fuel roster room now [] = run_room (returnE ())"
| "members_changed_roots fuel roster room now (root # roots) =
     (if t_ParentID root \<noteq> [] \<or> Terminal (t_Status root) then members_changed_roots fuel roster room now roots
      else bindF (change fuel roster room (t_ID root) (pure_edit (MembersChanged_fn now)) now)
             (\<lambda>_. members_changed_roots fuel roster room now roots))"

definition MembersChanged :: "nat \<Rightarrow> roster_fn \<Rightarrow> string \<Rightarrow> time \<Rightarrow> unit froom" where
  "MembersChanged fuel roster room now = (\<lambda>(rs, (s, w)).
     members_changed_roots fuel roster room now (RoomList s room) (rs, (s, w)))"

fun recover_roots :: "roster_fn \<Rightarrow> time \<Rightarrow> Task list \<Rightarrow> unit room" where
  "recover_roots roster now [] = returnE ()"
| "recover_roots roster now (root # roots) =
     (if t_ParentID root \<noteq> [] \<or> Terminal (t_Status root) then recover_roots roster now roots
      else case members roster (t_RoomID root) of
        Inl _ \<Rightarrow> recover_roots roster now roots
      | Inr r \<Rightarrow>
          bindE (on_core (Mutate (t_ID root) (pure_edit (\<lambda>r _ a. Recover_fn r now a) r []) (\<lambda>_. now)))
            (\<lambda>_. recover_roots roster now roots))"

definition Recover :: "roster_fn \<Rightarrow> time \<Rightarrow> unit room" where
  "Recover roster now = (\<lambda>(rs, (s, w)). recover_roots roster now (RoomList s []) (rs, (s, w)))"

fun cancel_agent_tasks :: "string list \<Rightarrow> time \<Rightarrow> Task list \<Rightarrow> unit room" where
  "cancel_agent_tasks actors now [] = returnE ()"
| "cancel_agent_tasks actors now (t # ts) =
     (if t_ParentID t = [] \<or> t_AssignedTo t \<notin> set actors \<or> Terminal (t_Status t)
      then cancel_agent_tasks actors now ts
      else bindE (on_core (Mutate (t_ID t)
               (\<lambda>a x. (map_sum id (\<lambda>b. (b, ())) (CancelAgentTask_fn (t_ID t) (t_AssignedTo t) now a), x)) (\<lambda>_. now)))
             (\<lambda>_. cancel_agent_tasks actors now ts))"

definition CancelAgentTasks :: "string list \<Rightarrow> time \<Rightarrow> unit room" where
  "CancelAgentTasks actors now = (\<lambda>(rs, (s, w)). cancel_agent_tasks actors now (RoomList s []) (rs, (s, w)))"

text \<open>\<open>BeginRoomDeletion\<close> marks the room; the function it returns is \<open>end_room_deletion\<close>.\<close>

definition BeginRoomDeletion :: "string \<Rightarrow> unit room" where
  "BeginRoomDeletion room0 = (\<lambda>(rs, (s, w)).
     let room = TrimSpace room0 in
     if room = [] then (Inl (ErrText ''room is required''), (rs, (s, w)))
     else if room \<in> set (rs_closing rs) then (Inl (ErrText ''room is already being deleted''), (rs, (s, w)))
     else if list_ex (\<lambda>t. \<not> Terminal (t_Status t) \<or> t_RecoveryRequired t) (RoomList s room)
     then (Inl ErrRoomHasActiveTasks, (rs, (s, w)))
     else (Inr (), (rs\<lparr>rs_closing := room # rs_closing rs\<rparr>, (s, w))))"

definition end_room_deletion :: "string \<Rightarrow> unit room" where
  "end_room_deletion room0 = (\<lambda>(rs, x). (Inr (), (rs\<lparr>rs_closing := removeAll (TrimSpace room0) (rs_closing rs)\<rparr>, x)))"

subsection \<open>Queries\<close>

function root_task :: "Service \<Rightarrow> string \<Rightarrow> nat \<Rightarrow> Task \<Rightarrow> Task option" where
  "root_task s room n t =
     (if t_ParentID t = [] then Some t
      else case n of 0 \<Rightarrow> None | Suc m \<Rightarrow>
        (case RoomGet s room (t_ParentID t) of None \<Rightarrow> None | Some p \<Rightarrow> root_task s room m p))"
  by pat_completeness auto
termination by (relation "measure (\<lambda>(s, room, n, t). n)") auto

declare root_task.simps [simp del]

text \<open>
  The walk from a task to its root. In a well-formed aggregate a walk visits each task at most
  once, so one step per task is enough; the fuel makes the walk over a cyclic parent chain,
  which \<open>Mutate\<close> refuses to store, return nothing.
\<close>

definition RoomEvents :: "Service \<Rightarrow> string \<Rightarrow> string \<Rightarrow> TaskEvent list" where
  "RoomEvents s room i =
     (case RoomGet s room i of
        None \<Rightarrow> []
      | Some t \<Rightarrow>
      (case root_task s room (length (all_tasks s)) t of
         None \<Rightarrow> []
       | Some root \<Rightarrow> Events s (t_ID root)))"

definition SourceTaskID :: "Service \<Rightarrow> string \<Rightarrow> string \<Rightarrow> string" where
  "SourceTaskID s room source =
     (case find (\<lambda>(root, e). (e_Type e = EventDispatched \<or> e_Type e = EventFeedback) \<and> eventID (t_ID root) (e_Seq e) = source)
             (concat (map (\<lambda>root. map (\<lambda>e. (root, e)) (Events s (t_ID root)))
                (filter (\<lambda>t. t_ParentID t = []) (RoomList s room)))) of
        None \<Rightarrow> [] | Some (_, e) \<Rightarrow> e_TaskID e)"

definition SourceAttempt :: "Service \<Rightarrow> string \<Rightarrow> string \<Rightarrow> int" where
  "SourceAttempt s room source =
     (case find (\<lambda>(root, e). eventID (t_ID root) (e_Seq e) = source)
             (concat (map (\<lambda>root. map (\<lambda>e. (root, e)) (Events s (t_ID root)))
                (filter (\<lambda>t. t_ParentID t = []) (RoomList s room)))) of
        None \<Rightarrow> 0 | Some (_, e) \<Rightarrow> e_Attempt e)"

definition ResolveProjection :: "roster_fn \<Rightarrow> Service \<Rightarrow> string \<Rightarrow> string \<Rightarrow> string \<Rightarrow> string \<Rightarrow> string \<times> bool" where
  "ResolveProjection roster s room messageID kind target =
     (case members roster room of
        Inl _ \<Rightarrow> ([], False)
      | Inr r \<Rightarrow>
      (case find (\<lambda>(root, e). eventID (t_ID root) (e_Seq e) = messageID)
             (concat (map (\<lambda>root. map (\<lambda>e. (root, e)) (Events s (t_ID root)))
                (filter (\<lambda>t. t_ParentID t = []) (RoomList s room)))) of
         None \<Rightarrow> ([], False)
       | Some (root, e) \<Rightarrow>
           (e_TaskID e, case projection s root e r of
              None \<Rightarrow> False | Some p \<Rightarrow> pj_Kind p = kind \<and> pj_TargetID p = target)))"

definition ResolveMention :: "roster_fn \<Rightarrow> Service \<Rightarrow> string \<Rightarrow> string \<Rightarrow> string \<Rightarrow> string \<times> bool" where
  "ResolveMention roster s room i target =
     (case members roster room of
        Inl _ \<Rightarrow> ([], False)
      | Inr r \<Rightarrow>
      (case RoomGet s room i of
         None \<Rightarrow> ([], False)
       | Some t \<Rightarrow>
           if target = ro_ManagerID r then (t_ID t, True)
           else (t_ID t, t_ParentID t \<noteq> [] \<and> worker r target \<and> t_AssignedTo t = target \<and>
                   t_DispatchedAt t \<noteq> None \<and> running t)))"

definition RoomDiagnosticSnapshot :: "Service \<Rightarrow> string \<Rightarrow> string \<Rightarrow> Snapshot option" where
  "RoomDiagnosticSnapshot s room i =
     (if RoomGet s room i = None then None
      else case DiagnosticSnapshot s i of
        None \<Rightarrow> None
      | Some sn \<Rightarrow>
          if t_RoomID (sn_Root sn) \<noteq> room \<or> list_ex (\<lambda>t. t_RoomID t \<noteq> room) (sn_Children sn) then None
          else Some sn)"

end
