(* ===== verification/RoomPlan.thy ===== *)
theory RoomPlan
  imports RoomTask
begin

section \<open>What a valid plan is\<close>

text \<open>
  \<open>validatePlan\<close> decides with a depth-first search whether a plan may be recorded. Here the
  accepted plans are characterised without the search: every item is complete and assigned to a
  worker of the room, the references are new and distinct, every dependency is known, and no
  task waits for itself through a chain of dependencies.
\<close>

subsection \<open>The search\<close>

definition edges :: "(string, PlanItem) gomap \<Rightarrow> (string \<times> string) set" where
  "edges refs = {(r, d). \<exists>item. mget refs r = Some item \<and> d \<in> set (pi_DependsOnRefs item)}"

text \<open>The visited references, latest first: each has its dependencies behind it.\<close>

fun topo :: "(string, PlanItem) gomap \<Rightarrow> string list \<Rightarrow> bool" where
  "topo refs [] \<longleftrightarrow> True"
| "topo refs (x # v) \<longleftrightarrow> x \<notin> set v \<and> topo refs v \<and>
     (\<exists>item. mget refs x = Some item \<and> set (pi_DependsOnRefs item) \<subseteq> set v)"

lemma topo_closed: "topo refs v \<Longrightarrow> x \<in> set v \<Longrightarrow> (x, y) \<in> edges refs \<Longrightarrow> y \<in> set v"
  by (induction v) (auto simp: edges_def)

lemma topo_reach: "(x, y) \<in> (edges refs)\<^sup>* \<Longrightarrow> topo refs v \<Longrightarrow> x \<in> set v \<Longrightarrow> y \<in> set v"
  by (induction rule: rtrancl_induct) (auto intro: topo_closed)

lemma topo_no_cycle: "topo refs v \<Longrightarrow> x \<in> set v \<Longrightarrow> (x, x) \<notin> (edges refs)\<^sup>+"
proof (induction v)
  case (Cons a v)
  show ?case
  proof (cases "x = a")
    case True
    from Cons.prems have a: "a \<notin> set v" "topo refs v" by simp_all
    show ?thesis
    proof
      assume "(x, x) \<in> (edges refs)\<^sup>+"
      with True obtain d where d: "(a, d) \<in> edges refs" "(d, a) \<in> (edges refs)\<^sup>*"
        by (metis tranclD)
      with Cons.prems(1) have "d \<in> set v" by (auto simp: edges_def)
      with topo_reach [OF d(2) a(2)] a(1) show False by simp
    qed
  qed (use Cons in simp)
qed simp

lemma topo_known: "topo refs v \<Longrightarrow> x \<in> set v \<Longrightarrow> mget refs x \<noteq> None"
  by (induction v) auto

lemma visit_sound:
  "visit refs visiting visited ref = Inr v \<Longrightarrow> topo refs visited \<Longrightarrow>
     topo refs v \<and> set visited \<subseteq> set v \<and> ref \<in> set v \<and> set v \<inter> set visiting \<subseteq> set visited"
  "visit_all refs visiting visited ds = Inr v \<Longrightarrow> topo refs visited \<Longrightarrow>
     topo refs v \<and> set visited \<subseteq> set v \<and> set ds \<subseteq> set v \<and> set v \<inter> set visiting \<subseteq> set visited"
proof (induction refs visiting visited ref and refs visiting visited ds arbitrary: v and v
    rule: visit_visit_all.induct)
  case (1 refs visiting visited ref)
  show ?case
  proof (cases "ref \<in> set visited")
    case True
    with "1.prems" show ?thesis by (auto simp: visit.simps split: if_splits)
  next
    case False
    with "1.prems"(1) obtain item v' where new: "ref \<notin> set visiting" "mget refs ref = Some item"
      "visit_all refs (ref # visiting) visited (pi_DependsOnRefs item) = Inr v'" "v = ref # v'"
      by (auto simp: visit.simps split: if_splits option.splits sum.splits)
    from "1.IH" [OF new(1) False new(2,3) "1.prems"(2)] False new show ?thesis by auto
  qed
next
  case (2 refs visiting visited)
  then show ?case by simp
next
  case (3 refs visiting visited d ds)
  then obtain v' where v': "visit refs visiting visited d = Inr v'" "visit_all refs visiting v' ds = Inr v"
    by (auto split: sum.splits)
  from "3.IH"(1) [OF v'(1) "3.prems"(2)] have A: "topo refs v'" "set visited \<subseteq> set v'" "d \<in> set v'"
    "set v' \<inter> set visiting \<subseteq> set visited" by auto
  from "3.IH"(2) [OF v'(1) v'(2) A(1)] A show ?case by auto
qed

lemma visit_complete:
  "acyclic (edges refs) \<Longrightarrow> (\<And>p. p \<in> set visiting \<Longrightarrow> (p, ref) \<in> (edges refs)\<^sup>+) \<Longrightarrow>
     (\<And>y. (ref, y) \<in> (edges refs)\<^sup>* \<Longrightarrow> mget refs y \<noteq> None) \<Longrightarrow> is_ok (visit refs visiting visited ref)"
  "acyclic (edges refs) \<Longrightarrow> (\<And>p d. p \<in> set visiting \<Longrightarrow> d \<in> set ds \<Longrightarrow> (p, d) \<in> (edges refs)\<^sup>+) \<Longrightarrow>
     (\<And>d y. d \<in> set ds \<Longrightarrow> (d, y) \<in> (edges refs)\<^sup>* \<Longrightarrow> mget refs y \<noteq> None) \<Longrightarrow>
     is_ok (visit_all refs visiting visited ds)"
proof (induction refs visiting visited ref and refs visiting visited ds rule: visit_visit_all.induct)
  case (1 refs visiting visited ref)
  have nv: "ref \<notin> set visiting" using "1.prems"(1,2) by (auto simp: acyclic_def)
  obtain item where item: "mget refs ref = Some item" using "1.prems"(3) [of ref] by auto
  have e: "(ref, d) \<in> edges refs" if "d \<in> set (pi_DependsOnRefs item)" for d
    using that item by (simp add: edges_def)
  show ?case
  proof (cases "ref \<in> set visited")
    case False
    have "is_ok (visit_all refs (ref # visiting) visited (pi_DependsOnRefs item))"
    proof (rule "1.IH" [OF nv False item "1.prems"(1)])
      show "(p, d) \<in> (edges refs)\<^sup>+" if "p \<in> set (ref # visiting)" "d \<in> set (pi_DependsOnRefs item)" for p d
        using that e "1.prems"(2) [of p] by (auto intro: trancl_into_trancl)
      show "mget refs y \<noteq> None" if "d \<in> set (pi_DependsOnRefs item)" "(d, y) \<in> (edges refs)\<^sup>*" for d y
        using that e [of d] by (intro "1.prems"(3)) (auto intro: converse_rtrancl_into_rtrancl)
    qed
    with nv False item show ?thesis by (auto simp: visit.simps is_ok_def split: sum.splits)
  qed (use nv in \<open>simp add: visit.simps\<close>)
next
  case (2 refs visiting visited)
  then show ?case by simp
next
  case (3 refs visiting visited d ds)
  have "is_ok (visit refs visiting visited d)"
    by (rule "3.IH"(1)) (use "3.prems"(1,2) in simp, use "3.prems"(2) in simp, rule "3.prems"(3) [of d], simp_all)
  then obtain v where v: "visit refs visiting visited d = Inr v" by (auto elim: is_okE)
  have "is_ok (visit_all refs visiting v ds)"
    by (rule "3.IH"(2) [OF v]) (use "3.prems"(1,2) in simp, use "3.prems"(2) in simp, rule "3.prems"(3), simp_all)
  with v show ?case by simp
qed

text \<open>The search accepts a table exactly if it is closed under dependencies and has no cycle.\<close>

lemma search_iff:
  "is_ok (visit_all refs [] [] (map fst refs)) \<longleftrightarrow>
     acyclic (edges refs) \<and> (\<forall>x y. (x, y) \<in> edges refs \<longrightarrow> mget refs y \<noteq> None)"
  (is "?run \<longleftrightarrow> ?ok")
proof
  assume ?run
  then obtain v where v: "visit_all refs [] [] (map fst refs) = Inr v" by (auto elim: is_okE)
  from visit_sound(2) [OF v] have t: "topo refs v" "fst ` set refs \<subseteq> set v" by auto
  have key: "x \<in> set v" if "(x, y) \<in> edges refs" for x y
    using that t(2) by (auto simp: edges_def dest: mget_key)
  have "(x, x) \<notin> (edges refs)\<^sup>+" for x
    using topo_no_cycle [OF t(1), of x] key [of x] tranclD [of x x "edges refs"] by blast
  moreover have "mget refs y \<noteq> None" if "(x, y) \<in> edges refs" for x y
    using topo_known [OF t(1) topo_closed [OF t(1) key [OF that] that]] .
  ultimately show ?ok by (auto simp: acyclic_def)
next
  assume ok: ?ok
  have known: "mget refs y \<noteq> None" if "(x, y) \<in> (edges refs)\<^sup>*" "x \<in> fst ` set refs" for x y
    using that by (induction rule: rtrancl_induct) (use ok in \<open>auto simp: mget_None_key\<close>)
  show ?run by (rule visit_complete(2)) (use ok known in auto)
qed

subsection \<open>The table of references\<close>

definition item_ok :: "Roster \<Rightarrow> PlanItem \<Rightarrow> bool" where
  "item_ok roster item \<longleftrightarrow>
     TrimSpace (pi_IDRef item) \<noteq> [] \<and> TrimSpace (pi_Title item) \<noteq> [] \<and> worker roster (pi_AssignedTo item)"

lemma plan_refs_Nil [simp]: "plan_refs [] roster refs = Inr refs"
  by (simp add: plan_refs_def)

lemma foldl_error: "foldl (\<lambda>acc item. case acc of Inl e \<Rightarrow> Inl e | Inr refs \<Rightarrow> f item refs) (Inl e) items = Inl e"
  by (induction items) simp_all

lemma plan_refs_Cons:
  "plan_refs (item # items) roster refs =
     (if \<not> item_ok roster item
      then Inl (ErrText ''each task needs id_ref, title and an assigned_to from current room workers'')
      else if mget refs (pi_IDRef item) \<noteq> None then Inl (ErrText ''duplicate id_ref'')
      else plan_refs items roster (mput (pi_IDRef item) item refs))"
  unfolding plan_refs_def item_ok_def by (auto simp: foldl_error)

lemma plan_refs_iff:
  "is_ok (plan_refs items roster refs) \<longleftrightarrow>
     list_all (item_ok roster) items \<and> distinct (map pi_IDRef items) \<and>
     (\<forall>item \<in> set items. mget refs (pi_IDRef item) = None)"
  by (induction items arbitrary: refs) (auto simp: plan_refs_Cons image_iff)

lemma plan_refs_mget:
  assumes "plan_refs items roster refs0 = Inr refs"
  shows "mget refs x = (case find (\<lambda>item. pi_IDRef item = x) items of None \<Rightarrow> mget refs0 x | Some item \<Rightarrow> Some item)"
  using assms
proof (induction items arbitrary: refs0)
  case (Cons item items)
  then have "plan_refs items roster (mput (pi_IDRef item) item refs0) = Inr refs" and ok: "is_ok (plan_refs (item # items) roster refs0)"
    by (auto simp: plan_refs_Cons split: if_splits)
  moreover have "find (\<lambda>i. pi_IDRef i = pi_IDRef item) items = None"
    using ok by (auto simp: plan_refs_iff find_None_iff image_iff)
  ultimately show ?case using Cons.IH by (auto split: option.splits)
qed simp

subsection \<open>The specification\<close>

definition dep_edges :: "PlanItem list \<Rightarrow> (string \<times> string) set" where
  "dep_edges items = {(pi_IDRef item, d) | item d. item \<in> set items \<and> d \<in> set (pi_DependsOnRefs item)}"

definition plan_ok :: "PlanItem list \<Rightarrow> Roster \<Rightarrow> Task list \<Rightarrow> bool" where
  "plan_ok items roster existing \<longleftrightarrow>
     items \<noteq> [] \<and> (\<forall>item \<in> set items. item_ok roster item) \<and> distinct (map pi_IDRef items) \<and>
     set (map pi_IDRef items) \<inter> set (map t_ID existing) = {} \<and>
     (\<forall>item \<in> set items. set (pi_DependsOnRefs item) \<subseteq> set (map pi_IDRef items) \<union> set (map t_ID existing)) \<and>
     acyclic (dep_edges items)"

definition existing_ref :: "string \<Rightarrow> PlanItem" where
  "existing_ref i = \<lparr>pi_IDRef = i, pi_Title = [], pi_Body = [], pi_AssignedTo = [], pi_DependsOnRefs = []\<rparr>"

lemma mget_existing:
  "mget (foldl (\<lambda>m t. mput (t_ID t) (existing_ref (t_ID t)) m) m0 ts) x =
     (if x \<in> t_ID ` set ts then Some (existing_ref x) else mget m0 x)"
  by (induction ts arbitrary: m0) auto

lemma refs_edges:
  assumes "plan_refs items roster (foldl (\<lambda>m t. mput (t_ID t) (existing_ref (t_ID t)) m) [] ts) = Inr refs"
  shows "edges refs = dep_edges items"
    and "mget refs y \<noteq> None \<longleftrightarrow> y \<in> pi_IDRef ` set items \<union> t_ID ` set ts"
proof -
  note G = plan_refs_mget [OF assms, unfolded mget_existing]
  have d: "distinct (map pi_IDRef items)" using assms plan_refs_iff [of items roster] by (metis is_ok_simps(1))
  have f: "find (\<lambda>item. pi_IDRef item = x) items = Some item \<longleftrightarrow> item \<in> set items \<and> pi_IDRef item = x" for x item
    using d by (induction items) auto
  have n: "find (\<lambda>item. pi_IDRef item = x) items = None \<longleftrightarrow> x \<notin> pi_IDRef ` set items" for x
    by (auto simp: find_None_iff)
  show "mget refs y \<noteq> None \<longleftrightarrow> y \<in> pi_IDRef ` set items \<union> t_ID ` set ts"
    using n [of y] by (auto simp: G split: option.splits)
  have "(x, y) \<in> edges refs \<longleftrightarrow> (x, y) \<in> dep_edges items" for x y
  proof (cases "find (\<lambda>item. pi_IDRef item = x) items")
    case None
    then show ?thesis using n [of x] by (auto simp: edges_def dep_edges_def G existing_ref_def split: if_splits)
  next
    case (Some item)
    then have u: "item' = item" if "item' \<in> set items" "pi_IDRef item' = x" for item'
      using that f [of x item'] by simp
    from Some f [of x item] show ?thesis by (auto simp: edges_def dep_edges_def G dest: u)
  qed
  then show "edges refs = dep_edges items" by auto
qed

lemma validatePlan_ok: "validatePlan items roster ts = Inr () \<longleftrightarrow> plan_ok items roster ts"
proof (cases "items = []")
  case True
  then show ?thesis by (simp add: validatePlan_def plan_ok_def)
next
  case False
  let ?refs0 = "foldl (\<lambda>m t. mput (t_ID t) (existing_ref (t_ID t)) m) [] ts"
  have v: "validatePlan items roster ts = Inr () \<longleftrightarrow>
      (\<exists>refs. plan_refs items roster ?refs0 = Inr refs \<and> is_ok (visit_all refs [] [] (map fst refs)))"
    using False by (auto simp: validatePlan_def existing_ref_def is_ok_def split: sum.splits)
  show ?thesis
  proof (cases "plan_refs items roster ?refs0")
    case (Inl e)
    then have "\<not> is_ok (plan_refs items roster ?refs0)" by simp
    then show ?thesis
      unfolding v plan_refs_iff mget_existing using Inl
      by (auto simp: plan_ok_def list_all_iff split: if_splits)
  next
    case (Inr refs)
    then have "is_ok (plan_refs items roster ?refs0)" by simp
    with refs_edges [OF Inr] Inr False show ?thesis
      unfolding v plan_refs_iff
      by (auto simp: search_iff plan_ok_def list_all_iff mget_existing dep_edges_def) blast
  qed
qed

text \<open>
  C12. \<open>validatePlan\<close> accepts a plan exactly if it is not empty, each item has a reference, a title
  and an assignee that is a worker of the room, the references are distinct and differ from the
  IDs of the existing children, every dependency is a reference of the plan or an existing
  child, and the dependencies have no cycle. The search always ends, and neither the order of
  the items nor that of the table decides.
\<close>

theorem validatePlan_iff: "validatePlan items roster existing = Inr () \<longleftrightarrow> plan_ok items roster existing"
  by (rule validatePlan_ok)

end
