(* ===== verification/RoomEdits.thy ===== *)
theory RoomEdits
  imports RoomPlan
begin

section \<open>What the callbacks do to a snapshot\<close>

text \<open>
  Every callback of the room operations is a room edit: it keeps the children's IDs (the
  planning callbacks add fresh ones), makes at most one child busy and that only if no other
  task of the same worker is, and leaves a finished parent finished, with finished children.
\<close>

definition busy :: "Task \<Rightarrow> bool" where
  "busy t \<longleftrightarrow> running t \<or> t_RecoveryRequired t"

definition finished :: "Task \<Rightarrow> bool" where
  "finished t \<longleftrightarrow> Terminal (t_Status t) \<and> \<not> t_RecoveryRequired t"

definition closed :: "Snapshot \<Rightarrow> bool" where
  "closed a \<longleftrightarrow> (Terminal (t_Status (sn_Root a)) \<longrightarrow> (\<forall>c \<in> set (sn_Children a). finished c))"

definition busy_from :: "Snapshot \<Rightarrow> Task \<Rightarrow> bool" where
  "busy_from a c \<longleftrightarrow> (\<exists>d \<in> set (sn_Children a). t_ID d = t_ID c \<and> t_AssignedTo d = t_AssignedTo c \<and> busy d)"

definition free_worker :: "Task list \<Rightarrow> string \<Rightarrow> string \<Rightarrow> bool" where
  "free_worker tasks i actor \<longleftrightarrow> (\<forall>u \<in> set tasks. t_ID u \<noteq> i \<longrightarrow> t_AssignedTo u = actor \<longrightarrow> \<not> busy u)"

definition room_edit :: "Task list \<Rightarrow> Snapshot \<Rightarrow> Snapshot \<Rightarrow> bool" where
  "room_edit tasks a b \<longleftrightarrow>
     (\<exists>i. \<forall>c \<in> set (sn_Children b). busy c \<longrightarrow>
        busy_from a c \<or> t_ID c = i \<and> free_worker tasks i (t_AssignedTo c)) \<and>
     (closed a \<longrightarrow> closed b) \<and>
     (Terminal (t_Status (sn_Root a)) \<longrightarrow> Terminal (t_Status (sn_Root b)))"

definition same_ids :: "Snapshot \<Rightarrow> Snapshot \<Rightarrow> bool" where
  "same_ids a b \<longleftrightarrow> t_ID ` set (sn_Children b) \<subseteq> t_ID ` set (sn_Children a)"

lemma Terminal_simps [simp]:
  "Terminal StatusCompleted" "Terminal StatusFailed" "Terminal StatusCancelled"
  "\<not> Terminal StatusPending" "\<not> Terminal StatusAssigned" "\<not> Terminal StatusInProgress"
  "\<not> Terminal StatusBlocked" "\<not> Terminal StatusQueued" "\<not> Terminal StatusReview" "\<not> Terminal StatusStopping"
  by (simp_all add: Terminal_def)

lemma appendEvent_simps [simp]:
  "sn_Children (appendEvent k t x y now a) = sn_Children a" "sn_Root (appendEvent k t x y now a) = sn_Root a"
  "sn_Approvals (appendEvent k t x y now a) = sn_Approvals a" "sn_Presence (appendEvent k t x y now a) = sn_Presence a"
  by (simp_all add: appendEvent_def)

lemma feedback_simps [simp]:
  "sn_Children (feedback r t y now a) = sn_Children a" "sn_Root (feedback r t y now a) = sn_Root a"
  "sn_Approvals (feedback r t y now a) = sn_Approvals a" "sn_Presence (feedback r t y now a) = sn_Presence a"
  by (simp_all add: feedback_def)

lemma room_edit_refl [simp]: "room_edit tasks a a"
  by (auto simp: room_edit_def busy_from_def)

lemma same_ids_refl [simp]: "same_ids a a"
  by (simp add: same_ids_def)

lemma room_edit_cong:
  "sn_Children b' = sn_Children b \<Longrightarrow> sn_Root b' = sn_Root b \<Longrightarrow> room_edit tasks a b' = room_edit tasks a b"
  by (simp add: room_edit_def closed_def)

lemma edit_events [simp]:
  "room_edit tasks a (appendEvent k t x y now b) = room_edit tasks a b"
  "room_edit tasks a (feedback r t y now b) = room_edit tasks a b"
  "same_ids a (appendEvent k t x y now b) = same_ids a b"
  "same_ids a (feedback r t y now b) = same_ids a b"
  by (simp_all add: room_edit_def closed_def same_ids_def)

subsection \<open>Changing one child\<close>

lemma childD: "child a i = Some t \<Longrightarrow> t \<in> set (sn_Children a) \<and> t_ID t = i"
  by (auto simp: child_def find_Some_iff)

lemma set_replace_first: "c \<in> set (replace_first i t cs) \<Longrightarrow> c = t \<or> c \<in> set cs"
  by (induction cs) (auto split: if_splits)

lemma replace_first_id: "t_ID t = i \<Longrightarrow> map t_ID (replace_first i t cs) = map t_ID cs"
  by (induction cs) auto

lemma set_child_simps [simp]:
  "sn_Root (set_child i t a) = sn_Root a" "sn_Events (set_child i t a) = sn_Events a"
  "sn_Children (set_child i t a) = replace_first i t (sn_Children a)"
  by (simp_all add: set_child_def)

lemma same_ids_set_child: "t_ID t = i \<Longrightarrow> same_ids a (set_child i t a)"
  using replace_first_id [of t i "sn_Children a"] by (simp add: same_ids_def flip: set_map)

text \<open>
  The child \<open>t\<close> becomes \<open>t'\<close> and the parent \<open>root\<close>: an edit if \<open>t'\<close> is busy only with reason
  and a finished parent keeps a finished child.
\<close>

lemma edit_child:
  assumes "child a i = Some t"
    and "busy t' \<Longrightarrow> t_ID t' = t_ID t \<and> (t_AssignedTo t' = t_AssignedTo t \<and> busy t \<or> free_worker tasks i (t_AssignedTo t'))"
    and "Terminal (t_Status (sn_Root a)) \<Longrightarrow> Terminal (t_Status root)"
    and "Terminal (t_Status root) \<Longrightarrow> closed a \<Longrightarrow> Terminal (t_Status (sn_Root a)) \<and> finished t'"
    and "sn_Children b = replace_first i t' (sn_Children a)" and "sn_Root b = root"
  shows "room_edit tasks a b"
proof -
  note t = childD [OF assms(1)]
  have "busy_from a c \<or> t_ID c = i \<and> free_worker tasks i (t_AssignedTo c)"
    if "c \<in> set (sn_Children b)" "busy c" for c
  proof (cases "c \<in> set (sn_Children a)")
    case False
    with that(1) assms(5) have "c = t'" by (auto dest: set_replace_first)
    with assms(2) that(2) t show ?thesis by (auto simp: busy_from_def)
  qed (use that(2) in \<open>auto simp: busy_from_def\<close>)
  moreover have "closed b" if "closed a"
    using assms(4,5,6) that by (auto simp: closed_def dest: set_replace_first)
  ultimately show ?thesis using assms(3,6) unfolding room_edit_def by blast
qed

subsection \<open>Changing the children that match\<close>

definition events_only :: "(Task \<Rightarrow> Snapshot \<Rightarrow> Snapshot) \<Rightarrow> bool" where
  "events_only ev \<longleftrightarrow> (\<forall>c a. sn_Children (ev c a) = sn_Children a \<and> sn_Root (ev c a) = sn_Root a)"

lemma events_only_intros [simp]:
  "events_only (\<lambda>c. appendEvent k c x (y c) now)" "events_only (\<lambda>c. feedback r c (y c) now)"
  by (simp_all add: events_only_def)

lemma sweep_simps:
  assumes "events_only ev"
  shows "sn_Children (sweep p f ev a) = map (\<lambda>c. if p c then f c else c) (sn_Children a)"
    and "sn_Root (sweep p f ev a) = sn_Root a"
proof -
  have "sn_Children (foldl (\<lambda>a c. ev (f c) a) a cs) = sn_Children a \<and>
      sn_Root (foldl (\<lambda>a c. ev (f c) a) a cs) = sn_Root a" for a cs
    using assms by (induction cs arbitrary: a) (simp_all add: events_only_def)
  then show "sn_Children (sweep p f ev a) = map (\<lambda>c. if p c then f c else c) (sn_Children a)"
    and "sn_Root (sweep p f ev a) = sn_Root a" by (simp_all add: sweep_def)
qed

lemma edit_sweep:
  assumes "sn_Children b = map (\<lambda>c. if p c then f c else c) (sn_Children a)"
    and "\<And>c. p c \<Longrightarrow> busy (f c) \<Longrightarrow> busy c \<and> t_ID (f c) = t_ID c \<and> t_AssignedTo (f c) = t_AssignedTo c"
    and "Terminal (t_Status (sn_Root a)) \<Longrightarrow> Terminal (t_Status (sn_Root b))"
    and "Terminal (t_Status (sn_Root b)) \<Longrightarrow> closed a \<Longrightarrow> \<forall>c \<in> set (sn_Children b). finished c"
  shows "room_edit tasks a b"
proof -
  have "busy_from a c" if "c \<in> set (sn_Children b)" "busy c" for c
    using that assms(2) unfolding assms(1) busy_from_def by (auto split: if_splits)
  with assms(3,4) show ?thesis by (auto simp: room_edit_def closed_def [of b])
qed

lemma same_ids_sweep:
  assumes "sn_Children b = map (\<lambda>c. if p c then f c else c) (sn_Children a)" and "\<And>c. t_ID (f c) = t_ID c"
  shows "same_ids a b"
  by (auto simp: same_ids_def assms)

subsection \<open>The callbacks\<close>

lemma guard_Inr: "(if g then Inl e else x) = Inr b \<Longrightarrow> \<not> g \<and> x = Inr b"
  by (simp split: if_splits)

lemma guard_same: "(if g then Inr a else x) = Inr b \<Longrightarrow> b \<noteq> a \<Longrightarrow> \<not> g \<and> x = Inr b"
  by (auto split: if_splits)

lemma Inr_if: "Inr (if P then x else y) = Inr b \<Longrightarrow> b = x \<or> b = y"
  by (simp split: if_splits)

lemma Inr_eq: "Inr x = Inr b \<Longrightarrow> b = x"
  by simp

lemmas guards = conjunct2 [OF guard_Inr] conjunct2 [OF guard_same]

lemmas busy_simps = busy_def running_def finished_def

lemma edit_Start:
  assumes "Start_fn room i r tasks a = Inr b"
  shows "room_edit tasks a b \<and> same_ids a b"
  using assms
  by (auto simp: Start_fn_def same_ids_def room_edit_def busy_from_def closed_def split: if_splits)

lemma Dispatch_cases:
  assumes "Dispatch_fn room i assignee0 now r tasks a = Inr b"
  obtains (running) "b = a"
  | (waiting) t t' k actor summary where "child a i = Some t" and "b = appendEvent k t' actor summary now (set_child i t' a)"
      and "t_ID t' = t_ID t" and "\<not> busy t'" and "\<not> Terminal (t_Status (sn_Root a))"
  | (dispatched) t t' actor summary where "child a i = Some t" and "t_ID t' = t_ID t"
      and "t_Status t' = StatusAssigned" and "t_DispatchedAt t' = Some now" and "worker r (t_AssignedTo t')"
      and "dependenciesReady a t" and "free_worker tasks i (t_AssignedTo t')"
      and "t_DependsOn t' = t_DependsOn t" and "t_Attempt t' = wrap64 (t_Attempt t + 1)"
      and "\<not> busy t" and "t_Status t \<noteq> StatusCompleted" and "t_Status t \<noteq> StatusReview"
      and "firstParent tasks room = t_ID (sn_Root a)" and "t_ParentID t = t_ID (sn_Root a)"
      and "t_RecoveryRequired t' = t_RecoveryRequired t"
      and "\<not> Terminal (t_Status (sn_Root a))" and "t_Status (sn_Root a) \<noteq> StatusStopping"
      and "b = appendEvent EventDispatched t' actor summary now
             ((set_child i t' a)\<lparr>sn_Root := (sn_Root a)\<lparr>t_Status := StatusInProgress\<rparr>\<rparr>)"
proof (cases "child a i")
  case None
  with assms show ?thesis by (simp add: Dispatch_fn_def)
next
  case (Some t)
  let ?to = "if assignee0 = [] then t_AssignedTo t else assignee0"
  note run = assms [unfolded Dispatch_fn_def Some option.case Let_def]
  from run have g: "t_ParentID t = t_ID (sn_Root a)" "firstParent tasks room = t_ID (sn_Root a)"
    "\<not> Terminal (t_Status (sn_Root a))" "t_Status (sn_Root a) \<noteq> StatusStopping" "\<not> t_RecoveryRequired t" "worker r ?to"
    by (auto split: if_splits)
  show ?thesis
  proof (cases "running t")
    case True
    with run g show ?thesis by (intro that(1)) (simp split: if_splits)
  next
    case False
    with run g have h: "t_Status t \<noteq> StatusCompleted" "t_Status t \<noteq> StatusReview" "dependenciesReady a t"
      by (auto split: if_splits)
    show ?thesis
    proof (cases "find (\<lambda>other. t_ID other \<noteq> i \<and> t_AssignedTo other = ?to \<and> (running other \<or> t_RecoveryRequired other)) tasks")
      case None
      then have "free_worker tasks i ?to" by (auto simp: free_worker_def busy_def find_None_iff)
      let ?t = "t\<lparr>t_AssignedTo := ?to, t_ClaimedBy := [], t_Status := StatusAssigned,
        t_Attempt := wrap64 (t_Attempt t + 1), t_DispatchedAt := Some now, t_CompletedAt := None,
        t_UpdatedAt := now, t_Error := [], t_Review := [], t_ReviewedBy := [], t_WaitingOnTaskID := []\<rparr>"
      have "b = appendEvent EventDispatched ?t (ro_ManagerID r) (t_Title ?t) now
          ((set_child i ?t a)\<lparr>sn_Root := (sn_Root a)\<lparr>t_Status := StatusInProgress\<rparr>\<rparr>)"
        using run g h False None by simp
      with g h False Some \<open>free_worker tasks i ?to\<close> show ?thesis
        by (intro that(3) [of t ?t "ro_ManagerID r" "t_Title ?t"]) (simp_all add: busy_def)
    next
      case (Some other)
      let ?t = "t\<lparr>t_AssignedTo := ?to, t_Status := StatusBlocked, t_WaitingOnTaskID := t_ID other,
        t_Error := ''worker is busy on task '' @ t_ID other @ ''; waiting for capacity''\<rparr>"
      have "b = appendEvent EventTaskBlocked ?t (ro_ManagerID r) (t_Error ?t) now (set_child i ?t a)"
        using run g h False Some by simp
      with g \<open>child a i = Some t\<close> show ?thesis
        by (intro that(2) [of t _ ?t "ro_ManagerID r" "t_Error ?t"]) (simp_all add: busy_simps)
    qed
  qed
qed

lemma edit_Dispatch:
  assumes "Dispatch_fn room i assignee0 now r tasks a = Inr b"
  shows "room_edit tasks a b \<and> same_ids a b"
  using assms
proof (cases rule: Dispatch_cases)
  case (waiting t t' k actor summary)
  have "room_edit tasks a (set_child i t' a)"
    by (rule edit_child [OF waiting(1)]) (use waiting in auto)
  with waiting childD [OF waiting(1)] show ?thesis by (simp add: same_ids_set_child)
next
  case (dispatched t t' actor summary)
  have "room_edit tasks a b"
    by (rule edit_child [OF dispatched(1)]) (use dispatched in auto)
  moreover have "same_ids a b"
    using same_ids_set_child [of t' i a] dispatched childD [OF dispatched(1)] by (simp add: same_ids_def)
  ultimately show ?thesis by simp
qed simp

text \<open>A callback that changes one child, does not make it busy and leaves the parent's end alone.\<close>

lemma edit_calm:
  assumes "child a i = Some t" and "t_ID t' = t_ID t" and "t_AssignedTo t' = t_AssignedTo t"
    and "busy t' \<Longrightarrow> busy t" and "Terminal (t_Status root) = Terminal (t_Status (sn_Root a))"
    and "Terminal (t_Status (sn_Root a)) \<Longrightarrow> finished t \<Longrightarrow> finished t'"
    and "sn_Children b = replace_first i t' (sn_Children a)" and "sn_Root b = root"
  shows "room_edit tasks a b \<and> same_ids a b"
proof
  note t = childD [OF assms(1)]
  show "room_edit tasks a b"
    by (rule edit_child [OF assms(1)]) (use assms(2-8) t in \<open>auto simp: closed_def\<close>)
  show "same_ids a b"
    using same_ids_set_child [of t' i a] assms(2,7) t by (simp add: same_ids_def)
qed

lemma edit_UpdateExecution:
  assumes "UpdateExecution_fn i actor status result reason attempt now r tasks a = Inr b"
  shows "room_edit tasks a b \<and> same_ids a b"
proof (cases "b = a")
  case False
  with assms obtain t where t: "child a i = Some t"
    by (cases "child a i") (simp_all add: UpdateExecution_fn_def)
  note run = assms [unfolded UpdateExecution_fn_def t option.case Let_def]
  let ?t = "(if status = StatusInProgress then t\<lparr>t_ClaimedBy := actor\<rparr> else t)
    \<lparr>t_Status := status, t_Result := result, t_Error := reason, t_UpdatedAt := now\<rparr>"
  from run False have g: "\<not> Terminal (t_Status (sn_Root a))" "\<not> t_RecoveryRequired t"
    and st: "if status = StatusInProgress then t_Status t = StatusAssigned \<and> t_DispatchedAt t \<noteq> None
      else status \<noteq> StatusAssigned"
    and b: "sn_Children b = replace_first i ?t (sn_Children a)" "sn_Root b = sn_Root a"
    by (auto split: if_splits)
  show ?thesis
    by (rule edit_calm [OF t _ _ _ _ _ b]) (use g st in \<open>auto simp: busy_simps split: if_splits\<close>)
qed simp

lemma edit_Review:
  assumes "Review_fn i attempt accept summary now r tasks a = Inr b"
  shows "room_edit tasks a b \<and> same_ids a b"
proof (cases "b = a")
  case False
  with assms obtain t where t: "child a i = Some t"
    by (cases "child a i") (simp_all add: Review_fn_def)
  note run = assms [unfolded Review_fn_def t option.case Let_def]
  let ?t1 = "t\<lparr>t_Review := summary, t_ReviewedBy := ro_ManagerID r, t_UpdatedAt := now\<rparr>"
  define t' where "t' = (if accept then ?t1\<lparr>t_Status := StatusCompleted, t_CompletedAt := Some now, t_Error := []\<rparr>
    else ?t1\<lparr>t_Status := StatusBlocked, t_Error := summary\<rparr>)"
  note run3 = guards(2) [OF guards(1) [OF run] False]
  from guard_Inr [OF run3] have g: "\<not> Terminal (t_Status (sn_Root a))" "\<not> t_RecoveryRequired t" by simp_all
  let ?b = "appendEvent EventReviewed t' (ro_ManagerID r) summary now (set_child i t' a)"
  have "b = ?b\<lparr>sn_Root := (sn_Root ?b)\<lparr>t_Status := StatusReview\<rparr>\<rparr> \<or> b = ?b"
    unfolding t'_def by (rule Inr_if [OF guards(1) [OF run3]])
  with g(1) have b: "sn_Children b = replace_first i t' (sn_Children a)"
    "Terminal (t_Status (sn_Root b)) = Terminal (t_Status (sn_Root a))" by auto
  show ?thesis
    by (rule edit_calm [OF t _ _ _ b(2) _ b(1) refl]) (use g in \<open>auto simp: t'_def busy_simps split: if_splits\<close>)
qed simp

lemma edit_Report:
  assumes "Report_fn i outcome summary now r tasks a = Inr b"
  shows "room_edit tasks a b \<and> same_ids a b"
proof (cases "b = a")
  case False
  let ?f = "\<lambda>c. c\<lparr>t_Status := StatusCancelled, t_Error := ''parent closed by manager''\<rparr>"
  note run1 = guards(1) [OF assms [unfolded Report_fn_def Let_def]]
  from run1 False have "t_Report (sn_Root a) = []" by (auto split: if_splits)
  with run1 have "\<not> t_Report (sn_Root a) \<noteq> []" by simp
  note run4 = guards(1) [OF guards(1) [OF run1 [unfolded if_not_P [OF this]]]]
  show ?thesis
  proof (cases "find (\<lambda>c. running c \<or> t_RecoveryRequired c \<or>
      (outcome = ''succeeded'' \<or> outcome = ''issues'') \<and> t_Status c \<noteq> StatusCompleted) (sn_Children a)")
    case None
    then have q: "\<forall>c \<in> set (sn_Children a). \<not> running c \<and> \<not> t_RecoveryRequired c"
      by (auto simp: find_None_iff)
    from Inr_eq [OF guards(1) [OF run4 [unfolded None option.case]]] have b:
      "sn_Children b = map (\<lambda>c. if \<not> Terminal (t_Status c) then ?f c else c) (sn_Children a)"
      "Terminal (t_Status (sn_Root b))" by (simp_all add: sweep_simps)
    have "finished c" if "c \<in> set (sn_Children b)" for c
      using that q b(1) by (auto simp: finished_def)
    then have "room_edit tasks a b"
      by (intro edit_sweep [OF b(1)]) (use b(2) in \<open>simp_all add: busy_def running_def\<close>)
    moreover have "same_ids a b" by (rule same_ids_sweep [OF b(1)]) simp
    ultimately show ?thesis ..
  qed (use run4 in simp)
qed simp

lemma edit_RequestStop:
  assumes "RequestStop_fn i now r tasks a = Inr b"
  shows "room_edit tasks a b \<and> same_ids a b"
proof (cases "b = a")
  case False
  let ?p = "\<lambda>c. \<not> (t_Status c = StatusInProgress \<or> t_RecoveryRequired c \<or> Terminal (t_Status c))"
  let ?f = "\<lambda>c. c\<lparr>t_Status := StatusCancelled, t_Error := ''parent stop requested'', t_WaitingOnTaskID := []\<rparr>"
  from assms False have b: "sn_Children b = map (\<lambda>c. if ?p c then ?f c else c) (sn_Children a)"
    "t_Status (sn_Root b) = StatusStopping" "\<not> Terminal (t_Status (sn_Root a))"
    by (auto simp: RequestStop_fn_def Let_def sweep_simps split: if_splits)
  have "room_edit tasks a b"
    by (rule edit_sweep [OF b(1)]) (use b in \<open>auto simp: busy_simps\<close>)
  moreover have "same_ids a b" by (rule same_ids_sweep [OF b(1)]) simp
  ultimately show ?thesis ..
qed simp

lemma edit_Recover:
  assumes "Recover_fn r now a = Inr b"
  shows "room_edit tasks a b \<and> same_ids a b"
proof -
  let ?f = "\<lambda>c. c\<lparr>t_Status := StatusBlocked, t_RecoveryRequired := True,
    t_Error := ''service restarted; verify the previous execution and saved artifacts before resuming''\<rparr>"
  from assms have b: "sn_Children b = map (\<lambda>c. if running c then ?f c else c) (sn_Children a)" "sn_Root b = sn_Root a"
    by (auto simp: Recover_fn_def sweep_simps)
  have "\<forall>c \<in> set (sn_Children b). finished c" if "Terminal (t_Status (sn_Root b))" "closed a"
    using that b by (fastforce simp: closed_def finished_def running_def)
  then have "room_edit tasks a b"
    by (intro edit_sweep [OF b(1)]) (use b in \<open>auto simp: busy_def\<close>)
  moreover have "same_ids a b" by (rule same_ids_sweep [OF b(1)]) simp
  ultimately show ?thesis ..
qed

lemma edit_MembersChanged:
  assumes "MembersChanged_fn now r tasks a = Inr b"
  shows "room_edit tasks a b \<and> same_ids a b"
proof -
  let ?p = "\<lambda>t. memberRemovalBlocks (t_Status t) \<and> \<not> worker r (t_AssignedTo t)"
  let ?f = "\<lambda>t. t\<lparr>t_Status := StatusBlocked, t_Error := ''assigned worker is no longer a room member''\<rparr>"
  from assms have b: "sn_Children b = map (\<lambda>c. if ?p c then ?f c else c) (sn_Children a)" "sn_Root b = sn_Root a"
    by (auto simp: MembersChanged_fn_def sweep_simps)
  have "\<forall>c \<in> set (sn_Children b). finished c" if "Terminal (t_Status (sn_Root b))" "closed a"
    using that b by (fastforce simp: closed_def finished_def memberRemovalBlocks_def)
  then have "room_edit tasks a b"
    by (intro edit_sweep [OF b(1)]) (use b(2) in \<open>simp_all add: busy_def running_def\<close>)
  moreover have "same_ids a b" by (rule same_ids_sweep [OF b(1)]) simp
  ultimately show ?thesis ..
qed

lemma edit_ResolveRecovery:
  assumes "ResolveRecovery_fn i attempt assessment now r tasks a = Inr b"
  shows "room_edit tasks a b \<and> same_ids a b"
proof -
  from assms obtain t where t: "child a i = Some t" "t_RecoveryRequired t"
    by (cases "child a i") (auto simp: ResolveRecovery_fn_def split: if_splits)
  let ?t1 = "t\<lparr>t_RecoveryRequired := False, t_Error := assessment\<rparr>"
  let ?t = "if t_Status (sn_Root a) = StatusStopping then ?t1\<lparr>t_Status := StatusCancelled\<rparr> else ?t1"
  from assms t have b: "sn_Children b = replace_first i ?t (sn_Children a)" "sn_Root b = sn_Root a"
    by (auto simp: ResolveRecovery_fn_def Let_def split: if_splits)
  show ?thesis
    by (rule edit_calm [OF t(1) _ _ _ _ _ b]) (use t in \<open>auto simp: busy_simps split: if_splits\<close>)
qed

lemma edit_WorkerStopped:
  assumes "WorkerStopped_fn i actor attempt now r tasks a = Inr b"
  shows "room_edit tasks a b \<and> same_ids a b"
proof (cases "b = a")
  case False
  with assms obtain t where t: "child a i = Some t" "running t"
    by (cases "child a i") (auto simp: WorkerStopped_fn_def split: if_splits)
  let ?t = "t\<lparr>t_Status := StatusCancelled, t_Error := ''stopped by user''\<rparr>"
  from assms t False have b: "sn_Children b = replace_first i ?t (sn_Children a)" "sn_Root b = sn_Root a"
    by (auto simp: WorkerStopped_fn_def Let_def split: if_splits)
  show ?thesis
    by (rule edit_calm [OF t(1) _ _ _ _ _ b]) (use t in \<open>auto simp: busy_simps\<close>)
qed simp

lemma edit_CancelAgentTask:
  assumes "CancelAgentTask_fn i who now a = Inr b"
  shows "room_edit tasks a b \<and> same_ids a b"
proof (cases "b = a")
  case False
  with assms obtain t where t: "child a i = Some t"
    by (cases "child a i") (auto simp: CancelAgentTask_fn_def split: if_splits)
  let ?t = "t\<lparr>t_Status := StatusCancelled, t_Error := ''agent archived'', t_WaitingOnTaskID := [],
    t_RecoveryRequired := False, t_UpdatedAt := now\<rparr>"
  from assms t False have b: "sn_Children b = replace_first i ?t (sn_Children a)" "sn_Root b = sn_Root a"
    by (auto simp: CancelAgentTask_fn_def Let_def split: if_splits)
  show ?thesis
    by (rule edit_calm [OF t(1) _ _ _ _ _ b]) (simp_all add: busy_simps)
qed simp

lemma edit_ReleaseCapacity:
  assumes "ReleaseCapacity_fn r i now a = Inr (b, v)"
  shows "room_edit tasks a b \<and> same_ids a b"
proof (cases "b = a")
  case False
  with assms obtain t where t: "child a i = Some t" "\<not> Terminal (t_Status (sn_Root a))"
    by (cases "child a i") (auto simp: ReleaseCapacity_fn_def split: if_splits)
  let ?t = "t\<lparr>t_Status := StatusPending, t_WaitingOnTaskID := [], t_Error := []\<rparr>"
  from assms t False have b: "sn_Children b = replace_first i ?t (sn_Children a)" "sn_Root b = sn_Root a"
    by (auto simp: ReleaseCapacity_fn_def Let_def split: if_splits)
  show ?thesis
    by (rule edit_calm [OF t(1) _ _ _ _ _ b]) (use t in \<open>auto simp: busy_simps\<close>)
qed simp

lemma edit_RecordNext:
  assumes "RecordNext_fn r i now a = Inr (b, v)"
  shows "room_edit tasks a b \<and> same_ids a b"
  using assms by (auto simp: RecordNext_fn_def split: if_splits)

subsection \<open>Planning\<close>

lemma allocate_ids_draws:
  assumes "allocate_ids items ids x = (res, y)"
  shows "\<exists>is. draws x is y \<and> length is \<le> length items \<and>
    (\<forall>ids'. res = Inr ids' \<longrightarrow> (\<forall>item \<in> set items. ref_id ids' (pi_IDRef item) \<in> set is) \<and>
       (\<forall>k. k \<notin> pi_IDRef ` set items \<longrightarrow> mget ids' k = mget ids k))"
  using assms
proof (induction items arbitrary: ids x)
  case Nil
  then show ?case by (auto intro: draws_none)
next
  case (Cons item items)
  obtain r x1 where n: "Next x = (r, x1)" by (cases "Next x")
  show ?case
  proof (cases r)
    case (Inl e)
    with Cons.prems n have "y = x1" "res = Inl e" by simp_all
    with n Inl show ?thesis by (intro exI [of _ "[]"]) (auto intro: draws_fail draws_none)
  next
    case (Inr v)
    with Cons.prems n have "allocate_ids items (mput (pi_IDRef item) v ids) x1 = (res, y)" by simp
    from Cons.IH [OF this] obtain "is" where i: "draws x1 is y" "length is \<le> length items"
      "\<forall>ids'. res = Inr ids' \<longrightarrow> (\<forall>item \<in> set items. ref_id ids' (pi_IDRef item) \<in> set is) \<and>
        (\<forall>k. k \<notin> pi_IDRef ` set items \<longrightarrow> mget ids' k = mget (mput (pi_IDRef item) v ids) k)" by blast
    have "ref_id ids' (pi_IDRef item) \<in> set (v # is)" if r: "res = Inr ids'" for ids'
    proof (cases "pi_IDRef item \<in> pi_IDRef ` set items")
      case True
      then obtain it where "it \<in> set items" "pi_IDRef it = pi_IDRef item" by force
      with i(3) r have "ref_id ids' (pi_IDRef item) \<in> set is" by metis
      then show ?thesis by simp
    next
      case False
      with i(3) r have "mget ids' (pi_IDRef item) = Some v" by simp
      then show ?thesis by (simp add: ref_id_def)
    qed
    with i n Inr show ?thesis by (intro exI [of _ "v # is"]) (auto intro: draws_next)
  qed
qed

lemma plan_task_simps [simp]:
  "t_ID (plan_task room i r now ids root p item) = ref_id ids (pi_IDRef item)"
  "t_Status (plan_task room i r now ids root p item) = StatusPending"
  "\<not> t_RecoveryRequired (plan_task room i r now ids root p item)"
  "t_DependsOn (plan_task room i r now ids root p item) = map (ref_id ids) (pi_DependsOnRefs item)"
  by (simp_all add: plan_task_def zero_task_def)

fun planned :: "string \<Rightarrow> string \<Rightarrow> Roster \<Rightarrow> time \<Rightarrow> (string, string) gomap \<Rightarrow> Task \<Rightarrow> PlanItem list \<Rightarrow> Task list" where
  "planned room i r now ids root [] = []"
| "planned room i r now ids root (item # items) =
     plan_task room i r now ids root (length (item # items)) item # planned room i r now ids root items"

lemma add_plan_tasks_simps [simp]:
  "sn_Root (add_plan_tasks room i r now ids items a) = sn_Root a"
  "sn_Children (add_plan_tasks room i r now ids items a) =
     sn_Children a @ planned room i r now ids (sn_Root a) items"
  by (induction items arbitrary: a) (simp_all add: Let_def)

lemma set_planned:
  "c \<in> set (planned room i r now ids root items) \<Longrightarrow>
     \<exists>item \<in> set items. \<exists>p. c = plan_task room i r now ids root p item"
  by (induction items) auto

lemma map_ID_planned [simp]:
  "map t_ID (planned room i r now ids root items) = map (\<lambda>item. ref_id ids (pi_IDRef item)) items"
  by (induction items) simp_all

lemma edit_planned:
  assumes "\<not> Terminal (t_Status (sn_Root a))" and "\<not> Terminal (t_Status (sn_Root b))"
    and "sn_Children b = sn_Children a @ planned room i r now ids root items"
  shows "room_edit tasks a b"
proof -
  have "busy_from a c" if "c \<in> set (sn_Children b)" "busy c" for c
    using that by (auto simp: assms(3) busy_from_def busy_simps dest!: set_planned)
  with assms(1,2) show ?thesis by (auto simp: room_edit_def closed_def)
qed

text \<open>The planning callbacks draw one ID for each item and are edits that add children under them.\<close>

definition plan_run :: "nat \<Rightarrow> Task list \<Rightarrow> Snapshot \<Rightarrow> alloc_state \<Rightarrow> (error + Snapshot \<times> unit) \<times> alloc_state \<Rightarrow> bool" where
  "plan_run n tasks a x out \<longleftrightarrow> (case out of (res, y) \<Rightarrow>
     \<exists>ids. draws x ids y \<and> length ids \<le> n \<and>
       (\<forall>b. res = Inr (b, ()) \<longrightarrow> room_edit tasks a b \<and>
          t_ID ` set (sn_Children b) \<subseteq> t_ID ` set (sn_Children a) \<union> set ids))"

lemma plan_run_refused [simp]: "plan_run n tasks a x (Inl e, x)" "plan_run n tasks a x (Inr (a, ()), x)"
  by (auto simp: plan_run_def intro: exI [of _ "[]"] draws_none)

lemma plan_run_drawn:
  assumes "allocate_ids items m0 x = (r1, y)" and "\<not> Terminal (t_Status (sn_Root a))"
    and "case r1 of Inl e \<Rightarrow> res = Inl e | Inr m \<Rightarrow> \<exists>b. res = Inr (b, ()) \<and> \<not> Terminal (t_Status (sn_Root b)) \<and>
       sn_Children b = sn_Children a @ planned room i r now m (sn_Root a) items"
  shows "plan_run (length items) tasks a x (res, y)"
proof -
  obtain ids where d: "draws x ids y" "length ids \<le> length items"
    and n: "\<And>m item. r1 = Inr m \<Longrightarrow> item \<in> set items \<Longrightarrow> ref_id m (pi_IDRef item) \<in> set ids"
    using allocate_ids_draws [OF assms(1)] by blast
  have "room_edit tasks a b \<and> t_ID ` set (sn_Children b) \<subseteq> t_ID ` set (sn_Children a) \<union> set ids"
    if "res = Inr (b, ())" for b
  proof -
    from assms(3) that obtain m where m: "r1 = Inr m" "\<not> Terminal (t_Status (sn_Root b))"
      "sn_Children b = sn_Children a @ planned room i r now m (sn_Root a) items"
      by (auto split: sum.splits)
    have "t_ID ` set (planned room i r now m (sn_Root a) items) \<subseteq> set ids"
      using n [OF m(1)] by (auto dest!: set_planned)
    then have "t_ID ` set (sn_Children b) \<subseteq> t_ID ` set (sn_Children a) \<union> set ids"
      unfolding m(3) by auto
    with edit_planned [OF assms(2) m(2,3)] show ?thesis by simp
  qed
  with d show ?thesis by (auto simp: plan_run_def)
qed

lemma edit_Plan: "plan_run (length items) tasks a x (Plan_fn room i summary items autoStart now r tasks a x)"
proof (cases "t_ID (sn_Root a) \<noteq> i \<or> Terminal (t_Status (sn_Root a)) \<or> t_Status (sn_Root a) = StatusStopping")
  case True
  then show ?thesis by (simp add: Plan_fn_def)
next
  case active: False
  show ?thesis
  proof (cases "validatePlan items r [] = Inr () \<and> sn_Children a = []")
    case False
    with active show ?thesis by (cases "validatePlan items r []") (simp_all add: Plan_fn_def)
  next
    case True
    obtain r1 y where al: "allocate_ids items [] x = (r1, y)" by (cases "allocate_ids items [] x")
    obtain res where res: "Plan_fn room i summary items autoStart now r tasks a x = (res, y)"
      "case r1 of Inl e \<Rightarrow> res = Inl e | Inr m \<Rightarrow> \<exists>b. res = Inr (b, ()) \<and> \<not> Terminal (t_Status (sn_Root b)) \<and>
         sn_Children b = sn_Children a @ planned room i r now m (sn_Root a) items"
      using al active True by (cases r1) (simp_all add: Plan_fn_def Let_def)
    from plan_run_drawn [OF al _ res(2)] active res(1) show ?thesis by simp
  qed
qed

lemma edit_AppendPlan:
  "plan_run (length items) tasks a x (AppendPlan_fn room i requestID hash summary items now r tasks a x)"
proof (cases "t_ID (sn_Root a) = i \<and> find (\<lambda>e. e_Type e = EventExtended \<and> e_RequestID e = requestID) (sn_Events a) = None
    \<and> \<not> (Terminal (t_Status (sn_Root a)) \<or> t_Status (sn_Root a) = StatusStopping \<or> sn_Children a = [])
    \<and> validatePlan items r (sn_Children a) = Inr ()")
  case False
  then show ?thesis by (auto simp: AppendPlan_fn_def split: option.splits sum.splits)
next
  case True
  let ?ids0 = "foldl (\<lambda>m t. mput (t_ID t) (t_ID t) m) [] (sn_Children a)"
  obtain r1 y where al: "allocate_ids items ?ids0 x = (r1, y)" by (cases "allocate_ids items ?ids0 x")
  obtain res where res: "AppendPlan_fn room i requestID hash summary items now r tasks a x = (res, y)"
    "case r1 of Inl e \<Rightarrow> res = Inl e | Inr m \<Rightarrow> \<exists>b. res = Inr (b, ()) \<and> \<not> Terminal (t_Status (sn_Root b)) \<and>
       sn_Children b = sn_Children a @ planned room i r now m (sn_Root a) items"
    using al True by (cases r1) (simp_all add: AppendPlan_fn_def Let_def)
  from plan_run_drawn [OF al _ res(2)] True res(1) show ?thesis by simp
qed

end
