(* ===== verification/RoomRun.thy ===== *)
theory RoomRun
  imports RoomTask
begin

section \<open>Relations along the room operations\<close>

text \<open>
  The operations of the room service are built from transactions on the task service and from
  deliveries. A preorder on the states that every transaction of the notification replay and
  every delivery respects holds along the whole replay: \<open>delivery\<close> states what is required and
  carries the inductions over the loops, once for all relations.
\<close>

definition along :: "(room_state \<Rightarrow> room_state \<Rightarrow> bool) \<Rightarrow> 'a room \<Rightarrow> room_state \<Rightarrow> bool" where
  "along R m x \<longleftrightarrow> R x (snd (m x))"

definition alongF :: "(room_state \<Rightarrow> room_state \<Rightarrow> bool) \<Rightarrow> 'a froom \<Rightarrow> room_state \<Rightarrow> bool" where
  "alongF R m x \<longleftrightarrow> (\<forall>res y. m x = Some (res, y) \<longrightarrow> R x y)"

named_theorems along_intros \<open>rules for relations along an operation\<close>

lemma along_if [along_intros]: "(b \<Longrightarrow> along R m x) \<Longrightarrow> (\<not> b \<Longrightarrow> along R n x) \<Longrightarrow> along R (if b then m else n) x"
  by simp

lemma alongF_run [along_intros]: "along R m x \<Longrightarrow> alongF R (run_room m) x"
  by (auto simp: along_def alongF_def run_room_def)

lemma alongF_fuel [along_intros]: "alongF R out_of_fuel x"
  by (simp add: alongF_def out_of_fuel_def)

lemma alongF_D: "alongF R m x \<Longrightarrow> m x = Some (res, y) \<Longrightarrow> R x y"
  unfolding alongF_def by blast

locale run_preorder =
  fixes R :: "room_state \<Rightarrow> room_state \<Rightarrow> bool"
  assumes refl_run: "R x x"
    and trans_run: "R x y \<Longrightarrow> R y z \<Longrightarrow> R x z"
begin

lemma along_return [along_intros]: "along R (returnE a) x" "along R (throwE e) x"
  by (simp_all add: along_def refl_run)

lemma along_bind [along_intros]:
  assumes "along R m x" and "\<And>a y. along R (k a) y"
  shows "along R (bindE m k) x"
proof -
  obtain res y where m: "m x = (res, y)" by (rule prod.exhaust)
  with assms(1) have xy: "R x y" by (simp add: along_def)
  show ?thesis
  proof (cases res)
    case (Inr a)
    from xy assms(2) [of a y] have "R x (snd (k a y))" unfolding along_def by (rule trans_run)
    with m Inr show ?thesis by (simp add: along_def)
  qed (use m xy in \<open>simp add: along_def\<close>)
qed

lemma alongF_bind [along_intros]:
  assumes "alongF R m x" and "\<And>a y. alongF R (k a) y"
  shows "alongF R (bindF m k) x"
  unfolding alongF_def
proof (intro allI impI)
  fix res y
  assume run: "bindF m k x = Some (res, y)"
  then obtain r1 z where r1: "m x = Some (r1, z)" by (auto simp: bindF_def split: option.splits)
  with assms(1) have "R x z" unfolding alongF_def by blast
  moreover have "R z y"
  proof (cases r1)
    case (Inr a)
    with run r1 have "k a z = Some (res, y)" by (simp add: bindF_def)
    with assms(2) show ?thesis unfolding alongF_def by blast
  qed (use run r1 refl_run in \<open>simp add: bindF_def\<close>)
  ultimately show "R x y" by (rule trans_run)
qed

end

locale delivery = run_preorder R for R :: "room_state \<Rightarrow> room_state \<Rightarrow> bool" +
  assumes along_send [along_intros]: "along R (send p) x"
    and along_mark [along_intros]: "along R (on_core (Mutate i mark_delivered clock)) x"
    and along_next [along_intros]: "along R (on_core (Mutate i (\<lambda>a x. (RecordNext_fn r i now a, x)) clock)) x"
    and along_release [along_intros]: "along R (on_core (Mutate i (\<lambda>a x. (ReleaseCapacity_fn r i now a, x)) clock)) x"
begin

lemma along_deliver_events [along_intros]: "along R (deliver_events r now root es) x"
proof (induction es arbitrary: x)
  case (Cons e es)
  obtain rs s w where x: "x = (rs, (s, w))" by (cases x)
  show ?case
  proof (cases "projection s root e r")
    case None
    with Cons.IH [of x] show ?thesis by (simp add: x along_def)
  next
    case (Some p)
    let ?m = "bindE (send p) (\<lambda>_.
      bindE (if e_Type e = EventReported
             then on_core (Mutate (t_ID root) mark_delivered (\<lambda>_. now)) else returnE ()) (\<lambda>_.
        deliver_events r now root es))"
    have "along R ?m x" by (intro along_intros Cons.IH)
    with Some show ?thesis by (simp add: x along_def)
  qed
qed (simp add: along_def refl_run)

lemma along_deliver_roots [along_intros]: "along R (deliver_roots r now roots) x"
proof (induction roots arbitrary: x)
  case (Cons root roots)
  obtain rs s w where x: "x = (rs, (s, w))" by (cases x)
  have "along R (bindE (deliver_events r now root (Events s (t_ID root))) (\<lambda>_. deliver_roots r now roots)) x"
    by (intro along_intros Cons.IH)
  with Cons.IH [of x] show ?case by (simp add: x along_def)
qed (simp add: along_def refl_run)

lemma along_recordNext [along_intros]: "along R (recordNext roster room now) x"
proof -
  obtain rs s w where x: "x = (rs, (s, w))" by (cases x)
  have "along R (on_core (Mutate i (\<lambda>a x. (RecordNext_fn r i now a, x)) (\<lambda>_. now))) x" for i r
    by (intro along_intros)
  then show ?thesis by (auto simp: x along_def recordNext_def Let_def refl_run split: sum.splits)
qed

lemma along_release_tasks [along_intros]: "along R (release_tasks roster now all ts rooms) x"
proof (induction ts arbitrary: rooms x)
  case (Cons t ts)
  then show ?case by (auto split: sum.splits option.splits intro!: along_intros)
qed (simp add: along_def refl_run)

lemma along_RetryDelivery [along_intros]:
  "alongF R (RetryDelivery n roster now room) x"
  "alongF R (releaseCapacity n roster now) x"
  "alongF R (retry_rooms n roster now rooms) x"
proof (induction n roster now room and n roster now and n roster now rooms arbitrary: x and x and x
    rule: RetryDelivery_releaseCapacity_retry_rooms.induct)
  case (2 n roster now room)
  obtain rs s w where x: "x = (rs, (s, w))" by (cases x)
  have "alongF R (bindF (run_room (deliver_roots r now (RoomList s room))) (\<lambda>_.
      bindF (run_room (recordNext roster room now)) (\<lambda>created.
        if created then RetryDelivery n roster now room else releaseCapacity n roster now))) x"
    if "members roster room = Inr r" "rs_hasSend rs" for r
    by (intro along_intros) (use 2 that in \<open>auto intro!: along_intros\<close>)
  then show ?case by (auto simp: x alongF_def refl_run split: sum.splits)
next
  case (4 n roster now)
  obtain rs s w where x: "x = (rs, (s, w))" by (cases x)
  have "alongF R (bindF (run_room (release_tasks roster now (RoomList s []) (RoomList s []) []))
      (\<lambda>rooms. retry_rooms n roster now rooms)) x"
    by (intro along_intros) (use 4 in blast)
  then show ?case by (simp add: x alongF_def Let_def)
qed (auto intro!: along_intros)

end

end
