(* ===== verification/RoomInv.thy ===== *)
theory RoomInv
  imports RoomEdits RoomRun
begin

section \<open>Room operations as sequences of transactions\<close>

text \<open>
  Every operation of the room service, with the notifications it replays, is a sequence of room
  transactions: each leaves the tasks as they are or installs one edited aggregate. The
  invariants of the room work are proved of one transaction and lifted to all operations.
\<close>

definition svc_good :: "Service \<Rightarrow> bool" where
  "svc_good s \<longleftrightarrow> svc_wf s \<and> ids_ok s"

definition room_tx :: "Service \<Rightarrow> Service \<Rightarrow> bool" where
  "room_tx s s' \<longleftrightarrow> svc_good s' \<and>
     ((\<exists>al. s' = s\<lparr>s_taskIDs := al\<rparr>) \<or>
      (\<exists>r root al sn seq. mget (s_roots s) r = Some root \<and> t_ID (sn_Root sn) = r \<and>
         s' = install r sn seq (s\<lparr>s_taskIDs := al\<rparr>) \<and>
         room_edit (RoomList s []) (snapshotLocked s r) sn \<and> same_aggregate root sn \<and>
         (\<exists>evs. sn_Events sn = mgets (s_events s) r @ evs)))"

lemma Mutate_tx:
  assumes run: "Mutate i fn clock (s, w) = (res, (s', w'))"
    and fresh: "fresh_change fn (s_taskIDs s, w)" and wf: "svc_good s"
    and edit: "\<And>a x b v y. fn a x = (Inr (b, v), y) \<Longrightarrow> room_edit (RoomList s []) a b"
  shows "room_tx s s'"
proof -
  have wf': "svc_good s'"
    using Mutate_wf [OF run fresh] Mutate_ids [OF run fresh] wf by (simp add: svc_good_def)
  from run fresh show ?thesis
  proof (cases rule: Mutate_cases)
    case (refused e a)
    with wf' show ?thesis by (auto simp: room_tx_def)
  next
    case (attempted r t ids a w1 sn evs v new seq x)
    show ?thesis
    proof (cases "is_ok x")
      case False
      with wf' attempted(15) show ?thesis by (auto simp: room_tx_def)
    next
      case True
      obtain root where root: "mget (s_roots s) r = Some root"
        using requireTaskLocked_root [OF attempted(1)] wf by (auto simp: svc_good_def)
      from attempted(16) edit have "room_edit (RoomList s []) (snapshotLocked s r) sn"
        by (fastforce simp: room_edit_def closed_def)
      with wf' True root attempted(5,8,10,15) sn_Root_snapshotLocked [OF root] show ?thesis
        unfolding room_tx_def by (intro conjI disjI2 exI [of _ r] exI [of _ root] exI [of _ a]) auto
    qed
  qed
qed

definition advances :: "room_state \<Rightarrow> room_state \<Rightarrow> bool" where
  "advances x y \<longleftrightarrow> rs_closing (fst y) = rs_closing (fst x) \<and>
     (svc_good (fst (snd x)) \<longrightarrow> room_tx\<^sup>*\<^sup>* (fst (snd x)) (fst (snd y)))"

lemma txs_wf: "room_tx\<^sup>*\<^sup>* s s' \<Longrightarrow> svc_good s \<Longrightarrow> svc_good s'"
  by (induction rule: rtranclp_induct) (auto simp: room_tx_def)

lemma advances_refl [simp, intro]: "advances x x"
  by (simp add: advances_def)

lemma advances_rs [simp]:
  "rs_closing rs' = rs_closing rs \<Longrightarrow> advances (rs, x) (rs', x)"
  by (simp add: advances_def)

lemma advances_trans [trans]: "advances x y \<Longrightarrow> advances y z \<Longrightarrow> advances x z"
  by (auto simp: advances_def dest: txs_wf intro: rtranclp_trans)

abbreviation room_op :: "'a room \<Rightarrow> room_state \<Rightarrow> bool" where
  "room_op \<equiv> along advances"

abbreviation room_fop :: "'a froom \<Rightarrow> room_state \<Rightarrow> bool" where
  "room_fop \<equiv> alongF advances"

subsection \<open>Transactions of the callbacks\<close>

definition calm :: "'r change \<Rightarrow> bool" where
  "calm fn \<longleftrightarrow> (\<forall>a x. snd (fn a x) = x \<and>
     (\<forall>b v tasks. fst (fn a x) = Inr (b, v) \<longrightarrow> room_edit tasks a b \<and> same_ids a b))"

lemma pure_fresh:
  assumes "\<And>a x. snd (fn a x) = x" and "\<And>a x b v. fst (fn a x) = Inr (b, v) \<Longrightarrow> same_ids a b"
  shows "fresh_change fn x"
  unfolding fresh_change_def
proof (intro allI impI)
  fix sn res y
  assume r: "fn sn x = (res, y)"
  then have "y = x" using assms(1) [of sn x] by simp
  with r show "\<exists>ids. ids_drawn x y \<and>
      (\<forall>i \<in> set ids. \<not> covered (al_next (fst x)) i \<and> covered (al_next (fst y)) i) \<and>
      (\<forall>next v. res = Inr (next, v) \<longrightarrow> t_ID ` set (sn_Children next) \<subseteq> t_ID ` set (sn_Children sn) \<union> set ids)"
    using assms(2) [of sn x] by (intro exI [of _ "[]"]) (auto simp: same_ids_def)
qed

lemma room_op_Mutate [along_intros]:
  assumes "calm fn"
  shows "room_op (on_core (Mutate i fn clock)) x"
proof -
  obtain rs s w where x: "x = (rs, (s, w))" by (cases x)
  obtain res s' w' where run: "Mutate i fn clock (s, w) = (res, (s', w'))" by (metis prod_cases3)
  have fresh: "fresh_change fn (s_taskIDs s, w)"
    using assms unfolding calm_def by (intro pure_fresh) blast+
  have "room_tx s s'" if "svc_good s"
  proof (rule Mutate_tx [OF run fresh that])
    show "room_edit (RoomList s []) a b" if "fn a x = (Inr (b, v), y)" for a x b v y
      using assms that unfolding calm_def by (metis fst_conv)
  qed
  with run show ?thesis
    by (auto simp: x on_core_def advances_def along_def)
qed

lemma calm_intros [along_intros]:
  "calm mark_delivered"
  "calm (\<lambda>a x. (RecordNext_fn r i now a, x))"
  "calm (\<lambda>a x. (ReleaseCapacity_fn r i now a, x))"
  "calm (pure_edit (\<lambda>r _ a. Recover_fn r now a) r [])"
  "calm (\<lambda>a x. (map_sum id (\<lambda>b. (b, ())) (CancelAgentTask_fn i who now a), x))"
proof -
  have ms: "map_sum id (\<lambda>b. (b, ())) e = Inr (b, v) \<longleftrightarrow> e = Inr b" for e :: "error + Snapshot" and b v
    by (cases e) auto
  show "calm mark_delivered"
    by (auto simp: calm_def mark_delivered_def same_ids_def room_edit_def busy_from_def closed_def)
  show "calm (\<lambda>a x. (RecordNext_fn r i now a, x))" by (auto simp: calm_def dest: edit_RecordNext)
  show "calm (\<lambda>a x. (ReleaseCapacity_fn r i now a, x))" by (auto simp: calm_def dest: edit_ReleaseCapacity)
  show "calm (pure_edit (\<lambda>r _ a. Recover_fn r now a) r [])"
    by (auto simp: calm_def pure_edit_def ms dest: edit_Recover)
  show "calm (\<lambda>a x. (map_sum id (\<lambda>b. (b, ())) (CancelAgentTask_fn i who now a), x))"
    by (auto simp: calm_def ms dest: edit_CancelAgentTask)
qed

subsection \<open>Delivery\<close>

interpretation adv: delivery advances
proof unfold_locales
  show "room_op (send p) x" for p x
    by (auto simp: along_def send_def Let_def split: list.splits prod.splits)
qed (auto intro: advances_trans room_op_Mutate calm_intros)

subsection \<open>The operations\<close>

lemma room_op_changeState:
  assumes "\<And>r a z. snd (fn r (RoomList (fst (snd x)) []) a z) = z"
    and "\<And>r a z b v. fst (fn r (RoomList (fst (snd x)) []) a z) = Inr (b, v) \<Longrightarrow>
      room_edit (RoomList (fst (snd x)) []) a b \<and> same_ids a b"
  shows "room_op (changeState roster room i fn now) x"
proof -
  obtain rs s w where x: "x = (rs, (s, w))" by (cases x)
  have tx: "room_tx s s'" if run: "Mutate i (fn r (RoomList s [])) clock (s, w) = (res, (s', w'))" and g: "svc_good s"
    for r clock res s' w'
  proof (rule Mutate_tx [OF run _ g])
    show "fresh_change (fn r (RoomList s [])) (s_taskIDs s, w)"
      by (rule pure_fresh) (use assms in \<open>auto simp: x\<close>)
    show "room_edit (RoomList s []) a b" if "fn r (RoomList s []) a z = (Inr (b, v), y)" for a z b v y
      using assms(2) [of r a z b v] that by (simp add: x)
  qed
  show ?thesis
  proof (cases "members roster room")
    case (Inr r)
    obtain res s' w' where run: "Mutate i (fn r (RoomList s [])) (\<lambda>_. now) (s, w) = (res, (s', w'))"
      by (metis prod_cases3)
    from tx [OF run] run Inr show ?thesis
      by (auto simp: along_def changeState_def x on_core_def advances_def)
  qed (simp add: along_def changeState_def x)
qed

lemma room_op_edit:
  assumes "\<And>r tasks a b. f r tasks a = Inr b \<Longrightarrow> room_edit tasks a b \<and> same_ids a b"
  shows "room_op (changeState roster room i (pure_edit f) now) x"
proof (rule room_op_changeState)
  show "room_edit (RoomList (fst (snd x)) []) a b \<and> same_ids a b"
    if "fst (pure_edit f r (RoomList (fst (snd x)) []) a z) = Inr (b, v)" for r a z b v
    using that assms [of r "RoomList (fst (snd x)) []" a b]
    by (cases "f r (RoomList (fst (snd x)) []) a") (simp_all add: pure_edit_def)
qed (simp add: pure_edit_def)

lemma room_fop_edit:
  assumes "\<And>r tasks a b. f r tasks a = Inr b \<Longrightarrow> room_edit tasks a b \<and> same_ids a b"
  shows "room_fop (change fuel roster room i (pure_edit f) now) x"
  unfolding change_def by (intro along_intros room_op_edit assms)

lemma room_fop_ops [along_intros]:
  "room_fop (Start fuel roster room i now) x"
  "room_fop (Dispatch fuel roster room i assignee now) x"
  "room_fop (UpdateExecution fuel roster room i actor status result reason attempt now) x"
  "room_fop (Review fuel roster room i attempt accept summary now) x"
  "room_fop (Report fuel roster room i outcome summary now) x"
  "room_fop (RequestStop fuel roster room i now) x"
  "room_fop (ResolveRecovery fuel roster room i attempt summary now) x"
  "room_fop (WorkerStopped fuel roster room i actor attempt now) x"
  unfolding Start_def Dispatch_def UpdateExecution_def Review_def Report_def RequestStop_def
    ResolveRecovery_def WorkerStopped_def Let_def
  by (auto intro!: room_fop_edit alongF_run room_op_edit adv.along_return dest: edit_Start edit_Dispatch
      edit_UpdateExecution edit_Review edit_Report edit_RequestStop edit_ResolveRecovery edit_WorkerStopped)

lemma room_fop_MembersChanged [along_intros]: "room_fop (MembersChanged fuel roster room now) x"
proof -
  have "room_fop (members_changed_roots fuel roster room now roots) x" for roots x
  proof (induction roots arbitrary: x)
    case (Cons root roots)
    then show ?case by (auto intro!: along_intros room_fop_edit edit_MembersChanged)
  qed (simp add: along_intros)
  then show ?thesis by (cases x) (simp add: MembersChanged_def alongF_def)
qed

lemma room_op_Recover [along_intros]: "room_op (Recover roster now) x"
proof -
  have "room_op (recover_roots roster now roots) x" for roots x
  proof (induction roots arbitrary: x)
    case (Cons root roots)
    then show ?case by (auto split: sum.splits intro!: along_intros)
  qed (simp add: along_intros)
  then show ?thesis by (cases x) (simp add: Recover_def along_def)
qed

lemma room_op_CancelAgentTasks [along_intros]: "room_op (CancelAgentTasks actors now) x"
proof -
  have "room_op (cancel_agent_tasks actors now ts) x" for ts x
  proof (induction ts arbitrary: x)
    case (Cons t ts)
    then show ?case by (auto intro!: along_intros)
  qed (simp add: along_intros)
  then show ?thesis by (cases x) (simp add: CancelAgentTasks_def along_def)
qed

text \<open>The planning operations draw IDs: the counter must leave room for them.\<close>

lemma plan_run_change_ok:
  assumes "\<And>a x. plan_run n tasks a x (fn a x)"
  shows "change_ok n fn"
  unfolding change_ok_def
proof (intro allI impI)
  fix sn x res y
  assume "fn sn x = (res, y)"
  with assms [of sn x] show "\<exists>is. draws x is y \<and> length is \<le> n \<and>
      (\<forall>next v. res = Inr (next, v) \<longrightarrow>
         t_ID ` set (sn_Children next) \<subseteq> t_ID ` set (sn_Children sn) \<union> set is)"
    by (auto simp: plan_run_def)
qed

lemma plan_run_tx:
  assumes run: "Mutate i fn clock (s, w) = (res, (s', w'))" and g: "svc_good s"
    and plan: "\<And>a x. plan_run n (RoomList s []) a x (fn a x)" and room: "alloc_room n (s_taskIDs s, w)"
  shows "room_tx s s'"
proof (rule Mutate_tx [OF run _ g])
  show "fresh_change fn (s_taskIDs s, w)"
    by (rule change_ok_fresh [OF plan_run_change_ok [OF plan] room])
  show "room_edit (RoomList s []) a b" if "fn a x = (Inr (b, v), y)" for a x b v y
    using plan [of a x] that by (auto simp: plan_run_def)
qed

lemma room_fop_plan:
  assumes "\<And>r tasks a z. plan_run n tasks a z (fn r tasks a z)"
    and "alloc_room n (s_taskIDs (fst (snd x)), snd (snd x))"
  shows "room_fop (change fuel roster room i fn now) x"
proof -
  obtain rs s w where x: "x = (rs, (s, w))" by (cases x)
  have "room_op (changeState roster room i fn now) x"
  proof (cases "members roster room")
    case (Inr r)
    obtain res s' w' where run: "Mutate i (fn r (RoomList s [])) (\<lambda>_. now) (s, w) = (res, (s', w'))"
      by (metis prod_cases3)
    from plan_run_tx [OF run _ assms(1), of] assms(2) run Inr show ?thesis
      by (auto simp: along_def changeState_def x on_core_def advances_def)
  qed (simp add: along_def changeState_def x)
  then show ?thesis unfolding change_def by (intro along_intros)
qed

lemma room_fop_Plan:
  "alloc_room (length items) (s_taskIDs (fst (snd x)), snd (snd x)) \<Longrightarrow>
     room_fop (Plan fuel roster room i summary items autoStart now) x"
  "alloc_room (length items) (s_taskIDs (fst (snd x)), snd (snd x)) \<Longrightarrow>
     room_fop (AppendPlan digest fuel roster room i requestID summary items now) x"
  unfolding Plan_def AppendPlan_def Let_def
  by (auto intro!: room_fop_plan alongF_run adv.along_return edit_Plan edit_AppendPlan)

end
