(* ===== verification/RoomProps.thy ===== *)
theory RoomProps
  imports RoomInv
begin

section \<open>Invariants of room work\<close>

text \<open>
  The state invariants of the room service: one execution per worker, a closed parent leaves no
  open child, and a room that is being deleted has no work left. They are proved of one room
  transaction and of the creation of a parent, and hold in every state the room operations
  reach.
\<close>

definition agg_ok :: "Service \<Rightarrow> bool" where
  "agg_ok s \<longleftrightarrow> (\<forall>r root. mget (s_roots s) r = Some root \<longrightarrow> same_aggregate root (snapshotLocked s r))"

definition room_child :: "Service \<Rightarrow> Task \<Rightarrow> bool" where
  "room_child s c \<longleftrightarrow> (\<exists>r root. mget (s_roots s) r = Some root \<and>
     t_AssignmentType root = AssignmentTypeRoom \<and> c \<in> set (sn_Children (snapshotLocked s r)))"

definition capacity :: "Service \<Rightarrow> bool" where
  "capacity s \<longleftrightarrow> (\<forall>c d. room_child s c \<longrightarrow> room_child s d \<longrightarrow> busy c \<longrightarrow> busy d \<longrightarrow>
     t_AssignedTo c = t_AssignedTo d \<longrightarrow> t_ID c = t_ID d)"

definition closed_all :: "Service \<Rightarrow> bool" where
  "closed_all s \<longleftrightarrow> (\<forall>r root. mget (s_roots s) r = Some root \<longrightarrow>
     t_AssignmentType root = AssignmentTypeRoom \<longrightarrow> closed (snapshotLocked s r))"

definition quiet :: "Service \<Rightarrow> string \<Rightarrow> bool" where
  "quiet s room \<longleftrightarrow> (\<forall>r root. mget (s_roots s) r = Some root \<longrightarrow>
     t_AssignmentType root = AssignmentTypeRoom \<longrightarrow> t_RoomID root = room \<longrightarrow> Terminal (t_Status root))"

definition room_good :: "Service \<Rightarrow> bool" where
  "room_good s \<longleftrightarrow> svc_good s \<and> agg_ok s \<and> capacity s \<and> closed_all s"

subsection \<open>The listed tasks\<close>

lemma set_rows:
  "t \<in> set (concat (map (\<lambda>(_, root). root # g root) xs)) \<longleftrightarrow>
     (\<exists>r root. (r, root) \<in> set xs \<and> (t = root \<or> t \<in> set (g root)))"
  by (induction xs) auto

lemma set_all_tasks:
  assumes "svc_wf s"
  shows "t \<in> set (all_tasks s) \<longleftrightarrow>
    (\<exists>r root. mget (s_roots s) r = Some root \<and> (t = root \<or> t \<in> set (sn_Children (snapshotLocked s r))))"
proof -
  have d: "distinct (map fst (s_roots s))" using assms by (simp add: svc_wf_def)
  have mem: "(r, root) \<in> set (s_roots s) \<longleftrightarrow> mget (s_roots s) r = Some root" for r root
    using d by (auto dest: mget_mem)
  have "t \<in> set (all_tasks s) \<longleftrightarrow> (\<exists>r root. (r, root) \<in> set (s_roots s) \<and>
      (t = root \<or> t \<in> snd ` set (childrenForRootLocked s (t_ID root))))"
    unfolding all_tasks_def set_rows set_map ..
  also have "\<dots> \<longleftrightarrow> (\<exists>r root. mget (s_roots s) r = Some root \<and> (t = root \<or> t \<in> snd ` set (childrenForRootLocked s r)))"
    using svc_wf_root [OF assms] unfolding mem by metis
  finally show ?thesis by (simp add: snapshotLocked_def)
qed

lemma RoomList_child:
  assumes "svc_wf s" and "agg_ok s" and "room_child s c"
  shows "c \<in> set (RoomList s [])"
proof -
  from assms(3) obtain r root where r: "mget (s_roots s) r = Some root" "t_AssignmentType root = AssignmentTypeRoom"
    "c \<in> set (sn_Children (snapshotLocked s r))" by (auto simp: room_child_def)
  with assms(2) have "t_AssignmentType c = AssignmentTypeRoom" by (auto simp: agg_ok_def same_aggregate_def)
  with r set_all_tasks [OF assms(1)] show ?thesis by (auto simp: RoomList_def ListGlobal_def)
qed

lemma RoomList_cases:
  assumes "svc_wf s" and "agg_ok s" and "t \<in> set (RoomList s room)"
  obtains (root) r where "mget (s_roots s) r = Some t" and "t_ParentID t = []"
      and "t_AssignmentType t = AssignmentTypeRoom" and "room = [] \<or> t_RoomID t = room"
  | (child) r root where "mget (s_roots s) r = Some root" and "t_AssignmentType root = AssignmentTypeRoom"
      and "t \<in> set (sn_Children (snapshotLocked s r))" and "t_ParentID t \<noteq> []" and "room_child s t"
      and "room = [] \<or> t_RoomID root = room"
proof -
  from assms(3) set_all_tasks [OF assms(1)] obtain r root where r: "mget (s_roots s) r = Some root"
    "t = root \<or> t \<in> set (sn_Children (snapshotLocked s r))"
    and t: "t_AssignmentType t = AssignmentTypeRoom" "room = [] \<or> t_RoomID t = room"
    by (auto simp: RoomList_def ListGlobal_def)
  from assms(2) r(1) have agg: "same_aggregate root (snapshotLocked s r)" by (simp add: agg_ok_def)
  show ?thesis
  proof (cases "t = root")
    case True
    with r agg t that(1) show ?thesis by (auto simp: same_aggregate_def sn_Root_snapshotLocked)
  next
    case False
    with r(2) agg t have c: "t \<in> set (sn_Children (snapshotLocked s r))" "t_ParentID t \<noteq> []"
      "t_AssignmentType root = AssignmentTypeRoom" "room = [] \<or> t_RoomID root = room"
      by (auto simp: same_aggregate_def)
    with r(1) show ?thesis by (intro that(2) [of r root]) (auto simp: room_child_def)
  qed
qed

subsection \<open>One transaction\<close>

lemma room_tx_cases:
  assumes "room_tx s s'"
  obtains (same) "svc_good s'" and "\<And>r. mget (s_roots s') r = mget (s_roots s) r"
      and "\<And>r. snapshotLocked s' r = snapshotLocked s r"
  | (edit) r root b where "svc_good s'" and "mget (s_roots s) r = Some root"
      and "\<And>k. mget (s_roots s') k = (if k = r then Some (sn_Root b) else mget (s_roots s) k)"
      and "\<And>k. k \<noteq> r \<Longrightarrow> snapshotLocked s' k = snapshotLocked s k"
      and "set (sn_Children (snapshotLocked s' r)) = set (sn_Children b)"
      and "sn_Root (snapshotLocked s' r) = sn_Root b"
      and "room_edit (RoomList s []) (snapshotLocked s r) b" and "same_aggregate root b"
      and "\<exists>evs. sn_Events (snapshotLocked s' r) = sn_Events (snapshotLocked s r) @ evs"
  using assms [unfolded room_tx_def]
proof (elim conjE disjE exE)
  fix al
  assume "svc_good s'" "s' = s\<lparr>s_taskIDs := al\<rparr>"
  then show thesis by (intro that(1)) simp_all
next
  fix r root al sn seq evs
  assume *: "svc_good s'" "mget (s_roots s) r = Some root" "t_ID (sn_Root sn) = r"
    "s' = install r sn seq (s\<lparr>s_taskIDs := al\<rparr>)" "room_edit (RoomList s []) (snapshotLocked s r) sn"
    "same_aggregate root sn" "sn_Events sn = mgets (s_events s) r @ evs"
  have k: "snapshotLocked s' k = snapshotLocked s k" if "k \<noteq> r" for k
    using that *(4) by (auto intro!: snapshotLocked_cong)
  show thesis
  proof (rule that(2) [of r root sn])
    show "set (sn_Children (snapshotLocked s' r)) = set (sn_Children sn)"
      by (force simp: *(4) snapshotLocked_def)
    show "sn_Root (snapshotLocked s' r) = sn_Root sn" by (rule sn_Root_snapshotLocked) (simp add: *(4))
    show "\<exists>evs. sn_Events (snapshotLocked s' r) = sn_Events (snapshotLocked s r) @ evs"
      by (simp add: *(4,7))
  qed (use * k in simp_all)
qed

lemma same_aggregate_cong:
  "set (sn_Children b) = set (sn_Children a) \<Longrightarrow> sn_Root b = sn_Root a \<Longrightarrow> same_aggregate root a \<Longrightarrow> same_aggregate root b"
  by (simp add: same_aggregate_def)

lemma same_aggregate_root: "same_aggregate root b \<Longrightarrow> same_aggregate (sn_Root b) b"
  by (simp add: same_aggregate_def)

lemma room_tx_agg: "room_tx s s' \<Longrightarrow> agg_ok s \<Longrightarrow> agg_ok s'"
  unfolding agg_ok_def
  by (erule room_tx_cases) (auto intro: same_aggregate_cong dest: same_aggregate_root)

lemma room_tx_closed:
  assumes "room_tx s s'" and "closed_all s"
  shows "closed_all s'"
  using assms(1)
proof (cases rule: room_tx_cases)
  case same
  with assms(2) show ?thesis by (simp add: closed_all_def)
next
  case (edit r root b)
  have "closed (snapshotLocked s' r)" if "t_AssignmentType (sn_Root b) = AssignmentTypeRoom"
  proof -
    from that edit(8) have "t_AssignmentType root = AssignmentTypeRoom" by (simp add: same_aggregate_def)
    with assms(2) edit(2) have "closed (snapshotLocked s r)" by (simp add: closed_all_def)
    with edit(7) have "closed b" by (simp add: room_edit_def)
    with edit(5,6) show ?thesis by (simp add: closed_def)
  qed
  with assms(2) edit(3,4) show ?thesis by (simp add: closed_all_def)
qed

lemma room_edit_terminal:
  "room_edit tasks a b \<Longrightarrow> Terminal (t_Status (sn_Root a)) \<Longrightarrow> Terminal (t_Status (sn_Root b))"
  by (simp add: room_edit_def)

lemma room_tx_quiet:
  assumes "room_tx s s'" and "quiet s room"
  shows "quiet s' room"
  using assms(1)
proof (cases rule: room_tx_cases)
  case (edit r root b)
  have t: "Terminal (t_Status root) \<Longrightarrow> Terminal (t_Status (sn_Root b))"
    using room_edit_terminal [OF edit(7)] sn_Root_snapshotLocked [OF edit(2)] by metis
  have "t_AssignmentType (sn_Root b) = t_AssignmentType root" "t_RoomID (sn_Root b) = t_RoomID root"
    using edit(8) by (simp_all add: same_aggregate_def)
  with t edit(2,3) assms(2) show ?thesis by (simp add: quiet_def)
qed (use assms(2) in \<open>simp add: quiet_def\<close>)

lemma room_tx_capacity:
  assumes tx: "room_tx s s'" and wf: "svc_wf s" and agg: "agg_ok s" and cap: "capacity s"
  shows "capacity s'"
  using tx
proof (cases rule: room_tx_cases)
  case same
  then have "room_child s' = room_child s" unfolding room_child_def by simp
  with cap show ?thesis by (simp only: capacity_def)
next
  case (edit r root b)
  note type = edit(8) [unfolded same_aggregate_def]
  obtain i where new: "\<And>c. c \<in> set (sn_Children b) \<Longrightarrow> busy c \<Longrightarrow>
      busy_from (snapshotLocked s r) c \<or> t_ID c = i \<and> free_worker (RoomList s []) i (t_AssignedTo c)"
    using edit(7) unfolding room_edit_def by blast
  text \<open>A busy child of the new state was busy under the same worker, or is the dispatched one.\<close>
  have old: "(\<exists>d. room_child s d \<and> t_ID d = t_ID c \<and> t_AssignedTo d = t_AssignedTo c \<and> busy d) \<or>
      t_ID c = i \<and> free_worker (RoomList s []) i (t_AssignedTo c)"
    if c: "room_child s' c" "busy c" for c
  proof -
    from c(1) obtain k root' where k: "mget (s_roots s') k = Some root'" "t_AssignmentType root' = AssignmentTypeRoom"
      "c \<in> set (sn_Children (snapshotLocked s' k))" by (auto simp: room_child_def)
    show ?thesis
    proof (cases "k = r")
      case True
      with k edit(3,5) have cb: "c \<in> set (sn_Children b)" "t_AssignmentType root = AssignmentTypeRoom"
        using type by auto
      from new [OF cb(1) c(2)] cb(2) edit(2) show ?thesis
        by (auto simp: busy_from_def room_child_def)
    next
      case False
      with k edit(3,4) have "room_child s c" unfolding room_child_def by (intro exI [of _ k] exI [of _ root']) simp
      with c(2) show ?thesis by blast
    qed
  qed
  have free: "t_ID d = i" if "free_worker (RoomList s []) i w" "room_child s d" "busy d" "t_AssignedTo d = w" for d w
    using that RoomList_child [OF wf agg that(2)] by (auto simp: free_worker_def)
  show ?thesis
    unfolding capacity_def
  proof (intro allI impI)
    fix c d
    assume c: "room_child s' c" "busy c" and d: "room_child s' d" "busy d" and eq: "t_AssignedTo c = t_AssignedTo d"
    from old [OF c] old [OF d] show "t_ID c = t_ID d"
    proof (elim disjE exE conjE)
      fix c0 d0
      assume "room_child s c0" "t_ID c0 = t_ID c" "t_AssignedTo c0 = t_AssignedTo c" "busy c0"
        "room_child s d0" "t_ID d0 = t_ID d" "t_AssignedTo d0 = t_AssignedTo d" "busy d0"
      with cap eq show ?thesis unfolding capacity_def by metis
    qed (use free eq in metis)+
  qed
qed

lemma room_tx_good: "room_tx s s' \<Longrightarrow> room_good s \<Longrightarrow> room_good s'"
  using room_tx_agg [of s s'] room_tx_closed [of s s'] room_tx_capacity [of s s']
  by (auto simp: room_good_def svc_good_def room_tx_def)

lemma room_txs:
  assumes "room_tx\<^sup>*\<^sup>* s s'"
  shows "(room_good s \<longrightarrow> room_good s') \<and> (quiet s room \<longrightarrow> quiet s' room)"
  using assms by (induction rule: rtranclp_induct) (auto dest: room_tx_good room_tx_quiet)

subsection \<open>Creating a parent\<close>

lemma snapshotLocked_view:
  "sn_Children (snapshotLocked s r) = sort_key t_ID (map snd (childrenForRootLocked s r))"
  by (simp add: snapshotLocked_def)

lemma add_root_good:
  assumes good: "room_good s" and s': "svc_good s'" and none: "mget (s_roots s) i = None" and t: "t_ParentID t = []"
    and roots: "\<And>k. mget (s_roots s') k = (if k = i \<and> b then Some t else mget (s_roots s) k)"
    and children: "\<And>k. childrenForRootLocked s' k = childrenForRootLocked s k"
  shows "room_good s'"
proof -
  have g: "svc_good s" "agg_ok s" "capacity s" "closed_all s" using good by (simp_all add: room_good_def)
  have "childrenForRootLocked s i = []" using svc_wf_no_root [OF _ none] g(1) by (simp add: svc_good_def)
  then have new: "sn_Children (snapshotLocked s' i) = []" by (simp add: snapshotLocked_view children)
  have ch: "sn_Children (snapshotLocked s' k) = sn_Children (snapshotLocked s k)" for k
    by (simp add: snapshotLocked_view children)
  have rt: "sn_Root (snapshotLocked s' k) = sn_Root (snapshotLocked s k)" if "mget (s_roots s) k = Some u" for k u
  proof -
    have "mget (s_roots s') k = Some u" using that none roots by auto
    from sn_Root_snapshotLocked [OF this] sn_Root_snapshotLocked [OF that] show ?thesis by simp
  qed
  have old: "k = i \<and> b \<and> u = t \<or> mget (s_roots s) k = Some u" if "mget (s_roots s') k = Some u" for k u
    using that roots by (auto split: if_splits)
  have "agg_ok s'"
    unfolding agg_ok_def
  proof (intro allI impI)
    fix k u
    assume k: "mget (s_roots s') k = Some u"
    from old [OF k] show "same_aggregate u (snapshotLocked s' k)"
    proof (elim disjE conjE)
      assume "k = i" "b" "u = t"
      with new t sn_Root_snapshotLocked [OF k] show ?thesis by (simp add: same_aggregate_def)
    next
      assume o: "mget (s_roots s) k = Some u"
      with g(2) have "same_aggregate u (snapshotLocked s k)" by (simp add: agg_ok_def)
      with ch [of k] rt [OF o] show ?thesis by (simp add: same_aggregate_def)
    qed
  qed
  moreover have "closed (snapshotLocked s' k)"
    if k: "mget (s_roots s') k = Some u" and ty: "t_AssignmentType u = AssignmentTypeRoom" for k u
    using old [OF k]
  proof (elim disjE conjE)
    assume "k = i"
    with new show ?thesis by (simp add: closed_def)
  next
    assume o: "mget (s_roots s) k = Some u"
    with g(4) ty have "closed (snapshotLocked s k)" by (simp add: closed_all_def)
    with ch [of k] rt [OF o] show ?thesis by (simp add: closed_def)
  qed
  moreover have "room_child s c" if "room_child s' c" for c
    using that old new unfolding room_child_def by (metis ch list.set(1) empty_iff)
  then have "capacity s'" using g(3) by (simp add: capacity_def)
  ultimately show ?thesis using s' by (simp add: room_good_def closed_all_def)
qed

lemma CreateRoot_good:
  assumes run: "CreateRoot input now (s, w) = (res, (s', w'))" and room: "alloc_room 1 (s_taskIDs s, w)"
    and good: "room_good s" and id: "cr_ID input = []"
  shows "room_good s'" and "quiet s other \<Longrightarrow> TrimSpace (cr_RoomID input) \<noteq> other \<Longrightarrow> quiet s' other"
proof -
  have g: "svc_wf s" "ids_ok s" using good by (simp_all add: room_good_def svc_good_def)
  have s': "svc_good s'"
    using CreateRoot_wf [OF run room g(1)] CreateRoot_ids [OF run room g] id by (simp add: svc_good_def)
  from run room have "\<exists>i b. mget (s_roots s) i = None \<and>
      (\<forall>k. mget (s_roots s') k = (if k = i \<and> b then Some (new_root input now i) else mget (s_roots s) k)) \<and>
      (\<forall>k. childrenForRootLocked s' k = childrenForRootLocked s k)" (is "\<exists>i b. ?P i b")
  proof (cases rule: CreateRoot_cases)
    case (refused e a)
    have "mget (s_roots s) [] = None" using svc_wf_root [OF g(1), of "[]"] by (cases "mget (s_roots s) []") auto
    with refused have "?P [] False" by (simp add: svc_views)
    then show ?thesis by blast
  next
    case (created i a w1 ev x)
    then have "?P i (is_ok x)" by (auto simp: drop_root_def svc_views)
    then show ?thesis by blast
  qed
  then obtain i b where new: "?P i b" by blast
  from new show "room_good s'" by (intro add_root_good [OF good s']) auto
  have "t_RoomID (new_root input now i) = TrimSpace (cr_RoomID input)" by (simp add: new_root_def)
  then show "quiet s' other" if "quiet s other" "TrimSpace (cr_RoomID input) \<noteq> other"
    using new that by (auto simp: quiet_def split: if_splits)
qed

subsection \<open>The room service as a state machine\<close>

text \<open>
  One label for each operation. The roster is read at each operation and may have changed; the
  instant and the fuel are arbitrary. An operation that draws IDs needs a counter below the
  bound of \<open>int64\<close>, and the roster knows rooms by trimmed IDs only.
\<close>

datatype rop =
    RCreate string string string string string
  | RPlan string string string "PlanItem list" bool
  | RAppendPlan string string string string "PlanItem list"
  | RStart string string
  | RDispatch string string string
  | RUpdate string string string string string string int
  | RReview string string int bool string
  | RReport string string string string
  | RRequestStop string string
  | RResolveRecovery string string int string
  | RWorkerStopped string string string int
  | RMembersChanged string
  | RRecover
  | RCancelAgents "string list"
  | RRetryDelivery string
  | RBeginDeletion string
  | REndDeletion string

fun exec_rop :: "(string \<Rightarrow> PlanItem list \<Rightarrow> string) \<Rightarrow> nat \<Rightarrow> roster_fn \<Rightarrow> time \<Rightarrow> rop \<Rightarrow> unit froom" where
  "exec_rop digest fuel roster now (RCreate room source requester title body) =
     run_room (bindE (RoomCreate roster room source requester title body now) (\<lambda>_. returnE ()))"
| "exec_rop digest fuel roster now (RPlan room i summary items autoStart) = Plan fuel roster room i summary items autoStart now"
| "exec_rop digest fuel roster now (RAppendPlan room i requestID summary items) =
     AppendPlan digest fuel roster room i requestID summary items now"
| "exec_rop digest fuel roster now (RStart room i) = Start fuel roster room i now"
| "exec_rop digest fuel roster now (RDispatch room i assignee) = Dispatch fuel roster room i assignee now"
| "exec_rop digest fuel roster now (RUpdate room i actor status result reason attempt) =
     UpdateExecution fuel roster room i actor status result reason attempt now"
| "exec_rop digest fuel roster now (RReview room i attempt accept summary) = Review fuel roster room i attempt accept summary now"
| "exec_rop digest fuel roster now (RReport room i outcome summary) = Report fuel roster room i outcome summary now"
| "exec_rop digest fuel roster now (RRequestStop room i) = RequestStop fuel roster room i now"
| "exec_rop digest fuel roster now (RResolveRecovery room i attempt assessment) =
     ResolveRecovery fuel roster room i attempt assessment now"
| "exec_rop digest fuel roster now (RWorkerStopped room i actor attempt) = WorkerStopped fuel roster room i actor attempt now"
| "exec_rop digest fuel roster now (RMembersChanged room) = MembersChanged fuel roster room now"
| "exec_rop digest fuel roster now RRecover = run_room (Recover roster now)"
| "exec_rop digest fuel roster now (RCancelAgents actors) = run_room (CancelAgentTasks actors now)"
| "exec_rop digest fuel roster now (RRetryDelivery room) = RetryDelivery fuel roster now room"
| "exec_rop digest fuel roster now (RBeginDeletion room) = run_room (BeginRoomDeletion room)"
| "exec_rop digest fuel roster now (REndDeletion room) = run_room (end_room_deletion room)"

fun ids_needed :: "rop \<Rightarrow> nat option" where
  "ids_needed (RCreate room source requester title body) = Some 1"
| "ids_needed (RPlan room i summary items autoStart) = Some (length items)"
| "ids_needed (RAppendPlan room i requestID summary items) = Some (length items)"
| "ids_needed _ = None"

definition rop_room :: "rop \<Rightarrow> room_state \<Rightarrow> bool" where
  "rop_room p x \<longleftrightarrow> (case ids_needed p of None \<Rightarrow> True
     | Some n \<Rightarrow> alloc_room n (s_taskIDs (fst (snd x)), snd (snd x)))"

definition roster_ok :: "roster_fn \<Rightarrow> bool" where
  "roster_ok roster \<longleftrightarrow> (\<forall>room r. roster room = Some r \<longrightarrow> trimmed (ro_RoomID r))"

inductive room_step :: "room_state \<Rightarrow> rop \<Rightarrow> room_state \<Rightarrow> bool" where
  "roster_ok roster \<Longrightarrow> rop_room p x \<Longrightarrow> exec_rop digest fuel roster now p x = Some (res, y) \<Longrightarrow> room_step x p y"

definition room_inv :: "room_state \<Rightarrow> bool" where
  "room_inv x \<longleftrightarrow> room_good (fst (snd x)) \<and> (\<forall>room \<in> set (rs_closing (fst x)). room \<noteq> [] \<and> quiet (fst (snd x)) room)"

definition room_init :: "room_state \<Rightarrow> bool" where
  "room_init x \<longleftrightarrow> svc_init (snd x) \<and> rs_closing (fst x) = []"

lemma advances_inv: "advances x y \<Longrightarrow> room_inv x \<Longrightarrow> room_inv y"
  using room_txs [of "fst (snd x)" "fst (snd y)"]
  by (auto simp: advances_def room_inv_def room_good_def)

fun is_tx :: "rop \<Rightarrow> bool" where
  "is_tx (RCreate room source requester title body) = False"
| "is_tx (RBeginDeletion room) = False"
| "is_tx (REndDeletion room) = False"
| "is_tx _ = True"

lemma exec_rop_advances:
  assumes "exec_rop digest fuel roster now p x = Some (res, y)" and "rop_room p x"
    and "is_tx p"
  shows "advances x y"
proof -
  have "room_fop (exec_rop digest fuel roster now p) x"
    using assms(2,3) by (cases p) (auto simp: rop_room_def intro!: along_intros room_fop_Plan)
  with assms(1) show ?thesis by (rule alongF_D [rotated])
qed

lemma RoomCreate_inv:
  assumes run: "RoomCreate roster room source requester title body now (rs, (s, w)) = (res, y)"
    and roster: "roster_ok roster" and al: "alloc_room 1 (s_taskIDs s, w)" and inv: "room_inv (rs, (s, w))"
  shows "room_inv y"
proof (cases "y = (rs, (s, w))")
  case True
  with inv show ?thesis by simp
next
  case False
  let ?in = "\<lambda>r. \<lparr>cr_Status = StatusQueued, cr_SourceMessageID = source, cr_ID = [],
    cr_AssignmentType = AssignmentTypeRoom, cr_AssignmentID = room, cr_Title = title, cr_Body = body,
    cr_CreatedBy = requester, cr_AssignedTo = ro_ManagerID r, cr_ExecutionChannel = ''csgclaw'',
    cr_RoomID = room, cr_DependsOn = []\<rparr>"
  from run False obtain r where r: "members roster room = Inr r" "room \<notin> set (rs_closing rs)"
    "on_core (CreateRoot (?in r) now) (rs, (s, w)) = (res, y)"
    by (auto simp: RoomCreate_def split: if_splits sum.splits option.splits)
  obtain res' s' w' where c: "CreateRoot (?in r) now (s, w) = (res', (s', w'))" by (metis prod_cases3)
  from r(3) c have y: "y = (rs, (s', w'))" by (simp add: on_core_def)
  from r(1) roster have "trimmed room"
    by (auto simp: members_def roster_ok_def split: option.splits if_splits)
  then have "quiet s' other" if "quiet s other" "other \<in> set (rs_closing rs)" for other
    using CreateRoot_good(2) [OF c al _ _ that(1)] inv that r(2)
    by (auto simp: room_inv_def trimmed_TrimSpace)
  with inv CreateRoot_good(1) [OF c al] show ?thesis by (auto simp: room_inv_def y)
qed

lemma quiet_RoomList:
  assumes "svc_wf s" and "agg_ok s" and "\<not> list_ex (\<lambda>t. \<not> Terminal (t_Status t) \<or> t_RecoveryRequired t) (RoomList s room)"
  shows "quiet s room"
  unfolding quiet_def
proof (intro allI impI)
  fix r root
  assume "mget (s_roots s) r = Some root" "t_AssignmentType root = AssignmentTypeRoom" "t_RoomID root = room"
  with set_all_tasks [OF assms(1)] have "root \<in> set (RoomList s room)"
    by (auto simp: RoomList_def ListGlobal_def)
  with assms(3) show "Terminal (t_Status root)" by (auto simp: list_ex_iff)
qed

lemma room_inv_step:
  assumes "room_inv x" and "room_step x p y"
  shows "room_inv y"
  using assms(2)
proof cases
  case (1 roster digest fuel now res)
  obtain rs s w where x: "x = (rs, (s, w))" by (cases x)
  show ?thesis
  proof (cases p)
    case (RCreate room source requester title body)
    obtain res' y' where c: "RoomCreate roster room source requester title body now (rs, (s, w)) = (res', y')"
      by (rule prod.exhaust)
    have "y = y'" using 1(3) RCreate c by (cases res') (auto simp: x run_room_def)
    with RoomCreate_inv [OF c 1(1)] 1(2) RCreate assms(1) show ?thesis by (simp add: x rop_room_def)
  next
    case (RBeginDeletion room)
    with 1(3) have y: "snd (BeginRoomDeletion room (rs, (s, w))) = y" by (simp add: x run_room_def)
    from assms(1) have g: "room_good s" by (simp add: x room_inv_def)
    then have "quiet s (TrimSpace room)"
      if "\<not> list_ex (\<lambda>t. \<not> Terminal (t_Status t) \<or> t_RecoveryRequired t) (RoomList s (TrimSpace room))"
      using that by (intro quiet_RoomList) (simp_all add: room_good_def svc_good_def)
    with y assms(1) show ?thesis
      by (auto simp: x BeginRoomDeletion_def Let_def room_inv_def split: if_splits)
  next
    case (REndDeletion room)
    with 1(3) assms(1) show ?thesis
      by (auto simp: x run_room_def end_room_deletion_def room_inv_def)
  qed (use exec_rop_advances [OF 1(3,2)] advances_inv [OF _ assms(1)] in auto)
qed

interpretation room_service: invariant_system room_init room_step room_inv
proof unfold_locales
  fix x
  assume "room_init x"
  then show "room_inv x"
    by (simp add: room_init_def svc_init_def room_inv_def room_good_def svc_good_def svc_wf_def ids_ok_def
        svc_views agg_ok_def capacity_def closed_all_def room_child_def)
qed (rule room_inv_step)

end
