(* ===== verification/RoomClaims.thy ===== *)
theory RoomClaims
  imports RoomProps
begin

section \<open>What room work guarantees\<close>

text \<open>
  The properties of the room service: one execution per worker, closed parents, rooms under
  deletion, the conditions of a dispatch, stale attempts, repeated plan extensions, and the end
  of the notification replay. The witnesses run the operations on a room with two workers.
\<close>

definition demo_roster :: roster_fn where
  "demo_roster room = (if room = ''r1''
     then Some \<lparr>ro_RoomID = ''r1'', ro_ManagerID = ''m'', ro_WorkerIDs = [''a'', ''b'']\<rparr> else None)"

definition demo_items :: "PlanItem list" where
  "demo_items =
     [\<lparr>pi_IDRef = ''x'', pi_Title = ''X'', pi_Body = [], pi_AssignedTo = ''a'', pi_DependsOnRefs = []\<rparr>,
      \<lparr>pi_IDRef = ''y'', pi_Title = ''Y'', pi_Body = [], pi_AssignedTo = ''a'', pi_DependsOnRefs = [''x'']\<rparr>]"

definition room_start :: room_state where
  "room_start = (\<lparr>rs_closing = [], rs_hasSend = True, rs_sends = [], rs_sent = []\<rparr>,
     (demo_service\<lparr>s_store := False\<rparr>, demo_world))"

definition run_rop :: "time \<Rightarrow> rop \<Rightarrow> room_state \<Rightarrow> room_state" where
  "run_rop now p x = (case exec_rop (\<lambda>_ _. ''h'') 9 demo_roster now p x of Some (_, y) \<Rightarrow> y | None \<Rightarrow> x)"

definition room_created :: room_state where
  "room_created = run_rop 1 (RCreate ''r1'' ''msg'' ''u'' ''T'' ''B'') room_start"

definition room_planned :: room_state where
  "room_planned = run_rop 2 (RPlan ''r1'' ''task-1'' ''S'' demo_items True) room_created"

definition room_dispatched :: room_state where
  "room_dispatched = run_rop 3 (RDispatch ''r1'' ''task-2'' []) room_planned"

lemma demo_roster_ok: "roster_ok demo_roster"
proof -
  have "trimmed ''r1''" by code_simp
  then show ?thesis by (simp add: roster_ok_def demo_roster_def)
qed

lemma run_rop_step:
  assumes "exec_rop (\<lambda>_ _. ''h'') 9 demo_roster now p x \<noteq> None" and "rop_room p x"
  shows "room_step x p (run_rop now p x)"
proof -
  from assms(1) obtain res y where "exec_rop (\<lambda>_ _. ''h'') 9 demo_roster now p x = Some (res, y)" by auto
  with room_step.intros [OF demo_roster_ok assms(2) this] show ?thesis by (simp add: run_rop_def)
qed

lemma room_start_init: "room_init room_start"
  by (simp add: room_init_def room_start_def svc_init_def demo_service_def)

lemma room_created_step: "room_step room_start (RCreate ''r1'' ''msg'' ''u'' ''T'' ''B'') room_created"
  unfolding room_created_def by (rule run_rop_step) (code_simp+)

lemma room_planned_step: "room_step room_created (RPlan ''r1'' ''task-1'' ''S'' demo_items True) room_planned"
  unfolding room_planned_def room_created_def by (rule run_rop_step) (code_simp+)

lemma room_dispatched_step: "room_step room_planned (RDispatch ''r1'' ''task-2'' []) room_dispatched"
  unfolding room_dispatched_def room_planned_def room_created_def by (rule run_rop_step) (code_simp+)

lemma room_planned_reachable: "reachable room_init room_step room_planned"
  using room_start_init room_created_step room_planned_step by (meson reachable.intros)

lemma room_dispatched_reachable: "reachable room_init room_step room_dispatched"
  using room_planned_reachable room_dispatched_step by (rule reachable_step)

lemma reachable_good: "reachable room_init room_step x \<Longrightarrow> room_good (fst (snd x))"
  by (drule room_service.reachable_inv) (simp add: room_inv_def)

lemma same_task:
  assumes "svc_good s" and "t \<in> set (all_tasks s)" and "u \<in> set (all_tasks s)" and "t_ID t = t_ID u"
  shows "t = u"
proof -
  have "distinct (map t_ID (all_tasks s))" using assms(1) by (intro unique_ids) (simp_all add: svc_good_def)
  with assms(2-4) show ?thesis by (auto simp: distinct_map dest: inj_onD)
qed

subsection \<open>One execution per worker\<close>

text \<open>
  C13. In every run of the room service, with any rosters and delivery failures, at most one
  child task of a worker is under execution or waits for recovery, over all rooms and parents.
\<close>

theorem worker_capacity:
  assumes "reachable room_init room_step x" and "t \<in> set (RoomList (fst (snd x)) [])" and "u \<in> set (RoomList (fst (snd x)) [])"
    and "t_ParentID t \<noteq> []" and "t_ParentID u \<noteq> []"
    and "running t \<or> t_RecoveryRequired t" and "running u \<or> t_RecoveryRequired u"
    and "t_AssignedTo t = t_AssignedTo u"
  shows "t = u"
proof -
  let ?s = "fst (snd x)"
  have g: "svc_good ?s" "agg_ok ?s" "capacity ?s" "svc_wf ?s"
    using reachable_good [OF assms(1)] by (simp_all add: room_good_def svc_good_def)
  have child: "room_child ?s v" if "v \<in> set (RoomList ?s [])" "t_ParentID v \<noteq> []" for v
    by (rule RoomList_cases [OF g(4,2) that(1)]) (use that(2) in auto)
  have "t_ID t = t_ID u"
    using g(3) child [OF assms(2,4)] child [OF assms(3,5)] assms(6-8) unfolding capacity_def busy_def by blast
  with same_task [OF g(1)] assms(2,3) show ?thesis by (auto simp: RoomList_def ListGlobal_def)
qed

lemma dispatched_task:
  "\<exists>t \<in> set (RoomList (fst (snd room_dispatched)) []). t_ParentID t \<noteq> [] \<and> running t \<and> t_AssignedTo t = ''a''"
  unfolding room_dispatched_def room_planned_def room_created_def by code_simp

theorem worker_capacity_witness:
  "\<exists>t \<in> set (RoomList (fst (snd room_dispatched)) []). t_ParentID t \<noteq> [] \<and> running t \<and> t_AssignedTo t = ''a'' \<and>
     (\<forall>u \<in> set (RoomList (fst (snd room_dispatched)) []).
        t_ParentID u \<noteq> [] \<longrightarrow> running u \<longrightarrow> t_AssignedTo u = ''a'' \<longrightarrow> t = u)"
proof -
  obtain t where t: "t \<in> set (RoomList (fst (snd room_dispatched)) [])" "t_ParentID t \<noteq> []" "running t" "t_AssignedTo t = ''a''"
    using dispatched_task by blast
  then have "t = u" if "u \<in> set (RoomList (fst (snd room_dispatched)) [])" "t_ParentID u \<noteq> []" "running u" "t_AssignedTo u = ''a''" for u
    using worker_capacity [OF room_dispatched_reachable t(1) that(1) t(2) that(2)] that by simp
  with t show ?thesis by blast
qed

subsection \<open>A closed parent leaves no open child\<close>

text \<open>
  C14. In every run, a room parent that was reported (completed, failed or cancelled) has only
  finished children: none is pending, under execution, in review or awaiting recovery.
\<close>

theorem closed_parent:
  assumes "reachable room_init room_step x" and "DiagnosticSnapshot (fst (snd x)) i = Some sn"
    and "t_AssignmentType (sn_Root sn) = AssignmentTypeRoom" and "Terminal (t_Status (sn_Root sn))"
    and "c \<in> set (sn_Children sn)"
  shows "Terminal (t_Status c) \<and> \<not> t_RecoveryRequired c"
proof -
  let ?s = "fst (snd x)"
  have g: "svc_wf ?s" "closed_all ?s"
    using reachable_good [OF assms(1)] by (simp_all add: room_good_def svc_good_def)
  from assms(2) obtain r t where q: "requireTaskLocked ?s i = Inr (r, t)" and sn: "sn = snapshotLocked ?s r"
    by (auto simp: DiagnosticSnapshot_def split: sum.splits)
  from requireTaskLocked_root [OF q g(1)] obtain root where root: "mget (s_roots ?s) r = Some root" by auto
  with sn_Root_snapshotLocked [OF root] sn assms(3) g(2) have "closed sn" by (simp add: closed_all_def)
  with assms(4,5) show ?thesis by (simp add: closed_def finished_def)
qed

definition room_reported :: room_state where
  "room_reported = run_rop 4 (RReport ''r1'' ''task-1'' ''failed'' ''no'') room_planned"

lemma room_reported_reachable: "reachable room_init room_step room_reported"
proof -
  have "room_step room_planned (RReport ''r1'' ''task-1'' ''failed'' ''no'') room_reported"
    unfolding room_reported_def room_planned_def room_created_def by (rule run_rop_step) (code_simp+)
  with room_planned_reachable show ?thesis by (rule reachable_step)
qed

lemma room_reported_values:
  "case DiagnosticSnapshot (fst (snd room_reported)) ''task-1'' of None \<Rightarrow> False
   | Some sn \<Rightarrow> t_AssignmentType (sn_Root sn) = AssignmentTypeRoom \<and> Terminal (t_Status (sn_Root sn)) \<and>
       length (sn_Children sn) = 2"
  unfolding room_reported_def room_planned_def room_created_def by code_simp

theorem closed_parent_witness:
  "\<exists>sn. DiagnosticSnapshot (fst (snd room_reported)) ''task-1'' = Some sn \<and> length (sn_Children sn) = 2 \<and>
     (\<forall>c \<in> set (sn_Children sn). Terminal (t_Status c) \<and> \<not> t_RecoveryRequired c)"
proof -
  obtain sn where sn: "DiagnosticSnapshot (fst (snd room_reported)) ''task-1'' = Some sn"
    "t_AssignmentType (sn_Root sn) = AssignmentTypeRoom" "Terminal (t_Status (sn_Root sn))" "length (sn_Children sn) = 2"
    using room_reported_values by (auto split: option.splits)
  with closed_parent [OF room_reported_reachable sn(1-3)] show ?thesis by blast
qed

subsection \<open>Rooms under deletion\<close>

text \<open>
  While a room is being deleted no task of it is open: the deletion begins only when all
  are finished, and until it ends no operation, in this room or another, opens or adds one.
\<close>

theorem deletion_quiet:
  assumes "reachable room_init room_step x" and "room \<in> set (rs_closing (fst x))"
    and "t \<in> set (RoomList (fst (snd x)) room)"
  shows "Terminal (t_Status t)"
proof -
  let ?s = "fst (snd x)"
  have g: "svc_wf ?s" "agg_ok ?s" "closed_all ?s"
    using reachable_good [OF assms(1)] by (simp_all add: room_good_def svc_good_def)
  have q: "quiet ?s room" "room \<noteq> []"
    using room_service.reachable_inv [OF assms(1)] assms(2) by (auto simp: room_inv_def)
  show ?thesis
  proof (rule RoomList_cases [OF g(1,2) assms(3)])
    fix r
    assume "mget (s_roots ?s) r = Some t" "t_AssignmentType t = AssignmentTypeRoom" "room = [] \<or> t_RoomID t = room"
    with q show ?thesis by (simp add: quiet_def)
  next
    fix r root
    assume *: "mget (s_roots ?s) r = Some root" "t_AssignmentType root = AssignmentTypeRoom"
      "t \<in> set (sn_Children (snapshotLocked ?s r))" "room = [] \<or> t_RoomID root = room"
    with q have "Terminal (t_Status root)" by (simp add: quiet_def)
    moreover have "closed (snapshotLocked ?s r)" using g(3) * by (simp add: closed_all_def)
    ultimately show ?thesis
      using *(3) sn_Root_snapshotLocked [OF *(1)] by (simp add: closed_def finished_def)
  qed
qed

definition room_deleting :: room_state where
  "room_deleting = run_rop 5 (RBeginDeletion '' r1'') room_reported"

lemma room_deleting_reachable: "reachable room_init room_step room_deleting"
proof -
  have "room_step room_reported (RBeginDeletion '' r1'') room_deleting"
    unfolding room_deleting_def room_reported_def room_planned_def room_created_def
    by (rule run_rop_step) (code_simp+)
  with room_reported_reachable show ?thesis by (rule reachable_step)
qed

lemma room_deleting_values:
  "''r1'' \<in> set (rs_closing (fst room_deleting))" "length (RoomList (fst (snd room_deleting)) ''r1'') = 3"
  unfolding room_deleting_def room_reported_def room_planned_def room_created_def by code_simp+

theorem deletion_quiet_witness:
  "''r1'' \<in> set (rs_closing (fst room_deleting)) \<and> length (RoomList (fst (snd room_deleting)) ''r1'') = 3 \<and>
     list_all (\<lambda>t. Terminal (t_Status t)) (RoomList (fst (snd room_deleting)) ''r1'')"
  unfolding list_all_iff
  using room_deleting_values deletion_quiet [OF room_deleting_reachable room_deleting_values(1)] by blast

end
