(* ===== verification/RoomRetry.thy ===== *)
theory RoomRetry
  imports RoomClaims
begin

section \<open>Conditions, retries and the event log\<close>

text \<open>
  Which conditions a dispatch checks, that a stale execution attempt changes nothing, that
  repeating a plan extension is harmless, and that the event log only grows.
\<close>

subsection \<open>Dispatch\<close>

text \<open>
  C15. The one child a dispatch transaction sets running is the one named: its worker is in the
  room and free, its parent heads the room's queue and is neither finished nor stopping, the
  task was neither running nor awaiting recovery nor submitted, every task it depends on is a
  completed sibling, and its attempt number is the next one.
\<close>

theorem dispatch_requires:
  assumes "Dispatch_fn room i assignee now r tasks a = Inr b" and "c \<in> set (sn_Children b)" and "running c"
    and "c \<notin> set (sn_Children a)"
  shows "t_ID c = i \<and> worker r (t_AssignedTo c) \<and> free_worker tasks i (t_AssignedTo c) \<and>
    firstParent tasks room = t_ID (sn_Root a) \<and> \<not> Terminal (t_Status (sn_Root a)) \<and>
    t_Status (sn_Root a) \<noteq> StatusStopping \<and>
    (\<forall>d \<in> set (t_DependsOn c). \<exists>dep \<in> set (sn_Children a). t_ID dep = d \<and> t_Status dep = StatusCompleted) \<and>
    (\<exists>t \<in> set (sn_Children a). t_ID t = i \<and> \<not> running t \<and> \<not> t_RecoveryRequired t \<and>
       t_Status t \<noteq> StatusCompleted \<and> t_Status t \<noteq> StatusReview \<and> t_Attempt c = wrap64 (t_Attempt t + 1))"
  using assms(1)
proof (cases rule: Dispatch_cases)
  case running
  with assms(2,4) show ?thesis by simp
next
  case (waiting t t' k actor summary)
  with assms(2,4) have "c = t'" by (auto dest: set_replace_first)
  with waiting(4) assms(3) show ?thesis by (simp add: busy_def)
next
  case (dispatched t t' actor summary)
  with assms(2,4) have c: "c = t'" by (auto dest: set_replace_first)
  note t = childD [OF dispatched(1)]
  have "\<exists>dep \<in> set (sn_Children a). t_ID dep = d \<and> t_Status dep = StatusCompleted" if "d \<in> set (t_DependsOn c)" for d
    using that dispatched(6,8) c
    by (fastforce simp: dependenciesReady_def list_all_iff split: option.splits dest: childD)
  moreover have "\<not> running t" "\<not> t_RecoveryRequired t" using dispatched(10) by (simp_all add: busy_def)
  ultimately show ?thesis using dispatched(2,5,7,9,11-13,16,17) t c by auto
qed

definition demo_parent :: Task where
  "demo_parent = zero_task\<lparr>t_ID := ''task-1'', t_RoomID := ''r1'', t_Status := StatusInProgress\<rparr>"

definition demo_child :: Task where
  "demo_child = zero_task\<lparr>t_ID := ''task-2'', t_ParentID := ''task-1'', t_RoomID := ''r1'',
     t_Status := StatusPending, t_AssignedTo := ''a''\<rparr>"

definition demo_snap :: Snapshot where
  "demo_snap = \<lparr>sn_Root = demo_parent, sn_Children = [demo_child], sn_Approvals = [], sn_Presence = [], sn_Events = []\<rparr>"

theorem dispatch_requires_witness:
  "\<exists>r b c. Dispatch_fn ''r1'' ''task-2'' [] 3 r [demo_parent, demo_child] demo_snap = Inr b \<and>
     c \<in> set (sn_Children b) \<and> running c \<and> t_ID c = ''task-2'' \<and> t_Attempt c = 1"
proof -
  let ?r = "\<lparr>ro_RoomID = ''r1'', ro_ManagerID = ''m'', ro_WorkerIDs = [''a'']\<rparr>"
  have "case Dispatch_fn ''r1'' ''task-2'' [] 3 ?r [demo_parent, demo_child] demo_snap of Inl _ \<Rightarrow> False
    | Inr b \<Rightarrow> list_ex (\<lambda>c. running c \<and> c \<notin> set (sn_Children demo_snap)) (sn_Children b)" by code_simp
  then obtain b c where b: "Dispatch_fn ''r1'' ''task-2'' [] 3 ?r [demo_parent, demo_child] demo_snap = Inr b"
    "c \<in> set (sn_Children b)" "running c" "c \<notin> set (sn_Children demo_snap)"
    by (auto simp: list_ex_iff split: sum.splits)
  have "wrap64 (t_Attempt demo_child + 1) = 1" by code_simp
  with dispatch_requires [OF b] have "t_ID c = ''task-2'' \<and> t_Attempt c = 1"
    by (auto simp: demo_snap_def)
  with b show ?thesis by blast
qed

subsection \<open>Stale attempts\<close>

lemma Mutate_refused:
  assumes "requireTaskLocked s i = Inr (r, t)" and "fn (snapshotLocked s r) (s_taskIDs s, w) = (Inl e, (s_taskIDs s, w))"
  shows "Mutate i fn clock (s, w) = (Inl e, (s, w))"
  using assms by (simp add: Mutate_def Let_def)

lemma change_refused:
  assumes "RoomGet s room i = Some t"
    and "\<And>r ro tasks. requireTaskLocked s i = Inr (r, t) \<Longrightarrow> \<exists>e. f ro tasks (snapshotLocked s r) = Inl e"
  shows "\<exists>e. change fuel roster room i (pure_edit f) now (rs, (s, w)) = Some (Inl e, (rs, (s, w)))"
    and "\<exists>e. changeState roster room i (pure_edit f) now (rs, (s, w)) = (Inl e, (rs, (s, w)))"
proof -
  from assms(1) obtain r where q: "requireTaskLocked s i = Inr (r, t)"
    by (auto simp: RoomGet_def Get_def split: option.splits sum.splits if_splits)
  have "\<exists>e. Mutate i (pure_edit f ro tasks) clock (s, w) = (Inl e, (s, w))" for ro tasks clock
  proof -
    obtain e where "f ro tasks (snapshotLocked s r) = Inl e" using assms(2) [OF q] by blast
    then have "pure_edit f ro tasks (snapshotLocked s r) (s_taskIDs s, w) = (Inl e, (s_taskIDs s, w))"
      by (simp add: pure_edit_def)
    from Mutate_refused [where fn = "pure_edit f ro tasks", OF q this] show ?thesis by blast
  qed
  then show st: "\<exists>e. changeState roster room i (pure_edit f) now (rs, (s, w)) = (Inl e, (rs, (s, w)))"
  proof (cases "members roster room")
    case (Inr ro)
    obtain e where "Mutate i (pure_edit f ro (RoomList s [])) (\<lambda>_. now) (s, w) = (Inl e, (s, w))"
      using \<open>\<And>ro tasks clock. \<exists>e. Mutate i (pure_edit f ro tasks) clock (s, w) = (Inl e, (s, w))\<close> by blast
    with Inr show ?thesis by (simp add: changeState_def on_core_def assms(1))
  qed (simp add: changeState_def)
  then show "\<exists>e. change fuel roster room i (pure_edit f) now (rs, (s, w)) = Some (Inl e, (rs, (s, w)))"
    by (auto simp: change_def bindF_def run_room_def)
qed

lemma child_current:
  assumes "svc_good s" and "requireTaskLocked s i = Inr (r, t)" and "child (snapshotLocked s r) i = Some c"
    and "trimmed i"
  shows "c = t"
proof -
  have wf: "svc_wf s" "ids_ok s" using assms(1) by (simp_all add: svc_good_def)
  note c = childD [OF assms(3)]
  then obtain k where k: "(k, c) \<in> set (childrenForRootLocked s r)" by (auto simp: snapshotLocked_def)
  from svc_wf_child [OF wf(1) k] c have m: "mget (childrenForRootLocked s r) i = Some c" by simp
  with ids_ok_child [OF wf(2)] have none: "mget (s_roots s) i = None" by blast
  from assms(2) wf(1) show ?thesis
    by (cases rule: requireTaskLocked_cases) (use m none trimmed_TrimSpace [OF assms(4)] in auto)
qed

text \<open>
  C16. An operation that carries an execution attempt other than the task's current one is
  refused and changes nothing: neither an update, a review, a recovery assessment nor a stop
  confirmation of an earlier dispatch can reach the current execution.
\<close>

theorem stale_attempt:
  assumes "reachable room_init room_step (rs, (s, w))" and "RoomGet s room i = Some t" and "trimmed i" and "i \<noteq> []"
    and "attempt \<noteq> t_Attempt t"
  shows "(\<exists>e. UpdateExecution fuel roster room i actor status result reason attempt now (rs, (s, w)) = Some (Inl e, (rs, (s, w)))) \<and>
    (\<exists>e. Review fuel roster room i attempt accept summary now (rs, (s, w)) = Some (Inl e, (rs, (s, w)))) \<and>
    (\<exists>e. ResolveRecovery fuel roster room i attempt summary now (rs, (s, w)) = Some (Inl e, (rs, (s, w)))) \<and>
    (\<exists>e. WorkerStopped fuel roster room i actor attempt now (rs, (s, w)) = Some (Inl e, (rs, (s, w))))"
proof -
  have g: "svc_good s" using reachable_good [OF assms(1)] by (simp add: room_good_def)
  have stale: "attempt \<noteq> t_Attempt c"
    if "requireTaskLocked s i = Inr (r, t)" "child (snapshotLocked s r) i = Some c" for r c
    using child_current [OF g that assms(3)] assms(5) by blast
  note refused = change_refused [OF assms(2)]
  have U: "\<exists>e. UpdateExecution_fn i actor st result reason attempt now ro tasks (snapshotLocked s r) = Inl e"
    if "requireTaskLocked s i = Inr (r, t)" for r ro tasks st
    using stale [OF that] by (auto simp: UpdateExecution_fn_def split: option.splits)
  have "\<exists>e. UpdateExecution fuel roster room i actor status result reason attempt now (rs, (s, w)) = Some (Inl e, (rs, (s, w)))"
    using refused [where f = "UpdateExecution_fn i actor _ result reason attempt now", OF U]
    by (auto simp: UpdateExecution_def Let_def run_room_def)
  moreover have R: "\<exists>e. Review_fn i attempt accept summary now ro tasks (snapshotLocked s r) = Inl e"
    if "requireTaskLocked s i = Inr (r, t)" for r ro tasks
    using stale [OF that] by (auto simp: Review_fn_def split: option.splits)
  have "\<exists>e. Review fuel roster room i attempt accept summary now (rs, (s, w)) = Some (Inl e, (rs, (s, w)))"
    unfolding Review_def by (rule refused(1)) (rule R)
  moreover have V: "\<exists>e. ResolveRecovery_fn i attempt summary now ro tasks (snapshotLocked s r) = Inl e"
    if "requireTaskLocked s i = Inr (r, t)" for r ro tasks
    using stale [OF that] by (auto simp: ResolveRecovery_fn_def split: option.splits)
  have "\<exists>e. ResolveRecovery fuel roster room i attempt summary now (rs, (s, w)) = Some (Inl e, (rs, (s, w)))"
    unfolding ResolveRecovery_def by (rule refused(1)) (rule V)
  moreover have W: "\<exists>e. WorkerStopped_fn i actor attempt now ro tasks (snapshotLocked s r) = Inl e"
    if "requireTaskLocked s i = Inr (r, t)" for r ro tasks
    using stale [OF that] by (auto simp: WorkerStopped_fn_def split: option.splits)
  have "\<exists>e. WorkerStopped fuel roster room i actor attempt now (rs, (s, w)) = Some (Inl e, (rs, (s, w)))"
    using assms(4) refused(1) [where f = "WorkerStopped_fn i actor attempt now", OF W] by (simp add: WorkerStopped_def)
  ultimately show ?thesis by blast
qed

lemma room_dispatched_values:
  "case RoomGet (fst (snd room_dispatched)) ''r1'' ''task-2'' of None \<Rightarrow> False | Some t \<Rightarrow> t_Attempt t = 1"
  unfolding room_dispatched_def room_planned_def room_created_def by code_simp

theorem stale_attempt_witness:
  "(\<exists>t. RoomGet (fst (snd room_dispatched)) ''r1'' ''task-2'' = Some t \<and> t_Attempt t = 1) \<and>
   (\<exists>e. Review 5 demo_roster ''r1'' ''task-2'' 2 True ''good'' 8 room_dispatched = Some (Inl e, room_dispatched))"
proof -
  obtain rs s w where x: "room_dispatched = (rs, (s, w))" by (cases room_dispatched)
  from room_dispatched_values obtain t where t: "RoomGet s ''r1'' ''task-2'' = Some t" "t_Attempt t = 1"
    by (auto simp: x split: option.splits)
  have "trimmed ''task-2''" by code_simp
  with stale_attempt [OF room_dispatched_reachable [unfolded x] t(1), of 2 5 demo_roster _ _ _ _ 8 True "''good''"] t
  show ?thesis by (simp add: x)
qed

subsection \<open>Repeating a plan extension\<close>

definition request_key :: "TaskEvent \<Rightarrow> string \<times> string \<times> string" where
  "request_key e = (e_Type e, e_RequestID e, e_RequestHash e)"

lemma find_map_key: "map_option f (find (\<lambda>x. P (f x)) xs) = find P (map f xs)"
  by (induction xs) auto

lemma find_request:
  "map_option request_key (find (\<lambda>e. e_Type e = ty \<and> e_RequestID e = req) es) =
     find (\<lambda>k. fst k = ty \<and> fst (snd k) = req) (map request_key es)"
  using find_map_key [of request_key "\<lambda>k. fst k = ty \<and> fst (snd k) = req" es] by (simp add: request_key_def)

lemma stamp_events_keys:
  "stamp_events root clock i seq es = (new, seq') \<Longrightarrow> map request_key new = map request_key es"
  by (induction es arbitrary: i seq new) (auto simp: Let_def request_key_def split: prod.splits)

lemma find_append: "find P (xs @ ys) = (case find P xs of None \<Rightarrow> find P ys | Some x \<Rightarrow> Some x)"
  by (induction xs) auto

lemma add_plan_tasks_events:
  "\<exists>new. sn_Events (add_plan_tasks room i r now ids items a) = sn_Events a @ new \<and> (\<forall>e \<in> set new. e_Type e = EventTaskCreated)"
proof (induction items arbitrary: a)
  case (Cons item items)
  let ?t = "plan_task room i r now ids (sn_Root a) (length (item # items)) item"
  let ?b = "appendEvent EventTaskCreated ?t (ro_ManagerID r) (t_Title ?t) now (a\<lparr>sn_Children := sn_Children a @ [?t]\<rparr>)"
  obtain new where new: "sn_Events (add_plan_tasks room i r now ids items ?b) = sn_Events ?b @ new"
    "\<forall>e \<in> set new. e_Type e = EventTaskCreated" using Cons.IH by blast
  then show ?case
    by (intro exI [of _ "[last (sn_Events ?b)] @ new"]) (simp add: Let_def appendEvent_def)
qed simp

text \<open>After an accepted extension the first event under its key carries its hash.\<close>

definition recorded :: "string \<Rightarrow> string \<Rightarrow> TaskEvent list \<Rightarrow> bool" where
  "recorded req hash es \<longleftrightarrow>
     (case find (\<lambda>e. e_Type e = EventExtended \<and> e_RequestID e = req) es of None \<Rightarrow> False | Some e \<Rightarrow> e_RequestHash e = hash)"

lemma recorded_keys:
  assumes "map request_key es = map request_key es'"
  shows "recorded req hash es = recorded req hash es'"
proof -
  have "recorded req hash xs = (map_option (\<lambda>k. snd (snd k))
      (find (\<lambda>k. fst k = EventExtended \<and> fst (snd k) = req) (map request_key xs)) = Some hash)" for xs
    by (auto simp: recorded_def request_key_def simp flip: find_request split: option.splits)
  with assms show ?thesis by simp
qed

lemma AppendPlan_recorded:
  assumes "AppendPlan_fn room i req hash summary items now r tasks a x = (Inr (b, v), y)"
  shows "recorded req hash (sn_Events b)"
proof (cases "find (\<lambda>e. e_Type e = EventExtended \<and> e_RequestID e = req) (sn_Events a)")
  case (Some e)
  with assms show ?thesis by (auto simp: AppendPlan_fn_def recorded_def split: if_splits)
next
  case None
  note run = assms [unfolded AppendPlan_fn_def None option.case]
  let ?ids0 = "foldl (\<lambda>m t. mput (t_ID t) (t_ID t) m) [] (sn_Children a)"
  obtain ids where ids: "allocate_ids items ?ids0 x = (Inr ids, y)"
    and b: "sn_Events b = sn_Events (add_plan_tasks room i r now ids items a) @ [zero_event\<lparr>e_Type := EventExtended, e_TaskID := i,
      e_ActorID := ro_ManagerID r, e_Summary := first summary msg_default_extension,
      e_RequestID := req, e_RequestHash := hash, e_CreatedAt := now\<rparr>]"
    using run by (auto simp: Let_def split: if_splits sum.splits elim!: bindE_InrE)
  obtain new where new: "sn_Events (add_plan_tasks room i r now ids items a) = sn_Events a @ new"
    "\<forall>e \<in> set new. e_Type e = EventTaskCreated" using add_plan_tasks_events by blast
  have "find (\<lambda>e. e_Type e = EventExtended \<and> e_RequestID e = req) new = None"
    using new(2) by (auto simp: find_None_iff EventExtended_def EventTaskCreated_def)
  with None b new(1) show ?thesis by (simp add: recorded_def find_append)
qed

lemma AppendPlan_again:
  assumes "recorded req hash (sn_Events a)"
  shows "AppendPlan_fn room i req hash' summary items now r tasks a x =
    (if t_ID (sn_Root a) \<noteq> i then Inl (ErrText ''append requires the existing parent task'')
     else if hash' = hash then Inr (a, ())
     else Inl (ErrText ''request_id already used for a different plan extension''), x)"
  using assms by (auto simp: AppendPlan_fn_def recorded_def split: option.splits)

text \<open>A transaction whose callback returns the snapshot unchanged leaves every aggregate as it is.\<close>

lemma Mutate_unchanged:
  assumes run: "Mutate i fn clock (s, w) = (res, (s', w'))" and wf: "svc_wf s"
    and q: "requireTaskLocked s i = Inr (r, t)"
    and fn: "\<exists>out. fn (snapshotLocked s r) (s_taskIDs s, w) = (out, (s_taskIDs s, w)) \<and>
      (\<forall>b v. out = Inr (b, v) \<longrightarrow> b = snapshotLocked s r)"
  shows "mget (s_roots s') k = mget (s_roots s) k" and "snapshotLocked s' k = snapshotLocked s k"
proof -
  obtain root where root: "mget (s_roots s) r = Some root" using requireTaskLocked_root [OF q wf] by blast
  note sr = sn_Root_snapshotLocked [OF root]
  let ?a = "snapshotLocked s r"
  have d: "distinct (map t_ID (sn_Children ?a))"
    using children_ids [OF wf, of r] wf by (simp add: snapshotLocked_view svc_wf_def del: map_map)
  then have ch: "foldl (\<lambda>m c. mput (t_ID c) c m) [] (sn_Children ?a) = map (\<lambda>c. (t_ID c, c)) (sn_Children ?a)"
    using foldl_mput_distinct [of t_ID "sn_Children ?a" "[]"] by simp
  from fn obtain out where out: "fn ?a (s_taskIDs s, w) = (out, (s_taskIDs s, w))"
    "\<forall>b v. out = Inr (b, v) \<longrightarrow> b = ?a" by blast
  have "s' = s \<or> s' = install r ?a (s_nextSeq s) s"
  proof (cases out)
    case (Inl e)
    with run q out show ?thesis by (simp add: Mutate_def Let_def)
  next
    case (Inr bv)
    obtain b v where bv: "bv = (b, v)" by (cases bv)
    with Inr out have o: "fn ?a (s_taskIDs s, w) = (Inr (?a, v), (s_taskIDs s, w))" by simp
    show ?thesis
    proof (cases "validate_change s r ?a ?a")
      case (Inl e)
      with run q o show ?thesis by (simp add: Mutate_def Let_def)
    next
      case (Inr u)
      with run q o ch show ?thesis
        by (auto simp: Mutate_def Let_def install_def split: if_splits prod.splits sum.splits)
    qed
  qed
  then show "mget (s_roots s') k = mget (s_roots s) k"
    using root sr by auto
  from \<open>s' = s \<or> s' = install r ?a (s_nextSeq s) s\<close> show "snapshotLocked s' k = snapshotLocked s k"
  proof
    assume i: "s' = install r ?a (s_nextSeq s) s"
    show ?thesis
    proof (cases "k = r")
      case True
      then show ?thesis using root sr by (simp add: i snapshotLocked_def comp_def)
    qed (auto simp: i intro!: snapshotLocked_cong)
  qed simp
qed

lemma append_records:
  assumes run: "Mutate i (AppendPlan_fn room i req hash summary items now ro tasks) clock (s, w) = (Inr (), (s1, w1))"
    and good: "svc_good s" and al: "alloc_room (length items) (s_taskIDs s, w)"
  shows "svc_good s1 \<and> (\<exists>t. requireTaskLocked s1 i = Inr (i, t)) \<and> recorded req hash (mgets (s_events s1) i)"
proof -
  let ?fn = "AppendPlan_fn room i req hash summary items now ro tasks"
  have wf: "svc_wf s" "ids_ok s" using good by (simp_all add: svc_good_def)
  have fresh: "fresh_change ?fn (s_taskIDs s, w)"
    by (rule change_ok_fresh [OF plan_run_change_ok [OF edit_AppendPlan] al])
  have good1: "svc_good s1"
    using Mutate_wf [OF run fresh wf(1)] Mutate_ids [OF run fresh wf] by (simp add: svc_good_def)
  from run fresh show ?thesis
  proof (cases rule: Mutate_cases)
    case (attempted r t ids a w2 sn evs v new seq x)
    from attempted(14) have ok: "is_ok x" by (cases x) simp_all
    obtain root where root: "mget (s_roots s) r = Some root" using requireTaskLocked_root [OF attempted(1) wf(1)] by blast
    note id = svc_wf_root [OF wf(1) root]
    from attempted(16) obtain x1 y1 where cb:
      "?fn (snapshotLocked s r) x1 = (Inr (sn\<lparr>sn_Events := mgets (s_events s) r @ evs\<rparr>, v), y1)" by blast
    then have "t_ID (sn_Root (snapshotLocked s r)) = i" by (auto simp: AppendPlan_fn_def split: if_splits)
    with sn_Root_snapshotLocked [OF root] id have r: "r = i" by simp
    from AppendPlan_recorded [OF cb] have "recorded req hash (sn_Events sn)"
      using recorded_keys [of "mgets (s_events s) r @ evs" "sn_Events sn"] stamp_events_keys [OF attempted(7)] attempted(8)
      by simp
    moreover have s1: "s1 = install i sn seq (s\<lparr>s_taskIDs := a\<rparr>)" using attempted(15) ok r by simp
    moreover have "requireTaskLocked s1 i = Inr (i, sn_Root sn)"
      using id r by (simp add: s1 requireTaskLocked_def trimmed_TrimSpace)
    ultimately show ?thesis using good1 by simp
  qed simp
qed

text \<open>
  Repeating a plan extension is safe: once an extension with a request key was recorded,
  a transaction with the same key changes no task and no event, whatever its items; if its
  content hash differs it is refused.
\<close>

theorem append_retry:
  assumes "Mutate i (AppendPlan_fn room i req hash summary items now ro tasks) clock (s, w) = (Inr (), (s1, w1))"
    and "svc_wf s" and "ids_ok s" and "alloc_room (length items) (s_taskIDs s, w)"
    and "Mutate i (AppendPlan_fn room i req hash' summary' items' now' ro' tasks') clock' (s1, w1) = (res, (s2, w2))"
  shows "(\<forall>k. mget (s_roots s2) k = mget (s_roots s1) k \<and> snapshotLocked s2 k = snapshotLocked s1 k) \<and>
    (hash' \<noteq> hash \<longrightarrow> (\<exists>e. res = Inl e))"
proof -
  let ?fn = "AppendPlan_fn room i req hash' summary' items' now' ro' tasks'"
  from append_records [OF assms(1) _ assms(4)] assms(2,3) obtain t where wf: "svc_wf s1"
    and q: "requireTaskLocked s1 i = Inr (i, t)" and rec: "recorded req hash (mgets (s_events s1) i)"
    by (auto simp: svc_good_def)
  have rec: "recorded req hash (sn_Events (snapshotLocked s1 i))" using rec by simp
  note again = AppendPlan_again [OF rec]
  have "\<exists>out. ?fn (snapshotLocked s1 i) (s_taskIDs s1, w1) = (out, (s_taskIDs s1, w1)) \<and>
      (\<forall>b v. out = Inr (b, v) \<longrightarrow> b = snapshotLocked s1 i)"
    by (simp add: again)
  note same = Mutate_unchanged [OF assms(5) wf q this]
  have "\<exists>e. res = Inl e" if "hash' \<noteq> hash"
  proof -
    have "\<exists>e. ?fn (snapshotLocked s1 i) (s_taskIDs s1, w1) = (Inl e, (s_taskIDs s1, w1))"
      using that by (simp add: again)
    then obtain e where "?fn (snapshotLocked s1 i) (s_taskIDs s1, w1) = (Inl e, (s_taskIDs s1, w1))" by blast
    from Mutate_refused [where fn = ?fn and clock = clock', OF q this] assms(5) show ?thesis by auto
  qed
  with same show ?thesis by blast
qed

definition room_extension :: "unit change" where
  "room_extension = AppendPlan_fn ''r1'' ''task-1'' ''q'' ''h'' []
     [\<lparr>pi_IDRef = ''z'', pi_Title = ''Z'', pi_Body = [], pi_AssignedTo = ''b'', pi_DependsOnRefs = [''task-2'']\<rparr>] 6
     (the (demo_roster ''r1'')) []"

definition room_extended :: svc_state where
  "room_extended = snd (Mutate ''task-1'' room_extension (\<lambda>_. 6) (snd room_planned))"

lemma room_extended_values:
  "fst (Mutate ''task-1'' room_extension (\<lambda>_. 6) (snd room_planned)) = Inr ()"
  "length (RoomList (fst room_extended) []) = 4"
  "alloc_room 1 (s_taskIDs (fst (snd room_planned)), snd (snd room_planned))"
  unfolding room_extended_def room_planned_def room_created_def by code_simp+

theorem append_retry_witness:
  "length (RoomList (fst room_extended) []) = 4 \<and>
   (\<forall>k. snapshotLocked (fst (snd (Mutate ''task-1'' room_extension (\<lambda>_. 7) room_extended))) k =
      snapshotLocked (fst room_extended) k)"
proof -
  obtain s w where p: "snd room_planned = (s, w)" by (cases "snd room_planned")
  obtain s1 w1 where e: "room_extended = (s1, w1)" by (cases room_extended)
  obtain res s2 w2 where m: "Mutate ''task-1'' room_extension (\<lambda>_. 7) (s1, w1) = (res, (s2, w2))"
    by (metis prod_cases3)
  have run: "Mutate ''task-1'' room_extension (\<lambda>_. 6) (s, w) = (Inr (), (s1, w1))"
    using room_extended_values(1) e p by (simp add: room_extended_def prod_eq_iff)
  have "svc_wf s" "ids_ok s"
    using reachable_good [OF room_planned_reachable] p by (simp_all add: room_good_def svc_good_def)
  with append_retry [OF run [unfolded room_extension_def] _ _ _ m [unfolded room_extension_def]]
    room_extended_values(2,3) show ?thesis by (simp add: p e m)
qed

end
