(* ===== verification/RoomLive.thy ===== *)
theory RoomLive
  imports RoomRetry
begin

section \<open>The event log and the end of the replay\<close>

text \<open>
  The event log of every aggregate only grows, and the replay of notifications ends: each round
  either wakes a queued parent, which happens once, or releases a waiting task.
\<close>

subsection \<open>The log only grows\<close>

definition log_grows :: "Service \<Rightarrow> Service \<Rightarrow> bool" where
  "log_grows s s' \<longleftrightarrow> (\<forall>r. \<exists>evs. Events s' r = Events s r @ evs)"

lemma log_grows_refl: "log_grows s s"
  by (simp add: log_grows_def)

lemma log_grows_trans: "log_grows s t \<Longrightarrow> log_grows t u \<Longrightarrow> log_grows s u"
  unfolding log_grows_def by (metis append_assoc)

lemma log_growsI: "(\<And>k. \<exists>evs. mgets (s_events s') k = mgets (s_events s) k @ evs) \<Longrightarrow> log_grows s s'"
  by (simp add: log_grows_def Events_def)

lemma room_tx_log: "room_tx s s' \<Longrightarrow> log_grows s s'"
proof (erule room_tx_cases)
  assume "\<And>r. snapshotLocked s' r = snapshotLocked s r"
  then have "mgets (s_events s') k = mgets (s_events s) k" for k
    using sn_Events_snapshotLocked [of s' k] sn_Events_snapshotLocked [of s k] by simp
  then show ?thesis by (intro log_growsI) simp
next
  fix r root b
  assume *: "\<And>k. k \<noteq> r \<Longrightarrow> snapshotLocked s' k = snapshotLocked s k"
    "\<exists>evs. sn_Events (snapshotLocked s' r) = sn_Events (snapshotLocked s r) @ evs"
  have "\<exists>evs. mgets (s_events s') k = mgets (s_events s) k @ evs" for k
  proof (cases "k = r")
    case False
    from arg_cong [OF *(1) [OF False], of sn_Events] show ?thesis by simp
  qed (use *(2) in simp)
  then show ?thesis by (rule log_growsI)
qed

lemma advances_log: "advances x y \<Longrightarrow> room_inv x \<Longrightarrow> log_grows (fst (snd x)) (fst (snd y))"
proof -
  assume "advances x y" "room_inv x"
  then have "room_tx\<^sup>*\<^sup>* (fst (snd x)) (fst (snd y))" by (simp add: advances_def room_inv_def room_good_def)
  then show ?thesis
    by (induction rule: rtranclp_induct) (auto intro: log_grows_refl log_grows_trans room_tx_log)
qed

lemma CreateRoot_log:
  assumes "CreateRoot input now (s, w) = (res, (s', w'))" and "alloc_room 1 (s_taskIDs s, w)" and "svc_wf s"
  shows "log_grows s s'"
  using assms(1,2)
proof (cases rule: CreateRoot_cases)
  case (created i a w1 ev x)
  have none: "mgets (s_events s) i = []" using svc_wf_no_root [OF assms(3) created(4)] by simp
  have "\<exists>evs. mgets (s_events (appendEventLocked i ev s1)) k = mgets (s_events s1) k @ evs \<and> (k \<noteq> i \<longrightarrow> evs = [])" for s1 k
    by (cases "mget (s_roots s1) i") (simp_all add: appendEventLocked_def Let_def)
  from this [of "s\<lparr>s_taskIDs := a, s_roots := mput i (new_root input now i) (s_roots s)\<rparr>"]
  have g: "\<exists>evs. mgets (s_events (appendEventLocked i ev (s\<lparr>s_taskIDs := a, s_roots := mput i (new_root input now i) (s_roots s)\<rparr>))) k =
      mgets (s_events s) k @ evs \<and> (k \<noteq> i \<longrightarrow> evs = [])" for k by simp
  show ?thesis
  proof (rule log_growsI)
    show "\<exists>evs. mgets (s_events s') k = mgets (s_events s) k @ evs" for k
      using g [of k] none created(10) by (auto simp: drop_root_def)
  qed
qed (auto intro: log_growsI)

lemma room_step_log:
  assumes "room_inv x" and "room_step x p y"
  shows "log_grows (fst (snd x)) (fst (snd y))"
  using assms(2)
proof cases
  case (1 roster digest fuel now res)
  obtain rs s w where x: "x = (rs, (s, w))" by (cases x)
  show ?thesis
  proof (cases "is_tx p")
    case True
    from exec_rop_advances [OF 1(3,2) True] assms(1) show ?thesis by (rule advances_log)
  next
    case False
    show ?thesis
    proof (cases p)
      case (RCreate room source requester title body)
      have al: "alloc_room 1 (s_taskIDs s, w)" using 1(2) RCreate by (simp add: x rop_room_def)
      have wf: "svc_wf s" using assms(1) by (simp add: x room_inv_def room_good_def svc_good_def)
      obtain res' rs' s' w' where c: "RoomCreate roster room source requester title body now (rs, (s, w)) = (res', (rs', (s', w')))"
        by (metis prod_cases4)
      have y: "y = (rs', (s', w'))" using 1(3) RCreate c by (cases res') (auto simp: x run_room_def)
      show ?thesis
      proof (cases "s' = s")
        case False
        with c obtain input res'' where "CreateRoot input now (s, w) = (res'', (s', w'))"
          by (auto simp: RoomCreate_def on_core_def split: if_splits sum.splits option.splits prod.splits)
        from CreateRoot_log [OF this al wf] show ?thesis by (simp add: x y)
      qed (simp add: x y log_grows_refl)
    qed (use False 1(3) in \<open>auto simp: x run_room_def BeginRoomDeletion_def end_room_deletion_def Let_def
        log_grows_refl split: if_splits\<close>)
  qed
qed

interpretation room_log: monotone_system room_init room_step room_inv "\<lambda>x y. log_grows (fst (snd x)) (fst (snd y))"
  by unfold_locales (auto intro: log_grows_refl log_grows_trans room_step_log)

text \<open>
  The event log of a task is append-only over whole runs of the room service: no operation
  and no failed or repeated delivery changes or drops a recorded event.
\<close>

theorem event_log_append_only:
  assumes "reachable room_init room_step x" and "steps room_step x ops y"
  shows "\<exists>evs. Events (fst (snd y)) r = Events (fst (snd x)) r @ evs"
  using room_log.steps_le [OF assms(2) room_service.reachable_inv [OF assms(1)]] by (simp add: log_grows_def)

theorem event_log_append_only_witness:
  "Events (fst (snd room_planned)) ''task-1'' \<noteq> [] \<and>
   (\<exists>evs. Events (fst (snd room_dispatched)) ''task-1'' = Events (fst (snd room_planned)) ''task-1'' @ evs)"
proof -
  have "Events (fst (snd room_planned)) ''task-1'' \<noteq> []"
    unfolding room_planned_def room_created_def by code_simp
  moreover have "steps room_step room_planned [RDispatch ''r1'' ''task-2'' []] room_dispatched"
    by (rule steps_Cons, rule room_dispatched_step, rule steps_Nil)
  from event_log_append_only [OF room_planned_reachable this]
  have "\<exists>evs. Events (fst (snd room_dispatched)) ''task-1'' = Events (fst (snd room_planned)) ''task-1'' @ evs" .
  ultimately show ?thesis by blast
qed

subsection \<open>The work left for the replay\<close>

text \<open>
  The replay calls itself only after it woke a queued parent, which then has a feedback event,
  or released a waiting task, which then waits no more. No step of it adds such work.
\<close>

definition unwoken :: "Service \<Rightarrow> string set" where
  "unwoken s = {r. \<exists>root. mget (s_roots s) r = Some root \<and> t_Status root = StatusQueued \<and>
     (\<forall>e \<in> set (mgets (s_events s) r). \<not> (e_Type e = EventFeedback \<and> e_TaskID e = r))}"

definition waiting :: "Service \<Rightarrow> (string \<times> string) set" where
  "waiting s = {(r, k). \<exists>root. mget (s_roots s) r = Some root \<and>
     (\<exists>c \<in> set (sn_Children (snapshotLocked s r)). t_ID c = k \<and> t_Status c = StatusBlocked \<and> t_WaitingOnTaskID c \<noteq> [])}"

definition work_left :: "Service \<Rightarrow> nat" where
  "work_left s = card (unwoken s) + card (waiting s)"

definition no_new_work :: "Service \<Rightarrow> Service \<Rightarrow> bool" where
  "no_new_work s s' \<longleftrightarrow> unwoken s' \<subseteq> unwoken s \<and> waiting s' \<subseteq> waiting s"

lemma finite_work: "finite (unwoken s)" "finite (waiting s)"
proof -
  have keys: "r \<in> fst ` set (s_roots s)" if "mget (s_roots s) r = Some root" for r root
    using that by (rule mget_key)
  have "unwoken s \<subseteq> fst ` set (s_roots s)" by (auto simp: unwoken_def dest: keys)
  then show "finite (unwoken s)" by (rule finite_subset) simp
  have "waiting s \<subseteq> (SIGMA r : fst ` set (s_roots s). t_ID ` set (sn_Children (snapshotLocked s r)))"
    by (auto simp: waiting_def dest: keys)
  then show "finite (waiting s)" by (rule finite_subset) simp
qed

lemma work_left_le: "no_new_work s s' \<Longrightarrow> work_left s' \<le> work_left s"
  unfolding no_new_work_def work_left_def by (intro add_mono card_mono) (simp_all add: finite_work)

lemma work_left_less:
  assumes "no_new_work s s'" and "(\<exists>r \<in> unwoken s. r \<notin> unwoken s') \<or> (\<exists>k \<in> waiting s. k \<notin> waiting s')"
  shows "work_left s' < work_left s"
proof -
  have "card (unwoken s') \<le> card (unwoken s)" "card (waiting s') \<le> card (waiting s)"
    using assms(1) by (auto simp: no_new_work_def intro!: card_mono finite_work)
  moreover have "card (unwoken s') < card (unwoken s) \<or> card (waiting s') < card (waiting s)"
    using assms by (auto simp: no_new_work_def intro!: psubset_card_mono finite_work)
  ultimately show ?thesis by (auto simp: work_left_def)
qed

lemma no_new_work_refl: "no_new_work s s"
  by (simp add: no_new_work_def)

lemma no_new_work_trans: "no_new_work s t \<Longrightarrow> no_new_work t u \<Longrightarrow> no_new_work s u"
  by (auto simp: no_new_work_def)

definition same_view :: "Service \<Rightarrow> Service \<Rightarrow> bool" where
  "same_view s s' \<longleftrightarrow> (\<forall>k. mget (s_roots s') k = mget (s_roots s) k \<and> snapshotLocked s' k = snapshotLocked s k)"

lemma same_view_events: "same_view s s' \<Longrightarrow> mgets (s_events s') k = mgets (s_events s) k"
  unfolding same_view_def by (metis sn_Events_snapshotLocked)

lemma same_view_work: "same_view s s' \<Longrightarrow> unwoken s' = unwoken s \<and> waiting s' = waiting s"
  using same_view_events [of s s'] by (auto simp: unwoken_def waiting_def same_view_def)

lemma same_view_tasks:
  "same_view s s' \<Longrightarrow> svc_wf s \<Longrightarrow> svc_wf s' \<Longrightarrow> set (all_tasks s') = set (all_tasks s)"
  by (auto simp: set_all_tasks same_view_def)

subsection \<open>The transactions of the replay\<close>

lemma stamp_events_tasks:
  "stamp_events root clock i seq es = (new, seq') \<Longrightarrow>
     map (\<lambda>e. (e_Type e, e_TaskID e)) new = map (\<lambda>e. (e_Type e, e_TaskID e)) es"
  by (induction es arbitrary: i seq new) (auto simp: Let_def split: prod.splits)

lemma Mutate_outcome:
  assumes run: "Mutate i (\<lambda>a x. (F a, x)) clock (s, w) = (res, (s', w'))" and good: "svc_good s"
    and calm: "calm (\<lambda>a x. (F a, x))"
  obtains (failed) e where "res = Inl e" and "same_view s s'"
  | (saved) r t root sn evs new v where "requireTaskLocked s i = Inr (r, t)" and "mget (s_roots s) r = Some root"
      and "F (snapshotLocked s r) = Inr (sn\<lparr>sn_Events := mgets (s_events s) r @ evs\<rparr>, v)" and "res = Inr v"
      and "\<And>k. mget (s_roots s') k = (if k = r then Some (sn_Root sn) else mget (s_roots s) k)"
      and "\<And>k. k \<noteq> r \<Longrightarrow> snapshotLocked s' k = snapshotLocked s k"
      and "set (sn_Children (snapshotLocked s' r)) = set (sn_Children sn)"
      and "mgets (s_events s') r = mgets (s_events s) r @ new"
      and "map (\<lambda>e. (e_Type e, e_TaskID e)) new = map (\<lambda>e. (e_Type e, e_TaskID e)) evs"
proof -
  have fresh: "fresh_change (\<lambda>a x. (F a, x)) (s_taskIDs s, w)"
    using calm unfolding calm_def by (intro pure_fresh) auto
  have view: "same_view s (s\<lparr>s_taskIDs := a\<rparr>)" for a by (simp add: same_view_def)
  from run fresh show thesis
  proof (cases rule: Mutate_cases)
    case (refused e a)
    with view show ?thesis by (intro that(1)) auto
  next
    case (attempted r t ids a w1 sn evs v new seq x)
    show ?thesis
    proof (cases x)
      case (Inl e)
      with attempted(14,15) view show ?thesis by (intro that(1)) auto
    next
      case (Inr u)
      obtain root where root: "mget (s_roots s) r = Some root"
        using requireTaskLocked_root [OF attempted(1)] good by (auto simp: svc_good_def)
      have s': "s' = install r sn seq (s\<lparr>s_taskIDs := a\<rparr>)" using attempted(15) Inr by simp
      show ?thesis
      proof (rule that(2) [OF attempted(1) root, of evs sn v new])
        show "F (snapshotLocked s r) = Inr (sn\<lparr>sn_Events := mgets (s_events s) r @ evs\<rparr>, v)"
          using attempted(16) by simp
        show "set (sn_Children (snapshotLocked s' r)) = set (sn_Children sn)"
          by (force simp: s' snapshotLocked_view)
        show "mgets (s_events s') r = mgets (s_events s) r @ new" using attempted(8) by (simp add: s')
        show "snapshotLocked s' k = snapshotLocked s k" if "k \<noteq> r" for k
          using that by (auto simp: s' intro!: snapshotLocked_cong)
      qed (use attempted(14) Inr stamp_events_tasks [OF attempted(7)] in \<open>simp_all add: s'\<close>)
    qed
  qed
qed

lemma snapshot_eq:
  "sn\<lparr>sn_Events := es\<rparr> = b \<Longrightarrow> sn_Root sn = sn_Root b \<and> sn_Children sn = sn_Children b \<and> sn_Events b = es"
  by auto

text \<open>
  A transaction of the replay that keeps the parent's status and adds no waiting child adds no
  work.
\<close>

lemma no_new_workI:
  assumes "mget (s_roots s) r = Some root"
    and roots: "\<And>k. mget (s_roots s') k = (if k = r then Some root' else mget (s_roots s) k)"
    and others: "\<And>k. k \<noteq> r \<Longrightarrow> snapshotLocked s' k = snapshotLocked s k"
    and events: "mgets (s_events s') r = mgets (s_events s) r @ new"
    and status: "t_Status root' = t_Status root"
    and children: "\<And>c. c \<in> set (sn_Children (snapshotLocked s' r)) \<Longrightarrow> t_Status c = StatusBlocked \<Longrightarrow>
      t_WaitingOnTaskID c \<noteq> [] \<Longrightarrow> c \<in> set (sn_Children (snapshotLocked s r))"
  shows "no_new_work s s'"
proof -
  have ev: "mgets (s_events s') k = mgets (s_events s) k" if "k \<noteq> r" for k
    using others [OF that] sn_Events_snapshotLocked [of s' k] sn_Events_snapshotLocked [of s k] by simp
  have "unwoken s' \<subseteq> unwoken s"
  proof
    fix k
    assume "k \<in> unwoken s'"
    then show "k \<in> unwoken s"
      using assms(1) roots [of k] ev [of k] events status by (cases "k = r") (auto simp: unwoken_def)
  qed
  moreover have "waiting s' \<subseteq> waiting s"
  proof
    fix p
    assume "p \<in> waiting s'"
    then obtain k c u where p: "p = (k, t_ID c)" "mget (s_roots s') k = Some u"
      "c \<in> set (sn_Children (snapshotLocked s' k))" "t_Status c = StatusBlocked" "t_WaitingOnTaskID c \<noteq> []"
      by (auto simp: waiting_def)
    then show "p \<in> waiting s"
      using assms(1) roots [of k] others [of k] children [of c] by (cases "k = r") (auto simp: waiting_def)
  qed
  ultimately show ?thesis by (simp add: no_new_work_def)
qed

lemma work_mark:
  assumes run: "Mutate i mark_delivered clock (s, w) = (res, (s', w'))" and good: "svc_good s"
  shows "no_new_work s s'"
proof -
  let ?F = "\<lambda>a. Inr (a\<lparr>sn_Root := (sn_Root a)\<lparr>t_ReportStatus := ''delivered''\<rparr>\<rparr>, ()) :: error + Snapshot \<times> unit"
  have m: "mark_delivered = (\<lambda>a x. (?F a, x))" by (intro ext) (simp add: mark_delivered_def)
  from run [unfolded m] good calm_intros(1) [unfolded m] show ?thesis
  proof (cases rule: Mutate_outcome)
    case (failed e)
    then show ?thesis using same_view_work by (simp add: no_new_work_def)
  next
    case (saved r t root sn evs new v)
    from saved(3) have b: "sn\<lparr>sn_Events := mgets (s_events s) r @ evs\<rparr> =
      (snapshotLocked s r)\<lparr>sn_Root := (sn_Root (snapshotLocked s r))\<lparr>t_ReportStatus := ''delivered''\<rparr>\<rparr>" by simp
    show ?thesis
      by (rule no_new_workI [OF saved(2,5,6,8)])
        (use snapshot_eq [OF b] saved(7) sn_Root_snapshotLocked [OF saved(2)] in auto)
  qed
qed

lemma work_next:
  assumes run: "Mutate i (\<lambda>a x. (RecordNext_fn r0 i now a, x)) clock (s, w) = (res, (s', w'))" and good: "svc_good s"
  shows "no_new_work s s'"
    and "res = Inr True \<Longrightarrow> mget (s_roots s) i \<noteq> None \<Longrightarrow> i \<in> unwoken s \<and> i \<notin> unwoken s'"
proof -
  have "no_new_work s s' \<and> (res = Inr True \<longrightarrow> mget (s_roots s) i \<noteq> None \<longrightarrow> i \<in> unwoken s \<and> i \<notin> unwoken s')"
    using run good calm_intros(2) [of r0 i now]
  proof (cases rule: Mutate_outcome)
    case (failed e)
    then show ?thesis using same_view_work by (simp add: no_new_work_def)
  next
    case (saved r t root sn evs new v)
    let ?a = "snapshotLocked s r"
    note rt = sn_Root_snapshotLocked [OF saved(2)]
    have b: "sn_Root sn = sn_Root ?a \<and> sn_Children sn = sn_Children ?a"
      using saved(3) by (auto simp: RecordNext_fn_def split: if_splits dest: snapshot_eq snapshot_eq [OF sym])
    have "no_new_work s s'"
      by (rule no_new_workI [OF saved(2,5,6,8)]) (use b saved(7) rt in auto)
    moreover have "i \<in> unwoken s \<and> i \<notin> unwoken s'" if v: "v" and i: "mget (s_roots s) i = Some u" for u
    proof -
      have wf: "svc_wf s" using good by (simp add: svc_good_def)
      have "trimmed i" "i \<noteq> []" using svc_wf_root [OF wf i] by simp_all
      then have ri: "r = i" using saved(1) i by (simp add: requireTaskLocked_def trimmed_TrimSpace)
      from saved(3) v have q: "t_Status root = StatusQueued"
        "\<forall>e \<in> set (mgets (s_events s) r). \<not> (e_Type e = EventFeedback \<and> e_TaskID e = i)"
        by (auto simp: RecordNext_fn_def rt list_ex_iff split: if_splits)
      from saved(3) v q(1) have "sn\<lparr>sn_Events := mgets (s_events s) r @ evs\<rparr> = feedback r0 (sn_Root ?a)
          ''Previous parent ended. Review this queued parent, plan/start it and explicitly dispatch eligible worker tasks.'' now ?a"
        by (auto simp: RecordNext_fn_def split: if_splits)
      from snapshot_eq [OF this] have "evs \<noteq> []" "map (\<lambda>e. (e_Type e, e_TaskID e)) evs = [(EventFeedback, t_ID root)]"
        by (auto simp: feedback_def rt)
      with saved(9) have "(EventFeedback, i) \<in> set (map (\<lambda>e. (e_Type e, e_TaskID e)) new)"
        using svc_wf_root [OF wf saved(2)] ri by simp
      then obtain e where "e \<in> set new" "e_Type e = EventFeedback" "e_TaskID e = i" by auto
      then have "\<exists>e \<in> set (mgets (s_events s') i). e_Type e = EventFeedback \<and> e_TaskID e = i"
        using saved(8) ri by (intro bexI [of _ e]) auto
      with q saved(2) ri show ?thesis by (auto simp: unwoken_def)
    qed
    ultimately show ?thesis using saved(4) by auto
  qed
  then show "no_new_work s s'"
    and "res = Inr True \<Longrightarrow> mget (s_roots s) i \<noteq> None \<Longrightarrow> i \<in> unwoken s \<and> i \<notin> unwoken s'" by blast+
qed

lemma replaced_first:
  assumes "u \<in> set (replace_first i c cs)" and "t_ID u = i" and "distinct (map t_ID cs)" and "i \<in> t_ID ` set cs"
  shows "u = c"
  using assms by (induction cs) (auto split: if_splits)

lemma work_release:
  assumes run: "Mutate i (\<lambda>a x. (ReleaseCapacity_fn r0 i now a, x)) clock (s, w) = (res, (s', w'))" and good: "svc_good s"
  shows "no_new_work s s'"
    and "res = Inr False \<Longrightarrow> same_view s s'"
    and "res = Inr True \<Longrightarrow> t \<in> set (all_tasks s) \<Longrightarrow> t_ID t = i \<Longrightarrow> t_Status t = StatusBlocked \<Longrightarrow>
      t_WaitingOnTaskID t \<noteq> [] \<Longrightarrow> work_left s' < work_left s"
proof -
  have wf: "svc_wf s" using good by (simp add: svc_good_def)
  have "no_new_work s s' \<and> (res = Inr False \<longrightarrow> same_view s s') \<and>
      (res = Inr True \<longrightarrow> t \<in> set (all_tasks s) \<longrightarrow> t_ID t = i \<longrightarrow> t_Status t = StatusBlocked \<longrightarrow>
        t_WaitingOnTaskID t \<noteq> [] \<longrightarrow> work_left s' < work_left s)"
    using run good calm_intros(3) [of r0 i now]
  proof (cases rule: Mutate_outcome)
    case (failed e)
    then show ?thesis using same_view_work by (simp add: no_new_work_def)
  next
    case (saved r t0 root sn evs new v)
    let ?a = "snapshotLocked s r"
    note rt = sn_Root_snapshotLocked [OF saved(2)]
    show ?thesis
    proof (cases v)
      case False
      with saved(3) have a: "ReleaseCapacity_fn r0 i now ?a = Inr (?a, False)"
        by (auto simp: ReleaseCapacity_fn_def Let_def split: option.splits if_splits)
      have "same_view s s'"
        using Mutate_unchanged [OF run wf saved(1)] a unfolding same_view_def by simp
      then show ?thesis using saved(4) False same_view_work by (auto simp: no_new_work_def)
    next
      case True
      with saved(3) obtain c where c: "child ?a i = Some c"
        by (auto simp: ReleaseCapacity_fn_def split: option.splits)
      let ?c = "c\<lparr>t_Status := StatusPending, t_WaitingOnTaskID := [], t_Error := []\<rparr>"
      from saved(3) True c have b: "sn_Root sn = sn_Root ?a \<and> sn_Children sn = replace_first i ?c (sn_Children ?a)"
        by (auto simp: ReleaseCapacity_fn_def Let_def split: if_splits dest: snapshot_eq snapshot_eq [OF sym])
      have nn: "no_new_work s s'"
        by (rule no_new_workI [OF saved(2,5,6,8)]) (use b saved(7) rt in \<open>auto dest!: set_replace_first\<close>)
      moreover have "work_left s' < work_left s"
        if t: "t \<in> set (all_tasks s)" "t_ID t = i" "t_Status t = StatusBlocked" "t_WaitingOnTaskID t \<noteq> []"
      proof (rule work_left_less [OF nn], rule disjI2, rule bexI)
        note ci = childD [OF c]
        have "c \<in> set (all_tasks s)" using ci saved(2) set_all_tasks [OF wf] by blast
        with same_task [OF good this t(1)] ci t(2) have "c = t" by simp
        with ci t saved(2) show "(r, i) \<in> waiting s" by (auto simp: waiting_def)
        have d: "distinct (map t_ID (sn_Children ?a))"
          using children_ids [OF wf, of r] wf by (simp add: snapshotLocked_view svc_wf_def del: map_map)
        have "t_WaitingOnTaskID u = []" if "u \<in> set (sn_Children sn)" "t_ID u = i" for u
        proof -
          have "i \<in> t_ID ` set (sn_Children ?a)" using ci by blast
          with replaced_first [of u i ?c "sn_Children ?a"] that b d have "u = ?c" by metis
          then show ?thesis by simp
        qed
        then show "(r, i) \<notin> waiting s'" using saved(7) by (auto simp: waiting_def)
      qed
      ultimately show ?thesis using saved(4) True by blast
    qed
  qed
  then show "no_new_work s s'" and "res = Inr False \<Longrightarrow> same_view s s'"
    and "res = Inr True \<Longrightarrow> t \<in> set (all_tasks s) \<Longrightarrow> t_ID t = i \<Longrightarrow> t_Status t = StatusBlocked \<Longrightarrow>
      t_WaitingOnTaskID t \<noteq> [] \<Longrightarrow> work_left s' < work_left s" by blast+
qed

subsection \<open>The replay ends\<close>

definition sane :: "room_state \<Rightarrow> bool" where
  "sane x \<longleftrightarrow> svc_good (fst (snd x)) \<and> agg_ok (fst (snd x))"

definition less_work :: "room_state \<Rightarrow> room_state \<Rightarrow> bool" where
  "less_work x y \<longleftrightarrow> (sane x \<longrightarrow> sane y \<and> no_new_work (fst (snd x)) (fst (snd y)))"

lemma advances_sane: "advances x y \<Longrightarrow> sane x \<Longrightarrow> sane y"
proof -
  assume a: "advances x y" "sane x"
  then have "room_tx\<^sup>*\<^sup>* (fst (snd x)) (fst (snd y))" by (simp add: advances_def sane_def)
  then have "agg_ok (fst (snd x)) \<longrightarrow> agg_ok (fst (snd y))"
    by (induction rule: rtranclp_induct) (auto dest: room_tx_agg)
  with a txs_wf [of "fst (snd x)" "fst (snd y)"] show "sane y" by (simp add: advances_def sane_def)
qed

lemma less_work_Mutate:
  assumes "room_op (on_core (Mutate i fn clock)) x"
    and "\<And>s w res s' w'. Mutate i fn clock (s, w) = (res, (s', w')) \<Longrightarrow> svc_good s \<Longrightarrow> no_new_work s s'"
  shows "along less_work (on_core (Mutate i fn clock)) x"
proof -
  obtain rs s w where x: "x = (rs, (s, w))" by (cases x)
  obtain res s' w' where run: "Mutate i fn clock (s, w) = (res, (s', w'))" by (metis prod_cases3)
  from assms(1) advances_sane run assms(2) [OF run] show ?thesis
    by (auto simp: along_def less_work_def x on_core_def sane_def)
qed

interpretation replay: delivery less_work
proof unfold_locales
  show "less_work x x" for x by (simp add: less_work_def no_new_work_refl)
  show "less_work x z" if "less_work x y" "less_work y z" for x y z
    using that by (auto simp: less_work_def intro: no_new_work_trans)
  show "along less_work (send p) x" for p x
    by (cases x) (auto simp: along_def less_work_def send_def Let_def sane_def no_new_work_refl split: list.splits prod.splits)
  show "along less_work (on_core (Mutate i mark_delivered clock)) x" for i clock x
    by (rule less_work_Mutate) (rule adv.along_mark, rule work_mark)
  show "along less_work (on_core (Mutate i (\<lambda>a x. (RecordNext_fn r i now a, x)) clock)) x" for i r now clock x
    by (rule less_work_Mutate) (rule adv.along_next, rule work_next)
  show "along less_work (on_core (Mutate i (\<lambda>a x. (ReleaseCapacity_fn r i now a, x)) clock)) x" for i r now clock x
    by (rule less_work_Mutate) (rule adv.along_release, rule work_release)
qed

lemma recordNext_less:
  assumes "recordNext roster room now (rs, (s, w)) = (Inr True, (rs', (s', w')))" and "sane (rs, (s, w))"
  shows "work_left s' < work_left s"
proof -
  let ?ts = "RoomList s room"
  let ?i = "firstParent ?ts room"
  from assms(1) obtain r where m: "Mutate ?i (\<lambda>a x. (RecordNext_fn r ?i now a, x)) (\<lambda>_. now) (s, w) = (Inr True, (s', w'))"
    and i: "?i \<noteq> []"
    by (auto simp: recordNext_def Let_def on_core_def split: if_splits sum.splits prod.splits)
  have g: "svc_good s" "agg_ok s" "svc_wf s" using assms(2) by (simp_all add: sane_def svc_good_def)
  let ?sorted = "sort_key (\<lambda>t. (t_CreatedAt t, t_ID t))
    (filter (\<lambda>t. t_RoomID t = room \<and> t_ParentID t = [] \<and> \<not> Terminal (t_Status t)) ?ts)"
  obtain t ts where "?sorted = t # ts" using i by (cases ?sorted) (simp_all add: firstParent_def)
  then have "t \<in> set ?sorted" "t_ID t = ?i" by (simp_all add: firstParent_def)
  then have t: "t \<in> set ?ts" "t_ParentID t = []" by simp_all
  from g(3,2) t(1) obtain k where "mget (s_roots s) k = Some t"
    by (rule RoomList_cases) (use t(2) in auto)
  with svc_wf_root [OF g(3) this] \<open>t_ID t = ?i\<close> have "mget (s_roots s) ?i \<noteq> None" by simp
  from work_next(2) [OF m g(1) refl this] work_next(1) [OF m g(1)] show ?thesis
    by (intro work_left_less) auto
qed

lemma release_less:
  assumes "release_tasks roster now all ts rooms (rs, (s, w)) = (Inr rooms', (rs', (s', w')))"
    and "sane (rs, (s, w))" and "set ts \<subseteq> set (all_tasks s)" and "rooms = []" and "rooms' \<noteq> []"
  shows "work_left s' < work_left s"
  using assms
proof (induction ts arbitrary: rooms rs s w)
  case (Cons t ts)
  have g: "svc_good s" "svc_wf s" using Cons.prems(2) by (simp_all add: sane_def svc_good_def)
  let ?run = "\<lambda>rooms. release_tasks roster now all ts rooms"
  show ?case
  proof (cases "?run rooms (rs, (s, w)) = (Inr rooms', (rs', (s', w')))")
    case True
    from Cons.IH [OF True Cons.prems(2) _ Cons.prems(4,5)] Cons.prems(3) show ?thesis by simp
  next
    case False
    with Cons.prems(1) obtain r released y where t: "t_WaitingOnTaskID t \<noteq> []" "t_Status t = StatusBlocked"
      and m: "on_core (Mutate (t_ID t) (\<lambda>a x. (ReleaseCapacity_fn r (t_ID t) now a, x)) (\<lambda>_. now)) (rs, (s, w)) = (Inr released, y)"
      and rest: "?run (if released then List.insert (t_RoomID t) rooms else rooms) y = (Inr rooms', (rs', (s', w')))"
      by (auto split: if_splits sum.splits elim!: bindE_InrE)
    from m obtain s1 w1 where y: "y = (rs, (s1, w1))"
      and m1: "Mutate (t_ID t) (\<lambda>a x. (ReleaseCapacity_fn r (t_ID t) now a, x)) (\<lambda>_. now) (s, w) = (Inr released, (s1, w1))"
      by (auto simp: on_core_def split: prod.splits)
    have s1: "sane (rs, (s1, w1))"
      using advances_sane [of "(rs, (s, w))" "(rs, (s1, w1))"] adv.along_release [of "t_ID t" r now "\<lambda>_. now" "(rs, (s, w))"]
        m Cons.prems(2) y by (simp add: along_def)
    note rel = work_release [OF m1 g(1)]
    show ?thesis
    proof (cases released)
      case True
      then have "work_left s1 < work_left s" using rel(3) [of t] t Cons.prems(3) by simp
      moreover have "no_new_work s1 s'"
        using replay.along_release_tasks [of roster now all ts _ y] rest s1
        unfolding along_def less_work_def y by (metis fst_conv snd_conv)
      ultimately show ?thesis using work_left_le by fastforce
    next
      case False
      then have v: "same_view s s1" using rel(2) by simp
      have "set ts \<subseteq> set (all_tasks s1)"
        using same_view_tasks [OF v g(2)] s1 Cons.prems(3) by (simp add: sane_def svc_good_def)
      from Cons.IH [OF _ s1 this Cons.prems(4,5)] rest False y same_view_work [OF v] show ?thesis
        by (simp add: work_left_def)
    qed
  qed
qed simp

text \<open>A run with fuel ends if some amount of fuel is enough and more of it changes nothing.\<close>

definition ends :: "(nat \<Rightarrow> 'a froom) \<Rightarrow> room_state \<Rightarrow> bool" where
  "ends m x \<longleftrightarrow> (\<exists>out N. \<forall>n \<ge> N. m n x = Some out)"

lemma endsI: "(\<And>n. N \<le> n \<Longrightarrow> m n x = Some out) \<Longrightarrow> ends m x"
  unfolding ends_def by blast

lemma ends_Suc:
  assumes "ends m x" and "\<And>n. m' (Suc n) x' = m n x"
  shows "ends m' x'"
proof -
  from assms(1) obtain out N where "\<forall>n \<ge> N. m n x = Some out" by (auto simp: ends_def)
  with assms(2) have "m' n x' = Some out" if "Suc N \<le> n" for n using that by (cases n) auto
  then show ?thesis by (rule endsI)
qed

lemma ends_const: "(\<And>n. m' (Suc n) x' = Some out) \<Longrightarrow> ends m' x'"
  by (rule endsI [where N = 1 and out = out]) (metis One_nat_def Suc_le_D)

text \<open>The rooms are replayed one after the other, each from a state with less work.\<close>

lemma retry_rooms_ends:
  assumes step: "\<And>room y. sane y \<Longrightarrow> work_left (fst (snd y)) \<le> b \<Longrightarrow> ends (\<lambda>n. RetryDelivery n roster now room) y"
    and "sane x" and "work_left (fst (snd x)) \<le> b"
  shows "ends (\<lambda>n. retry_rooms n roster now rooms) x"
  using assms(2,3)
proof (induction rooms arbitrary: x)
  case Nil
  show ?case by (rule endsI [where N = 0 and out = "(Inr (), x)"]) (simp add: run_room_def)
next
  case (Cons room rooms)
  from step [OF Cons.prems, of room] obtain res y N
    where N: "\<forall>n \<ge> N. RetryDelivery n roster now room x = Some (res, y)"
    unfolding ends_def by (metis prod.exhaust)
  show ?case
  proof (cases res)
    case (Inl e)
    with N have "retry_rooms n roster now (room # rooms) x = Some (Inl e, y)" if "Suc N \<le> n" for n
      using that by (cases n) (auto simp: bindF_def)
    then show ?thesis by (rule endsI)
  next
    case (Inr u)
    from N have "RetryDelivery N roster now room x = Some (res, y)" by simp
    from alongF_D [OF replay.along_RetryDelivery(1) this] Cons.prems work_left_le
    have "sane y" "work_left (fst (snd y)) \<le> b" by (auto simp: less_work_def intro: le_trans)
    from Cons.IH [OF this] obtain out M where M: "\<forall>n \<ge> M. retry_rooms n roster now rooms y = Some out"
      unfolding ends_def by blast
    have "retry_rooms n roster now (room # rooms) x = Some out" if "Suc (max N M) \<le> n" for n
      using that N M Inr by (cases n) (auto simp: bindF_def)
    then show ?thesis by (rule endsI)
  qed
qed

lemma RetryDelivery_ends: "sane x \<Longrightarrow> ends (\<lambda>n. RetryDelivery n roster now room) x"
proof (induction "work_left (fst (snd x))" arbitrary: x room rule: less_induct)
  case less
  obtain rs s w where x: "x = (rs, (s, w))" by (cases x)
  show ?case
  proof (cases "members roster room")
    case (Inl e)
    then show ?thesis by (intro ends_const [where out = "(Inl e, x)"]) (simp add: x)
  next
    case (Inr r)
    show ?thesis
    proof (cases "rs_hasSend rs")
      case False
      with Inr show ?thesis by (intro ends_const [where out = "(Inr (), x)"]) (simp add: x)
    next
      case True
      obtain r1 y where d: "deliver_roots r now (RoomList s room) x = (r1, y)" by (rule prod.exhaust)
      from replay.along_deliver_roots [of r now "RoomList s room" x] d less.prems
      have y: "sane y" "work_left (fst (snd y)) \<le> work_left (fst (snd x))"
        by (auto simp: along_def less_work_def intro: work_left_le)
      show ?thesis
      proof (cases r1)
        case (Inl e)
        with Inr True d show ?thesis
          by (intro ends_const [where out = "(Inl e, y)"]) (simp add: x bindF_def run_room_def)
      next
        case r1: (Inr u)
        obtain r2 z where n: "recordNext roster room now y = (r2, z)" by (rule prod.exhaust)
        from replay.along_recordNext [of roster room now y] n y(1)
        have z: "sane z" "work_left (fst (snd z)) \<le> work_left (fst (snd x))"
          using y(2) by (auto simp: along_def less_work_def intro: work_left_le le_trans)
        show ?thesis
        proof (cases r2)
          case (Inl e)
          with Inr True d r1 n show ?thesis
            by (intro ends_const [where out = "(Inl e, z)"]) (simp add: x bindF_def run_room_def)
        next
          case r2: (Inr created)
          show ?thesis
          proof (cases created)
            case created: True
            obtain rs1 s1 w1 rs2 s2 w2 where yz: "y = (rs1, (s1, w1))" "z = (rs2, (s2, w2))" by (cases y; cases z)
            have "work_left (fst (snd z)) < work_left (fst (snd y))"
              using recordNext_less [of roster room now rs1 s1 w1 rs2 s2 w2] n r2 created y(1) yz by simp
            with y(2) have "ends (\<lambda>n. RetryDelivery n roster now room) z" by (intro less.hyps) (simp_all add: z)
            then show ?thesis
              by (rule ends_Suc) (use Inr True d r1 n r2 created in \<open>simp add: x bindF_def run_room_def\<close>)
          next
            case created: False
            have "ends (\<lambda>n. releaseCapacity n roster now) z"
            proof -
              obtain rs2 s2 w2 where zz: "z = (rs2, (s2, w2))" by (cases z)
              let ?ts = "RoomList s2 []"
              obtain r3 v where rel: "release_tasks roster now ?ts ?ts [] z = (r3, v)" by (rule prod.exhaust)
              have v: "sane v" using replay.along_release_tasks [of roster now ?ts ?ts "[]" z] rel z(1)
                by (auto simp: along_def less_work_def)
              show ?thesis
              proof (cases r3)
                case (Inl e)
                with rel show ?thesis
                  by (intro ends_const [where out = "(Inl e, v)"]) (simp add: zz bindF_def run_room_def Let_def)
              next
                case r3: (Inr rooms)
                show ?thesis
                proof (cases "rooms = []")
                  case True
                  with rel r3 show ?thesis
                    by (intro ends_const [where out = "(Inr (), v)"]) (simp add: zz bindF_def run_room_def Let_def)
                next
                  case False
                  obtain rs3 s3 w3 where vv: "v = (rs3, (s3, w3))" by (cases v)
                  have "set ?ts \<subseteq> set (all_tasks s2)" by (auto simp: RoomList_def ListGlobal_def)
                  from release_less [OF _ _ this refl False, of roster now ?ts rs2 w2 rs3 s3 w3] rel r3 z(1)
                  have lt: "work_left (fst (snd v)) < work_left (fst (snd x))" using z(2) by (simp add: zz vv)
                  have "ends (\<lambda>n. retry_rooms n roster now rooms) v"
                    by (rule retry_rooms_ends [OF _ v order_refl]) (use less.hyps lt in force)
                  then show ?thesis
                    by (rule ends_Suc) (use rel r3 in \<open>simp add: zz bindF_def run_room_def Let_def\<close>)
                qed
              qed
            qed
            then show ?thesis
              by (rule ends_Suc) (use Inr True d r1 n r2 created in \<open>simp add: x bindF_def run_room_def\<close>)
          qed
        qed
      qed
    qed
  qed
qed

text \<open>
  C17. The replay of a room's notifications always ends, in every reachable state, with every
  roster and every pattern of delivery and file failures, although it calls itself and the
  other rooms' replays: from some amount of fuel on it returns, and always the same outcome.
\<close>

theorem RetryDelivery_terminates:
  assumes "reachable room_init room_step x"
  shows "\<exists>out N. \<forall>n \<ge> N. RetryDelivery n roster now room x = Some out"
proof -
  have "sane x" using reachable_good [OF assms] by (simp add: room_good_def sane_def)
  from RetryDelivery_ends [OF this] show ?thesis unfolding ends_def .
qed

theorem RetryDelivery_terminates_witness:
  "\<exists>out N. \<forall>n \<ge> N. RetryDelivery n demo_roster 9 ''r1'' room_dispatched = Some out"
  by (rule RetryDelivery_terminates [OF room_dispatched_reachable])

end
