(* ===== verification/WorkTypes.thy ===== *)
theory WorkTypes
  imports Prelude "HOL-Library.Word"
begin

section \<open>The wire types of participant work (\<open>internal/apitypes/participant_work.go\<close>)\<close>

text \<open>
  The structs that the work lease registry, its event buses and the runtime turn controllers
  exchange, field by field; the usage snapshot of \<open>internal/modelcap\<close>, the turn reference of
  \<open>internal/runtime/turn_control.go\<close> and the task metadata of \<open>internal/taskmeta\<close>. A \<open>uint64\<close> is
  a 64-bit word, so \<open>++\<close> wraps; a Go \<open>int\<close> is an \<^typ>\<open>int\<close>. The clone helpers copy values and are
  the identity here.
\<close>

declare map_of_eq_Some_iff [simp del] Some_eq_map_of_iff [simp del]

type_synonym uint64 = "64 word"

definition ParticipantWorkKindAgentTurn :: string where "ParticipantWorkKindAgentTurn = ''agent_turn''"
definition ParticipantWorkStateWorking :: string where "ParticipantWorkStateWorking = ''working''"
definition ParticipantWorkStateIdle :: string where "ParticipantWorkStateIdle = ''idle''"

definition ParticipantWorkReasonStarted :: string where "ParticipantWorkReasonStarted = ''started''"
definition ParticipantWorkReasonRenewed :: string where "ParticipantWorkReasonRenewed = ''renewed''"
definition ParticipantWorkReasonStatusUpdated :: string where "ParticipantWorkReasonStatusUpdated = ''status_updated''"
definition ParticipantWorkReasonStopRequested :: string where "ParticipantWorkReasonStopRequested = ''stop_requested''"
definition ParticipantWorkReasonStopFailed :: string where "ParticipantWorkReasonStopFailed = ''stop_failed''"
definition ParticipantWorkReasonStopTimedOut :: string where "ParticipantWorkReasonStopTimedOut = ''stop_timed_out''"
definition ParticipantWorkReasonReleased :: string where "ParticipantWorkReasonReleased = ''released''"
definition ParticipantWorkReasonStopped :: string where "ParticipantWorkReasonStopped = ''stopped''"
definition ParticipantWorkReasonExpired :: string where "ParticipantWorkReasonExpired = ''expired''"

definition ParticipantWorkStopStateRequested :: string where "ParticipantWorkStopStateRequested = ''stop_requested''"
definition ParticipantWorkStopStateFailed :: string where "ParticipantWorkStopStateFailed = ''stop_failed''"
definition ParticipantWorkStopStateTimedOut :: string where "ParticipantWorkStopStateTimedOut = ''stop_timed_out''"
definition ParticipantWorkStopStateStopped :: string where "ParticipantWorkStopStateStopped = ''stopped''"

definition ParticipantWorkOutcomeReleased :: string where "ParticipantWorkOutcomeReleased = ''released''"
definition ParticipantWorkOutcomeStopped :: string where "ParticipantWorkOutcomeStopped = ''stopped''"
definition ParticipantWorkOutcomeStopTimedOut :: string where "ParticipantWorkOutcomeStopTimedOut = ''stop_timed_out''"

definition ParticipantWorkCapabilityThinkingStatusV1 :: string where
  "ParticipantWorkCapabilityThinkingStatusV1 = ''thinking_status_v1''"
definition ParticipantWorkCapabilityTurnStopV1 :: string where
  "ParticipantWorkCapabilityTurnStopV1 = ''turn_stop_v1''"
definition ParticipantWorkCapabilityStageV1 :: string where
  "ParticipantWorkCapabilityStageV1 = ''work_stage_v1''"

definition ParticipantWorkPhaseWorking :: string where "ParticipantWorkPhaseWorking = ''working''"
definition ParticipantWorkPhaseThinking :: string where "ParticipantWorkPhaseThinking = ''thinking''"

definition ParticipantWorkStagePreparingReply :: string where "ParticipantWorkStagePreparingReply = ''preparing_reply''"
definition ParticipantWorkStageThinking :: string where "ParticipantWorkStageThinking = ''thinking''"
definition ParticipantWorkStageRunningTool :: string where "ParticipantWorkStageRunningTool = ''running_tool''"
definition ParticipantWorkStageGeneratingReply :: string where "ParticipantWorkStageGeneratingReply = ''generating_reply''"

definition ParticipantThinkingFormatPlainText :: string where "ParticipantThinkingFormatPlainText = ''plain_text''"

lemmas stop_state_defs =
  ParticipantWorkStopStateRequested_def ParticipantWorkStopStateFailed_def
  ParticipantWorkStopStateTimedOut_def ParticipantWorkStopStateStopped_def

lemmas work_outcome_defs =
  ParticipantWorkOutcomeReleased_def ParticipantWorkOutcomeStopped_def ParticipantWorkOutcomeStopTimedOut_def

lemmas work_phase_defs =
  ParticipantWorkPhaseWorking_def ParticipantWorkPhaseThinking_def ParticipantWorkStagePreparingReply_def
  ParticipantWorkStageThinking_def ParticipantWorkStageRunningTool_def ParticipantWorkStageGeneratingReply_def

lemmas work_capability_defs =
  ParticipantWorkCapabilityThinkingStatusV1_def ParticipantWorkCapabilityTurnStopV1_def
  ParticipantWorkCapabilityStageV1_def

lemma stop_states_distinct [simp]:
  "ParticipantWorkStopStateRequested \<noteq> ParticipantWorkStopStateFailed"
  "ParticipantWorkStopStateRequested \<noteq> ParticipantWorkStopStateTimedOut"
  "ParticipantWorkStopStateFailed \<noteq> ParticipantWorkStopStateTimedOut"
  "ParticipantWorkStopStateRequested \<noteq> []" "ParticipantWorkStopStateFailed \<noteq> []"
  "ParticipantWorkStopStateTimedOut \<noteq> []"
  by (simp_all add: stop_state_defs)

subsection \<open>Records\<close>

record ContextUsage =
  cu_SessionID :: string
  cu_ModelID :: string
  cu_UsedTokens :: "int option"
  cu_ContextWindow :: int
  cu_ContextSource :: string
  cu_AutoCompact :: bool
  cu_CompactThreshold :: int
  cu_Compacting :: bool
  cu_Estimated :: bool
  cu_UpdatedAt :: string

definition Valid :: "ContextUsage \<Rightarrow> bool" where
  "Valid u \<longleftrightarrow>
     cu_ContextWindow u > 0 \<and> cu_ContextWindow u \<le> 1000000000 \<and>
     (case cu_UsedTokens u of None \<Rightarrow> True | Some n \<Rightarrow> n \<ge> 0 \<and> n < 1000000000000) \<and>
     length (cu_ModelID u) < 1024 \<and> length (cu_SessionID u) < 1024 \<and> length (cu_UpdatedAt u) < 64 \<and>
     cu_CompactThreshold u \<ge> 0 \<and> cu_CompactThreshold u \<le> 1000000000 \<and>
     cu_ContextSource u \<in> {''runtime'', ''default'', ''user'', ''provider'', ''catalog''}"

record ParticipantThinkingStatus =
  th_Format :: string
  th_Text :: string
  th_Truncated :: bool

record ParticipantWorkStatus =
  ws_ContextUsage :: "ContextUsage option"
  ws_Sequence :: uint64
  ws_Phase :: string
  ws_Stage :: string
  ws_Thinking :: "ParticipantThinkingStatus option"

record ParticipantWorkStatusPatchRequest =
  sp_ContextUsage :: "ContextUsage option"
  sp_Capabilities :: "string list"
  sp_Sequence :: uint64
  sp_Phase :: string
  sp_Stage :: string
  sp_Thinking :: "ParticipantThinkingStatus option"

record ParticipantWorkUpdate =
  wu_RegistryEpoch :: string
  wu_LeaseID :: string
  wu_ParticipantID :: string
  wu_UserID :: string
  wu_RoomID :: string
  wu_ThreadRootID :: string
  wu_RequestID :: string
  wu_TaskID :: string
  wu_TaskAttempt :: int
  wu_Kind :: string
  wu_State :: string
  wu_Reason :: string
  wu_Revision :: uint64
  wu_ExpiresAt :: time
  wu_Capabilities :: "string list"
  wu_Status :: "ParticipantWorkStatus option"
  wu_StopRequestedAt :: "time option"
  wu_StopState :: string
  wu_StopError :: string

record ParticipantWorkStopRequest =
  sr_RoomID :: string
  sr_LeaseID :: string
  sr_RequestID :: string

record ParticipantWorkStopResponse =
  so_Accepted :: bool
  so_RegistryEpoch :: string
  so_ParticipantID :: string
  so_UserID :: string
  so_RoomID :: string
  so_ThreadRootID :: string
  so_LeaseID :: string
  so_RequestID :: string
  so_TaskID :: string
  so_TaskAttempt :: int
  so_State :: string
  so_RequestedAt :: time

record TurnRef =
  tr_RegistryEpoch :: string
  tr_ParticipantID :: string
  tr_RoomID :: string
  tr_LeaseID :: string
  tr_RequestID :: string
  tr_RequestedAt :: time

text \<open>
  An error value a turn controller returns: its text, and what \<open>errors.Is\<close> answers for the three
  sentinels the callers ask about. Controllers may wrap a sentinel, so the text is separate.
\<close>

record turn_error =
  te_Text :: string
  te_NotFound :: bool
  te_DeadlineExceeded :: bool
  te_Canceled :: bool

definition ErrTurnControlUnavailable :: turn_error where
  "ErrTurnControlUnavailable =
     \<lparr>te_Text = ''turn control is unavailable'', te_NotFound = False, te_DeadlineExceeded = False, te_Canceled = False\<rparr>"

definition ErrTurnNotFound :: turn_error where
  "ErrTurnNotFound =
     \<lparr>te_Text = ''active turn not found'', te_NotFound = True, te_DeadlineExceeded = False, te_Canceled = False\<rparr>"

subsection \<open>Task metadata (\<open>internal/taskmeta/metadata.go\<close>)\<close>

text \<open>
  A \<open>map[string]any\<close> of message metadata: strings, integers, booleans and nested maps are what the
  code writes; every other dynamic type is one constructor. A nil map reads like an empty one, and
  \<open>Set\<close> replaces it by an empty one, so both are the empty list.
\<close>

datatype meta = MString string | MInt int | MBool bool | MMap "(string \<times> meta) list" | MOther

definition IDKey :: string where "IDKey = ''task_id''"
definition AttemptKey :: string where "AttemptKey = ''task_attempt''"

definition Set :: "(string, meta) gomap \<Rightarrow> string \<Rightarrow> int \<Rightarrow> (string, meta) gomap" where
  "Set metadata taskID attempt =
     (let taskID = TrimSpace taskID in
      if taskID = [] then mdel AttemptKey (mdel IDKey metadata)
      else let metadata = mput IDKey (MString taskID) metadata in
        if attempt > 0 then mput AttemptKey (MInt attempt) metadata else mdel AttemptKey metadata)"

definition ID :: "(string, meta) gomap \<Rightarrow> string" where
  "ID metadata = (case mget metadata IDKey of Some (MString v) \<Rightarrow> TrimSpace v | _ \<Rightarrow> [])"

lemma ID_Set [simp]: "ID (Set metadata taskID attempt) = TrimSpace taskID"
  by (simp add: ID_def Set_def Let_def IDKey_def AttemptKey_def)

subsection \<open>\<open>utf8.ValidString\<close>\<close>

definition cont :: "nat \<Rightarrow> bool" where
  "cont b \<longleftrightarrow> 0x80 \<le> b \<and> b \<le> 0xBF"

text \<open>
  The encodings Unicode allows: no overlong forms, no surrogates, nothing above U+10FFFF.
\<close>

fun valid_utf8 :: "nat list \<Rightarrow> bool" where
  "valid_utf8 [] = True"
| "valid_utf8 (a # bs) =
     (if a < 0x80 then valid_utf8 bs
      else case bs of [] \<Rightarrow> False
      | b # cs \<Rightarrow>
        if 0xC2 \<le> a \<and> a \<le> 0xDF then cont b \<and> valid_utf8 cs
        else case cs of [] \<Rightarrow> False
        | c # ds \<Rightarrow>
          if 0xE0 \<le> a \<and> a \<le> 0xEF then
            (if a = 0xE0 then 0xA0 \<le> b else True) \<and> (if a = 0xED then b \<le> 0x9F else True) \<and>
            cont b \<and> cont c \<and> valid_utf8 ds
          else case ds of [] \<Rightarrow> False
          | d # es \<Rightarrow>
            0xF0 \<le> a \<and> a \<le> 0xF4 \<and> (if a = 0xF0 then 0x90 \<le> b else True) \<and> (if a = 0xF4 then b \<le> 0x8F else True) \<and>
            cont b \<and> cont c \<and> cont d \<and> valid_utf8 es)"

definition ValidString :: "string \<Rightarrow> bool" where
  "ValidString s = valid_utf8 (map of_char s)"

end
