(* ===== verification/WorkBus.thy ===== *)
theory WorkBus
  imports WorkTypes
begin

section \<open>Event buses and turn control (\<open>internal/worklease/events.go\<close>, \<open>control.go\<close>)\<close>

text \<open>
  The two publish/subscribe buses and the dispatcher that routes a stop to a runtime. A buffered
  channel is the list of the events in it, oldest first; a non-blocking send appends if there is
  room and drops the event otherwise. Receiving is a step of the subscriber. A map of
  subscribers is read under the lock and the sends follow outside it; the model sends at once,
  because a send never blocks and only the channel it goes to changes.
\<close>

subsection \<open>The bus of work updates\<close>

definition EventTypeParticipantWorkUpdated :: string where
  "EventTypeParticipantWorkUpdated = ''participant.work.updated''"

record Event =
  ev_Type :: string
  ev_RoomID :: string
  ev_Work :: ParticipantWorkUpdate

record Bus =
  b_nextID :: int
  b_subscribers :: "(int, Event list) gomap"

definition NewBus :: Bus where
  "NewBus = \<lparr>b_nextID = 0, b_subscribers = []\<rparr>"

definition bus_capacity :: nat where "bus_capacity = 32"

text \<open>A send in a \<open>select\<close> with a \<open>default\<close> branch.\<close>

definition try_send :: "nat \<Rightarrow> 'e \<Rightarrow> 'e list \<Rightarrow> 'e list" where
  "try_send cap e ch = (if length ch < cap then ch @ [e] else ch)"

definition Subscribe :: "Bus \<Rightarrow> int \<times> Bus" where
  "Subscribe b = (b_nextID b,
     b\<lparr>b_nextID := wrap64 (b_nextID b + 1), b_subscribers := mput (b_nextID b) [] (b_subscribers b)\<rparr>)"

definition Unsubscribe :: "int \<Rightarrow> Bus \<Rightarrow> Bus" where
  "Unsubscribe i b = b\<lparr>b_subscribers := mdel i (b_subscribers b)\<rparr>"

definition Publish :: "Event \<Rightarrow> Bus \<Rightarrow> Bus" where
  "Publish event b = b\<lparr>b_subscribers := map (\<lambda>(i, ch). (i, try_send bus_capacity event ch)) (b_subscribers b)\<rparr>"

text \<open>The subscriber takes the oldest event from its channel, if there is one.\<close>

definition Receive :: "int \<Rightarrow> Bus \<Rightarrow> Event option \<times> Bus" where
  "Receive i b = (case mgets (b_subscribers b) i of
       [] \<Rightarrow> (None, b)
     | e # ch \<Rightarrow> (Some e, b\<lparr>b_subscribers := mput i ch (b_subscribers b)\<rparr>))"

subsection \<open>The bus of stop controls\<close>

record ControlEvent =
  ce_RegistryEpoch :: string
  ce_ParticipantID :: string
  ce_RoomID :: string
  ce_LeaseID :: string
  ce_RequestID :: string
  ce_RequestedAt :: time

record ControlBus =
  cb_nextID :: int
  cb_subscribers :: "(string, (int, ControlEvent list) gomap) gomap"

definition NewControlBus :: ControlBus where
  "NewControlBus = \<lparr>cb_nextID = 0, cb_subscribers = []\<rparr>"

definition control_capacity :: nat where "control_capacity = 16"

text \<open>With a blank participant the returned channel is closed and nothing is registered.\<close>

definition ControlSubscribe :: "string \<Rightarrow> ControlBus \<Rightarrow> int option \<times> ControlBus" where
  "ControlSubscribe participantID b =
     (let participantID = TrimSpace participantID in
      if participantID = [] then (None, b)
      else (Some (cb_nextID b),
        b\<lparr>cb_nextID := wrap64 (cb_nextID b + 1),
          cb_subscribers := mput participantID (mput (cb_nextID b) [] (mgets (cb_subscribers b) participantID)) (cb_subscribers b)\<rparr>))"

definition drop_entry :: "string \<Rightarrow> 'i \<Rightarrow> (string, ('i, 'v) gomap) gomap \<Rightarrow> (string, ('i, 'v) gomap) gomap" where
  "drop_entry participantID i m =
     (case mget m participantID of
        None \<Rightarrow> m
      | Some byID \<Rightarrow> if mdel i byID = [] then mdel participantID m else mput participantID (mdel i byID) m)"

definition ControlUnsubscribe :: "string \<Rightarrow> int \<Rightarrow> ControlBus \<Rightarrow> ControlBus" where
  "ControlUnsubscribe participantID i b =
     b\<lparr>cb_subscribers := drop_entry (TrimSpace participantID) i (cb_subscribers b)\<rparr>"

definition send_one :: "string \<Rightarrow> int \<Rightarrow> ControlEvent \<Rightarrow> ControlBus \<Rightarrow> ControlBus" where
  "send_one p i event b =
     (let byID = mgets (cb_subscribers b) p in
      b\<lparr>cb_subscribers := mput p (mput i (try_send control_capacity event (mgets byID i)) byID) (cb_subscribers b)\<rparr>)"

definition ControlPublish :: "ControlEvent \<Rightarrow> ControlBus \<Rightarrow> ControlBus" where
  "ControlPublish event b =
     (let p = ce_ParticipantID event in
      fold (\<lambda>i. send_one p i event) (map fst (mgets (cb_subscribers b) p)) b)"

text \<open>
  The loop of \<open>StopTurn\<close> over the channels of the participant. At the \<open>n\<close>-th one
  \<open>cancel n = Some e\<close> says that the \<open>select\<close> took the branch of the cancelled context, whose
  error is \<open>e\<close>; \<open>None\<close> that it did not (the context is live, or the runtime chose the send).
\<close>

fun stop_targets ::
  "(nat \<Rightarrow> turn_error option) \<Rightarrow> nat \<Rightarrow> ControlEvent \<Rightarrow> int list \<Rightarrow> bool \<Rightarrow> ControlBus \<Rightarrow> turn_error option \<times> ControlBus" where
  "stop_targets cancel n event [] delivered b = (if delivered then None else Some ErrTurnControlUnavailable, b)"
| "stop_targets cancel n event (i # ids) delivered b =
     (case cancel n of
        Some e \<Rightarrow> (Some e, b)
      | None \<Rightarrow>
          let p = ce_ParticipantID event in
          stop_targets cancel (Suc n) event ids
            (delivered \<or> length (mgets (mgets (cb_subscribers b) p) i) < control_capacity) (send_one p i event b))"

definition control_event :: "TurnRef \<Rightarrow> time \<Rightarrow> ControlEvent" where
  "control_event ref now =
     \<lparr>ce_RegistryEpoch = TrimSpace (tr_RegistryEpoch ref), ce_ParticipantID = TrimSpace (tr_ParticipantID ref),
      ce_RoomID = TrimSpace (tr_RoomID ref), ce_LeaseID = TrimSpace (tr_LeaseID ref),
      ce_RequestID = TrimSpace (tr_RequestID ref),
      ce_RequestedAt = (if tr_RequestedAt ref = 0 then now else tr_RequestedAt ref)\<rparr>"

definition ControlStopTurn ::
  "(nat \<Rightarrow> turn_error option) \<Rightarrow> time \<Rightarrow> TurnRef \<Rightarrow> ControlBus \<Rightarrow> turn_error option \<times> ControlBus" where
  "ControlStopTurn cancel now ref b =
     (let event = control_event ref now in
      stop_targets cancel 0 event (map fst (mgets (cb_subscribers b) (ce_ParticipantID event))) False b)"

subsection \<open>The dispatcher\<close>

text \<open>
  A registered controller is an object of a runtime bridge, outside this package: a number names
  it, and the environment \<open>call\<close> gives what its \<open>StopTurn\<close> returns (\<^const>\<open>None\<close> for nil). The
  fallback is the control bus or such an object.
\<close>

datatype fallback = ControlBusFallback | ControllerFallback nat

record TurnControlDispatcher =
  d_nextID :: uint64
  d_controllers :: "(string, (uint64, nat) gomap) gomap"
  d_fallback :: "fallback option"

definition NewTurnControlDispatcher :: "fallback option \<Rightarrow> TurnControlDispatcher" where
  "NewTurnControlDispatcher fb = \<lparr>d_nextID = 0, d_controllers = [], d_fallback = fb\<rparr>"

text \<open>The result names the registration; the function it returns in the code removes it.\<close>

definition RegisterTurnController ::
  "string \<Rightarrow> nat option \<Rightarrow> TurnControlDispatcher \<Rightarrow> (string \<times> uint64) option \<times> TurnControlDispatcher" where
  "RegisterTurnController participantID controller d =
     (let participantID = TrimSpace participantID in
      case controller of
        None \<Rightarrow> (None, d)
      | Some c \<Rightarrow>
          if participantID = [] then (None, d)
          else let i = d_nextID d + 1 in
            (Some (participantID, i),
             d\<lparr>d_nextID := i,
               d_controllers := mput participantID (mput i c (mgets (d_controllers d) participantID)) (d_controllers d)\<rparr>))"

definition UnregisterTurnController :: "(string \<times> uint64) option \<Rightarrow> TurnControlDispatcher \<Rightarrow> TurnControlDispatcher" where
  "UnregisterTurnController reg d =
     (case reg of
        None \<Rightarrow> d
      | Some (participantID, i) \<Rightarrow> d\<lparr>d_controllers := drop_entry participantID i (d_controllers d)\<rparr>)"

text \<open>The candidates in turn; \<^const>\<open>None\<close> if each of them did not know the turn.\<close>

fun first_knowing :: "(nat \<Rightarrow> TurnRef \<Rightarrow> turn_error option) \<Rightarrow> TurnRef \<Rightarrow> nat list \<Rightarrow> turn_error option option" where
  "first_knowing call ref [] = None"
| "first_knowing call ref (c # cs) =
     (case call c ref of
        None \<Rightarrow> Some None
      | Some e \<Rightarrow> if te_NotFound e then first_knowing call ref cs else Some (Some e))"

definition newest_first :: "(uint64, nat) gomap \<Rightarrow> nat list" where
  "newest_first byID = map snd (rev (sort_key fst byID))"

definition StopTurn ::
  "(nat \<Rightarrow> TurnRef \<Rightarrow> turn_error option) \<Rightarrow> (nat \<Rightarrow> turn_error option) \<Rightarrow> time \<Rightarrow> TurnRef \<Rightarrow>
     TurnControlDispatcher \<Rightarrow> ControlBus option \<Rightarrow> turn_error option \<times> ControlBus option" where
  "StopTurn call cancel now ref d bus =
     (let registered = newest_first (mgets (d_controllers d) (TrimSpace (tr_ParticipantID ref))) in
      case first_knowing call ref registered of
        Some r \<Rightarrow> (r, bus)
      | None \<Rightarrow>
          if registered \<noteq> [] then (Some ErrTurnNotFound, bus)
          else case d_fallback d of
            None \<Rightarrow> (Some ErrTurnControlUnavailable, bus)
          | Some (ControllerFallback c) \<Rightarrow> (call c ref, bus)
          | Some ControlBusFallback \<Rightarrow>
              (case bus of
                 None \<Rightarrow> (Some ErrTurnControlUnavailable, None)
               | Some b \<Rightarrow> (case ControlStopTurn cancel now ref b of (r, b') \<Rightarrow> (r, Some b'))))"

end
