(* ===== verification/WorkLease.thy ===== *)
theory WorkLease
  imports WorkBus
begin

section \<open>The work lease registry (\<open>internal/worklease/registry.go\<close>, \<open>completion.go\<close>)\<close>

text \<open>
  Runtimes hold a lease while they work on a turn: they start it, renew it, report status, may
  be asked to stop, and release it; a janitor expires what is not renewed. Each operation does
  its work in one section under the registry's mutex and publishes after it has released the
  lock. A locked section is a function that returns the result, the updates to publish and the
  new registry (\<open>locked\<close>); the operations compose it with the validation before and the
  publications after. The sections are what interleaves with other callers.

  The participant directory, the messaging service and \<open>participant.CanonicalID\<close> belong to other
  packages; what they answer at the time of a call is the argument \<open>env\<close>. Nil dependencies are
  \<^const>\<open>None\<close>. A receiver \<open>r\<close> is never nil.
\<close>

definition Second :: int where "Second = 1000000000"

definition DefaultTTLSeconds :: int where "DefaultTTLSeconds = 15"
definition MinTTLSeconds :: int where "MinTTLSeconds = 5"
definition MaxTTLSeconds :: int where "MaxTTLSeconds = 60"
definition TombstoneTTL :: int where "TombstoneTTL = 70 * Second"
definition MaxThinkingBytes :: nat where "MaxThinkingBytes = 16 * 1024"
definition StatusRateWindow :: int where "StatusRateWindow = Second"
definition MaxStatusPerWindow :: int where "MaxStatusPerWindow = 10"

datatype lease_error =
    ErrParticipantNotFound | ErrRoomNotFound | ErrNotRoomMember | ErrConflict | ErrClosed
  | ErrLeaseNotFound | ErrInvalidStatus | ErrRateLimited
  | ErrTurnControlFailed turn_error | ErrTurnControlTimedOut turn_error | ErrUnavailable

record ParticipantWorkLease =
  wl_ParticipantID :: string
  wl_LeaseID :: string
  wl_RoomID :: string
  wl_ThreadRootID :: string
  wl_RequestID :: string
  wl_TaskID :: string
  wl_TaskAttempt :: int
  wl_Kind :: string
  wl_TTLSeconds :: int
  wl_TTLExplicit :: bool

text \<open>The fields of a participant, a room and a user that the registry reads.\<close>

record Participant =
  p_ID :: string
  p_Channel :: string
  p_Type :: string
  p_ChannelUserRef :: string
  p_LifecycleStatus :: string

definition ChannelCSGClaw :: string where "ChannelCSGClaw = ''csgclaw''"
definition TypeAgent :: string where "TypeAgent = ''agent''"
definition LifecycleStatusActive :: string where "LifecycleStatusActive = ''active''"

type_synonym ParticipantDirectory = "string \<Rightarrow> string \<Rightarrow> Participant option"

record IMService =
  im_ResolveUserID :: "string \<Rightarrow> string"
  im_RoomMembers :: "string \<Rightarrow> string list option"
  im_UserID :: "string \<Rightarrow> string option"

record lease_env =
  le_participants :: "ParticipantDirectory option"
  le_im :: "IMService option"
  le_CanonicalID :: "string \<Rightarrow> string"

type_synonym leaseKey = "string \<times> string"

record activeLease =
  al_participantID :: string
  al_leaseID :: string
  al_userID :: string
  al_roomID :: string
  al_threadRootID :: string
  al_requestID :: string
  al_taskID :: string
  al_taskAttempt :: int
  al_kind :: string
  al_revision :: uint64
  al_expiresAt :: time
  al_capabilities :: "string list"
  al_status :: "ParticipantWorkStatus option"
  al_statusSequence :: uint64
  al_stopRequestedAt :: "time option"
  al_stopState :: string
  al_stopError :: string
  al_statusWindowStartedAt :: time
  al_statusWindowCount :: int

record tombstone =
  ts_lastRevision :: uint64
  ts_rejectUntil :: time

text \<open>What the registry asks the messaging service to deliver, in the order of the calls.\<close>

record DeliverMessageRequest =
  dm_RoomID :: string
  dm_SenderID :: string
  dm_Content :: string
  dm_MessageID :: string
  dm_ThreadRootID :: string
  dm_Metadata :: "(string, meta) gomap"

type_synonym subject_index = "(string, (string, (string, unit) gomap) gomap) gomap"

record Registry =
  r_epoch :: string
  r_activeByKey :: "(leaseKey, activeLease) gomap"
  r_activeBySubject :: subject_index
  r_tombstones :: "(leaseKey, tombstone) gomap"
  r_bus :: "Bus option"
  r_controlBus :: "ControlBus option"
  r_turnControls :: "TurnControlDispatcher option"
  r_delivered :: "DeliverMessageRequest list"

text \<open>
  \<open>newID\<close> is the identifier that \<open>NewID\<close> draws; \<open>epoch\<close> the argument of \<open>WithEpoch\<close>, blank if the
  option is not given.
\<close>

definition NewRegistry ::
  "string \<Rightarrow> string \<Rightarrow> Bus option \<Rightarrow> ControlBus option \<Rightarrow> TurnControlDispatcher option \<Rightarrow> Registry" where
  "NewRegistry newID epoch bus controlBus dispatcher =
     \<lparr>r_epoch = (if TrimSpace epoch \<noteq> [] then TrimSpace epoch else newID),
      r_activeByKey = [], r_activeBySubject = [], r_tombstones = [],
      r_bus = bus, r_controlBus = controlBus,
      r_turnControls =
        (case dispatcher of
           Some d \<Rightarrow> Some d
         | None \<Rightarrow> (case controlBus of
             None \<Rightarrow> None
           | Some _ \<Rightarrow> Some (NewTurnControlDispatcher (Some ControlBusFallback)))),
      r_delivered = []\<rparr>"

subsection \<open>Helpers\<close>

definition clampTTL :: "int \<Rightarrow> bool \<Rightarrow> int" where
  "clampTTL value explicit =
     (if \<not> explicit then DefaultTTLSeconds
      else if value < MinTTLSeconds then MinTTLSeconds
      else if value > MaxTTLSeconds then MaxTTLSeconds
      else value)"

definition maxTime :: "time \<Rightarrow> time \<Rightarrow> time" where
  "maxTime left right = (if left > right then left else right)"

definition sameMetadata :: "activeLease \<Rightarrow> activeLease \<Rightarrow> bool" where
  "sameMetadata left right \<longleftrightarrow>
     al_participantID left = al_participantID right \<and> al_userID left = al_userID right \<and>
     al_roomID left = al_roomID right \<and> al_threadRootID left = al_threadRootID right \<and>
     al_requestID left = al_requestID right \<and> al_taskID left = al_taskID right \<and>
     al_taskAttempt left = al_taskAttempt right \<and> al_kind left = al_kind right"

definition validStageForPhase :: "string \<Rightarrow> string \<Rightarrow> bool" where
  "validStageForPhase stage phase =
     (if stage = ParticipantWorkStagePreparingReply \<or> stage = ParticipantWorkStageThinking
      then phase = ParticipantWorkPhaseThinking
      else if stage = ParticipantWorkStageRunningTool \<or> stage = ParticipantWorkStageGeneratingReply
      then phase = ParticipantWorkPhaseWorking
      else False)"

definition capabilitiesExtend :: "string list \<Rightarrow> string list \<Rightarrow> bool" where
  "capabilitiesExtend current new_caps = list_all (\<lambda>capability. capability \<in> set new_caps) current"

text \<open>The loop over the capabilities, with the set of those seen before.\<close>

fun check_capabilities :: "string list \<Rightarrow> string list \<Rightarrow> bool" where
  "check_capabilities seen [] = True"
| "check_capabilities seen (c # cs) =
     (if c \<noteq> ParticipantWorkCapabilityThinkingStatusV1 \<and> c \<noteq> ParticipantWorkCapabilityTurnStopV1 \<and>
         c \<noteq> ParticipantWorkCapabilityStageV1
      then False
      else if c \<in> set seen then False
      else check_capabilities (c # seen) cs)"

definition check_thinking :: "ParticipantWorkStatusPatchRequest \<Rightarrow> bool" where
  "check_thinking request =
     (if ParticipantWorkCapabilityThinkingStatusV1 \<notin> set (sp_Capabilities request) then False
      else if sp_Stage request = ParticipantWorkStageThinking \<and>
        (case sp_Thinking request of None \<Rightarrow> True | Some t \<Rightarrow> TrimSpace (th_Text t) = []) then False
      else case sp_Thinking request of
        None \<Rightarrow> True
      | Some t \<Rightarrow>
          if sp_Stage request \<noteq> [] \<and> sp_Stage request \<noteq> ParticipantWorkStageThinking then False
          else th_Format t = ParticipantThinkingFormatPlainText \<and> ValidString (th_Text t) \<and>
            \<not> length (th_Text t) > MaxThinkingBytes)"

definition validateStatusPatch :: "ParticipantWorkStatusPatchRequest \<Rightarrow> lease_error option" where
  "validateStatusPatch request =
     (if sp_Sequence request = 0 then Some ErrInvalidStatus
      else if (case sp_ContextUsage request of None \<Rightarrow> False | Some u \<Rightarrow> \<not> Valid u) then Some ErrInvalidStatus
      else if \<not> check_capabilities [] (sp_Capabilities request) then Some ErrInvalidStatus
      else if sp_Phase request \<noteq> ParticipantWorkPhaseWorking \<and> sp_Phase request \<noteq> ParticipantWorkPhaseThinking
        then Some ErrInvalidStatus
      else if sp_Stage request \<noteq> [] \<and>
        (ParticipantWorkCapabilityStageV1 \<notin> set (sp_Capabilities request) \<or>
         \<not> validStageForPhase (sp_Stage request) (sp_Phase request)) then Some ErrInvalidStatus
      else if sp_Phase request = ParticipantWorkPhaseWorking then
        (if sp_Thinking request \<noteq> None then Some ErrInvalidStatus else None)
      else if \<not> check_thinking request then Some ErrInvalidStatus
      else None)"

definition validate :: "ParticipantDirectory \<Rightarrow> IMService \<Rightarrow> (string \<Rightarrow> string) \<Rightarrow> ParticipantWorkLease \<Rightarrow> lease_error + activeLease" where
  "validate ps im canon request =
     (case ps ChannelCSGClaw (TrimSpace (wl_ParticipantID request)) of
        None \<Rightarrow> Inl ErrParticipantNotFound
      | Some item \<Rightarrow>
          if p_Channel item \<noteq> ChannelCSGClaw \<or> p_Type item \<noteq> TypeAgent \<or> p_LifecycleStatus item \<noteq> LifecycleStatusActive
          then Inl ErrParticipantNotFound
          else
            let participantID = canon (p_ID item) in
            case im_UserID im (im_ResolveUserID im (TrimSpace (p_ChannelUserRef item))) of
              None \<Rightarrow> Inl ErrParticipantNotFound
            | Some user \<Rightarrow>
                let userID = im_ResolveUserID im user;
                    roomID = TrimSpace (wl_RoomID request) in
                case im_RoomMembers im roomID of
                  None \<Rightarrow> Inl ErrRoomNotFound
                | Some members \<Rightarrow>
                    if \<not> list_ex (\<lambda>m. im_ResolveUserID im m = userID) members then Inl ErrNotRoomMember
                    else Inr
                      \<lparr>al_participantID = participantID, al_leaseID = TrimSpace (wl_LeaseID request),
                       al_userID = userID, al_roomID = roomID,
                       al_threadRootID = TrimSpace (wl_ThreadRootID request),
                       al_requestID = TrimSpace (wl_RequestID request),
                       al_taskID = TrimSpace (wl_TaskID request), al_taskAttempt = wl_TaskAttempt request,
                       al_kind = TrimSpace (wl_Kind request), al_revision = 0, al_expiresAt = 0,
                       al_capabilities = [], al_status = None, al_statusSequence = 0,
                       al_stopRequestedAt = None, al_stopState = [], al_stopError = [],
                       al_statusWindowStartedAt = 0, al_statusWindowCount = 0\<rparr>)"

definition canonicalParticipantID :: "lease_env \<Rightarrow> string \<Rightarrow> string" where
  "canonicalParticipantID env i =
     (let i = TrimSpace i in
      case le_participants env of
        None \<Rightarrow> le_CanonicalID env i
      | Some ps \<Rightarrow> (case ps ChannelCSGClaw i of
            Some item \<Rightarrow> le_CanonicalID env (p_ID item)
          | None \<Rightarrow> le_CanonicalID env i))"

definition LeaseRegisterTurnController ::
  "lease_env \<Rightarrow> string \<Rightarrow> nat option \<Rightarrow> Registry \<Rightarrow> (string \<times> uint64) option \<times> Registry" where
  "LeaseRegisterTurnController env participantID controller r =
     (case r_turnControls r of
        None \<Rightarrow> (None, r)
      | Some d \<Rightarrow> (case RegisterTurnController (canonicalParticipantID env participantID) controller d of
          (registration, d') \<Rightarrow> (registration, r\<lparr>r_turnControls := Some d'\<rparr>)))"

definition addSubject :: "string \<Rightarrow> string \<Rightarrow> string \<Rightarrow> subject_index \<Rightarrow> subject_index" where
  "addSubject roomID participantID leaseID idx =
     (let byParticipant = mgets idx roomID;
          leases = mgets byParticipant participantID in
      mput roomID (mput participantID (mput leaseID () leases) byParticipant) idx)"

definition removeSubject :: "string \<Rightarrow> string \<Rightarrow> string \<Rightarrow> subject_index \<Rightarrow> subject_index" where
  "removeSubject roomID participantID leaseID idx =
     (let byParticipant = mgets idx roomID;
          leases = mdel leaseID (mgets byParticipant participantID);
          byParticipant = (if leases = [] then mdel participantID byParticipant
            else mput participantID leases byParticipant) in
      if byParticipant = [] then mdel roomID idx else mput roomID byParticipant idx)"

definition updateFor :: "Registry \<Rightarrow> activeLease \<Rightarrow> string \<Rightarrow> string \<Rightarrow> ParticipantWorkUpdate" where
  "updateFor r lease state reason =
     \<lparr>wu_RegistryEpoch = r_epoch r, wu_LeaseID = al_leaseID lease, wu_ParticipantID = al_participantID lease,
      wu_UserID = al_userID lease, wu_RoomID = al_roomID lease, wu_ThreadRootID = al_threadRootID lease,
      wu_RequestID = al_requestID lease, wu_TaskID = al_taskID lease, wu_TaskAttempt = al_taskAttempt lease,
      wu_Kind = al_kind lease, wu_State = state, wu_Reason = reason, wu_Revision = al_revision lease,
      wu_ExpiresAt = al_expiresAt lease, wu_Capabilities = al_capabilities lease, wu_Status = al_status lease,
      wu_StopRequestedAt = al_stopRequestedAt lease, wu_StopState = al_stopState lease,
      wu_StopError = al_stopError lease\<rparr>"

definition publish :: "ParticipantWorkUpdate \<Rightarrow> Registry \<Rightarrow> Registry" where
  "publish update r =
     r\<lparr>r_bus := map_option (Publish \<lparr>ev_Type = EventTypeParticipantWorkUpdated, ev_RoomID = wu_RoomID update, ev_Work = update\<rparr>) (r_bus r)\<rparr>"

type_synonym 'a locked = "Registry \<Rightarrow> (lease_error + 'a) \<times> ParticipantWorkUpdate list \<times> Registry"

text \<open>A locked section and, after it, its publications.\<close>

definition run_locked :: "'a locked \<Rightarrow> Registry \<Rightarrow> (lease_error + 'a) \<times> Registry" where
  "run_locked m r = (case m r of (res, us, r') \<Rightarrow> (res, fold publish us r'))"

definition refuse :: "lease_error \<Rightarrow> 'a locked" where
  "refuse e r = (Inl e, [], r)"

subsection \<open>Starting and renewing\<close>

definition StartOrRenew_locked :: "ParticipantWorkLease \<Rightarrow> activeLease \<Rightarrow> time \<Rightarrow> ParticipantWorkUpdate locked" where
  "StartOrRenew_locked request normalized now r =
     (let key = (al_participantID normalized, TrimSpace (wl_LeaseID request));
          expires = now + clampTTL (wl_TTLSeconds request) (wl_TTLExplicit request) * Second in
      if mget (r_tombstones r) key \<noteq> None then refuse ErrClosed r
      else case mget (r_activeByKey r) key of
        Some lease \<Rightarrow>
          if \<not> sameMetadata lease normalized then refuse ErrConflict r
          else let lease = lease\<lparr>al_revision := al_revision lease + 1, al_expiresAt := expires\<rparr>;
                   update = updateFor r lease ParticipantWorkStateWorking ParticipantWorkReasonRenewed in
            (Inr update, [update], r\<lparr>r_activeByKey := mput key lease (r_activeByKey r)\<rparr>)
      | None \<Rightarrow>
          let lease = normalized\<lparr>al_revision := 1, al_expiresAt := expires\<rparr>;
              update = updateFor r lease ParticipantWorkStateWorking ParticipantWorkReasonStarted in
          (Inr update, [update],
           r\<lparr>r_activeByKey := mput key lease (r_activeByKey r),
             r_activeBySubject := addSubject (al_roomID lease) (al_participantID lease) (snd key) (r_activeBySubject r)\<rparr>))"

definition with_services :: "lease_env \<Rightarrow> ParticipantWorkLease \<Rightarrow> (activeLease \<Rightarrow> 'a locked) \<Rightarrow> 'a locked" where
  "with_services env request body r =
     (case (le_participants env, le_im env) of
        (Some ps, Some im) \<Rightarrow>
          (case validate ps im (le_CanonicalID env) request of
             Inl e \<Rightarrow> refuse e r
           | Inr normalized \<Rightarrow> body normalized r)
      | _ \<Rightarrow> refuse ErrUnavailable r)"

definition StartOrRenew :: "lease_env \<Rightarrow> time \<Rightarrow> ParticipantWorkLease \<Rightarrow> Registry \<Rightarrow> (lease_error + ParticipantWorkUpdate) \<times> Registry" where
  "StartOrRenew env now request =
     run_locked (with_services env request (\<lambda>normalized. StartOrRenew_locked request normalized now))"

subsection \<open>Status reports\<close>

definition missing_lease :: "leaseKey \<Rightarrow> 'a locked" where
  "missing_lease key r = refuse (if mget (r_tombstones r) key \<noteq> None then ErrClosed else ErrLeaseNotFound) r"

text \<open>
  The result is \<^const>\<open>None\<close> where the code returns an empty update and \<open>false\<close>: the report is
  older than the last one.
\<close>

definition UpdateStatus_locked :: "leaseKey \<Rightarrow> ParticipantWorkStatusPatchRequest \<Rightarrow> time \<Rightarrow> ParticipantWorkUpdate option locked" where
  "UpdateStatus_locked key request now r =
     (case mget (r_activeByKey r) key of
        None \<Rightarrow> missing_lease key r
      | Some lease \<Rightarrow>
          if al_stopState lease = ParticipantWorkStopStateRequested then
            (Inr (Some (updateFor r lease ParticipantWorkStateWorking ParticipantWorkReasonStopRequested)), [], r)
          else if sp_Sequence request \<le> al_statusSequence lease then (Inr None, [], r)
          else if \<not> capabilitiesExtend (al_capabilities lease) (sp_Capabilities request) then refuse ErrConflict r
          else
            let lease = (if al_statusWindowStartedAt lease = 0 \<or> now - al_statusWindowStartedAt lease \<ge> StatusRateWindow
                  then lease\<lparr>al_statusWindowStartedAt := now, al_statusWindowCount := 0\<rparr> else lease) in
            if al_statusWindowCount lease \<ge> MaxStatusPerWindow then refuse ErrRateLimited r
            else
              let usage = (case (sp_ContextUsage request, al_status lease) of
                      (None, Some st) \<Rightarrow> ws_ContextUsage st
                    | (u, _) \<Rightarrow> u);
                  lease = lease\<lparr>al_statusWindowCount := al_statusWindowCount lease + 1,
                      al_capabilities := sp_Capabilities request, al_statusSequence := sp_Sequence request,
                      al_status := Some \<lparr>ws_ContextUsage = usage, ws_Sequence = sp_Sequence request,
                        ws_Phase = sp_Phase request, ws_Stage = sp_Stage request, ws_Thinking = sp_Thinking request\<rparr>,
                      al_revision := al_revision lease + 1\<rparr>;
                  update = updateFor r lease ParticipantWorkStateWorking ParticipantWorkReasonStatusUpdated in
              (Inr (Some update), [update], r\<lparr>r_activeByKey := mput key lease (r_activeByKey r)\<rparr>))"

definition UpdateStatus_section ::
  "lease_env \<Rightarrow> time \<Rightarrow> string \<Rightarrow> string \<Rightarrow> ParticipantWorkStatusPatchRequest \<Rightarrow> ParticipantWorkUpdate option locked" where
  "UpdateStatus_section env now participantID leaseID request =
     (case validateStatusPatch request of
        Some e \<Rightarrow> refuse e
      | None \<Rightarrow> UpdateStatus_locked (canonicalParticipantID env participantID, TrimSpace leaseID) request now)"

definition UpdateStatus ::
  "lease_env \<Rightarrow> time \<Rightarrow> string \<Rightarrow> string \<Rightarrow> ParticipantWorkStatusPatchRequest \<Rightarrow> Registry \<Rightarrow>
     (lease_error + ParticipantWorkUpdate option) \<times> Registry" where
  "UpdateStatus env now participantID leaseID request =
     run_locked (UpdateStatus_section env now participantID leaseID request)"

subsection \<open>Stop requests\<close>

definition stop_response :: "Registry \<Rightarrow> activeLease \<Rightarrow> time \<Rightarrow> ParticipantWorkStopResponse" where
  "stop_response r lease requestedAt =
     \<lparr>so_Accepted = True, so_RegistryEpoch = r_epoch r, so_ParticipantID = al_participantID lease,
      so_UserID = al_userID lease, so_RoomID = al_roomID lease, so_ThreadRootID = al_threadRootID lease,
      so_LeaseID = al_leaseID lease, so_RequestID = al_requestID lease, so_TaskID = al_taskID lease,
      so_TaskAttempt = al_taskAttempt lease, so_State = ''stop_requested'', so_RequestedAt = requestedAt\<rparr>"

definition turn_ref :: "Registry \<Rightarrow> activeLease \<Rightarrow> time \<Rightarrow> TurnRef" where
  "turn_ref r lease requestedAt =
     \<lparr>tr_RegistryEpoch = r_epoch r, tr_ParticipantID = al_participantID lease, tr_RoomID = al_roomID lease,
      tr_LeaseID = al_leaseID lease, tr_RequestID = al_requestID lease, tr_RequestedAt = requestedAt\<rparr>"

definition RequestStop_locked ::
  "ParticipantWorkStopRequest \<Rightarrow> time \<Rightarrow> activeLease \<Rightarrow> (leaseKey \<times> ParticipantWorkStopResponse \<times> TurnRef) locked" where
  "RequestStop_locked request now normalized r =
     (let key = (al_participantID normalized, TrimSpace (sr_LeaseID request)) in
      case mget (r_activeByKey r) key of
        None \<Rightarrow> missing_lease key r
      | Some lease \<Rightarrow>
          if al_roomID lease \<noteq> al_roomID normalized \<or> al_requestID lease \<noteq> al_requestID normalized then refuse ErrConflict r
          else if ParticipantWorkCapabilityTurnStopV1 \<notin> set (al_capabilities lease) then refuse ErrConflict r
          else
            let ask = (al_stopRequestedAt lease = None \<or> al_stopState lease = ParticipantWorkStopStateFailed \<or>
                  al_stopState lease = ParticipantWorkStopStateTimedOut);
                lease = (if ask then lease\<lparr>al_stopRequestedAt := Some now,
                    al_stopState := ParticipantWorkStopStateRequested, al_stopError := [],
                    al_revision := al_revision lease + 1\<rparr> else lease);
                requestedAt = (case al_stopRequestedAt lease of Some t \<Rightarrow> t | None \<Rightarrow> 0) in
            (Inr (key, stop_response r lease requestedAt, turn_ref r lease requestedAt),
             if ask then [updateFor r lease ParticipantWorkStateWorking ParticipantWorkReasonStopRequested] else [],
             if ask then r\<lparr>r_activeByKey := mput key lease (r_activeByKey r)\<rparr> else r))"

definition stop_lease :: "string \<Rightarrow> ParticipantWorkStopRequest \<Rightarrow> ParticipantWorkLease" where
  "stop_lease participantID request =
     \<lparr>wl_ParticipantID = participantID, wl_LeaseID = sr_LeaseID request, wl_RoomID = sr_RoomID request,
      wl_ThreadRootID = [], wl_RequestID = sr_RequestID request, wl_TaskID = [], wl_TaskAttempt = 0,
      wl_Kind = ParticipantWorkKindAgentTurn, wl_TTLSeconds = 0, wl_TTLExplicit = False\<rparr>"

definition RequestStop_section ::
  "lease_env \<Rightarrow> time \<Rightarrow> string \<Rightarrow> ParticipantWorkStopRequest \<Rightarrow> (leaseKey \<times> ParticipantWorkStopResponse \<times> TurnRef) locked" where
  "RequestStop_section env now participantID request =
     with_services env (stop_lease participantID request) (RequestStop_locked request now)"

definition recordTurnControlFailure :: "leaseKey \<Rightarrow> time \<Rightarrow> turn_error \<Rightarrow> unit locked" where
  "recordTurnControlFailure key requestedAt cause r =
     (let timeout = (te_DeadlineExceeded cause \<or> te_Canceled cause);
          state = (if timeout then ParticipantWorkStopStateTimedOut else ParticipantWorkStopStateFailed);
          reason = (if timeout then ParticipantWorkReasonStopTimedOut else ParticipantWorkReasonStopFailed);
          publicErr = (if timeout then ErrTurnControlTimedOut cause else ErrTurnControlFailed cause);
          errorText = take 1024 (TrimSpace (te_Text cause)) in
      case mget (r_activeByKey r) key of
        None \<Rightarrow> (Inl publicErr, [], r)
      | Some lease \<Rightarrow>
          if al_stopRequestedAt lease = Some requestedAt then
            let lease = lease\<lparr>al_stopState := state, al_stopError := errorText, al_revision := al_revision lease + 1\<rparr> in
            (Inl publicErr, [updateFor r lease ParticipantWorkStateWorking reason],
             r\<lparr>r_activeByKey := mput key lease (r_activeByKey r)\<rparr>)
          else (Inl publicErr, [], r))"

text \<open>
  The response accompanies the error of a failed delivery, so the result is a pair. \<open>call\<close> and
  \<open>cancel\<close> are what the runtime controllers and the caller's context do, \<open>stopNow\<close> the clock that the
  control bus may read. No other caller runs in between here; the step relation of the
  properties lets every section interleave.
\<close>

definition LeaseRequestStop ::
  "lease_env \<Rightarrow> (nat \<Rightarrow> TurnRef \<Rightarrow> turn_error option) \<Rightarrow> (nat \<Rightarrow> turn_error option) \<Rightarrow> time \<Rightarrow> time \<Rightarrow> string \<Rightarrow>
     ParticipantWorkStopRequest \<Rightarrow> Registry \<Rightarrow> (ParticipantWorkStopResponse option \<times> lease_error option) \<times> Registry" where
  "LeaseRequestStop env call cancel now stopNow participantID request r =
     (case run_locked (RequestStop_section env now participantID request) r of
        (Inl e, r) \<Rightarrow> ((None, Some e), r)
      | (Inr (key, response, ref), r) \<Rightarrow>
          (case (case r_turnControls r of
                   None \<Rightarrow> (Some ErrTurnControlUnavailable, r)
                 | Some d \<Rightarrow> (case StopTurn call cancel stopNow ref d (r_controlBus r) of
                       (err, bus) \<Rightarrow> (err, r\<lparr>r_controlBus := bus\<rparr>))) of
             (None, r) \<Rightarrow> ((Some response, None), r)
           | (Some cause, r) \<Rightarrow>
               (case run_locked (recordTurnControlFailure key (so_RequestedAt response) cause) r of
                  (Inl e, r) \<Rightarrow> ((Some response, Some e), r)
                | (Inr _, r) \<Rightarrow> ((Some response, None), r))))"

subsection \<open>Releasing and expiring\<close>

definition close_lease :: "leaseKey \<Rightarrow> activeLease \<Rightarrow> time \<Rightarrow> Registry \<Rightarrow> Registry" where
  "close_lease key lease now r =
     r\<lparr>r_activeByKey := mdel key (r_activeByKey r),
       r_activeBySubject := removeSubject (al_roomID lease) (al_participantID lease) (snd key) (r_activeBySubject r),
       r_tombstones := mput key \<lparr>ts_lastRevision = al_revision lease + 1, ts_rejectUntil = now + TombstoneTTL\<rparr> (r_tombstones r)\<rparr>"

definition Finish_locked :: "leaseKey \<Rightarrow> string \<Rightarrow> time \<Rightarrow> unit locked" where
  "Finish_locked key outcome now r =
     (case mget (r_activeByKey r) key of
        Some lease \<Rightarrow>
          if outcome \<noteq> ParticipantWorkOutcomeReleased \<and> al_stopRequestedAt lease = None then refuse ErrConflict r
          else
            let r' = close_lease key lease now r;
                lease = lease\<lparr>al_revision := al_revision lease + 1\<rparr>;
                (reason, lease) =
                  (if outcome = ParticipantWorkOutcomeStopped then
                     (ParticipantWorkReasonStopped,
                      lease\<lparr>al_stopState := ParticipantWorkStopStateStopped, al_stopError := []\<rparr>)
                   else if outcome = ParticipantWorkOutcomeStopTimedOut then
                     (ParticipantWorkReasonStopTimedOut,
                      lease\<lparr>al_stopState := ParticipantWorkStopStateTimedOut,
                        al_stopError := ''runtime did not confirm turn stop before the control timeout''\<rparr>)
                   else (ParticipantWorkReasonReleased, lease\<lparr>al_stopState := [], al_stopError := []\<rparr>)) in
            (Inr (), [updateFor r lease ParticipantWorkStateIdle reason], r')
      | None \<Rightarrow>
          let closed = (case mget (r_tombstones r) key of
                  None \<Rightarrow> \<lparr>ts_lastRevision = 0, ts_rejectUntil = 0\<rparr> | Some ts \<Rightarrow> ts) in
          (Inr (), [],
           r\<lparr>r_tombstones := mput key (closed\<lparr>ts_rejectUntil := maxTime (ts_rejectUntil closed) (now + TombstoneTTL)\<rparr>) (r_tombstones r)\<rparr>))"

definition Finish_outcome :: "string \<Rightarrow> string" where
  "Finish_outcome outcome =
     (if TrimSpace outcome = [] then ParticipantWorkOutcomeReleased else TrimSpace outcome)"

definition Finish_section :: "lease_env \<Rightarrow> time \<Rightarrow> string \<Rightarrow> string \<Rightarrow> string \<Rightarrow> unit locked" where
  "Finish_section env now participantID leaseID outcome =
     (let outcome = Finish_outcome outcome in
      if outcome \<noteq> ParticipantWorkOutcomeReleased \<and> outcome \<noteq> ParticipantWorkOutcomeStopped \<and>
         outcome \<noteq> ParticipantWorkOutcomeStopTimedOut then refuse ErrInvalidStatus
      else Finish_locked (canonicalParticipantID env participantID, TrimSpace leaseID) outcome now)"

definition participantTurnStoppedText :: string where
  "participantTurnStoppedText = ''Conversation interrupted''"

definition recordParticipantTurnStopped :: "lease_env \<Rightarrow> ParticipantWorkUpdate \<Rightarrow> Registry \<Rightarrow> Registry" where
  "recordParticipantTurnStopped env update r =
     (if le_im env = None \<or> wu_State update \<noteq> ParticipantWorkStateIdle \<or>
         wu_StopState update \<noteq> ParticipantWorkStopStateStopped then r
      else
        let senderID = (if TrimSpace (wu_UserID update) = [] then TrimSpace (wu_ParticipantID update)
              else TrimSpace (wu_UserID update)) in
        if senderID = [] \<or> TrimSpace (wu_RoomID update) = [] \<or> TrimSpace (wu_LeaseID update) = [] then r
        else
          let metadata = [(''csgclaw'', MMap
                [(''delivery_kind'', MString ''turn_stopped''), (''lease_id'', MString (wu_LeaseID update)),
                 (''request_id'', MString (wu_RequestID update))])] in
          r\<lparr>r_delivered := r_delivered r @
             [\<lparr>dm_RoomID = wu_RoomID update, dm_SenderID = senderID, dm_Content = participantTurnStoppedText,
               dm_MessageID = ''msg-turn-stopped-'' @ wu_LeaseID update, dm_ThreadRootID = wu_ThreadRootID update,
               dm_Metadata = Set metadata (wu_TaskID update) (wu_TaskAttempt update)\<rparr>]\<rparr>)"

definition Finish :: "lease_env \<Rightarrow> time \<Rightarrow> string \<Rightarrow> string \<Rightarrow> string \<Rightarrow> Registry \<Rightarrow> (lease_error + unit) \<times> Registry" where
  "Finish env now participantID leaseID outcome r =
     (case Finish_section env now participantID leaseID outcome r of
        (res, us, r') \<Rightarrow>
          let r' = fold publish us r' in
          (res, if Finish_outcome outcome = ParticipantWorkOutcomeStopped
                then fold (recordParticipantTurnStopped env) us r' else r'))"

definition Stop :: "lease_env \<Rightarrow> time \<Rightarrow> string \<Rightarrow> string \<Rightarrow> Registry \<Rightarrow> (lease_error + unit) \<times> Registry" where
  "Stop env now participantID leaseID = Finish env now participantID leaseID ParticipantWorkOutcomeReleased"

text \<open>The loop of the janitor over the active leases, in the order the map gives them.\<close>

fun sweep_active :: "time \<Rightarrow> (leaseKey, activeLease) gomap \<Rightarrow> Registry \<Rightarrow> ParticipantWorkUpdate list \<times> Registry" where
  "sweep_active now [] r = ([], r)"
| "sweep_active now ((key, lease) # rest) r =
     (if al_expiresAt lease > now then sweep_active now rest r
      else
        let (us, r') = sweep_active now rest (close_lease key lease now r) in
        (updateFor r (lease\<lparr>al_revision := al_revision lease + 1\<rparr>) ParticipantWorkStateIdle ParticipantWorkReasonExpired # us, r'))"

definition Sweep_locked :: "time \<Rightarrow> unit locked" where
  "Sweep_locked now r =
     (case sweep_active now (r_activeByKey r) r of
        (us, r') \<Rightarrow> (Inr (), us, r'\<lparr>r_tombstones := filter (\<lambda>(key, closed). ts_rejectUntil closed > now) (r_tombstones r')\<rparr>))"

definition Sweep :: "time \<Rightarrow> Registry \<Rightarrow> Registry" where
  "Sweep now r = snd (run_locked (Sweep_locked now) r)"

subsection \<open>Queries\<close>

definition ActiveCount :: "lease_env \<Rightarrow> Registry \<Rightarrow> string \<Rightarrow> string \<Rightarrow> nat" where
  "ActiveCount env r roomID participantID =
     length (mgets (mgets (r_activeBySubject r) (TrimSpace roomID)) (canonicalParticipantID env participantID))"

text \<open>The queries read the clock once per lease: \<open>clock n\<close> is the reading for the \<open>n\<close>-th entry.\<close>

definition unexpired :: "(nat \<Rightarrow> time) \<Rightarrow> Registry \<Rightarrow> activeLease list" where
  "unexpired clock r =
     map (\<lambda>(n, key, lease). lease)
       (filter (\<lambda>(n, key, lease). al_expiresAt lease > clock n) (List.enumerate 0 (r_activeByKey r)))"

definition ActiveWork :: "(nat \<Rightarrow> time) \<Rightarrow> Registry \<Rightarrow> string \<Rightarrow> ParticipantWorkUpdate list" where
  "ActiveWork clock r roomID =
     map (\<lambda>lease. updateFor r lease ParticipantWorkStateWorking [])
       (filter (\<lambda>lease. al_roomID lease = roomID) (unexpired clock r))"

definition ActiveRooms :: "lease_env \<Rightarrow> (nat \<Rightarrow> time) \<Rightarrow> Registry \<Rightarrow> string \<Rightarrow> string list" where
  "ActiveRooms env clock r participantID =
     sort (remdups (map al_roomID
       (filter (\<lambda>lease. al_participantID lease = canonicalParticipantID env participantID) (unexpired clock r))))"

end
