(* ===== verification/LeaseInv.thy ===== *)
theory LeaseInv
  imports WorkLease
begin

section \<open>The registry as a state machine\<close>

text \<open>
  Every locked section is a sequence of five elementary effects on the registry: a lease starts,
  changes, closes, a key is marked as closed, old marks are purged. The step relation lets
  sections of all callers, publications and changes of the buses interleave in any order. The
  invariant says that the index by room and participant agrees with the leases, that no key is
  both active and closed, and that each lease is well formed.
\<close>

subsection \<open>Elementary effects\<close>

definition lease_ok :: "activeLease \<Rightarrow> bool" where
  "lease_ok l \<longleftrightarrow> 0 \<le> al_statusWindowCount l \<and> al_statusWindowCount l \<le> MaxStatusPerWindow \<and>
     (al_stopRequestedAt l = None \<longleftrightarrow> al_stopState l = []) \<and>
     al_stopState l \<in> {[], ParticipantWorkStopStateRequested, ParticipantWorkStopStateFailed, ParticipantWorkStopStateTimedOut} \<and>
     al_statusSequence l = (case al_status l of None \<Rightarrow> 0 | Some st \<Rightarrow> ws_Sequence st)"

definition same_lease :: "activeLease \<Rightarrow> activeLease \<Rightarrow> bool" where
  "same_lease l l' \<longleftrightarrow> sameMetadata l l' \<and> al_leaseID l' = al_leaseID l"

definition lease_edit :: "activeLease \<Rightarrow> activeLease \<Rightarrow> bool" where
  "lease_edit l l' \<longleftrightarrow> same_lease l l' \<and> al_revision l' = al_revision l + 1 \<and> (lease_ok l \<longrightarrow> lease_ok l') \<and>
     al_statusSequence l \<le> al_statusSequence l' \<and> set (al_capabilities l) \<subseteq> set (al_capabilities l')"

inductive lease_effect :: "time \<Rightarrow> Registry \<Rightarrow> ParticipantWorkUpdate list \<Rightarrow> Registry \<Rightarrow> bool" for now r where
  effect_start:
    "mget (r_tombstones r) k = None \<Longrightarrow> mget (r_activeByKey r) k = None \<Longrightarrow>
     k = (al_participantID l, al_leaseID l) \<Longrightarrow> lease_ok l \<Longrightarrow> al_revision l = 1 \<Longrightarrow>
     lease_effect now r [updateFor r l st rs]
       (r\<lparr>r_activeByKey := mput k l (r_activeByKey r),
          r_activeBySubject := addSubject (al_roomID l) (al_participantID l) (snd k) (r_activeBySubject r)\<rparr>)"
| effect_edit:
    "mget (r_activeByKey r) k = Some l \<Longrightarrow> lease_edit l l' \<Longrightarrow>
     lease_effect now r [updateFor r l' st rs] (r\<lparr>r_activeByKey := mput k l' (r_activeByKey r)\<rparr>)"
| effect_close:
    "mget (r_activeByKey r) k = Some l \<Longrightarrow> same_lease l l' \<Longrightarrow> al_revision l' = al_revision l + 1 \<Longrightarrow>
     lease_effect now r [updateFor r l' st rs] (close_lease k l now r)"
| effect_mark:
    "mget (r_activeByKey r) k = None \<Longrightarrow> now + TombstoneTTL \<le> ts_rejectUntil ts \<Longrightarrow>
     (\<And>old. mget (r_tombstones r) k = Some old \<Longrightarrow> ts_rejectUntil old \<le> ts_rejectUntil ts) \<Longrightarrow>
     lease_effect now r [] (r\<lparr>r_tombstones := mput k ts (r_tombstones r)\<rparr>)"
| effect_purge:
    "lease_effect now r [] (r\<lparr>r_tombstones := filter (\<lambda>(k, ts). ts_rejectUntil ts > now) (r_tombstones r)\<rparr>)"

inductive effects :: "time \<Rightarrow> Registry \<Rightarrow> ParticipantWorkUpdate list \<Rightarrow> Registry \<Rightarrow> bool" for now where
  effects_none: "effects now r [] r"
| effects_more: "lease_effect now r us r1 \<Longrightarrow> effects now r1 vs r2 \<Longrightarrow> effects now r (us @ vs) r2"

lemma effects_one: "lease_effect now r us r' \<Longrightarrow> effects now r us r'"
  using effects_more [OF _ effects_none] by fastforce

lemma effects_append: "effects now r us r1 \<Longrightarrow> effects now r1 vs r2 \<Longrightarrow> effects now r (us @ vs) r2"
  by (induction rule: effects.induct) (auto intro: effects.intros)

subsection \<open>The operations\<close>

datatype lop =
    LStart lease_env time ParticipantWorkLease
  | LStatus lease_env time string string ParticipantWorkStatusPatchRequest
  | LRequestStop lease_env time string ParticipantWorkStopRequest
  | LStopFailed time leaseKey time turn_error
  | LFinish lease_env time string string string
  | LSweep time

fun lop_time :: "lop \<Rightarrow> time" where
  "lop_time (LStart env now req) = now"
| "lop_time (LStatus env now p l req) = now"
| "lop_time (LRequestStop env now p req) = now"
| "lop_time (LStopFailed now key at cause) = now"
| "lop_time (LFinish env now p l outcome) = now"
| "lop_time (LSweep now) = now"

fun exec_lop :: "lop \<Rightarrow> Registry \<Rightarrow> ParticipantWorkUpdate list \<times> Registry" where
  "exec_lop (LStart env now req) r = snd (with_services env req (\<lambda>l. StartOrRenew_locked req l now) r)"
| "exec_lop (LStatus env now p l req) r = snd (UpdateStatus_section env now p l req r)"
| "exec_lop (LRequestStop env now p req) r = snd (RequestStop_section env now p req r)"
| "exec_lop (LStopFailed now key at cause) r = snd (recordTurnControlFailure key at cause r)"
| "exec_lop (LFinish env now p l outcome) r = snd (Finish_section env now p l outcome r)"
| "exec_lop (LSweep now) r = snd (Sweep_locked now r)"

subsection \<open>Each section is a sequence of effects\<close>

lemma validate_fresh:
  assumes "validate ps im canon req = Inr l"
  shows "al_leaseID l = TrimSpace (wl_LeaseID req) \<and> lease_ok (l\<lparr>al_revision := v, al_expiresAt := t\<rparr>)"
  using assms
  by (auto simp: validate_def Let_def lease_ok_def MaxStatusPerWindow_def split: option.splits if_splits)

lemma updateFor_cong [simp]:
  "updateFor (r\<lparr>r_activeByKey := a\<rparr>) l st rs = updateFor r l st rs"
  "updateFor (r\<lparr>r_activeBySubject := b\<rparr>) l st rs = updateFor r l st rs"
  "updateFor (r\<lparr>r_tombstones := c\<rparr>) l st rs = updateFor r l st rs"
  "updateFor (close_lease k l0 now r) l st rs = updateFor r l st rs"
  by (simp_all add: updateFor_def close_lease_def)

lemma effects_StartOrRenew:
  assumes "validate ps im canon req = Inr l"
  shows "effects now r (fst (snd (StartOrRenew_locked req l now r))) (snd (snd (StartOrRenew_locked req l now r)))"
proof (cases "mget (r_tombstones r) (al_participantID l, TrimSpace (wl_LeaseID req))")
  case (Some ts)
  then show ?thesis by (simp add: StartOrRenew_locked_def Let_def refuse_def effects_none)
next
  case None
  note fresh = validate_fresh [OF assms]
  show ?thesis
  proof (cases "mget (r_activeByKey r) (al_participantID l, TrimSpace (wl_LeaseID req))")
    case n: None
    let ?l = "l\<lparr>al_revision := 1, al_expiresAt := now + clampTTL (wl_TTLSeconds req) (wl_TTLExplicit req) * Second\<rparr>"
    have "lease_effect now r
        [updateFor r ?l ParticipantWorkStateWorking ParticipantWorkReasonStarted]
        (r\<lparr>r_activeByKey := mput (al_participantID l, TrimSpace (wl_LeaseID req)) ?l (r_activeByKey r),
           r_activeBySubject := addSubject (al_roomID ?l) (al_participantID ?l)
             (snd (al_participantID l, TrimSpace (wl_LeaseID req))) (r_activeBySubject r)\<rparr>)"
      using None n fresh by (intro effect_start) auto
    with None n show ?thesis by (simp add: StartOrRenew_locked_def Let_def effects_one)
  next
    case (Some old)
    have "lease_edit old (old\<lparr>al_revision := al_revision old + 1, al_expiresAt := e\<rparr>)" for e
      by (simp add: lease_edit_def same_lease_def sameMetadata_def lease_ok_def)
    from effect_edit [OF Some this] None Some show ?thesis
      by (auto simp: StartOrRenew_locked_def Let_def refuse_def effects_none intro: effects_one)
  qed
qed

lemma edit_status:
  assumes "al_stopState l \<noteq> ParticipantWorkStopStateRequested" and "al_statusSequence l < seq"
    and "capabilitiesExtend (al_capabilities l) caps"
    and "l1 = l \<or> l1 = l\<lparr>al_statusWindowStartedAt := now, al_statusWindowCount := 0\<rparr>"
    and "al_statusWindowCount l1 < MaxStatusPerWindow" and "ws_Sequence st = seq"
  shows "lease_edit l (l1\<lparr>al_statusWindowCount := al_statusWindowCount l1 + 1, al_capabilities := caps,
    al_statusSequence := seq, al_status := Some st, al_revision := al_revision l1 + 1\<rparr>)"
  using assms
  by (auto simp: lease_edit_def same_lease_def sameMetadata_def lease_ok_def capabilitiesExtend_def list_all_iff
      intro: less_imp_le)

lemma effects_UpdateStatus:
  "effects now r (fst (snd (UpdateStatus_locked key req now r))) (snd (snd (UpdateStatus_locked key req now r)))"
proof (cases "mget (r_activeByKey r) key")
  case None
  then show ?thesis by (simp add: UpdateStatus_locked_def missing_lease_def refuse_def effects_none)
next
  case (Some l)
  let ?l1 = "if al_statusWindowStartedAt l = 0 \<or> now - al_statusWindowStartedAt l \<ge> StatusRateWindow
    then l\<lparr>al_statusWindowStartedAt := now, al_statusWindowCount := 0\<rparr> else l"
  show ?thesis
  proof (cases "al_stopState l = ParticipantWorkStopStateRequested \<or> sp_Sequence req \<le> al_statusSequence l \<or>
      \<not> capabilitiesExtend (al_capabilities l) (sp_Capabilities req) \<or> al_statusWindowCount ?l1 \<ge> MaxStatusPerWindow")
    case True
    with Some show ?thesis by (auto simp: UpdateStatus_locked_def Let_def refuse_def effects_none)
  next
    case False
    have "lease_edit l (?l1\<lparr>al_statusWindowCount := al_statusWindowCount ?l1 + 1, al_capabilities := sp_Capabilities req,
      al_statusSequence := sp_Sequence req, al_status := Some st, al_revision := al_revision ?l1 + 1\<rparr>)"
      if "ws_Sequence st = sp_Sequence req" for st
      using False that by (intro edit_status) auto
    from effect_edit [OF Some this] False Some show ?thesis
      by (simp add: UpdateStatus_locked_def Let_def effects_one)
  qed
qed

lemma effects_RequestStop:
  "effects now r (fst (snd (RequestStop_locked req t l r))) (snd (snd (RequestStop_locked req t l r)))"
proof (cases "mget (r_activeByKey r) (al_participantID l, TrimSpace (sr_LeaseID req))")
  case None
  then show ?thesis by (simp add: RequestStop_locked_def missing_lease_def refuse_def effects_none)
next
  case (Some old)
  have "lease_edit old (old\<lparr>al_stopRequestedAt := Some t, al_stopState := ParticipantWorkStopStateRequested,
      al_stopError := [], al_revision := al_revision old + 1\<rparr>)"
    by (auto simp: lease_edit_def same_lease_def sameMetadata_def lease_ok_def)
  from effect_edit [OF Some this] Some show ?thesis
    by (auto simp: RequestStop_locked_def Let_def refuse_def effects_none intro: effects_one)
qed

lemma effects_recordTurnControlFailure:
  "effects now r (fst (snd (recordTurnControlFailure key t cause r))) (snd (snd (recordTurnControlFailure key t cause r)))"
proof (cases "mget (r_activeByKey r) key")
  case None
  then show ?thesis by (simp add: recordTurnControlFailure_def Let_def effects_none)
next
  case (Some l)
  show ?thesis
  proof (cases "al_stopRequestedAt l = Some t")
    case True
    have "lease_edit l (l\<lparr>al_stopState := s, al_stopError := e, al_revision := al_revision l + 1\<rparr>)"
      if "s = ParticipantWorkStopStateTimedOut \<or> s = ParticipantWorkStopStateFailed" for s e
      using True that by (auto simp: lease_edit_def same_lease_def sameMetadata_def lease_ok_def)
    from effect_edit [OF Some this] True Some show ?thesis
      by (simp add: recordTurnControlFailure_def Let_def effects_one)
  next
    case False
    with Some show ?thesis by (simp add: recordTurnControlFailure_def Let_def effects_none)
  qed
qed

lemma effects_Finish:
  "effects now r (fst (snd (Finish_locked key outcome now r))) (snd (snd (Finish_locked key outcome now r)))"
proof (cases "mget (r_activeByKey r) key")
  case None
  have "lease_effect now r [] (r\<lparr>r_tombstones := mput key ts (r_tombstones r)\<rparr>)"
    if "ts = (case mget (r_tombstones r) key of None \<Rightarrow> \<lparr>ts_lastRevision = 0, ts_rejectUntil = 0\<rparr> | Some ts \<Rightarrow> ts)
      \<lparr>ts_rejectUntil := maxTime (ts_rejectUntil (case mget (r_tombstones r) key of None \<Rightarrow> \<lparr>ts_lastRevision = 0, ts_rejectUntil = 0\<rparr> | Some ts \<Rightarrow> ts)) (now + TombstoneTTL)\<rparr>"
    for ts
    using None that by (intro effect_mark) (auto simp: maxTime_def)
  from effects_one [OF this [OF refl]] None show ?thesis by (simp add: Finish_locked_def Let_def)
next
  case (Some l)
  have "same_lease l (l\<lparr>al_revision := v, al_stopState := s, al_stopError := e\<rparr>)" for v s e
    by (simp add: same_lease_def sameMetadata_def)
  from effect_close [OF Some this] Some show ?thesis
    by (auto simp: Finish_locked_def Let_def refuse_def effects_none intro: effects_one)
qed

lemma effects_sweep_active:
  assumes "sweep_active now es r = (us, r')" and "distinct (map fst es)"
    and "\<And>k l. (k, l) \<in> set es \<Longrightarrow> mget (r_activeByKey r) k = Some l"
  shows "effects now r us r'"
  using assms
proof (induction now es r arbitrary: us r' rule: sweep_active.induct)
  case (1 now r)
  then show ?case by (simp add: effects_none)
next
  case (2 now key l rest r)
  show ?case
  proof (cases "al_expiresAt l > now")
    case True
    with 2 show ?thesis by simp
  next
    case False
    let ?r1 = "close_lease key l now r"
    obtain vs where vs: "sweep_active now rest ?r1 = (vs, r')"
      and us: "us = [updateFor r (l\<lparr>al_revision := al_revision l + 1\<rparr>) ParticipantWorkStateIdle ParticipantWorkReasonExpired] @ vs"
      using 2(3) False by (auto split: prod.splits)
    have "mget (r_activeByKey ?r1) k = Some l'" if "(k, l') \<in> set rest" for k l'
    proof -
      have "k \<noteq> key" using 2(4) that by force
      with 2(5) [of k l'] that show ?thesis by (simp add: close_lease_def)
    qed
    from 2(2) [OF False vs _ this] 2(4) have "effects now ?r1 vs r'" by simp
    moreover have "same_lease l (l\<lparr>al_revision := al_revision l + 1\<rparr>)"
      by (simp add: same_lease_def sameMetadata_def)
    ultimately show ?thesis
      unfolding us using 2(5) [of key l] by (intro effects_more [OF effect_close]) auto
  qed
qed

lemma effects_Sweep:
  assumes "distinct (map fst (r_activeByKey r))"
  shows "effects now r (fst (snd (Sweep_locked now r))) (snd (snd (Sweep_locked now r)))"
proof -
  obtain us r1 where s: "sweep_active now (r_activeByKey r) r = (us, r1)" by (rule prod.exhaust)
  have "effects now r us r1"
    using assms by (intro effects_sweep_active [OF s]) auto
  from effects_append [OF this effects_one [OF effect_purge]] s show ?thesis
    by (simp add: Sweep_locked_def)
qed

theorem exec_effects:
  assumes "exec_lop op r = (us, r')" and "distinct (map fst (r_activeByKey r))"
  shows "effects (lop_time op) r us r'"
proof (cases op)
  case (LStart env now req)
  with assms(1) show ?thesis
    by (auto simp: with_services_def refuse_def effects_none split: option.splits sum.splits
        dest: effects_StartOrRenew [of _ _ _ req _ now r])
next
  case (LStatus env now p l req)
  with assms(1) effects_UpdateStatus [of now r "(canonicalParticipantID env p, TrimSpace l)" req] show ?thesis
    by (auto simp: UpdateStatus_section_def refuse_def effects_none split: option.splits)
next
  case (LRequestStop env now p req)
  with assms(1) effects_RequestStop [of now r req now] show ?thesis
    by (auto simp: RequestStop_section_def with_services_def refuse_def effects_none split: option.splits sum.splits)
       (metis fst_conv snd_conv)
next
  case (LStopFailed now key at cause)
  with assms(1) effects_recordTurnControlFailure [of now r key at cause] show ?thesis by simp
next
  case (LFinish env now p l outcome)
  with assms(1) effects_Finish [of now r "(canonicalParticipantID env p, TrimSpace l)" "Finish_outcome outcome"] show ?thesis
    by (auto simp: Finish_section_def Let_def refuse_def effects_none split: if_splits)
next
  case (LSweep now)
  with assms effects_Sweep [of r now] show ?thesis by simp
qed

subsection \<open>The index by room and participant\<close>

definition indexed :: "subject_index \<Rightarrow> string \<Rightarrow> string \<Rightarrow> string \<Rightarrow> bool" where
  "indexed idx room p l \<longleftrightarrow> mget (mgets (mgets idx room) p) l \<noteq> None"

definition index_wf :: "subject_index \<Rightarrow> bool" where
  "index_wf idx \<longleftrightarrow> (\<forall>room p. distinct (map fst (mgets (mgets idx room) p))) \<and>
     (\<forall>room byP. mget idx room = Some byP \<longrightarrow> byP \<noteq> [] \<and> (\<forall>p ls. mget byP p = Some ls \<longrightarrow> ls \<noteq> []))"

lemma indexed_addSubject:
  "indexed (addSubject room' p' l' idx) room p l \<longleftrightarrow> (room = room' \<and> p = p' \<and> l = l') \<or> indexed idx room p l"
  by (simp add: indexed_def addSubject_def Let_def)

lemma mgets_removeSubject:
  "mgets (mgets (removeSubject room' p' l' idx) room) p =
     (if room = room' \<and> p = p' then mdel l' (mgets (mgets idx room) p) else mgets (mgets idx room) p)"
proof (cases "room = room'")
  case True
  let ?ls = "mdel l' (mgets (mgets idx room) p')"
  let ?byP = "if ?ls = [] then mdel p' (mgets idx room) else mput p' ?ls (mgets idx room)"
  have "mgets (removeSubject room' p' l' idx) room = ?byP"
    using True by (simp add: removeSubject_def Let_def)
  then show ?thesis using True by simp
qed (simp add: removeSubject_def Let_def)

lemma indexed_removeSubject:
  "indexed (removeSubject room' p' l' idx) room p l \<longleftrightarrow> indexed idx room p l \<and> \<not> (room = room' \<and> p = p' \<and> l = l')"
  by (auto simp: indexed_def mgets_removeSubject)

lemma mput_not_Nil [simp]: "mput k v m \<noteq> []"
  by (metis keys_mput empty_iff image_empty insertI1 list.set(1))

lemma mgets_not_Nil: "mgets m k \<noteq> [] \<Longrightarrow> mget m k = Some (mgets m k)"
  by (auto simp: mgets_def split: option.splits)

lemma index_wf_add: "index_wf idx \<Longrightarrow> index_wf (addSubject room' p' l' idx)"
  unfolding index_wf_def addSubject_def Let_def
  by (auto simp: mgets_def split: option.splits if_splits)

lemma index_wf_remove:
  assumes "index_wf idx"
  shows "index_wf (removeSubject room' p' l' idx)"
proof -
  let ?byP = "mgets idx room'"
  let ?ls = "mdel l' (mgets ?byP p')"
  have "ls \<noteq> []" if "mget ?byP p = Some ls" for p ls
    using assms that by (auto simp: index_wf_def mgets_def split: option.splits)
  then have new: "ls \<noteq> []" if "mget (if ?ls = [] then mdel p' ?byP else mput p' ?ls ?byP) p = Some ls" for p ls
    using that by (auto split: if_splits)
  have "byP \<noteq> [] \<and> (\<forall>p ls. mget byP p = Some ls \<longrightarrow> ls \<noteq> [])"
    if "mget (removeSubject room' p' l' idx) room = Some byP" for room byP
  proof (cases "room = room'")
    case True
    with that have "byP = (if ?ls = [] then mdel p' ?byP else mput p' ?ls ?byP)" "byP \<noteq> []"
      by (auto simp: removeSubject_def Let_def split: if_splits)
    with new show ?thesis by blast
  next
    case False
    with that assms show ?thesis by (auto simp: removeSubject_def Let_def index_wf_def split: if_splits)
  qed
  moreover have "distinct (map fst (mgets (mgets (removeSubject room' p' l' idx) room) p))" for room p
    using assms by (simp add: mgets_removeSubject index_wf_def)
  ultimately show ?thesis by (simp add: index_wf_def)
qed

subsection \<open>The invariant\<close>

definition reg_ok :: "Registry \<Rightarrow> bool" where
  "reg_ok r \<longleftrightarrow> distinct (map fst (r_activeByKey r)) \<and> distinct (map fst (r_tombstones r)) \<and>
     (\<forall>k l. mget (r_activeByKey r) k = Some l \<longrightarrow>
        k = (al_participantID l, al_leaseID l) \<and> lease_ok l \<and> mget (r_tombstones r) k = None) \<and>
     (\<forall>room p i. indexed (r_activeBySubject r) room p i \<longleftrightarrow>
        (\<exists>l. mget (r_activeByKey r) (p, i) = Some l \<and> al_roomID l = room)) \<and>
     index_wf (r_activeBySubject r)"

lemma reg_ok_active:
  "reg_ok r \<Longrightarrow> mget (r_activeByKey r) k = Some l \<Longrightarrow>
     k = (al_participantID l, al_leaseID l) \<and> lease_ok l \<and> mget (r_tombstones r) k = None"
  unfolding reg_ok_def by blast

lemma reg_ok_index:
  "reg_ok r \<Longrightarrow> indexed (r_activeBySubject r) room p i \<longleftrightarrow>
     (\<exists>l. mget (r_activeByKey r) (p, i) = Some l \<and> al_roomID l = room)"
  unfolding reg_ok_def by blast

lemma mget_filter_Some:
  "distinct (map fst m) \<Longrightarrow> mget (filter (\<lambda>(k, v). P v) m) k = Some v \<longleftrightarrow> mget m k = Some v \<and> P v"
  by (induction m) (auto simp: image_iff split: if_splits dest!: map_of_SomeD)

lemma mget_filter_None: "mget m k = None \<Longrightarrow> mget (filter P m) k = None"
  by (auto simp: map_of_eq_None_iff)

lemma distinct_keys_filter: "distinct (map fst m) \<Longrightarrow> distinct (map fst (filter P m))"
  by (rule distinct_map_filter)

lemma same_leaseD:
  "same_lease l l' \<Longrightarrow> al_participantID l' = al_participantID l \<and> al_leaseID l' = al_leaseID l \<and> al_roomID l' = al_roomID l"
  by (simp add: same_lease_def sameMetadata_def)

lemma reg_ok_effect: "lease_effect now r us r' \<Longrightarrow> reg_ok r \<Longrightarrow> reg_ok r'"
proof (induction rule: lease_effect.induct)
  case (effect_start k l st rs)
  then show ?case by (auto simp: reg_ok_def indexed_addSubject index_wf_add)
next
  case (effect_edit k l l' st rs)
  then have "al_participantID l' = al_participantID l \<and> al_leaseID l' = al_leaseID l \<and> al_roomID l' = al_roomID l"
    and "lease_ok l \<Longrightarrow> lease_ok l'"
    using same_leaseD by (auto simp: lease_edit_def)
  with effect_edit show ?case by (auto simp: reg_ok_def)
next
  case (effect_close k l l' st rs)
  obtain p i where k: "k = (p, i)" by (cases k)
  from effect_close k reg_ok_active have l: "mget (r_activeByKey r) (p, i) = Some l" "al_participantID l = p" by auto
  have "indexed (removeSubject (al_roomID l) p i (r_activeBySubject r)) room p' i' \<longleftrightarrow>
      (\<exists>l'. mget (mdel (p, i) (r_activeByKey r)) (p', i') = Some l' \<and> al_roomID l' = room)" for room p' i'
    using l by (auto simp: indexed_removeSubject reg_ok_index [OF effect_close(4)])
  with effect_close(4) show ?case
    by (simp add: reg_ok_def close_lease_def k l(2) index_wf_remove) metis
next
  case (effect_mark k ts)
  then show ?case by (auto simp: reg_ok_def)
next
  case effect_purge
  then show ?case by (auto simp: reg_ok_def mget_filter_None distinct_keys_filter)
qed

lemma reg_ok_effects: "effects now r us r' \<Longrightarrow> reg_ok r \<Longrightarrow> reg_ok r'"
  by (induction rule: effects.induct) (auto intro: reg_ok_effect)

lemma reg_ok_distinct: "reg_ok r \<Longrightarrow> distinct (map fst (r_activeByKey r))"
  by (simp add: reg_ok_def)

lemma exec_lop_ok: "exec_lop op r = (us, r') \<Longrightarrow> reg_ok r \<Longrightarrow> reg_ok r'"
  by (rule reg_ok_effects [OF exec_effects [OF _ reg_ok_distinct]])

subsection \<open>Interleaved runs\<close>

text \<open>
  A state is the registry and the updates that callers have not published yet. Publication takes
  any of them, because callers race after they release the lock; the buses, the dispatcher and
  the messaging service change at any time without the registry's lock.
\<close>

type_synonym lease_state = "Registry \<times> ParticipantWorkUpdate list"

datatype lease_act = Section lop | Deliver | Outside

inductive lease_step :: "lease_state \<Rightarrow> lease_act \<Rightarrow> lease_state \<Rightarrow> bool" where
  step_section: "exec_lop op r = (us, r') \<Longrightarrow> lease_step (r, pend) (Section op) (r', pend @ us)"
| step_deliver: "lease_step (r, xs @ u # ys) Deliver (publish u r, xs @ ys)"
| step_outside: "lease_step (r, pend) Outside (r\<lparr>r_bus := b, r_controlBus := c, r_turnControls := d, r_delivered := m\<rparr>, pend)"

inductive_cases lease_stepE: "lease_step x a y"

definition lease_init :: "lease_state \<Rightarrow> bool" where
  "lease_init x \<longleftrightarrow> (\<exists>i epoch bus cb d. x = (NewRegistry i epoch bus cb d, []))"

definition lease_inv :: "lease_state \<Rightarrow> bool" where
  "lease_inv x \<longleftrightarrow> reg_ok (fst x)"

lemma reg_ok_cong:
  "r_activeByKey r' = r_activeByKey r \<Longrightarrow> r_activeBySubject r' = r_activeBySubject r \<Longrightarrow>
     r_tombstones r' = r_tombstones r \<Longrightarrow> reg_ok r' = reg_ok r"
  by (simp add: reg_ok_def)

lemma publish_keeps [simp]:
  "r_activeByKey (publish u r) = r_activeByKey r" "r_activeBySubject (publish u r) = r_activeBySubject r"
  "r_tombstones (publish u r) = r_tombstones r" "r_epoch (publish u r) = r_epoch r"
  by (simp_all add: publish_def)

lemma reg_ok_NewRegistry: "reg_ok (NewRegistry i epoch bus cb d)"
  by (simp add: reg_ok_def NewRegistry_def indexed_def index_wf_def)

interpretation lease_registry: invariant_system lease_init lease_step lease_inv
proof
  fix x
  show "lease_init x \<Longrightarrow> lease_inv x"
    by (auto simp: lease_init_def lease_inv_def reg_ok_NewRegistry)
next
  fix x a y
  assume "lease_inv x" and "lease_step x a y"
  then show "lease_inv y"
    by (auto simp: lease_inv_def elim!: lease_stepE dest: exec_lop_ok cong: reg_ok_cong)
qed

end
