(* ===== verification/LeaseProps.thy ===== *)
theory LeaseProps
  imports LeaseInv "HOL-Library.Sublist"
begin

section \<open>What the work lease registry guarantees\<close>

text \<open>
  The properties of the registry over all interleavings of its callers, of its status check, of
  its expiry times, and of the bus and the dispatcher beside it.
\<close>

declare map_of_eq_Some_iff [simp del] Some_eq_map_of_iff [simp del]

subsection \<open>The index counts the leases\<close>

lemma card_keys: "distinct (map fst m) \<Longrightarrow> length m = card {k. mget m k \<noteq> None}"
proof -
  assume d: "distinct (map fst m)"
  have "{k. mget m k \<noteq> None} = set (map fst m)" by (auto simp: mget_None_key)
  then show ?thesis using distinct_card [OF d] by simp
qed

text \<open>
  C24. In every interleaving of callers, \<open>ActiveCount\<close> of a room and a participant is the number of
  active leases with that participant and room: the nested index and the map of leases never
  drift apart.
\<close>

theorem ActiveCount_exact:
  assumes "reachable lease_init lease_step (r, pend)"
  shows "ActiveCount env r room p =
    card {i. \<exists>l. mget (r_activeByKey r) (canonicalParticipantID env p, i) = Some l \<and> al_roomID l = TrimSpace room}"
proof -
  have ok: "reg_ok r" using lease_registry.reachable_inv [OF assms] by (simp add: lease_inv_def)
  let ?m = "mgets (mgets (r_activeBySubject r) (TrimSpace room)) (canonicalParticipantID env p)"
  have "length ?m = card {i. mget ?m i \<noteq> None}"
    using ok by (intro card_keys) (simp add: reg_ok_def index_wf_def)
  also have "{i. mget ?m i \<noteq> None} =
      {i. \<exists>l. mget (r_activeByKey r) (canonicalParticipantID env p, i) = Some l \<and> al_roomID l = TrimSpace room}"
    using reg_ok_index [OF ok] unfolding indexed_def by blast
  finally show ?thesis by (simp add: ActiveCount_def)
qed

definition demo_env :: lease_env where
  "demo_env = \<lparr>le_participants = Some (\<lambda>channel i. if channel = ChannelCSGClaw \<and> i = ''pt-a''
        then Some \<lparr>p_ID = ''pt-a'', p_Channel = ChannelCSGClaw, p_Type = TypeAgent, p_ChannelUserRef = ''user-a'',
          p_LifecycleStatus = LifecycleStatusActive\<rparr> else None),
     le_im = Some \<lparr>im_ResolveUserID = (\<lambda>i. i), im_RoomMembers = (\<lambda>i. if i = ''r1'' then Some [''user-a''] else None),
        im_UserID = Some\<rparr>,
     le_CanonicalID = (\<lambda>i. i)\<rparr>"

definition demo_lease :: ParticipantWorkLease where
  "demo_lease = \<lparr>wl_ParticipantID = ''pt-a'', wl_LeaseID = ''L1'', wl_RoomID = ''r1'', wl_ThreadRootID = [],
     wl_RequestID = ''q1'', wl_TaskID = [], wl_TaskAttempt = 0, wl_Kind = ''agent_turn'', wl_TTLSeconds = 90, wl_TTLExplicit = True\<rparr>"

definition demo_patch :: ParticipantWorkStatusPatchRequest where
  "demo_patch = \<lparr>sp_ContextUsage = None, sp_Capabilities = [ParticipantWorkCapabilityTurnStopV1], sp_Sequence = 1,
     sp_Phase = ParticipantWorkPhaseWorking, sp_Stage = [], sp_Thinking = None\<rparr>"

definition demo_registry :: Registry where
  "demo_registry = NewRegistry ''e'' [] (Some NewBus) None None"

definition demo_started :: Registry where
  "demo_started = snd (exec_lop (LStart demo_env 1000 demo_lease) demo_registry)"

lemma demo_started_reachable: "\<exists>pend. reachable lease_init lease_step (demo_started, pend)"
proof -
  have "reachable lease_init lease_step (demo_registry, [])"
    by (rule reachable_init) (unfold lease_init_def demo_registry_def, blast)
  moreover have "lease_step (demo_registry, []) (Section (LStart demo_env 1000 demo_lease))
      (demo_started, [] @ fst (exec_lop (LStart demo_env 1000 demo_lease) demo_registry))"
    by (rule step_section) (simp add: demo_started_def del: exec_lop.simps)
  ultimately show ?thesis by (meson reachable_step)
qed

theorem ActiveCount_exact_witness:
  "card {i. \<exists>l. mget (r_activeByKey demo_started) (canonicalParticipantID demo_env ''pt-a'', i) = Some l \<and>
     al_roomID l = TrimSpace ''r1''} = 1"
proof -
  obtain pend where "reachable lease_init lease_step (demo_started, pend)" using demo_started_reachable ..
  note ActiveCount_exact [OF this, of demo_env "''r1''" "''pt-a''"]
  moreover have "ActiveCount demo_env demo_started ''r1'' ''pt-a'' = 1" by code_simp
  ultimately show ?thesis by simp
qed

subsection \<open>A closed lease is not reopened\<close>

definition closed_until :: "leaseKey \<Rightarrow> time \<Rightarrow> Registry \<Rightarrow> bool" where
  "closed_until k t r \<longleftrightarrow> (\<exists>ts. mget (r_tombstones r) k = Some ts \<and> t \<le> ts_rejectUntil ts)"

lemma closed_until_effect:
  "lease_effect now r us r' \<Longrightarrow> reg_ok r \<Longrightarrow> closed_until k t r \<Longrightarrow> now < t \<Longrightarrow> closed_until k t r'"
proof (induction rule: lease_effect.induct)
  case effect_purge
  then show ?case by (auto simp: closed_until_def reg_ok_def mget_filter_Some)
next
  case (effect_mark k ts)
  then show ?case unfolding closed_until_def by (auto intro: order_trans)
next
  case (effect_close k' l l' st rs)
  then have "k' \<noteq> k" using reg_ok_active [of r k' l] by (auto simp: closed_until_def)
  with effect_close show ?case by (auto simp: closed_until_def close_lease_def)
qed (auto simp: closed_until_def)

lemma closed_until_effects:
  "effects now r us r' \<Longrightarrow> reg_ok r \<Longrightarrow> closed_until k t r \<Longrightarrow> now < t \<Longrightarrow> closed_until k t r'"
  by (induction rule: effects.induct) (auto intro: closed_until_effect reg_ok_effect)

lemma active_not_closed: "reg_ok r \<Longrightarrow> mget (r_activeByKey r) k = Some l \<Longrightarrow> \<not> closed_until k t r"
  by (drule (1) reg_ok_active) (auto simp: closed_until_def)

fun act_before :: "time \<Rightarrow> lease_act \<Rightarrow> bool" where
  "act_before t (Section op) = (lop_time op < t)"
| "act_before t _ = True"

lemma closed_until_step:
  assumes "lease_step x a y" and "lease_inv x" and "act_before t a" and "closed_until k t (fst x)"
  shows "closed_until k t (fst y)"
  using assms(1)
proof cases
  case (step_section op r us r' pend)
  with assms closed_until_effects [OF exec_effects] show ?thesis by (auto simp: lease_inv_def reg_ok_distinct)
next
  case (step_deliver r xs u ys)
  with assms show ?thesis by (simp add: closed_until_def)
next
  case (step_outside r pend b c d m)
  with assms show ?thesis by (simp add: closed_until_def)
qed

lemma closed_until_steps:
  "steps lease_step x as y \<Longrightarrow> lease_inv x \<Longrightarrow> list_all (act_before t) as \<Longrightarrow> closed_until k t (fst x) \<Longrightarrow>
     closed_until k t (fst y)"
proof (induction rule: steps.induct)
  case (steps_Cons x a z as y)
  then show ?case by (auto intro: closed_until_step lease_registry.step_inv)
qed

lemma Finish_closes:
  assumes "Finish_section env now p i outcome r = (Inr (), us, r')"
  shows "closed_until (canonicalParticipantID env p, TrimSpace i) (now + TombstoneTTL) r'"
  using assms
  by (auto simp: Finish_section_def Finish_locked_def Let_def refuse_def closed_until_def close_lease_def maxTime_def
      split: if_splits option.splits prod.splits)

text \<open>
  C25. A lease that was finished at time \<open>now\<close> is not started again by anyone for 70 seconds: after
  every interleaving of operations whose clocks are before \<open>now + TombstoneTTL\<close>, a start with its
  key is refused as closed and leaves the registry as it is.
\<close>

theorem closed_lease_refused:
  assumes "reachable lease_init lease_step (r, pend)"
    and "Finish_section env now p i outcome r = (Inr (), us, r1)"
    and "steps lease_step (r1, pend @ us) as (r2, pend2)"
    and "list_all (act_before (now + TombstoneTTL)) as"
    and "validate ps im canon req = Inr l"
    and "al_participantID l = canonicalParticipantID env p" and "al_leaseID l = TrimSpace i"
  shows "StartOrRenew_locked req l t r2 = (Inl ErrClosed, [], r2)"
proof -
  have "lease_step (r, pend) (Section (LFinish env now p i outcome)) (r1, pend @ us)"
    using assms(2) by (intro step_section) simp
  from lease_registry.step_inv [OF lease_registry.reachable_inv [OF assms(1)] this]
  have "closed_until (canonicalParticipantID env p, TrimSpace i) (now + TombstoneTTL) r2"
    using closed_until_steps [OF assms(3) _ assms(4)] Finish_closes [OF assms(2)] by simp
  with assms(6,7) validate_fresh [OF assms(5)] show ?thesis
    by (auto simp: StartOrRenew_locked_def Let_def refuse_def closed_until_def)
qed

definition demo_finished :: Registry where
  "demo_finished = snd (exec_lop (LFinish demo_env 2000 ''pt-a'' ''L1'' ''released'') demo_started)"

definition demo_normalized :: activeLease where
  "demo_normalized = (case validate (the (le_participants demo_env)) (the (le_im demo_env)) (le_CanonicalID demo_env) demo_lease of
     Inr l \<Rightarrow> l | Inl _ \<Rightarrow> undefined)"

lemma demo_validate:
  "validate (the (le_participants demo_env)) (the (le_im demo_env)) (le_CanonicalID demo_env) demo_lease = Inr demo_normalized"
proof -
  have "is_ok (validate (the (le_participants demo_env)) (the (le_im demo_env)) (le_CanonicalID demo_env) demo_lease)"
    by code_simp
  then show ?thesis by (auto simp: demo_normalized_def elim!: is_okE)
qed

theorem closed_lease_refused_witness:
  "StartOrRenew_locked demo_lease demo_normalized 3000 demo_finished = (Inl ErrClosed, [], demo_finished)"
proof -
  obtain pend where pend: "reachable lease_init lease_step (demo_started, pend)" using demo_started_reachable ..
  have "fst (Finish_section demo_env 2000 ''pt-a'' ''L1'' ''released'' demo_started) = Inr ()" by code_simp
  then obtain us where fin: "Finish_section demo_env 2000 ''pt-a'' ''L1'' ''released'' demo_started = (Inr (), us, demo_finished)"
    by (cases "Finish_section demo_env 2000 ''pt-a'' ''L1'' ''released'' demo_started") (auto simp: demo_finished_def)
  have ids: "al_participantID demo_normalized = canonicalParticipantID demo_env ''pt-a''"
    "al_leaseID demo_normalized = TrimSpace ''L1''" by code_simp+
  show ?thesis
    by (rule closed_lease_refused [OF pend fin steps_Nil _ demo_validate ids]) simp
qed

subsection \<open>Revisions\<close>

text \<open>
  The updates that a sequence of sections emits, in the order of the lock; the revisions of those
  that belong to one lease.
\<close>

fun run_lops :: "lop list \<Rightarrow> Registry \<Rightarrow> ParticipantWorkUpdate list \<times> Registry" where
  "run_lops [] r = ([], r)"
| "run_lops (op # ops) r =
     (let (us, r1) = exec_lop op r; (vs, r2) = run_lops ops r1 in (us @ vs, r2))"

definition revisions :: "leaseKey \<Rightarrow> ParticipantWorkUpdate list \<Rightarrow> uint64 list" where
  "revisions k us = map wu_Revision (filter (\<lambda>u. (wu_ParticipantID u, wu_LeaseID u) = k) us)"

lemma revisions_append [simp]: "revisions k (us @ vs) = revisions k us @ revisions k vs"
  by (simp add: revisions_def)

text \<open>Either the lease is active at revision \<open>v\<close>, or it is closed until after \<open>t\<close>.\<close>

definition at_revision :: "leaseKey \<Rightarrow> time \<Rightarrow> uint64 \<Rightarrow> Registry \<Rightarrow> bool" where
  "at_revision k t v r \<longleftrightarrow> (\<exists>l. mget (r_activeByKey r) k = Some l \<and> al_revision l = v) \<or> closed_until k t r"

definition counts :: "leaseKey \<Rightarrow> time \<Rightarrow> ParticipantWorkUpdate list \<Rightarrow> uint64 \<Rightarrow> Registry \<Rightarrow> bool" where
  "counts k t us v r' \<longleftrightarrow> (\<exists>n. revisions k us = map (\<lambda>i. v + 1 + of_nat i) [0..<n] \<and> at_revision k t (v + of_nat n) r')"

lemma counts_zero: "revisions k us = [] \<Longrightarrow> at_revision k t v r' \<Longrightarrow> counts k t us v r'"
  unfolding counts_def by (rule exI [of _ 0]) simp

lemma counts_one: "revisions k us = [v + 1] \<Longrightarrow> at_revision k t (v + 1) r' \<Longrightarrow> counts k t us v r'"
  unfolding counts_def by (rule exI [of _ 1]) simp

lemma revisions_update [simp]:
  "revisions k [updateFor r l st rs] = (if (al_participantID l, al_leaseID l) = k then [al_revision l] else [])"
  by (auto simp: revisions_def updateFor_def)

lemma counts_effect:
  assumes "lease_effect now r us r'" and "reg_ok r" and "at_revision k t v r" and "now < t" and "t \<le> now + TombstoneTTL"
  shows "counts k t us v r'"
  using assms(1)
proof cases
  case (effect_start k' l st rs)
  have "k' \<noteq> k" using effect_start(3,4) assms(3) by (auto simp: at_revision_def closed_until_def)
  with effect_start assms(3) show ?thesis
    by (intro counts_zero) (auto simp: at_revision_def closed_until_def)
next
  case (effect_edit k' l l' st rs)
  have k': "k' = (al_participantID l', al_leaseID l')"
    using reg_ok_active [OF assms(2) effect_edit(3)] same_leaseD effect_edit(4) by (auto simp: lease_edit_def)
  show ?thesis
  proof (cases "k' = k")
    case True
    then have "\<not> closed_until k t r" using active_not_closed [OF assms(2) effect_edit(3)] by simp
    with assms(3) effect_edit True have "al_revision l' = v + 1" by (auto simp: at_revision_def lease_edit_def)
    with effect_edit True k' show ?thesis by (intro counts_one) (auto simp: at_revision_def)
  next
    case False
    with effect_edit assms(3) k' show ?thesis by (intro counts_zero) (auto simp: at_revision_def closed_until_def)
  qed
next
  case (effect_close k' l l' st rs)
  have k': "k' = (al_participantID l', al_leaseID l')"
    using reg_ok_active [OF assms(2) effect_close(3)] same_leaseD [OF effect_close(4)] by auto
  show ?thesis
  proof (cases "k' = k")
    case True
    then have "\<not> closed_until k t r" using active_not_closed [OF assms(2) effect_close(3)] by simp
    with assms(3) effect_close True have "al_revision l' = v + 1" by (auto simp: at_revision_def)
    with effect_close True k' assms(5) show ?thesis
      by (intro counts_one) (auto simp: at_revision_def closed_until_def close_lease_def)
  next
    case False
    with effect_close assms(3) k' show ?thesis
      by (intro counts_zero) (auto simp: at_revision_def closed_until_def close_lease_def)
  qed
next
  case (effect_mark k' ts)
  with assms(3,5) show ?thesis
    by (intro counts_zero) (auto simp: at_revision_def closed_until_def revisions_def intro: order_trans)
next
  case effect_purge
  have "at_revision k t v r'"
    using assms(3) closed_until_effect [OF assms(1,2) _ assms(4), of k] effect_purge(2) by (auto simp: at_revision_def)
  then show ?thesis using effect_purge(1) by (intro counts_zero) (auto simp: revisions_def)
qed

lemma counts_append:
  assumes "counts k t us v r1" and "\<And>w. at_revision k t w r1 \<Longrightarrow> counts k t vs w r2"
  shows "counts k t (us @ vs) v r2"
proof -
  from assms(1) obtain n where n: "revisions k us = map (\<lambda>i. v + 1 + of_nat i) [0..<n]" "at_revision k t (v + of_nat n) r1"
    by (auto simp: counts_def)
  from assms(2) [OF n(2)] obtain m
    where m: "revisions k vs = map (\<lambda>i. v + of_nat n + 1 + of_nat i) [0..<m]" "at_revision k t (v + of_nat n + of_nat m) r2"
    by (auto simp: counts_def)
  have "map (\<lambda>i. v + of_nat n + 1 + of_nat i) [0..<m] = map (\<lambda>i. v + 1 + of_nat i) [n..<n + m]"
    by (rule nth_equalityI) (auto simp: add_ac)
  with n(1) m(1) have "revisions k (us @ vs) = map (\<lambda>i. v + 1 + of_nat i) [0..<n + m]"
    by (simp add: upt_add_eq_append [of 0 n m])
  moreover have "at_revision k t (v + of_nat (n + m)) r2" using m(2) by (simp add: add.assoc)
  ultimately show ?thesis unfolding counts_def by blast
qed

lemma counts_effects:
  "effects now r us r' \<Longrightarrow> reg_ok r \<Longrightarrow> at_revision k t v r \<Longrightarrow> now < t \<Longrightarrow> t \<le> now + TombstoneTTL \<Longrightarrow> counts k t us v r'"
proof (induction arbitrary: v rule: effects.induct)
  case (effects_none r)
  then show ?case by (intro counts_zero) (auto simp: revisions_def)
next
  case (effects_more r us r1 vs r2)
  then show ?case by (intro counts_append [OF counts_effect]) (auto intro: reg_ok_effect)
qed

lemma counts_run:
  assumes "run_lops ops r = (us, r')" and "reg_ok r" and "at_revision k t v r"
    and "list_all (\<lambda>op. lop_time op < t \<and> t \<le> lop_time op + TombstoneTTL) ops"
  shows "counts k t us v r'"
  using assms
proof (induction ops arbitrary: r us v)
  case Nil
  then show ?case by (intro counts_zero) (auto simp: revisions_def)
next
  case (Cons op ops)
  obtain us1 r1 where e: "exec_lop op r = (us1, r1)" by (rule prod.exhaust)
  obtain us2 where r2: "run_lops ops r1 = (us2, r')" and us: "us = us1 @ us2"
    using Cons.prems(1) e by (auto split: prod.splits)
  have "counts k t us1 v r1"
    using counts_effects [OF exec_effects [OF e reg_ok_distinct]] Cons.prems by simp
  moreover have "counts k t us2 w r'" if "at_revision k t w r1" for w
    using Cons.IH [OF r2 exec_lop_ok [OF e Cons.prems(2)] that] Cons.prems(4) by simp
  ultimately show ?case unfolding us by (rule counts_append)
qed

text \<open>
  While the operations of all callers lie within 70 seconds, the updates emitted for an active
  lease of revision \<open>v\<close> carry the revisions \<open>v + 1\<close>, \<open>v + 2\<close>, and so on, without a gap and without
  a repetition, up to its closing update, whatever else happens in between: a subscriber that
  keeps the highest revision never goes back in time.
\<close>

theorem lease_revisions:
  assumes "reachable lease_init lease_step (r, pend)" and "mget (r_activeByKey r) k = Some l"
    and "run_lops ops r = (us, r')"
    and "list_all (\<lambda>op. start \<le> lop_time op \<and> lop_time op < start + TombstoneTTL) ops"
  shows "\<exists>n. revisions k us = map (\<lambda>i. al_revision l + 1 + of_nat i) [0..<n]"
proof -
  have "reg_ok r" using lease_registry.reachable_inv [OF assms(1)] by (simp add: lease_inv_def)
  moreover have "at_revision k (start + TombstoneTTL) (al_revision l) r" using assms(2) by (simp add: at_revision_def)
  ultimately have "counts k (start + TombstoneTTL) us (al_revision l) r'"
    using counts_run [OF assms(3)] assms(4) by (simp add: list_all_iff)
  then show ?thesis by (auto simp: counts_def)
qed

definition demo_ops :: "lop list" where
  "demo_ops = [LStart demo_env 2000 demo_lease, LStatus demo_env 2500 ''pt-a'' ''L1'' demo_patch,
     LRequestStop demo_env 3000 ''pt-a'' \<lparr>sr_RoomID = ''r1'', sr_LeaseID = ''L1'', sr_RequestID = ''q1''\<rparr>,
     LStopFailed 3500 (''pt-a'', ''L1'') 3000 ErrTurnNotFound, LFinish demo_env 4000 ''pt-a'' ''L1'' ''stopped'',
     LStart demo_env 5000 demo_lease]"

theorem lease_revisions_witness:
  "\<exists>n. revisions (''pt-a'', ''L1'') (fst (run_lops demo_ops demo_started)) = map (\<lambda>i. 1 + 1 + of_nat i) [0..<n] \<and>
     length (revisions (''pt-a'', ''L1'') (fst (run_lops demo_ops demo_started))) = 5"
proof -
  obtain pend where pend: "reachable lease_init lease_step (demo_started, pend)" using demo_started_reachable ..
  have "map_option al_revision (mget (r_activeByKey demo_started) (''pt-a'', ''L1'')) = Some 1" by code_simp
  then obtain l where l: "mget (r_activeByKey demo_started) (''pt-a'', ''L1'') = Some l" "al_revision l = 1" by auto
  have "list_all (\<lambda>op. 2000 \<le> lop_time op \<and> lop_time op < 2000 + TombstoneTTL) demo_ops" by code_simp
  from lease_revisions [OF pend l(1) _ this, of "fst (run_lops demo_ops demo_started)" "snd (run_lops demo_ops demo_started)"] l(2)
  obtain n where "revisions (''pt-a'', ''L1'') (fst (run_lops demo_ops demo_started)) = map (\<lambda>i. 1 + 1 + of_nat i) [0..<n]"
    by auto
  moreover have "length (revisions (''pt-a'', ''L1'') (fst (run_lops demo_ops demo_started))) = 5" by code_simp
  ultimately show ?thesis by blast
qed

end
