(* ===== verification/LeaseStatus.thy ===== *)
theory LeaseStatus
  imports LeaseProps
begin

section \<open>Status reports, lifetimes and stop requests\<close>

text \<open>
  The status check against a declarative description of the accepted reports, the lifetime that a
  start or renewal gives a lease, the outcome of a stop request through registry, dispatcher and
  control bus, and the order in which a subscriber sees the published updates.
\<close>

declare map_of_eq_Some_iff [simp del] Some_eq_map_of_iff [simp del]

subsection \<open>The accepted status reports\<close>

definition known_capabilities :: "string set" where
  "known_capabilities = {ParticipantWorkCapabilityThinkingStatusV1, ParticipantWorkCapabilityTurnStopV1, ParticipantWorkCapabilityStageV1}"

definition stage_phases :: "(string \<times> string) set" where
  "stage_phases =
     {(ParticipantWorkStagePreparingReply, ParticipantWorkPhaseThinking), (ParticipantWorkStageThinking, ParticipantWorkPhaseThinking),
      (ParticipantWorkStageRunningTool, ParticipantWorkPhaseWorking), (ParticipantWorkStageGeneratingReply, ParticipantWorkPhaseWorking)}"

text \<open>A thinking text is plain valid UTF-8 of bounded size, and only the stage of thinking carries one.\<close>

definition thinking_ok :: "string \<Rightarrow> ParticipantThinkingStatus \<Rightarrow> bool" where
  "thinking_ok stage t \<longleftrightarrow> stage \<in> {[], ParticipantWorkStageThinking} \<and> th_Format t = ParticipantThinkingFormatPlainText \<and>
     ValidString (th_Text t) \<and> length (th_Text t) \<le> MaxThinkingBytes"

definition patch_ok :: "ParticipantWorkStatusPatchRequest \<Rightarrow> bool" where
  "patch_ok q \<longleftrightarrow>
     sp_Sequence q \<noteq> 0 \<and> (\<forall>u. sp_ContextUsage q = Some u \<longrightarrow> Valid u) \<and>
     distinct (sp_Capabilities q) \<and> set (sp_Capabilities q) \<subseteq> known_capabilities \<and>
     sp_Phase q \<in> {ParticipantWorkPhaseWorking, ParticipantWorkPhaseThinking} \<and>
     (sp_Stage q \<noteq> [] \<longrightarrow>
        ParticipantWorkCapabilityStageV1 \<in> set (sp_Capabilities q) \<and> (sp_Stage q, sp_Phase q) \<in> stage_phases) \<and>
     (sp_Phase q = ParticipantWorkPhaseWorking \<longrightarrow> sp_Thinking q = None) \<and>
     (sp_Phase q = ParticipantWorkPhaseThinking \<longrightarrow> ParticipantWorkCapabilityThinkingStatusV1 \<in> set (sp_Capabilities q)) \<and>
     (sp_Stage q = ParticipantWorkStageThinking \<longrightarrow> (\<exists>t. sp_Thinking q = Some t \<and> TrimSpace (th_Text t) \<noteq> [])) \<and>
     (\<forall>t. sp_Thinking q = Some t \<longrightarrow> thinking_ok (sp_Stage q) t)"

lemma check_capabilities_iff:
  "check_capabilities seen cs \<longleftrightarrow> distinct cs \<and> set cs \<subseteq> known_capabilities \<and> set cs \<inter> set seen = {}"
  by (induction seen cs rule: check_capabilities.induct) (auto simp: known_capabilities_def)

lemma validStageForPhase_iff: "validStageForPhase stage phase \<longleftrightarrow> (stage, phase) \<in> stage_phases"
  by (auto simp: validStageForPhase_def stage_phases_def work_phase_defs)

lemma check_thinking_iff:
  "check_thinking q \<longleftrightarrow> ParticipantWorkCapabilityThinkingStatusV1 \<in> set (sp_Capabilities q) \<and>
     (sp_Stage q = ParticipantWorkStageThinking \<longrightarrow> (\<exists>t. sp_Thinking q = Some t \<and> TrimSpace (th_Text t) \<noteq> [])) \<and>
     (\<forall>t. sp_Thinking q = Some t \<longrightarrow> thinking_ok (sp_Stage q) t)"
  by (cases "sp_Thinking q") (auto simp: check_thinking_def thinking_ok_def not_less)

text \<open>
  C26. The status check accepts a report exactly if it satisfies the declarative conditions: known,
  distinct capabilities, a phase and a stage that fit together and are announced, and a thinking
  text only where it belongs, plain, valid and small.
\<close>

theorem validateStatusPatch_iff: "validateStatusPatch q = None \<longleftrightarrow> patch_ok q"
proof -
  have caps: "check_capabilities [] (sp_Capabilities q) \<longleftrightarrow>
      distinct (sp_Capabilities q) \<and> set (sp_Capabilities q) \<subseteq> known_capabilities"
    by (simp add: check_capabilities_iff)
  have neq: "ParticipantWorkPhaseWorking \<noteq> ParticipantWorkPhaseThinking" "ParticipantWorkStageThinking \<noteq> []"
    "(ParticipantWorkStageThinking, ParticipantWorkPhaseWorking) \<notin> stage_phases"
    by (simp_all add: stage_phases_def work_phase_defs)
  consider (working) "sp_Phase q = ParticipantWorkPhaseWorking" | (thinking) "sp_Phase q = ParticipantWorkPhaseThinking"
    | (neither) "sp_Phase q \<notin> {ParticipantWorkPhaseWorking, ParticipantWorkPhaseThinking}" by blast
  then show ?thesis
  proof cases
    case working
    with neq show ?thesis
      by (auto simp: validateStatusPatch_def patch_ok_def caps validStageForPhase_iff split: option.splits)
  next
    case thinking
    with neq show ?thesis
      by (auto simp: validateStatusPatch_def patch_ok_def caps validStageForPhase_iff check_thinking_iff split: option.splits)
  next
    case neither
    then show ?thesis by (auto simp: validateStatusPatch_def patch_ok_def)
  qed
qed

subsection \<open>How long a lease lives\<close>

lemma clampTTL_bounds: "MinTTLSeconds \<le> clampTTL v e" "clampTTL v e \<le> MaxTTLSeconds"
  by (simp_all add: clampTTL_def MinTTLSeconds_def MaxTTLSeconds_def DefaultTTLSeconds_def)

lemma sweep_active_keys:
  assumes "sweep_active now es r = (us, r')"
  shows "mget (r_activeByKey r') k =
    (if \<exists>l. (k, l) \<in> set es \<and> al_expiresAt l \<le> now then None else mget (r_activeByKey r) k)"
  using assms
proof (induction now es r arbitrary: us r' rule: sweep_active.induct)
  case (2 now key l rest r)
  show ?case
  proof (cases "al_expiresAt l > now")
    case True
    with 2 show ?thesis by auto
  next
    case False
    obtain vs where "sweep_active now rest (close_lease key l now r) = (vs, r')"
      using 2(3) False by (auto split: prod.splits)
    from 2(2) [OF False this] False show ?thesis by (auto simp: close_lease_def)
  qed
qed simp

text \<open>The janitor removes exactly the leases whose time is over.\<close>

lemma Sweep_exact:
  assumes "Sweep_locked now r = (res, us, r')" and "distinct (map fst (r_activeByKey r))"
  shows "mget (r_activeByKey r') k =
    (case mget (r_activeByKey r) k of Some l \<Rightarrow> if al_expiresAt l > now then Some l else None | None \<Rightarrow> None)"
proof -
  obtain vs r1 where s: "sweep_active now (r_activeByKey r) r = (vs, r1)" by (rule prod.exhaust)
  with assms(1) have "r_activeByKey r' = r_activeByKey r1" by (auto simp: Sweep_locked_def)
  moreover have "(k, l) \<in> set (r_activeByKey r) \<longleftrightarrow> mget (r_activeByKey r) k = Some l" for l
    using assms(2) by (simp add: map_of_eq_Some_iff)
  ultimately show ?thesis using sweep_active_keys [OF s, of k] by (auto split: option.splits)
qed

lemma StartOrRenew_stores:
  assumes "StartOrRenew_locked req l now r = (Inr u, us, r')"
  obtains lease where "mget (r_activeByKey r') (al_participantID l, TrimSpace (wl_LeaseID req)) = Some lease"
    and "al_expiresAt lease = now + clampTTL (wl_TTLSeconds req) (wl_TTLExplicit req) * Second"
  using assms by (auto simp: StartOrRenew_locked_def Let_def refuse_def split: if_splits option.splits)

text \<open>
  Whatever time to live a runtime asks for, a lease that was started or renewed at time \<open>now\<close>
  survives every sweep of the janitor in the next five seconds, and is gone after a sweep sixty
  seconds later or more if it was not renewed.
\<close>

theorem lease_lifetime:
  assumes "reachable lease_init lease_step (r, pend)" and "validate ps im canon req = Inr l"
    and "StartOrRenew_locked req l now r = (Inr u, us, r1)" and "Sweep_locked t r1 = (res, vs, r2)"
  shows "(t < now + 5 * Second \<longrightarrow> mget (r_activeByKey r2) (al_participantID l, al_leaseID l) \<noteq> None) \<and>
    (now + 60 * Second \<le> t \<longrightarrow> mget (r_activeByKey r2) (al_participantID l, al_leaseID l) = None)"
proof -
  have "reg_ok r" using lease_registry.reachable_inv [OF assms(1)] by (simp add: lease_inv_def)
  with effects_StartOrRenew [OF assms(2), of now r] assms(3) have "reg_ok r1" by (auto intro: reg_ok_effects)
  note after = Sweep_exact [OF assms(4) reg_ok_distinct [OF this], of "(al_participantID l, al_leaseID l)"]
  from StartOrRenew_stores [OF assms(3)] validate_fresh [OF assms(2)] obtain lease
    where lease: "mget (r_activeByKey r1) (al_participantID l, al_leaseID l) = Some lease"
      "al_expiresAt lease = now + clampTTL (wl_TTLSeconds req) (wl_TTLExplicit req) * Second"
    by metis
  have "5 \<le> clampTTL (wl_TTLSeconds req) (wl_TTLExplicit req)" "clampTTL (wl_TTLSeconds req) (wl_TTLExplicit req) \<le> 60"
    using clampTTL_bounds [of "wl_TTLSeconds req" "wl_TTLExplicit req"] by (simp_all add: MinTTLSeconds_def MaxTTLSeconds_def)
  then have "now + 5 * Second \<le> al_expiresAt lease" "al_expiresAt lease \<le> now + 60 * Second"
    using lease(2) by (simp_all add: Second_def)
  with after lease(1) show ?thesis by auto
qed

lemma demo_registry_reachable: "reachable lease_init lease_step (demo_registry, [])"
  by (rule reachable_init) (unfold lease_init_def demo_registry_def, blast)

theorem lease_lifetime_witness:
  "mget (r_activeByKey (snd (snd (Sweep_locked (1000 + 60 * Second) demo_started)))) (''pt-a'', ''L1'') = None \<and>
   mget (r_activeByKey (snd (snd (Sweep_locked 2000 demo_started)))) (''pt-a'', ''L1'') \<noteq> None"
proof -
  have run: "exec_lop (LStart demo_env 1000 demo_lease) demo_registry = snd (StartOrRenew_locked demo_lease demo_normalized 1000 demo_registry)"
    by code_simp
  obtain u us where "StartOrRenew_locked demo_lease demo_normalized 1000 demo_registry = (Inr u, us, demo_started)"
  proof -
    have "is_ok (fst (StartOrRenew_locked demo_lease demo_normalized 1000 demo_registry))" by code_simp
    with run that show ?thesis
      by (cases "StartOrRenew_locked demo_lease demo_normalized 1000 demo_registry") (auto simp: demo_started_def elim!: is_okE)
  qed
  note life = lease_lifetime [OF demo_registry_reachable demo_validate this]
  have ids: "al_participantID demo_normalized = ''pt-a''" "al_leaseID demo_normalized = ''L1''" by code_simp+
  have sec: "(2000::int) < 1000 + 5 * Second" by (simp add: Second_def)
  show ?thesis
    using life [of "1000 + 60 * Second"] life [of 2000] sec unfolding ids by (metis order_refl prod.collapse)
qed

subsection \<open>The outcome of a stop request\<close>

lemma fold_publish_keeps [simp]:
  "r_activeByKey (fold publish us r) = r_activeByKey r" "r_turnControls (fold publish us r) = r_turnControls r"
  by (induction us arbitrary: r) (simp_all add: publish_def)

lemma RequestStop_stores:
  assumes "RequestStop_locked req now l r = (Inr (key, resp, ref), us, r1)" and "reg_ok r"
  shows "key = (so_ParticipantID resp, so_LeaseID resp) \<and>
    (\<exists>lease. mget (r_activeByKey r1) key = Some lease \<and> al_stopRequestedAt lease = Some (so_RequestedAt resp) \<and>
       al_stopState lease = ParticipantWorkStopStateRequested) \<and>
    (\<forall>k. k \<noteq> key \<longrightarrow> mget (r_activeByKey r1) k = mget (r_activeByKey r) k)"
proof -
  let ?key = "(al_participantID l, TrimSpace (sr_LeaseID req))"
  from assms(1) obtain lease where lease: "mget (r_activeByKey r) ?key = Some lease"
    by (auto simp: RequestStop_locked_def Let_def missing_lease_def refuse_def split: option.splits)
  have "?key = (al_participantID lease, al_leaseID lease)" "lease_ok lease"
    using reg_ok_active [OF assms(2) lease] by blast+
  with assms(1) lease show ?thesis
    by (auto simp: RequestStop_locked_def Let_def refuse_def stop_response_def lease_ok_def
        split: if_splits option.splits)
qed

lemma recordTurnControlFailure_stores:
  assumes "mget (r_activeByKey r) key = Some lease" and "al_stopRequestedAt lease = Some t"
    and "recordTurnControlFailure key t cause r = (res, us, r')"
  shows "\<exists>lease'. mget (r_activeByKey r') key = Some lease' \<and> al_stopRequestedAt lease' = Some t \<and>
    al_stopState lease' = (case res of Inl (ErrTurnControlTimedOut _) \<Rightarrow> ParticipantWorkStopStateTimedOut | _ \<Rightarrow> ParticipantWorkStopStateFailed) \<and>
    (\<forall>k. k \<noteq> key \<longrightarrow> mget (r_activeByKey r') k = mget (r_activeByKey r) k)"
  using assms by (auto simp: recordTurnControlFailure_def Let_def split: if_splits)

text \<open>
  A stop request that is accepted leaves its trace on exactly the lease it names, whatever the
  runtime controllers and the control bus do: the lease carries the time of the request, and its
  stop state is \<open>requested\<close> if the delivery worked, and otherwise the failure or the timeout that the
  caller was told; every other lease is unchanged.
\<close>

theorem stop_request_recorded:
  assumes "reachable lease_init lease_step (r, pend)"
    and "LeaseRequestStop env call cancel now stopNow p req r = ((Some resp, err), r')"
  shows "\<exists>lease. mget (r_activeByKey r') (so_ParticipantID resp, so_LeaseID resp) = Some lease \<and>
      al_stopRequestedAt lease = Some (so_RequestedAt resp) \<and>
      al_stopState lease = (case err of None \<Rightarrow> ParticipantWorkStopStateRequested
        | Some (ErrTurnControlTimedOut _) \<Rightarrow> ParticipantWorkStopStateTimedOut | Some _ \<Rightarrow> ParticipantWorkStopStateFailed) \<and>
      (\<forall>k. k \<noteq> (so_ParticipantID resp, so_LeaseID resp) \<longrightarrow> mget (r_activeByKey r') k = mget (r_activeByKey r) k)"
proof -
  have ok: "reg_ok r" using lease_registry.reachable_inv [OF assms(1)] by (simp add: lease_inv_def)
  obtain res us r1 where sec: "RequestStop_section env now p req r = (res, us, r1)" by (rule prod_cases3)
  with assms(2) obtain key ref where res: "res = Inr (key, resp, ref)"
    by (auto simp: LeaseRequestStop_def run_locked_def split: sum.splits prod.splits option.splits)
  from sec res obtain l where "RequestStop_locked req now l r = (Inr (key, resp, ref), us, r1)"
    by (auto simp: RequestStop_section_def with_services_def refuse_def split: option.splits sum.splits)
  from RequestStop_stores [OF this ok] obtain lease where key: "key = (so_ParticipantID resp, so_LeaseID resp)"
    and lease: "mget (r_activeByKey r1) key = Some lease" "al_stopRequestedAt lease = Some (so_RequestedAt resp)"
      "al_stopState lease = ParticipantWorkStopStateRequested"
    and others: "\<And>k. k \<noteq> key \<Longrightarrow> mget (r_activeByKey r1) k = mget (r_activeByKey r) k"
    by blast
  let ?r2 = "fold publish us r1"
  obtain cause r3 where stop: "(case r_turnControls ?r2 of None \<Rightarrow> (Some ErrTurnControlUnavailable, ?r2)
      | Some d \<Rightarrow> (case StopTurn call cancel stopNow ref d (r_controlBus ?r2) of (e, bus) \<Rightarrow> (e, ?r2\<lparr>r_controlBus := bus\<rparr>))) = (cause, r3)"
    by (rule prod.exhaust)
  then have r3: "r_activeByKey r3 = r_activeByKey r1" by (auto split: option.splits prod.splits)
  show ?thesis
  proof (cases cause)
    case None
    with assms(2) sec res stop have "err = None" "r' = r3"
      by (auto simp: LeaseRequestStop_def run_locked_def)
    with r3 lease others key show ?thesis by simp
  next
    case (Some e)
    obtain res4 us4 r4 where f: "recordTurnControlFailure key (so_RequestedAt resp) e r3 = (res4, us4, r4)"
      by (rule prod_cases3)
    then have "\<exists>e. res4 = Inl e" by (auto simp: recordTurnControlFailure_def Let_def split: option.splits if_splits)
    with assms(2) sec res stop Some f have "r' = fold publish us4 r4" "res4 = (case err of Some e \<Rightarrow> Inl e | None \<Rightarrow> Inr ())"
      by (auto simp: LeaseRequestStop_def run_locked_def)
    moreover from \<open>\<exists>e. res4 = Inl e\<close> this(2) obtain e' where "err = Some e'" by (auto split: option.splits)
    ultimately show ?thesis
      using recordTurnControlFailure_stores [OF _ lease(2) f] lease(1) r3 others key by auto
  qed
qed

definition demo_stop :: ParticipantWorkStopRequest where
  "demo_stop = \<lparr>sr_RoomID = ''r1'', sr_LeaseID = ''L1'', sr_RequestID = ''q1''\<rparr>"

definition demo_reported :: Registry where
  "demo_reported = snd (exec_lop (LStatus demo_env 2500 ''pt-a'' ''L1'' demo_patch) demo_started)"

lemma demo_reported_reachable: "\<exists>pend. reachable lease_init lease_step (demo_reported, pend)"
proof -
  obtain pend where "reachable lease_init lease_step (demo_started, pend)" using demo_started_reachable ..
  moreover have "lease_step (demo_started, pend) (Section (LStatus demo_env 2500 ''pt-a'' ''L1'' demo_patch))
      (demo_reported, pend @ fst (exec_lop (LStatus demo_env 2500 ''pt-a'' ''L1'' demo_patch) demo_started))"
    by (rule step_section) (simp add: demo_reported_def del: exec_lop.simps)
  ultimately show ?thesis by (meson reachable_step)
qed

theorem stop_request_recorded_witness:
  "\<exists>resp r' lease. LeaseRequestStop demo_env (\<lambda>_ _. None) (\<lambda>_. None) 3000 3000 ''pt-a'' demo_stop demo_reported =
      ((Some resp, Some (ErrTurnControlFailed ErrTurnControlUnavailable)), r') \<and>
     mget (r_activeByKey r') (''pt-a'', ''L1'') = Some lease \<and> al_stopState lease = ParticipantWorkStopStateFailed"
proof -
  let ?run = "LeaseRequestStop demo_env (\<lambda>_ _. None) (\<lambda>_. None) 3000 3000 ''pt-a'' demo_stop demo_reported"
  have "map_option (\<lambda>resp. (so_ParticipantID resp, so_LeaseID resp)) (fst (fst ?run)) = Some (''pt-a'', ''L1'') \<and>
      snd (fst ?run) = Some (ErrTurnControlFailed ErrTurnControlUnavailable)" by code_simp
  then obtain resp r' where run: "?run = ((Some resp, Some (ErrTurnControlFailed ErrTurnControlUnavailable)), r')"
    and ids: "so_ParticipantID resp = ''pt-a''" "so_LeaseID resp = ''L1''"
    by (cases ?run) (auto simp: prod_eq_iff)
  obtain pend where "reachable lease_init lease_step (demo_reported, pend)" using demo_reported_reachable ..
  from stop_request_recorded [OF this run] ids run show ?thesis by auto
qed

subsection \<open>What a subscriber sees\<close>

datatype bop = BSubscribe | BUnsubscribe int | BPublish Event | BReceive int

fun published :: "bop list \<Rightarrow> Event list" where
  "published [] = []"
| "published (BPublish e # ops) = e # published ops"
| "published (_ # ops) = published ops"

text \<open>The events that subscriber \<open>i\<close> receives in a run, and the bus after it.\<close>

fun bus_run :: "int \<Rightarrow> bop list \<Rightarrow> Bus \<Rightarrow> Event list \<times> Bus" where
  "bus_run i [] b = ([], b)"
| "bus_run i (BSubscribe # ops) b = bus_run i ops (snd (Subscribe b))"
| "bus_run i (BUnsubscribe j # ops) b = bus_run i ops (Unsubscribe j b)"
| "bus_run i (BPublish e # ops) b = bus_run i ops (Publish e b)"
| "bus_run i (BReceive j # ops) b =
     (case Receive j b of (got, b') \<Rightarrow>
        (case bus_run i ops b' of (seen, b'') \<Rightarrow> ((case got of Some e \<Rightarrow> if j = i then [e] else [] | None \<Rightarrow> []) @ seen, b'')))"

lemma mgets_Publish:
  "mgets (b_subscribers (Publish e b)) i =
     (if mget (b_subscribers b) i = None then [] else try_send bus_capacity e (mgets (b_subscribers b) i))"
proof -
  have "mget (map (\<lambda>(i, ch). (i, try_send bus_capacity e ch)) m) i = map_option (try_send bus_capacity e) (mget m i)" for m
    by (induction m) auto
  then show ?thesis by (auto simp: mgets_def Publish_def split: option.splits)
qed

lemma mget_Publish: "mget (b_subscribers (Publish e b)) i = None \<longleftrightarrow> mget (b_subscribers b) i = None"
  by (auto simp: Publish_def mget_None_key image_iff)

definition subscribed :: "int \<Rightarrow> Bus \<Rightarrow> bool" where
  "subscribed i b \<longleftrightarrow> mget (b_subscribers b) i \<noteq> None \<and> length (mgets (b_subscribers b) i) \<le> bus_capacity"

lemma bus_run_subseq:
  assumes "bus_run i ops b = (seen, b')" and "subscribed i b" and "BUnsubscribe i \<notin> set ops"
    and "0 \<le> i" and "i < b_nextID b" and "b_nextID b + int (length ops) \<le> int64_max"
  shows "subseq (seen @ mgets (b_subscribers b') i) (mgets (b_subscribers b) i @ published ops) \<and> subscribed i b' \<and>
    (length (mgets (b_subscribers b) i) + length (published ops) \<le> bus_capacity \<longrightarrow>
       seen @ mgets (b_subscribers b') i = mgets (b_subscribers b) i @ published ops)"
  using assms
proof (induction i ops b arbitrary: seen b' rule: bus_run.induct)
  case (1 i b)
  then show ?case by simp
next
  case (2 i ops b)
  have "wrap64 (b_nextID b + 1) = b_nextID b + 1" using 2(5-7) by (intro wrap64_id) auto
  with 2 show ?case by (auto simp: Subscribe_def subscribed_def)
next
  case (3 i j ops b)
  then show ?case by (auto simp: Unsubscribe_def subscribed_def)
next
  case (4 i e ops b)
  let ?ch = "mgets (b_subscribers b) i"
  have sub: "subscribed i (Publish e b)" and ch: "mgets (b_subscribers (Publish e b)) i = try_send bus_capacity e ?ch"
    using 4(3) mget_Publish [of e b i] mgets_Publish [of e b i] by (auto simp: subscribed_def try_send_def)
  have "b_nextID (Publish e b) = b_nextID b" by (simp add: Publish_def)
  with 4 sub have IH: "subseq (seen @ mgets (b_subscribers b') i) (try_send bus_capacity e ?ch @ published ops)" "subscribed i b'"
    "length (try_send bus_capacity e ?ch) + length (published ops) \<le> bus_capacity \<longrightarrow>
       seen @ mgets (b_subscribers b') i = try_send bus_capacity e ?ch @ published ops"
    by (auto simp: ch)
  have "subseq (try_send bus_capacity e ?ch @ published ops) (?ch @ e # published ops)"
    by (auto simp: try_send_def intro: list_emb_append_mono)
  with IH show ?case by (auto simp: try_send_def intro: subseq_order.trans)
next
  case (5 i j ops b)
  obtain got b1 where r: "Receive j b = (got, b1)" by (rule prod.exhaust)
  obtain seen1 where s: "bus_run i ops b1 = (seen1, b')"
    and seen: "seen = (case got of Some e \<Rightarrow> if j = i then [e] else [] | None \<Rightarrow> []) @ seen1"
    using 5(2) r by (auto split: prod.splits)
  have b1: "subscribed i b1" "b_nextID b1 = b_nextID b"
    "(case got of Some e \<Rightarrow> if j = i then [e] else [] | None \<Rightarrow> []) @ mgets (b_subscribers b1) i = mgets (b_subscribers b) i"
    using r 5(3) by (auto simp: Receive_def subscribed_def split: list.splits)
  have IH: "subseq (seen1 @ mgets (b_subscribers b') i) (mgets (b_subscribers b1) i @ published ops)" "subscribed i b'"
    "length (mgets (b_subscribers b1) i) + length (published ops) \<le> bus_capacity \<longrightarrow>
       seen1 @ mgets (b_subscribers b') i = mgets (b_subscribers b1) i @ published ops"
    using "5.IH" [OF r [symmetric] s b1(1)] 5(4-7) b1(2) by auto
  show ?case unfolding seen b1(3) [symmetric] using IH
    by (auto split: option.splits)
qed

text \<open>
  C27. Between subscribing and cancelling, what a subscriber has received and what waits in its
  channel is, in this order, a subsequence of what was published since it subscribed; at most 32
  events wait; and nothing is lost while no more than 32 were published.
\<close>

theorem bus_fifo:
  assumes "Subscribe b = (i, b0)" and "bus_run i ops b0 = (seen, b')" and "BUnsubscribe i \<notin> set ops"
    and "0 \<le> b_nextID b" and "b_nextID b + int (length ops) < int64_max"
  shows "subseq (seen @ mgets (b_subscribers b') i) (published ops) \<and> length (mgets (b_subscribers b') i) \<le> 32 \<and>
    (length (published ops) \<le> 32 \<longrightarrow> seen @ mgets (b_subscribers b') i = published ops)"
proof -
  have "wrap64 (b_nextID b + 1) = b_nextID b + 1" using assms(4,5) by (intro wrap64_id) auto
  with assms(1) have b0: "i = b_nextID b" "b_nextID b0 = b_nextID b + 1" "mgets (b_subscribers b0) i = []" "subscribed i b0"
    by (auto simp: Subscribe_def subscribed_def)
  from bus_run_subseq [OF assms(2) b0(4) assms(3)] b0(1-3) assms(4,5) show ?thesis
    by (simp add: subscribed_def bus_capacity_def)
qed

definition demo_event :: "string \<Rightarrow> Event" where
  "demo_event room = \<lparr>ev_Type = EventTypeParticipantWorkUpdated, ev_RoomID = room,
     ev_Work = updateFor demo_registry demo_normalized [] []\<rparr>"

theorem bus_fifo_witness:
  "fst (bus_run 0 [BPublish (demo_event ''a''), BSubscribe, BReceive 0, BPublish (demo_event ''b'')] (snd (Subscribe NewBus))) =
     [demo_event ''a''] \<and>
   mgets (b_subscribers (snd (bus_run 0 [BPublish (demo_event ''a''), BSubscribe, BReceive 0, BPublish (demo_event ''b'')] (snd (Subscribe NewBus))))) 0 =
     [demo_event ''b'']"
proof -
  let ?ops = "[BPublish (demo_event ''a''), BSubscribe, BReceive 0, BPublish (demo_event ''b'')]"
  obtain seen b' where run: "bus_run 0 ?ops (snd (Subscribe NewBus)) = (seen, b')" by (rule prod.exhaust)
  have "Subscribe NewBus = (0, snd (Subscribe NewBus))" by (simp add: Subscribe_def NewBus_def)
  from bus_fifo [OF this run] have "seen @ mgets (b_subscribers b') 0 = [demo_event ''a'', demo_event ''b'']"
    by (simp add: NewBus_def)
  moreover have "length (fst (bus_run 0 ?ops (snd (Subscribe NewBus)))) = 1" by code_simp
  ultimately show ?thesis using run by (auto simp: length_Suc_conv)
qed

end
