(* ===== verification/Lifecycle.thy ===== *)
theory Lifecycle
  imports Prelude
begin

section \<open>The lifecycle coordinator (\<open>internal/agentengine/lifecycle/coordinator.go\<close>)\<close>

text \<open>
  Executions of an agent share a gate; a mutation of the agent takes the gate's token, closes it to
  new executions, waits until the running ones have drained, and holds it. The channel \<open>token\<close> with
  one slot is a boolean. A channel \<open>drained\<close> is a number, and \<open>co_closed\<close> are the numbers of the
  closed ones, because a mutation waits on the channel that it read when it closed the gate.

  Closing a closed channel panics and sending to a full one blocks for ever: the functions that do
  so return \<^const>\<open>None\<close> there, and the properties show that this does not happen. Cancellation of a
  context and the drain timeout may come at any time and are arguments. A receiver is never nil.
\<close>

record gate =
  g_token :: bool
  g_closed :: bool
  g_active :: int
  g_drained :: nat

record Coordinator =
  co_gates :: "(string, gate) gomap"
  co_closed :: "nat list"
  co_next :: nat

definition zero_coordinator :: Coordinator where
  "zero_coordinator = \<lparr>co_gates = [], co_closed = [], co_next = 0\<rparr>"

datatype lc_error = ContextDone | AgentRequired | ChangeInProgress string | DrainFailed string | MutationRequired

text \<open>\<open>gate\<close>: the gate of an agent, created with its token and a closed channel when it is first used.\<close>

definition gate_of :: "string \<Rightarrow> Coordinator \<Rightarrow> gate \<times> Coordinator" where
  "gate_of i c =
     (case mget (co_gates c) i of
        Some g \<Rightarrow> (g, c)
      | None \<Rightarrow>
          let g = \<lparr>g_token = True, g_closed = False, g_active = 0, g_drained = co_next c\<rparr> in
          (g, \<lparr>co_gates = mput i g (co_gates c), co_closed = co_next c # co_closed c, co_next = Suc (co_next c)\<rparr>))"

definition set_gate :: "string \<Rightarrow> gate \<Rightarrow> Coordinator \<Rightarrow> Coordinator" where
  "set_gate i g c = c\<lparr>co_gates := mput i g (co_gates c)\<rparr>"

subsection \<open>Executions\<close>

text \<open>The result of an admission is the agent whose slot is pinned; the idempotent release uses it once.\<close>

definition Execution :: "bool \<Rightarrow> string \<Rightarrow> (Coordinator, lc_error, string) sm" where
  "Execution ctxDone i c =
     (if ctxDone then (Inl ContextDone, c)
      else
        let i = TrimSpace i in
        if i = [] then (Inl AgentRequired, c)
        else case gate_of i c of
          (g, c) \<Rightarrow>
            if g_closed g then (Inl (ChangeInProgress i), c)
            else
              let c = (if g_active g = 0 then c\<lparr>co_next := Suc (co_next c)\<rparr> else c);
                  g = (if g_active g = 0 then g\<lparr>g_drained := co_next c - 1\<rparr> else g) in
              (Inr i, set_gate i (g\<lparr>g_active := g_active g + 1\<rparr>) c))"

definition release_execution :: "string \<Rightarrow> Coordinator \<Rightarrow> Coordinator option" where
  "release_execution i c =
     (case gate_of i c of
        (g, c) \<Rightarrow>
          let g = g\<lparr>g_active := g_active g - 1\<rparr>; c = set_gate i g c in
          if g_active g = 0 then
            (if g_drained g \<in> set (co_closed c) then None
             else Some (c\<lparr>co_closed := g_drained g # co_closed c\<rparr>))
          else Some c)"

subsection \<open>Mutations\<close>

text \<open>
  The checks before waiting. \<open>held\<close> are the agents whose mutation by this coordinator the context
  carries; the result says whether the agent is one of them, in which case nothing is taken.
\<close>

definition mutation_start :: "bool \<Rightarrow> string list \<Rightarrow> string \<Rightarrow> lc_error + (string \<times> bool)" where
  "mutation_start ctxDone held i =
     (let i = TrimSpace i in
      if i = [] then Inl AgentRequired
      else if ctxDone then Inl ContextDone
      else Inr (i, i \<in> set held))"

text \<open>Receiving the token; \<^const>\<open>None\<close> while another mutation has it.\<close>

definition take_token :: "string \<Rightarrow> Coordinator \<Rightarrow> Coordinator option" where
  "take_token i c =
     (case gate_of i c of (g, c) \<Rightarrow> if g_token g then Some (set_gate i (g\<lparr>g_token := False\<rparr>) c) else None)"

definition close_gate :: "string \<Rightarrow> Coordinator \<Rightarrow> nat \<times> Coordinator" where
  "close_gate i c =
     (case gate_of i c of (g, c) \<Rightarrow> (g_drained g, set_gate i (g\<lparr>g_closed := True\<rparr>) c))"

text \<open>The release of a mutation in its two steps: opening the gate, and giving the token back.\<close>

definition open_gate :: "string \<Rightarrow> Coordinator \<Rightarrow> Coordinator" where
  "open_gate i c = (case gate_of i c of (g, c) \<Rightarrow> set_gate i (g\<lparr>g_closed := False\<rparr>) c)"

definition return_token :: "string \<Rightarrow> Coordinator \<Rightarrow> Coordinator option" where
  "return_token i c =
     (case gate_of i c of (g, c) \<Rightarrow> if g_token g then None else Some (set_gate i (g\<lparr>g_token := True\<rparr>) c))"

definition release_mutation :: "string \<Rightarrow> Coordinator \<Rightarrow> Coordinator option" where
  "release_mutation i c = return_token i (open_gate i c)"

text \<open>
  One call of \<open>MutationInterrupt\<close>. \<open>waiting\<close> is what others do to the coordinator while it waits for the
  token, \<open>draining\<close> what the interrupt and others do while it drains; \<open>cancelled\<close> and \<open>timedOut\<close> are whether
  the selects take the branch of the context. \<^const>\<open>None\<close> means that the call does not return. The result
  is the agent held with \<open>True\<close> if a release is due, \<open>False\<close> for a reentrant call.
\<close>

definition MutationInterrupt ::
  "bool \<Rightarrow> string list \<Rightarrow> (Coordinator \<Rightarrow> Coordinator) \<Rightarrow> bool \<Rightarrow> (Coordinator \<Rightarrow> Coordinator) \<Rightarrow> bool \<Rightarrow> string \<Rightarrow>
     Coordinator \<Rightarrow> ((lc_error + (string \<times> bool)) \<times> Coordinator) option" where
  "MutationInterrupt ctxDone held waiting cancelled draining timedOut i c =
     (case mutation_start ctxDone held i of
        Inl e \<Rightarrow> Some (Inl e, c)
      | Inr (i, reentrant) \<Rightarrow>
          if reentrant then Some (Inr (i, False), c)
          else
            let c = waiting (snd (gate_of i c)) in
            if cancelled then Some (Inl ContextDone, c)
            else case take_token i c of
              None \<Rightarrow> None
            | Some c \<Rightarrow>
                (case close_gate i c of
                   (chan, c) \<Rightarrow>
                     let c = draining c in
                     if timedOut then map_option (\<lambda>c. (Inl (DrainFailed i), c)) (release_mutation i c)
                     else if chan \<in> set (co_closed c) then Some (Inr (i, True), c)
                     else None))"

text \<open>\<open>Mutate\<close> with the function it runs, which gets the agents held by its context.\<close>

definition LcMutate ::
  "bool \<Rightarrow> string list \<Rightarrow> (Coordinator \<Rightarrow> Coordinator) \<Rightarrow> bool \<Rightarrow> (Coordinator \<Rightarrow> Coordinator) \<Rightarrow> bool \<Rightarrow> string \<Rightarrow>
     (string list \<Rightarrow> Coordinator \<Rightarrow> lc_error option \<times> Coordinator) option \<Rightarrow> Coordinator \<Rightarrow> (lc_error option \<times> Coordinator) option" where
  "LcMutate ctxDone held waiting cancelled draining timedOut i fn c =
     (case fn of
        None \<Rightarrow> Some (Some MutationRequired, c)
      | Some f \<Rightarrow>
          (case MutationInterrupt ctxDone held waiting cancelled draining timedOut i c of
             None \<Rightarrow> None
           | Some (Inl e, c) \<Rightarrow> Some (Some e, c)
           | Some (Inr (i, due), c) \<Rightarrow>
               (case f (if due then i # held else held) c of
                  (err, c) \<Rightarrow> if due then map_option (\<lambda>c. (err, c)) (release_mutation i c) else Some (err, c))))"

subsection \<open>Concurrent runs\<close>

text \<open>
  A run has the executions admitted and not yet released, by agent, and the mutations under way, each
  in one of its phases: it has the token, it has closed the gate and drains on a channel, it holds
  the agent, it has opened the gate again and is about to return the token.
\<close>

datatype lc_mutation = HasToken string | Draining string nat | Holding string | Reopened string

fun mut_agent :: "lc_mutation \<Rightarrow> string" where
  "mut_agent (HasToken i) = i"
| "mut_agent (Draining i ch) = i"
| "mut_agent (Holding i) = i"
| "mut_agent (Reopened i) = i"

fun mut_closed :: "lc_mutation \<Rightarrow> bool" where
  "mut_closed (Draining i ch) = True"
| "mut_closed (Holding i) = True"
| "mut_closed _ = False"

type_synonym lc_state = "Coordinator \<times> string list \<times> lc_mutation list"

datatype lc_act = Admit bool string | Release string | Acquire string | Close string | Drained string | Reopen string | Return string

inductive lc_step :: "lc_state \<Rightarrow> lc_act \<Rightarrow> lc_state \<Rightarrow> bool" where
  lc_admit: "Execution ctxDone i c = (Inr h, c') \<Longrightarrow> lc_step (c, hs, ms) (Admit ctxDone i) (c', h # hs, ms)"
| lc_refuse: "Execution ctxDone i c = (Inl e, c') \<Longrightarrow> lc_step (c, hs, ms) (Admit ctxDone i) (c', hs, ms)"
| lc_release: "release_execution h c = Some c' \<Longrightarrow> lc_step (c, xs @ h # ys, ms) (Release h) (c', xs @ ys, ms)"
| lc_acquire: "take_token i c = Some c' \<Longrightarrow> lc_step (c, hs, ms) (Acquire i) (c', hs, HasToken i # ms)"
| lc_close: "close_gate i c = (ch, c') \<Longrightarrow> lc_step (c, hs, xs @ HasToken i # ys) (Close i) (c', hs, xs @ Draining i ch # ys)"
| lc_drained: "ch \<in> set (co_closed c) \<Longrightarrow> lc_step (c, hs, xs @ Draining i ch # ys) (Drained i) (c, hs, xs @ Holding i # ys)"
| lc_timeout: "lc_step (c, hs, xs @ Draining i ch # ys) (Reopen i) (open_gate i c, hs, xs @ Reopened i # ys)"
| lc_reopen: "lc_step (c, hs, xs @ Holding i # ys) (Reopen i) (open_gate i c, hs, xs @ Reopened i # ys)"
| lc_return: "return_token i c = Some c' \<Longrightarrow> lc_step (c, hs, xs @ Reopened i # ys) (Return i) (c', hs, xs @ ys)"

definition lc_init :: "lc_state \<Rightarrow> bool" where
  "lc_init x \<longleftrightarrow> x = (zero_coordinator, [], [])"

end
