(* ===== verification/LifecycleProps.thy ===== *)
theory LifecycleProps
  imports Lifecycle
begin

section \<open>Exclusion, progress and refinement of the lifecycle coordinator\<close>

text \<open>
  The invariant ties each gate to the executions and mutations under way. It gives exclusion and
  progress, and that the coordinator refines, agent by agent, a readers-writer lock that closes to
  new readers before it drains.
\<close>

declare map_of_eq_Some_iff [simp del] Some_eq_map_of_iff [simp del]

subsection \<open>The invariant\<close>

definition gate_ok :: "Coordinator \<Rightarrow> string list \<Rightarrow> lc_mutation list \<Rightarrow> string \<Rightarrow> gate \<Rightarrow> bool" where
  "gate_ok c hs ms i g \<longleftrightarrow>
     g_active g = int (count_list hs i) \<and>
     (g_token g \<longleftrightarrow> (\<forall>m \<in> set ms. mut_agent m \<noteq> i)) \<and>
     (g_closed g \<longleftrightarrow> (\<exists>m \<in> set ms. mut_agent m = i \<and> mut_closed m)) \<and>
     (g_drained g \<in> set (co_closed c) \<longleftrightarrow> g_active g = 0) \<and>
     (\<forall>ch. Draining i ch \<in> set ms \<longrightarrow> ch = g_drained g) \<and>
     (Holding i \<in> set ms \<longrightarrow> g_active g = 0)"

lemma gate_ok_closed: "gate_ok c hs ms i g \<Longrightarrow> m \<in> set ms \<Longrightarrow> mut_agent m = i \<Longrightarrow> mut_closed m \<Longrightarrow> g_closed g"
  unfolding gate_ok_def by blast

lemma gate_ok_drained: "gate_ok c hs ms i g \<Longrightarrow> Draining i ch \<in> set ms \<Longrightarrow> ch \<in> set (co_closed c) \<Longrightarrow> g_active g = 0"
  unfolding gate_ok_def by blast

definition chans_ok :: "Coordinator \<Rightarrow> bool" where
  "chans_ok c \<longleftrightarrow> (\<forall>ch \<in> set (co_closed c). ch < co_next c) \<and>
     (\<forall>i g. mget (co_gates c) i = Some g \<longrightarrow> g_drained g < co_next c) \<and>
     (\<forall>i j g g'. mget (co_gates c) i = Some g \<longrightarrow> mget (co_gates c) j = Some g' \<longrightarrow> g_drained g = g_drained g' \<longrightarrow> i = j)"

fun lc_inv :: "lc_state \<Rightarrow> bool" where
  "lc_inv (c, hs, ms) \<longleftrightarrow> distinct (map mut_agent ms) \<and> chans_ok c \<and>
     (\<forall>i. case mget (co_gates c) i of
        Some g \<Rightarrow> gate_ok c hs ms i g
      | None \<Rightarrow> i \<notin> set hs \<and> (\<forall>m \<in> set ms. mut_agent m \<noteq> i))"

lemma lc_invD:
  assumes "lc_inv (c, hs, ms)"
  shows "mget (co_gates c) i = Some g \<Longrightarrow> gate_ok c hs ms i g"
    and "mget (co_gates c) i = None \<Longrightarrow> i \<notin> set hs \<and> (\<forall>m \<in> set ms. mut_agent m \<noteq> i)"
proof -
  from assms have "case mget (co_gates c) i of Some g \<Rightarrow> gate_ok c hs ms i g
      | None \<Rightarrow> i \<notin> set hs \<and> (\<forall>m \<in> set ms. mut_agent m \<noteq> i)" by simp
  then show "mget (co_gates c) i = Some g \<Longrightarrow> gate_ok c hs ms i g"
    "mget (co_gates c) i = None \<Longrightarrow> i \<notin> set hs \<and> (\<forall>m \<in> set ms. mut_agent m \<noteq> i)" by simp_all
qed

lemma lc_invI:
  assumes "distinct (map mut_agent ms)" and "chans_ok c" and "\<And>i g. mget (co_gates c) i = Some g \<Longrightarrow> gate_ok c hs ms i g"
    and "\<And>i. mget (co_gates c) i = None \<Longrightarrow> i \<notin> set hs \<and> (\<forall>m \<in> set ms. mut_agent m \<noteq> i)"
  shows "lc_inv (c, hs, ms)"
  using assms by (auto split: option.split)

declare lc_inv.simps [simp del]

lemma lc_inv_distinct: "lc_inv (c, hs, ms) \<Longrightarrow> distinct (map mut_agent ms)" "lc_inv (c, hs, ms) \<Longrightarrow> chans_ok c"
  by (simp_all add: lc_inv.simps)

lemma lc_inv_gate:
  assumes "lc_inv (c, hs, ms)" and "gate_of i c = (g, c')"
  shows "lc_inv (c', hs, ms) \<and> mget (co_gates c') i = Some g \<and> (\<forall>j. j \<noteq> i \<longrightarrow> mget (co_gates c') j = mget (co_gates c) j)"
proof (cases "mget (co_gates c) i")
  case (Some g')
  with assms show ?thesis by (auto simp: gate_of_def)
next
  case None
  with assms(2) have c': "g = \<lparr>g_token = True, g_closed = False, g_active = 0, g_drained = co_next c\<rparr>"
    "c' = \<lparr>co_gates = mput i g (co_gates c), co_closed = co_next c # co_closed c, co_next = Suc (co_next c)\<rparr>"
    by (auto simp: gate_of_def Let_def)
  have i: "i \<notin> set hs" "\<forall>m \<in> set ms. mut_agent m \<noteq> i" and ch: "chans_ok c"
    using lc_invD(2) [OF assms(1) None] lc_inv_distinct [OF assms(1)] by blast+
  have gates: "gate_ok c hs ms j h" "g_drained h < co_next c" if "mget (co_gates c) j = Some h" for j h
    using lc_invD(1) [OF assms(1) that] that ch by (auto simp: chans_ok_def)
  have "gate_ok c' hs ms i g"
    using i by (force simp: gate_ok_def c' count_list_0_iff)
  moreover have "gate_ok c' hs ms j h" if "mget (co_gates c) j = Some h" for j h
    using gates [OF that] by (auto simp: gate_ok_def c')
  moreover have "chans_ok c'"
    using ch unfolding chans_ok_def c' by (auto simp: less_Suc_eq) (metis less_irrefl)+
  ultimately have "lc_inv (c', hs, ms)"
    using i lc_inv_distinct(1) [OF assms(1)] lc_invD(2) [OF assms(1)]
    by (intro lc_invI) (auto simp: c'(2) split: if_splits)
  then show ?thesis by (simp add: c'(2))
qed

text \<open>
  A change of one gate, of the closed channels and of the lists keeps the invariant if it keeps it
  for that gate and does not concern the others.
\<close>

definition others_kept :: "string \<Rightarrow> 'a list \<Rightarrow> ('a \<Rightarrow> string) \<Rightarrow> 'a list \<Rightarrow> bool" where
  "others_kept i xs f ys \<longleftrightarrow> filter (\<lambda>x. f x \<noteq> i) xs = filter (\<lambda>x. f x \<noteq> i) ys"

lemma others_kept_mem:
  assumes "others_kept i xs f ys" and "f x \<noteq> i"
  shows "x \<in> set xs \<longleftrightarrow> x \<in> set ys"
proof -
  have "x \<in> set zs \<longleftrightarrow> x \<in> set (filter (\<lambda>x. f x \<noteq> i) zs)" for zs using assms(2) by simp
  then show ?thesis using assms(1) unfolding others_kept_def by metis
qed

lemma others_kept_count: "others_kept i xs id ys \<Longrightarrow> j \<noteq> i \<Longrightarrow> count_list xs j = count_list ys j"
proof -
  assume "others_kept i xs id ys" and "j \<noteq> i"
  moreover have "count_list (filter (\<lambda>x. x \<noteq> i) zs) j = count_list zs j" for zs
    using \<open>j \<noteq> i\<close> by (induction zs) auto
  ultimately show ?thesis unfolding others_kept_def id_def by metis
qed

lemma gate_ok_other:
  assumes "gate_ok c hs ms j g" and "j \<noteq> i" and "others_kept i hs id hs'" and "others_kept i ms mut_agent ms'"
    and "g_drained g \<in> set (co_closed c') \<longleftrightarrow> g_drained g \<in> set (co_closed c)"
  shows "gate_ok c' hs' ms' j g"
proof -
  have m: "m \<in> set ms \<longleftrightarrow> m \<in> set ms'" if "mut_agent m = j" for m
    using others_kept_mem [OF assms(4)] that assms(2) by auto
  have "(\<forall>m \<in> set ms. mut_agent m \<noteq> j) \<longleftrightarrow> (\<forall>m \<in> set ms'. mut_agent m \<noteq> j)"
    "(\<exists>m \<in> set ms. mut_agent m = j \<and> mut_closed m) \<longleftrightarrow> (\<exists>m \<in> set ms'. mut_agent m = j \<and> mut_closed m)"
    using m by blast+
  moreover have "Draining j ch \<in> set ms \<longleftrightarrow> Draining j ch \<in> set ms'" "Holding j \<in> set ms \<longleftrightarrow> Holding j \<in> set ms'" for ch
    using m [of "Draining j ch"] m [of "Holding j"] by simp_all
  ultimately show ?thesis
    using assms(1,5) others_kept_count [OF assms(3,2)] unfolding gate_ok_def by auto
qed

lemma lc_inv_update:
  assumes inv: "lc_inv (c, hs, ms)" and g: "mget (co_gates c) i = Some g"
    and new: "gate_ok c' hs' ms' i g'" and "distinct (map mut_agent ms')"
    and c': "co_gates c' = mput i g' (co_gates c)" "co_next c \<le> co_next c'"
    and kept: "others_kept i hs id hs'" "others_kept i ms mut_agent ms'"
    and chan: "g_drained g' = g_drained g \<or> g_drained g' = co_next c \<and> co_next c < co_next c'"
    and closed: "set (co_closed c') = set (co_closed c) \<or> set (co_closed c') = insert (g_drained g) (set (co_closed c))"
  shows "lc_inv (c', hs', ms')"
proof -
  note ch = lc_inv_distinct(2) [OF inv] and old = lc_invD(1) [OF inv] and absent = lc_invD(2) [OF inv]
  have "chans_ok c'"
    using ch g chan closed c' unfolding chans_ok_def by (auto; fastforce)
  moreover have "gate_ok c' hs' ms' j h" if "j \<noteq> i" "mget (co_gates c) j = Some h" for j h
  proof -
    have "g_drained h \<noteq> g_drained g" using ch g that unfolding chans_ok_def by blast
    with closed have "g_drained h \<in> set (co_closed c') \<longleftrightarrow> g_drained h \<in> set (co_closed c)" by auto
    with gate_ok_other [OF old [OF that(2)] that(1) kept] show ?thesis .
  qed
  moreover have "j \<notin> set hs' \<and> (\<forall>m \<in> set ms'. mut_agent m \<noteq> j)" if "mget (co_gates c) j = None" for j
  proof -
    have "j \<noteq> i" using that g by auto
    with absent [OF that] others_kept_mem [OF kept(1), of j] others_kept_mem [OF kept(2)] show ?thesis by auto
  qed
  ultimately show ?thesis using new assms(4) by (intro lc_invI) (auto simp: c'(1) split: if_splits)
qed

subsection \<open>Each step keeps the invariant\<close>

lemma gate_of_fields: "gate_of i c = (g, c') \<Longrightarrow> mget (co_gates c') i = Some g"
  by (auto simp: gate_of_def Let_def split: option.splits)

lemma others_kept_refl [simp]: "others_kept i xs f xs"
  by (simp add: others_kept_def)

lemma others_kept_Cons [simp]: "f x = i \<Longrightarrow> others_kept i xs f (x # xs)"
  by (simp add: others_kept_def)

lemma others_kept_drop [simp]: "f x = i \<Longrightarrow> others_kept i (xs @ x # ys) f (xs @ ys)"
  by (simp add: others_kept_def)

lemma others_kept_replace [simp]: "f x = i \<Longrightarrow> f y = i \<Longrightarrow> others_kept i (xs @ x # ys) f (xs @ y # ys)"
  by (simp add: others_kept_def)

lemma set_gate_simps [simp]:
  "co_gates (set_gate i g c) = mput i g (co_gates c)" "co_closed (set_gate i g c) = co_closed c" "co_next (set_gate i g c) = co_next c"
  by (simp_all add: set_gate_def)

text \<open>The gate of a call, with the invariant, whether or not it existed.\<close>

lemma gate_cases:
  assumes "lc_inv (c, hs, ms)"
  obtains g c1 where "gate_of i c = (g, c1)" and "lc_inv (c1, hs, ms)" and "mget (co_gates c1) i = Some g" and "gate_ok c1 hs ms i g"
proof -
  obtain g c1 where g: "gate_of i c = (g, c1)" by (rule prod.exhaust)
  from lc_inv_gate [OF assms g] show thesis by (intro that [OF g]) (auto intro: lc_invD(1))
qed

lemma inv_Execution:
  assumes "lc_inv (c, hs, ms)" and "Execution ctxDone i c = (res, c')"
  shows "lc_inv (c', case res of Inr h \<Rightarrow> h # hs | Inl _ \<Rightarrow> hs, ms)"
proof (cases "ctxDone \<or> TrimSpace i = []")
  case True
  with assms show ?thesis by (auto simp: Execution_def Let_def split: if_splits)
next
  case False
  let ?i = "TrimSpace i"
  obtain g c1 where g: "gate_of ?i c = (g, c1)" "lc_inv (c1, hs, ms)" "mget (co_gates c1) ?i = Some g" "gate_ok c1 hs ms ?i g"
    using gate_cases [OF assms(1)] by blast
  show ?thesis
  proof (cases "g_closed g")
    case True
    with False assms(2) g show ?thesis by (auto simp: Execution_def Let_def)
  next
    case accepts: False
    let ?g = "if g_active g = 0 then g\<lparr>g_drained := co_next c1\<rparr> else g"
    let ?g' = "?g\<lparr>g_active := g_active g + 1\<rparr>"
    have c': "res = Inr ?i" "co_gates c' = mput ?i ?g' (co_gates c1)" "co_closed c' = co_closed c1"
      "co_next c' = (if g_active g = 0 then Suc (co_next c1) else co_next c1)"
      using False accepts assms(2) g(1) by (auto simp: Execution_def Let_def)
    have "co_next c1 \<notin> set (co_closed c1)" using lc_inv_distinct(2) [OF g(2)] by (auto simp: chans_ok_def)
    then have "gate_ok c' (?i # hs) ms ?i ?g'"
      using g(4) accepts by (auto simp: gate_ok_def c')
    then have "lc_inv (c', ?i # hs, ms)"
      by (rule lc_inv_update [OF g(2,3)]) (use c' lc_inv_distinct(1) [OF g(2)] in auto)
    with c'(1) show ?thesis by simp
  qed
qed

lemma inv_release:
  assumes "lc_inv (c, xs @ h # ys, ms)" and "release_execution h c = Some c'"
  shows "lc_inv (c', xs @ ys, ms)"
proof -
  obtain g c1 where g: "gate_of h c = (g, c1)" "lc_inv (c1, xs @ h # ys, ms)" "mget (co_gates c1) h = Some g" "gate_ok c1 (xs @ h # ys) ms h g"
    using gate_cases [OF assms(1)] by blast
  let ?g' = "g\<lparr>g_active := g_active g - 1\<rparr>"
  have c': "co_gates c' = mput h ?g' (co_gates c1)" "co_next c' = co_next c1"
    "set (co_closed c') = (if g_active g = 1 then insert (g_drained g) (set (co_closed c1)) else set (co_closed c1))"
    using assms(2) g(1) by (auto simp: release_execution_def Let_def split: if_splits)
  have "gate_ok c' (xs @ ys) ms h ?g'"
    using g(4) unfolding gate_ok_def by (auto simp: c')
  then show ?thesis
    by (rule lc_inv_update [OF g(2,3)]) (use c' lc_inv_distinct(1) [OF g(2)] in auto)
qed

lemma inv_acquire:
  assumes "lc_inv (c, hs, ms)" and "take_token i c = Some c'"
  shows "lc_inv (c', hs, HasToken i # ms)"
proof -
  obtain g c1 where g: "gate_of i c = (g, c1)" "lc_inv (c1, hs, ms)" "mget (co_gates c1) i = Some g" "gate_ok c1 hs ms i g"
    using gate_cases [OF assms(1)] by blast
  have t: "g_token g" and c': "c' = set_gate i (g\<lparr>g_token := False\<rparr>) c1"
    using assms(2) g(1) by (auto simp: take_token_def split: if_splits)
  have free: "\<forall>m \<in> set ms. mut_agent m \<noteq> i" using g(4) t by (simp add: gate_ok_def)
  have "gate_ok c' hs (HasToken i # ms) i (g\<lparr>g_token := False\<rparr>)" using g(4) by (auto simp: gate_ok_def c')
  then show ?thesis
    by (rule lc_inv_update [OF g(2,3)]) (use free lc_inv_distinct(1) [OF g(2)] in \<open>auto simp: c'\<close>)
qed

text \<open>A mutation moves from one phase to the next and sets the gate's flags for it.\<close>

lemma inv_phase:
  assumes "lc_inv (c, hs, xs @ m # ys)" and "mut_agent m = i" and "mut_agent m' = i" and "gate_of i c = (g, c1)"
    and "\<And>ch. m' = Draining i ch \<Longrightarrow> ch = g_drained g" and "m' = Holding i \<Longrightarrow> g_drained g \<in> set (co_closed c1)"
  shows "lc_inv (set_gate i (g\<lparr>g_closed := mut_closed m'\<rparr>) c1, hs, xs @ m' # ys)"
proof -
  from lc_inv_gate [OF assms(1,4)] have inv: "lc_inv (c1, hs, xs @ m # ys)" and g: "mget (co_gates c1) i = Some g" by auto
  note ok = lc_invD(1) [OF inv g]
  have d: "distinct (map mut_agent (xs @ m # ys))" by (rule lc_inv_distinct(1) [OF inv])
  have no: "x \<notin> set xs" "x \<notin> set ys" if "mut_agent x = i" for x using d that assms(2) by (auto simp: image_iff)
  have other: "mut_agent x \<noteq> i" if "x \<in> set xs \<or> x \<in> set ys" for x using no that by blast
  have "gate_ok (set_gate i (g\<lparr>g_closed := mut_closed m'\<rparr>) c1) hs (xs @ m' # ys) i (g\<lparr>g_closed := mut_closed m'\<rparr>)"
    using ok assms(2,3,5,6) other unfolding gate_ok_def by auto
  then show ?thesis
    by (rule lc_inv_update [OF inv g]) (use d assms(2,3) in auto)
qed

lemma inv_return:
  assumes "lc_inv (c, hs, xs @ Reopened i # ys)" and "return_token i c = Some c'"
  shows "lc_inv (c', hs, xs @ ys)"
proof -
  let ?ms = "xs @ Reopened i # ys"
  obtain g c1 where g: "gate_of i c = (g, c1)" "lc_inv (c1, hs, ?ms)" "mget (co_gates c1) i = Some g" "gate_ok c1 hs ?ms i g"
    using gate_cases [OF assms(1)] by blast
  have c': "c' = set_gate i (g\<lparr>g_token := True\<rparr>) c1"
    using assms(2) g(1) by (auto simp: return_token_def split: if_splits)
  have d: "distinct (map mut_agent ?ms)" by (rule lc_inv_distinct(1) [OF g(2)])
  then have other: "mut_agent x \<noteq> i" if "x \<in> set xs \<or> x \<in> set ys" for x using that by (auto simp: image_iff)
  have "gate_ok c' hs (xs @ ys) i (g\<lparr>g_token := True\<rparr>)"
    using g(4) other unfolding gate_ok_def c' by auto
  then show ?thesis by (rule lc_inv_update [OF g(2,3)]) (use d in \<open>auto simp: c'\<close>)
qed

lemma lc_step_inv:
  assumes "lc_inv x" and "lc_step x a y"
  shows "lc_inv y"
  using assms(2,1)
proof (induction rule: lc_step.induct)
  case (lc_admit ctxDone i c h c' hs ms)
  then show ?case using inv_Execution [OF lc_admit(2,1)] by simp
next
  case (lc_refuse ctxDone i c e c' hs ms)
  then show ?case using inv_Execution [OF lc_refuse(2,1)] by simp
next
  case (lc_release h c c' xs ys ms)
  show ?case by (rule inv_release [OF lc_release(2,1)])
next
  case (lc_acquire i c c' hs ms)
  show ?case by (rule inv_acquire [OF lc_acquire(2,1)])
next
  case (lc_close i c ch c' hs xs ys)
  obtain g c1 where g: "gate_of i c = (g, c1)" by (rule prod.exhaust)
  from inv_phase [OF lc_close(2) _ _ g, of "Draining i ch"] lc_close(1) g show ?case by (auto simp: close_gate_def)
next
  case (lc_drained ch c hs xs i ys)
  obtain g c1 where g: "gate_of i c = (g, c1)" "lc_inv (c1, hs, xs @ Draining i ch # ys)"
    "mget (co_gates c1) i = Some g" "gate_ok c1 hs (xs @ Draining i ch # ys) i g"
    using gate_cases [OF lc_drained(2)] by blast
  have "mget (co_gates c) i \<noteq> None" using lc_invD(2) [OF lc_drained(2), of i] by auto
  with g(1) have c1: "c1 = c" by (auto simp: gate_of_def)
  have "g_drained g = ch" "g_closed g" using g(4) by (auto simp: gate_ok_def)
  then have "set_gate i (g\<lparr>g_closed := True\<rparr>) c = c"
    using g(3) c1 by (simp add: set_gate_def AList.update_triv)
  with inv_phase [OF lc_drained(2) _ _ g(1), of "Holding i"] lc_drained(1) \<open>g_drained g = ch\<close> c1 show ?case by simp
next
  case (lc_timeout c hs xs i ch ys)
  obtain g c1 where g: "gate_of i c = (g, c1)" by (rule prod.exhaust)
  from inv_phase [OF lc_timeout _ _ g, of "Reopened i"] g show ?case by (simp add: open_gate_def)
next
  case (lc_reopen c hs xs i ys)
  obtain g c1 where g: "gate_of i c = (g, c1)" by (rule prod.exhaust)
  from inv_phase [OF lc_reopen _ _ g, of "Reopened i"] g show ?case by (simp add: open_gate_def)
next
  case (lc_return i c c' hs xs ys)
  show ?case by (rule inv_return [OF lc_return(2,1)])
qed

interpretation coordinator: invariant_system lc_init lc_step lc_inv
proof
  fix x
  assume "lc_init x"
  then show "lc_inv x" by (auto simp: lc_init_def zero_coordinator_def chans_ok_def intro!: lc_invI)
next
  fix x a y
  show "lc_inv x \<Longrightarrow> lc_step x a y \<Longrightarrow> lc_inv y" by (rule lc_step_inv)
qed

subsection \<open>Exclusion\<close>

text \<open>
  C32. While a mutation holds an agent, in every concurrent run, no execution of that agent is
  admitted and not yet released, no other mutation of it has even the token, and a new execution
  is refused.
\<close>

theorem mutation_excludes:
  assumes "reachable lc_init lc_step (c, hs, ms)" and "Holding i \<in> set ms" and "i \<noteq> []" and "trimmed i"
  shows "i \<notin> set hs \<and> filter (\<lambda>m. mut_agent m = i) ms = [Holding i] \<and> Execution False i c = (Inl (ChangeInProgress i), c)"
proof -
  have inv: "lc_inv (c, hs, ms)" by (rule coordinator.reachable_inv [OF assms(1)])
  from lc_invD(2) [OF inv, of i] assms(2) obtain g where g: "mget (co_gates c) i = Some g" by fastforce
  from lc_invD(1) [OF inv g] assms(2) have "count_list hs i = 0" "g_closed g"
    unfolding gate_ok_def by (simp, metis mut_agent.simps(3) mut_closed.simps(2))
  moreover from assms(2) obtain xs ys where ms: "ms = xs @ Holding i # ys" by (auto simp: in_set_conv_decomp)
  with lc_inv_distinct(1) [OF inv] have "filter (\<lambda>m. mut_agent m = i) xs = []" "filter (\<lambda>m. mut_agent m = i) ys = []"
    by (auto simp: filter_empty_conv image_iff)
  ultimately show ?thesis
    using assms(3,4) g ms by (simp add: count_list_0_iff Execution_def Let_def gate_of_def trimmed_TrimSpace)
qed

text \<open>An execution, a mutation that waits for it, its release, and the mutation holding the agent.\<close>

definition demo_coord :: "bool \<Rightarrow> bool \<Rightarrow> int \<Rightarrow> nat list \<Rightarrow> Coordinator" where
  "demo_coord token closed active chans =
     \<lparr>co_gates = [(''a'', \<lparr>g_token = token, g_closed = closed, g_active = active, g_drained = 1\<rparr>)], co_closed = chans, co_next = 2\<rparr>"

lemma lc_reach: "reachable lc_init lc_step x \<Longrightarrow> lc_step x a y \<Longrightarrow> reachable lc_init lc_step y"
  by (rule reachable_step)

lemma trim_a: "TrimSpace ''a'' = ''a''" by code_simp

lemma demo_draining_reachable: "reachable lc_init lc_step (demo_coord False True 1 [0], [''a''], [Draining ''a'' 1])"
proof -
  have v: "Execution False ''a'' zero_coordinator = (Inr ''a'', demo_coord True False 1 [0])"
    "take_token ''a'' (demo_coord True False 1 [0]) = Some (demo_coord False False 1 [0])"
    "close_gate ''a'' (demo_coord False False 1 [0]) = (1, demo_coord False True 1 [0])"
    by (simp_all add: Execution_def take_token_def close_gate_def gate_of_def set_gate_def demo_coord_def zero_coordinator_def trim_a Let_def)
  have r0: "reachable lc_init lc_step (zero_coordinator, [], [])" by (rule reachable_init) (simp add: lc_init_def)
  from lc_reach [OF r0 lc_admit [OF v(1)]]
  have r1: "reachable lc_init lc_step (demo_coord True False 1 [0], [''a''], [])" .
  from lc_reach [OF r1 lc_acquire [OF v(2)]]
  have r2: "reachable lc_init lc_step (demo_coord False False 1 [0], [''a''], [] @ HasToken ''a'' # [])" by simp
  from lc_reach [OF r2 lc_close [OF v(3)]] show ?thesis by simp
qed

definition demo_held :: Coordinator where
  "demo_held = demo_coord False True 0 [1, 0]"

lemma demo_held_reachable: "reachable lc_init lc_step (demo_held, [], [Holding ''a''])"
proof -
  have v: "release_execution ''a'' (demo_coord False True 1 [0]) = Some demo_held" "1 \<in> set (co_closed demo_held)"
    by (simp_all add: release_execution_def gate_of_def set_gate_def demo_coord_def demo_held_def Let_def)
  from demo_draining_reachable
  have r3: "reachable lc_init lc_step (demo_coord False True 1 [0], [] @ ''a'' # [], [Draining ''a'' 1])" by simp
  from lc_reach [OF r3 lc_release [OF v(1)]]
  have r4: "reachable lc_init lc_step (demo_held, [], [] @ Draining ''a'' 1 # [])" by simp
  from lc_reach [OF r4 lc_drained [OF v(2)]] show ?thesis by simp
qed

theorem mutation_excludes_witness: "Execution False ''a'' demo_held = (Inl (ChangeInProgress ''a''), demo_held)"
proof -
  have "trimmed ''a''" unfolding trimmed_iff by (rule trim_a)
  with mutation_excludes [OF demo_held_reachable, of "''a''"] show ?thesis by simp
qed

subsection \<open>Progress\<close>

text \<open>
  C33. A mutation that drains gets its agent. While it drains, every attempt to start an execution of
  the agent is refused, and no step of any caller makes the executions of the agent more; each of
  those still running can be released, which does not panic and makes them fewer; and as soon as all are
  released, the channel on which the mutation waits is closed. Returning the token never blocks.
\<close>

theorem drain_progress:
  assumes "reachable lc_init lc_step (c, hs, ms)"
  shows "(Draining i ch \<in> set ms \<longrightarrow>
      (\<forall>ctxDone j. TrimSpace j = i \<longrightarrow> \<not> is_ok (fst (Execution ctxDone j c))) \<and>
      (\<forall>a c' hs' ms'. lc_step (c, hs, ms) a (c', hs', ms') \<longrightarrow> count_list hs' i \<le> count_list hs i) \<and>
      (i \<notin> set hs \<longrightarrow> ch \<in> set (co_closed c))) \<and>
    (h \<in> set hs \<longrightarrow> (\<exists>c' hs'. lc_step (c, hs, ms) (Release h) (c', hs', ms) \<and> count_list hs' h < count_list hs h)) \<and>
    (Reopened i \<in> set ms \<longrightarrow> return_token i c \<noteq> None)"
proof -
  have inv: "lc_inv (c, hs, ms)" by (rule coordinator.reachable_inv [OF assms])
  have rel: "\<exists>c' hs'. lc_step (c, hs, ms) (Release h) (c', hs', ms) \<and> count_list hs' h < count_list hs h" if "h \<in> set hs"
  proof -
    from that lc_invD(2) [OF inv, of h] obtain g where g: "mget (co_gates c) h = Some g" by fastforce
    have "count_list hs h \<noteq> 0" using that by (simp add: count_list_0_iff)
    with lc_invD(1) [OF inv g] g have "release_execution h c \<noteq> None"
      by (auto simp: gate_ok_def release_execution_def gate_of_def Let_def)
    then obtain c' where c': "release_execution h c = Some c'" by blast
    from that obtain xs ys where hs: "hs = xs @ h # ys" by (auto simp: in_set_conv_decomp)
    from lc_release [OF c', of xs ys ms] have "lc_step (c, hs, ms) (Release h) (c', xs @ ys, ms)" by (simp add: hs)
    then show ?thesis by (intro exI conjI) (assumption, simp add: hs)
  qed
  have ret: "return_token i c \<noteq> None" if "Reopened i \<in> set ms"
  proof -
    from that lc_invD(2) [OF inv, of i] obtain g where g: "mget (co_gates c) i = Some g" by fastforce
    with lc_invD(1) [OF inv g] that show ?thesis by (fastforce simp: gate_ok_def return_token_def gate_of_def)
  qed
  have drain: "(\<forall>ctxDone j. TrimSpace j = i \<longrightarrow> \<not> is_ok (fst (Execution ctxDone j c))) \<and>
      (\<forall>a c' hs' ms'. lc_step (c, hs, ms) a (c', hs', ms') \<longrightarrow> count_list hs' i \<le> count_list hs i) \<and>
      (i \<notin> set hs \<longrightarrow> ch \<in> set (co_closed c))" if "Draining i ch \<in> set ms"
  proof -
    from that lc_invD(2) [OF inv, of i] obtain g where g: "mget (co_gates c) i = Some g" by fastforce
    have "g_closed g" by (rule gate_ok_closed [OF lc_invD(1) [OF inv g] that]) simp_all
    then have no: "\<not> is_ok (fst (Execution ctxDone j c))" if "TrimSpace j = i" for ctxDone j
      using that g by (simp add: Execution_def gate_of_def Let_def)
    have "count_list hs' i \<le> count_list hs i" if "lc_step (c, hs, ms) a (c', hs', ms')" for a c' hs' ms'
      using that
    proof cases
      case (lc_admit ctxDone j h)
      have "h = TrimSpace j" using lc_admit by (auto simp: Execution_def Let_def split: if_splits prod.splits)
      with no [of j ctxDone] lc_admit show ?thesis by auto
    qed auto
    moreover have "ch \<in> set (co_closed c)" if "i \<notin> set hs"
      using lc_invD(1) [OF inv g] \<open>Draining i ch \<in> set ms\<close> that by (auto simp: gate_ok_def count_list_0_iff)
    ultimately show ?thesis using no by blast
  qed
  from drain rel ret show ?thesis by blast
qed

theorem drain_progress_witness:
  "\<not> is_ok (fst (Execution False ''a'' (demo_coord False True 1 [0]))) \<and>
   (\<exists>c' hs'. lc_step (demo_coord False True 1 [0], [''a''], [Draining ''a'' 1]) (Release ''a'') (c', hs', [Draining ''a'' 1]) \<and>
      count_list hs' ''a'' < 1)"
  using drain_progress [OF demo_draining_reachable, of "''a''" 1 "''a''"] trim_a by simp

subsection \<open>Refinement of a readers-writer lock\<close>

text \<open>
  The abstract lock of an agent: the number of readers and a mode. Readers enter only while it is
  open; it closes, becomes exclusive when the last reader has left, and opens again.
\<close>

datatype rw_mode = Open | Closing | Exclusive

type_synonym rw_state = "string \<Rightarrow> nat \<times> rw_mode"

inductive rw_step :: "rw_state \<Rightarrow> rw_state \<Rightarrow> bool" where
  rw_enter: "s i = (n, Open) \<Longrightarrow> rw_step s (s(i := (Suc n, Open)))"
| rw_leave: "s i = (Suc n, mode) \<Longrightarrow> rw_step s (s(i := (n, mode)))"
| rw_close: "s i = (n, Open) \<Longrightarrow> rw_step s (s(i := (n, Closing)))"
| rw_lock: "s i = (0, Closing) \<Longrightarrow> rw_step s (s(i := (0, Exclusive)))"
| rw_unlock: "s i = (n, mode) \<Longrightarrow> mode \<noteq> Open \<Longrightarrow> rw_step s (s(i := (n, Open)))"

fun rw_abs :: "lc_state \<Rightarrow> rw_state" where
  "rw_abs (c, hs, ms) = (\<lambda>i. case mget (co_gates c) i of
       None \<Rightarrow> (0, Open)
     | Some g \<Rightarrow> (nat (g_active g), if \<not> g_closed g then Open else if Holding i \<in> set ms then Exclusive else Closing))"

lemma gate_of_abs: "gate_of i c = (g, c1) \<Longrightarrow> rw_abs (c1, hs, ms) = rw_abs (c, hs, ms)"
  by (auto simp: gate_of_def Let_def fun_eq_iff split: option.splits if_splits)

lemma rw_abs_set_gate:
  assumes "gate_of i c = (g, c1)" and "\<And>j. j \<noteq> i \<Longrightarrow> Holding j \<in> set ms' \<longleftrightarrow> Holding j \<in> set ms" and "co_gates c' = mput i g' (co_gates c1)"
  shows "rw_abs (c', hs', ms') = (rw_abs (c, hs, ms))(i := (nat (g_active g'),
    if \<not> g_closed g' then Open else if Holding i \<in> set ms' then Exclusive else Closing))"
  unfolding gate_of_abs [OF assms(1), of hs ms, symmetric] using assms(2,3) by (auto simp: fun_eq_iff split: option.splits)

lemma rw_abs_gate: "gate_of i c = (g, c1) \<Longrightarrow> rw_abs (c, hs, ms) i =
    (nat (g_active g), if \<not> g_closed g then Open else if Holding i \<in> set ms then Exclusive else Closing)"
  using gate_of_abs [of i c g c1 hs ms, symmetric] gate_of_fields [of i c g c1] by simp

lemma rw_abs_hs: "rw_abs (c, hs', ms) = rw_abs (c, hs, ms)"
  by simp

declare rw_abs.simps [simp del]

lemma Execution_abs:
  assumes "lc_inv (c, hs, ms)" and "Execution ctxDone i c = (res, c')"
  shows "rw_abs (c', hs', ms) = rw_abs (c, hs, ms) \<or> rw_step (rw_abs (c, hs, ms)) (rw_abs (c', hs', ms))"
proof (cases "ctxDone \<or> TrimSpace i = []")
  case True
  with assms(2) have "c' = c" by (auto simp: Execution_def Let_def split: if_splits)
  then show ?thesis by (simp add: rw_abs_hs [of c hs' ms hs])
next
  case False
  let ?i = "TrimSpace i"
  obtain g c1 where g: "gate_of ?i c = (g, c1)" "gate_ok c1 hs ms ?i g"
    using gate_cases [OF assms(1)] by blast
  show ?thesis
  proof (cases "g_closed g")
    case True
    with False assms(2) g(1) have "c' = c1" by (auto simp: Execution_def Let_def)
    with gate_of_abs [OF g(1), of hs ms] show ?thesis by (simp add: rw_abs_hs [of c1 hs' ms hs])
  next
    case accepts: False
    obtain g' where g': "co_gates c' = mput ?i g' (co_gates c1)" "g_active g' = g_active g + 1" "g_closed g' = g_closed g"
      using False accepts assms(2) g(1) by (auto simp: Execution_def Let_def split: if_splits)
    have "nat (g_active g') = Suc (nat (g_active g))" using g(2) g'(2) by (simp add: gate_ok_def)
    with rw_abs_set_gate [OF g(1) _ g'(1), of ms ms hs' hs] rw_abs_gate [OF g(1), of hs ms] accepts g'(3)
    show ?thesis using rw_enter [of "rw_abs (c, hs, ms)" ?i "nat (g_active g)"] by simp
  qed
qed

lemma open_abs:
  assumes "lc_inv (c, hs, xs @ m # ys)" and "mut_agent m = i" and "mut_closed m"
  shows "rw_abs (open_gate i c, hs, xs @ Reopened i # ys) = rw_abs (c, hs, xs @ m # ys) \<or>
    rw_step (rw_abs (c, hs, xs @ m # ys)) (rw_abs (open_gate i c, hs, xs @ Reopened i # ys))"
proof -
  let ?ms = "xs @ m # ys"
  obtain g c1 where g: "gate_of i c = (g, c1)" "gate_ok c1 hs ?ms i g" using gate_cases [OF assms(1)] by blast
  then have c': "co_gates (open_gate i c) = mput i (g\<lparr>g_closed := False\<rparr>) (co_gates c1)" by (simp add: open_gate_def)
  have "g_closed g" using g(2) assms(2,3) by (auto simp: gate_ok_def)
  with rw_abs_gate [OF g(1), of hs ?ms] obtain mode where "rw_abs (c, hs, ?ms) i = (nat (g_active g), mode)" "mode \<noteq> Open" by auto
  then have "rw_step (rw_abs (c, hs, ?ms)) ((rw_abs (c, hs, ?ms))(i := (nat (g_active g), Open)))" by (rule rw_unlock)
  moreover have "Holding j \<in> set (xs @ Reopened i # ys) \<longleftrightarrow> Holding j \<in> set ?ms" if "j \<noteq> i" for j using that assms(2) by auto
  from rw_abs_set_gate [OF g(1) this c', of hs hs]
  have "rw_abs (open_gate i c, hs, xs @ Reopened i # ys) = (rw_abs (c, hs, ?ms))(i := (nat (g_active g), Open))" by simp
  ultimately show ?thesis by simp
qed

text \<open>
  C34. The coordinator refines the readers-writer lock of every agent: each step of a concurrent run
  is a step of the abstract locks, read off the gates and the mutations that hold them, or leaves
  them unchanged.
\<close>

theorem lifecycle_refines:
  assumes "reachable lc_init lc_step x" and "lc_step x a y"
  shows "rw_abs y = rw_abs x \<or> rw_step (rw_abs x) (rw_abs y)"
  using assms(2) coordinator.reachable_inv [OF assms(1)]
proof (induction rule: lc_step.induct)
  case (lc_admit ctxDone i c h c' hs ms)
  then show ?case by (intro Execution_abs)
next
  case (lc_refuse ctxDone i c e c' hs ms)
  then show ?case by (intro Execution_abs)
next
  case (lc_release h c c' xs ys ms)
  obtain g c1 where g: "gate_of h c = (g, c1)" "gate_ok c1 (xs @ h # ys) ms h g" using gate_cases [OF lc_release(2)] by blast
  let ?g' = "g\<lparr>g_active := g_active g - 1\<rparr>"
  have c': "co_gates c' = mput h ?g' (co_gates c1)"
    using lc_release(1) g(1) by (auto simp: release_execution_def Let_def split: if_splits)
  let ?s = "rw_abs (c, xs @ h # ys, ms)"
  have n: "nat (g_active g) = Suc (nat (g_active ?g'))" using g(2) by (simp add: gate_ok_def)
  have s: "?s h = (Suc (nat (g_active ?g')), snd (?s h))" unfolding rw_abs_gate [OF g(1)] n by simp
  have "rw_abs (c', xs @ ys, ms) = ?s(h := (nat (g_active ?g'), snd (?s h)))"
    unfolding rw_abs_gate [OF g(1)] using rw_abs_set_gate [OF g(1) _ c', of ms ms "xs @ ys" "xs @ h # ys"] by simp
  then show ?case using rw_leave [of ?s, OF s] by (simp del: fun_upd_apply)
next
  case (lc_acquire i c c' hs ms)
  obtain g c1 where g: "gate_of i c = (g, c1)" by (rule prod.exhaust)
  with lc_acquire(1) have c': "co_gates c' = mput i (g\<lparr>g_token := False\<rparr>) (co_gates c1)"
    by (auto simp: take_token_def split: if_splits)
  from rw_abs_set_gate [OF g _ c', of "HasToken i # ms" ms hs hs] rw_abs_gate [OF g, of hs ms] show ?case by (simp add: fun_upd_idem)
next
  case (lc_close i c ch c' hs xs ys)
  let ?ms = "xs @ HasToken i # ys"
  obtain g c1 where g: "gate_of i c = (g, c1)" "gate_ok c1 hs ?ms i g" "lc_inv (c1, hs, ?ms)" using gate_cases [OF lc_close(2)] by blast
  with lc_close(1) have c': "co_gates c' = mput i (g\<lparr>g_closed := True\<rparr>) (co_gates c1)" by (auto simp: close_gate_def)
  have "mut_agent m \<noteq> i" if "m \<in> set xs \<or> m \<in> set ys" for m
    using lc_inv_distinct(1) [OF g(3)] that by (auto simp: image_iff)
  with g(2) have "\<not> g_closed g" "Holding i \<notin> set xs" "Holding i \<notin> set ys" by (fastforce simp: gate_ok_def)+
  with rw_abs_set_gate [OF g(1) _ c', of "xs @ Draining i ch # ys" ?ms hs hs] rw_abs_gate [OF g(1), of hs ?ms]
  show ?case using rw_close [of "rw_abs (c, hs, ?ms)" i "nat (g_active g)"] by (simp del: fun_upd_apply)
next
  case (lc_drained ch c hs xs i ys)
  let ?ms = "xs @ Draining i ch # ys"
  obtain g c1 where g: "gate_of i c = (g, c1)" "gate_ok c1 hs ?ms i g" "lc_inv (c1, hs, ?ms)" "mget (co_gates c1) i = Some g"
    using gate_cases [OF lc_drained(2)] by blast
  have "mget (co_gates c) i \<noteq> None" using lc_invD(2) [OF lc_drained(2), of i] by auto
  with g(1) have c1: "c1 = c" by (auto simp: gate_of_def)
  then have c': "co_gates c = mput i g (co_gates c1)" using g(4) by (simp add: AList.update_triv)
  have "mut_agent m \<noteq> i" if "m \<in> set xs \<or> m \<in> set ys" for m
    using lc_inv_distinct(1) [OF g(3)] that by (auto simp: image_iff)
  then have "Holding i \<notin> set xs" "Holding i \<notin> set ys" by fastforce+
  moreover have "g_closed g" by (rule gate_ok_closed [OF g(2), of "Draining i ch"]) simp_all
  moreover have "g_active g = 0" by (rule gate_ok_drained [OF g(2), of ch]) (use lc_drained(1) c1 in simp_all)
  ultimately show ?case
    using rw_abs_set_gate [OF g(1) _ c', of "xs @ Holding i # ys" ?ms hs hs] rw_abs_gate [OF g(1), of hs ?ms]
      rw_lock [of "rw_abs (c, hs, ?ms)" i] by (simp del: fun_upd_apply)
next
  case (lc_timeout c hs xs i ch ys)
  show ?case by (rule open_abs [OF lc_timeout]) auto
next
  case (lc_reopen c hs xs i ys)
  show ?case by (rule open_abs [OF lc_reopen]) auto
next
  case (lc_return i c c' hs xs ys)
  obtain g c1 where g: "gate_of i c = (g, c1)" by (rule prod.exhaust)
  with lc_return(1) have c': "co_gates c' = mput i (g\<lparr>g_token := True\<rparr>) (co_gates c1)"
    by (auto simp: return_token_def split: if_splits)
  from rw_abs_set_gate [OF g _ c', of "xs @ ys" "xs @ Reopened i # ys" hs hs] rw_abs_gate [OF g, of hs "xs @ Reopened i # ys"]
  show ?case by (simp add: fun_upd_idem)
qed

theorem lifecycle_refines_witness:
  "rw_abs (demo_coord True False 1 [0], [''a''], []) = rw_abs (zero_coordinator, [], []) \<or>
   rw_step (rw_abs (zero_coordinator, [], [])) (rw_abs (demo_coord True False 1 [0], [''a''], []))"
proof -
  have r0: "reachable lc_init lc_step (zero_coordinator, [], [])" by (rule reachable_init) (simp add: lc_init_def)
  have "Execution False ''a'' zero_coordinator = (Inr ''a'', demo_coord True False 1 [0])"
    by (simp add: Execution_def gate_of_def set_gate_def demo_coord_def zero_coordinator_def trim_a Let_def)
  from lifecycle_refines [OF r0 lc_admit [OF this]] show ?thesis .
qed

end
