(* ===== verification/Calendar.thy ===== *)
theory Calendar
  imports Prelude
begin

section \<open>Instants and dates (\<open>time.Time.AddDate\<close>)\<close>

text \<open>
  The part of Go's \<open>time\<close> package that schedules use. An instant is the number of nanoseconds
  since 1 January of the year 1, 00:00 UTC, so day \<open>0\<close> is that date. A date is read and written in a
  location with a fixed offset from UTC, as the zone of an RFC 3339 timestamp is; \<open>AddDate\<close> adds to
  the fields of the date and normalises, so that 31 January plus one month is 2 or 3 March.
\<close>

definition day_ns :: int where "day_ns = 86400 * 1000000000"

definition leap :: "int \<Rightarrow> bool" where
  "leap y \<longleftrightarrow> 4 dvd y \<and> (\<not> 100 dvd y \<or> 400 dvd y)"

text \<open>The days before 1 January of a year, and before the first day of a month (counted from 0) in it.\<close>

definition days_before_year :: "int \<Rightarrow> int" where
  "days_before_year y = 365 * (y - 1) + (y - 1) div 4 - (y - 1) div 100 + (y - 1) div 400"

definition month_starts :: "int list" where
  "month_starts = [0, 31, 59, 90, 120, 151, 181, 212, 243, 273, 304, 334]"

definition days_before_month :: "int \<Rightarrow> nat \<Rightarrow> int" where
  "days_before_month y m = month_starts ! m + (if leap y \<and> 2 \<le> m then 1 else 0)"

text \<open>The first day of month \<open>m\<close> of year \<open>y\<close>, where \<open>m\<close> may lie outside the year.\<close>

definition first_of_month :: "int \<Rightarrow> int \<Rightarrow> int" where
  "first_of_month y m =
     (let y' = y + m div 12 in days_before_year y' + days_before_month y' (nat (m mod 12)))"

text \<open>The year of a day: whole cycles of 400, 100, 4 and 1 years, the last ones one day longer.\<close>

definition year_of_day :: "int \<Rightarrow> int" where
  "year_of_day n =
     (let r400 = n mod 146097; c = min 3 (r400 div 36524); r100 = r400 - 36524 * c;
          r4 = r100 mod 1461; a = min 3 (r4 div 365) in
      400 * (n div 146097) + 100 * c + 4 * (r100 div 1461) + a + 1)"

fun month_search :: "int \<Rightarrow> int \<Rightarrow> nat \<Rightarrow> nat" where
  "month_search y yday 0 = 0"
| "month_search y yday (Suc m) = (if days_before_month y (Suc m) \<le> yday then Suc m else month_search y yday m)"

definition month_of_day :: "int \<Rightarrow> nat" where
  "month_of_day n = month_search (year_of_day n) (n - days_before_year (year_of_day n)) 11"

definition AddDate :: "int \<Rightarrow> int \<Rightarrow> int \<Rightarrow> int \<Rightarrow> time \<Rightarrow> time" where
  "AddDate zone years months days t =
     (let day = (t + zone) div day_ns; clock = (t + zone) mod day_ns;
          y = year_of_day day; m = int (month_of_day day);
          mday = day - first_of_month y m in
      (first_of_month (y + years) (m + months) + mday + days) * day_ns + clock - zone)"

lemma month_of_day_bound: "month_of_day n < 12"
proof -
  have "month_search y d k \<le> k" for y d k by (induction k) auto
  from this [of _ _ 11] show ?thesis unfolding month_of_day_def by (simp add: le_imp_less_Suc [of _ 11, simplified])
qed

lemma days_before_year_Suc: "days_before_year (y + 1) = days_before_year y + 365 + (if leap y then 1 else 0)"
proof -
  have step: "y div k = (y - 1) div k + (if k dvd y then 1 else 0)" if "1 < k" for k :: int
  proof (cases "k dvd y")
    case True
    then obtain q where "y = k * q" ..
    moreover have "(k * q - 1) div k = q - 1"
    proof -
      have "(k - 1 + (q - 1) * k) div k = q - 1 + (k - 1) div k" using that by (intro div_mult_self1) simp
      moreover have "k - 1 + (q - 1) * k = k * q - 1" by (simp add: algebra_simps)
      moreover have "(k - 1) div k = 0" using that by (simp add: div_pos_pos_trivial)
      ultimately show ?thesis by simp
    qed
    ultimately show ?thesis using that by simp
  next
    case False
    then have "y mod k \<noteq> 0" by (simp add: dvd_eq_mod_eq_0)
    moreover have "0 \<le> y mod k" "y mod k < k" using that by simp_all
    ultimately have r: "0 \<le> y mod k - 1" "y mod k - 1 < k" by linarith+
    have "(y mod k - 1 + y div k * k) div k = y div k + (y mod k - 1) div k" using that by (intro div_mult_self1) simp
    moreover have "y mod k - 1 + y div k * k = y - 1" by (metis add.commute add_diff_eq div_mult_mod_eq)
    moreover have "(y mod k - 1) div k = 0" using r by (simp add: div_pos_pos_trivial)
    ultimately show ?thesis using False by simp
  qed
  have dvd: "100 dvd y \<Longrightarrow> 4 dvd y" "400 dvd y \<Longrightarrow> 100 dvd y" by (rule dvd_trans [rotated], assumption, simp)+
  have "days_before_year (y + 1) = 365 * y + y div 4 - y div 100 + y div 400"
    by (simp add: days_before_year_def)
  also have "\<dots> = 365 * y + ((y - 1) div 4 + (if 4 dvd y then 1 else 0)) -
      ((y - 1) div 100 + (if 100 dvd y then 1 else 0)) + ((y - 1) div 400 + (if 400 dvd y then 1 else 0))"
    by (simp only: step [of 4] step [of 100] step [of 400] one_less_numeral_iff semiring_norm)
  also have "\<dots> = days_before_year y + 365 +
      ((if 4 dvd y then 1 else 0) - (if 100 dvd y then 1 else 0) + (if 400 dvd y then 1 else 0))"
    by (simp only: days_before_year_def algebra_simps)
  also have "(if 4 dvd y then 1 else 0) - (if 100 dvd y then 1 else 0) + (if 400 dvd y then 1 else 0) = (if leap y then 1 else (0 :: int))"
    using dvd by (cases "4 dvd y"; cases "100 dvd y"; cases "400 dvd y") (simp_all only: leap_def, simp_all)
  finally show ?thesis .
qed

text \<open>Every month has at least 28 days, also the last of a year.\<close>

lemma month_length:
  assumes "m < 12"
  shows "first_of_month y (int m) + 28 \<le> first_of_month y (int m + 1)"
proof (cases "m = 11")
  case True
  then show ?thesis
    by (simp add: first_of_month_def Let_def days_before_year_Suc days_before_month_def month_starts_def eval_nat_numeral)
next
  case False
  with assms have m: "m < 11" by simp
  have "(int m + 1) div 12 = 0" "(int m + 1) mod 12 = int m + 1" "int m div 12 = 0" "int m mod 12 = int m"
    using m by simp_all
  moreover have "nat (int m + 1) = Suc m" by simp
  ultimately have "first_of_month y (int m + 1) - first_of_month y (int m) =
      days_before_month y (Suc m) - days_before_month y m"
    by (simp add: first_of_month_def Let_def)
  moreover have "m = 0 \<or> m = 1 \<or> m = 2 \<or> m = 3 \<or> m = 4 \<or> m = 5 \<or> m = 6 \<or> m = 7 \<or> m = 8 \<or> m = 9 \<or> m = 10"
    using m by presburger
  then have "28 \<le> days_before_month y (Suc m) - days_before_month y m"
    by (auto simp: days_before_month_def month_starts_def eval_nat_numeral)
  ultimately show ?thesis by simp
qed

lemma AddDate_days: "AddDate zone 0 0 d t = t + d * day_ns"
proof -
  have "(t + zone) div day_ns * day_ns + (t + zone) mod day_ns = t + zone" by simp
  then show ?thesis by (simp add: AddDate_def Let_def algebra_simps)
qed

lemma AddDate_month: "t + 28 * day_ns \<le> AddDate zone 0 1 0 t"
proof -
  let ?day = "(t + zone) div day_ns"
  have "28 \<le> first_of_month (year_of_day ?day) (int (month_of_day ?day) + 1) - first_of_month (year_of_day ?day) (int (month_of_day ?day))"
    (is "28 \<le> ?len") using month_length [OF month_of_day_bound, of "year_of_day ?day" ?day] by simp
  then have "28 * day_ns \<le> ?len * day_ns" by (simp add: day_ns_def)
  moreover have "AddDate zone 0 1 0 t = t + ?len * day_ns"
  proof -
    have "?day * day_ns + (t + zone) mod day_ns = t + zone" by simp
    then show ?thesis by (simp add: AddDate_def Let_def algebra_simps)
  qed
  ultimately show ?thesis by simp
qed

lemma AddDate_examples:
  "AddDate 0 0 1 0 (739646 * day_ns) = 739677 * day_ns"
  "map year_of_day [0, 364, 365, 1460, 1461, 36523, 36524, 146096, 146097, 739646] = [1, 1, 2, 4, 5, 100, 101, 400, 401, 2026]"
  "map month_of_day [0, 30, 31, 58, 59, 364, 365, 739646] = [0, 0, 1, 1, 2, 11, 0, 0]"
  by code_simp+

end
