(* ===== verification/ScheduledTask.thy ===== *)
theory ScheduledTask
  imports Calendar TaskModel
begin

section \<open>Scheduled tasks (\<open>internal/scheduledtask\<close>)\<close>

text \<open>
  The scheduler keeps schedules and the history of their runs in one file, and turns a due schedule
  into an agent task. The file store, every operation of the service and the three critical sections
  of \<open>trigger\<close> (reserving a run, creating the agent task outside the lock, recording the outcome, and
  the deferred release) are functions on explicit state; \<open>trigger\<close> composes the sections, and the
  properties let the sections of several callers interleave.

  The agent task service behind the interface \<open>agentTaskRunner\<close> is an argument: what its \<open>List\<close>
  returns when it is called, and what \<open>CreateAgentTask\<close> answers. \<open>checkAgent\<close> is the configured check,
  \<^const>\<open>None\<close> where it is not configured. The clock readings are arguments.
\<close>

subsection \<open>Data (\<open>model.go\<close>)\<close>

definition RecurrenceOnce :: string where "RecurrenceOnce = ''once''"
definition RecurrenceDaily :: string where "RecurrenceDaily = ''daily''"
definition RecurrenceWeekly :: string where "RecurrenceWeekly = ''weekly''"
definition RecurrenceMonthly :: string where "RecurrenceMonthly = ''monthly''"
definition RunTriggered :: string where "RunTriggered = ''triggered''"
definition RunFailed :: string where "RunFailed = ''failed''"

lemmas recurrence_defs = RecurrenceOnce_def RecurrenceDaily_def RecurrenceWeekly_def RecurrenceMonthly_def

record SchedTask =
  st_ID :: string
  st_Title :: string
  st_AgentID :: string
  st_Prompt :: string
  st_Recurrence :: string
  st_Enabled :: bool
  st_NextRunAt :: time
  st_LastRunAt :: "time option"
  st_ExpiresAt :: "time option"
  st_CreatedAt :: time
  st_UpdatedAt :: time

record Run =
  rn_ID :: string
  rn_ScheduledTaskID :: string
  rn_TriggeredAt :: time
  rn_Status :: string
  rn_TaskID :: string
  rn_Error :: string

record SchedCreateInput =
  sci_Title :: string
  sci_AgentID :: string
  sci_Prompt :: string
  sci_Recurrence :: string
  sci_FirstRunAt :: time
  sci_ExpiresAt :: "time option"
  sci_Enabled :: bool

record SchedUpdateInput =
  sui_ID :: string
  sui_Title :: "string option"
  sui_AgentID :: "string option"
  sui_Prompt :: "string option"
  sui_Recurrence :: "string option"
  sui_NextRunAt :: "time option"
  sui_ExpiresAt :: "time option option"
  sui_Enabled :: "bool option"

record sstate =
  ss_NextTaskID :: int
  ss_NextRunID :: int
  ss_Tasks :: "SchedTask list"
  ss_Runs :: "Run list"

subsection \<open>The file (\<open>store.go\<close>)\<close>

text \<open>
  The state file and the temporary file beside it. A file is absent, empty, a value in JSON or
  undecodable. Each access takes the next entry of \<open>sd_faults\<close>: whether it fails; no access fails
  after the list has ended. A failed write leaves an undecodable temporary file; a rename happens
  or does not.
\<close>

datatype sfile = Absent | Empty | Stored sstate | Broken

record sched_disk =
  sd_state :: sfile
  sd_tmp :: sfile
  sd_faults :: "bool list"

datatype sched_error =
    SchedNotFound | SchedMissing string | SchedBadRecurrence | SchedExpiresBeforeNext
  | SchedCheck string | SchedIO | SchedDecode | ErrActiveTask

definition access :: "sched_disk \<Rightarrow> bool \<times> sched_disk" where
  "access d = (case sd_faults d of [] \<Rightarrow> (False, d) | f # fs \<Rightarrow> (f, d\<lparr>sd_faults := fs\<rparr>))"

definition fresh_state :: sstate where
  "fresh_state = \<lparr>ss_NextTaskID = 1, ss_NextRunID = 1, ss_Tasks = [], ss_Runs = []\<rparr>"

definition loadLocked :: "(sched_disk, sched_error, sstate) sm" where
  "loadLocked d =
     (case access d of (failed, d) \<Rightarrow>
        if failed then (Inl SchedIO, d)
        else case sd_state d of
          Absent \<Rightarrow> (Inr fresh_state, d)
        | Empty \<Rightarrow> (Inr fresh_state, d)
        | Broken \<Rightarrow> (Inl SchedDecode, d)
        | Stored s \<Rightarrow>
            (Inr (s\<lparr>ss_NextTaskID := (if ss_NextTaskID s \<le> 0 then 1 else ss_NextTaskID s),
                    ss_NextRunID := (if ss_NextRunID s \<le> 0 then 1 else ss_NextRunID s)\<rparr>), d))"

definition SchedSave :: "sstate \<Rightarrow> (sched_disk, sched_error, unit) sm" where
  "SchedSave s d =
     (case access d of (failed, d) \<Rightarrow>
        if failed then (Inl SchedIO, d)
        else case access d of (failed, d) \<Rightarrow>
          if failed then (Inl SchedIO, d\<lparr>sd_tmp := Broken\<rparr>)
          else
            let d = d\<lparr>sd_tmp := Stored s\<rparr> in
            case access d of (failed, d) \<Rightarrow>
              if failed then (Inl SchedIO, d)
              else (Inr (), d\<lparr>sd_state := Stored s, sd_tmp := Absent\<rparr>))"

subsection \<open>Identifiers of agents (\<open>internal/agentengine/agents/id.go\<close>)\<close>

definition AgentIDPrefix :: string where "AgentIDPrefix = ''agent-''"

definition canonicalAgentID :: "string \<Rightarrow> string" where
  "canonicalAgentID i =
     (let i = TrimSpace i in
      if i = [] then []
      else if i = ''manager'' \<or> i = ''u-manager'' then ''agent-manager''
      else if HasPrefix i AgentIDPrefix then i
      else if HasPrefix i ''u-'' \<and> TrimPrefix i ''u-'' \<noteq> [] then
        (let suffix = TrimPrefix i ''u-'' in
         if HasPrefix suffix AgentIDPrefix then suffix else AgentIDPrefix @ suffix)
      else AgentIDPrefix @ i)"

subsection \<open>Recurrence\<close>

definition validRecurrence :: "string \<Rightarrow> bool" where
  "validRecurrence value \<longleftrightarrow>
     TrimSpace value \<in> {[], RecurrenceOnce, RecurrenceDaily, RecurrenceWeekly, RecurrenceMonthly}"

definition normalizeRecurrence :: "string \<Rightarrow> string" where
  "normalizeRecurrence value =
     (if TrimSpace value \<in> {RecurrenceDaily, RecurrenceWeekly, RecurrenceMonthly} then TrimSpace value else RecurrenceOnce)"

text \<open>The three functions that \<open>nextRunAt\<close> passes to the loop.\<close>

datatype interval = EveryDay | EveryWeek | EveryMonth

fun advance :: "int \<Rightarrow> interval \<Rightarrow> time \<Rightarrow> time" where
  "advance zone EveryDay t = AddDate zone 0 0 1 t"
| "advance zone EveryWeek t = AddDate zone 0 0 7 t"
| "advance zone EveryMonth t = AddDate zone 0 1 0 t"

lemma advance_later: "t < advance zone i t"
proof (cases i)
  case EveryMonth
  have "0 < day_ns" by (simp add: day_ns_def)
  with EveryMonth AddDate_month [of t zone] show ?thesis by simp
qed (simp_all add: AddDate_days day_ns_def)

function advance_loop :: "int \<Rightarrow> interval \<Rightarrow> time \<Rightarrow> time \<Rightarrow> time" where
  "advance_loop zone i from next =
     (if next > from then next else advance_loop zone i from (advance zone i next))"
  by pat_completeness auto
termination
  by (relation "measure (\<lambda>(zone, i, from, next). nat (from + 1 - next))") (auto simp: advance_later)

declare advance_loop.simps [simp del]

definition advanceUntilAfter :: "int \<Rightarrow> interval \<Rightarrow> time \<Rightarrow> time \<Rightarrow> time" where
  "advanceUntilAfter zone i next from = advance_loop zone i from (if next = 0 then from else next)"

definition nextRunAt :: "int \<Rightarrow> SchedTask \<Rightarrow> time \<Rightarrow> time \<times> bool" where
  "nextRunAt zone item from =
     (let r = normalizeRecurrence (st_Recurrence item) in
      if r = RecurrenceDaily then (advanceUntilAfter zone EveryDay (st_NextRunAt item) from, True)
      else if r = RecurrenceWeekly then (advanceUntilAfter zone EveryWeek (st_NextRunAt item) from, True)
      else if r = RecurrenceMonthly then (advanceUntilAfter zone EveryMonth (st_NextRunAt item) from, True)
      else (0, False))"

definition expired :: "SchedTask \<Rightarrow> time \<Rightarrow> bool" where
  "expired item at = (case st_ExpiresAt item of None \<Rightarrow> False | Some e \<Rightarrow> at > e)"

definition validateSchedule :: "SchedTask \<Rightarrow> sched_error option" where
  "validateSchedule item =
     (if st_Enabled item \<and> st_NextRunAt item \<noteq> 0 \<and>
         (case st_ExpiresAt item of None \<Rightarrow> False | Some e \<Rightarrow> e < st_NextRunAt item)
      then Some SchedExpiresBeforeNext else None)"

subsection \<open>The service (\<open>service.go\<close>)\<close>

record SchedService =
  sv_state :: sstate
  sv_inFlight :: "(string, unit) gomap"

type_synonym agent_check = "(string \<Rightarrow> string option) option"

type_synonym 'a sched = "(SchedService \<times> sched_disk, sched_error, 'a) sm"

definition run_check :: "agent_check \<Rightarrow> string \<Rightarrow> sched_error option" where
  "run_check check agentID =
     (case check of None \<Rightarrow> None | Some f \<Rightarrow> map_option SchedCheck (f agentID))"

definition NewSchedService :: "(sched_disk, sched_error, SchedService) sm" where
  "NewSchedService = bindE loadLocked (\<lambda>s. returnE \<lparr>sv_state = s, sv_inFlight = []\<rparr>)"

text \<open>Save, and take the new state over only if that worked.\<close>

definition commit :: "sstate \<Rightarrow> 'a \<Rightarrow> 'a sched" where
  "commit s a x =
     (case x of (sv, d) \<Rightarrow>
        (case SchedSave s d of
           (Inl e, d') \<Rightarrow> (Inl e, (sv, d'))
         | (Inr _, d') \<Rightarrow> (Inr a, (sv\<lparr>sv_state := s\<rparr>, d'))))"

fun indexTask :: "SchedTask list \<Rightarrow> string \<Rightarrow> nat option" where
  "indexTask [] i = None"
| "indexTask (item # items) i = (if st_ID item = TrimSpace i then Some 0 else map_option Suc (indexTask items i))"

definition SchedList :: "SchedService \<Rightarrow> SchedTask list" where
  "SchedList sv = sort_key (\<lambda>t. (st_NextRunAt t, st_CreatedAt t)) (ss_Tasks (sv_state sv))"

definition Runs :: "SchedService \<Rightarrow> string \<Rightarrow> Run list" where
  "Runs sv taskID =
     (let taskID = TrimSpace taskID in
      if taskID = [] then []
      else sort_key (\<lambda>r. - rn_TriggeredAt r) (filter (\<lambda>r. rn_ScheduledTaskID r = taskID) (ss_Runs (sv_state sv))))"

definition SchedCreate :: "agent_check \<Rightarrow> time \<Rightarrow> SchedCreateInput \<Rightarrow> SchedTask sched" where
  "SchedCreate check now input x =
     (case run_check check (sci_AgentID input) of
        Some e \<Rightarrow> throwE e x
      | None \<Rightarrow>
          let title = TrimSpace (sci_Title input);
              agentID = canonicalAgentID (sci_AgentID input);
              prompt = TrimSpace (sci_Prompt input) in
          if \<not> validRecurrence (sci_Recurrence input) then throwE SchedBadRecurrence x
          else if title = [] then throwE (SchedMissing ''title'') x
          else if agentID = [] then throwE (SchedMissing ''agent_id'') x
          else if prompt = [] then throwE (SchedMissing ''prompt'') x
          else if sci_FirstRunAt input = 0 then throwE (SchedMissing ''first_run_at'') x
          else
            let s = sv_state (fst x);
                item = \<lparr>st_ID = ''scheduled-task-'' @ dec_of_int (ss_NextTaskID s), st_Title = title, st_AgentID = agentID,
                  st_Prompt = prompt, st_Recurrence = normalizeRecurrence (sci_Recurrence input),
                  st_Enabled = sci_Enabled input, st_NextRunAt = sci_FirstRunAt input, st_LastRunAt = None,
                  st_ExpiresAt = sci_ExpiresAt input, st_CreatedAt = now, st_UpdatedAt = now\<rparr> in
            case validateSchedule item of
              Some e \<Rightarrow> throwE e x
            | None \<Rightarrow> commit (s\<lparr>ss_NextTaskID := wrap64 (ss_NextTaskID s + 1), ss_Tasks := ss_Tasks s @ [item]\<rparr>) item x)"

definition apply_update :: "SchedUpdateInput \<Rightarrow> SchedTask \<Rightarrow> SchedTask" where
  "apply_update input item =
     item\<lparr>st_Title := (case sui_Title input of None \<Rightarrow> st_Title item | Some v \<Rightarrow> TrimSpace v),
       st_AgentID := (case sui_AgentID input of None \<Rightarrow> st_AgentID item | Some v \<Rightarrow> canonicalAgentID v),
       st_Prompt := (case sui_Prompt input of None \<Rightarrow> st_Prompt item | Some v \<Rightarrow> TrimSpace v),
       st_Recurrence := (case sui_Recurrence input of None \<Rightarrow> st_Recurrence item | Some v \<Rightarrow> normalizeRecurrence v),
       st_NextRunAt := (case sui_NextRunAt input of None \<Rightarrow> st_NextRunAt item | Some v \<Rightarrow> v),
       st_ExpiresAt := (case sui_ExpiresAt input of None \<Rightarrow> st_ExpiresAt item | Some v \<Rightarrow> v),
       st_Enabled := (case sui_Enabled input of None \<Rightarrow> st_Enabled item | Some v \<Rightarrow> v)\<rparr>"

definition SchedUpdate :: "agent_check \<Rightarrow> time \<Rightarrow> SchedUpdateInput \<Rightarrow> SchedTask sched" where
  "SchedUpdate check now input x =
     (let s = sv_state (fst x) in
      case indexTask (ss_Tasks s) (sui_ID input) of
        None \<Rightarrow> throwE SchedNotFound x
      | Some idx \<Rightarrow>
          let item = apply_update input (ss_Tasks s ! idx) in
          if (case sui_Recurrence input of None \<Rightarrow> False | Some v \<Rightarrow> \<not> validRecurrence v) then throwE SchedBadRecurrence x
          else if st_Title item = [] then throwE (SchedMissing ''title'') x
          else if st_AgentID item = [] then throwE (SchedMissing ''agent_id'') x
          else if st_Prompt item = [] then throwE (SchedMissing ''prompt'') x
          else case (if st_Enabled item then run_check check (st_AgentID item) else None) of
            Some e \<Rightarrow> throwE e x
          | None \<Rightarrow>
              if st_Enabled item \<and> st_NextRunAt item = 0 then throwE (SchedMissing ''next_run_at'') x
              else case validateSchedule item of
                Some e \<Rightarrow> throwE e x
              | None \<Rightarrow>
                  let item = item\<lparr>st_UpdatedAt := now\<rparr> in
                  commit (s\<lparr>ss_Tasks := (ss_Tasks s)[idx := item]\<rparr>) item x)"

definition SchedDelete :: "string \<Rightarrow> unit sched" where
  "SchedDelete i x =
     (let s = sv_state (fst x) in
      case indexTask (ss_Tasks s) i of
        None \<Rightarrow> throwE SchedNotFound x
      | Some idx \<Rightarrow> commit (s\<lparr>ss_Tasks := take idx (ss_Tasks s) @ drop (Suc idx) (ss_Tasks s)\<rparr>) () x)"

text \<open>\<open>DisableAgent\<close> reads the clock once per schedule that it disables.\<close>

fun disable_tasks :: "(nat \<Rightarrow> time) \<Rightarrow> nat \<Rightarrow> string \<Rightarrow> SchedTask list \<Rightarrow> SchedTask list" where
  "disable_tasks clock n i [] = []"
| "disable_tasks clock n i (t # ts) =
     (if st_AgentID t = i then t\<lparr>st_Enabled := False, st_UpdatedAt := clock n\<rparr> # disable_tasks clock (Suc n) i ts
      else t # disable_tasks clock n i ts)"

definition DisableAgent :: "(nat \<Rightarrow> time) \<Rightarrow> string \<Rightarrow> unit sched" where
  "DisableAgent clock i x =
     (let s = sv_state (fst x) in commit (s\<lparr>ss_Tasks := disable_tasks clock 0 i (ss_Tasks s)\<rparr>) () x)"

subsection \<open>Triggering\<close>

text \<open>
  The runner is nil (\<^const>\<open>None\<close>) or a service whose \<open>List\<close> returns the tasks given. The loop over the
  runs goes from the newest back to the first of the schedule that names a task.
\<close>

definition isTerminalTaskStatus :: "string \<Rightarrow> bool" where
  "isTerminalTaskStatus status \<longleftrightarrow> TrimSpace status \<in> {StatusCompleted, StatusFailed, StatusCancelled}"

definition latest_task :: "Run list \<Rightarrow> string \<Rightarrow> string" where
  "latest_task runs i =
     (case find (\<lambda>r. rn_ScheduledTaskID r = i \<and> TrimSpace (rn_TaskID r) \<noteq> []) (rev runs) of
        None \<Rightarrow> []
      | Some r \<Rightarrow> TrimSpace (rn_TaskID r))"

definition hasActiveRunLocked :: "Task list option \<Rightarrow> sstate \<Rightarrow> string \<Rightarrow> bool" where
  "hasActiveRunLocked runner s i =
     (case runner of
        None \<Rightarrow> False
      | Some tasks \<Rightarrow>
          let taskID = latest_task (ss_Runs s) i in
          if taskID = [] then False
          else case find (\<lambda>t. t_ID t = taskID) tasks of
            None \<Rightarrow> False
          | Some t \<Rightarrow> \<not> isTerminalTaskStatus (t_Status t))"

definition inFlightLocked :: "SchedService \<Rightarrow> string \<Rightarrow> bool" where
  "inFlightLocked sv i \<longleftrightarrow> mget (sv_inFlight sv) (TrimSpace i) \<noteq> None"

definition taskIDForRunID :: "string \<Rightarrow> string" where
  "taskIDForRunID runID = (let runID = TrimSpace runID in if runID = [] then [] else ''task-'' @ runID)"

definition new_run :: "sstate \<Rightarrow> SchedTask \<Rightarrow> time \<Rightarrow> Run" where
  "new_run s item now =
     (let i = ''scheduled-run-'' @ dec_of_int (ss_NextRunID s) in
      \<lparr>rn_ID = i, rn_ScheduledTaskID = st_ID item, rn_TriggeredAt = now, rn_Status = RunTriggered,
       rn_TaskID = taskIDForRunID i, rn_Error = []\<rparr>)"

text \<open>The first section: refuse while a run is under way, otherwise reserve and record the run.\<close>

definition trigger_begin :: "Task list option \<Rightarrow> time \<Rightarrow> SchedTask \<Rightarrow> Run sched" where
  "trigger_begin runner now item x =
     (let s = sv_state (fst x) in
      if inFlightLocked (fst x) (st_ID item) \<or> hasActiveRunLocked runner s (st_ID item) then throwE ErrActiveTask x
      else
        let run = new_run s item now in
        case commit (s\<lparr>ss_NextRunID := wrap64 (ss_NextRunID s + 1), ss_Runs := ss_Runs s @ [run]\<rparr>) run x of
          (Inl e, y) \<Rightarrow> (Inl e, y)
        | (Inr run, (sv, d)) \<Rightarrow> (Inr run, (sv\<lparr>sv_inFlight := mput (st_ID item) () (sv_inFlight sv)\<rparr>, d)))"

text \<open>
  The outcome of \<open>CreateAgentTask\<close>: the error it returned, or the identifier of the task; \<^const>\<open>None\<close> if
  there is no runner.
\<close>

definition run_outcome :: "(string + string) option \<Rightarrow> Run \<Rightarrow> Run" where
  "run_outcome created run =
     (case created of
        None \<Rightarrow> run\<lparr>rn_Status := RunFailed, rn_Error := ''agent task service is not configured''\<rparr>
      | Some (Inl e) \<Rightarrow> run\<lparr>rn_Status := RunFailed, rn_Error := e\<rparr>
      | Some (Inr i) \<Rightarrow> run\<lparr>rn_TaskID := i\<rparr>)"

definition advance_schedule :: "int \<Rightarrow> bool \<Rightarrow> time \<Rightarrow> SchedTask \<Rightarrow> SchedTask" where
  "advance_schedule zone advanceSchedule now item =
     (let updated = item\<lparr>st_LastRunAt := Some now, st_UpdatedAt := now\<rparr> in
      if advanceSchedule \<and> st_Enabled updated then
        case nextRunAt zone updated now of
          (scheduledNext, ok) \<Rightarrow>
            let updated = updated\<lparr>st_NextRunAt := scheduledNext\<rparr> in
            updated\<lparr>st_Enabled := (ok \<and> \<not> expired updated scheduledNext)\<rparr>
      else updated)"

text \<open>The newest run with the identifier is replaced.\<close>

fun replace_run :: "Run \<Rightarrow> Run list \<Rightarrow> Run list" where
  "replace_run run [] = []"
| "replace_run run (r # rs) = (if rn_ID r = rn_ID run then run # rs else r # replace_run run rs)"

definition finished_state :: "int \<Rightarrow> string \<Rightarrow> bool \<Rightarrow> time \<Rightarrow> Run \<Rightarrow> sstate \<Rightarrow> sstate" where
  "finished_state zone i advanceSchedule now run s =
     s\<lparr>ss_Tasks := (case indexTask (ss_Tasks s) i of
          None \<Rightarrow> ss_Tasks s
        | Some idx \<Rightarrow> (ss_Tasks s)[idx := advance_schedule zone advanceSchedule now (ss_Tasks s ! idx)]),
       ss_Runs := rev (replace_run run (rev (ss_Runs s)))\<rparr>"

text \<open>The last section. The returned pair has a run also if the save failed.\<close>

definition trigger_end ::
  "int \<Rightarrow> Task list option \<Rightarrow> bool \<Rightarrow> bool \<Rightarrow> time \<Rightarrow> SchedTask \<Rightarrow> Run \<Rightarrow> Run sched" where
  "trigger_end zone runner advanceSchedule skipIfActive now item run x =
     (let s = sv_state (fst x) in
      if skipIfActive \<and> rn_Status run = RunFailed \<and> hasActiveRunLocked runner s (st_ID item) then throwE ErrActiveTask x
      else commit (finished_state zone (st_ID item) advanceSchedule now run s) run x)"

definition clear_inFlight :: "string \<Rightarrow> SchedService \<Rightarrow> SchedService" where
  "clear_inFlight i sv = sv\<lparr>sv_inFlight := mdel i (sv_inFlight sv)\<rparr>"

text \<open>
  One call of \<open>trigger\<close> without others in between: \<open>runner\<close> and \<open>runner'\<close> are the tasks listed before and
  after the creation, \<open>created\<close> what the creation answered.
\<close>

definition trigger ::
  "int \<Rightarrow> agent_check \<Rightarrow> Task list option \<Rightarrow> Task list option \<Rightarrow> (string + string) option \<Rightarrow> time \<Rightarrow> bool \<Rightarrow> bool \<Rightarrow>
     SchedTask \<Rightarrow> Run sched" where
  "trigger zone check runner runner' created now advanceSchedule skipIfActive item x =
     (case run_check check (st_AgentID item) of
        Some e \<Rightarrow> throwE e x
      | None \<Rightarrow>
          (case trigger_begin runner now item x of
             (Inl e, y) \<Rightarrow> (Inl e, y)
           | (Inr run, y) \<Rightarrow>
               (case trigger_end zone runner' advanceSchedule skipIfActive now item (run_outcome created run) y of
                  (res, (sv, d)) \<Rightarrow> (res, (clear_inFlight (st_ID item) sv, d)))))"

definition due :: "Task list option \<Rightarrow> time \<Rightarrow> SchedService \<Rightarrow> SchedTask list" where
  "due runner now sv =
     filter (\<lambda>item. st_Enabled item \<and> st_NextRunAt item \<noteq> 0 \<and> st_NextRunAt item \<le> now \<and> \<not> expired item now \<and>
         \<not> hasActiveRunLocked runner (sv_state sv) (st_ID item) \<and> \<not> inFlightLocked sv (st_ID item))
       (ss_Tasks (sv_state sv))"

text \<open>
  \<open>env n\<close> is what the \<open>n\<close>-th trigger of the loop meets: the tasks before and after, the outcome, the
  clock. The result is the runs of the triggers without an error.
\<close>

type_synonym trigger_env = "Task list option \<times> Task list option \<times> (string + string) option \<times> time"

fun trigger_all :: "int \<Rightarrow> agent_check \<Rightarrow> (nat \<Rightarrow> trigger_env) \<Rightarrow> nat \<Rightarrow> SchedTask list \<Rightarrow> SchedService \<times> sched_disk \<Rightarrow>
    Run list \<times> (SchedService \<times> sched_disk)" where
  "trigger_all zone check env n [] x = ([], x)"
| "trigger_all zone check env n (item # items) x =
     (case env n of (runner, runner', created, now) \<Rightarrow>
        (case trigger zone check runner runner' created now True True item x of
           (res, y) \<Rightarrow>
             (case trigger_all zone check env (Suc n) items y of
                (runs, z) \<Rightarrow> ((case res of Inr run \<Rightarrow> [run] | Inl _ \<Rightarrow> []) @ runs, z))))"

definition TriggerDue :: "int \<Rightarrow> agent_check \<Rightarrow> Task list option \<Rightarrow> time \<Rightarrow> (nat \<Rightarrow> trigger_env) \<Rightarrow> SchedService \<times> sched_disk \<Rightarrow>
    Run list \<times> (SchedService \<times> sched_disk)" where
  "TriggerDue zone check runner now env x = trigger_all zone check env 0 (due runner now (fst x)) x"

definition RunNow :: "int \<Rightarrow> agent_check \<Rightarrow> time \<Rightarrow> time \<Rightarrow> trigger_env \<Rightarrow> string \<Rightarrow> Run sched" where
  "RunNow zone check now now' env i x =
     (case indexTask (ss_Tasks (sv_state (fst x))) i of
        None \<Rightarrow> throwE SchedNotFound x
      | Some idx \<Rightarrow>
          let item = ss_Tasks (sv_state (fst x)) ! idx;
              advanceSchedule = (st_Enabled item \<and> st_NextRunAt item \<noteq> 0 \<and> st_NextRunAt item \<le> now \<and> \<not> expired item now') in
          (case env of (runner, runner', created, t) \<Rightarrow>
             trigger zone check runner runner' created t advanceSchedule False item x))"

end
