(* ===== verification/AgentTask.thy ===== *)
theory AgentTask
  imports TaskProps ScheduledTask
begin

section \<open>Agent tasks (\<open>internal/agenttask/service.go\<close>)\<close>

text \<open>
  A task for one agent is a root task of the task service, together with a room in which the agent
  is told about it. Every operation of the service is a function on the state of the task service and
  the log of the calls made to the conversation service.

  What the agents, the participants and the conversation service answer is given by an environment:
  the lookup of agents (\<^const>\<open>None\<close> where the engine is not configured), the participants of an agent,
  and the answers of the four calls that one creation may make. The log records these calls with the
  arguments that vary. The task service is always configured. An error that joins a further error which is
  nil has the text of the first one, and is that error here.
\<close>

declare map_of_eq_Some_iff [simp del] Some_eq_map_of_iff [simp del]

subsection \<open>Data\<close>

definition ManagerName :: string where "ManagerName = ''manager''"
definition ManagerParticipantID :: string where "ManagerParticipantID = ''pt-manager''"
definition ManagerUserID :: string where "ManagerUserID = ''agent-manager''"
definition RoleWorker :: string where "RoleWorker = ''worker''"
definition RoleManager :: string where "RoleManager = ''manager''"
definition AdminUserID :: string where "AdminUserID = ''user-admin''"

record AgentCreateInput =
  aci_ID :: string
  aci_AgentID :: string
  aci_Title :: string
  aci_Body :: string
  aci_CreatedBy :: string
  aci_NewTaskSession :: bool

record AgentClaimInput =
  acl_TaskID :: string
  acl_ParticipantID :: string

record AgentUpdateInput =
  aui_TaskID :: string
  aui_ActorID :: string
  aui_Status :: string
  aui_Result :: string
  aui_Error :: string
  aui_Reason :: string

datatype at_error =
    AtText string | AtAgentNotFound string | AtUnsupportedStatus string
  | AtCore error | AtIM string | AtJoin at_error at_error

record agent_info =
  ag_Name :: string
  ag_Description :: string
  ag_Archived :: bool

text \<open>The user and room of \<open>EnsureAgentUser\<close>, the room of \<open>CreateRoom\<close>, and the errors of the other two calls.\<close>

record im_answers =
  im_ensure :: "string + (string \<times> string option)"
  im_create :: "string + string"
  im_delete :: "string option"
  im_deliver :: "string option"

record agent_env =
  ae_agents :: "(string \<Rightarrow> agent_info option) option"
  ae_participants :: "(string \<Rightarrow> string list) option"
  ae_im :: "im_answers option"

datatype im_call =
    EnsureAgentUser (eu_id: string) (eu_name: string) (eu_description: string) (eu_role: string) (eu_skip: bool)
  | CreateRoom (room_title: string) (room_creator: string) (room_members: "string list")
  | DeleteRoom string
  | DeliverEvent (de_room: string) (de_mention: string) (de_content: string) (de_message: string)
      (de_actor: string) (de_title: string)

type_synonym at_state = "svc_state \<times> im_call list"

subsection \<open>Texts\<close>

text \<open>\<open>strings.Fields\<close> on UTF-8: the maximal parts without a space.\<close>

function fields_of :: "string \<Rightarrow> string \<Rightarrow> string list" where
  "fields_of cur [] = (if cur = [] then [] else [rev cur])"
| "fields_of cur (c # cs) =
     (case find (\<lambda>e. starts_with e (c # cs)) go_spaces of
        None \<Rightarrow> fields_of (c # cur) cs
      | Some e \<Rightarrow> (if cur = [] then [] else [rev cur]) @ fields_of [] (drop (length e - 1) cs))"
  by pat_completeness auto
termination by (relation "measure (\<lambda>(cur, s). length s)") auto

definition Fields :: "string \<Rightarrow> string list" where
  "Fields s = fields_of [] s"

fun Join :: "string list \<Rightarrow> string \<Rightarrow> string" where
  "Join [] sep = []"
| "Join [x] sep = x"
| "Join (x # y # xs) sep = x @ sep @ Join (y # xs) sep"

definition newline :: string where "newline = [CHR 0x0A]"

definition quote :: string where "quote = [CHR 0x22]"

definition compactTaskAssignmentTitle :: "string \<Rightarrow> string" where
  "compactTaskAssignmentTitle title = Join (Fields (TrimSpace title)) '' ''"

definition renderTaskAssignmentEventTitle :: "string \<Rightarrow> string \<Rightarrow> string" where
  "renderTaskAssignmentEventTitle taskID title =
     (let taskLabel = (if TrimSpace taskID = [] then ''task'' else TrimSpace taskID);
          title = compactTaskAssignmentTitle title in
      if title = [] then taskLabel else taskLabel @ '' ['' @ title @ '']'')"

definition renderInitialMessage :: "Task \<Rightarrow> string" where
  "renderInitialMessage task =
     ''Task '' @ t_ID task @ '' assigned to you.'' @ newline @ newline @ ''Title: '' @ t_Title task @
     (if TrimSpace (t_Body task) \<noteq> [] then newline @ newline @ ''Description:'' @ newline @ TrimSpace (t_Body task) else []) @
     newline @ newline @ ''Claim it with:'' @ newline @
     ''csgclaw-cli task claim --task '' @ t_ID task @ '' --actor-id '' @ t_AssignedTo task @
     newline @ ''If blocked, claim it again when ready to resume.'' @
     newline @ newline @ ''When finished, update it with:'' @ newline @
     ''csgclaw-cli task update --task '' @ t_ID task @ '' --actor-id '' @ t_AssignedTo task @
     '' --status completed --result '' @ quote @ ''<summary>'' @ quote"

definition fallbackAgentName :: "string \<Rightarrow> string" where
  "fallbackAgentName agentID =
     (let agentID = TrimSpace agentID in
      if agentID = ManagerUserID then ManagerName
      else
        let name = TrimPrefix (TrimPrefix agentID AgentIDPrefix) ''u-'' in
        if name = [] then ''agent'' else name)"

subsection \<open>Lookup of agents and participants\<close>

definition agentIdentity :: "agent_env \<Rightarrow> string \<Rightarrow> at_error + string \<times> string" where
  "agentIdentity env agentID =
     (case ae_agents env of
        None \<Rightarrow> Inr (fallbackAgentName agentID, [])
      | Some get \<Rightarrow>
          (case get agentID of
             None \<Rightarrow> Inl (AtAgentNotFound agentID)
           | Some got \<Rightarrow>
               if ag_Archived got then Inl (AtText ''agent is archived'')
               else Inr (firstNonEmpty [TrimSpace (ag_Name got), fallbackAgentName agentID], TrimSpace (ag_Description got))))"

definition participantIDForAgentID :: "agent_env \<Rightarrow> string \<Rightarrow> string" where
  "participantIDForAgentID env agentID =
     (let agentID = TrimSpace agentID;
          known = (case ae_participants env of None \<Rightarrow> [] | Some list \<Rightarrow> filter (\<lambda>p. p \<noteq> []) (map TrimSpace (list agentID))) in
      if agentID = [] then []
      else case known of
        p # _ \<Rightarrow> p
      | [] \<Rightarrow>
          if agentID = ManagerUserID then ManagerParticipantID
          else
            let suffix = TrimPrefix agentID AgentIDPrefix in
            ''pt-'' @ (if suffix = [] then agentID else suffix))"

subsection \<open>Operations\<close>

definition log_call :: "im_call \<Rightarrow> at_state \<Rightarrow> at_state" where
  "log_call call x = (fst x, snd x @ [call])"

definition on_tasks :: "'a svc \<Rightarrow> (at_state, at_error, 'a) sm" where
  "on_tasks f x = (case f (fst x) of (res, y) \<Rightarrow> (map_sum AtCore id res, (y, snd x)))"

definition root_input :: "agent_env \<Rightarrow> AgentCreateInput \<Rightarrow> string \<Rightarrow> CreateRootInput" where
  "root_input env input room =
     (let agentID = canonicalAgentID (aci_AgentID input) in
      \<lparr>cr_Status = [], cr_SourceMessageID = [], cr_ID = TrimSpace (aci_ID input), cr_AssignmentType = AssignmentTypeAgent,
       cr_AssignmentID = agentID, cr_Title = TrimSpace (aci_Title input), cr_Body = TrimSpace (aci_Body input),
       cr_CreatedBy = firstNonEmpty [TrimSpace (aci_CreatedBy input), AdminUserID],
       cr_AssignedTo = participantIDForAgentID env agentID, cr_ExecutionChannel = ''csgclaw'', cr_RoomID = room,
       cr_DependsOn = []\<rparr>)"

text \<open>The transaction that marks a task failed whose assignment could not be delivered.\<close>

definition undelivered :: "Task \<Rightarrow> string \<Rightarrow> time \<Rightarrow> unit change" where
  "undelivered task err now a x =
     (Inr (a\<lparr>sn_Root := (sn_Root a)\<lparr>t_Status := StatusFailed, t_Error := err, t_UpdatedAt := now\<rparr>,
        sn_Events := sn_Events a @ [zero_event\<lparr>e_Type := EventTaskFailed, e_TaskID := t_ID task,
          e_ActorID := t_CreatedBy task, e_Summary := err\<rparr>]\<rparr>, ()), x)"

text \<open>
  The three parts of \<open>CreateAgentTask\<close>: choosing the room, creating the task in it, and delivering the
  assignment. \<open>now\<close> is the clock reading of the creation, \<open>clock\<close> gives the later ones.
\<close>

definition choose_room :: "im_answers \<Rightarrow> AgentCreateInput \<Rightarrow> string \<Rightarrow> string \<Rightarrow> (at_state, at_error, string \<times> string) sm" where
  "choose_room im input name description x =
     (let agentID = canonicalAgentID (aci_AgentID input);
          role = (if agentID = ManagerUserID then RoleManager else RoleWorker);
          x = log_call (EnsureAgentUser agentID name description role (aci_NewTaskSession input)) x in
      case im_ensure im of
        Inl e \<Rightarrow> throwE (AtIM e) x
      | Inr (user, room) \<Rightarrow>
          if aci_NewTaskSession input then
            let x = log_call (CreateRoom (TrimSpace (aci_Title input)) AdminUserID [user]) x in
            (case im_create im of
               Inl e \<Rightarrow> throwE (AtIM e) x
             | Inr session \<Rightarrow> returnE (user, session) x)
          else case room of
            None \<Rightarrow> throwE (AtText ''agent direct room was not created'') x
          | Some r \<Rightarrow> returnE (user, r) x)"

definition create_in_room :: "agent_env \<Rightarrow> im_answers \<Rightarrow> time \<Rightarrow> AgentCreateInput \<Rightarrow> string \<Rightarrow> (at_state, at_error, Task) sm" where
  "create_in_room env im now input room x =
     (case on_tasks (CreateRoot (root_input env input room) now) x of
        (Inr task, y) \<Rightarrow> (Inr task, y)
      | (Inl e, y) \<Rightarrow>
          if aci_NewTaskSession input then
            (Inl (case im_delete im of None \<Rightarrow> e | Some e' \<Rightarrow> AtJoin e (AtIM e')), log_call (DeleteRoom room) y)
          else (Inl e, y))"

definition assignment_event :: "AgentCreateInput \<Rightarrow> string \<Rightarrow> string \<Rightarrow> Task \<Rightarrow> im_call" where
  "assignment_event input user room task =
     DeliverEvent room user (renderInitialMessage task) (''agent-task-'' @ t_ID task @ ''-created'')
       (firstNonEmpty [TrimSpace (aci_CreatedBy input), AdminUserID])
       (renderTaskAssignmentEventTitle (t_ID task) (t_Title task))"

definition deliver_assignment ::
  "im_answers \<Rightarrow> (nat \<Rightarrow> time) \<Rightarrow> AgentCreateInput \<Rightarrow> string \<Rightarrow> string \<Rightarrow> Task \<Rightarrow> (at_state, at_error, Task) sm" where
  "deliver_assignment im clock input user room task x =
     (let x = log_call (assignment_event input user room task) x in
      case im_deliver im of
        None \<Rightarrow> (Inr task, x)
      | Some e \<Rightarrow>
          if aci_NewTaskSession input then
            (case on_tasks (Mutate (t_ID task) (undelivered task e (clock 0)) (\<lambda>n. clock (Suc n))) x of
               (Inr _, y) \<Rightarrow> (Inl (AtIM e), y)
             | (Inl e', y) \<Rightarrow> (Inl (AtJoin (AtIM e) e'), y))
          else (Inl (AtIM e), x))"

definition CreateAgentTask :: "agent_env \<Rightarrow> time \<Rightarrow> (nat \<Rightarrow> time) \<Rightarrow> AgentCreateInput \<Rightarrow> (at_state, at_error, Task) sm" where
  "CreateAgentTask env now clock input =
     (case ae_im env of
        None \<Rightarrow> throwE (AtText ''im service is not configured'')
      | Some im \<Rightarrow>
          let agentID = canonicalAgentID (aci_AgentID input) in
          if agentID = [] then throwE (AtText ''agent_id is required'')
          else if TrimSpace (aci_Title input) = [] then throwE (AtText ''title is required'')
          else case agentIdentity env agentID of
            Inl e \<Rightarrow> throwE e
          | Inr (name, description) \<Rightarrow>
              bindE (choose_room im input name description) (\<lambda>(user, room).
                bindE (create_in_room env im now input room) (deliver_assignment im clock input user room)))"

definition AgentList :: "Service \<Rightarrow> Task list" where
  "AgentList s = filter (\<lambda>t. t_AssignmentType t = AssignmentTypeAgent) (ListGlobal s)"

text \<open>The kind of assignment is looked at only after the task service has made the change.\<close>

definition agent_only :: "Task svc \<Rightarrow> (at_state, at_error, Task) sm" where
  "agent_only f = bindE (on_tasks f) (\<lambda>task.
     if t_AssignmentType task \<noteq> AssignmentTypeAgent then throwE (AtCore ErrTaskNotFound) else returnE task)"

definition AgentClaim :: "time \<Rightarrow> AgentClaimInput \<Rightarrow> (at_state, at_error, Task) sm" where
  "AgentClaim now input =
     agent_only (Claim \<lparr>cl_TaskID = acl_TaskID input, cl_ParticipantID = TrimSpace (acl_ParticipantID input)\<rparr> now)"

definition AgentUpdate :: "time \<Rightarrow> AgentUpdateInput \<Rightarrow> (at_state, at_error, Task) sm" where
  "AgentUpdate now input =
     (let status = TrimSpace (aui_Status input); actor = TrimSpace (aui_ActorID input) in
      if status = StatusCompleted then
        agent_only (Complete \<lparr>co_TaskID = aui_TaskID input, co_ActorID = actor, co_Result = TrimSpace (aui_Result input)\<rparr> now)
      else if status = StatusFailed then
        agent_only (Fail \<lparr>fa_TaskID = aui_TaskID input, fa_ActorID = actor, fa_Error = TrimSpace (aui_Error input)\<rparr> now)
      else if status = StatusBlocked then
        agent_only (Block \<lparr>bl_TaskID = aui_TaskID input, bl_ActorID = actor, bl_Reason = TrimSpace (aui_Reason input)\<rparr> now)
      else throwE (AtUnsupportedStatus (aui_Status input)))"

definition closed_status :: "string \<Rightarrow> bool" where
  "closed_status status \<longleftrightarrow> status \<in> {StatusCompleted, StatusFailed, StatusCancelled}"

definition cancel_change :: "time \<Rightarrow> unit change" where
  "cancel_change now a x =
     (if closed_status (t_Status (sn_Root a)) then (Inr (a, ()), x)
      else (Inr (a\<lparr>sn_Root := (sn_Root a)\<lparr>t_Status := StatusCancelled, t_Error := ''agent archived'', t_UpdatedAt := now\<rparr>\<rparr>, ()), x))"

fun cancel_each :: "(nat \<Rightarrow> time) \<Rightarrow> nat \<Rightarrow> string \<Rightarrow> Task list \<Rightarrow> unit svc" where
  "cancel_each clock n agentID [] = returnE ()"
| "cancel_each clock n agentID (task # tasks) =
     (if t_AssignmentID task \<noteq> agentID \<or> closed_status (t_Status task) then cancel_each clock n agentID tasks
      else bindE (Mutate (t_ID task) (cancel_change (clock n)) (\<lambda>_. clock n)) (\<lambda>_. cancel_each clock (Suc n) agentID tasks))"

definition AgentCancelTasks :: "(nat \<Rightarrow> time) \<Rightarrow> string \<Rightarrow> unit svc" where
  "AgentCancelTasks clock agentID x = cancel_each clock 0 agentID (AgentList (fst x)) x"

end
