(* ===== verification/SchedProps.thy ===== *)
theory SchedProps
  imports ScheduledTask
begin

section \<open>What the scheduler guarantees\<close>

text \<open>
  The scheduler as a state machine in which the sections of concurrent triggers, the other
  operations and the progress of the generated tasks interleave. The invariant relates the runs,
  the calls under way and the tasks of the runner; it gives that a schedule never has two
  unfinished generated tasks, and that memory and file agree.
\<close>

subsection \<open>Runs and their tasks\<close>

definition run_id :: "int \<Rightarrow> string" where
  "run_id n = ''scheduled-run-'' @ dec_of_int n"

definition run_task :: "int \<Rightarrow> string" where
  "run_task n = ''task-'' @ run_id n"

type_synonym run_key = "string \<times> string \<times> string"

definition key_of :: "Run \<Rightarrow> run_key" where
  "key_of r = (rn_ID r, rn_ScheduledTaskID r, rn_TaskID r)"

abbreviation sid :: "run_key \<Rightarrow> string" where "sid k \<equiv> fst (snd k)"
abbreviation tid :: "run_key \<Rightarrow> string" where "tid k \<equiv> snd (snd k)"

abbreviation run_keys :: "sstate \<Rightarrow> run_key list" where
  "run_keys s \<equiv> map key_of (ss_Runs s)"

definition unfinished :: "Task list \<Rightarrow> string \<Rightarrow> bool" where
  "unfinished ts i \<longleftrightarrow> (\<exists>t \<in> set ts. t_ID t = i \<and> \<not> isTerminalTaskStatus (t_Status t))"

lemma dec_last_digit: "0 \<le> n \<Longrightarrow> visible (last (dec_of_int n))"
  by (simp add: dec_of_int_def)
     (metis dec_of_nat_digits dec_of_nat_nonempty is_digit_visible last_in_set)

lemma dec_of_int_nonempty [simp]: "dec_of_int n \<noteq> []"
  by (simp add: dec_of_int_def)

lemma trimmed_with_number:
  assumes "0 \<le> n" and "p \<noteq> []" and "visible (hd p)"
  shows "trimmed (p @ dec_of_int n)"
  using assms by (intro visible_trimmed) (simp_all add: dec_last_digit)

lemma run_id_trimmed [simp]: "0 \<le> n \<Longrightarrow> TrimSpace (run_id n) = run_id n"
  unfolding run_id_def by (intro trimmed_TrimSpace trimmed_with_number) (simp_all add: visible_def)

lemma taskIDForRunID_run_id: "0 \<le> n \<Longrightarrow> taskIDForRunID (run_id n) = run_task n"
  by (simp add: taskIDForRunID_def Let_def run_task_def) (simp add: run_id_def)

lemma run_task_trimmed [simp]: "0 \<le> n \<Longrightarrow> TrimSpace (run_task n) = run_task n"
  using trimmed_with_number [of n "''task-scheduled-run-''"]
  by (intro trimmed_TrimSpace) (simp add: run_task_def run_id_def visible_def)

lemma run_task_nonempty [simp]: "run_task n \<noteq> []"
  by (simp add: run_task_def)

lemma run_id_inject: "0 \<le> m \<Longrightarrow> 0 \<le> n \<Longrightarrow> run_id m = run_id n \<longleftrightarrow> m = n"
  by (simp add: run_id_def dec_of_int_inject_nonneg)

subsection \<open>The state machine\<close>

datatype sched_call = Creating SchedTask time Run | Ending SchedTask time Run | Clearing string

fun call_sid :: "sched_call \<Rightarrow> string" where
  "call_sid (Creating item now run) = st_ID item"
| "call_sid (Ending item now run) = st_ID item"
| "call_sid (Clearing i) = i"

fun call_run :: "sched_call \<Rightarrow> Run option" where
  "call_run (Creating item now run) = Some run"
| "call_run (Ending item now run) = Some run"
| "call_run (Clearing i) = None"

type_synonym sched_sys = "SchedService \<times> sched_disk \<times> Task list \<times> sched_call list"

datatype sop =
    OpCreate agent_check time SchedCreateInput
  | OpUpdate agent_check time SchedUpdateInput
  | OpDelete string
  | OpDisable "nat \<Rightarrow> time" string

fun exec_sop :: "sop \<Rightarrow> SchedService \<times> sched_disk \<Rightarrow> SchedService \<times> sched_disk" where
  "exec_sop (OpCreate check now input) x = snd (SchedCreate check now input x)"
| "exec_sop (OpUpdate check now input) x = snd (SchedUpdate check now input x)"
| "exec_sop (OpDelete i) x = snd (SchedDelete i x)"
| "exec_sop (OpDisable clock i) x = snd (DisableAgent clock i x)"

text \<open>
  What the tasks of the runner may do by themselves: a finished task stays finished, and nobody else
  creates a task with the identifier of a scheduled run.
\<close>

definition tasks_progress :: "Task list \<Rightarrow> Task list \<Rightarrow> bool" where
  "tasks_progress ts ts' \<longleftrightarrow> distinct (map t_ID ts') \<and>
     (\<forall>n. 0 \<le> n \<longrightarrow> unfinished ts' (run_task n) \<longrightarrow> unfinished ts (run_task n))"

datatype sched_act = Op sop | Begin | Created | End | Clear | Progress

text \<open>
  \<open>CreateAgentTask\<close> is called with the identifier of the run. It may add a task with that
  identifier if there is none, and answers the identifier or an error; an error may come after the
  task was added, when its assignment could not be delivered.
\<close>

inductive sched_step :: "sched_sys \<Rightarrow> sched_act \<Rightarrow> sched_sys \<Rightarrow> bool" where
  step_op: "ss_NextTaskID (sv_state sv) < int64_max \<Longrightarrow> exec_sop op (sv, d) = (sv', d') \<Longrightarrow>
    sched_step (sv, d, ts, calls) (Op op) (sv', d', ts, calls)"
| step_begin: "ss_NextRunID (sv_state sv) < int64_max \<Longrightarrow> trimmed (st_ID item) \<Longrightarrow>
    trigger_begin (Some ts) now item (sv, d) = (Inr run, (sv', d')) \<Longrightarrow>
    sched_step (sv, d, ts, calls) Begin (sv', d', ts, Creating item now run # calls)"
| step_refused: "trigger_begin (Some ts) now item (sv, d) = (Inl e, (sv', d')) \<Longrightarrow>
    sched_step (sv, d, ts, calls) Begin (sv', d', ts, calls)"
| step_created: "distinct (map t_ID ts') \<Longrightarrow>
    set ts' = set ts \<or> (\<exists>t. t_ID t = rn_TaskID run \<and> t_ID t \<notin> t_ID ` set ts \<and> set ts' = insert t (set ts)) \<Longrightarrow>
    res = Inl e \<or> res = Inr (rn_TaskID run) \<Longrightarrow>
    sched_step (sv, d, ts, cs @ Creating item now run # cs') Created
      (sv, d, ts', cs @ Ending item now (run_outcome (Some res) run) # cs')"
| step_end: "trigger_end zone (Some ts) advanceSchedule skipIfActive now item run (sv, d) = (res, (sv', d')) \<Longrightarrow>
    sched_step (sv, d, ts, cs @ Ending item now run # cs') End (sv', d', ts, cs @ Clearing (st_ID item) # cs')"
| step_clear: "sched_step (sv, d, ts, cs @ Clearing i # cs') Clear (clear_inFlight i sv, d, ts, cs @ cs')"
| step_progress: "tasks_progress ts ts' \<Longrightarrow> sched_step (sv, d, ts, calls) Progress (sv, d, ts', calls)"

inductive_cases sched_stepE: "sched_step x a y"

definition sched_init :: "sched_sys \<Rightarrow> bool" where
  "sched_init x \<longleftrightarrow> (\<exists>faults ts. distinct (map t_ID ts) \<and>
     x = (\<lparr>sv_state = fresh_state, sv_inFlight = []\<rparr>, \<lparr>sd_state = Absent, sd_tmp = Absent, sd_faults = faults\<rparr>, ts, []))"

subsection \<open>The invariant\<close>

definition keys_ok :: "sstate \<Rightarrow> bool" where
  "keys_ok s \<longleftrightarrow> 1 \<le> ss_NextTaskID s \<and> 1 \<le> ss_NextRunID s \<and> distinct (map fst (run_keys s)) \<and>
     (\<forall>k \<in> set (run_keys s). \<exists>n. 1 \<le> n \<and> n < ss_NextRunID s \<and> fst k = run_id n \<and> tid k = run_task n)"

definition latest_at :: "run_key list \<Rightarrow> nat \<Rightarrow> bool" where
  "latest_at ks i \<longleftrightarrow> i < length ks \<and> (\<forall>j. i < j \<and> j < length ks \<longrightarrow> sid (ks ! j) \<noteq> sid (ks ! i))"

definition only_latest :: "run_key list \<Rightarrow> Task list \<Rightarrow> bool" where
  "only_latest ks ts \<longleftrightarrow> (\<forall>i < length ks. unfinished ts (tid (ks ! i)) \<longrightarrow> latest_at ks i)"

definition calls_ok :: "SchedService \<Rightarrow> sched_call list \<Rightarrow> bool" where
  "calls_ok sv calls \<longleftrightarrow> distinct (map call_sid calls) \<and>
     (\<forall>c \<in> set calls. mget (sv_inFlight sv) (call_sid c) \<noteq> None) \<and>
     (\<forall>c \<in> set calls. \<forall>run. call_run c = Some run \<longrightarrow>
        (\<exists>i. latest_at (run_keys (sv_state sv)) i \<and> run_keys (sv_state sv) ! i = key_of run \<and> rn_ScheduledTaskID run = call_sid c))"

definition file_ok :: "sstate \<Rightarrow> sched_disk \<Rightarrow> bool" where
  "file_ok s d \<longleftrightarrow> sd_state d = Stored s \<or> (sd_state d = Absent \<and> s = fresh_state)"

fun sched_inv :: "sched_sys \<Rightarrow> bool" where
  "sched_inv (sv, d, ts, calls) \<longleftrightarrow> keys_ok (sv_state sv) \<and> only_latest (run_keys (sv_state sv)) ts \<and>
     calls_ok sv calls \<and> file_ok (sv_state sv) d \<and> distinct (map t_ID ts)"

subsection \<open>Saving\<close>

lemma SchedSave_cases:
  assumes "SchedSave s d = (res, d')"
  obtains (ok) "res = Inr ()" and "sd_state d' = Stored s" | (failed) e where "res = Inl e" and "sd_state d' = sd_state d"
  using assms by (auto simp: SchedSave_def access_def Let_def split: list.splits if_splits prod.splits)

lemma commit_cases:
  assumes "commit s a (sv, d) = (res, (sv', d'))"
  obtains (ok) "res = Inr a" and "sv' = sv\<lparr>sv_state := s\<rparr>" and "sd_state d' = Stored s"
    | (failed) e where "res = Inl e" and "sv' = sv" and "sd_state d' = sd_state d"
proof -
  obtain r d1 where s: "SchedSave s d = (r, d1)" by (rule prod.exhaust)
  from s show thesis
    by (cases rule: SchedSave_cases) (use assms s ok failed in \<open>auto simp: commit_def\<close>)
qed

text \<open>What the operations other than triggers change: the schedules and the counter of schedules.\<close>

definition edits_schedules :: "SchedService \<Rightarrow> SchedService \<Rightarrow> sched_disk \<Rightarrow> bool" where
  "edits_schedules sv sv' d' \<longleftrightarrow> file_ok (sv_state sv') d' \<and> sv_inFlight sv' = sv_inFlight sv \<and>
     ss_Runs (sv_state sv') = ss_Runs (sv_state sv) \<and> ss_NextRunID (sv_state sv') = ss_NextRunID (sv_state sv) \<and>
     1 \<le> ss_NextTaskID (sv_state sv')"

lemma edits_commit:
  assumes "snd (commit s a (sv, d)) = (sv', d')" and "file_ok (sv_state sv) d" and "1 \<le> ss_NextTaskID (sv_state sv)"
    and "ss_Runs s = ss_Runs (sv_state sv)" and "ss_NextRunID s = ss_NextRunID (sv_state sv)" and "1 \<le> ss_NextTaskID s"
  shows "edits_schedules sv sv' d'"
proof -
  obtain r where "commit s a (sv, d) = (r, (sv', d'))" using assms(1) by (metis prod.collapse)
  then show ?thesis by (cases rule: commit_cases) (use assms in \<open>auto simp: edits_schedules_def file_ok_def\<close>)
qed

lemma exec_sop_edits:
  assumes "exec_sop op (sv, d) = (sv', d')" and "1 \<le> ss_NextTaskID (sv_state sv)" and "ss_NextTaskID (sv_state sv) < int64_max"
    and "file_ok (sv_state sv) d"
  shows "edits_schedules sv sv' d'"
proof -
  have wrap: "wrap64 (ss_NextTaskID (sv_state sv) + 1) = ss_NextTaskID (sv_state sv) + 1"
    using assms(2,3) by (intro wrap64_id) auto
  have same: "edits_schedules sv sv d" using assms by (simp add: edits_schedules_def)
  note saved = edits_commit [OF _ assms(4,2)]
  show ?thesis
  proof (cases op)
    case (OpCreate check now input)
    with assms(1,2) same show ?thesis
      by (auto simp: SchedCreate_def Let_def wrap split: option.splits if_splits elim!: saved)
  next
    case (OpUpdate check now input)
    with assms(1,2) same show ?thesis
      by (auto simp: SchedUpdate_def Let_def split: option.splits if_splits elim!: saved)
  next
    case (OpDelete i)
    with assms(1,2) same show ?thesis
      by (auto simp: SchedDelete_def Let_def split: option.splits elim!: saved)
  next
    case (OpDisable clock i)
    with assms(1,2) show ?thesis by (auto simp: DisableAgent_def Let_def elim!: saved)
  qed
qed

subsection \<open>Each step keeps the invariant\<close>

lemma latest_at_append:
  "latest_at (ks @ [k]) i \<longleftrightarrow> (if i = length ks then True else latest_at ks i \<and> sid k \<noteq> sid (ks ! i))"
  by (auto simp: latest_at_def nth_append less_Suc_eq)

lemma find_skip: "find P xs = None \<Longrightarrow> find P (xs @ ys) = find P ys"
  by (induction xs) (auto split: if_splits)

lemma find_rev_last:
  assumes "i < length xs" and "P (xs ! i)" and "\<And>j. i < j \<Longrightarrow> j < length xs \<Longrightarrow> \<not> P (xs ! j)"
  shows "find P (rev xs) = Some (xs ! i)"
proof -
  have "xs = take i xs @ xs ! i # drop (Suc i) xs" using assms(1) by (rule id_take_nth_drop)
  then have rev: "rev xs = rev (drop (Suc i) xs) @ xs ! i # rev (take i xs)"
    by (metis append.assoc append_Cons append_Nil rev.simps(2) rev_append)
  have "find P (rev (drop (Suc i) xs)) = None"
    using assms(3) by (auto simp: find_None_iff in_set_conv_nth)
  with rev assms(2) show ?thesis by (simp add: find_skip)
qed

lemma keys_ok_nth:
  assumes "keys_ok s" and "i < length (ss_Runs s)"
  obtains n where "1 \<le> n" and "n < ss_NextRunID s" and "rn_ID (ss_Runs s ! i) = run_id n"
    and "rn_TaskID (ss_Runs s ! i) = run_task n"
proof -
  from assms(2) have "key_of (ss_Runs s ! i) \<in> set (run_keys s)" by simp
  with assms(1) obtain n where "1 \<le> n" "n < ss_NextRunID s" "fst (key_of (ss_Runs s ! i)) = run_id n"
    "tid (key_of (ss_Runs s ! i)) = run_task n" unfolding keys_ok_def by blast
  then show thesis by (intro that [of n]) (simp_all add: key_of_def)
qed

lemma latest_task_at:
  assumes "keys_ok s" and "latest_at (run_keys s) i"
  shows "latest_task (ss_Runs s) (sid (run_keys s ! i)) = tid (run_keys s ! i)"
proof -
  have i: "i < length (ss_Runs s)" using assms(2) by (simp add: latest_at_def)
  then obtain n where n: "1 \<le> n" "rn_TaskID (ss_Runs s ! i) = run_task n"
    using keys_ok_nth [OF assms(1)] by metis
  then have t: "TrimSpace (rn_TaskID (ss_Runs s ! i)) = rn_TaskID (ss_Runs s ! i)" by simp
  have "find (\<lambda>r. rn_ScheduledTaskID r = sid (run_keys s ! i) \<and> TrimSpace (rn_TaskID r) \<noteq> []) (rev (ss_Runs s)) = Some (ss_Runs s ! i)"
    using i t n assms(2) by (intro find_rev_last) (auto simp: key_of_def latest_at_def)
  with t i show ?thesis by (simp add: latest_task_def key_of_def)
qed

lemma not_active_finished:
  assumes "keys_ok s" and "latest_at (run_keys s) i" and "\<not> hasActiveRunLocked (Some ts) s (sid (run_keys s ! i))"
    and "distinct (map t_ID ts)"
  shows "\<not> unfinished ts (tid (run_keys s ! i))"
proof
  assume "unfinished ts (tid (run_keys s ! i))"
  then obtain t where t: "t \<in> set ts" "t_ID t = tid (run_keys s ! i)" "\<not> isTerminalTaskStatus (t_Status t)"
    by (auto simp: unfinished_def)
  have "tid (run_keys s ! i) \<noteq> []"
  proof -
    have "i < length (ss_Runs s)" using assms(2) by (simp add: latest_at_def)
    moreover from keys_ok_nth [OF assms(1) this] obtain n where "rn_TaskID (ss_Runs s ! i) = run_task n" by metis
    ultimately show ?thesis by (simp add: key_of_def)
  qed
  moreover have "find (\<lambda>u. t_ID u = tid (run_keys s ! i)) ts = Some t"
  proof -
    obtain u where "find (\<lambda>u. t_ID u = tid (run_keys s ! i)) ts = Some u"
      using t by (cases "find (\<lambda>u. t_ID u = tid (run_keys s ! i)) ts") (auto simp: find_None_iff)
    moreover from this have "u \<in> set ts" "t_ID u = t_ID t" using t by (auto simp: find_Some_iff)
    ultimately show ?thesis using assms(4) t(1) by (auto simp: distinct_map dest: inj_onD)
  qed
  ultimately have "hasActiveRunLocked (Some ts) s (sid (run_keys s ! i))"
    using t(3) latest_task_at [OF assms(1,2)] by (simp add: hasActiveRunLocked_def Let_def)
  with assms(3) show False by simp
qed

definition begun :: "SchedTask \<Rightarrow> time \<Rightarrow> sstate \<Rightarrow> sstate" where
  "begun item now s =
     s\<lparr>ss_NextRunID := wrap64 (ss_NextRunID s + 1), ss_Runs := ss_Runs s @ [new_run s item now]\<rparr>"

lemma trigger_begin_cases:
  assumes "trigger_begin runner now item (sv, d) = (res, (sv', d'))"
  obtains (ok) "res = Inr (new_run (sv_state sv) item now)"
      and "sv' = sv\<lparr>sv_state := begun item now (sv_state sv), sv_inFlight := mput (st_ID item) () (sv_inFlight sv)\<rparr>"
      and "sd_state d' = Stored (begun item now (sv_state sv))" and "\<not> inFlightLocked sv (st_ID item)"
      and "\<not> hasActiveRunLocked runner (sv_state sv) (st_ID item)"
    | (refused) e where "res = Inl e" and "sv' = sv" and "sd_state d' = sd_state d"
proof (cases "inFlightLocked sv (st_ID item) \<or> hasActiveRunLocked runner (sv_state sv) (st_ID item)")
  case True
  with assms refused show ?thesis by (auto simp: trigger_begin_def Let_def)
next
  case False
  let ?s = "begun item now (sv_state sv)"
  let ?run = "new_run (sv_state sv) item now"
  obtain r sv1 d1 where c: "commit ?s ?run (sv, d) = (r, (sv1, d1))" by (metis prod_cases3)
  then show ?thesis
  proof (cases rule: commit_cases)
    case ok: ok
    with False assms c show ?thesis by (intro that(1)) (auto simp: trigger_begin_def Let_def begun_def)
  next
    case (failed e)
    with False assms c show ?thesis by (intro refused [of e]) (auto simp: trigger_begin_def Let_def begun_def)
  qed
qed

lemma key_new_run:
  assumes "keys_ok s"
  shows "key_of (new_run s item now) = (run_id (ss_NextRunID s), st_ID item, run_task (ss_NextRunID s))"
proof -
  have "0 \<le> ss_NextRunID s" using assms by (simp add: keys_ok_def)
  then show ?thesis
    unfolding key_of_def new_run_def Let_def run_id_def [symmetric] by (simp add: taskIDForRunID_run_id)
qed

lemma keys_ok_begun:
  assumes "keys_ok s" and "ss_NextRunID s < int64_max"
  shows "keys_ok (begun item now s)"
proof -
  have n: "1 \<le> ss_NextRunID s" "1 \<le> ss_NextTaskID s" and d: "distinct (map fst (run_keys s))"
    using assms(1) by (simp_all add: keys_ok_def)
  have wrap: "wrap64 (ss_NextRunID s + 1) = ss_NextRunID s + 1" using n assms(2) by (intro wrap64_id) auto
  have old: "\<exists>m. 1 \<le> m \<and> m < ss_NextRunID s \<and> fst k = run_id m \<and> tid k = run_task m" if "k \<in> set (run_keys s)" for k
    using assms(1) that unfolding keys_ok_def by blast
  have new: "run_id (ss_NextRunID s) \<noteq> fst k" if "k \<in> set (run_keys s)" for k
  proof -
    from old [OF that] obtain m where "1 \<le> m" "m < ss_NextRunID s" "fst k = run_id m" by blast
    with n(1) run_id_inject [of "ss_NextRunID s" m] show ?thesis by simp
  qed
  have keys: "run_keys (begun item now s) = run_keys s @ [(run_id (ss_NextRunID s), st_ID item, run_task (ss_NextRunID s))]"
    by (simp add: begun_def key_new_run [OF assms(1)])
  have "distinct (map fst (run_keys (begun item now s)))"
  proof -
    have "run_id (ss_NextRunID s) \<notin> set (map fst (run_keys s))" using new by (metis imageE list.set_map)
    with d show ?thesis unfolding keys map_append by (simp del: map_map set_map list.set_map)
  qed
  moreover have "\<exists>m. 1 \<le> m \<and> m < ss_NextRunID s + 1 \<and> fst k = run_id m \<and> tid k = run_task m"
    if "k \<in> set (run_keys (begun item now s))" for k
  proof (cases "k \<in> set (run_keys s)")
    case True
    from old [OF this] obtain m where "1 \<le> m" "m < ss_NextRunID s" "fst k = run_id m" "tid k = run_task m" by blast
    then show ?thesis by (intro exI [of _ m]) simp
  next
    case False
    with that have "k = (run_id (ss_NextRunID s), st_ID item, run_task (ss_NextRunID s))" unfolding keys by auto
    with n(1) show ?thesis by (intro exI [of _ "ss_NextRunID s"]) simp
  qed
  ultimately show ?thesis using n unfolding keys_ok_def by (simp add: begun_def wrap)
qed

lemma inv_begin:
  assumes "sched_inv (sv, d, ts, calls)" and "ss_NextRunID (sv_state sv) < int64_max" and "trimmed (st_ID item)"
    and "trigger_begin (Some ts) now item (sv, d) = (Inr run, (sv', d'))"
  shows "sched_inv (sv', d', ts, Creating item now run # calls)"
proof -
  let ?s = "sv_state sv" and ?ks = "run_keys (sv_state sv)"
  let ?k = "(run_id (ss_NextRunID ?s), st_ID item, run_task (ss_NextRunID ?s))"
  from assms(1) have ok: "keys_ok ?s" "only_latest ?ks ts" "calls_ok sv calls" "distinct (map t_ID ts)" by simp_all
  obtain run: "run = new_run ?s item now"
    and sv': "sv_state sv' = begun item now ?s" "sv_inFlight sv' = mput (st_ID item) () (sv_inFlight sv)"
    and d': "sd_state d' = Stored (begun item now ?s)" and free: "mget (sv_inFlight sv) (st_ID item) = None"
    and quiet: "\<not> hasActiveRunLocked (Some ts) ?s (st_ID item)"
    using assms(4)
  proof (cases rule: trigger_begin_cases)
    case ok
    with that show ?thesis
      by (cases "mget (sv_inFlight sv) (st_ID item)") (simp_all add: inFlightLocked_def trimmed_TrimSpace [OF assms(3)])
  qed simp
  have keys: "run_keys (sv_state sv') = ?ks @ [?k]"
    by (simp add: sv' begun_def key_new_run [OF ok(1)])
  have "only_latest (?ks @ [?k]) ts"
    unfolding only_latest_def
  proof (intro allI impI)
    fix i assume i: "i < length (?ks @ [?k])" "unfinished ts (tid ((?ks @ [?k]) ! i))"
    show "latest_at (?ks @ [?k]) i"
    proof (cases "i = length ?ks")
      case False
      with i have *: "i < length ?ks" "unfinished ts (tid (?ks ! i))" by (auto simp: nth_append)
      with ok(2) have l: "latest_at ?ks i" by (simp add: only_latest_def)
      from not_active_finished [OF ok(1) l _ ok(4)] quiet *(2) have "sid (?ks ! i) \<noteq> st_ID item" by metis
      with l False show ?thesis by (simp add: latest_at_append)
    qed (simp add: latest_at_append)
  qed
  moreover have "calls_ok sv' (Creating item now run # calls)"
    unfolding calls_ok_def
  proof (intro conjI ballI allI impI)
    show "distinct (map call_sid (Creating item now run # calls))"
      using ok(3) free by (auto simp: calls_ok_def)
  next
    fix c assume "c \<in> set (Creating item now run # calls)"
    then show "mget (sv_inFlight sv') (call_sid c) \<noteq> None" using ok(3) by (auto simp: calls_ok_def sv')
  next
    fix c r assume c: "c \<in> set (Creating item now run # calls)" and r: "call_run c = Some r"
    show "\<exists>i. latest_at (run_keys (sv_state sv')) i \<and> run_keys (sv_state sv') ! i = key_of r \<and> rn_ScheduledTaskID r = call_sid c"
    proof (cases "c = Creating item now run")
      case True
      with r run key_new_run [OF ok(1), of item now] show ?thesis
        unfolding keys by (intro exI [of _ "length ?ks"]) (auto simp: latest_at_append nth_append key_of_def)
    next
      case False
      with c have c: "c \<in> set calls" by simp
      with ok(3) r obtain i where i: "latest_at ?ks i" "?ks ! i = key_of r" "rn_ScheduledTaskID r = call_sid c"
        unfolding calls_ok_def by blast
      have "call_sid c \<noteq> st_ID item" using c ok(3) free by (auto simp: calls_ok_def)
      with i show ?thesis
        unfolding keys by (intro exI [of _ i]) (auto simp: latest_at_append nth_append latest_at_def key_of_def)
    qed
  qed
  ultimately show ?thesis
    using keys_ok_begun [OF ok(1) assms(2)] ok(4) keys by (simp add: sv'(1) file_ok_def d')
qed

lemma key_run_outcome [simp]: "key_of (run_outcome (Some (Inl e)) run) = key_of run"
  "key_of (run_outcome (Some (Inr (rn_TaskID run))) run) = key_of run"
  "rn_ScheduledTaskID (run_outcome (Some res) run) = rn_ScheduledTaskID run"
  by (simp_all add: run_outcome_def key_of_def split: sum.split)

text \<open>A task identifies its run.\<close>

lemma same_task_same_run:
  assumes "keys_ok s" and "i < length (run_keys s)" and "j < length (run_keys s)" and "tid (run_keys s ! i) = tid (run_keys s ! j)"
  shows "i = j"
proof -
  have "i < length (ss_Runs s)" "j < length (ss_Runs s)" using assms(2,3) by simp_all
  from keys_ok_nth [OF assms(1) this(1)] keys_ok_nth [OF assms(1) this(2)] obtain m n
    where "rn_ID (ss_Runs s ! i) = run_id m" "rn_TaskID (ss_Runs s ! i) = run_task m"
      "rn_ID (ss_Runs s ! j) = run_id n" "rn_TaskID (ss_Runs s ! j) = run_task n" by metis
  with assms(2-4) have "map fst (run_keys s) ! i = map fst (run_keys s) ! j"
    by (auto simp: key_of_def run_task_def)
  with assms(1-3) show ?thesis unfolding keys_ok_def by (metis length_map nth_eq_iff_index_eq)
qed

lemma calls_ok_replace:
  assumes "calls_ok sv (cs @ c # cs')" and "call_sid c' = call_sid c"
    and "\<And>r'. call_run c' = Some r' \<Longrightarrow> \<exists>r. call_run c = Some r \<and> key_of r = key_of r' \<and> rn_ScheduledTaskID r = rn_ScheduledTaskID r'"
  shows "calls_ok sv (cs @ c' # cs')"
proof -
  have old: "\<exists>i. latest_at (run_keys (sv_state sv)) i \<and> run_keys (sv_state sv) ! i = key_of r \<and> rn_ScheduledTaskID r = call_sid x"
    if "x \<in> set (cs @ c # cs')" "call_run x = Some r" for x r using assms(1) that unfolding calls_ok_def by blast
  have "\<exists>i. latest_at (run_keys (sv_state sv)) i \<and> run_keys (sv_state sv) ! i = key_of r \<and> rn_ScheduledTaskID r = call_sid x"
    if x: "x \<in> set (cs @ c' # cs')" "call_run x = Some r" for x r
  proof (cases "x = c'")
    case True
    with assms(3) x(2) obtain r0 where "call_run c = Some r0" "key_of r0 = key_of r" "rn_ScheduledTaskID r0 = rn_ScheduledTaskID r"
      by blast
    with old [of c r0] True assms(2) show ?thesis by auto
  next
    case False
    with x old show ?thesis by auto
  qed
  moreover have "distinct (map call_sid (cs @ c' # cs'))" "\<forall>x \<in> set (cs @ c' # cs'). mget (sv_inFlight sv) (call_sid x) \<noteq> None"
    using assms(1,2) by (auto simp: calls_ok_def)
  ultimately show ?thesis unfolding calls_ok_def by blast
qed

lemma inv_created:
  assumes inv: "sched_inv (sv, d, ts, cs @ Creating item now run # cs')"
    and dist: "distinct (map t_ID ts')"
    and ts': "set ts' = set ts \<or> (\<exists>t. t_ID t = rn_TaskID run \<and> t_ID t \<notin> t_ID ` set ts \<and> set ts' = insert t (set ts))"
    and res: "res = Inl e \<or> res = Inr (rn_TaskID run)"
  shows "sched_inv (sv, d, ts', cs @ Ending item now (run_outcome (Some res) run) # cs')"
proof -
  let ?ks = "run_keys (sv_state sv)"
  from inv have ok: "keys_ok (sv_state sv)" "only_latest ?ks ts" "calls_ok sv (cs @ Creating item now run # cs')"
    "distinct (map t_ID ts)" "file_ok (sv_state sv) d" by simp_all
  from ok(3) obtain i0 where i0: "latest_at ?ks i0" "?ks ! i0 = key_of run"
    unfolding calls_ok_def by (metis call_run.simps(1) in_set_conv_decomp)
  have "latest_at ?ks i" if i: "i < length ?ks" "unfinished ts' (tid (?ks ! i))" for i
  proof (cases "unfinished ts (tid (?ks ! i))")
    case False
    with ts' i(2) have "tid (?ks ! i) = tid (?ks ! i0)" unfolding i0(2) by (auto simp: unfinished_def key_of_def)
    with same_task_same_run [OF ok(1) i(1)] i0(1) show ?thesis by (auto simp: latest_at_def)
  qed (use ok(2) i in \<open>simp add: only_latest_def\<close>)
  moreover have "calls_ok sv (cs @ Ending item now (run_outcome (Some res) run) # cs')"
    using res by (intro calls_ok_replace [OF ok(3)]) auto
  ultimately show ?thesis using ok(1,5) dist by (simp add: only_latest_def)
qed

lemma replace_run_keys:
  assumes "\<And>r. r \<in> set rs \<Longrightarrow> rn_ID r = rn_ID run \<Longrightarrow> key_of r = key_of run"
  shows "map key_of (replace_run run rs) = map key_of rs"
  using assms by (induction rs) auto

lemma inv_end:
  assumes inv: "sched_inv (sv, d, ts, cs @ Ending item now run # cs')"
    and e: "trigger_end zone (Some ts) adv skip now item run (sv, d) = (res, (sv', d'))"
  shows "sched_inv (sv', d', ts, cs @ Clearing (st_ID item) # cs')"
proof -
  let ?s = "sv_state sv" and ?ks = "run_keys (sv_state sv)"
  from inv have ok: "keys_ok ?s" "only_latest ?ks ts" "calls_ok sv (cs @ Ending item now run # cs')"
    "distinct (map t_ID ts)" "file_ok ?s d" by simp_all
  have calls: "calls_ok sv (cs @ Clearing (st_ID item) # cs')" by (rule calls_ok_replace [OF ok(3)]) auto
  from ok(3) obtain i0 where i0: "i0 < length ?ks" "?ks ! i0 = key_of run"
    unfolding calls_ok_def latest_at_def by (metis call_run.simps(2) in_set_conv_decomp)
  have "key_of r = key_of run" if "r \<in> set (ss_Runs ?s)" "rn_ID r = rn_ID run" for r
  proof -
    from that(1) obtain j where j: "j < length ?ks" "?ks ! j = key_of r" by (auto simp: in_set_conv_nth)
    with that(2) i0 have "map fst ?ks ! j = map fst ?ks ! i0" by (simp add: key_of_def)
    with ok(1) j(1) i0(1) have "j = i0" unfolding keys_ok_def by (metis length_map nth_eq_iff_index_eq)
    with j i0 show ?thesis by simp
  qed
  then have keys: "run_keys (finished_state zone (st_ID item) adv now run ?s) = ?ks"
    using replace_run_keys [of "rev (ss_Runs ?s)" run] by (simp add: finished_state_def flip: rev_map)
  have "sv_inFlight sv' = sv_inFlight sv \<and> keys_ok (sv_state sv') \<and> run_keys (sv_state sv') = ?ks \<and> file_ok (sv_state sv') d'"
  proof (cases "skip \<and> rn_Status run = RunFailed \<and> hasActiveRunLocked (Some ts) ?s (st_ID item)")
    case True
    with e ok show ?thesis by (auto simp: trigger_end_def Let_def)
  next
    case False
    with e have "commit (finished_state zone (st_ID item) adv now run ?s) run (sv, d) = (res, (sv', d'))"
      by (auto simp: trigger_end_def Let_def)
    moreover have "keys_ok (finished_state zone (st_ID item) adv now run ?s)"
      using ok(1) unfolding keys_ok_def keys by (simp add: finished_state_def)
    ultimately show ?thesis
      by (cases rule: commit_cases) (use keys ok in \<open>auto simp: file_ok_def\<close>)
  qed
  with ok(2,4) calls show ?thesis by (simp add: calls_ok_def)
qed

lemma inv_clear:
  assumes "sched_inv (sv, d, ts, cs @ Clearing i # cs')"
  shows "sched_inv (clear_inFlight i sv, d, ts, cs @ cs')"
proof -
  from assms have ok: "calls_ok sv (cs @ Clearing i # cs')" by simp
  then have "call_sid c \<noteq> i" if "c \<in> set (cs @ cs')" for c using that by (auto simp: calls_ok_def)
  with ok have "calls_ok (clear_inFlight i sv) (cs @ cs')" by (auto simp: calls_ok_def clear_inFlight_def)
  with assms show ?thesis by (simp add: clear_inFlight_def)
qed

lemma inv_progress:
  assumes "sched_inv (sv, d, ts, calls)" and "tasks_progress ts ts'"
  shows "sched_inv (sv, d, ts', calls)"
proof -
  let ?ks = "run_keys (sv_state sv)"
  from assms(1) have ok: "keys_ok (sv_state sv)" "only_latest ?ks ts" by simp_all
  have "latest_at ?ks i" if i: "i < length ?ks" "unfinished ts' (tid (?ks ! i))" for i
  proof -
    from keys_ok_nth [OF ok(1), of i] i(1) obtain n where "1 \<le> n" "tid (?ks ! i) = run_task n"
      by (auto simp: key_of_def)
    with i(2) assms(2) have "unfinished ts (tid (?ks ! i))" by (simp add: tasks_progress_def)
    with ok(2) i(1) show ?thesis by (simp add: only_latest_def)
  qed
  with assms show ?thesis by (simp add: only_latest_def tasks_progress_def)
qed

lemma inv_op:
  assumes "sched_inv (sv, d, ts, calls)" and "ss_NextTaskID (sv_state sv) < int64_max" and "exec_sop op (sv, d) = (sv', d')"
  shows "sched_inv (sv', d', ts, calls)"
proof -
  have "edits_schedules sv sv' d'" using assms by (intro exec_sop_edits) (auto simp: keys_ok_def)
  with assms(1) show ?thesis by (simp add: edits_schedules_def keys_ok_def calls_ok_def)
qed

lemma inv_refused:
  assumes "sched_inv (sv, d, ts, calls)" and "trigger_begin (Some ts) now item (sv, d) = (Inl e, (sv', d'))"
  shows "sched_inv (sv', d', ts, calls)"
  using assms(2) by (cases rule: trigger_begin_cases) (use assms(1) in \<open>auto simp: file_ok_def\<close>)

interpretation scheduler: invariant_system sched_init sched_step sched_inv
proof
  fix x
  show "sched_init x \<Longrightarrow> sched_inv x"
    by (auto simp: sched_init_def fresh_state_def keys_ok_def only_latest_def calls_ok_def file_ok_def)
next
  fix x a y
  assume "sched_inv x" and "sched_step x a y"
  from this(2,1) show "sched_inv y"
    by (cases rule: sched_step.cases) (auto simp del: sched_inv.simps intro: inv_op inv_begin inv_refused inv_created inv_end inv_clear inv_progress)
qed

subsection \<open>At most one unfinished task per schedule\<close>

lemma unfinished_run_unique:
  assumes "sched_inv (sv, d, ts, calls)"
    and "r \<in> set (ss_Runs (sv_state sv))" and "r' \<in> set (ss_Runs (sv_state sv))"
    and "rn_ScheduledTaskID r = rn_ScheduledTaskID r'"
    and "unfinished ts (rn_TaskID r)" and "unfinished ts (rn_TaskID r')"
  shows "r = r'"
proof -
  from assms(1) have only: "only_latest (run_keys (sv_state sv)) ts" by simp
  from assms(2,3) obtain i j where ij: "i < length (ss_Runs (sv_state sv))" "ss_Runs (sv_state sv) ! i = r"
    "j < length (ss_Runs (sv_state sv))" "ss_Runs (sv_state sv) ! j = r'"
    by (auto simp: in_set_conv_nth)
  with only assms(5,6) have "latest_at (run_keys (sv_state sv)) i" "latest_at (run_keys (sv_state sv)) j"
    by (auto simp: only_latest_def key_of_def)
  with ij assms(4) have "\<not> i < j" "\<not> j < i" by (auto simp: latest_at_def key_of_def)
  with ij show ?thesis by simp
qed

text \<open>
  C28. However triggers by the timer and by users, edits of the schedules, failing saves and the
  progress of the tasks interleave, two unfinished generated tasks never belong to the same
  schedule.
\<close>

theorem one_unfinished_run:
  assumes "reachable sched_init sched_step (sv, d, ts, calls)"
    and "r \<in> set (ss_Runs (sv_state sv))" and "r' \<in> set (ss_Runs (sv_state sv))"
    and "rn_ScheduledTaskID r = rn_ScheduledTaskID r'"
    and "unfinished ts (rn_TaskID r)" and "unfinished ts (rn_TaskID r')"
  shows "r = r'"
  using scheduler.reachable_inv [OF assms(1)] assms(2-6) by (rule unfinished_run_unique)

definition demo_sched_input :: SchedCreateInput where
  "demo_sched_input = \<lparr>sci_Title = ''Report'', sci_AgentID = ''a'', sci_Prompt = ''Write it'', sci_Recurrence = ''daily'',
     sci_FirstRunAt = day_ns, sci_ExpiresAt = None, sci_Enabled = True\<rparr>"

definition demo_sched_disk :: sched_disk where
  "demo_sched_disk = \<lparr>sd_state = Absent, sd_tmp = Absent, sd_faults = []\<rparr>"

definition demo_sched :: "SchedService \<times> sched_disk" where
  "demo_sched = exec_sop (OpCreate None 5 demo_sched_input) (\<lparr>sv_state = fresh_state, sv_inFlight = []\<rparr>, demo_sched_disk)"

definition demo_item :: SchedTask where
  "demo_item = hd (ss_Tasks (sv_state (fst demo_sched)))"

definition demo_begun :: "(sched_error + Run) \<times> SchedService \<times> sched_disk" where
  "demo_begun = trigger_begin (Some []) (2 * day_ns) demo_item demo_sched"

definition demo_run :: Run where
  "demo_run = hd (ss_Runs (sv_state (fst (snd demo_begun))))"

definition demo_agent_task :: Task where
  "demo_agent_task = zero_task\<lparr>t_ID := rn_TaskID demo_run, t_Status := StatusAssigned\<rparr>"

lemma demo_sched_values:
  "trimmed (st_ID demo_item)" "ss_NextTaskID fresh_state < int64_max" "ss_NextRunID (sv_state (fst demo_sched)) < int64_max"
  "fst demo_begun = Inr demo_run" "ss_Runs (sv_state (fst (snd demo_begun))) = [demo_run]"
  "rn_TaskID demo_run = ''task-scheduled-run-1''" "isTerminalTaskStatus StatusAssigned = False"
  unfolding trimmed_iff by code_simp+

lemma demo_sched_steps:
  "sched_step (\<lparr>sv_state = fresh_state, sv_inFlight = []\<rparr>, demo_sched_disk, [], []) (Op (OpCreate None 5 demo_sched_input))
     (fst demo_sched, snd demo_sched, [], [])"
  "sched_step (fst demo_sched, snd demo_sched, [], []) Begin
     (fst (snd demo_begun), snd (snd demo_begun), [], [Creating demo_item (2 * day_ns) demo_run])"
proof -
  show "sched_step (\<lparr>sv_state = fresh_state, sv_inFlight = []\<rparr>, demo_sched_disk, [], []) (Op (OpCreate None 5 demo_sched_input))
      (fst demo_sched, snd demo_sched, [], [])"
    by (rule step_op) (simp_all add: demo_sched_def demo_sched_values(2) del: exec_sop.simps)
  have "trigger_begin (Some []) (2 * day_ns) demo_item (fst demo_sched, snd demo_sched) =
      (Inr demo_run, (fst (snd demo_begun), snd (snd demo_begun)))"
    using demo_sched_values(4) by (simp add: demo_begun_def prod_eq_iff)
  from step_begin [OF demo_sched_values(3,1) this, of "[]"]
  show "sched_step (fst demo_sched, snd demo_sched, [], []) Begin
      (fst (snd demo_begun), snd (snd demo_begun), [], [Creating demo_item (2 * day_ns) demo_run])" .
qed

lemma demo_sched_init: "sched_init (\<lparr>sv_state = fresh_state, sv_inFlight = []\<rparr>, demo_sched_disk, [], [])"
  by (auto simp: sched_init_def demo_sched_disk_def)

lemma demo_sched_reachable:
  "\<exists>calls. reachable sched_init sched_step (fst (snd demo_begun), snd (snd demo_begun), [demo_agent_task], calls)"
proof -
  note step = reachable_step [where init = sched_init and step = sched_step]
  have r2: "reachable sched_init sched_step
      (fst (snd demo_begun), snd (snd demo_begun), [], [Creating demo_item (2 * day_ns) demo_run])"
    by (rule step [OF step [OF _ demo_sched_steps(1)] demo_sched_steps(2)]) (rule reachable_init [of sched_init, OF demo_sched_init])
  have "sched_step (fst (snd demo_begun), snd (snd demo_begun), [], [] @ Creating demo_item (2 * day_ns) demo_run # []) Created
      (fst (snd demo_begun), snd (snd demo_begun), [demo_agent_task],
       [] @ Ending demo_item (2 * day_ns) (run_outcome (Some (Inr (rn_TaskID demo_run))) demo_run) # [])"
    by (rule step_created) (simp_all add: demo_agent_task_def)
  from step [OF _ this] r2 show ?thesis by auto
qed

theorem one_unfinished_run_witness:
  "\<exists>r. r \<in> set (ss_Runs (sv_state (fst (snd demo_begun)))) \<and> unfinished [demo_agent_task] (rn_TaskID r) \<and>
     (\<forall>r' \<in> set (ss_Runs (sv_state (fst (snd demo_begun)))). rn_ScheduledTaskID r = rn_ScheduledTaskID r' \<longrightarrow>
        unfinished [demo_agent_task] (rn_TaskID r') \<longrightarrow> r = r')"
proof -
  have u: "unfinished [demo_agent_task] (rn_TaskID demo_run)"
    using demo_sched_values(7) by (simp add: unfinished_def demo_agent_task_def)
  have run: "demo_run \<in> set (ss_Runs (sv_state (fst (snd demo_begun))))" using demo_sched_values(5) by simp
  obtain calls where "reachable sched_init sched_step (fst (snd demo_begun), snd (snd demo_begun), [demo_agent_task], calls)"
    using demo_sched_reachable ..
  from one_unfinished_run [OF this run _ _ u] u run show ?thesis by blast
qed

subsection \<open>Restart\<close>

text \<open>
  C29. Whenever the process stops, and whichever saves failed before, a new scheduler over the same
  file has exactly the schedules, runs and counters of the old one.
\<close>

theorem scheduler_restart:
  assumes "reachable sched_init sched_step (sv, d, ts, calls)" and "sd_faults d = []"
  shows "NewSchedService d = (Inr \<lparr>sv_state = sv_state sv, sv_inFlight = []\<rparr>, d)"
proof -
  from scheduler.reachable_inv [OF assms(1)] have "keys_ok (sv_state sv)" "file_ok (sv_state sv) d" by simp_all
  then have "loadLocked d = (Inr (sv_state sv), d)"
    using assms(2) by (auto simp: file_ok_def keys_ok_def loadLocked_def access_def)
  then show ?thesis by (simp add: NewSchedService_def bindE_def)
qed

theorem scheduler_restart_witness:
  "length (ss_Runs (sv_state (fst (snd demo_begun)))) = 1 \<and>
   NewSchedService (snd (snd demo_begun)) = (Inr \<lparr>sv_state = sv_state (fst (snd demo_begun)), sv_inFlight = []\<rparr>, snd (snd demo_begun))"
proof -
  obtain calls where "reachable sched_init sched_step (fst (snd demo_begun), snd (snd demo_begun), [demo_agent_task], calls)"
    using demo_sched_reachable ..
  moreover have "sd_faults (snd (snd demo_begun)) = []" by code_simp
  ultimately show ?thesis using scheduler_restart demo_sched_values(5) by simp
qed

subsection \<open>The next run\<close>

text \<open>The first date after \<open>from\<close> in the sequence of dates that a recurrence gives.\<close>

definition first_after :: "(time \<Rightarrow> time) \<Rightarrow> time \<Rightarrow> time \<Rightarrow> time \<Rightarrow> bool" where
  "first_after f start from t \<longleftrightarrow> (\<exists>k. t = (f ^^ k) start \<and> from < t \<and> (\<forall>j < k. (f ^^ j) start \<le> from))"

lemma advance_loop_first: "first_after (advance zone i) next from (advance_loop zone i from next)"
proof (induction zone i "from" "next" rule: advance_loop.induct)
  case (1 zone i "from" "next")
  show ?case
  proof (cases "next > from")
    case True
    then show ?thesis unfolding first_after_def
      by (intro exI [of _ 0]) (simp add: advance_loop.simps [of zone i "from" "next"])
  next
    case False
    with "1.IH" obtain k where k: "advance_loop zone i from (advance zone i next) = (advance zone i ^^ k) (advance zone i next)"
      "from < advance_loop zone i from (advance zone i next)" "\<And>j. j < k \<Longrightarrow> (advance zone i ^^ j) (advance zone i next) \<le> from"
      unfolding first_after_def by blast
    have "(advance zone i ^^ j) next \<le> from" if "j < Suc k" for j
      using that False k(3) by (cases j) (simp_all add: funpow_swap1)
    with k(1,2) False show ?thesis unfolding first_after_def
      by (intro exI [of _ "Suc k"]) (simp add: advance_loop.simps [of zone i "from" "next"] funpow_swap1)
  qed
qed

lemma indexTask_bound: "indexTask ts i = Some idx \<Longrightarrow> idx < length ts"
  by (induction ts i arbitrary: idx rule: indexTask.induct) (auto split: if_splits)

lemma advance_schedule_next:
  assumes "st_Enabled (advance_schedule zone True now item)" and "st_NextRunAt item \<noteq> 0"
  shows "\<not> expired (advance_schedule zone True now item) (st_NextRunAt (advance_schedule zone True now item)) \<and>
    (\<exists>i. first_after (advance zone i) (st_NextRunAt item) now (st_NextRunAt (advance_schedule zone True now item)))"
  using assms advance_loop_first [of zone _ "st_NextRunAt item" now]
  by (auto simp: advance_schedule_def nextRunAt_def advanceUntilAfter_def expired_def Let_def recurrence_defs
      split: if_splits option.splits)

text \<open>
  After a trigger that advances its schedule, the schedule is disabled or due again only in the
  future: its next run is the first date of its recurrence after the moment of the trigger, and
  not after its expiry. A due date is so served at most once by successful triggers, and missed
  dates are skipped.
\<close>

theorem trigger_advances:
  assumes "trigger zone check runner runner' created now True skip item x = (Inr run, (sv, d))"
    and "indexTask (ss_Tasks (sv_state (fst x))) (st_ID item) = Some idx"
    and "st_NextRunAt (ss_Tasks (sv_state (fst x)) ! idx) \<noteq> 0"
    and "st_Enabled (ss_Tasks (sv_state sv) ! idx)"
  shows "\<not> expired (ss_Tasks (sv_state sv) ! idx) (st_NextRunAt (ss_Tasks (sv_state sv) ! idx)) \<and>
    (\<exists>i. first_after (advance zone i) (st_NextRunAt (ss_Tasks (sv_state (fst x)) ! idx)) now
       (st_NextRunAt (ss_Tasks (sv_state sv) ! idx)))"
proof -
  obtain sv0 d0 where x: "x = (sv0, d0)" by (rule prod.exhaust)
  obtain r1 sv1 d1 where b: "trigger_begin runner now item (sv0, d0) = (r1, (sv1, d1))" by (metis prod_cases3)
  from assms(1) b obtain run1 where r1: "r1 = Inr run1" by (auto simp: trigger_def x split: option.splits sum.splits)
  from b have tasks: "ss_Tasks (sv_state sv1) = ss_Tasks (sv_state sv0)"
    by (cases rule: trigger_begin_cases) (auto simp: r1 begun_def)
  obtain r2 sv2 d2 where e: "trigger_end zone runner' True skip now item (run_outcome created run1) (sv1, d1) = (r2, (sv2, d2))"
    by (metis prod_cases3)
  with assms(1) b r1 have r2: "r2 = Inr run" and sv: "sv_state sv = sv_state sv2"
    by (auto simp: trigger_def x clear_inFlight_def split: option.splits)
  let ?s = "finished_state zone (st_ID item) True now (run_outcome created run1) (sv_state sv1)"
  from e r2 have "commit ?s (run_outcome created run1) (sv1, d1) = (Inr run, (sv2, d2))"
    by (auto simp: trigger_end_def Let_def split: if_splits)
  then have "sv_state sv2 = ?s" by (cases rule: commit_cases) auto
  with assms(2) sv tasks indexTask_bound [OF assms(2)]
  have "ss_Tasks (sv_state sv) ! idx = advance_schedule zone True now (ss_Tasks (sv_state sv0) ! idx)"
    by (simp add: finished_state_def x)
  with assms(3,4) advance_schedule_next show ?thesis by (simp add: x)
qed

definition demo_triggered :: "(sched_error + Run) \<times> SchedService \<times> sched_disk" where
  "demo_triggered = trigger 0 None (Some []) (Some []) (Some (Inr ''task-scheduled-run-1'')) (5 * day_ns + 7) True True demo_item demo_sched"

theorem trigger_advances_witness:
  "st_NextRunAt demo_item = day_ns \<and> 5 * day_ns + 7 < st_NextRunAt (ss_Tasks (sv_state (fst (snd demo_triggered))) ! 0)"
proof -
  have v: "is_ok (fst demo_triggered)" "st_NextRunAt (ss_Tasks (sv_state (fst demo_sched)) ! 0) \<noteq> 0"
    "indexTask (ss_Tasks (sv_state (fst demo_sched))) (st_ID demo_item) = Some 0"
    "st_Enabled (ss_Tasks (sv_state (fst (snd demo_triggered))) ! 0)" "st_NextRunAt demo_item = day_ns"
    by code_simp+
  then obtain run where "trigger 0 None (Some []) (Some []) (Some (Inr ''task-scheduled-run-1'')) (5 * day_ns + 7) True True demo_item demo_sched =
      (Inr run, (fst (snd demo_triggered), snd (snd demo_triggered)))"
    unfolding demo_triggered_def by (metis is_okE prod.collapse)
  from trigger_advances [OF this v(3,2,4)] v(5) show ?thesis by (auto simp: first_after_def)
qed

end
