(* ===== verification/AgentProps.thy ===== *)
theory AgentProps
  imports AgentTask SchedProps RoomProps
begin

section \<open>What the agent tasks guarantee\<close>

text \<open>
  The effect of the operations on the tasks that the task service lists, the outcome of a creation,
  and the scheduler running over this service: a state machine with the sections of the scheduler,
  the creations they make and the operations on agent tasks, which refines the state machine of the
  scheduler over an arbitrary runner.
\<close>

declare map_of_eq_Some_iff [simp del] Some_eq_map_of_iff [simp del]

subsection \<open>The tasks of the service\<close>

lemma mem_all_tasks:
  assumes "svc_wf s"
  shows "t \<in> set (all_tasks s) \<longleftrightarrow>
    mget (s_roots s) (t_ID t) = Some t \<or> (\<exists>r. mget (childrenForRootLocked s r) (t_ID t) = Some t)"
proof -
  have kids: "t \<in> snd ` set (childrenForRootLocked s r) \<longleftrightarrow> mget (childrenForRootLocked s r) (t_ID t) = Some t" for r
  proof -
    have d: "distinct (map fst (childrenForRootLocked s r))" and
      id: "\<And>k c. mget (childrenForRootLocked s r) k = Some c \<Longrightarrow> t_ID c = k" using assms by (simp_all add: svc_wf_def)
    have "(k, t) \<in> set (childrenForRootLocked s r) \<longleftrightarrow> mget (childrenForRootLocked s r) k = Some t" for k
      using d by (auto dest: mget_mem)
    with id show ?thesis by (metis (mono_tags) imageE image_eqI prod.collapse snd_conv)
  qed
  have "mget (s_roots s) r \<noteq> None" if "mget (childrenForRootLocked s r) k = Some c" for r k c
    using that assms by (auto simp: svc_wf_def)
  with svc_wf_root [OF assms] show ?thesis
    unfolding set_all_tasks [OF assms] snapshotLocked_view set_sort set_map kids by (metis option.exhaust)
qed

lemma required_task:
  assumes "svc_wf s" and "requireTaskLocked s i = Inr (r, t)"
  shows "t \<in> set (all_tasks s)"
  using assms(2,1) requireTaskLocked_id [OF assms(2,1)]
  by (cases rule: requireTaskLocked_cases) (auto simp: mem_all_tasks [OF assms(1)])

lemma set_task_tasks:
  assumes "svc_wf s" and "requireTaskLocked s i = Inr (r, t)" and "t_ID t' = t_ID t"
    and "u \<in> set (all_tasks (set_task r i t' s))"
  shows "u = t' \<or> u \<in> set (all_tasks s)"
proof -
  have "svc_wf (set_task r i t' s)" using edits_set_task [OF assms(1-3)] by (rule edits_wf)
  with assms(1,4) show ?thesis
    by (auto simp: mem_all_tasks set_task_def Let_def svc_views split: if_splits)
qed

text \<open>
  What an operation on existing tasks does: it creates none, keeps the kind of assignment and finished
  tasks finished.
\<close>

definition kept :: "Service \<Rightarrow> Service \<Rightarrow> bool" where
  "kept s s' \<longleftrightarrow>
     (\<forall>u \<in> set (all_tasks s'). \<exists>t \<in> set (all_tasks s). t_ID t = t_ID u \<and> t_AssignmentType t = t_AssignmentType u \<and>
        (isTerminalTaskStatus (t_Status t) \<longrightarrow> isTerminalTaskStatus (t_Status u))) \<and>
     (\<forall>i. id_free s i \<longrightarrow> id_free s' i)"

lemma kept_refl [simp]: "kept s s"
  by (auto simp: kept_def)

lemma kept_trans: "kept s t \<Longrightarrow> kept t u \<Longrightarrow> kept s u"
  unfolding kept_def by metis

lemma terminal_statuses [simp]:
  "isTerminalTaskStatus StatusPending = False" "isTerminalTaskStatus StatusAssigned = False"
  "isTerminalTaskStatus StatusBlocked = False" "isTerminalTaskStatus StatusInProgress = False"
  "isTerminalTaskStatus StatusCompleted" "isTerminalTaskStatus StatusFailed" "isTerminalTaskStatus StatusCancelled"
  by code_simp+

lemma id_free_keys: "same_keys s s' \<Longrightarrow> id_free s i \<Longrightarrow> id_free s' i"
  by (simp add: same_keys_def id_free_def)

lemma kept_set_task:
  assumes "svc_wf s" and "requireTaskLocked s i = Inr (r, t)" and "t_ID t' = t_ID t" and "t_AssignmentType t' = t_AssignmentType t"
    and "isTerminalTaskStatus (t_Status t) \<longrightarrow> isTerminalTaskStatus (t_Status t')"
  shows "kept s (set_task r i t' s)"
  unfolding kept_def
proof (intro conjI ballI allI impI)
  fix u
  assume "u \<in> set (all_tasks (set_task r i t' s))"
  then show "\<exists>v \<in> set (all_tasks s). t_ID v = t_ID u \<and> t_AssignmentType v = t_AssignmentType u \<and>
      (isTerminalTaskStatus (t_Status v) \<longrightarrow> isTerminalTaskStatus (t_Status u))"
    using set_task_tasks [OF assms(1-3)] required_task [OF assms(1,2)] assms(3-5) by metis
next
  fix k
  assume "id_free s k"
  then show "id_free (set_task r i t' s) k" using same_keys_set_task [OF assms(1,2)] by (rule id_free_keys [rotated])
qed

lemma kept_cong:
  assumes "kept s s1" and "s_roots s2 = s_roots s1" and "s_children s2 = s_children s1"
  shows "kept s s2"
  using assms by (simp add: kept_def all_tasks_def id_free_def svc_views)

lemma kept_record_event:
  assumes "record_event r n ev v (s1, w) = (res, (s', w'))" and "kept s s1"
  shows "kept s s'"
  using assms(1) by (cases rule: record_event_cases) (auto intro: kept_cong [OF assms(2)])

lemma kept_Claim:
  assumes "svc_wf s" and "Claim input now (s, w) = (res, (s', w'))"
  shows "kept s s'"
  using assms(2)
  by (auto simp: Claim_def Let_def split: sum.splits if_splits elim!: kept_record_event intro!: kept_set_task [OF assms(1)])

lemma kept_finishTask:
  assumes "svc_wf s" and "finishTask i actor status summary now (s, w) = (res, (s', w'))"
  shows "kept s s'"
  using assms(2)
  by (auto simp: finishTask_def Let_def split: sum.splits if_splits elim!: kept_record_event intro!: kept_set_task [OF assms(1)])

lemma kept_Block:
  assumes "svc_wf s" and "Block input now (s, w) = (res, (s', w'))"
  shows "kept s s'"
  using assms(2)
  by (auto simp: Block_def Let_def split: sum.splits if_splits elim!: kept_record_event intro!: kept_set_task [OF assms(1)])

lemma mget_children_by_id:
  assumes "svc_wf s"
  shows "mget (map (\<lambda>c. (t_ID c, c)) (sn_Children (snapshotLocked s r))) j = mget (childrenForRootLocked s r) j"
    (is "mget ?a j = mget ?m j")
proof -
  have m: "distinct (map fst ?m)" "\<And>k c. mget ?m k = Some c \<Longrightarrow> t_ID c = k" using assms by (simp_all add: svc_wf_def)
  have mem: "(k, c) \<in> set ?m \<longleftrightarrow> mget ?m k = Some c" for k c using m(1) by (auto dest: mget_mem)
  have "map t_ID (map snd ?m) = map fst ?m" by (rule children_ids [OF assms])
  with m(1) have "distinct (map t_ID (sn_Children (snapshotLocked s r)))"
    by (simp add: snapshotLocked_view del: map_map)
  then have a: "distinct (map fst ?a)" by (simp only: map_fst_by_id)
  have "mget ?a j = Some c \<longleftrightarrow> mget ?m j = Some c" for c
  proof
    assume "mget ?a j = Some c"
    then have "t_ID c = j" "c \<in> snd ` set ?m" by (auto dest!: mget_by_id simp: snapshotLocked_view)
    then obtain k where "(k, c) \<in> set ?m" "t_ID c = j" by auto
    with mem m(2) show "mget ?m j = Some c" by auto
  next
    assume c: "mget ?m j = Some c"
    with m(2) have "(j, c) \<in> set ?a" by (force simp: snapshotLocked_view dest: mget_mem)
    with a show "mget ?a j = Some c" by (auto dest: mget_mem)
  qed
  then show ?thesis by (metis option.exhaust)
qed

text \<open>A transaction that changes only the root task and adds events.\<close>

definition root_change :: "(Task \<Rightarrow> Task) \<Rightarrow> TaskEvent list \<Rightarrow> unit change" where
  "root_change g evs a x = (Inr (a\<lparr>sn_Root := g (sn_Root a), sn_Events := sn_Events a @ evs\<rparr>, ()), x)"

lemma fresh_root_change: "fresh_change (root_change g evs) x"
  by (rule pure_fresh) (auto simp: root_change_def same_ids_def)

lemma Mutate_root:
  assumes run: "Mutate i (root_change g evs) clock (s, w) = (res, (s', w'))" and wf: "svc_wf s"
  obtains (refused) e where "res = Inl e" and "\<And>k. mget (s_roots s') k = mget (s_roots s) k"
      and "\<And>k j. mget (childrenForRootLocked s' k) j = mget (childrenForRootLocked s k) j"
    | (saved) r t root where "requireTaskLocked s i = Inr (r, t)" and "res = Inr ()" and "mget (s_roots s) r = Some root"
      and "\<And>k. mget (s_roots s') k = (if k = r then Some (g root) else mget (s_roots s) k)"
      and "\<And>k j. mget (childrenForRootLocked s' k) j = mget (childrenForRootLocked s k) j"
      and "t_ID (g root) = r" and "t_AssignmentType (g root) = t_AssignmentType root"
  using run fresh_root_change
proof (cases rule: Mutate_cases)
  case (refused e a)
  then show ?thesis by (intro that(1)) (auto simp: svc_views)
next
  case (attempted r t ids a w1 sn evs' v new seq x)
  show ?thesis
  proof (cases x)
    case (Inl e)
    with attempted(14,15) show ?thesis by (intro that(1)) (auto simp: svc_views)
  next
    case (Inr u)
    have s': "s' = install r sn seq (s\<lparr>s_taskIDs := a\<rparr>)" using attempted(15) Inr by simp
    obtain root where root: "mget (s_roots s) r = Some root" using requireTaskLocked_root [OF attempted(1) wf] by blast
    let ?m = "childrenForRootLocked s r"
    from attempted(16) have sn: "sn_Root sn = g root" "sn_Children sn = sn_Children (snapshotLocked s r)"
      using sn_Root_snapshotLocked [OF root] by (auto simp: root_change_def dest: arg_cong [of _ _ sn_Root] arg_cong [of _ _ sn_Children])
    have "mget (map (\<lambda>c. (t_ID c, c)) (sn_Children sn)) j = mget ?m j" for j
      unfolding sn(2) by (rule mget_children_by_id [OF wf])
    moreover have "childrenForRootLocked (s\<lparr>s_taskIDs := a\<rparr>) k = childrenForRootLocked s k" for k by (simp add: svc_views)
    ultimately show ?thesis using attempted(5,10,14) Inr sn
      by (intro that(2) [OF attempted(1) _ root]) (auto simp: s' same_aggregate_def sn_Root_snapshotLocked [OF root])
  qed
qed

lemma id_free_view:
  assumes "\<And>k j. mget (childrenForRootLocked s' k) j = mget (childrenForRootLocked s k) j"
  shows "id_free s' i = id_free s i"
  using assms by (simp add: id_free_def)

lemma svc_inv_root_change:
  assumes "svc_inv (s, w)" and "Mutate i (root_change g evs) clock (s, w) = (res, (s', w'))"
  shows "svc_inv (s', w')"
  using assms Mutate_wf [OF assms(2) fresh_root_change] Mutate_ids [OF assms(2) fresh_root_change]
  by (simp add: svc_inv_def)

lemma kept_root_change:
  assumes "svc_inv (s, w)" and "Mutate i (root_change g evs) clock (s, w) = (res, (s', w'))"
    and "\<And>t. isTerminalTaskStatus (t_Status t) \<Longrightarrow> isTerminalTaskStatus (t_Status (g t))"
  shows "kept s s'"
proof -
  have wf: "svc_wf s" "svc_wf s'" using assms(1) svc_inv_root_change [OF assms(1,2)] by (simp_all add: svc_inv_def)
  from assms(2) wf(1) show ?thesis
  proof (cases rule: Mutate_root)
    case (refused e)
    then have "set (all_tasks s') = set (all_tasks s)" by (auto simp: mem_all_tasks wf)
    with refused show ?thesis by (auto simp: kept_def id_free_def)
  next
    case (saved r t root)
    have root: "root \<in> set (all_tasks s)" using saved(3) svc_wf_root [OF wf(1) saved(3)] by (simp add: mem_all_tasks wf)
    have "u = g root \<or> u \<in> set (all_tasks s)" if "u \<in> set (all_tasks s')" for u
      using that saved(4,5) by (auto simp: mem_all_tasks wf split: if_splits)
    with root saved(5-7) svc_wf_root [OF wf(1) saved(3)] assms(3) show ?thesis
      unfolding kept_def id_free_view [OF saved(5)] by (metis (no_types))
  qed
qed

subsection \<open>Cancelling\<close>

definition cancel_root :: "time \<Rightarrow> Task \<Rightarrow> Task" where
  "cancel_root now t = (if closed_status (t_Status t) then t
     else t\<lparr>t_Status := StatusCancelled, t_Error := ''agent archived'', t_UpdatedAt := now\<rparr>)"

lemma cancel_change_root: "cancel_change now = root_change (cancel_root now) []"
  by (intro ext) (simp add: cancel_change_def root_change_def cancel_root_def)

lemma cancel_each_kept:
  assumes "svc_inv (s, w)" and "cancel_each clock n agentID tasks (s, w) = (res, (s', w'))"
  shows "svc_inv (s', w') \<and> kept s s'"
  using assms
proof (induction clock n agentID tasks arbitrary: s w rule: cancel_each.induct)
  case (2 clock n agentID task tasks)
  show ?case
  proof (cases "t_AssignmentID task \<noteq> agentID \<or> closed_status (t_Status task)")
    case True
    with 2 show ?thesis by simp
  next
    case False
    obtain r s1 w1 where m: "Mutate (t_ID task) (cancel_change (clock n)) (\<lambda>_. clock n) (s, w) = (r, (s1, w1))"
      by (metis prod_cases3)
    have inv1: "svc_inv (s1, w1)" by (rule svc_inv_root_change [OF "2.prems"(1) m [unfolded cancel_change_root]])
    have k1: "kept s s1"
      by (rule kept_root_change [OF "2.prems"(1) m [unfolded cancel_change_root]]) (simp add: cancel_root_def)
    show ?thesis
    proof (cases r)
      case (Inl e)
      with False m "2.prems"(2) inv1 k1 show ?thesis by (auto simp: bindE_def)
    next
      case (Inr u)
      with False m "2.prems"(2) have "cancel_each clock (Suc n) agentID tasks (s1, w1) = (res, (s', w'))"
        by (simp add: bindE_def)
      with "2.IH"(2) [OF False inv1] k1 show ?thesis by (auto intro: kept_trans)
    qed
  qed
qed auto

subsection \<open>Creating\<close>

lemma CreateRoot_roots:
  assumes run: "CreateRoot input now (s, w) = (res, (s', w'))" and room: "alloc_room 1 (s_taskIDs s, w)"
  obtains (refused) e where "res = Inl e" and "\<And>k. mget (s_roots s') k = mget (s_roots s) k"
      and "s_children s' = s_children s"
    | (created) i where "res = Inr (new_root input now i)" and "mget (s_roots s) i = None"
      and "\<And>k. mget (s_roots s') k = (if k = i then Some (new_root input now i) else mget (s_roots s) k)"
      and "s_children s' = s_children s"
      and "TrimSpace (cr_ID input) = [] \<longrightarrow> \<not> covered (al_next (s_taskIDs s)) i"
      and "TrimSpace (cr_ID input) \<noteq> [] \<longrightarrow> i = TrimSpace (cr_ID input)"
  using run room
proof (cases rule: CreateRoot_cases)
  case (refused e a)
  then show ?thesis by (intro that(1)) simp_all
next
  case (created i a w1 ev x)
  show ?thesis
  proof (cases x)
    case (Inl e)
    with created show ?thesis by (intro that(1)) (auto simp: drop_root_def)
  next
    case (Inr u)
    with created show ?thesis by (intro that(2) [of i]) auto
  qed
qed

lemma CreateRoot_tasks:
  assumes run: "CreateRoot input now (s, w) = (res, (s', w'))" and inv: "svc_inv (s, w)" and room: "alloc_room 1 (s_taskIDs s, w)"
    and free: "TrimSpace (cr_ID input) \<noteq> [] \<longrightarrow> id_free s (TrimSpace (cr_ID input))"
  obtains (refused) e where "res = Inl e" and "\<And>k. mget (s_roots s') k = mget (s_roots s) k"
      and "s_children s' = s_children s"
    | (created) i where "res = Inr (new_root input now i)" and "mget (s_roots s) i = None" and "id_free s i"
      and "\<And>k. mget (s_roots s') k = (if k = i then Some (new_root input now i) else mget (s_roots s) k)"
      and "s_children s' = s_children s"
      and "TrimSpace (cr_ID input) = [] \<longrightarrow> \<not> covered (al_next (s_taskIDs s)) i"
      and "TrimSpace (cr_ID input) \<noteq> [] \<longrightarrow> i = TrimSpace (cr_ID input)"
  using run room
proof (cases rule: CreateRoot_roots)
  case (created i)
  then have "id_free s i" using free ids_ok_free [of s i] inv by (auto simp: svc_inv_def)
  with created that(2) show ?thesis by blast
qed (rule that(1))

lemma svc_inv_CreateRoot:
  assumes "CreateRoot input now (s, w) = (res, (s', w'))" and "svc_inv (s, w)" and "alloc_room 1 (s_taskIDs s, w)"
    and "TrimSpace (cr_ID input) \<noteq> [] \<longrightarrow> id_free s (TrimSpace (cr_ID input))"
  shows "svc_inv (s', w')"
  using CreateRoot_wf [OF assms(1,3)] CreateRoot_ids [OF assms(1,3)] assms(2,4) by (simp add: svc_inv_def)

definition fail_root :: "string \<Rightarrow> time \<Rightarrow> Task \<Rightarrow> Task" where
  "fail_root err now t = t\<lparr>t_Status := StatusFailed, t_Error := err, t_UpdatedAt := now\<rparr>"

lemma undelivered_root:
  "undelivered task err now = root_change (fail_root err now) [zero_event\<lparr>e_Type := EventTaskFailed, e_TaskID := t_ID task,
     e_ActorID := t_CreatedBy task, e_Summary := err\<rparr>]"
  by (intro ext) (simp add: undelivered_def root_change_def fail_root_def)

lemma choose_room_cases:
  assumes "choose_room im input name description (x, log) = (r, y)"
  obtains (failed) e extra where "r = Inl e" and "y = (x, log @ extra)"
      and "\<And>session title creator members. im_create im = Inr session \<Longrightarrow> CreateRoom title creator members \<notin> set extra"
    | (chosen) user room extra where "r = Inr (user, room)" and "y = (x, log @ extra)"
      and "aci_NewTaskSession input \<Longrightarrow> im_create im = Inr room"
      and "\<And>title creator members. \<not> aci_NewTaskSession input \<Longrightarrow> CreateRoom title creator members \<notin> set extra"
  using assms
  by (fastforce simp: choose_room_def log_call_def throwE_def returnE_def Let_def split: sum.splits option.splits if_splits)

lemma create_in_room_cases:
  assumes "create_in_room env im now input room ((s, w), log) = (r, y)"
  obtains (failed) e e0 s' w' extra where "r = Inl e" and "y = ((s', w'), log @ extra)"
      and "CreateRoot (root_input env input room) now (s, w) = (Inl e0, (s', w'))"
      and "extra = (if aci_NewTaskSession input then [DeleteRoom room] else [])"
    | (created) task s' w' where "r = Inr task" and "y = ((s', w'), log)"
      and "CreateRoot (root_input env input room) now (s, w) = (Inr task, (s', w'))"
proof -
  obtain c s' w' where c: "CreateRoot (root_input env input room) now (s, w) = (c, (s', w'))" by (metis prod_cases3)
  show thesis
  proof (cases c)
    case (Inr task)
    with assms c show ?thesis by (intro created [of task s' w']) (simp_all add: create_in_room_def on_tasks_def)
  next
    case (Inl e)
    show ?thesis
    proof (cases "aci_NewTaskSession input")
      case True
      with assms c Inl show ?thesis
        by (intro failed [of _ s' w' "[DeleteRoom room]" e]) (auto simp: create_in_room_def on_tasks_def log_call_def)
    next
      case False
      with assms c Inl show ?thesis
        by (intro failed [of _ s' w' "[]" e]) (auto simp: create_in_room_def on_tasks_def)
    qed
  qed
qed

lemma CreateAgentTask_cases:
  assumes run: "CreateAgentTask env now clock input ((s, w), log) = (res, ((s', w'), log'))"
  obtains (refused) e extra where "res = Inl e" and "s' = s" and "w' = w" and "log' = log @ extra"
      and "\<And>im session title creator members. ae_im env = Some im \<Longrightarrow> im_create im = Inr session \<Longrightarrow>
        CreateRoom title creator members \<notin> set extra"
    | (uncreated) im room e e0 extra where "ae_im env = Some im" and "res = Inl e"
      and "CreateRoot (root_input env input room) now (s, w) = (Inl e0, (s', w'))" and "log' = log @ extra"
      and "aci_NewTaskSession input \<Longrightarrow> im_create im = Inr room \<and> last extra = DeleteRoom room"
      and "\<And>title creator members. \<not> aci_NewTaskSession input \<Longrightarrow> CreateRoom title creator members \<notin> set extra"
    | (delivered) user room task pre where "res = Inr task" and "canonicalAgentID (aci_AgentID input) \<noteq> []"
      and "CreateRoot (root_input env input room) now (s, w) = (Inr task, (s', w'))"
      and "log' = log @ pre @ [assignment_event input user room task]"
      and "\<exists>im. ae_im env = Some im \<and> im_deliver im = None"
    | (undelivered) room task err s1 w1 where
      "CreateRoot (root_input env input room) now (s, w) = (Inr task, (s1, w1))"
      and "if aci_NewTaskSession input then
          \<exists>r. Mutate (t_ID task) (undelivered task err (clock 0)) (\<lambda>n. clock (Suc n)) (s1, w1) = (r, (s', w')) \<and>
            res = Inl (case r of Inr _ \<Rightarrow> AtIM err | Inl e \<Rightarrow> AtJoin (AtIM err) (AtCore e))
        else s' = s1 \<and> w' = w1 \<and> res = Inl (AtIM err)"
      and "canonicalAgentID (aci_AgentID input) \<noteq> []"
      and "\<exists>im. ae_im env = Some im \<and> im_deliver im = Some err"
      and "\<exists>user pre. log' = log @ pre @ [assignment_event input user room task]"
proof -
  show thesis
  proof (cases "ae_im env = None \<or> canonicalAgentID (aci_AgentID input) = [] \<or> TrimSpace (aci_Title input) = [] \<or>
      (\<exists>e. agentIdentity env (canonicalAgentID (aci_AgentID input)) = Inl e)")
    case True
    then obtain e where "res = Inl e \<and> s' = s \<and> w' = w \<and> log' = log"
      using run by (auto simp: CreateAgentTask_def throwE_def Let_def split: option.splits if_splits sum.splits)
    then show ?thesis by (intro refused [of e "[]"]) auto
  next
    case False
    then obtain im name description where im: "ae_im env = Some im"
      and id: "agentIdentity env (canonicalAgentID (aci_AgentID input)) = Inr (name, description)"
      by (cases "agentIdentity env (canonicalAgentID (aci_AgentID input))") auto
    obtain r1 y1 where c: "choose_room im input name description ((s, w), log) = (r1, y1)" by (metis surj_pair)
    from run False im id have run': "bindE (choose_room im input name description) (\<lambda>(user, room).
        bindE (create_in_room env im now input room) (deliver_assignment im clock input user room)) ((s, w), log) =
        (res, ((s', w'), log'))" by (simp add: CreateAgentTask_def Let_def)
    from c show ?thesis
    proof (cases rule: choose_room_cases)
      case (failed e extra)
      with run' c im show ?thesis by (intro refused [of e extra]) (auto simp: bindE_def)
    next
      case (chosen user room extra)
      obtain r2 y2 where d: "create_in_room env im now input room ((s, w), log @ extra) = (r2, y2)" by (metis surj_pair)
      from d show ?thesis
      proof (cases rule: create_in_room_cases)
        case (failed e e0 s1 w1 more)
        with run' c d chosen im show ?thesis
          by (intro uncreated [of im e room e0 "extra @ more"]) (auto simp: bindE_def)
      next
        case (created task s1 w1)
        with run' c d chosen have e: "deliver_assignment im clock input user room task ((s1, w1), log @ extra) = (res, ((s', w'), log'))"
          by (simp add: bindE_def)
        show ?thesis
        proof (cases "im_deliver im")
          case None
          with e created False show ?thesis
            by (intro delivered [of task room extra user]) (auto simp: deliver_assignment_def log_call_def Let_def im)
        next
          case (Some err)
          obtain r3 s3 w3 where m: "Mutate (t_ID task) (undelivered task err (clock 0)) (\<lambda>n. clock (Suc n)) (s1, w1) = (r3, (s3, w3))"
            by (metis prod_cases3)
          with e Some created False show ?thesis
            by (intro undelivered [of room task s1 w1 err])
               (auto simp: deliver_assignment_def log_call_def on_tasks_def Let_def im split: sum.splits if_splits)
        qed
      qed
    qed
  qed
qed

text \<open>The participant that a task is assigned to always has a name.\<close>

lemma strip_keeps:
  assumes "\<And>e. e \<in> set es \<Longrightarrow> c \<notin> set e" and "c \<in> set s"
  shows "c \<in> set (strip es s)"
  using assms
proof (induction es s rule: strip.induct)
  case (1 es s)
  show ?case
  proof (cases "find (\<lambda>e. e \<noteq> [] \<and> starts_with e s) es")
    case None
    with "1.prems" show ?thesis by (subst strip.simps) simp
  next
    case (Some e)
    then have e: "e \<in> set es" "starts_with e s" by (auto simp: find_Some_iff)
    then have "s = e @ drop (length e) s" unfolding starts_with_def by (metis append_take_drop_id)
    with "1.prems" e(1) have "c \<in> set (drop (length e) s)" by (metis Un_iff set_append)
    with "1.IH" [OF Some] "1.prems"(1) Some show ?thesis by (subst strip.simps) simp
  qed
qed

lemma TrimSpace_keeps: "\<forall>e \<in> set go_spaces. c \<notin> set e \<Longrightarrow> c \<in> set s \<Longrightarrow> c \<in> set (TrimSpace s)"
  unfolding TrimSpace_def by (auto intro!: strip_keeps)

lemma participant_nonempty:
  assumes "TrimSpace agentID \<noteq> []"
  shows "TrimSpace (participantIDForAgentID env agentID) \<noteq> []"
proof -
  have "\<forall>e \<in> set go_spaces. CHR ''p'' \<notin> set e" by (simp add: go_spaces_def)
  then have p: "TrimSpace (CHR ''p'' # s) \<noteq> []" for s using TrimSpace_keeps [of "CHR ''p''" "CHR ''p'' # s"] by auto
  have "TrimSpace p \<noteq> []" if "filter (\<lambda>p. p \<noteq> []) (map TrimSpace ps) = p # qs" for p qs ps
  proof -
    have "p \<in> set (filter (\<lambda>p. p \<noteq> []) (map TrimSpace ps))" using that by simp
    then show ?thesis by auto
  qed
  then have known: "TrimSpace p \<noteq> []"
    if "(case ae_participants env of None \<Rightarrow> [] | Some ps \<Rightarrow> filter (\<lambda>p. p \<noteq> []) (map TrimSpace (ps (TrimSpace agentID)))) = p # qs"
    for p qs using that by (cases "ae_participants env") simp_all
  show ?thesis
    using assms known p
    by (cases "case ae_participants env of None \<Rightarrow> [] | Some ps \<Rightarrow> filter (\<lambda>p. p \<noteq> []) (map TrimSpace (ps (TrimSpace agentID)))")
       (simp_all add: participantIDForAgentID_def Let_def ManagerParticipantID_def)
qed

lemma canonicalAgentID_letter:
  assumes "canonicalAgentID i \<noteq> []"
  shows "CHR ''a'' \<in> set (canonicalAgentID i)"
proof -
  have prefix: "CHR ''a'' \<in> set x" if "HasPrefix x AgentIDPrefix" for x
  proof -
    have "x = AgentIDPrefix @ drop (length AgentIDPrefix) x" using that by (rule HasPrefixE)
    also have "CHR ''a'' \<in> set \<dots>" by (simp add: AgentIDPrefix_def)
    finally show ?thesis .
  qed
  have "CHR ''a'' \<in> set (AgentIDPrefix @ x)" for x by (simp add: AgentIDPrefix_def)
  with assms prefix show ?thesis by (simp add: canonicalAgentID_def Let_def split: if_splits)
qed

lemma root_input_status:
  assumes "canonicalAgentID (aci_AgentID input) \<noteq> []"
  shows "t_Status (new_root (root_input env input room) now i) = StatusAssigned"
proof -
  have "\<forall>e \<in> set go_spaces. CHR ''a'' \<notin> set e" by (simp add: go_spaces_def)
  with canonicalAgentID_letter [OF assms] have "TrimSpace (canonicalAgentID (aci_AgentID input)) \<noteq> []"
    using TrimSpace_keeps [of "CHR ''a''"] by fastforce
  then have "TrimSpace (participantIDForAgentID env (canonicalAgentID (aci_AgentID input))) \<noteq> []"
    by (rule participant_nonempty)
  then show ?thesis by (simp add: new_root_def root_input_def Let_def)
qed

lemma root_input_task [simp]:
  "t_ID (new_root input now i) = i"
  "t_AssignmentType (new_root (root_input env inp room) now i) = AssignmentTypeAgent"
  "t_RoomID (new_root (root_input env inp room) now i) = TrimSpace room"
proof -
  have "TrimSpace AssignmentTypeAgent = AssignmentTypeAgent" by code_simp
  then show "t_ID (new_root input now i) = i"
    "t_AssignmentType (new_root (root_input env inp room) now i) = AssignmentTypeAgent"
    "t_RoomID (new_root (root_input env inp room) now i) = TrimSpace room"
    by (simp_all add: new_root_def root_input_def Let_def)
qed


definition demo_agent_env :: "string option \<Rightarrow> agent_env" where
  "demo_agent_env failure = \<lparr>ae_agents = None, ae_participants = None,
     ae_im = Some \<lparr>im_ensure = Inr (''agent-a'', None), im_create = Inr ''room-1'', im_delete = None, im_deliver = failure\<rparr>\<rparr>"

definition demo_agent_input :: AgentCreateInput where
  "demo_agent_input = \<lparr>aci_ID = ''task-scheduled-run-1'', aci_AgentID = ''a'', aci_Title = ''Report'', aci_Body = ''Write it'',
     aci_CreatedBy = ''scheduler'', aci_NewTaskSession = True\<rparr>"

lemma demo_undelivered:
  "let x = CreateAgentTask (demo_agent_env (Some ''offline'')) 7 (\<lambda>n. 8) demo_agent_input ((demo_service, demo_world), [])
   in fst x = Inl (AtIM ''offline'') \<and> map fst (s_roots (fst (fst (snd x)))) = [''task-scheduled-run-1'']"
  by code_simp


end
