(* ===== verification/AgentRuns.thy ===== *)
theory AgentRuns
  imports AgentProps
begin

section \<open>The scheduler over the agent tasks\<close>

text \<open>
  The scheduler calls the agent tasks through the interface \<open>agentTaskRunner\<close>. The locale below is
  what it relies on; the agent task service over the task service provides it. The composed state
  machine interleaves the sections of the scheduler with the creations that its triggers make and
  with what users and agents do to the tasks, and every run of it is a run of the scheduler over an
  abstract runner.
\<close>

declare map_of_eq_Some_iff [simp del] Some_eq_map_of_iff [simp del]

subsection \<open>The runner\<close>

text \<open>What \<open>trigger\<close> asks for.\<close>

definition creation :: "SchedTask \<Rightarrow> Run \<Rightarrow> AgentCreateInput" where
  "creation item run = \<lparr>aci_ID = rn_TaskID run, aci_AgentID = st_AgentID item, aci_Title = st_Title item,
     aci_Body = st_Prompt item, aci_CreatedBy = ''scheduler'', aci_NewTaskSession = True\<rparr>"

locale agent_task_runner =
  fixes tasks :: "'s \<Rightarrow> Task list"
    and ok :: "'s \<Rightarrow> bool"
    and create :: "AgentCreateInput \<Rightarrow> 's \<Rightarrow> (string + string) \<Rightarrow> 's \<Rightarrow> bool"
    and work :: "'s \<Rightarrow> 's \<Rightarrow> bool"
  assumes distinct_tasks: "ok x \<Longrightarrow> distinct (map t_ID (tasks x))"
    and create_ok: "ok x \<Longrightarrow> create input x res y \<Longrightarrow> aci_ID input = run_task n \<Longrightarrow> 0 \<le> n \<Longrightarrow> ok y"
    and create_adds: "ok x \<Longrightarrow> create input x res y \<Longrightarrow> aci_ID input = run_task n \<Longrightarrow> 0 \<le> n \<Longrightarrow>
      set (tasks y) = set (tasks x) \<or>
      (\<exists>t. t_ID t = run_task n \<and> t_ID t \<notin> t_ID ` set (tasks x) \<and> set (tasks y) = insert t (set (tasks x)))"
    and create_answers: "ok x \<Longrightarrow> create input x res y \<Longrightarrow> aci_ID input = run_task n \<Longrightarrow> 0 \<le> n \<Longrightarrow>
      (\<exists>e. res = Inl e) \<or> res = Inr (run_task n)"
    and work_ok: "ok x \<Longrightarrow> work x y \<Longrightarrow> ok y"
    and work_progress: "ok x \<Longrightarrow> work x y \<Longrightarrow>
      (\<forall>n. 0 \<le> n \<longrightarrow> unfinished (tasks y) (run_task n) \<longrightarrow> unfinished (tasks x) (run_task n))"
begin

text \<open>A call under way names a task that belongs to a run.\<close>

lemma creating_run:
  assumes "sched_inv (sv, d, ts, cs @ Creating item now run # cs')"
  obtains n where "0 \<le> n" and "rn_TaskID run = run_task n"
proof -
  from assms have ok: "keys_ok (sv_state sv)" "calls_ok sv (cs @ Creating item now run # cs')" by simp_all
  from ok(2) obtain i where i: "latest_at (run_keys (sv_state sv)) i" "run_keys (sv_state sv) ! i = key_of run"
    unfolding calls_ok_def by (metis call_run.simps(1) in_set_conv_decomp)
  then have "i < length (ss_Runs (sv_state sv))" by (simp add: latest_at_def)
  from keys_ok_nth [OF ok(1) this] i obtain n where "1 \<le> n" "rn_TaskID run = run_task n"
    by (metis (no_types) key_of_def nth_map snd_conv \<open>i < length (ss_Runs (sv_state sv))\<close>)
  then show thesis by (intro that [of n]) simp_all
qed

lemma create_simulates:
  assumes "reachable sched_init sched_step (sv, d, tasks x, cs @ Creating item now run # cs')" and "ok x"
    and "create (creation item run) x res y"
  shows "ok y \<and> reachable sched_init sched_step (sv, d, tasks y, cs @ Ending item now (run_outcome (Some res) run) # cs')"
proof -
  from scheduler.reachable_inv [OF assms(1)] obtain n where n: "0 \<le> n" "rn_TaskID run = run_task n" by (rule creating_run)
  then have id: "aci_ID (creation item run) = run_task n" by (simp add: creation_def)
  note call = assms(2,3) id n(1)
  from create_answers [OF call] obtain e where "res = Inl e \<or> res = Inr (rn_TaskID run)" unfolding n(2) by blast
  with distinct_tasks [OF create_ok [OF call]] create_adds [OF call, folded n(2)]
  have "sched_step (sv, d, tasks x, cs @ Creating item now run # cs') Created
      (sv, d, tasks y, cs @ Ending item now (run_outcome (Some res) run) # cs')" by (rule step_created)
  with reachable_step [OF assms(1)] create_ok [OF call] show ?thesis by blast
qed

lemma work_simulates:
  assumes "reachable sched_init sched_step (sv, d, tasks x, calls)" and "ok x" and "work x y"
  shows "ok y \<and> reachable sched_init sched_step (sv, d, tasks y, calls)"
proof -
  have "tasks_progress (tasks x) (tasks y)"
    using work_progress [OF assms(2,3)] distinct_tasks [OF work_ok [OF assms(2,3)]] by (simp add: tasks_progress_def)
  from reachable_step [OF assms(1) step_progress [OF this]] work_ok [OF assms(2,3)] show ?thesis by blast
qed

end

subsection \<open>Agent tasks as a runner\<close>

text \<open>The tasks of the service never have a child with the identifier of a run.\<close>

definition tasks_ok :: "at_state \<Rightarrow> bool" where
  "tasks_ok x \<longleftrightarrow> svc_inv (fst x) \<and> (\<forall>n. 0 \<le> n \<longrightarrow> id_free (fst (fst x)) (run_task n))"

text \<open>One creation; \<open>message\<close> is the text of an error.\<close>

inductive create_task :: "AgentCreateInput \<Rightarrow> at_state \<Rightarrow> (string + string) \<Rightarrow> at_state \<Rightarrow> bool" where
  "alloc_room 1 (s_taskIDs s, w) \<Longrightarrow> CreateAgentTask env now clock input ((s, w), log) = (res, y) \<Longrightarrow>
     create_task input ((s, w), log) (map_sum message t_ID res) y"

text \<open>What users and agents do: create tasks without choosing the identifier, claim, update and cancel.\<close>

inductive task_work :: "at_state \<Rightarrow> at_state \<Rightarrow> bool" where
  work_create: "create_task input x res y \<Longrightarrow> TrimSpace (aci_ID input) = [] \<Longrightarrow> task_work x y"
| work_claim: "AgentClaim now input ((s, w), log) = (res, y) \<Longrightarrow> task_work ((s, w), log) y"
| work_update: "AgentUpdate now input' ((s, w), log) = (res, y) \<Longrightarrow> task_work ((s, w), log) y"
| work_cancel: "AgentCancelTasks clock agentID (s, w) = (res', z) \<Longrightarrow> task_work ((s, w), log) (z, log)"

lemma set_AgentList: "set (AgentList s) = {t \<in> set (all_tasks s). t_AssignmentType t = AssignmentTypeAgent}"
  by (auto simp: AgentList_def ListGlobal_def)

lemma distinct_AgentList:
  assumes "svc_inv (s, w)"
  shows "distinct (map t_ID (AgentList s))"
proof -
  have "distinct (map t_ID (all_tasks s))" using assms by (simp add: svc_inv_def unique_ids)
  then have "distinct (map t_ID (ListGlobal s))" by (simp add: ListGlobal_def distinct_map)
  then show ?thesis unfolding AgentList_def by (rule distinct_map_filter)
qed

lemma run_task_covered: "0 \<le> n \<Longrightarrow> covered k (run_task n)"
  by (simp add: covered_def maxCounterFromIdentifier_def) (simp add: run_task_def run_id_def HasPrefix_def starts_with_def is_digit_def)

text \<open>A creation adds at most one task, with the identifier asked for or a new one.\<close>

lemma CreateAgentTask_adds:
  assumes run: "CreateAgentTask env now clock input ((s, w), log) = (res, ((s', w'), log'))"
    and inv: "svc_inv (s, w)" and room: "alloc_room 1 (s_taskIDs s, w)"
    and free: "TrimSpace (aci_ID input) \<noteq> [] \<longrightarrow> id_free s (TrimSpace (aci_ID input))"
  shows "svc_inv (s', w') \<and> (\<forall>k. id_free s k \<longrightarrow> id_free s' k) \<and>
    ((\<exists>e. res = Inl e) \<and> set (all_tasks s') = set (all_tasks s) \<or>
     (\<exists>t. t_ID t \<notin> t_ID ` set (all_tasks s) \<and> set (all_tasks s') = insert t (set (all_tasks s)) \<and>
        (TrimSpace (aci_ID input) = [] \<longrightarrow> \<not> covered (al_next (s_taskIDs s)) (t_ID t)) \<and>
        (TrimSpace (aci_ID input) \<noteq> [] \<longrightarrow> t_ID t = TrimSpace (aci_ID input)) \<and>
        (\<forall>u. res = Inr u \<longrightarrow> u = t) \<and> t_AssignmentType t = AssignmentTypeAgent))"
proof -
  have id: "TrimSpace (cr_ID (root_input env input r)) = TrimSpace (aci_ID input)" for r
    by (simp add: root_input_def Let_def)
  have wf: "svc_wf s" using inv by (simp add: svc_inv_def)
  have create: "svc_inv (s1, w1) \<and> (\<forall>k. id_free s k \<longrightarrow> id_free s1 k) \<and>
      ((\<exists>e. r = Inl e) \<and> set (all_tasks s1) = set (all_tasks s) \<or>
       (\<exists>t. r = Inr t \<and> t_ID t \<notin> t_ID ` set (all_tasks s) \<and> set (all_tasks s1) = insert t (set (all_tasks s)) \<and>
          (TrimSpace (aci_ID input) = [] \<longrightarrow> \<not> covered (al_next (s_taskIDs s)) (t_ID t)) \<and>
          (TrimSpace (aci_ID input) \<noteq> [] \<longrightarrow> t_ID t = TrimSpace (aci_ID input)) \<and>
          mget (s_roots s1) (t_ID t) = Some t \<and> t_AssignmentType t = AssignmentTypeAgent))"
    if c: "CreateRoot (root_input env input q) now (s, w) = (r, (s1, w1))" for q r s1 w1
  proof -
    have inv1: "svc_inv (s1, w1)" by (rule svc_inv_CreateRoot [OF c inv room]) (use free id in simp)
    then have wf1: "svc_wf s1" by (simp add: svc_inv_def)
    have f: "TrimSpace (cr_ID (root_input env input q)) \<noteq> [] \<longrightarrow> id_free s (TrimSpace (cr_ID (root_input env input q)))"
      using free by (simp add: id)
    from c inv room f show ?thesis
    proof (cases rule: CreateRoot_tasks)
      case (created i)
      have "t_ID t \<noteq> i" if "t \<in> set (all_tasks s)" for t
        using that created(2,3) by (auto simp: mem_all_tasks [OF wf] id_free_def)
      moreover have "set (all_tasks s1) = insert (new_root (root_input env input q) now i) (set (all_tasks s))"
        using created(2-5) by (auto simp: mem_all_tasks wf wf1 svc_views id_free_def split: if_splits)
      ultimately show ?thesis using created inv1 id by (auto simp: id_free_def svc_views)
    qed (use free id inv1 in \<open>auto simp: mem_all_tasks wf wf1 id_free_def svc_views\<close>)
  qed
  from run show ?thesis
  proof (cases rule: CreateAgentTask_cases)
    case (refused e extra)
    with inv show ?thesis by auto
  next
    case (uncreated im q e e0 extra)
    with create [OF uncreated(3)] show ?thesis by auto
  next
    case (delivered user q task pre)
    with create [OF delivered(3)] show ?thesis by auto
  next
    case (undelivered q task err s1 w1)
    note c = create [OF undelivered(1)]
    from c have wf1: "svc_inv (s1, w1)" "svc_wf s1" by (simp_all add: svc_inv_def)
    have task: "mget (s_roots s1) (t_ID task) = Some task" using c by auto
    show ?thesis
    proof (cases "aci_NewTaskSession input")
      case False
      with undelivered(2) c show ?thesis by auto
    next
      case True
      let ?ch = "root_change (fail_root err (clock 0)) [zero_event\<lparr>e_Type := EventTaskFailed, e_TaskID := t_ID task,
          e_ActorID := t_CreatedBy task, e_Summary := err\<rparr>]"
      from True undelivered(2) obtain r e where m: "Mutate (t_ID task) ?ch (\<lambda>n. clock (Suc n)) (s1, w1) = (r, (s', w'))"
        and res: "res = Inl e" by (auto simp: undelivered_root)
      have inv': "svc_inv (s', w')" by (rule svc_inv_root_change [OF wf1(1) m])
      then have wf': "svc_wf s'" by (simp add: svc_inv_def)
      from m wf1(2) show ?thesis
      proof (cases rule: Mutate_root)
        case (refused e')
        then have "set (all_tasks s') = set (all_tasks s1)" by (auto simp: mem_all_tasks wf1(2) wf')
        with c res inv' id_free_view [OF refused(3)] show ?thesis by auto
      next
        case (saved r' t root)
        from saved(1) wf1(2) have r': "r' = t_ID task"
          by (cases rule: requireTaskLocked_cases)
             (use task svc_wf_root [OF wf1(2) task] in \<open>auto simp: trimmed_TrimSpace\<close>)
        let ?t = "fail_root err (clock 0) task"
        have new: "t_ID task \<notin> t_ID ` set (all_tasks s)" "set (all_tasks s1) = insert task (set (all_tasks s))" using c by auto
        have t: "t_ID ?t = t_ID task" "t_AssignmentType ?t = t_AssignmentType task" by (simp_all add: fail_root_def)
        have child: "mget (childrenForRootLocked s1 q) (t_ID task) = None" for q
          using task wf1(1) unfolding svc_inv_def ids_ok_def by (metis fst_conv not_None_eq)
        have "u \<in> set (all_tasks s') \<longleftrightarrow> u = ?t \<or> (u \<in> set (all_tasks s1) \<and> t_ID u \<noteq> t_ID task)" for u
          using saved(3-5) task r' t(1) child by (auto simp: mem_all_tasks wf1(2) wf')
        then have "set (all_tasks s') = insert ?t (set (all_tasks s))" using new by (auto simp: image_iff)
        with c res inv' new(1) t id_free_view [OF saved(5)] show ?thesis by (intro conjI disjI2 exI [of _ ?t]) auto
      qed
    qed
  qed
qed


lemma agent_only_run:
  assumes "agent_only f ((s, w), log) = (res, ((s', w'), log'))"
  obtains r where "f (s, w) = (r, (s', w'))"
  using assms by (cases "f (s, w)") (auto simp: agent_only_def bindE_def on_tasks_def throwE_def returnE_def split: sum.splits if_splits)

lemma event_run_inv:
  assumes "event_run s w m" and "m = (r, (s', w'))" and "svc_inv (s, w)"
  shows "svc_inv (s', w')"
  using event_run_wf [OF assms(1) [unfolded assms(2)]] assms(3) same_keys_ids_ok by (auto simp: svc_inv_def)

lemma AgentClaim_kept:
  assumes "svc_inv (s, w)" and "AgentClaim now input ((s, w), log) = (res, ((s', w'), log'))"
  shows "svc_inv (s', w') \<and> kept s s'"
proof -
  have wf: "svc_wf s" using assms(1) by (simp add: svc_inv_def)
  from assms(2) [unfolded AgentClaim_def] obtain r
    where c: "Claim \<lparr>cl_TaskID = acl_TaskID input, cl_ParticipantID = TrimSpace (acl_ParticipantID input)\<rparr> now (s, w) = (r, (s', w'))"
    by (rule agent_only_run)
  from kept_Claim [OF wf c] event_run_inv [OF event_run_Claim [OF wf] c assms(1)] show ?thesis by simp
qed

lemma AgentUpdate_kept:
  assumes "svc_inv (s, w)" and "AgentUpdate now input ((s, w), log) = (res, ((s', w'), log'))"
  shows "svc_inv (s', w') \<and> kept s s'"
proof -
  have wf: "svc_wf s" using assms(1) by (simp add: svc_inv_def)
  have finish: "svc_inv (s', w') \<and> kept s s'"
    if "agent_only (finishTask i actor status summary now) ((s, w), log) = (res, ((s', w'), log'))" for i actor status summary
    using that event_run_inv [OF event_run_finishTask [OF wf] _ assms(1)] kept_finishTask [OF wf]
    by (auto elim!: agent_only_run)
  have block: "svc_inv (s', w') \<and> kept s s'"
    if "agent_only (Block inp now) ((s, w), log) = (res, ((s', w'), log'))" for inp
    using that event_run_inv [OF event_run_Block [OF wf] _ assms(1)] kept_Block [OF wf]
    by (auto elim!: agent_only_run)
  from assms show ?thesis
    by (auto simp: AgentUpdate_def Complete_def Fail_def Let_def throwE_def split: if_splits dest: finish block)
qed

lemma kept_progress:
  assumes "kept s s'" and "unfinished (AgentList s') i"
  shows "unfinished (AgentList s) i"
  using assms unfolding kept_def unfinished_def set_AgentList by (metis (mono_tags, lifting) mem_Collect_eq)

lemma create_task_adds:
  assumes "create_task input x res y" and "tasks_ok x" and "TrimSpace (aci_ID input) = [] \<or> (\<exists>n. 0 \<le> n \<and> aci_ID input = run_task n)"
  obtains (none) e where "res = Inl e" and "tasks_ok y" and "set (AgentList (fst (fst y))) = set (AgentList (fst (fst x)))"
    | (added) t where "tasks_ok y" and "t_ID t \<notin> t_ID ` set (AgentList (fst (fst x)))"
      and "set (AgentList (fst (fst y))) = insert t (set (AgentList (fst (fst x))))"
      and "(\<exists>e. res = Inl e) \<or> res = Inr (t_ID t)"
      and "TrimSpace (aci_ID input) = [] \<longrightarrow> (\<forall>n. 0 \<le> n \<longrightarrow> t_ID t \<noteq> run_task n)"
      and "TrimSpace (aci_ID input) \<noteq> [] \<longrightarrow> t_ID t = TrimSpace (aci_ID input)"
  using assms(1)
proof cases
  case (1 s w env now clock log r message)
  obtain s' w' log' where y: "y = ((s', w'), log')" by (metis surj_pair)
  from assms(2) 1(1) have inv: "svc_inv (s, w)" and free: "\<And>n. 0 \<le> n \<Longrightarrow> id_free s (run_task n)"
    by (simp_all add: tasks_ok_def)
  have f: "TrimSpace (aci_ID input) \<noteq> [] \<longrightarrow> id_free s (TrimSpace (aci_ID input))" using assms(3) free by auto
  note eff = CreateAgentTask_adds [OF 1(4) [unfolded y] inv 1(3) f]
  then have ok: "tasks_ok y" using free by (auto simp: tasks_ok_def y)
  from eff consider e where "r = Inl e" "set (all_tasks s') = set (all_tasks s)"
    | t where "t_ID t \<notin> t_ID ` set (all_tasks s)" "set (all_tasks s') = insert t (set (all_tasks s))"
      "TrimSpace (aci_ID input) = [] \<longrightarrow> \<not> covered (al_next (s_taskIDs s)) (t_ID t)"
      "TrimSpace (aci_ID input) \<noteq> [] \<longrightarrow> t_ID t = TrimSpace (aci_ID input)"
      "\<forall>u. r = Inr u \<longrightarrow> u = t" "t_AssignmentType t = AssignmentTypeAgent" by blast
  then show thesis
  proof cases
    case 1
    with ok \<open>res = map_sum message t_ID r\<close> \<open>x = ((s, w), log)\<close> y show thesis
      by (intro none [of "message e"]) (auto simp: set_AgentList)
  next
    case (2 t)
    then have "(\<exists>e. r = Inl e) \<or> r = Inr t" by (cases r) auto
    with 2 ok \<open>res = map_sum message t_ID r\<close> \<open>x = ((s, w), log)\<close> y show thesis
      by (intro added [of t]) (auto simp: set_AgentList run_task_covered)
  qed
qed

lemma task_work_ok:
  assumes "task_work x y" and "tasks_ok x"
  shows "tasks_ok y \<and> (\<forall>n. 0 \<le> n \<longrightarrow> unfinished (AgentList (fst (fst y))) (run_task n) \<longrightarrow>
    unfinished (AgentList (fst (fst x))) (run_task n))"
proof -
  have kept: "?thesis" if "svc_inv (s', w')" "kept s s'" "y = ((s', w'), log')" "x = ((s, w), log)" for s w s' w' log log'
    using that assms(2) kept_progress [OF that(2)] by (auto simp: tasks_ok_def kept_def)
  from assms(1) show ?thesis
  proof cases
    case (work_create input res)
    from work_create(2) have e: "TrimSpace (aci_ID input) = [] \<or> (\<exists>n. 0 \<le> n \<and> aci_ID input = run_task n)" by simp
    from work_create(1) assms(2) e show ?thesis
      by (cases rule: create_task_adds) (use work_create(2) in \<open>auto simp: unfinished_def\<close>)
  next
    case (work_claim now input s w log res)
    obtain s' w' log' where y: "y = ((s', w'), log')" by (metis surj_pair)
    from AgentClaim_kept [OF _ work_claim(2) [unfolded y]] assms(2) work_claim(1) y show ?thesis
      by (intro kept [of s' w' s log' w log]) (auto simp: tasks_ok_def)
  next
    case (work_update now input s w log res)
    obtain s' w' log' where y: "y = ((s', w'), log')" by (metis surj_pair)
    from AgentUpdate_kept [OF _ work_update(2) [unfolded y]] assms(2) work_update(1) y show ?thesis
      by (intro kept [of s' w' s log' w log]) (auto simp: tasks_ok_def)
  next
    case (work_cancel clock agentID s w res z log)
    obtain s' w' where z: "z = (s', w')" by (metis surj_pair)
    from cancel_each_kept [OF _ work_cancel(3) [unfolded z AgentCancelTasks_def]] assms(2) work_cancel(1,2) z show ?thesis
      by (intro kept [of s' w' s log w log]) (auto simp: tasks_ok_def)
  qed
qed

interpretation agent_tasks: agent_task_runner "\<lambda>x. AgentList (fst (fst x))" tasks_ok create_task task_work
proof
  fix x
  show "tasks_ok x \<Longrightarrow> distinct (map t_ID (AgentList (fst (fst x))))"
    using distinct_AgentList [of "fst (fst x)" "snd (fst x)"] by (simp add: tasks_ok_def)
next
  fix x y input res n
  assume a: "tasks_ok x" "create_task input x res y" "aci_ID input = run_task n" "0 \<le> n"
  then have e: "TrimSpace (aci_ID input) = [] \<or> (\<exists>n. 0 \<le> n \<and> aci_ID input = run_task n)" by blast
  note rules = create_task_adds [OF a(2,1) e]
  show "tasks_ok y" by (rule rules)
  show "set (AgentList (fst (fst y))) = set (AgentList (fst (fst x))) \<or>
      (\<exists>t. t_ID t = run_task n \<and> t_ID t \<notin> t_ID ` set (AgentList (fst (fst x))) \<and>
        set (AgentList (fst (fst y))) = insert t (set (AgentList (fst (fst x)))))"
    by (rule rules) (use a(3,4) in auto)
  show "(\<exists>e. res = Inl e) \<or> res = Inr (run_task n)"
    by (rule rules) (use a(3,4) in auto)
next
  fix x y
  assume "tasks_ok x" "task_work x y"
  with task_work_ok show "tasks_ok y"
    "\<forall>n. 0 \<le> n \<longrightarrow> unfinished (AgentList (fst (fst y))) (run_task n) \<longrightarrow> unfinished (AgentList (fst (fst x))) (run_task n)"
    by blast+
qed

subsection \<open>The composed system\<close>

type_synonym agent_sys = "SchedService \<times> sched_disk \<times> at_state \<times> sched_call list"

datatype agent_act = Schedule sched_act | CreateTask | TaskWork

text \<open>
  The scheduler's own steps see the tasks that the service lists; a trigger that has reserved a run
  creates its task; users and agents work on tasks.
\<close>

inductive agent_step :: "agent_sys \<Rightarrow> agent_act \<Rightarrow> agent_sys \<Rightarrow> bool" where
  sys_schedule: "a \<noteq> Created \<Longrightarrow> a \<noteq> Progress \<Longrightarrow>
    sched_step (sv, d, AgentList (fst (fst x)), calls) a (sv', d', AgentList (fst (fst x)), calls') \<Longrightarrow>
    agent_step (sv, d, x, calls) (Schedule a) (sv', d', x, calls')"
| sys_create: "create_task (creation item run) x res y \<Longrightarrow>
    agent_step (sv, d, x, cs @ Creating item now run # cs') CreateTask
      (sv, d, y, cs @ Ending item now (run_outcome (Some res) run) # cs')"
| sys_work: "task_work x y \<Longrightarrow> agent_step (sv, d, x, calls) TaskWork (sv, d, y, calls)"

fun agent_init :: "agent_sys \<Rightarrow> bool" where
  "agent_init (sv, d, x, calls) \<longleftrightarrow> tasks_ok x \<and> sched_init (sv, d, AgentList (fst (fst x)), calls)"

fun agent_inv :: "agent_sys \<Rightarrow> bool" where
  "agent_inv (sv, d, x, calls) \<longleftrightarrow> tasks_ok x \<and> reachable sched_init sched_step (sv, d, AgentList (fst (fst x)), calls)"

interpretation agent_system: invariant_system agent_init agent_step agent_inv
proof
  fix x
  show "agent_init x \<Longrightarrow> agent_inv x" by (cases x) (auto intro: reachable_init)
next
  fix x a y
  assume "agent_inv x" and "agent_step x a y"
  from this(2,1) show "agent_inv y"
    by (cases rule: agent_step.cases)
       (auto intro: reachable_step dest: agent_tasks.create_simulates agent_tasks.work_simulates)
qed

text \<open>
  C30. The scheduler over the agent task service and the task service, whatever saves and deliveries
  fail and whatever users and agents do to the tasks meanwhile: two unfinished tasks are never runs
  of the same schedule.
\<close>

theorem scheduled_tasks_exclusive:
  assumes "reachable agent_init agent_step (sv, d, ((s, w), log), calls)"
    and "r \<in> set (ss_Runs (sv_state sv))" and "r' \<in> set (ss_Runs (sv_state sv))"
    and "rn_ScheduledTaskID r = rn_ScheduledTaskID r'"
    and "unfinished (AgentList s) (rn_TaskID r)" and "unfinished (AgentList s) (rn_TaskID r')"
  shows "r = r'"
proof -
  from agent_system.reachable_inv [OF assms(1)] have "reachable sched_init sched_step (sv, d, AgentList s, calls)" by simp
  from unfinished_run_unique [OF scheduler.reachable_inv [OF this] assms(2-6)] show ?thesis .
qed

definition demo_created :: "(at_error + Task) \<times> at_state" where
  "demo_created = CreateAgentTask (demo_agent_env None) 7 (\<lambda>n. 8) (creation demo_item demo_run) ((demo_service, demo_world), [])"

lemma demo_created_values:
  "is_ok (fst demo_created)" "map t_ID (AgentList (fst (fst (snd demo_created)))) = [''task-scheduled-run-1'']"
  "map t_Status (AgentList (fst (fst (snd demo_created)))) = [StatusAssigned]"
  "AgentList demo_service = []"
  by code_simp+

lemma demo_agent_reachable:
  "\<exists>calls. reachable agent_init agent_step (fst (snd demo_begun), snd (snd demo_begun), snd demo_created, calls)"
proof -
  let ?x = "((demo_service, demo_world), [])"
  have "s_children demo_service = []" by (simp add: demo_service_def)
  then have ok: "tasks_ok ?x" using demo_init by (simp add: tasks_ok_def svc_inv_def id_free_def svc_views)
  have tasks: "AgentList (fst (fst ?x)) = []" by (simp add: demo_created_values)
  have r0: "reachable agent_init agent_step (\<lparr>sv_state = fresh_state, sv_inFlight = []\<rparr>, demo_sched_disk, ?x, [])"
    using ok demo_sched_init by (intro reachable_init) (simp add: demo_created_values(4))
  have r1: "reachable agent_init agent_step (fst demo_sched, snd demo_sched, ?x, [])"
    using reachable_step [OF r0 sys_schedule] demo_sched_steps(1) unfolding tasks by blast
  have r2: "reachable agent_init agent_step
      (fst (snd demo_begun), snd (snd demo_begun), ?x, [] @ Creating demo_item (2 * day_ns) demo_run # [])"
    using reachable_step [OF r1 sys_schedule] demo_sched_steps(2) unfolding tasks append_Nil by blast
  have "create_task (creation demo_item demo_run) ?x (map_sum (\<lambda>_. []) t_ID (fst demo_created)) (snd demo_created)"
    using demo_room(1) by (intro create_task.intros) (simp_all add: demo_created_def)
  from reachable_step [OF r2 sys_create [OF this]] show ?thesis by blast
qed

theorem scheduled_tasks_exclusive_witness:
  "\<exists>r. r \<in> set (ss_Runs (sv_state (fst (snd demo_begun)))) \<and>
     unfinished (AgentList (fst (fst (snd demo_created)))) (rn_TaskID r) \<and>
     (\<forall>r' \<in> set (ss_Runs (sv_state (fst (snd demo_begun)))). rn_ScheduledTaskID r = rn_ScheduledTaskID r' \<longrightarrow>
        unfinished (AgentList (fst (fst (snd demo_created)))) (rn_TaskID r') \<longrightarrow> r = r')"
proof -
  obtain t where t: "AgentList (fst (fst (snd demo_created))) = [t]" "t_ID t = rn_TaskID demo_run" "t_Status t = StatusAssigned"
    using demo_created_values(2,3) demo_sched_values(6) by auto
  then have u: "unfinished (AgentList (fst (fst (snd demo_created)))) (rn_TaskID demo_run)" by (simp add: unfinished_def)
  have run: "demo_run \<in> set (ss_Runs (sv_state (fst (snd demo_begun))))" using demo_sched_values(5) by simp
  obtain s w log where c: "snd demo_created = ((s, w), log)" by (metis surj_pair)
  obtain calls where "reachable agent_init agent_step (fst (snd demo_begun), snd (snd demo_begun), ((s, w), log), calls)"
    using demo_agent_reachable c by auto
  from scheduled_tasks_exclusive [OF this run] u run show ?thesis unfolding c by auto
qed

end
