(* ===== verification/UserInput.thy ===== *)
theory UserInput
  imports TaskModel
begin

section \<open>Questions to the user (\<open>internal/activity\<close>)\<close>

text \<open>
  Requests for user input and for permissions as the runtimes and the clients exchange them: their
  data, the validation of questions and of answers, and the removal of secrets. A \<open>uint64\<close> number of
  milliseconds is a \<^typ>\<open>nat\<close>; it is only compared and, when small, converted.
\<close>

subsection \<open>Data (\<open>activity.go\<close>)\<close>

definition ActionStatusPending :: string where "ActionStatusPending = ''pending''"
definition ActionStatusAllowed :: string where "ActionStatusAllowed = ''allowed''"
definition ActionStatusRejected :: string where "ActionStatusRejected = ''rejected''"
definition ActionStatusExpired :: string where "ActionStatusExpired = ''expired''"
definition ActionStatusCanceled :: string where "ActionStatusCanceled = ''canceled''"

definition UserInputStatusPending :: string where "UserInputStatusPending = ''pending''"
definition UserInputStatusSubmitting :: string where "UserInputStatusSubmitting = ''submitting''"
definition UserInputStatusAnswered :: string where "UserInputStatusAnswered = ''answered''"
definition UserInputStatusSkipped :: string where "UserInputStatusSkipped = ''skipped''"
definition UserInputStatusExpired :: string where "UserInputStatusExpired = ''expired''"
definition UserInputStatusCanceled :: string where "UserInputStatusCanceled = ''canceled''"
definition UserInputStatusInterrupted :: string where "UserInputStatusInterrupted = ''interrupted''"

lemmas user_input_statuses = UserInputStatusPending_def UserInputStatusSubmitting_def UserInputStatusAnswered_def
  UserInputStatusSkipped_def UserInputStatusExpired_def UserInputStatusCanceled_def UserInputStatusInterrupted_def

record ActionOptionSnapshot =
  aos_ID :: string
  aos_Kind :: string
  aos_Label :: string
  aos_Scope :: string

record ActionDecisionSnapshot =
  ads_OptionID :: string
  ads_Kind :: string
  ads_DecidedAt :: time

record ActivitySnapshot =
  avs_ID :: string
  avs_Kind :: string
  avs_Title :: string
  avs_Status :: string
  avs_RequestedAt :: time
  avs_ExpiresAt :: time
  avs_Options :: "ActionOptionSnapshot list"
  avs_Decision :: "ActionDecisionSnapshot option"

record UserInputOptionSnapshot =
  uo_Label :: string
  uo_Description :: string

record RequestUserInputQuestion =
  rq_ID :: string
  rq_Header :: string
  rq_Question :: string
  rq_IsOther :: bool
  rq_IsSecret :: bool
  rq_Options :: "UserInputOptionSnapshot list"

record RequestUserInputArgs =
  ra_Questions :: "RequestUserInputQuestion list"
  ra_AutoResolutionMS :: "nat option"

text \<open>A \<open>RequestUserInputAnswer\<close> has only its list of answers, a response only its map.\<close>

type_synonym RequestUserInputResponse = "(string, string list) gomap"

record UserInputQuestionSnapshot =
  uq_ID :: string
  uq_Header :: string
  uq_Question :: string
  uq_Options :: "UserInputOptionSnapshot list"
  uq_IsOther :: bool
  uq_IsSecret :: bool

record UserInputAnswerSnapshot =
  ua_Answered :: bool
  ua_OptionIndex :: nat
  ua_OptionLabel :: string
  ua_Text :: string
  ua_Secret :: bool
  ua_Skipped :: bool

record UserInputSnapshot =
  us_ID :: string
  us_Channel :: string
  us_RoomID :: string
  us_ThreadRootID :: string
  us_RequesterID :: string
  us_Status :: string
  us_Questions :: "UserInputQuestionSnapshot list"
  us_Answers :: "(string, UserInputAnswerSnapshot) gomap"
  us_RequestedAt :: time
  us_ResolvedAt :: "time option"
  us_AutoResolveAt :: "time option"
  us_ResponderID :: string

subsection \<open>Validation (\<open>user_input_validation.go\<close>)\<close>

text \<open>Every error wraps \<open>ErrUserInputInvalidResponse\<close>; the text is what follows it.\<close>

datatype input_error = InvalidResponse string

fun normalize_options :: "UserInputOptionSnapshot list \<Rightarrow> input_error + UserInputOptionSnapshot list" where
  "normalize_options [] = Inr []"
| "normalize_options (opt # opts) =
     (let opt = \<lparr>uo_Label = TrimSpace (uo_Label opt), uo_Description = TrimSpace (uo_Description opt)\<rparr> in
      if uo_Label opt = [] then Inl (InvalidResponse ''option labels are required'')
      else case normalize_options opts of Inl e \<Rightarrow> Inl e | Inr opts \<Rightarrow> Inr (opt # opts))"

fun normalize_questions :: "string list \<Rightarrow> UserInputQuestionSnapshot list \<Rightarrow> input_error + UserInputQuestionSnapshot list" where
  "normalize_questions seen [] = Inr []"
| "normalize_questions seen (q # qs) =
     (let q = q\<lparr>uq_ID := TrimSpace (uq_ID q), uq_Header := TrimSpace (uq_Header q), uq_Question := TrimSpace (uq_Question q)\<rparr> in
      if uq_ID q = [] \<or> uq_Header q = [] \<or> uq_Question q = [] then Inl (InvalidResponse ''question id, header, and text are required'')
      else if uq_ID q \<in> set seen then Inl (InvalidResponse (''duplicate question id '' @ uq_ID q))
      else if length (uq_Options q) > 12 then Inl (InvalidResponse (''too many options: '' @ uq_ID q))
      else case normalize_options (uq_Options q) of
        Inl e \<Rightarrow> Inl e
      | Inr opts \<Rightarrow>
          (case normalize_questions (uq_ID q # seen) qs of
             Inl e \<Rightarrow> Inl e
           | Inr qs \<Rightarrow> Inr (q\<lparr>uq_Options := opts\<rparr> # qs)))"

definition NormalizeUserInputQuestions :: "UserInputQuestionSnapshot list \<Rightarrow> input_error + UserInputQuestionSnapshot list" where
  "NormalizeUserInputQuestions questions =
     (if length questions < 1 \<or> length questions > 32 then Inl (InvalidResponse ''expected 1 to 32 questions'')
      else normalize_questions [] questions)"

fun option_index :: "string \<Rightarrow> UserInputOptionSnapshot list \<Rightarrow> nat \<Rightarrow> nat" where
  "option_index v [] i = 0"
| "option_index v (opt # opts) i = (if v = uo_Label opt then i + 1 else option_index v opts (i + 1))"

text \<open>The values of one answer, in turn: at most one label of an option and at most one note.\<close>

fun answer_values ::
  "UserInputQuestionSnapshot \<Rightarrow> string list \<Rightarrow> string list \<Rightarrow> UserInputAnswerSnapshot \<Rightarrow> input_error + string list \<times> UserInputAnswerSnapshot" where
  "answer_values q [] vals snapshot = Inr (vals, snapshot)"
| "answer_values q (raw # raws) vals snapshot =
     (let v = TrimSpace raw in
      if v = [] then Inl (InvalidResponse (''empty answer: '' @ uq_ID q))
      else if HasPrefix v ''user_note:'' then
        (if ua_Text snapshot \<noteq> [] then Inl (InvalidResponse (''multiple user notes: '' @ uq_ID q))
         else
           let note = TrimSpace (TrimPrefix v ''user_note:'') in
           if note = [] then Inl (InvalidResponse (''empty user note: '' @ uq_ID q))
           else answer_values q raws (vals @ [''user_note: '' @ note])
             (snapshot\<lparr>ua_Text := (if uq_IsSecret q then ''******'' else note)\<rparr>))
      else if ua_OptionIndex snapshot \<noteq> 0 then Inl (InvalidResponse (''multiple option labels: '' @ uq_ID q))
      else
        let i = option_index v (uq_Options q) 0;
            i = (if i = 0 \<and> uq_IsOther q \<and> v = ''None of the above'' then length (uq_Options q) + 1 else i) in
        if i = 0 then Inl (InvalidResponse (''unknown option label: '' @ uq_ID q))
        else answer_values q raws (vals @ [v]) (snapshot\<lparr>ua_OptionIndex := i, ua_OptionLabel := v\<rparr>))"

definition empty_answer :: "bool \<Rightarrow> bool \<Rightarrow> UserInputAnswerSnapshot" where
  "empty_answer answered secret = \<lparr>ua_Answered = answered, ua_OptionIndex = 0, ua_OptionLabel = [], ua_Text = [],
     ua_Secret = secret, ua_Skipped = \<not> answered\<rparr>"

fun build_answers ::
  "UserInputQuestionSnapshot list \<Rightarrow> RequestUserInputResponse \<Rightarrow> RequestUserInputResponse \<Rightarrow> (string, UserInputAnswerSnapshot) gomap \<Rightarrow> bool \<Rightarrow>
     input_error + RequestUserInputResponse \<times> (string, UserInputAnswerSnapshot) gomap \<times> bool" where
  "build_answers [] response normalized snapshots answered = Inr (normalized, snapshots, answered)"
| "build_answers (q # qs) response normalized snapshots answered =
     (case mget response (uq_ID q) of
        None \<Rightarrow> Inl (InvalidResponse (''missing answer: '' @ uq_ID q))
      | Some input \<Rightarrow>
          if input = [] then
            build_answers qs response (mput (uq_ID q) [] normalized) (mput (uq_ID q) (empty_answer False (uq_IsSecret q)) snapshots) answered
          else if length input > 2 then Inl (InvalidResponse (''at most one option and one user note: '' @ uq_ID q))
          else case answer_values q input [] (empty_answer True (uq_IsSecret q)) of
            Inl e \<Rightarrow> Inl e
          | Inr (vals, snapshot) \<Rightarrow>
              build_answers qs response (mput (uq_ID q) vals normalized) (mput (uq_ID q) snapshot snapshots) True)"

definition BuildUserInputResponse ::
  "UserInputQuestionSnapshot list \<Rightarrow> RequestUserInputResponse \<Rightarrow>
     input_error + string \<times> RequestUserInputResponse \<times> (string, UserInputAnswerSnapshot) gomap" where
  "BuildUserInputResponse questions response =
     (if response = [] then Inr (UserInputStatusSkipped, [], [])
      else if \<not> (\<forall>i \<in> set (map fst response). i \<in> set (map uq_ID questions)) then
        Inl (InvalidResponse ''answer references an unknown question id'')
      else case build_answers questions response [] [] False of
        Inl e \<Rightarrow> Inl e
      | Inr (normalized, snapshots, answered) \<Rightarrow>
          Inr (if answered then UserInputStatusAnswered else UserInputStatusSkipped, normalized, snapshots))"

definition public_answer :: "UserInputAnswerSnapshot \<Rightarrow> UserInputAnswerSnapshot" where
  "public_answer answer =
     (if ua_Secret answer \<and> ua_Answered answer \<and> ua_Text answer \<noteq> [] then answer\<lparr>ua_Text := ''******''\<rparr> else answer)"

text \<open>The copy of the questions shares nothing with the original; as a value it is the same.\<close>

definition PublicUserInputSnapshot :: "UserInputSnapshot \<Rightarrow> UserInputSnapshot" where
  "PublicUserInputSnapshot snapshot =
     snapshot\<lparr>us_Answers := map (\<lambda>(i, a). (i, public_answer a)) (us_Answers snapshot)\<rparr>"

text \<open>The response that \<open>UserInputContinuationPrompt\<close> puts, as JSON, into the next prompt of the model.\<close>

definition continuation_values :: "UserInputAnswerSnapshot \<Rightarrow> string list" where
  "continuation_values answer =
     (if \<not> ua_Answered answer then []
      else if ua_Secret answer then [''user_note: <redacted>'']
      else (if ua_OptionLabel answer \<noteq> [] then [ua_OptionLabel answer] else []) @
           (if ua_Text answer \<noteq> [] then [''user_note: '' @ ua_Text answer] else []))"

definition continuation_response :: "UserInputSnapshot \<Rightarrow> RequestUserInputResponse" where
  "continuation_response snapshot =
     foldl (\<lambda>m q. mput (uq_ID q)
         (case mget (us_Answers snapshot) (uq_ID q) of None \<Rightarrow> [] | Some answer \<Rightarrow> continuation_values answer) m)
       [] (us_Questions snapshot)"

text \<open>\<open>RedactSecretUserInputResponse\<close> of \<open>user_input_markdown.go\<close>; the last question with an identifier decides.\<close>

definition RedactSecretUserInputResponse :: "UserInputSnapshot \<Rightarrow> RequestUserInputResponse \<Rightarrow> RequestUserInputResponse" where
  "RedactSecretUserInputResponse snapshot response =
     (let secret = foldl (\<lambda>m q. mput (uq_ID q) (uq_IsSecret q) m) [] (us_Questions snapshot) in
      map (\<lambda>(i, vals). (i, if mget secret i = Some True \<and> vals \<noteq> [] then [''<redacted>''] else vals)) response)"

end
