(* ===== verification/Contract.thy ===== *)
theory Contract
  imports UserInput WorkTypes
begin

section \<open>The contract of the agent engine (\<open>internal/agentengine/contract\<close>)\<close>

text \<open>
  The data that callers of the engine, the engine and the runtimes exchange: turns with their input,
  policies, events and results, interactions and files, and the checks on them. Messages of errors are
  left out, an error is its code. Settings of rooms and tasks of image and video generation are opaque.
  A pointer that nobody writes through is the value it points to; the snapshot of a file is shared, so
  it is an address.
\<close>

subsection \<open>Files (\<open>output_file.go\<close>)\<close>

record OutputFile =
  of_ID :: string
  of_Name :: string
  of_MediaType :: string
  of_SizeBytes :: int
  of_SHA256 :: string
  of_snapshot :: "nat option"

text \<open>\<open>OutputFile.Metadata\<close>: the file without its content.\<close>

definition file_metadata :: "OutputFile \<Rightarrow> OutputFile" where
  "file_metadata f = f\<lparr>of_snapshot := None\<rparr>"

subsection \<open>Errors and policies (\<open>conversation.go\<close>)\<close>

datatype ErrorCode =
    ErrorInvalidRequest | ErrorAgentNotFound | ErrorAgentUnavailable | ErrorRuntimeAdapterUnavailable
  | ErrorConversationBusy | ErrorConversationNotResumable | ErrorFileUnavailable | ErrorFileNotFound
  | ErrorInteractionNotFound | ErrorInteractionPending | ErrorInteractionUnsupported
  | ErrorInteractionAlreadyResolved | ErrorInteractionGone | ErrorCanceled | ErrorRuntimeFailed
  | ErrorUnsupportedRuntimeProvision | ErrorRuntimeExtensionNotFound | ErrorRuntimeExtensionConflict

definition AdmissionRejectIfBusy :: string where "AdmissionRejectIfBusy = ''reject_if_busy''"
definition AdmissionWait :: string where "AdmissionWait = ''wait''"
definition AdmissionSupersede :: string where "AdmissionSupersede = ''supersede''"

definition ContinuationCreateOrResume :: string where "ContinuationCreateOrResume = ''create_or_resume''"
definition ContinuationRequireExisting :: string where "ContinuationRequireExisting = ''require_existing''"

definition InteractionResolve :: string where "InteractionResolve = ''resolve''"
definition InteractionUserInputOnly :: string where "InteractionUserInputOnly = ''user_input_only''"
definition InteractionTextOnly :: string where "InteractionTextOnly = ''text_only''"
definition InteractionReject :: string where "InteractionReject = ''reject''"
definition InteractionSkipUserInput :: string where "InteractionSkipUserInput = ''skip_user_input''"

definition InteractionPermission :: string where "InteractionPermission = ''permission''"
definition InteractionUserInput :: string where "InteractionUserInput = ''user_input''"

definition policy_valid :: "string \<Rightarrow> bool" where
  "policy_valid p \<longleftrightarrow> p \<in> set [InteractionResolve, InteractionUserInputOnly, InteractionTextOnly, InteractionReject, InteractionSkipUserInput]"

text \<open>\<open>InteractionPolicy.For\<close>\<close>

definition policy_for :: "string \<Rightarrow> string \<Rightarrow> string" where
  "policy_for p kind =
     (if p \<noteq> InteractionUserInputOnly \<and> p \<noteq> InteractionTextOnly then p
      else if kind \<noteq> InteractionUserInput then InteractionReject
      else if p = InteractionTextOnly then InteractionSkipUserInput
      else InteractionResolve)"

subsection \<open>Input (\<open>conversation.go\<close>, \<open>input.go\<close>)\<close>

definition InputPartText :: string where "InputPartText = ''text''"
definition InputPartFile :: string where "InputPartFile = ''file''"
definition InputPartWorkspaceFile :: string where "InputPartWorkspaceFile = ''workspace_file''"

record InputFile =
  if_ID :: string
  if_Resolved :: "OutputFile option"

record WorkspaceFile =
  wf_Path :: string
  wf_Name :: string
  wf_MIMEType :: string

record InputPart =
  ip_Kind :: string
  ip_Text :: string
  ip_File :: "InputFile option"
  ip_WorkspaceFile :: "WorkspaceFile option"

text \<open>The elements of a path, and \<open>fs.ValidPath\<close> on it.\<close>

fun path_elements :: "string \<Rightarrow> string list" where
  "path_elements [] = [[]]"
| "path_elements (c # cs) =
     (if c = CHR ''/'' then [] # path_elements cs
      else case path_elements cs of [] \<Rightarrow> [[c]] | p # ps \<Rightarrow> (c # p) # ps)"

definition ValidPath :: "string \<Rightarrow> bool" where
  "ValidPath name \<longleftrightarrow> ValidString name \<and>
     (name = ''.'' \<or> (\<forall>p \<in> set (path_elements name). p \<noteq> [] \<and> p \<noteq> ''.'' \<and> p \<noteq> ''..''))"

text \<open>
  \<open>WorkspaceFile.Valid\<close>. On the systems whose separator is a slash \<open>filepath.IsLocal\<close> holds of every
  valid path, since it has no empty element and none that leads upwards.
\<close>

definition workspace_file_valid :: "WorkspaceFile option \<Rightarrow> bool" where
  "workspace_file_valid file \<longleftrightarrow>
     (case file of
        None \<Rightarrow> False
      | Some f \<Rightarrow>
          TrimSpace (wf_Name f) \<noteq> [] \<and> wf_Path f \<noteq> ''.'' \<and> TrimSpace (wf_Path f) = wf_Path f \<and>
          ValidPath (wf_Path f) \<and> CHR 0x5C \<notin> set (wf_Path f) \<and> CHR '':'' \<notin> set (wf_Path f))"

definition valid_part :: "InputPart \<Rightarrow> bool" where
  "valid_part part \<longleftrightarrow>
     (if ip_Kind part = InputPartText then
        \<not> (ip_File part \<noteq> None \<or> ip_WorkspaceFile part \<noteq> None \<or> TrimSpace (ip_Text part) = [])
      else if ip_Kind part = InputPartFile then
        (case ip_File part of
           None \<Rightarrow> False
         | Some f \<Rightarrow> \<not> (ip_WorkspaceFile part \<noteq> None \<or> TrimSpace (ip_Text part) \<noteq> []) \<and> TrimSpace (if_ID f) \<noteq> [])
      else if ip_Kind part = InputPartWorkspaceFile then
        \<not> (ip_File part \<noteq> None \<or> ip_Text part \<noteq> [] \<or> \<not> workspace_file_valid (ip_WorkspaceFile part))
      else False)"

definition ValidateInput :: "InputPart list \<Rightarrow> ErrorCode option" where
  "ValidateInput input = (if list_all valid_part input then None else Some ErrorInvalidRequest)"

subsection \<open>Turns, events, interactions and results\<close>

record TurnRequest =
  tr_RespondingTo :: string
  tr_PreservePendingInteractions :: bool
  tr_RoomConfiguration :: "string option"
  tr_ImageGeneration :: "string option"
  tr_VideoGeneration :: "string option"
  tr_ID :: string
  tr_ConversationKey :: string
  tr_Input :: "InputPart list"
  tr_Admission :: string
  tr_Continuation :: string
  tr_Interaction :: string

datatype payload = UserInputPayload UserInputSnapshot | ActivityPayload ActivitySnapshot | NativePayload string

record InteractionRequest =
  iq_ID :: string
  iq_Kind :: string
  iq_Detached :: bool
  iq_Title :: string
  iq_Payload :: payload

record InteractionAnswer =
  ian_Values :: "string list"
  ian_Skipped :: bool

text \<open>Of the two callbacks of a resolution it is known here whether they are set.\<close>

record InteractionResolution =
  irs_ConversationKey :: string
  irs_InteractionID :: string
  irs_OptionID :: string
  irs_Answers :: "(string, InteractionAnswer) gomap"
  irs_ResponderID :: string
  irs_BeforeResolve :: bool
  irs_ContinueDetached :: bool

record ToolActivity =
  ta_ID :: string
  ta_Kind :: string
  ta_Title :: string
  ta_Status :: string
  ta_InputSummary :: string
  ta_OutputSummary :: string
  ta_Payload :: string

record ActivityUpdate =
  au_ID :: string
  au_Kind :: string
  au_Title :: string
  au_Status :: string
  au_Payload :: payload

text \<open>The payload of an output item: questions for the user, or anything else.\<close>

datatype output_payload = UserInputArgs RequestUserInputArgs | OtherOutput string

record OutputItem =
  oi_Kind :: string
  oi_Payload :: output_payload

definition OutputItemRequestUserInput :: string where "OutputItemRequestUserInput = ''request_user_input''"
definition TurnEventActivityUpdate :: string where "TurnEventActivityUpdate = ''activity_update''"

record TurnEvent =
  te_TurnID :: string
  te_Sequence :: nat
  te_Kind :: string
  te_Text :: string
  te_TextSnapshot :: bool
  te_ItemID :: string
  te_Phase :: string
  te_Thought :: string
  te_Tool :: "ToolActivity option"
  te_Activity :: "ActivityUpdate option"
  te_Interaction :: "InteractionRequest option"
  te_Output :: "OutputItem option"
  te_RecoveredText :: "(string \<times> string) list"

datatype TurnStatus = TurnSucceeded | TurnFailed | TurnCanceled

record TurnResult =
  ts_Status :: TurnStatus
  ts_Output :: string
  ts_Files :: "OutputFile list"
  ts_Dispatched :: bool
  ts_Error :: "ErrorCode option"
  ts_Interactions :: "InteractionRequest list"
  ts_RuntimeFiles :: "OutputFile option list"

definition zero_turn_event :: TurnEvent where
  "zero_turn_event = \<lparr>te_TurnID = [], te_Sequence = 0, te_Kind = [], te_Text = [], te_TextSnapshot = False, te_ItemID = [], te_Phase = [],
     te_Thought = [], te_Tool = None, te_Activity = None, te_Interaction = None, te_Output = None, te_RecoveredText = []\<rparr>"

definition zero_result :: "TurnStatus \<Rightarrow> TurnResult" where
  "zero_result status = \<lparr>ts_Status = status, ts_Output = [], ts_Files = [], ts_Dispatched = False, ts_Error = None,
     ts_Interactions = [], ts_RuntimeFiles = []\<rparr>"

end
