(* ===== verification/Interaction.thy ===== *)
theory Interaction
  imports Contract
begin

section \<open>The interaction coordinator (\<open>internal/agentengine/interactionstate/coordinator.go\<close>)\<close>

text \<open>
  A turn of an agent may ask the user for input or for a permission. The coordinator keeps the pending
  requests, lets one caller at a time resolve a request, and invalidates requests when their turn or
  conversation ends.

  Records are shared: a call of \<open>Resolve\<close> keeps a pointer to a record that may be pruned from the map
  meanwhile. They are in a heap, the list \<open>ic_heap\<close>, and the map has their addresses. The context of
  a call of \<open>Resolve\<close> is the number of the call; \<open>ic_cancelled\<close> are those whose cancel function was
  called. Callbacks (the runtime's \<open>resolve\<close>, \<open>notify\<close>, \<open>BeforeResolve\<close>, \<open>ContinueDetached\<close>) are known here by
  whether they are set, and by what they answer when they are called. The clock is read once in a
  critical section. A timer is a flag; its function may run at any later time. Nothing else than the
  loop over the map chooses the order of notifications.
\<close>

subsection \<open>Data\<close>

text \<open>An error with a code, of the validation, of an option, of the caller's context, or of a callback.\<close>

datatype ia_error =
    TurnError ErrorCode | InputError input_error | ErrActionInvalidOption | BadPayload | BadKind
  | ContextEnded | DeadlineTooLong | CallbackError string

type_synonym interactionIdentity = "string \<times> string \<times> string"

record interactionRecord =
  rec_request :: InteractionRequest
  rec_turnID :: string
  rec_resolve :: bool
  rec_notify :: bool
  rec_resolving :: bool
  rec_continuing :: bool
  rec_resolveCancel :: "nat option"
  rec_terminal :: bool
  rec_finishedAt :: time
  rec_timer :: bool

record IaCoordinator =
  ic_items :: "(interactionIdentity, nat) gomap"
  ic_heap :: "interactionRecord list"
  ic_cancelled :: "nat list"
  ic_cleanup :: bool

definition zero_interactions :: IaCoordinator where
  "zero_interactions = \<lparr>ic_items = [], ic_heap = [], ic_cancelled = [], ic_cleanup = False\<rparr>"

definition set_record :: "nat \<Rightarrow> interactionRecord \<Rightarrow> IaCoordinator \<Rightarrow> IaCoordinator" where
  "set_record a r c = c\<lparr>ic_heap := (ic_heap c)[a := r]\<rparr>"

definition item_at :: "interactionIdentity \<Rightarrow> IaCoordinator \<Rightarrow> (nat \<times> interactionRecord) option" where
  "item_at i c = map_option (\<lambda>a. (a, ic_heap c ! a)) (mget (ic_items c) i)"

definition terminalRetention :: int where "terminalRetention = 10 * 60 * 1000000000"

definition Clone :: "InteractionRequest \<Rightarrow> InteractionRequest" where
  "Clone request =
     (case iq_Payload request of
        UserInputPayload snapshot \<Rightarrow> request\<lparr>iq_Payload := UserInputPayload (PublicUserInputSnapshot snapshot)\<rparr>
      | ActivityPayload snapshot \<Rightarrow> request
      | NativePayload _ \<Rightarrow> request)"

definition interactionGone :: "InteractionRequest \<Rightarrow> bool" where
  "interactionGone request =
     (case iq_Payload request of
        UserInputPayload snapshot \<Rightarrow>
          us_Status snapshot \<in> {UserInputStatusCanceled, UserInputStatusInterrupted, UserInputStatusExpired}
      | ActivityPayload snapshot \<Rightarrow> avs_Status snapshot \<in> {ActionStatusCanceled, ActionStatusExpired}
      | NativePayload _ \<Rightarrow> False)"

subsection \<open>Finishing, pruning and invalidating\<close>

definition finishLocked :: "nat \<Rightarrow> time \<Rightarrow> IaCoordinator \<Rightarrow> IaCoordinator" where
  "finishLocked a now c =
     (let r = ic_heap c ! a in
      (set_record a (r\<lparr>rec_terminal := True, rec_finishedAt := now, rec_timer := False, rec_resolve := False\<rparr>) c)\<lparr>ic_cleanup := True\<rparr>)"

definition outdated :: "time \<Rightarrow> interactionRecord \<Rightarrow> bool" where
  "outdated now r \<longleftrightarrow> rec_terminal r \<and> now - rec_finishedAt r \<ge> terminalRetention"

text \<open>The result says whether a terminal record remains.\<close>

definition pruneLocked :: "time \<Rightarrow> IaCoordinator \<Rightarrow> bool \<times> IaCoordinator" where
  "pruneLocked now c =
     (list_ex (\<lambda>(i, a). rec_terminal (ic_heap c ! a) \<and> \<not> outdated now (ic_heap c ! a)) (ic_items c),
      c\<lparr>ic_items := filter (\<lambda>(i, a). \<not> outdated now (ic_heap c ! a)) (ic_items c)\<rparr>)"

definition cleanupTerminal :: "time \<Rightarrow> IaCoordinator \<Rightarrow> IaCoordinator" where
  "cleanupTerminal now c = (case pruneLocked now c of (retained, c) \<Rightarrow> c\<lparr>ic_cleanup := retained\<rparr>)"

definition invalidated :: "bool \<Rightarrow> time \<Rightarrow> payload \<Rightarrow> payload" where
  "invalidated expired now p =
     (case p of
        UserInputPayload snapshot \<Rightarrow>
          UserInputPayload (snapshot\<lparr>us_Status := (if expired then UserInputStatusExpired else UserInputStatusInterrupted),
            us_ResolvedAt := Some now\<rparr>)
      | ActivityPayload snapshot \<Rightarrow>
          ActivityPayload (snapshot\<lparr>avs_Status := (if expired then ActionStatusExpired else ActionStatusCanceled)\<rparr>)
      | NativePayload n \<Rightarrow> NativePayload n)"

definition interruptLocked :: "nat \<Rightarrow> bool \<Rightarrow> time \<Rightarrow> IaCoordinator \<Rightarrow> IaCoordinator" where
  "interruptLocked a expired now c =
     (let r = ic_heap c ! a;
          c = (case rec_resolveCancel r of None \<Rightarrow> c | Some call \<Rightarrow> c\<lparr>ic_cancelled := call # ic_cancelled c\<rparr>);
          request = rec_request r in
      finishLocked a now
        (set_record a (r\<lparr>rec_request := request\<lparr>iq_Payload := invalidated expired now (iq_Payload request)\<rparr>\<rparr>) c))"

text \<open>The notification that follows the invalidation of a record, if it has a callback for it.\<close>

definition notification :: "nat \<Rightarrow> IaCoordinator \<Rightarrow> InteractionRequest list" where
  "notification a c = (let r = ic_heap c ! a in if rec_notify r then [Clone (rec_request r)] else [])"

definition matches :: "string \<Rightarrow> string \<Rightarrow> string \<Rightarrow> bool \<Rightarrow> bool \<Rightarrow> interactionIdentity \<Rightarrow> interactionRecord \<Rightarrow> bool" where
  "matches agentID key turnID detachedOnly completed i r \<longleftrightarrow>
     (case i of (agent, k, _) \<Rightarrow>
        \<not> (agent \<noteq> agentID \<or> (key \<noteq> [] \<and> k \<noteq> key) \<or> (turnID \<noteq> [] \<and> rec_turnID r \<noteq> turnID) \<or> rec_terminal r \<or>
           (detachedOnly \<and> \<not> iq_Detached (rec_request r))) \<and>
        \<not> (completed \<and> rec_resolving r \<and> \<not> iq_Detached (rec_request r)))"

fun interrupt_all ::
  "string \<Rightarrow> string \<Rightarrow> string \<Rightarrow> bool \<Rightarrow> bool \<Rightarrow> time \<Rightarrow> (interactionIdentity \<times> nat) list \<Rightarrow> IaCoordinator \<Rightarrow>
     InteractionRequest list \<times> IaCoordinator" where
  "interrupt_all agentID key turnID detachedOnly completed now [] c = ([], c)"
| "interrupt_all agentID key turnID detachedOnly completed now ((i, a) # items) c =
     (if matches agentID key turnID detachedOnly completed i (ic_heap c ! a) then
        let c = interruptLocked a False now c in
        (case interrupt_all agentID key turnID detachedOnly completed now items c of
           (ns, c') \<Rightarrow> (notification a c @ ns, c'))
      else interrupt_all agentID key turnID detachedOnly completed now items c)"

definition interruptMatchingLocked ::
  "string \<Rightarrow> string \<Rightarrow> string \<Rightarrow> bool \<Rightarrow> bool \<Rightarrow> time \<Rightarrow> IaCoordinator \<Rightarrow> InteractionRequest list \<times> IaCoordinator" where
  "interruptMatchingLocked agentID key turnID detachedOnly completed now c =
     interrupt_all agentID key turnID detachedOnly completed now (ic_items c) c"

definition Interrupt :: "string \<Rightarrow> string \<Rightarrow> string \<Rightarrow> bool \<Rightarrow> time \<Rightarrow> IaCoordinator \<Rightarrow> InteractionRequest list \<times> IaCoordinator" where
  "Interrupt agentID key turnID detachedOnly now = interruptMatchingLocked agentID key turnID detachedOnly False now"

definition CompleteTurn :: "string \<Rightarrow> string \<Rightarrow> string \<Rightarrow> time \<Rightarrow> IaCoordinator \<Rightarrow> InteractionRequest list \<times> IaCoordinator" where
  "CompleteTurn agentID key turnID now = interruptMatchingLocked agentID key turnID False True now"

definition expire :: "interactionIdentity \<Rightarrow> time \<Rightarrow> IaCoordinator \<Rightarrow> InteractionRequest list \<times> IaCoordinator" where
  "expire i now c =
     (case item_at i c of
        None \<Rightarrow> ([], c)
      | Some (a, r) \<Rightarrow>
          if rec_terminal r \<or> rec_continuing r then ([], c)
          else let c = interruptLocked a True now c in (notification a c, c))"

subsection \<open>Registering\<close>

definition deadline_of :: "payload \<Rightarrow> time" where
  "deadline_of p =
     (case p of
        UserInputPayload snapshot \<Rightarrow> (case us_AutoResolveAt snapshot of None \<Rightarrow> 0 | Some t \<Rightarrow> t)
      | ActivityPayload snapshot \<Rightarrow> avs_ExpiresAt snapshot
      | NativePayload _ \<Rightarrow> 0)"

definition Register ::
  "string \<Rightarrow> string \<Rightarrow> string \<Rightarrow> InteractionRequest \<Rightarrow> bool \<Rightarrow> bool \<Rightarrow> time \<Rightarrow> IaCoordinator \<Rightarrow> IaCoordinator" where
  "Register agentID key turnID request resolve notify now c =
     (let c = snd (pruneLocked now c); i = (agentID, key, TrimSpace (iq_ID request)) in
      if mget (ic_items c) i \<noteq> None then c
      else
        let r = \<lparr>rec_request = Clone request, rec_turnID = turnID, rec_resolve = resolve, rec_notify = notify,
              rec_resolving = False, rec_continuing = False, rec_resolveCancel = None, rec_terminal = False, rec_finishedAt = 0,
              rec_timer = iq_Detached request \<and> deadline_of (iq_Payload request) \<noteq> 0\<rparr> in
        c\<lparr>ic_items := mput i (length (ic_heap c)) (ic_items c), ic_heap := ic_heap c @ [r]\<rparr>)"

definition maxLifetimeMS :: nat where "maxLifetimeMS = 24 * 60 * 60 * 1000"

text \<open>\<open>token\<close> is the random part of the identifier, in hexadecimal.\<close>

definition question_of :: "RequestUserInputQuestion \<Rightarrow> UserInputQuestionSnapshot" where
  "question_of q = \<lparr>uq_ID = rq_ID q, uq_Header = rq_Header q, uq_Question = rq_Question q, uq_Options = rq_Options q,
     uq_IsOther = rq_IsOther q, uq_IsSecret = rq_IsSecret q\<rparr>"

definition CreateDetached ::
  "string \<Rightarrow> string \<Rightarrow> string \<Rightarrow> RequestUserInputArgs \<Rightarrow> string \<Rightarrow> bool \<Rightarrow> string \<Rightarrow> time \<Rightarrow>
     (IaCoordinator, ia_error, InteractionRequest) sm" where
  "CreateDetached agentID key turnID args policy notify token now c =
     (case NormalizeUserInputQuestions (map question_of (ra_Questions args)) of
        Inl e \<Rightarrow> (Inl (InputError e), c)
      | Inr questions \<Rightarrow>
          if (case ra_AutoResolutionMS args of None \<Rightarrow> False | Some ms \<Rightarrow> ms > maxLifetimeMS) then (Inl DeadlineTooLong, c)
          else
            let ms = (case ra_AutoResolutionMS args of None \<Rightarrow> 0 | Some ms \<Rightarrow> ms);
                ms = (if policy = InteractionUserInputOnly \<and> ms = 0 then maxLifetimeMS else ms);
                notify = (notify \<and> policy \<noteq> InteractionUserInputOnly);
                snapshot = \<lparr>us_ID = ''question-'' @ token, us_Channel = [], us_RoomID = [], us_ThreadRootID = [],
                  us_RequesterID = [], us_Status = UserInputStatusPending, us_Questions = questions, us_Answers = [],
                  us_RequestedAt = now, us_ResolvedAt = None,
                  us_AutoResolveAt = (if ms = 0 then None else Some (now + int ms * 1000000)), us_ResponderID = []\<rparr>;
                request = \<lparr>iq_ID = us_ID snapshot, iq_Kind = InteractionUserInput, iq_Detached = True,
                  iq_Title = ''User input required'', iq_Payload = UserInputPayload snapshot\<rparr> in
            (Inr (Clone request), Register agentID key turnID request False notify now c))"

subsection \<open>Reading\<close>

definition Pending :: "string \<Rightarrow> string \<Rightarrow> time \<Rightarrow> IaCoordinator \<Rightarrow> InteractionRequest list \<times> IaCoordinator" where
  "Pending agentID key now c =
     (let c = snd (pruneLocked now c);
          items = filter (\<lambda>((agent, k, _), a). agent = agentID \<and> k = key \<and> \<not> rec_terminal (ic_heap c ! a)) (ic_items c);
          shown = (\<lambda>(_, a). let r = ic_heap c ! a; request = Clone (rec_request r) in
            case iq_Payload request of
              UserInputPayload snapshot \<Rightarrow>
                if rec_resolving r then request\<lparr>iq_Payload := UserInputPayload (snapshot\<lparr>us_Status := UserInputStatusSubmitting\<rparr>)\<rparr>
                else request
            | _ \<Rightarrow> request) in
      (sort_key iq_ID (map shown items), c))"

definition IaGet :: "string \<Rightarrow> string \<Rightarrow> string \<Rightarrow> time \<Rightarrow> (IaCoordinator, ia_error, InteractionRequest) sm" where
  "IaGet agentID key i now c =
     (let c = snd (pruneLocked now c) in
      case item_at (agentID, key, TrimSpace i) c of
        None \<Rightarrow> (Inl (TurnError ErrorInteractionNotFound), c)
      | Some (a, r) \<Rightarrow> (Inr (Clone (rec_request r)), c))"

subsection \<open>Resolving\<close>

text \<open>What a resolution makes of a request, or why it is not valid.\<close>

definition answers_of :: "(string, InteractionAnswer) gomap \<Rightarrow> RequestUserInputResponse" where
  "answers_of answers = map (\<lambda>(i, a). (i, if ian_Skipped a then [] else ian_Values a)) answers"

definition resolve_user_input ::
  "InteractionRequest \<Rightarrow> InteractionResolution \<Rightarrow> time \<Rightarrow> UserInputSnapshot \<Rightarrow> ia_error + InteractionRequest" where
  "resolve_user_input request resolution now snapshot =
     (if (case us_AutoResolveAt snapshot of None \<Rightarrow> False | Some t \<Rightarrow> \<not> now < t) then Inl (TurnError ErrorInteractionGone)
      else case BuildUserInputResponse (us_Questions snapshot) (answers_of (irs_Answers resolution)) of
        Inl e \<Rightarrow> Inl (InputError e)
      | Inr (status, _, answers) \<Rightarrow>
          Inr (request\<lparr>iq_Payload := UserInputPayload (PublicUserInputSnapshot (snapshot\<lparr>us_Status := status, us_Answers := answers,
            us_ResolvedAt := Some now, us_ResponderID := irs_ResponderID resolution\<rparr>))\<rparr>))"

definition resolve_permission ::
  "InteractionRequest \<Rightarrow> InteractionResolution \<Rightarrow> time \<Rightarrow> ActivitySnapshot \<Rightarrow> ia_error + InteractionRequest" where
  "resolve_permission request resolution now snapshot =
     (if avs_ExpiresAt snapshot \<noteq> 0 \<and> \<not> now < avs_ExpiresAt snapshot then Inl (TurnError ErrorInteractionGone)
      else case find (\<lambda>opt. aos_ID opt = irs_OptionID resolution) (avs_Options snapshot) of
        None \<Rightarrow> Inl ErrActionInvalidOption
      | Some opt \<Rightarrow>
          Inr (request\<lparr>iq_Payload := ActivityPayload (snapshot\<lparr>
            avs_Status := (if aos_Kind opt \<in> {''allow_once'', ''allow_always''} then ActionStatusAllowed else ActionStatusRejected),
            avs_Decision := Some \<lparr>ads_OptionID = aos_ID opt, ads_Kind = aos_Kind opt, ads_DecidedAt = now\<rparr>\<rparr>)\<rparr>))"

definition resolvedInteraction :: "InteractionRequest \<Rightarrow> InteractionResolution \<Rightarrow> time \<Rightarrow> ia_error + InteractionRequest" where
  "resolvedInteraction request resolution now =
     (if iq_Kind request = InteractionUserInput then
        (case iq_Payload request of
           UserInputPayload snapshot \<Rightarrow> resolve_user_input request resolution now snapshot
         | _ \<Rightarrow> if \<not> iq_Detached request then Inr request else Inl BadPayload)
      else if iq_Kind request = InteractionPermission then
        (case iq_Payload request of
           ActivityPayload snapshot \<Rightarrow> resolve_permission request resolution now snapshot
         | _ \<Rightarrow> Inr request)
      else Inl BadKind)"

text \<open>An error without a code becomes an invalid request.\<close>

definition coded :: "ia_error \<Rightarrow> ia_error" where
  "coded e = (case e of TurnError code \<Rightarrow> e | _ \<Rightarrow> TurnError ErrorInvalidRequest)"

text \<open>What a call of \<open>Resolve\<close> keeps after its first critical section.\<close>

record reservation =
  rv_identity :: interactionIdentity
  rv_item :: nat
  rv_call :: nat
  rv_next :: InteractionRequest
  rv_continuing :: bool
  rv_deadline :: "time option"
  rv_resolve :: bool

definition answered_snapshot :: "InteractionRequest \<Rightarrow> UserInputSnapshot option" where
  "answered_snapshot request = (case iq_Payload request of UserInputPayload s \<Rightarrow> Some s | _ \<Rightarrow> None)"

definition reserve ::
  "bool \<Rightarrow> string \<Rightarrow> InteractionResolution \<Rightarrow> nat \<Rightarrow> time \<Rightarrow> (IaCoordinator, ia_error, reservation) sm" where
  "reserve ctxDone agentID resolution call now c =
     (if ctxDone then (Inl ContextEnded, c)
      else
        let i = (agentID, irs_ConversationKey resolution, TrimSpace (irs_InteractionID resolution)) in
        case item_at i c of
          None \<Rightarrow> (Inl (TurnError ErrorInteractionNotFound), c)
        | Some (a, r) \<Rightarrow>
            if rec_terminal r \<or> rec_resolving r then
              (Inl (TurnError (if interactionGone (rec_request r) then ErrorInteractionGone else ErrorInteractionAlreadyResolved)), c)
            else
              (case resolvedInteraction (Clone (rec_request r)) resolution now of
                 Inl e \<Rightarrow> (Inl (coded e), c)
               | Inr next \<Rightarrow>
                   let continuing = (iq_Detached next \<and> irs_ContinueDetached resolution \<and>
                         (case answered_snapshot next of None \<Rightarrow> False | Some s \<Rightarrow> us_Status s = UserInputStatusAnswered)) in
                   (Inr \<lparr>rv_identity = i, rv_item = a, rv_call = call, rv_next = next, rv_continuing = continuing,
                      rv_deadline = (case answered_snapshot next of None \<Rightarrow> None | Some s \<Rightarrow> us_AutoResolveAt s),
                      rv_resolve = rec_resolve r\<rparr>,
                    set_record a (r\<lparr>rec_resolving := True, rec_continuing := continuing, rec_resolveCancel := Some call\<rparr>) c)))"

text \<open>
  The error with which the call goes on after \<open>BeforeResolve\<close>, which answered \<open>before\<close>: first under the
  lock whether the request was invalidated meanwhile, then whether the context has ended; \<open>parentDone\<close>
  is whether the context of the caller has.
\<close>

definition check_interrupted :: "reservation \<Rightarrow> ia_error option \<Rightarrow> IaCoordinator \<Rightarrow> ia_error option" where
  "check_interrupted rv before c =
     (if rec_terminal (ic_heap c ! rv_item rv) then Some (TurnError ErrorInteractionGone) else before)"

definition check_context :: "bool \<Rightarrow> reservation \<Rightarrow> ia_error option \<Rightarrow> IaCoordinator \<Rightarrow> ia_error option" where
  "check_context parentDone rv err c =
     (case err of
        Some e \<Rightarrow> Some e
      | None \<Rightarrow> if parentDone \<or> rv_call rv \<in> set (ic_cancelled c) then Some ContextEnded else None)"

text \<open>
  The outcome of the dispatch: \<open>accepted\<close> is what \<open>ContinueDetached\<close> answered, \<open>runtime\<close> the error of the
  runtime. The result is the error and whether an answer was delivered.
\<close>

definition dispatch :: "reservation \<Rightarrow> bool \<Rightarrow> ia_error option \<Rightarrow> ia_error option \<Rightarrow> ia_error option \<times> bool" where
  "dispatch rv accepted runtime err =
     (case err of
        Some e \<Rightarrow> (Some e, False)
      | None \<Rightarrow>
          if rv_continuing rv then (if accepted then (None, True) else (Some (TurnError ErrorRuntimeFailed), False))
          else if rv_resolve rv then (runtime, False)
          else (None, False))"

text \<open>The last critical section, with the expiry that may follow it and the notifications of both.\<close>

definition complete_resolve ::
  "bool \<Rightarrow> reservation \<Rightarrow> ia_error option \<Rightarrow> bool \<Rightarrow> time \<Rightarrow> IaCoordinator \<Rightarrow>
     ia_error option \<times> InteractionRequest list \<times> IaCoordinator" where
  "complete_resolve parentDone rv err delivered now c =
     (let a = rv_item rv;
          r = ic_heap c ! a;
          r' = r\<lparr>rec_resolving := False, rec_continuing := False, rec_resolveCancel := None\<rparr>;
          c1 = set_record a r' c in
      if rec_terminal r then (Some (TurnError ErrorInteractionGone), [], c1)
      else
        let err = (if err = None \<and> \<not> delivered \<and> (parentDone \<or> rv_call rv \<in> set (ic_cancelled c)) then Some ContextEnded else err) in
        case err of
          Some e \<Rightarrow>
            if rv_continuing rv \<and> (case rv_deadline rv of None \<Rightarrow> False | Some t \<Rightarrow> \<not> now < t) then
              (case expire (rv_identity rv) now c1 of (ns, c2) \<Rightarrow> (Some e, ns, c2))
            else (Some e, [], c1)
        | None \<Rightarrow>
            let c2 = finishLocked a now (set_record a (r'\<lparr>rec_request := rv_next rv\<rparr>) c1) in
            (None, notification a c2, c2))"

text \<open>
  One call of \<open>Resolve\<close>. \<open>others1\<close> and \<open>others2\<close> are what others do to the coordinator while \<open>BeforeResolve\<close>
  and the dispatch run.
\<close>

definition IaResolve ::
  "bool \<Rightarrow> string \<Rightarrow> InteractionResolution \<Rightarrow> nat \<Rightarrow> time \<Rightarrow> ia_error option \<Rightarrow> (IaCoordinator \<Rightarrow> IaCoordinator) \<Rightarrow> bool \<Rightarrow>
     bool \<Rightarrow> ia_error option \<Rightarrow> (IaCoordinator \<Rightarrow> IaCoordinator) \<Rightarrow> bool \<Rightarrow> time \<Rightarrow> IaCoordinator \<Rightarrow>
     ia_error option \<times> InteractionRequest list \<times> IaCoordinator" where
  "IaResolve ctxDone agentID resolution call now before others1 parentDone1 accepted runtime others2 parentDone2 now2 c =
     (case reserve ctxDone agentID resolution call now c of
        (Inl e, c) \<Rightarrow> (Some e, [], c)
      | (Inr rv, c) \<Rightarrow>
          let c = others1 c;
              err = check_interrupted rv (if irs_BeforeResolve resolution then before else None) c;
              err = check_context parentDone1 rv err c;
              (err, delivered) = dispatch rv accepted runtime err in
          complete_resolve parentDone2 rv err delivered now2 (others2 c))"

subsection \<open>Turns\<close>

text \<open>An event of the runtime with the identifier and the payload of its activity.\<close>

definition Observe :: "string \<Rightarrow> string \<Rightarrow> (string \<times> payload) option \<Rightarrow> time \<Rightarrow> IaCoordinator \<Rightarrow> IaCoordinator" where
  "Observe agentID key event now c =
     (case event of
        None \<Rightarrow> c
      | Some (i, p) \<Rightarrow>
          (case item_at (agentID, key, i) c of
             None \<Rightarrow> c
           | Some (a, r) \<Rightarrow>
               if rec_terminal r then c
               else
                 let c = set_record a (r\<lparr>rec_request := (rec_request r)\<lparr>iq_Payload := p\<rparr>\<rparr>) c in
                 if rec_resolving r then c else finishLocked a now c))"

text \<open>The first record of the conversation that stands in the way of a turn, in the order of the map.\<close>

definition obstacle :: "string \<Rightarrow> string \<Rightarrow> bool \<Rightarrow> IaCoordinator \<Rightarrow> ErrorCode option" where
  "obstacle agentID key preserve c =
     (case find (\<lambda>((agent, k, _), a). agent = agentID \<and> k = key \<and> \<not> rec_terminal (ic_heap c ! a) \<and>
         (preserve \<or> rec_continuing (ic_heap c ! a))) (ic_items c) of
        None \<Rightarrow> None
      | Some _ \<Rightarrow> Some (if preserve then ErrorInteractionPending else ErrorConversationBusy))"

definition BeginTurn :: "string \<Rightarrow> TurnRequest \<Rightarrow> time \<Rightarrow> IaCoordinator \<Rightarrow> ErrorCode option \<times> InteractionRequest list \<times> IaCoordinator" where
  "BeginTurn agentID turn now c =
     (let key = tr_ConversationKey turn in
      if tr_RespondingTo turn \<noteq> [] then
        (case item_at (agentID, key, tr_RespondingTo turn) c of
           None \<Rightarrow> (Some ErrorInteractionGone, [], c)
         | Some (a, r) \<Rightarrow>
             if rec_continuing r \<and> \<not> rec_terminal r then (None, [], c) else (Some ErrorInteractionGone, [], c))
      else case obstacle agentID key (tr_PreservePendingInteractions turn) c of
        Some e \<Rightarrow> (Some e, [], c)
      | None \<Rightarrow> (case interruptMatchingLocked agentID key [] True False now c of (ns, c) \<Rightarrow> (None, ns, c)))"

end
