(* ===== verification/InteractionProps.thy ===== *)
theory InteractionProps
  imports Interaction
begin

section \<open>What the interaction coordinator guarantees\<close>

text \<open>
  Calls of \<open>Resolve\<close> in their sections, interleaved with every other operation of the coordinator. A
  request is resolved at most once and then stays as it is, an answer is dispatched only while its
  request is pending, and secret notes do not get into the coordinator.
\<close>

subsection \<open>The operations other than resolving\<close>

datatype ia_op =
    OpRegister string string string InteractionRequest bool bool time
  | OpDetached string string string RequestUserInputArgs string bool string time
  | OpPending string string time
  | OpGet string string string time
  | OpObserve string string "(string \<times> payload) option" time
  | OpBeginTurn string TurnRequest time
  | OpInterrupt string string string bool time
  | OpCompleteTurn string string string time
  | OpExpire interactionIdentity time
  | OpCleanup time

fun exec_ia :: "ia_op \<Rightarrow> IaCoordinator \<Rightarrow> IaCoordinator" where
  "exec_ia (OpRegister agent key turn request resolve notify now) c = Register agent key turn request resolve notify now c"
| "exec_ia (OpDetached agent key turn args policy notify token now) c = snd (CreateDetached agent key turn args policy notify token now c)"
| "exec_ia (OpPending agent key now) c = snd (Pending agent key now c)"
| "exec_ia (OpGet agent key i now) c = snd (IaGet agent key i now c)"
| "exec_ia (OpObserve agent key event now) c = Observe agent key event now c"
| "exec_ia (OpBeginTurn agent turn now) c = snd (snd (BeginTurn agent turn now c))"
| "exec_ia (OpInterrupt agent key turn detached now) c = snd (Interrupt agent key turn detached now c)"
| "exec_ia (OpCompleteTurn agent key turn now) c = snd (CompleteTurn agent key turn now c)"
| "exec_ia (OpExpire i now) c = snd (expire i now c)"
| "exec_ia (OpCleanup now) c = cleanupTerminal now c"

text \<open>
  The map and the heap fit: addresses are in the heap and no two identities share one; a record that
  is not being resolved has no cancel function and no continuation.
\<close>

definition idle :: "interactionRecord \<Rightarrow> bool" where
  "idle r \<longleftrightarrow> \<not> rec_resolving r \<and> \<not> rec_continuing r \<and> rec_resolveCancel r = None"

definition coherent :: "IaCoordinator \<Rightarrow> bool" where
  "coherent c \<longleftrightarrow> distinct (map fst (ic_items c)) \<and> distinct (map snd (ic_items c)) \<and>
     (\<forall>a \<in> set (map snd (ic_items c)). a < length (ic_heap c)) \<and>
     (\<forall>r \<in> set (ic_heap c). \<not> rec_resolving r \<longrightarrow> idle r)"

text \<open>
  What such an operation does to the records: it neither begins nor ends a resolution, leaves
  terminal records alone, and cancels the resolution of a record that it makes terminal.
\<close>

definition kept_record :: "nat list \<Rightarrow> interactionRecord \<Rightarrow> interactionRecord \<Rightarrow> bool" where
  "kept_record cancelled r r' \<longleftrightarrow> rec_resolving r' = rec_resolving r \<and> rec_continuing r' = rec_continuing r \<and>
     rec_resolveCancel r' = rec_resolveCancel r \<and> (rec_terminal r \<longrightarrow> r' = r) \<and>
     (rec_terminal r' \<and> \<not> rec_terminal r \<longrightarrow> (\<forall>call. rec_resolveCancel r = Some call \<longrightarrow> call \<in> set cancelled))"

definition undisturbed :: "IaCoordinator \<Rightarrow> IaCoordinator \<Rightarrow> bool" where
  "undisturbed c c' \<longleftrightarrow> length (ic_heap c) \<le> length (ic_heap c') \<and> set (ic_cancelled c) \<subseteq> set (ic_cancelled c') \<and>
     (\<forall>a < length (ic_heap c). kept_record (ic_cancelled c') (ic_heap c ! a) (ic_heap c' ! a)) \<and>
     (\<forall>a < length (ic_heap c'). length (ic_heap c) \<le> a \<longrightarrow> idle (ic_heap c' ! a))"

lemma kept_record_refl [simp]: "kept_record cs r r"
  by (simp add: kept_record_def)

lemma kept_record_mono: "kept_record cs r r' \<Longrightarrow> set cs \<subseteq> set ds \<Longrightarrow> kept_record ds r r'"
  by (auto simp: kept_record_def)

lemma kept_record_trans: "kept_record cs r r' \<Longrightarrow> kept_record cs r' r'' \<Longrightarrow> kept_record cs r r''"
  by (auto simp: kept_record_def)

lemma kept_record_idle: "kept_record cs r r' \<Longrightarrow> idle r' = idle r"
  by (auto simp: kept_record_def idle_def)

lemma undisturbed_refl [simp]: "undisturbed c c"
  by (auto simp: undisturbed_def)

lemma undisturbed_trans:
  assumes "undisturbed c d" and "undisturbed d e"
  shows "undisturbed c e"
proof -
  have "kept_record (ic_cancelled e) (ic_heap c ! a) (ic_heap e ! a)" if "a < length (ic_heap c)" for a
  proof -
    have "a < length (ic_heap d)" using that assms(1) by (simp add: undisturbed_def)
    with that assms show ?thesis unfolding undisturbed_def
      by (metis kept_record_mono kept_record_trans)
  qed
  moreover have "idle (ic_heap e ! a)" if "a < length (ic_heap e)" "length (ic_heap c) \<le> a" for a
  proof (cases "a < length (ic_heap d)")
    case True
    with that assms have "idle (ic_heap d ! a)" "kept_record (ic_cancelled e) (ic_heap d ! a) (ic_heap e ! a)"
      by (simp_all add: undisturbed_def)
    then show ?thesis by (simp add: kept_record_idle)
  next
    case False
    with that assms show ?thesis by (simp add: undisturbed_def)
  qed
  ultimately show ?thesis using assms by (auto simp: undisturbed_def)
qed

text \<open>An operation that changes one record.\<close>

lemma undisturbed_one:
  assumes "ic_heap c' = (ic_heap c)[a := r']" and "set (ic_cancelled c) \<subseteq> set (ic_cancelled c')"
    and "kept_record (ic_cancelled c') (ic_heap c ! a) r'"
  shows "undisturbed c c'"
  using assms by (auto simp: undisturbed_def) (metis kept_record_refl nth_list_update_eq nth_list_update_neq)

lemma undisturbed_items [simp]: "undisturbed c (c\<lparr>ic_items := m\<rparr>)" "undisturbed c (c\<lparr>ic_cleanup := b\<rparr>)" "undisturbed c (c\<lparr>ic_items := m, ic_cleanup := b\<rparr>)"
  by (auto simp: undisturbed_def)

definition keeps_map :: "IaCoordinator \<Rightarrow> IaCoordinator \<Rightarrow> bool" where
  "keeps_map c c' \<longleftrightarrow> ic_items c' = ic_items c \<and> length (ic_heap c') = length (ic_heap c)"

lemma keeps_map_refl [simp]: "keeps_map c c"
  by (simp add: keeps_map_def)

lemma keeps_map_trans: "keeps_map c d \<Longrightarrow> keeps_map d e \<Longrightarrow> keeps_map c e"
  by (simp add: keeps_map_def)

lemma undisturbed_coherent:
  assumes "undisturbed c c'" and "keeps_map c c'" and "coherent c"
  shows "coherent c'"
proof -
  have "idle (ic_heap c' ! a)" if "a < length (ic_heap c')" "\<not> rec_resolving (ic_heap c' ! a)" for a
  proof -
    have a: "a < length (ic_heap c)" using that assms(2) by (simp add: keeps_map_def)
    then have "kept_record (ic_cancelled c') (ic_heap c ! a) (ic_heap c' ! a)" using assms(1) by (simp add: undisturbed_def)
    moreover from this that(2) a assms(3) have "idle (ic_heap c ! a)" by (simp add: coherent_def kept_record_def)
    ultimately show ?thesis by (simp add: kept_record_idle)
  qed
  with assms(2,3) show ?thesis by (auto simp: coherent_def keeps_map_def in_set_conv_nth)
qed

lemma interruptLocked_shape:
  "ic_items (interruptLocked a e now c) = ic_items c"
  "ic_heap (interruptLocked a e now c) = (ic_heap c)[a := (ic_heap c ! a)\<lparr>rec_request := (rec_request (ic_heap c ! a))
     \<lparr>iq_Payload := invalidated e now (iq_Payload (rec_request (ic_heap c ! a)))\<rparr>, rec_terminal := True, rec_finishedAt := now,
     rec_timer := False, rec_resolve := False\<rparr>] \<or> \<not> a < length (ic_heap c)"
  "set (ic_cancelled (interruptLocked a e now c)) = set (ic_cancelled c) \<union> set_option (rec_resolveCancel (ic_heap c ! a))"
  by (auto simp: interruptLocked_def finishLocked_def set_record_def Let_def split: option.splits)

lemma interruptLocked_quiet:
  assumes "a < length (ic_heap c)" and "\<not> rec_terminal (ic_heap c ! a)"
  shows "undisturbed c (interruptLocked a e now c)" and "keeps_map c (interruptLocked a e now c)"
proof -
  note shape = interruptLocked_shape [of a e now c]
  show "keeps_map c (interruptLocked a e now c)" using shape(1,2) assms(1) by (simp add: keeps_map_def)
  from shape(2) assms(1) have heap: "ic_heap (interruptLocked a e now c) = (ic_heap c)[a := (ic_heap c ! a)\<lparr>rec_request := (rec_request (ic_heap c ! a))
     \<lparr>iq_Payload := invalidated e now (iq_Payload (rec_request (ic_heap c ! a)))\<rparr>, rec_terminal := True, rec_finishedAt := now,
     rec_timer := False, rec_resolve := False\<rparr>]" by simp
  show "undisturbed c (interruptLocked a e now c)"
    by (rule undisturbed_one [OF heap]) (use shape(3) assms in \<open>auto simp: kept_record_def\<close>)
qed

lemma interrupt_all_quiet:
  assumes "\<forall>(i, a) \<in> set items. a < length (ic_heap c)"
  shows "undisturbed c (snd (interrupt_all agent key turn detached completed now items c)) \<and>
    keeps_map c (snd (interrupt_all agent key turn detached completed now items c))"
  using assms
proof (induction items arbitrary: c)
  case (Cons x items)
  obtain i a where x: "x = (i, a)" by (cases x)
  show ?case
  proof (cases "matches agent key turn detached completed i (ic_heap c ! a)")
    case True
    let ?d = "interruptLocked a False now c"
    have "\<not> rec_terminal (ic_heap c ! a)" using True by (auto simp: matches_def split: prod.splits)
    moreover have "a < length (ic_heap c)" using Cons.prems x by simp
    ultimately have d: "undisturbed c ?d" "keeps_map c ?d" by (simp_all add: interruptLocked_quiet)
    then have "\<forall>(i, a) \<in> set items. a < length (ic_heap ?d)" using Cons.prems by (auto simp: keeps_map_def)
    from Cons.IH [OF this] d True show ?thesis
      by (auto simp: x Let_def split: prod.splits intro: undisturbed_trans keeps_map_trans)
  next
    case False
    with Cons x show ?thesis by simp
  qed
qed simp

lemma coherent_items:
  assumes "coherent c"
  shows "\<forall>(i, a) \<in> set (ic_items c). a < length (ic_heap c)"
  using assms by (auto simp: coherent_def)

lemma item_at_bound:
  assumes "coherent c" and "item_at i c = Some (a, r)"
  shows "a < length (ic_heap c)" and "r = ic_heap c ! a" and "mget (ic_items c) i = Some a"
  using assms coherent_items [OF assms(1)] by (auto simp: item_at_def dest!: mget_mem)

lemma interruptMatching_quiet:
  assumes "coherent c"
  shows "undisturbed c (snd (interruptMatchingLocked agent key turn detached completed now c))"
    and "keeps_map c (snd (interruptMatchingLocked agent key turn detached completed now c))"
  using interrupt_all_quiet [OF coherent_items [OF assms]] by (simp_all add: interruptMatchingLocked_def)

lemma expire_quiet:
  assumes "coherent c"
  shows "undisturbed c (snd (expire i now c))" and "keeps_map c (snd (expire i now c))"
  using item_at_bound [OF assms, of i]
  by (auto simp: expire_def Let_def interruptLocked_quiet split: option.splits)

lemma Observe_quiet:
  assumes "coherent c"
  shows "undisturbed c (Observe agent key event now c)" and "keeps_map c (Observe agent key event now c)"
proof -
  have idle: "idle (ic_heap c ! a)" if "a < length (ic_heap c)" "\<not> rec_resolving (ic_heap c ! a)" for a
    using assms that by (simp add: coherent_def)
  show "keeps_map c (Observe agent key event now c)"
    by (auto simp: Observe_def keeps_map_def set_record_def finishLocked_def Let_def split: option.splits)
  show "undisturbed c (Observe agent key event now c)"
  proof (cases "\<exists>i p a r. event = Some (i, p) \<and> item_at (agent, key, i) c = Some (a, r) \<and> \<not> rec_terminal r")
    case False
    then show ?thesis by (auto simp: Observe_def split: option.splits)
  next
    case True
    then obtain i p a r where e: "event = Some (i, p)" "item_at (agent, key, i) c = Some (a, r)" "\<not> rec_terminal r" by blast
    note b = item_at_bound [OF assms e(2)]
    show ?thesis
      using e b idle [OF b(1)]
      by (intro undisturbed_one [of _ _ a "ic_heap (Observe agent key event now c) ! a"])
         (auto simp: Observe_def set_record_def finishLocked_def Let_def kept_record_def idle_def)
  qed
qed

lemma prune_coherent:
  assumes "coherent c"
  shows "coherent (snd (pruneLocked now c))" and "undisturbed c (snd (pruneLocked now c))"
  using assms by (auto simp: pruneLocked_def coherent_def distinct_map_filter)

lemma mput_new: "mget m k = None \<Longrightarrow> mput k v m = m @ [(k, v)]"
  by (induction m) (auto split: if_splits)

lemma Register_ok:
  assumes "coherent c"
  shows "coherent (Register agent key turn request resolve notify now c)"
    and "undisturbed c (Register agent key turn request resolve notify now c)"
proof -
  let ?c = "snd (pruneLocked now c)" and ?i = "(agent, key, TrimSpace (iq_ID request))"
  note p = prune_coherent [OF assms, of now]
  have "coherent (Register agent key turn request resolve notify now c) \<and> undisturbed ?c (Register agent key turn request resolve notify now c)"
  proof (cases "mget (ic_items ?c) ?i = None")
    case True
    have "undisturbed ?c (Register agent key turn request resolve notify now c)"
      using True by (auto simp: Register_def Let_def undisturbed_def idle_def nth_append)
    moreover have "coherent (Register agent key turn request resolve notify now c)"
      using True p(1) by (auto simp: Register_def Let_def coherent_def idle_def mput_new)
    ultimately show ?thesis by simp
  next
    case False
    with p show ?thesis by (auto simp: Register_def Let_def)
  qed
  with p(2) show "coherent (Register agent key turn request resolve notify now c)"
    "undisturbed c (Register agent key turn request resolve notify now c)" by (auto intro: undisturbed_trans)
qed

lemma keeps_map_coherent: "undisturbed c c' \<Longrightarrow> keeps_map c c' \<Longrightarrow> coherent c \<Longrightarrow> coherent c' \<and> undisturbed c c'"
  by (simp add: undisturbed_coherent)

lemma exec_ia_quiet:
  assumes "coherent c"
  shows "coherent (exec_ia op c) \<and> undisturbed c (exec_ia op c)"
proof (cases op)
  case (OpBeginTurn agent turn now)
  with assms interruptMatching_quiet [OF assms] show ?thesis
    by (auto simp: BeginTurn_def Let_def split: option.splits prod.splits if_splits intro: undisturbed_coherent) (metis undisturbed_coherent snd_conv)+
next
  case (OpCleanup now)
  have "cleanupTerminal now c = (snd (pruneLocked now c))\<lparr>ic_cleanup := fst (pruneLocked now c)\<rparr>"
    by (simp add: cleanupTerminal_def split: prod.splits)
  moreover have "coherent (d\<lparr>ic_cleanup := b\<rparr>) = coherent d" for d b by (simp add: coherent_def)
  ultimately show ?thesis using prune_coherent [OF assms, of now] OpCleanup undisturbed_trans undisturbed_items(2) by auto
next
  case (OpDetached agent key turn args policy notify token now)
  with assms Register_ok [OF assms] show ?thesis
    by (auto simp: CreateDetached_def Let_def split: sum.splits)
qed (use assms prune_coherent [OF assms] Register_ok [OF assms] keeps_map_coherent [OF Observe_quiet [OF assms] assms]
      keeps_map_coherent [OF expire_quiet [OF assms] assms] keeps_map_coherent [OF interruptMatching_quiet [OF assms] assms]
    in \<open>auto simp: Pending_def IaGet_def Let_def Interrupt_def CompleteTurn_def
        split: option.splits prod.splits\<close>)

subsection \<open>Concurrent resolutions\<close>

text \<open>
  A call of \<open>Resolve\<close> has reserved a request, has checked under the lock that it was not invalidated, is
  dispatching the answer, or is about to enter its last section. The log has the dispatches, by
  record, and the successful resolutions with the request that they leave.
\<close>

datatype ia_call =
    Reserved reservation | Checked reservation "ia_error option" | Running reservation
  | Finishing reservation "ia_error option" bool

fun call_rv :: "ia_call \<Rightarrow> reservation" where
  "call_rv (Reserved rv) = rv"
| "call_rv (Checked rv err) = rv"
| "call_rv (Running rv) = rv"
| "call_rv (Finishing rv err delivered) = rv"

datatype ia_event = Dispatched nat | ResolvedAs nat InteractionRequest

type_synonym ia_sys = "IaCoordinator \<times> ia_call list \<times> nat \<times> ia_event list"

datatype ia_act = Other ia_op | Reserve | Check | Skip | Dispatch | Answer | Finish

inductive ia_step :: "ia_sys \<Rightarrow> ia_act \<Rightarrow> ia_sys \<Rightarrow> bool" where
  ia_other: "ia_step (c, calls, n, log) (Other op) (exec_ia op c, calls, n, log)"
| ia_reserve: "reserve ctxDone agentID resolution n now c = (Inr rv, c') \<Longrightarrow>
    ia_step (c, calls, n, log) Reserve (c', Reserved rv # calls, Suc n, log)"
| ia_refuse: "reserve ctxDone agentID resolution n now c = (Inl e, c') \<Longrightarrow>
    ia_step (c, calls, n, log) Reserve (c', calls, n, log)"
| ia_check: "ia_step (c, xs @ Reserved rv # ys, n, log) Check (c, xs @ Checked rv (check_interrupted rv before c) # ys, n, log)"
| ia_skip: "check_context parentDone rv err c = Some e \<Longrightarrow>
    ia_step (c, xs @ Checked rv err # ys, n, log) Skip (c, xs @ Finishing rv (Some e) False # ys, n, log)"
| ia_dispatch: "check_context parentDone rv err c = None \<Longrightarrow>
    ia_step (c, xs @ Checked rv err # ys, n, log) Dispatch (c, xs @ Running rv # ys, n, log @ [Dispatched (rv_item rv)])"
| ia_answer: "dispatch rv accepted runtime None = (err, delivered) \<Longrightarrow>
    ia_step (c, xs @ Running rv # ys, n, log) Answer (c, xs @ Finishing rv err delivered # ys, n, log)"
| ia_finish: "complete_resolve parentDone rv err delivered now c = (res, ns, c') \<Longrightarrow>
    ia_step (c, xs @ Finishing rv err delivered # ys, n, log) Finish
      (c', xs @ ys, n, if res = None then log @ [ResolvedAs (rv_item rv) (rv_next rv)] else log)"

definition ia_init :: "ia_sys \<Rightarrow> bool" where
  "ia_init x \<longleftrightarrow> x = (zero_interactions, [], 0, [])"

definition active :: "IaCoordinator \<Rightarrow> reservation \<Rightarrow> bool" where
  "active c rv \<longleftrightarrow> rv_item rv < length (ic_heap c) \<and>
     (let r = ic_heap c ! rv_item rv in rec_resolving r \<and> rec_resolveCancel r = Some (rv_call rv) \<and>
        (rec_terminal r \<longrightarrow> rv_call rv \<in> set (ic_cancelled c)))"

definition settled :: "IaCoordinator \<Rightarrow> nat \<Rightarrow> InteractionRequest \<Rightarrow> bool" where
  "settled c a request \<longleftrightarrow> a < length (ic_heap c) \<and> rec_terminal (ic_heap c ! a) \<and> rec_request (ic_heap c ! a) = request"

abbreviation call_items :: "ia_call list \<Rightarrow> nat list" where
  "call_items calls \<equiv> map (\<lambda>x. rv_item (call_rv x)) calls"

fun resolved_items :: "ia_event list \<Rightarrow> nat list" where
  "resolved_items [] = []"
| "resolved_items (Dispatched a # es) = resolved_items es"
| "resolved_items (ResolvedAs a request # es) = a # resolved_items es"

lemma resolved_items_append [simp]: "resolved_items (es @ fs) = resolved_items es @ resolved_items fs"
  by (induction es rule: resolved_items.induct) auto

lemma resolved_items_mem: "a \<in> set (resolved_items es) \<longleftrightarrow> (\<exists>request. ResolvedAs a request \<in> set es)"
  by (induction es rule: resolved_items.induct) auto

fun ia_inv :: "ia_sys \<Rightarrow> bool" where
  "ia_inv (c, calls, n, log) \<longleftrightarrow> coherent c \<and> distinct (call_items calls) \<and>
     (\<forall>x \<in> set calls. active c (call_rv x)) \<and>
     (\<forall>a < length (ic_heap c). rec_resolving (ic_heap c ! a) \<longrightarrow> a \<in> set (call_items calls)) \<and>
     distinct (resolved_items log) \<and> (\<forall>a request. ResolvedAs a request \<in> set log \<longrightarrow> settled c a request)"

lemma active_quiet:
  assumes "undisturbed c c'" and "active c rv"
  shows "active c' rv"
proof -
  have a: "rv_item rv < length (ic_heap c)" using assms(2) by (simp add: active_def)
  then have k: "kept_record (ic_cancelled c') (ic_heap c ! rv_item rv) (ic_heap c' ! rv_item rv)" using assms(1) by (simp add: undisturbed_def)
  have "set (ic_cancelled c) \<subseteq> set (ic_cancelled c')" "length (ic_heap c) \<le> length (ic_heap c')" using assms(1) by (simp_all add: undisturbed_def)
  with a k assms(2) show ?thesis by (auto simp: active_def kept_record_def Let_def)
qed

lemma settled_quiet: "undisturbed c c' \<Longrightarrow> settled c a request \<Longrightarrow> settled c' a request"
  by (auto simp: undisturbed_def settled_def kept_record_def)

lemma resolving_quiet:
  assumes "undisturbed c c'" and "a < length (ic_heap c')" and "rec_resolving (ic_heap c' ! a)"
  shows "a < length (ic_heap c) \<and> rec_resolving (ic_heap c ! a)"
proof (cases "a < length (ic_heap c)")
  case True
  then have "kept_record (ic_cancelled c') (ic_heap c ! a) (ic_heap c' ! a)" using assms(1) by (simp add: undisturbed_def)
  with True assms(3) show ?thesis by (simp add: kept_record_def)
next
  case False
  with assms have "idle (ic_heap c' ! a)" by (simp add: undisturbed_def)
  with assms(3) show ?thesis by (simp add: idle_def)
qed

lemma inv_quiet:
  assumes "ia_inv (c, calls, n, log)" and "coherent c'" and "undisturbed c c'"
  shows "ia_inv (c', calls, m, log)"
  using assms active_quiet [OF assms(3)] settled_quiet [OF assms(3)] resolving_quiet [OF assms(3)]
  by (auto simp del: map_map)

lemma reserve_cases:
  assumes "reserve ctxDone agentID resolution call now c = (res, c')"
  obtains (refused) e where "res = Inl e" and "c' = c"
    | (reserved) rv r where "res = Inr rv" and "item_at (rv_identity rv) c = Some (rv_item rv, r)" and "rv_call rv = call"
      and "\<not> rec_terminal r" and "\<not> rec_resolving r"
      and "c' = set_record (rv_item rv) (r\<lparr>rec_resolving := True, rec_continuing := rv_continuing rv, rec_resolveCancel := Some call\<rparr>) c"
  using assms by (fastforce simp: reserve_def Let_def split: if_splits option.splits sum.splits)

lemma inv_reserve:
  assumes inv: "ia_inv (c, calls, n, log)" and "reserve ctxDone agentID resolution call now c = (Inr rv, c')"
  shows "ia_inv (c', Reserved rv # calls, m, log)"
  using assms(2)
proof (cases rule: reserve_cases)
  case (reserved rv' r)
  from inv have coh: "coherent c" by simp
  note b = item_at_bound [OF coh reserved(2)]
  let ?a = "rv_item rv"
  have rv: "rv' = rv" using reserved(1) by simp
  note r = reserved(3-6) [unfolded rv] b [unfolded rv]
  have heap: "ic_heap c' = (ic_heap c)[?a := r\<lparr>rec_resolving := True, rec_continuing := rv_continuing rv, rec_resolveCancel := Some call\<rparr>]"
    "ic_items c' = ic_items c" "ic_cancelled c' = ic_cancelled c" using r(4) by (simp_all add: set_record_def)
  have free: "?a \<notin> set (call_items calls)"
    using inv r(2,3,5,6) by (auto simp: active_def Let_def)
  have "coherent c'"
    using coh r(5,6) by (auto simp: coherent_def heap dest!: set_update_subset_insert [THEN subsetD])
  moreover have "active c' rv" using r(1,2,5,6) by (simp add: active_def heap Let_def)
  moreover have "active c' (call_rv x)" if "x \<in> set calls" for x
  proof -
    have "rv_item (call_rv x) \<noteq> ?a" using that free by (auto simp: image_iff)
    moreover have "active c (call_rv x)" using inv that by simp
    ultimately show ?thesis by (simp add: active_def heap Let_def)
  qed
  moreover have "a = ?a \<or> a \<in> set (call_items calls)" if "a < length (ic_heap c')" "rec_resolving (ic_heap c' ! a)" for a
    using that inv by (cases "a = ?a") (auto simp: heap simp del: map_map)
  moreover have "settled c' a request" if "ResolvedAs a request \<in> set log" for a request
  proof -
    have s: "settled c a request" using inv that by simp
    then have "a \<noteq> ?a" using r(2,6) by (auto simp: settled_def)
    with s show ?thesis by (simp add: settled_def heap)
  qed
  ultimately show ?thesis using inv free by auto
qed simp

definition released :: "nat \<Rightarrow> IaCoordinator \<Rightarrow> IaCoordinator" where
  "released a c = set_record a ((ic_heap c ! a)\<lparr>rec_resolving := False, rec_continuing := False, rec_resolveCancel := None\<rparr>) c"

definition resolved_record :: "reservation \<Rightarrow> time \<Rightarrow> interactionRecord \<Rightarrow> interactionRecord" where
  "resolved_record rv now r = r\<lparr>rec_resolving := False, rec_continuing := False, rec_resolveCancel := None, rec_request := rv_next rv,
     rec_terminal := True, rec_finishedAt := now, rec_timer := False, rec_resolve := False\<rparr>"

lemma resolved_record_sel [simp]:
  "idle (resolved_record rv now r)" "rec_terminal (resolved_record rv now r)" "rec_request (resolved_record rv now r) = rv_next rv"
  by (cases r; simp add: resolved_record_def idle_def)+

lemma complete_cases:
  assumes "complete_resolve parentDone rv err delivered now c = (res, ns, c')" and "rv_item rv < length (ic_heap c)"
  obtains (failed) e where "res = Some e" and "c' = released (rv_item rv) c \<or> c' = snd (expire (rv_identity rv) now (released (rv_item rv) c))"
    | (resolved) "res = None" and "\<not> rec_terminal (ic_heap c ! rv_item rv)"
      and "ic_heap c' = (ic_heap c)[rv_item rv := resolved_record rv now (ic_heap c ! rv_item rv)]"
      and "ic_items c' = ic_items c" and "ic_cancelled c' = ic_cancelled c"
proof -
  let ?err = "if err = None \<and> \<not> delivered \<and> (parentDone \<or> rv_call rv \<in> set (ic_cancelled c)) then Some ContextEnded else err"
  consider (terminal) "rec_terminal (ic_heap c ! rv_item rv)"
    | (error) e where "\<not> rec_terminal (ic_heap c ! rv_item rv)" "?err = Some e"
    | (ok) "\<not> rec_terminal (ic_heap c ! rv_item rv)" "?err = None" by (cases ?err) auto
  then show thesis
  proof cases
    case terminal
    with assms(1) show thesis
      by (intro failed [of "TurnError ErrorInteractionGone"]) (auto simp: complete_resolve_def released_def Let_def)
  next
    case error
    with assms(1) show thesis
      by (intro failed [of e]) (auto simp: complete_resolve_def released_def Let_def split: if_splits prod.splits option.splits)
  next
    case ok
    have "err = None" using ok(2) by (auto split: if_splits)
    with ok assms show thesis
      by (intro resolved) (auto simp: complete_resolve_def Let_def set_record_def finishLocked_def resolved_record_def split: if_splits)
  qed
qed

lemma coherent_set_record:
  assumes "coherent c" and "ic_items c' = ic_items c" and "ic_heap c' = (ic_heap c)[a := r]" and "idle r"
  shows "coherent c'"
  using assms by (auto simp: coherent_def dest!: set_update_subset_insert [THEN subsetD])

lemma inv_remove:
  assumes inv: "ia_inv (c, xs @ x # ys, n, log)" and items: "ic_items c' = ic_items c" and can: "ic_cancelled c' = ic_cancelled c"
    and heap: "ic_heap c' = (ic_heap c)[rv_item (call_rv x) := r]" and r: "idle r"
    and same: "rec_terminal (ic_heap c ! rv_item (call_rv x)) \<Longrightarrow> rec_terminal r \<and> rec_request r = rec_request (ic_heap c ! rv_item (call_rv x))"
  shows "ia_inv (c', xs @ ys, n, log)"
proof -
  let ?a = "rv_item (call_rv x)"
  have coh: "coherent c'" by (rule coherent_set_record [OF _ items heap r]) (use inv in simp)
  have act: "active c' (call_rv y)" if "y \<in> set (xs @ ys)" for y
  proof -
    have "rv_item (call_rv y) \<noteq> ?a" using inv that by (auto simp: image_iff)
    moreover have "active c (call_rv y)" using inv that by auto
    ultimately show ?thesis by (simp add: active_def heap can Let_def)
  qed
  have res: "a \<in> set (call_items (xs @ ys))" if a: "a < length (ic_heap c')" "rec_resolving (ic_heap c' ! a)" for a
  proof -
    have "a \<noteq> ?a" using a r by (auto simp: heap idle_def)
    with a inv show ?thesis by (auto simp: heap simp del: map_map)
  qed
  have set: "settled c' a request" if "ResolvedAs a request \<in> set log" for a request
  proof -
    have "settled c a request" using inv that by simp
    with same show ?thesis by (cases "a = ?a") (auto simp: settled_def heap)
  qed
  from coh act res set inv show ?thesis by auto
qed

lemma inv_finish:
  assumes inv: "ia_inv (c, xs @ Finishing rv err delivered # ys, n, log)"
    and run: "complete_resolve parentDone rv err delivered now c = (res, ns, c')"
  shows "ia_inv (c', xs @ ys, n, if res = None then log @ [ResolvedAs (rv_item rv) (rv_next rv)] else log)"
proof -
  have a: "rv_item rv < length (ic_heap c)" using inv by (simp add: active_def)
  have "ia_inv (released (rv_item rv) c, xs @ ys, n, log)"
    by (rule inv_remove [OF inv, where r = "(ic_heap c ! rv_item rv)\<lparr>rec_resolving := False, rec_continuing := False, rec_resolveCancel := None\<rparr>"])
       (simp_all add: released_def set_record_def idle_def)
  note rel = this
  from run a show ?thesis
  proof (cases rule: complete_cases)
    case (failed e)
    have coh: "coherent (released (rv_item rv) c)" using rel by simp
    have "coherent c' \<and> undisturbed (released (rv_item rv) c) c'"
      using failed(2) coh keeps_map_coherent [OF expire_quiet [OF coh, of "rv_identity rv" now] coh] by auto
    with inv_quiet [OF rel, of c' n] failed(1) show ?thesis by (simp del: ia_inv.simps)
  next
    case resolved
    have "ia_inv (c', xs @ ys, n, log)"
      by (rule inv_remove [OF inv resolved(4,5), where r = "resolved_record rv now (ic_heap c ! rv_item rv)"])
         (use resolved(2,3) in simp_all)
    moreover have "rv_item rv \<notin> set (resolved_items log)"
      using inv resolved(2) by (auto simp: resolved_items_mem settled_def)
    moreover have "settled c' (rv_item rv) (rv_next rv)" using a by (simp add: settled_def resolved(3))
    ultimately show ?thesis using resolved(1) by auto
  qed
qed

lemma inv_replace:
  assumes "ia_inv (c, xs @ x # ys, n, log)" and "call_rv y = call_rv x" and "resolved_items log' = resolved_items log"
    and "\<And>a request. ResolvedAs a request \<in> set log' \<Longrightarrow> ResolvedAs a request \<in> set log"
  shows "ia_inv (c, xs @ y # ys, n, log')"
  using assms by auto

interpretation interactions: invariant_system ia_init ia_step ia_inv
proof
  fix x
  show "ia_init x \<Longrightarrow> ia_inv x" by (auto simp: ia_init_def zero_interactions_def coherent_def)
next
  fix x a y
  assume "ia_inv x" and "ia_step x a y"
  from this(2,1) show "ia_inv y"
  proof cases
    case (ia_other c calls n log op)
    then show ?thesis using inv_quiet exec_ia_quiet \<open>ia_inv x\<close> by (metis ia_inv.simps)
  next
    case (ia_refuse ctxDone agentID resolution n now c e c' calls log)
    from ia_refuse(4) have "c' = c" by (cases rule: reserve_cases) auto
    with ia_refuse \<open>ia_inv x\<close> show ?thesis by simp
  next
    case (ia_finish parentDone rv err delivered now c res ns c' xs ys n log)
    then show ?thesis using inv_finish \<open>ia_inv x\<close> by metis
  qed (auto simp del: ia_inv.simps intro: inv_reserve inv_replace)
qed

text \<open>
  C35. However resolutions, invalidations, expiries, events of the runtime, new turns and clean-ups
  interleave: a request is resolved at most once, and then it stays as the successful call left it.
\<close>

theorem resolved_once:
  assumes "reachable ia_init ia_step (c, calls, n, log)"
  shows "distinct (resolved_items log) \<and> (\<forall>a request. ResolvedAs a request \<in> set log \<longrightarrow>
     a < length (ic_heap c) \<and> rec_terminal (ic_heap c ! a) \<and> rec_request (ic_heap c ! a) = request)"
  using interactions.reachable_inv [OF assms] by (simp add: settled_def)

text \<open>
  An answer is given to the runtime, or continued in a new turn, only while its request is
  pending and by the only call that has reserved it: a request that was interrupted, expired or
  replaced by a new turn is never answered.
\<close>

theorem dispatch_pending:
  assumes "reachable ia_init ia_step (c, calls, n, log)"
    and "ia_step (c, calls, n, log) act (c', calls', n', log @ [Dispatched a])"
  shows "\<not> rec_terminal (ic_heap c ! a) \<and> rec_resolving (ic_heap c ! a) \<and>
    (\<exists>xs x ys. calls = xs @ x # ys \<and> rv_item (call_rv x) = a \<and> a \<notin> set (call_items (xs @ ys)))"
  using assms(2)
proof cases
  case (ia_dispatch parentDone rv err xs ys)
  from interactions.reachable_inv [OF assms(1)] have inv: "distinct (call_items calls)" "active c rv"
    by (auto simp: ia_dispatch)
  have "rv_call rv \<notin> set (ic_cancelled c)"
    using ia_dispatch by (auto simp: check_context_def split: option.splits if_splits)
  with inv(2) ia_dispatch have "\<not> rec_terminal (ic_heap c ! a) \<and> rec_resolving (ic_heap c ! a)"
    by (auto simp: active_def Let_def)
  moreover have "calls = xs @ Checked rv err # ys" "a = rv_item rv" using ia_dispatch by auto
  moreover from this inv(1) have "a \<notin> set (call_items (xs @ ys))" by auto
  ultimately show ?thesis by (metis call_rv.simps(2))
qed (auto split: if_splits)

subsection \<open>New turns\<close>

lemma interruptLocked_other: "b \<noteq> a \<Longrightarrow> ic_heap (interruptLocked a e now c) ! b = ic_heap c ! b"
  by (auto simp: interruptLocked_def finishLocked_def set_record_def Let_def split: option.splits)

lemma interrupt_all_effect:
  assumes "\<forall>(i, a) \<in> set items. a < length (ic_heap c)" and "distinct (map snd items)"
  shows "(\<forall>b. ic_heap (snd (interrupt_all agent key turn detached completed now items c)) ! b = ic_heap c ! b \<or>
      rec_terminal (ic_heap (snd (interrupt_all agent key turn detached completed now items c)) ! b)) \<and>
    (\<forall>(i, a) \<in> set items. matches agent key turn detached completed i (ic_heap c ! a) \<longrightarrow>
      rec_terminal (ic_heap (snd (interrupt_all agent key turn detached completed now items c)) ! a))"
  using assms
proof (induction items arbitrary: c)
  case (Cons x items)
  obtain i a where x: "x = (i, a)" by (cases x)
  show ?case
  proof (cases "matches agent key turn detached completed i (ic_heap c ! a)")
    case True
    let ?d = "interruptLocked a False now c" and ?e = "snd (interrupt_all agent key turn detached completed now items (interruptLocked a False now c))"
    have a: "a < length (ic_heap c)" "a \<notin> snd ` set items" using Cons.prems x by auto
    have len: "length (ic_heap ?d) = length (ic_heap c)"
      by (auto simp: interruptLocked_def finishLocked_def set_record_def Let_def split: option.splits)
    have t: "rec_terminal (ic_heap ?d ! a)" using interruptLocked_shape(2) [of a False now c] a(1) by auto
    have p: "\<forall>(i, a) \<in> set items. a < length (ic_heap ?d)" "distinct (map snd items)" using Cons.prems len by auto
    note IH = Cons.IH [OF p]
    have e: "snd (interrupt_all agent key turn detached completed now (x # items) c) = ?e"
      using True by (simp add: x Let_def split: prod.splits)
    have "ic_heap ?e ! b = ic_heap c ! b \<or> rec_terminal (ic_heap ?e ! b)" for b
      using IH t interruptLocked_other [of b a False now c] by (cases "b = a") metis+
    moreover have "rec_terminal (ic_heap ?e ! a)" using IH t by metis
    moreover have "rec_terminal (ic_heap ?e ! b)" if "(j, b) \<in> set items" "matches agent key turn detached completed j (ic_heap c ! b)" for j b
    proof -
      have "b \<noteq> a" using that(1) a(2) by force
      with that IH interruptLocked_other [of b a False now c] show ?thesis by auto
    qed
    ultimately show ?thesis unfolding e by (auto simp: x)
  next
    case False
    with Cons x show ?thesis by auto
  qed
qed simp

lemma interruptMatching_effect:
  assumes "coherent c" and "mget (ic_items c) i = Some a"
  shows "ic_heap (snd (interruptMatchingLocked agent key turn detached completed now c)) ! a = ic_heap c ! a \<and>
      \<not> matches agent key turn detached completed i (ic_heap c ! a) \<or>
    rec_terminal (ic_heap (snd (interruptMatchingLocked agent key turn detached completed now c)) ! a)"
proof -
  have "distinct (map snd (ic_items c))" using assms(1) by (simp add: coherent_def)
  from interrupt_all_effect [OF coherent_items [OF assms(1)] this] mget_mem [OF assms(2)]
  show ?thesis unfolding interruptMatchingLocked_def by (metis (mono_tags, lifting) case_prodD)
qed

text \<open>
  What is left of the interactions of a conversation when the coordinator lets a turn in. The turn
  that continues an accepted answer finds it reserved. Any other turn finds every detached question
  closed and no answer about to be continued, and one that must not displace interactions finds all
  of them closed.
\<close>

theorem BeginTurn_clears:
  assumes "reachable ia_init ia_step (c, calls, n, log)" and "BeginTurn agentID turn now c = (None, ns, c')"
  shows "if tr_RespondingTo turn \<noteq> [] then
      (\<exists>a. mget (ic_items c') (agentID, tr_ConversationKey turn, tr_RespondingTo turn) = Some a \<and>
         rec_continuing (ic_heap c' ! a) \<and> \<not> rec_terminal (ic_heap c' ! a))
    else (\<forall>i a. mget (ic_items c') (agentID, tr_ConversationKey turn, i) = Some a \<longrightarrow> \<not> rec_terminal (ic_heap c' ! a) \<longrightarrow>
         \<not> tr_PreservePendingInteractions turn \<and> \<not> rec_continuing (ic_heap c' ! a) \<and> \<not> iq_Detached (rec_request (ic_heap c' ! a)))"
proof (cases "tr_RespondingTo turn = []")
  case False
  with assms(2) show ?thesis
    by (auto simp: BeginTurn_def Let_def item_at_def split: option.splits if_splits)
next
  case True
  let ?key = "tr_ConversationKey turn"
  have coh: "coherent c" using interactions.reachable_inv [OF assms(1)] by simp
  from True assms(2) have none: "obstacle agentID ?key (tr_PreservePendingInteractions turn) c = None"
    and c': "c' = snd (interruptMatchingLocked agentID ?key [] True False now c)"
    by (auto simp: BeginTurn_def Let_def split: option.splits prod.splits)
  have items: "ic_items c' = ic_items c" using interruptMatching_quiet(2) [OF coh] by (simp add: c' keeps_map_def)
  have "\<not> tr_PreservePendingInteractions turn \<and> \<not> rec_continuing (ic_heap c' ! a) \<and> \<not> iq_Detached (rec_request (ic_heap c' ! a))"
    if i: "mget (ic_items c') (agentID, ?key, i) = Some a" and t: "\<not> rec_terminal (ic_heap c' ! a)" for i a
  proof -
    have m: "mget (ic_items c) (agentID, ?key, i) = Some a" using i items by simp
    from interruptMatching_effect [OF coh this, of agentID ?key "[]" True False now] t
    have same: "ic_heap c' ! a = ic_heap c ! a" "\<not> matches agentID ?key [] True False (agentID, ?key, i) (ic_heap c ! a)"
      by (auto simp: c')
    have "\<not> (\<not> rec_terminal (ic_heap c ! a) \<and> (tr_PreservePendingInteractions turn \<or> rec_continuing (ic_heap c ! a)))"
      using none mget_mem [OF m] by (auto simp: obstacle_def find_None_iff split: option.splits)
    with same t show ?thesis by (auto simp: matches_def)
  qed
  with True show ?thesis by simp
qed

subsection \<open>An example\<close>

definition demo_question :: UserInputQuestionSnapshot where
  "demo_question = \<lparr>uq_ID = ''q'', uq_Header = ''Token'', uq_Question = ''Which token?'', uq_Options = [], uq_IsOther = False,
     uq_IsSecret = True\<rparr>"

definition demo_snapshot :: UserInputSnapshot where
  "demo_snapshot = \<lparr>us_ID = ''x'', us_Channel = [], us_RoomID = [], us_ThreadRootID = [], us_RequesterID = [],
     us_Status = UserInputStatusPending, us_Questions = [demo_question], us_Answers = [], us_RequestedAt = 1, us_ResolvedAt = None,
     us_AutoResolveAt = None, us_ResponderID = []\<rparr>"

definition demo_request :: InteractionRequest where
  "demo_request = \<lparr>iq_ID = ''x'', iq_Kind = InteractionUserInput, iq_Detached = True, iq_Title = ''User input required'',
     iq_Payload = UserInputPayload demo_snapshot\<rparr>"

definition demo_resolution :: "string \<Rightarrow> InteractionResolution" where
  "demo_resolution note = \<lparr>irs_ConversationKey = ''room'', irs_InteractionID = ''x'', irs_OptionID = [],
     irs_Answers = [(''q'', \<lparr>ian_Values = [''user_note: '' @ note], ian_Skipped = False\<rparr>)], irs_ResponderID = ''bob'',
     irs_BeforeResolve = False, irs_ContinueDetached = True\<rparr>"

definition demo_registered :: IaCoordinator where
  "demo_registered = exec_ia (OpRegister ''a'' ''room'' ''t'' demo_request False True 1) zero_interactions"

definition demo_reserved :: "(ia_error + reservation) \<times> IaCoordinator" where
  "demo_reserved = reserve False ''a'' (demo_resolution ''abc'') 0 2 demo_registered"

definition demo_rv :: reservation where
  "demo_rv = projr (fst demo_reserved)"

definition demo_resolved :: "ia_error option \<times> InteractionRequest list \<times> IaCoordinator" where
  "demo_resolved = complete_resolve False demo_rv None True 3 (snd demo_reserved)"

lemma demo_interaction:
  "is_ok (fst demo_reserved)" "check_interrupted demo_rv None (snd demo_reserved) = None"
  "check_context False demo_rv None (snd demo_reserved) = None" "dispatch demo_rv True None None = (None, True)"
  "fst demo_resolved = None" "rv_item demo_rv = 0"
  by code_simp+

lemma demo_registered_reachable: "reachable ia_init ia_step (demo_registered, [], 0, [])"
proof -
  have "reachable ia_init ia_step (zero_interactions, [], 0, [])" by (rule reachable_init) (simp add: ia_init_def)
  from reachable_step [OF this ia_other, of "OpRegister ''a'' ''room'' ''t'' demo_request False True 1"] show ?thesis
    by (simp only: demo_registered_def)
qed

lemma demo_checked_reachable: "reachable ia_init ia_step (snd demo_reserved, [] @ Checked demo_rv None # [], 1, [])"
proof -
  have "reserve False ''a'' (demo_resolution ''abc'') 0 2 demo_registered = (Inr demo_rv, snd demo_reserved)"
    using demo_interaction(1) by (cases "fst demo_reserved") (auto simp: demo_rv_def demo_reserved_def prod_eq_iff)
  from reachable_step [OF demo_registered_reachable ia_reserve [OF this]]
  have "reachable ia_init ia_step (snd demo_reserved, [] @ Reserved demo_rv # [], 1, [])" by simp
  from reachable_step [OF this ia_check, of None] show ?thesis by (simp add: demo_interaction(2))
qed

lemma demo_dispatch_step:
  "ia_step (snd demo_reserved, [] @ Checked demo_rv None # [], 1, []) Dispatch
     (snd demo_reserved, [] @ Running demo_rv # [], 1, [] @ [Dispatched (rv_item demo_rv)])"
  by (rule ia_dispatch [OF demo_interaction(3)])

theorem dispatch_pending_witness:
  "\<not> rec_terminal (ic_heap (snd demo_reserved) ! 0) \<and> rec_resolving (ic_heap (snd demo_reserved) ! 0)"
  using dispatch_pending [OF demo_checked_reachable demo_dispatch_step] by (simp add: demo_interaction(6))

theorem resolved_once_witness:
  "rec_terminal (ic_heap (snd (snd demo_resolved)) ! 0) \<and> rec_request (ic_heap (snd (snd demo_resolved)) ! 0) = rv_next demo_rv"
proof -
  note r1 = reachable_step [OF demo_checked_reachable demo_dispatch_step]
  note r2 = reachable_step [OF r1 ia_answer [OF demo_interaction(4)]]
  have "complete_resolve False demo_rv None True 3 (snd demo_reserved) = (None, fst (snd demo_resolved), snd (snd demo_resolved))"
    using demo_interaction(5) by (simp add: demo_resolved_def prod_eq_iff)
  from reachable_step [OF r2 ia_finish [OF this]] have
    "reachable ia_init ia_step (snd (snd demo_resolved), [], 1, [Dispatched 0, ResolvedAs 0 (rv_next demo_rv)])"
    by (simp add: demo_interaction(6))
  from resolved_once [OF this] show ?thesis by simp
qed

definition demo_turn :: TurnRequest where
  "demo_turn = \<lparr>tr_RespondingTo = [], tr_PreservePendingInteractions = False, tr_RoomConfiguration = None, tr_ImageGeneration = None,
     tr_VideoGeneration = None, tr_ID = ''t1'', tr_ConversationKey = ''room'',
     tr_Input = [\<lparr>ip_Kind = InputPartText, ip_Text = ''hello'', ip_File = None, ip_WorkspaceFile = None\<rparr>],
     tr_Admission = AdmissionWait, tr_Continuation = ContinuationCreateOrResume, tr_Interaction = InteractionResolve\<rparr>"

lemma demo_turn_values:
  "fst (BeginTurn ''a'' demo_turn 9 demo_registered) = None"
  "mget (ic_items (snd (snd (BeginTurn ''a'' demo_turn 9 demo_registered)))) (''a'', ''room'', ''x'') = Some 0"
  "iq_Detached (rec_request (ic_heap (snd (snd (BeginTurn ''a'' demo_turn 9 demo_registered))) ! 0))"
  by code_simp+

theorem BeginTurn_clears_witness:
  "\<not> rec_terminal (ic_heap demo_registered ! 0) \<and>
   rec_terminal (ic_heap (snd (snd (BeginTurn ''a'' demo_turn 9 demo_registered))) ! 0)"
proof -
  have "BeginTurn ''a'' demo_turn 9 demo_registered = (None, fst (snd (BeginTurn ''a'' demo_turn 9 demo_registered)),
      snd (snd (BeginTurn ''a'' demo_turn 9 demo_registered)))"
    using demo_turn_values(1) by (simp add: prod_eq_iff)
  from BeginTurn_clears [OF demo_registered_reachable this] demo_turn_values(2,3)
  have "rec_terminal (ic_heap (snd (snd (BeginTurn ''a'' demo_turn 9 demo_registered))) ! 0)"
    by (auto simp: demo_turn_def)
  moreover have "\<not> rec_terminal (ic_heap demo_registered ! 0)" by code_simp
  ultimately show ?thesis by simp
qed

end
