(* ===== verification/InteractionSecrets.thy ===== *)
theory InteractionSecrets
  imports InteractionProps
begin

section \<open>Secret answers\<close>

text \<open>
  The note that answers a secret question goes to the runtime only. What the coordinator keeps, notifies
  and continues with does not depend on it: two resolutions that differ in such notes make the same
  of a request.
\<close>

definition is_note :: "string \<Rightarrow> bool" where
  "is_note v \<longleftrightarrow> HasPrefix (TrimSpace v) ''user_note:'' \<and> TrimSpace (TrimPrefix (TrimSpace v) ''user_note:'') \<noteq> []"

text \<open>Two values that are the same, or that are notes for a secret question.\<close>

definition alike :: "UserInputQuestionSnapshot \<Rightarrow> string \<Rightarrow> string \<Rightarrow> bool" where
  "alike q v w \<longleftrightarrow> TrimSpace v = TrimSpace w \<or> (uq_IsSecret q \<and> is_note v \<and> is_note w)"

definition alike_answers ::
  "UserInputQuestionSnapshot list \<Rightarrow> (string, InteractionAnswer) gomap \<Rightarrow> (string, InteractionAnswer) gomap \<Rightarrow> bool" where
  "alike_answers questions answers others \<longleftrightarrow>
     list_all2 (\<lambda>(i, a) (j, b). i = j \<and> ian_Skipped a = ian_Skipped b \<and>
       list_all (\<lambda>q. uq_ID q = i \<longrightarrow> list_all2 (alike q) (ian_Values a) (ian_Values b)) questions) answers others"

definition alike_responses :: "UserInputQuestionSnapshot list \<Rightarrow> RequestUserInputResponse \<Rightarrow> RequestUserInputResponse \<Rightarrow> bool" where
  "alike_responses questions response other \<longleftrightarrow>
     list_all2 (\<lambda>(i, a) (j, b). i = j \<and> (\<forall>q \<in> set questions. uq_ID q = i \<longrightarrow> list_all2 (alike q) a b)) response other"

lemma note_nonempty: "is_note v \<Longrightarrow> TrimSpace v \<noteq> []"
  by (auto simp: is_note_def HasPrefix_def starts_with_def)

lemma answer_values_alike:
  assumes "list_all2 (alike q) vs ws"
  shows "map_sum id snd (answer_values q vs out snapshot) = map_sum id snd (answer_values q ws out' snapshot)"
  using assms
proof (induction vs ws arbitrary: out out' snapshot rule: list_all2_induct)
  case (Cons v vs w ws)
  show ?case
  proof (cases "TrimSpace v = TrimSpace w")
    case True
    then show ?thesis using Cons.IH by (simp add: Let_def)
  next
    case False
    with Cons.hyps have "uq_IsSecret q" "is_note v" "is_note w" by (auto simp: alike_def)
    then show ?thesis using Cons.IH note_nonempty by (simp add: Let_def is_note_def)
  qed
qed simp

lemma mget_alike:
  assumes "alike_responses questions response other"
  shows "(case mget response i of None \<Rightarrow> mget other i = None
    | Some a \<Rightarrow> \<exists>b. mget other i = Some b \<and> (\<forall>q \<in> set questions. uq_ID q = i \<longrightarrow> list_all2 (alike q) a b))"
  using assms unfolding alike_responses_def
  by (induction response other rule: list_all2_induct) (auto split: option.splits)

lemma alike_responses_sub: "alike_responses qs r s \<Longrightarrow> set ps \<subseteq> set qs \<Longrightarrow> alike_responses ps r s"
  unfolding alike_responses_def by (erule list_all2_mono) auto

lemma build_answers_alike:
  assumes "alike_responses questions response other"
  shows "map_sum id snd (build_answers questions response norm snapshots answered) =
    map_sum id snd (build_answers questions other norm' snapshots answered)"
  using assms
proof (induction questions arbitrary: norm norm' snapshots answered)
  case (Cons q qs)
  have sub: "alike_responses qs response other" using Cons.prems by (rule alike_responses_sub) auto
  note IH = Cons.IH [OF sub]
  show ?case
  proof (cases "mget response (uq_ID q)")
    case None
    then show ?thesis using mget_alike [OF Cons.prems, of "uq_ID q"] by simp
  next
    case (Some a)
    with mget_alike [OF Cons.prems, of "uq_ID q"] obtain b where b: "mget other (uq_ID q) = Some b" "list_all2 (alike q) a b" by auto
    have len: "length a = length b" using b(2) by (rule list_all2_lengthD)
    have v: "map_sum id snd (answer_values q a [] sn) = map_sum id snd (answer_values q b [] sn)" for sn
      by (rule answer_values_alike [OF b(2)])
    show ?thesis
    proof (cases "answer_values q a [] (empty_answer True (uq_IsSecret q))")
      case (Inl e)
      then have "answer_values q b [] (empty_answer True (uq_IsSecret q)) = Inl e"
        using v [of "empty_answer True (uq_IsSecret q)"] by (cases "answer_values q b [] (empty_answer True (uq_IsSecret q))") auto
      with Inl Some b len IH show ?thesis by (cases "a = []") auto
    next
      case (Inr x)
      then obtain vals' where "answer_values q b [] (empty_answer True (uq_IsSecret q)) = Inr (vals', snd x)"
        using v [of "empty_answer True (uq_IsSecret q)"] by (cases "answer_values q b [] (empty_answer True (uq_IsSecret q))") auto
      with Inr Some b len IH show ?thesis by (cases "a = []") (auto split: prod.splits)
    qed
  qed
qed simp

lemma BuildUserInputResponse_alike:
  assumes "alike_responses questions response other"
  shows "map_sum id (\<lambda>(status, _, snapshots). (status, snapshots)) (BuildUserInputResponse questions response) =
    map_sum id (\<lambda>(status, _, snapshots). (status, snapshots)) (BuildUserInputResponse questions other)"
proof -
  have keys: "map fst response = map fst other"
    using assms unfolding alike_responses_def by (induction response other rule: list_all2_induct) auto
  then have nil: "response = [] \<longleftrightarrow> other = []" and mem: "fst ` set response = fst ` set other" by (auto simp flip: set_map)
  from build_answers_alike [OF assms, of "[]" "[]" False "[]"] nil mem show ?thesis
    by (cases "build_answers questions response [] [] False"; cases "build_answers questions other [] [] False")
       (auto simp: BuildUserInputResponse_def)
qed

text \<open>
  C36. Two resolutions of a request for user input whose answers differ only in the notes for secret
  questions lead to the same result, the same error or the same request: none of what the
  coordinator retains, shows to clients, notifies or passes to the next turn depends on the notes.
\<close>

theorem secret_notes_hidden:
  assumes "iq_Payload request = UserInputPayload snapshot"
    and "alike_answers (us_Questions snapshot) (irs_Answers resolution) others"
  shows "resolvedInteraction request resolution now = resolvedInteraction request (resolution\<lparr>irs_Answers := others\<rparr>) now"
proof -
  have "alike_responses (us_Questions snapshot) (answers_of (irs_Answers resolution)) (answers_of others)"
    using assms(2) unfolding alike_answers_def alike_responses_def answers_of_def
    by (auto simp: list_all2_map1 list_all2_map2 list_all_iff elim!: list_all2_mono)
  from BuildUserInputResponse_alike [OF this] assms(1) show ?thesis
    by (auto simp: resolvedInteraction_def resolve_user_input_def split: sum.splits prod.splits option.splits)
qed

theorem secret_notes_hidden_witness:
  "resolvedInteraction demo_request (demo_resolution ''abc'') 5 = resolvedInteraction demo_request (demo_resolution ''xyz'') 5 \<and>
   is_ok (resolvedInteraction demo_request (demo_resolution ''abc'') 5)"
proof -
  have "alike_answers (us_Questions demo_snapshot) (irs_Answers (demo_resolution ''abc'')) (irs_Answers (demo_resolution ''xyz''))"
    unfolding alike_def alike_answers_def is_note_def by code_simp
  moreover have "iq_Payload demo_request = UserInputPayload demo_snapshot" by (simp add: demo_request_def)
  moreover have "(demo_resolution ''abc'')\<lparr>irs_Answers := irs_Answers (demo_resolution ''xyz'')\<rparr> = demo_resolution ''xyz''"
    by (simp add: demo_resolution_def)
  ultimately have "resolvedInteraction demo_request (demo_resolution ''abc'') 5 = resolvedInteraction demo_request (demo_resolution ''xyz'') 5"
    using secret_notes_hidden by metis
  moreover have "is_ok (resolvedInteraction demo_request (demo_resolution ''abc'') 5)" by code_simp
  ultimately show ?thesis by simp
qed

text \<open>
  The label of an option is not a note. A secret question that offers options keeps the label chosen, and
  the public form of the request has it.
\<close>

theorem secret_option_kept:
  "(let q = demo_question\<lparr>uq_Options := [\<lparr>uo_Label = ''blue'', uo_Description = []\<rparr>]\<rparr>
    in map_sum id (\<lambda>(_, _, answers). map_option (\<lambda>a. ua_OptionLabel (public_answer a)) (mget answers ''q''))
         (BuildUserInputResponse [q] [(''q'', [''blue''])])) = Inr (Some ''blue'')"
  by code_simp

end
