(* ===== verification/TurnFiles.thy ===== *)
theory TurnFiles
  imports Contract
begin

section \<open>Files of conversations (\<open>contract/file_store.go\<close>, \<open>contract/output_file.go\<close>)\<close>

text \<open>
  Files that runtimes produce or callers upload are immutable snapshots on disk, indexed by agent and
  identifier. A snapshot counts the leases of its readers: it is deleted from disk when it has been
  removed from the store and the last lease is released.

  Snapshots are shared, so they are in a heap; \<open>fs_unlinked\<close> are the paths that were deleted from disk,
  in order. The creation of a snapshot from a stream, with its size, hash and identifier, is the
  environment's, and so is whether an opened snapshot passes its verification. The finalizer of the
  garbage collector is not modelled: it is one more \<open>Cleanup\<close> of a snapshot that nobody refers to.
\<close>

subsection \<open>Snapshots\<close>

record outputFileSnapshot =
  sp_path :: string
  sp_removed :: bool
  sp_leases :: nat

record storedFile =
  sf_file :: OutputFile
  sf_conversationKey :: string
  sf_turnID :: string

record FileStore =
  fs_byAgent :: "(string, (string, storedFile) gomap) gomap"
  fs_snaps :: "outputFileSnapshot list"
  fs_unlinked :: "string list"

definition NewFileStore :: FileStore where
  "NewFileStore = \<lparr>fs_byAgent = [], fs_snaps = [], fs_unlinked = []\<rparr>"

definition takeRemovalLocked :: "outputFileSnapshot \<Rightarrow> string \<times> outputFileSnapshot" where
  "takeRemovalLocked s =
     (if \<not> sp_removed s \<or> sp_leases s \<noteq> 0 \<or> sp_path s = [] then ([], s)
      else (sp_path s, s\<lparr>sp_path := []\<rparr>))"

definition removeOutputFileSnapshot :: "string \<Rightarrow> FileStore \<Rightarrow> FileStore" where
  "removeOutputFileSnapshot path fs = (if path = [] then fs else fs\<lparr>fs_unlinked := fs_unlinked fs @ [path]\<rparr>)"

definition set_snap :: "nat \<Rightarrow> outputFileSnapshot \<Rightarrow> FileStore \<Rightarrow> FileStore" where
  "set_snap a s fs = fs\<lparr>fs_snaps := (fs_snaps fs)[a := s]\<rparr>"

text \<open>What \<open>Cleanup\<close> and \<open>release\<close> have in common after their change \<open>s\<close> of the snapshot.\<close>

definition settle_snap :: "nat \<Rightarrow> outputFileSnapshot \<Rightarrow> FileStore \<Rightarrow> FileStore" where
  "settle_snap a s fs = (case takeRemovalLocked s of (path, s') \<Rightarrow> removeOutputFileSnapshot path (set_snap a s' fs))"

definition snapCleanup :: "nat \<Rightarrow> FileStore \<Rightarrow> FileStore" where
  "snapCleanup a fs = settle_snap a ((fs_snaps fs ! a)\<lparr>sp_removed := True\<rparr>) fs"

definition snapRelease :: "nat \<Rightarrow> FileStore \<Rightarrow> FileStore" where
  "snapRelease a fs = settle_snap a ((fs_snaps fs ! a)\<lparr>sp_leases := sp_leases (fs_snaps fs ! a) - 1\<rparr>) fs"

definition snapRetain :: "nat \<Rightarrow> FileStore \<Rightarrow> bool \<times> FileStore" where
  "snapRetain a fs =
     (let s = fs_snaps fs ! a in
      if sp_removed s \<or> sp_path s = [] then (False, fs)
      else (True, set_snap a (s\<lparr>sp_leases := sp_leases s + 1\<rparr>) fs))"

text \<open>
  \<open>openVerified\<close>: a lease is taken when the file can be opened, and given back when its content is not
  what it should be. \<open>opens\<close> and \<open>verified\<close> are the answers of the file system.
\<close>

definition openVerified :: "bool \<Rightarrow> bool \<Rightarrow> nat \<Rightarrow> FileStore \<Rightarrow> bool \<times> FileStore" where
  "openVerified opens verified a fs =
     (let s = fs_snaps fs ! a in
      if sp_path s = [] \<or> \<not> opens then (False, fs)
      else
        let fs = set_snap a (s\<lparr>sp_leases := sp_leases s + 1\<rparr>) fs in
        if verified then (True, fs) else (False, snapRelease a fs))"

text \<open>\<open>OutputFile.Cleanup\<close>; nothing for a nil file or one without content.\<close>

definition fileCleanup :: "OutputFile option \<Rightarrow> FileStore \<Rightarrow> FileStore" where
  "fileCleanup file fs =
     (case file of
        None \<Rightarrow> fs
      | Some f \<Rightarrow> (case of_snapshot f of None \<Rightarrow> fs | Some a \<Rightarrow> snapCleanup a fs))"

definition cleanup_files :: "OutputFile option list \<Rightarrow> FileStore \<Rightarrow> FileStore" where
  "cleanup_files files fs = fold fileCleanup files fs"

subsection \<open>The store\<close>

definition filePut :: "string \<Rightarrow> storedFile \<Rightarrow> FileStore \<Rightarrow> ErrorCode option \<times> FileStore" where
  "filePut agentID file fs =
     (if of_snapshot (sf_file file) = None then (Some ErrorFileUnavailable, fs)
      else
        let files = mgets (fs_byAgent fs) agentID in
        if mget files (of_ID (sf_file file)) \<noteq> None then
          (Some ErrorFileUnavailable, fs\<lparr>fs_byAgent := mput agentID files (fs_byAgent fs)\<rparr>)
        else (None, fs\<lparr>fs_byAgent := mput agentID (mput (of_ID (sf_file file)) file files) (fs_byAgent fs)\<rparr>))"

text \<open>An agent without files has no entry in the store.\<close>

definition set_files :: "string \<Rightarrow> (string, storedFile) gomap \<Rightarrow> FileStore \<Rightarrow> FileStore" where
  "set_files agentID files fs =
     fs\<lparr>fs_byAgent := (if files = [] then mdel agentID (fs_byAgent fs) else mput agentID files (fs_byAgent fs))\<rparr>"

definition fileDelete :: "string \<Rightarrow> string \<Rightarrow> FileStore \<Rightarrow> storedFile option \<times> FileStore" where
  "fileDelete agentID fileID fs =
     (let files = mgets (fs_byAgent fs) agentID in
      case mget files fileID of
        None \<Rightarrow> (None, fs)
      | Some file \<Rightarrow> (Some file, set_files agentID (mdel fileID files) fs))"

text \<open>The files registered so far are taken back when one cannot be stored, and all of them are cleaned up.\<close>

definition take_back :: "string \<Rightarrow> string \<Rightarrow> FileStore \<Rightarrow> FileStore" where
  "take_back agentID fileID fs =
     (case fileDelete agentID fileID fs of
        (None, fs) \<Rightarrow> fs
      | (Some stored, fs) \<Rightarrow> fileCleanup (Some (sf_file stored)) fs)"

fun register_files ::
  "string \<Rightarrow> string \<Rightarrow> string \<Rightarrow> OutputFile option list \<Rightarrow> OutputFile option list \<Rightarrow> string list \<Rightarrow> OutputFile list \<Rightarrow> FileStore \<Rightarrow>
     (ErrorCode + OutputFile list) \<times> FileStore" where
  "register_files agentID key turnID every [] registered result fs = (Inr result, fs)"
| "register_files agentID key turnID every (f # files) registered result fs =
     (case f of
        None \<Rightarrow> register_files agentID key turnID every files registered result fs
      | Some file \<Rightarrow>
          if of_snapshot file = None then register_files agentID key turnID every files registered result fs
          else
            (case filePut agentID \<lparr>sf_file = file, sf_conversationKey = key, sf_turnID = turnID\<rparr> fs of
               (Some e, fs) \<Rightarrow> (Inl e, cleanup_files every (fold (take_back agentID) registered fs))
             | (None, fs) \<Rightarrow>
                 register_files agentID key turnID every files (registered @ [of_ID file]) (result @ [file_metadata file]) fs))"

definition RegisterTurnFiles ::
  "string \<Rightarrow> string \<Rightarrow> string \<Rightarrow> OutputFile option list \<Rightarrow> FileStore \<Rightarrow> (ErrorCode + OutputFile list) \<times> FileStore" where
  "RegisterTurnFiles agentID key turnID files = register_files agentID key turnID files files [] []"

text \<open>The file and the address of the snapshot whose lease the caller has to release.\<close>

definition fileResolve :: "string \<Rightarrow> string \<Rightarrow> FileStore \<Rightarrow> (ErrorCode + OutputFile \<times> nat) \<times> FileStore" where
  "fileResolve agentID fileID fs =
     (case mget (mgets (fs_byAgent fs) (TrimSpace agentID)) (TrimSpace fileID) of
        None \<Rightarrow> (Inl ErrorFileNotFound, fs)
      | Some file \<Rightarrow>
          (case of_snapshot (sf_file file) of
             None \<Rightarrow> (Inl ErrorFileUnavailable, fs)
           | Some a \<Rightarrow>
               (case snapRetain a fs of
                  (True, fs) \<Rightarrow> (Inr (sf_file file, a), fs)
                | (False, fs) \<Rightarrow> (Inl ErrorFileUnavailable, fs))))"

definition of_turn :: "string \<Rightarrow> string \<Rightarrow> storedFile \<Rightarrow> bool" where
  "of_turn key turnID file \<longleftrightarrow> sf_conversationKey file = key \<and> sf_turnID file = turnID"

definition DeleteTurn :: "string \<Rightarrow> string \<Rightarrow> string \<Rightarrow> FileStore \<Rightarrow> FileStore" where
  "DeleteTurn agentID key turnID fs =
     (let files = mgets (fs_byAgent fs) agentID in
      cleanup_files (map (\<lambda>(_, file). Some (sf_file file)) (filter (\<lambda>(_, file). of_turn key turnID file) files))
        (set_files agentID (filter (\<lambda>(_, file). \<not> of_turn key turnID file) files) fs))"

definition DeleteAgent :: "string \<Rightarrow> FileStore \<Rightarrow> FileStore" where
  "DeleteAgent agentID fs =
     (let files = mgets (fs_byAgent fs) agentID in
      cleanup_files (map (\<lambda>(_, file). Some (sf_file file)) files) (fs\<lparr>fs_byAgent := mdel agentID (fs_byAgent fs)\<rparr>))"

subsection \<open>The interface of callers\<close>

text \<open>
  \<open>made\<close> is the outcome of \<open>NewOutputFile\<close>: the error code that \<open>Create\<close> answers, or the metadata of the
  file and the path of its snapshot.
\<close>

definition new_snapshot :: "string \<Rightarrow> OutputFile \<Rightarrow> FileStore \<Rightarrow> OutputFile \<times> FileStore" where
  "new_snapshot path file fs =
     (file\<lparr>of_snapshot := Some (length (fs_snaps fs))\<rparr>,
      fs\<lparr>fs_snaps := fs_snaps fs @ [\<lparr>sp_path = path, sp_removed = False, sp_leases = 0\<rparr>]\<rparr>)"

definition filesCreate :: "string \<Rightarrow> (ErrorCode + OutputFile \<times> string) \<Rightarrow> (FileStore, ErrorCode, OutputFile) sm" where
  "filesCreate agentID made fs =
     (if agentID = [] then (Inl ErrorInvalidRequest, fs)
      else case made of
        Inl e \<Rightarrow> (Inl e, fs)
      | Inr (meta, path) \<Rightarrow>
          (case new_snapshot path meta fs of
             (file, fs) \<Rightarrow>
               (case filePut agentID \<lparr>sf_file = file, sf_conversationKey = [], sf_turnID = []\<rparr> fs of
                  (Some e, fs) \<Rightarrow> (Inl e, fileCleanup (Some file) fs)
                | (None, fs) \<Rightarrow> (Inr (file_metadata file), fs))))"

text \<open>
  \<open>Get\<close> in its two parts: looking the file up and taking a lease under the lock of the store, and
  opening the content and giving the first lease back. The reader keeps the second until it is closed.
\<close>

definition filesGet_lookup :: "string \<Rightarrow> string \<Rightarrow> (FileStore, ErrorCode, OutputFile \<times> nat) sm" where
  "filesGet_lookup agentID fileID fs =
     (if agentID = [] \<or> TrimSpace fileID = [] then (Inl ErrorInvalidRequest, fs)
      else case mget (mgets (fs_byAgent fs) agentID) (TrimSpace fileID) of
        None \<Rightarrow> (Inl ErrorFileNotFound, fs)
      | Some file \<Rightarrow>
          (case of_snapshot (sf_file file) of
             None \<Rightarrow> (Inl ErrorFileUnavailable, fs)
           | Some a \<Rightarrow>
               (case snapRetain a fs of
                  (True, fs) \<Rightarrow> (Inr (sf_file file, a), fs)
                | (False, fs) \<Rightarrow> (Inl ErrorFileUnavailable, fs))))"

definition filesGet_open :: "bool \<Rightarrow> bool \<Rightarrow> bool \<Rightarrow> nat \<Rightarrow> (FileStore, ErrorCode, unit) sm" where
  "filesGet_open ctxDone opens verified a fs =
     (case if ctxDone then (False, fs) else openVerified opens verified a fs of
        (True, fs) \<Rightarrow> (Inr (), snapRelease a fs)
      | (False, fs) \<Rightarrow> (Inl (if ctxDone then ErrorCanceled else ErrorFileUnavailable), snapRelease a fs))"

definition filesDelete :: "string \<Rightarrow> string \<Rightarrow> (FileStore, ErrorCode, unit) sm" where
  "filesDelete agentID fileID fs =
     (if agentID = [] \<or> TrimSpace fileID = [] then (Inl ErrorInvalidRequest, fs)
      else case fileDelete agentID (TrimSpace fileID) fs of
        (None, fs) \<Rightarrow> (Inl ErrorFileNotFound, fs)
      | (Some file, fs) \<Rightarrow> (Inr (), fileCleanup (Some (sf_file file)) fs))"

end
