(* ===== verification/Engine.thy ===== *)
theory Engine
  imports Interaction TurnFiles ScheduledTask
begin

section \<open>The agent engine (\<open>internal/agentengine/engine.go\<close>)\<close>

text \<open>
  The engine admits turns to conversations: one turn at a time runs in a conversation; a turn whose
  identifier is known is replayed or joined instead of run again; a caller may wait for the running
  turn or supersede it; a reset of a conversation excludes turns.

  A turn that runs and a control operation are shared by pointer and have a channel \<open>done\<close> that is
  closed at their end. They are in heaps, \<open>en_turns\<close> and \<open>en_controlHeap\<close>, with the channel as a flag. A
  call of the engine goes through phases; the work between two of them is a critical section of the
  engine, or an operation of the interaction coordinator or of the file store. What agents, runtimes,
  generators, the clock and the context of the caller answer in a step is its environment.

  Diagnostics and logging are left out, and so are the field \<open>interactions\<close> of a turn, which nothing
  reads, and the handlers for generated media that are put into the context of the runtime.
\<close>

subsection \<open>State\<close>

definition maxCompletedTurns :: nat where "maxCompletedTurns = 1024"

type_synonym conversationIdentity = "string \<times> string"
type_synonym turnIdentity = "conversationIdentity \<times> string"

record activeTurn =
  tn_agentID :: string
  tn_structuredUserInput :: "RequestUserInputArgs option"
  tn_request :: TurnRequest
  tn_cancelled :: bool
  tn_done :: bool
  tn_runtime :: bool
  tn_sequence :: nat
  tn_events :: "TurnEvent list"
  tn_result :: TurnResult

record completedTurn =
  ct_request :: TurnRequest
  ct_events :: "TurnEvent list"
  ct_result :: TurnResult

record Engine =
  en_files :: FileStore
  en_interactions :: IaCoordinator
  en_turns :: "activeTurn list"
  en_controlHeap :: "bool list"
  en_active :: "(conversationIdentity, nat) gomap"
  en_controls :: "(conversationIdentity, nat) gomap"
  en_completed :: "(turnIdentity, completedTurn) gomap"
  en_completedOrder :: "turnIdentity list"

definition NewEngine :: Engine where
  "NewEngine = \<lparr>en_files = NewFileStore, en_interactions = zero_interactions, en_turns = [], en_controlHeap = [],
     en_active = [], en_controls = [], en_completed = [], en_completedOrder = []\<rparr>"

definition set_turn :: "nat \<Rightarrow> activeTurn \<Rightarrow> Engine \<Rightarrow> Engine" where
  "set_turn a t e = e\<lparr>en_turns := (en_turns e)[a := t]\<rparr>"

definition cancel_turn :: "nat \<Rightarrow> Engine \<Rightarrow> Engine" where
  "cancel_turn a e = set_turn a ((en_turns e ! a)\<lparr>tn_cancelled := True\<rparr>) e"

subsection \<open>Requests and results\<close>

definition failedResult :: "ErrorCode \<Rightarrow> TurnResult" where
  "failedResult code = (zero_result TurnFailed)\<lparr>ts_Error := Some code\<rparr>"

text \<open>\<open>resultFromContext\<close> is called with the error of a context that has ended.\<close>

definition resultFromContext :: TurnResult where
  "resultFromContext = (zero_result TurnCanceled)\<lparr>ts_Error := Some ErrorCanceled\<rparr>"

definition lower_char :: "char \<Rightarrow> char" where
  "lower_char c = (if 65 \<le> (of_char c :: nat) \<and> (of_char c :: nat) \<le> 90 then char_of ((of_char c :: nat) + 32) else c)"

text \<open>
  A policy is compared with lower-case ASCII texts after it has been normalized. So it does not
  matter what \<open>strings.ToLower\<close> makes of other letters, except of the two that become ASCII letters:
  the Kelvin sign and the dotted capital I.
\<close>

definition kelvin :: string where "kelvin = [CHR 0xE2, CHR 0x84, CHR 0xAA]"
definition dotted_I :: string where "dotted_I = [CHR 0xC4, CHR 0xB0]"

fun lower_special :: "string \<Rightarrow> string" where
  "lower_special [] = []"
| "lower_special (c # cs) =
     (if take 3 (c # cs) = kelvin then CHR ''k'' # lower_special (drop 2 cs)
      else if take 2 (c # cs) = dotted_I then CHR ''i'' # lower_special (drop 1 cs)
      else c # lower_special cs)"

definition ToLower :: "string \<Rightarrow> string" where
  "ToLower s = lower_special (map lower_char s)"

definition normalized :: "string \<Rightarrow> string \<Rightarrow> string" where
  "normalized standard policy = (if TrimSpace policy = [] then standard else TrimSpace (ToLower policy))"

definition normalizedAdmission :: "string \<Rightarrow> string" where
  "normalizedAdmission = normalized AdmissionRejectIfBusy"

definition normalizedContinuation :: "string \<Rightarrow> string" where
  "normalizedContinuation = normalized ContinuationCreateOrResume"

definition normalizedInteraction :: "string \<Rightarrow> string" where
  "normalizedInteraction = normalized InteractionResolve"

definition normalize_request :: "TurnRequest \<Rightarrow> TurnRequest" where
  "normalize_request r = r\<lparr>tr_ConversationKey := TrimSpace (tr_ConversationKey r), tr_ID := TrimSpace (tr_ID r),
     tr_Admission := normalizedAdmission (tr_Admission r), tr_Continuation := normalizedContinuation (tr_Continuation r),
     tr_Interaction := normalizedInteraction (tr_Interaction r)\<rparr>"

text \<open>The checks of a normalized request; the error of a request that is refused.\<close>

definition request_error :: "string \<Rightarrow> TurnRequest \<Rightarrow> ErrorCode option" where
  "request_error agentID r =
     (if agentID = [] \<or> tr_ID r = [] \<or> tr_ConversationKey r = [] \<or> tr_Input r = [] then Some ErrorInvalidRequest
      else if tr_Admission r \<noteq> AdmissionRejectIfBusy \<and> tr_Admission r \<noteq> AdmissionWait \<and> tr_Admission r \<noteq> AdmissionSupersede then
        Some ErrorInvalidRequest
      else if tr_Continuation r \<noteq> ContinuationCreateOrResume \<and> tr_Continuation r \<noteq> ContinuationRequireExisting then
        Some ErrorInvalidRequest
      else if \<not> policy_valid (tr_Interaction r) then Some ErrorInvalidRequest
      else ValidateInput (tr_Input r))"

definition sameTurnRequest :: "TurnRequest \<Rightarrow> TurnRequest \<Rightarrow> bool" where
  "sameTurnRequest left right \<longleftrightarrow> left\<lparr>tr_Admission := []\<rparr> = right\<lparr>tr_Admission := []\<rparr>"

text \<open>A copy of a result has the public form of its interactions and no contents of files.\<close>

definition cloneTurnResult :: "TurnResult \<Rightarrow> TurnResult" where
  "cloneTurnResult r = r\<lparr>ts_Files := map file_metadata (ts_Files r), ts_Interactions := map Clone (ts_Interactions r), ts_RuntimeFiles := []\<rparr>"

subsection \<open>Admission\<close>

definition newActiveTurn :: "TurnRequest \<Rightarrow> activeTurn" where
  "newActiveTurn request = \<lparr>tn_agentID = [], tn_structuredUserInput = None, tn_request = request, tn_cancelled = False, tn_done = False,
     tn_runtime = False, tn_sequence = 0, tn_events = [], tn_result = zero_result TurnFailed\<rparr>"

definition add_turn :: "conversationIdentity \<Rightarrow> TurnRequest \<Rightarrow> Engine \<Rightarrow> Engine" where
  "add_turn i request e = e\<lparr>en_turns := en_turns e @ [newActiveTurn request], en_active := mput i (length (en_turns e)) (en_active e)\<rparr>"

definition add_control :: "conversationIdentity \<Rightarrow> Engine \<Rightarrow> Engine" where
  "add_control i e = e\<lparr>en_controlHeap := en_controlHeap e @ [False], en_controls := mput i (length (en_controlHeap e)) (en_controls e)\<rparr>"

text \<open>What is known of the turn's identifier: it is completed, it runs, it was used for another request, or nothing.\<close>

datatype known_turn = Unknown | Replay completedTurn | Existing nat | Misused

definition preflightTurn :: "conversationIdentity \<Rightarrow> TurnRequest \<Rightarrow> Engine \<Rightarrow> known_turn" where
  "preflightTurn i request e =
     (case mget (en_completed e) (i, tr_ID request) of
        Some completed \<Rightarrow> if \<not> sameTurnRequest (ct_request completed) request then Misused else Replay completed
      | None \<Rightarrow>
          (case mget (en_active e) i of
             None \<Rightarrow> Unknown
           | Some a \<Rightarrow>
               if tr_ID (tn_request (en_turns e ! a)) \<noteq> tr_ID request then Unknown
               else if \<not> sameTurnRequest (tn_request (en_turns e ! a)) request then Misused
               else Existing a))"

text \<open>
  One round of the loop of \<open>admit\<close>, under the lock: the turn is known, or it is admitted, or the caller
  is refused, or it waits for the end of a turn or of a control operation, or it supersedes a turn under
  a new control operation. For another policy the source would keep the lock; \<open>Run\<close> does not let one in.
\<close>

datatype channel = TurnDone nat | ControlDone nat

datatype admission = Known known_turn | Admitted nat | Busy | WaitFor channel | Supersede nat nat | NoPolicy

definition admit_round :: "conversationIdentity \<Rightarrow> TurnRequest \<Rightarrow> Engine \<Rightarrow> admission \<times> Engine" where
  "admit_round i request e =
     (case preflightTurn i request e of
        Unknown \<Rightarrow>
          (case (mget (en_controls e) i, mget (en_active e) i) of
             (None, None) \<Rightarrow> (Admitted (length (en_turns e)), add_turn i request e)
           | (control, current) \<Rightarrow>
               if tr_Admission request = AdmissionRejectIfBusy then (Busy, e)
               else if tr_Admission request = AdmissionWait then
                 (case (control, current) of
                    (Some k, _) \<Rightarrow> (WaitFor (ControlDone k), e)
                  | (None, Some a) \<Rightarrow> (WaitFor (TurnDone a), e)
                  | (None, None) \<Rightarrow> (NoPolicy, e))
               else if tr_Admission request = AdmissionSupersede then
                 (case (control, current) of
                    (Some k, _) \<Rightarrow> (WaitFor (ControlDone k), e)
                  | (None, Some a) \<Rightarrow> (Supersede (length (en_controlHeap e)) a, cancel_turn a (add_control i e))
                  | (None, None) \<Rightarrow> (NoPolicy, e))
               else (NoPolicy, e))
      | known \<Rightarrow> (Known known, e))"

definition closed :: "channel \<Rightarrow> Engine \<Rightarrow> bool" where
  "closed ch e = (case ch of TurnDone a \<Rightarrow> tn_done (en_turns e ! a) | ControlDone k \<Rightarrow> en_controlHeap e ! k)"

definition endControl :: "conversationIdentity \<Rightarrow> nat \<Rightarrow> Engine \<Rightarrow> Engine" where
  "endControl i k e =
     (if mget (en_controls e) i = Some k then
        e\<lparr>en_controls := mdel i (en_controls e), en_controlHeap := (en_controlHeap e)[k := True]\<rparr>
      else e)"

text \<open>The result is the address of the turn, if the control operation could be turned into it.\<close>

definition promoteControl :: "conversationIdentity \<Rightarrow> nat \<Rightarrow> TurnRequest \<Rightarrow> Engine \<Rightarrow> nat option \<times> Engine" where
  "promoteControl i k request e =
     (if mget (en_controls e) i \<noteq> Some k \<or> mget (en_active e) i \<noteq> None then (None, e)
      else
        (Some (length (en_turns e)),
         (add_turn i request e)\<lparr>en_controls := mdel i (en_controls e), en_controlHeap := (en_controlHeap e)[k := True]\<rparr>))"

definition beginControl :: "conversationIdentity \<Rightarrow> bool \<Rightarrow> Engine \<Rightarrow> (nat \<times> nat option) option \<times> Engine" where
  "beginControl i cancelActive e =
     (if mget (en_controls e) i \<noteq> None then (None, e)
      else
        let active = mget (en_active e) i; e' = add_control i e in
        (Some (length (en_controlHeap e), active),
         case active of Some a \<Rightarrow> if cancelActive then cancel_turn a e' else e' | None \<Rightarrow> e'))"

subsection \<open>Events and completion\<close>

definition setRuntime :: "conversationIdentity \<Rightarrow> nat \<Rightarrow> Engine \<Rightarrow> Engine" where
  "setRuntime i a e =
     (if mget (en_active e) i = Some a then set_turn a ((en_turns e ! a)\<lparr>tn_runtime := True\<rparr>) e else e)"

text \<open>The event with its number and, for a request for an interaction, the trimmed identifier of that.\<close>

definition stamped :: "activeTurn \<Rightarrow> TurnEvent \<Rightarrow> TurnEvent" where
  "stamped t event =
     (let event = event\<lparr>te_TurnID := tr_ID (tn_request t), te_Sequence := Suc (tn_sequence t)\<rparr> in
      case te_Interaction event of
        None \<Rightarrow> event
      | Some q \<Rightarrow> if TrimSpace (iq_ID q) = [] then event else event\<lparr>te_Interaction := Some (q\<lparr>iq_ID := TrimSpace (iq_ID q)\<rparr>)\<rparr>)"

definition structured_input :: "TurnEvent \<Rightarrow> RequestUserInputArgs option" where
  "structured_input event =
     (case te_Output event of
        None \<Rightarrow> None
      | Some item \<Rightarrow>
          if oi_Kind item = OutputItemRequestUserInput then
            (case oi_Payload item of UserInputArgs args \<Rightarrow> Some args | OtherOutput _ \<Rightarrow> None)
          else None)"

definition observe_event :: "activeTurn \<Rightarrow> TurnEvent \<Rightarrow> time \<Rightarrow> IaCoordinator \<Rightarrow> IaCoordinator" where
  "observe_event t event now c =
     (let key = tr_ConversationKey (tn_request t);
          c = (case te_Activity event of
                 None \<Rightarrow> c
               | Some a \<Rightarrow> Observe (tn_agentID t) key (Some (au_ID a, au_Payload a)) now c) in
      case te_Interaction event of
        None \<Rightarrow> c
      | Some q \<Rightarrow>
          if TrimSpace (iq_ID q) = [] then c
          else Register (tn_agentID t) key (tr_ID (tn_request t)) (q\<lparr>iq_ID := TrimSpace (iq_ID q)\<rparr>) True False now c)"

text \<open>\<open>recordAndEmit\<close>: the recorded event is what the sink gets.\<close>

definition recordAndEmit :: "time \<Rightarrow> nat \<Rightarrow> TurnEvent \<Rightarrow> Engine \<Rightarrow> TurnEvent \<times> Engine" where
  "recordAndEmit now a event e =
     (let t = en_turns e ! a;
          event' = stamped t event;
          t' = t\<lparr>tn_sequence := Suc (tn_sequence t), tn_events := tn_events t @ [event'],
            tn_structuredUserInput := (case structured_input event of None \<Rightarrow> tn_structuredUserInput t | Some args \<Rightarrow> Some args)\<rparr> in
      (event', set_turn a t' (e\<lparr>en_interactions := observe_event t event now (en_interactions e)\<rparr>)))"

definition evict :: "Engine \<Rightarrow> Engine" where
  "evict e =
     (if length (en_completedOrder e) > maxCompletedTurns then
        case en_completedOrder e of
          [] \<Rightarrow> e
        | oldest # rest \<Rightarrow>
            (case oldest of
               ((agentID, key), turnID) \<Rightarrow>
                 e\<lparr>en_completedOrder := rest, en_completed := mdel oldest (en_completed e),
                   en_files := DeleteTurn agentID key turnID (en_files e)\<rparr>)
      else e)"

definition complete :: "conversationIdentity \<Rightarrow> nat \<Rightarrow> TurnResult \<Rightarrow> Engine \<Rightarrow> Engine" where
  "complete i a result e =
     (let t = en_turns e ! a;
          key = (i, tr_ID (tn_request t));
          e = set_turn a (t\<lparr>tn_result := cloneTurnResult result, tn_done := True\<rparr>) e;
          e = (if mget (en_active e) i = Some a then e\<lparr>en_active := mdel i (en_active e)\<rparr> else e) in
      if ts_Dispatched result then
        evict (e\<lparr>en_completed := mput key \<lparr>ct_request = tn_request t, ct_events = tn_events t, ct_result = cloneTurnResult result\<rparr> (en_completed e),
                 en_completedOrder := en_completedOrder e @ [key]\<rparr>)
      else e)"

text \<open>\<open>RuntimeEventUserInputResolved\<close> is the kind of the event.\<close>

definition RuntimeEventUserInputResolved :: string where "RuntimeEventUserInputResolved = ''user_input_resolved''"

definition detached_event :: "activeTurn \<Rightarrow> InteractionRequest \<Rightarrow> TurnEvent" where
  "detached_event t q =
     zero_turn_event\<lparr>te_Kind := TurnEventActivityUpdate, te_TurnID := tr_ID (tn_request t), te_Sequence := Suc (tn_sequence t),
       te_Activity := Some \<lparr>au_ID = iq_ID q, au_Kind = RuntimeEventUserInputResolved, au_Title = [],
         au_Status = (case iq_Payload q of UserInputPayload s \<Rightarrow> us_Status s | _ \<Rightarrow> []), au_Payload = iq_Payload q\<rparr>\<rparr>"

definition emitDetached :: "conversationIdentity \<Rightarrow> nat \<Rightarrow> InteractionRequest \<Rightarrow> Engine \<Rightarrow> TurnEvent \<times> Engine" where
  "emitDetached i a q e =
     (let t = en_turns e ! a;
          event = detached_event t q;
          key = (i, tr_ID (tn_request t));
          e = set_turn a (t\<lparr>tn_sequence := Suc (tn_sequence t)\<rparr>) e in
      (event,
       case mget (en_completed e) key of
         None \<Rightarrow> e
       | Some c \<Rightarrow> e\<lparr>en_completed := mput key (c\<lparr>ct_events := ct_events c @ [event]\<rparr>) (en_completed e)\<rparr>))"

definition interruptAgent :: "string \<Rightarrow> time \<Rightarrow> Engine \<Rightarrow> InteractionRequest list \<times> Engine" where
  "interruptAgent agentID now e =
     (let e = fold (\<lambda>((agent, _), a) e. if canonicalAgentID agent = agentID then cancel_turn a e else e) (en_active e) e in
      case Interrupt agentID [] [] True now (en_interactions e) of (ns, c) \<Rightarrow> (ns, e\<lparr>en_interactions := c\<rparr>))"

subsection \<open>The interactions of a conversation\<close>

text \<open>
  What callers ask a conversation about its interactions is checked and handed to the coordinator.
  \<open>resolve\<close> is \<^const>\<open>IaResolve\<close> with the answers of its surroundings.
\<close>

definition PendingInteractions :: "bool \<Rightarrow> string \<Rightarrow> string \<Rightarrow> time \<Rightarrow> (Engine, ia_error, InteractionRequest list) sm" where
  "PendingInteractions ctxDone agentID key now e =
     (if ctxDone then (Inl ContextEnded, e)
      else if agentID = [] \<or> key = [] then (Inl (TurnError ErrorInvalidRequest), e)
      else case Pending agentID key now (en_interactions e) of (qs, c) \<Rightarrow> (Inr qs, e\<lparr>en_interactions := c\<rparr>))"

definition GetInteraction :: "bool \<Rightarrow> string \<Rightarrow> string \<Rightarrow> string \<Rightarrow> time \<Rightarrow> (Engine, ia_error, InteractionRequest) sm" where
  "GetInteraction ctxDone agentID key i now e =
     (if ctxDone then (Inl ContextEnded, e)
      else if agentID = [] \<or> key = [] \<or> TrimSpace i = [] then (Inl (TurnError ErrorInvalidRequest), e)
      else case IaGet agentID key i now (en_interactions e) of (r, c) \<Rightarrow> (r, e\<lparr>en_interactions := c\<rparr>))"

definition ConversationResolve ::
  "(InteractionResolution \<Rightarrow> IaCoordinator \<Rightarrow> ia_error option \<times> InteractionRequest list \<times> IaCoordinator) \<Rightarrow>
     string \<Rightarrow> InteractionResolution \<Rightarrow> Engine \<Rightarrow> ia_error option \<times> Engine" where
  "ConversationResolve resolve agentID resolution e =
     (let r = resolution\<lparr>irs_ConversationKey := TrimSpace (irs_ConversationKey resolution),
            irs_InteractionID := TrimSpace (irs_InteractionID resolution), irs_ResponderID := TrimSpace (irs_ResponderID resolution)\<rparr> in
      if agentID = [] \<or> irs_ConversationKey r = [] \<or> irs_InteractionID r = [] then (Some (TurnError ErrorInvalidRequest), e)
      else case resolve r (en_interactions e) of (err, _, c) \<Rightarrow> (err, e\<lparr>en_interactions := c\<rparr>))"

end
