(* ===== verification/EngineRun.thy ===== *)
theory EngineRun
  imports Engine
begin

section \<open>Calls of the engine (\<open>conversations.Run\<close>, \<open>Cancel\<close>, \<open>Reset\<close>)\<close>

text \<open>
  A call is in a phase; \<open>phase_step\<close> is the work up to the next one, as a function of what the environment
  answers meanwhile, and \<^const>\<open>None\<close> while the call has to wait. Where a \<open>select\<close> may take the end of the
  context or a closed channel, the environment says that the context was taken.
\<close>

subsection \<open>Phases\<close>

text \<open>
  A job is what a call of \<open>Run\<close> carries along: the request, the request with resolved files for the
  runtime, and the snapshots whose leases it releases when it returns.
\<close>

record job =
  jb_agentID :: string
  jb_request :: TurnRequest
  jb_runtimeRequest :: TurnRequest
  jb_leases :: "nat list"

datatype phase =
    Start job
  | Resolving job
  | Admitting job
  | Waiting job channel
  | Superseding job nat nat
  | Promoting job nat
  | Preparing job nat
  | Acquiring job nat
  | Generating job nat
  | Executing job nat
  | Settling job nat TurnResult
  | Ending job nat TurnResult
  | Following job nat
  | Finished TurnResult "TurnEvent list"
  | CancelStart conversationIdentity string
  | CancelLook conversationIdentity string
  | CancelWaiting nat
  | ResetStart conversationIdentity
  | ResetWaiting conversationIdentity nat nat
  | ResetReady conversationIdentity nat
  | ResetRuntime conversationIdentity nat
  | Ended "ErrorCode option"

text \<open>
  What the environment answers in a step: whether the context has ended, the clock, whether the agent is
  known and archived (\<^const>\<open>None\<close> if it cannot be read), whether the lifecycle of the agent refuses a
  generation of media, the error of resolving the runtime, the error of the generation, the result of
  the runtime, the error of resetting the runtime, the random part of an identifier, and the event that
  the sink is the first to refuse.
\<close>

record step_env =
  sx_ctxDone :: bool
  sx_now :: time
  sx_archived :: "bool option"
  sx_refused :: bool
  sx_runtimeError :: "ErrorCode option"
  sx_mediaError :: bool
  sx_result :: TurnResult
  sx_resetError :: "ErrorCode option"
  sx_token :: string
  sx_sinkFails :: "nat option"

definition job_conv :: "job \<Rightarrow> conversationIdentity" where
  "job_conv j = (jb_agentID j, tr_ConversationKey (jb_request j))"

definition new_job :: "string \<Rightarrow> TurnRequest \<Rightarrow> job" where
  "new_job agentID request = \<lparr>jb_agentID = TrimSpace agentID, jb_request = request, jb_runtimeRequest = request, jb_leases = []\<rparr>"

subsection \<open>Parts of \<open>Run\<close>\<close>

definition release_all :: "nat list \<Rightarrow> FileStore \<Rightarrow> FileStore" where
  "release_all leases fs = fold snapRelease leases fs"

text \<open>\<open>resolveInputFiles\<close>; a part of the kind of a file has one, since the input was validated.\<close>

fun resolve_parts :: "string \<Rightarrow> InputPart list \<Rightarrow> InputPart list \<Rightarrow> nat list \<Rightarrow> FileStore \<Rightarrow> (ErrorCode + InputPart list \<times> nat list) \<times> FileStore" where
  "resolve_parts agentID [] out leases fs = (Inr (out, leases), fs)"
| "resolve_parts agentID (part # parts) out leases fs =
     (if ip_Kind part \<noteq> InputPartFile then resolve_parts agentID parts (out @ [part]) leases fs
      else case ip_File part of
        None \<Rightarrow> resolve_parts agentID parts (out @ [part]) leases fs
      | Some f \<Rightarrow>
          (case fileResolve agentID (if_ID f) fs of
             (Inl e, fs) \<Rightarrow> (Inl e, release_all leases fs)
           | (Inr (file, a), fs) \<Rightarrow>
               resolve_parts agentID parts (out @ [part\<lparr>ip_File := Some (f\<lparr>if_Resolved := Some file\<rparr>)\<rparr>]) (leases @ [a]) fs))"

definition resolveInputFiles :: "string \<Rightarrow> TurnRequest \<Rightarrow> FileStore \<Rightarrow> (ErrorCode + TurnRequest \<times> nat list) \<times> FileStore" where
  "resolveInputFiles agentID request fs =
     (case resolve_parts agentID (tr_Input request) [] [] fs of
        (Inl e, fs) \<Rightarrow> (Inl e, fs)
      | (Inr (parts, leases), fs) \<Rightarrow> (Inr (request\<lparr>tr_Input := parts\<rparr>, leases), fs))"

definition guidance :: string where
  "guidance = ''Question forms (request_user_input) are disabled for this turn. If you need clarification, ask in your reply and wait for the user's next message.''"

text \<open>The request that the runtime gets.\<close>

definition runtime_input :: "TurnRequest \<Rightarrow> TurnRequest" where
  "runtime_input r =
     (if tr_Interaction r = InteractionTextOnly then
        r\<lparr>tr_Input := \<lparr>ip_Kind = InputPartText, ip_Text = guidance, ip_File = None, ip_WorkspaceFile = None\<rparr> # tr_Input r\<rparr>
      else r)"

definition replayEvents :: "nat option \<Rightarrow> TurnEvent list \<Rightarrow> TurnResult \<Rightarrow> TurnResult \<times> TurnEvent list" where
  "replayEvents sinkFails events result =
     (case sinkFails of
        Some n \<Rightarrow>
          if n < length events then ((failedResult ErrorRuntimeFailed)\<lparr>ts_Dispatched := ts_Dispatched result\<rparr>, take n events)
          else (cloneTurnResult result, events)
      | None \<Rightarrow> (cloneTurnResult result, events))"

text \<open>The return of a call, with the deferred release of its input files.\<close>

definition return_run :: "job \<Rightarrow> TurnResult \<times> TurnEvent list \<Rightarrow> Engine \<Rightarrow> phase \<times> Engine" where
  "return_run j out e = (Finished (fst out) (snd out), e\<lparr>en_files := release_all (jb_leases j) (en_files e)\<rparr>)"

text \<open>The files of a result: those of a turn that failed are cleaned up, the others are stored.\<close>

definition settle_files :: "job \<Rightarrow> TurnResult \<Rightarrow> FileStore \<Rightarrow> TurnResult \<times> FileStore" where
  "settle_files j result fs =
     (if ts_Status result \<noteq> TurnSucceeded then
        (result\<lparr>ts_Files := [], ts_RuntimeFiles := []\<rparr>, cleanup_files (ts_RuntimeFiles result) fs)
      else if ts_RuntimeFiles result \<noteq> [] then
        (case RegisterTurnFiles (jb_agentID j) (tr_ConversationKey (jb_request j)) (tr_ID (jb_request j)) (ts_RuntimeFiles result) fs of
           (Inl err, fs) \<Rightarrow> (result\<lparr>ts_Status := TurnFailed, ts_Output := [], ts_Files := [], ts_Error := Some err, ts_RuntimeFiles := []\<rparr>, fs)
         | (Inr files, fs) \<Rightarrow> (result\<lparr>ts_Files := files, ts_RuntimeFiles := []\<rparr>, fs))
      else (result, fs))"

text \<open>The interactions of a turn that ends, and the questions it leaves for the user.\<close>

definition settle_interactions :: "step_env \<Rightarrow> job \<Rightarrow> nat \<Rightarrow> TurnResult \<Rightarrow> Engine \<Rightarrow> TurnResult \<times> Engine" where
  "settle_interactions env j a result e =
     (let key = tr_ConversationKey (jb_request j); turnID = tr_ID (jb_request j);
          policy = tr_Interaction (jb_request j);
          c = snd (if ts_Status result = TurnSucceeded then CompleteTurn (jb_agentID j) key turnID (sx_now env) (en_interactions e)
                   else Interrupt (jb_agentID j) key turnID False (sx_now env) (en_interactions e)) in
      case tn_structuredUserInput (en_turns e ! a) of
        Some args \<Rightarrow>
          if ts_Status result = TurnSucceeded \<and> policy_for policy InteractionUserInput = InteractionResolve then
            (case CreateDetached (jb_agentID j) key turnID args policy True (sx_token env) (sx_now env) c of
               (Inl _, c) \<Rightarrow> ((failedResult ErrorRuntimeFailed)\<lparr>ts_Dispatched := True\<rparr>, e\<lparr>en_interactions := c\<rparr>)
             | (Inr q, c) \<Rightarrow> (result\<lparr>ts_Interactions := [q]\<rparr>, e\<lparr>en_interactions := c\<rparr>))
          else (result, e\<lparr>en_interactions := c\<rparr>)
      | None \<Rightarrow> (result, e\<lparr>en_interactions := c\<rparr>))"

subsection \<open>The steps of a call\<close>

definition answer_known :: "step_env \<Rightarrow> job \<Rightarrow> known_turn \<Rightarrow> Engine \<Rightarrow> phase \<times> Engine" where
  "answer_known env j known e =
     (case known of
        Unknown \<Rightarrow> (Resolving j, e)
      | Replay completed \<Rightarrow> return_run j (replayEvents (sx_sinkFails env) (ct_events completed) (ct_result completed)) e
      | Existing a \<Rightarrow> (Following j a, e)
      | Misused \<Rightarrow> return_run j (failedResult ErrorInvalidRequest, []) e)"

definition start_step :: "step_env \<Rightarrow> job \<Rightarrow> Engine \<Rightarrow> phase \<times> Engine" where
  "start_step env j e =
     (let r = normalize_request (jb_request j); j = j\<lparr>jb_request := r\<rparr> in
      case request_error (jb_agentID j) r of
        Some code \<Rightarrow> return_run j (failedResult code, []) e
      | None \<Rightarrow>
          if sx_ctxDone env then return_run j (resultFromContext, []) e
          else if sx_archived env = Some True then return_run j (failedResult ErrorAgentUnavailable, []) e
          else answer_known env j (preflightTurn (job_conv j) r e) e)"

definition resolve_step :: "job \<Rightarrow> Engine \<Rightarrow> phase \<times> Engine" where
  "resolve_step j e =
     (case resolveInputFiles (jb_agentID j) (jb_request j) (en_files e) of
        (Inl code, fs) \<Rightarrow> return_run j (failedResult code, []) (e\<lparr>en_files := fs\<rparr>)
      | (Inr (r, leases), fs) \<Rightarrow> (Admitting (j\<lparr>jb_runtimeRequest := r, jb_leases := leases\<rparr>), e\<lparr>en_files := fs\<rparr>))"

definition admit_step :: "step_env \<Rightarrow> job \<Rightarrow> Engine \<Rightarrow> (phase \<times> Engine) option" where
  "admit_step env j e =
     (case admit_round (job_conv j) (jb_request j) e of
        (Known known, e) \<Rightarrow> Some (answer_known env j known e)
      | (Admitted a, e) \<Rightarrow> Some (Preparing j a, e)
      | (Busy, e) \<Rightarrow> Some (return_run j (failedResult ErrorConversationBusy, []) e)
      | (WaitFor ch, e) \<Rightarrow> Some (Waiting j ch, e)
      | (Supersede k a, e) \<Rightarrow> Some (Superseding j k a, e)
      | (NoPolicy, e) \<Rightarrow> None)"

text \<open>\<open>waitForCompletion\<close> on a channel, with what follows the end of the context and the end of the wait.\<close>

definition wait_step :: "step_env \<Rightarrow> channel \<Rightarrow> (phase \<times> Engine) \<Rightarrow> (phase \<times> Engine) \<Rightarrow> Engine \<Rightarrow> (phase \<times> Engine) option" where
  "wait_step env ch gone onwards e =
     (if sx_ctxDone env then Some gone else if closed ch e then Some onwards else None)"

definition prepare_step :: "step_env \<Rightarrow> job \<Rightarrow> nat \<Rightarrow> Engine \<Rightarrow> phase \<times> Engine" where
  "prepare_step env j a e =
     (let e = set_turn a ((en_turns e ! a)\<lparr>tn_agentID := jb_agentID j\<rparr>) e in
      if tr_ImageGeneration (jb_request j) \<noteq> None \<or> tr_VideoGeneration (jb_request j) \<noteq> None then
        (if sx_refused env then (Ending j a (failedResult ErrorAgentUnavailable), e) else (Generating j a, e))
      else
        (case BeginTurn (jb_agentID j) (jb_request j) (sx_now env) (en_interactions e) of
           (Some code, _, c) \<Rightarrow> (Ending j a (failedResult code), e\<lparr>en_interactions := c\<rparr>)
         | (None, _, c) \<Rightarrow> (Acquiring j a, e\<lparr>en_interactions := c\<rparr>)))"

definition end_step :: "job \<Rightarrow> nat \<Rightarrow> TurnResult \<Rightarrow> Engine \<Rightarrow> phase \<times> Engine" where
  "end_step j a result e = return_run j (result, []) (complete (job_conv j) a result (cancel_turn a e))"

definition cancel_look :: "conversationIdentity \<Rightarrow> string \<Rightarrow> Engine \<Rightarrow> phase \<times> Engine" where
  "cancel_look i turnID e =
     (case mget (en_active e) i of
        None \<Rightarrow> (Ended None, e)
      | Some a \<Rightarrow>
          if tr_ID (tn_request (en_turns e ! a)) \<noteq> turnID then (Ended None, e)
          else (CancelWaiting a, cancel_turn a e))"

definition reset_start :: "conversationIdentity \<Rightarrow> Engine \<Rightarrow> phase \<times> Engine" where
  "reset_start i e =
     (if fst i = [] \<or> snd i = [] then (Ended (Some ErrorInvalidRequest), e)
      else case beginControl i True e of
        (None, e) \<Rightarrow> (Ended (Some ErrorConversationBusy), e)
      | (Some (k, None), e) \<Rightarrow> (ResetReady i k, e)
      | (Some (k, Some a), e) \<Rightarrow> (ResetWaiting i k a, e))"

fun phase_step :: "step_env \<Rightarrow> phase \<Rightarrow> Engine \<Rightarrow> (phase \<times> Engine) option" where
  "phase_step env (Start j) e = Some (start_step env j e)"
| "phase_step env (Resolving j) e = Some (resolve_step j e)"
| "phase_step env (Admitting j) e = admit_step env j e"
| "phase_step env (Waiting j ch) e = wait_step env ch (return_run j (resultFromContext, []) e) (Admitting j, e) e"
| "phase_step env (Superseding j k a) e =
     wait_step env (TurnDone a) (return_run j (resultFromContext, []) (endControl (job_conv j) k e)) (Promoting j k, e) e"
| "phase_step env (Promoting j k) e =
     (case promoteControl (job_conv j) k (jb_request j) e of
        (Some a, e) \<Rightarrow> Some (Preparing j a, e)
      | (None, e) \<Rightarrow> Some (return_run j (failedResult ErrorConversationBusy, []) e))"
| "phase_step env (Preparing j a) e = Some (prepare_step env j a e)"
| "phase_step env (Acquiring j a) e =
     (case sx_runtimeError env of
        Some code \<Rightarrow> Some (Ending j a (failedResult code), e)
      | None \<Rightarrow> Some (Executing (j\<lparr>jb_runtimeRequest := runtime_input (jb_runtimeRequest j)\<rparr>) a, setRuntime (job_conv j) a e))"
| "phase_step env (Generating j a) e =
     Some (Ending j a (if sx_mediaError env then failedResult ErrorRuntimeFailed else (zero_result TurnSucceeded)\<lparr>ts_Dispatched := True\<rparr>), e)"
| "phase_step env (Executing j a) e =
     (case settle_files j (sx_result env) (en_files e) of (result, fs) \<Rightarrow> Some (Settling j a result, e\<lparr>en_files := fs\<rparr>))"
| "phase_step env (Settling j a result) e =
     (case settle_interactions env j a result e of (result, e) \<Rightarrow> Some (Ending j a result, e))"
| "phase_step env (Ending j a result) e = Some (end_step j a result e)"
| "phase_step env (Following j a) e =
     wait_step env (TurnDone a) (return_run j (resultFromContext, []) e)
       (return_run j (replayEvents (sx_sinkFails env) (tn_events (en_turns e ! a)) (tn_result (en_turns e ! a))) e) e"
| "phase_step env (Finished result events) e = None"
| "phase_step env (CancelStart (agentID, key) turnID) e =
     (let key = TrimSpace key; turnID = TrimSpace turnID in
      if agentID = [] \<or> key = [] \<or> turnID = [] then Some (Ended (Some ErrorInvalidRequest), e)
      else Some (CancelLook (agentID, key) turnID,
        e\<lparr>en_interactions := snd (Interrupt agentID key turnID True (sx_now env) (en_interactions e))\<rparr>))"
| "phase_step env (CancelLook i turnID) e = Some (cancel_look i turnID e)"
| "phase_step env (CancelWaiting a) e = wait_step env (TurnDone a) (Ended (Some ErrorCanceled), e) (Ended None, e) e"
| "phase_step env (ResetStart (agentID, key)) e = Some (reset_start (agentID, TrimSpace key) e)"
| "phase_step env (ResetWaiting i k a) e =
     wait_step env (TurnDone a) (Ended (Some ErrorCanceled), endControl i k e) (ResetReady i k, e) e"
| "phase_step env (ResetReady i k) e =
     (case sx_runtimeError env of
        Some code \<Rightarrow> Some (Ended (Some code), endControl i k e)
      | None \<Rightarrow> Some (ResetRuntime i k, e\<lparr>en_interactions := snd (Interrupt (fst i) (snd i) [] False (sx_now env) (en_interactions e))\<rparr>))"
| "phase_step env (ResetRuntime i k) e = Some (Ended (sx_resetError env), endControl i k e)"
| "phase_step env (Ended r) e = None"

subsection \<open>All callers\<close>

text \<open>
  The state of the system: the engine, the calls made so far, and the turns that were dispatched to a
  runtime, in the order of their completion. While a turn executes or generates media its runtime emits
  events; a detached question may be answered at any time; agents are interrupted; and the coordinator
  of interactions and the file store have other users.
\<close>

type_synonym engine_sys = "Engine \<times> phase list \<times> turnIdentity list"

fun dispatched :: "phase \<Rightarrow> turnIdentity list" where
  "dispatched (Ending j a result) = (if ts_Dispatched result then [(job_conv j, tr_ID (jb_request j))] else [])"
| "dispatched _ = []"

definition new_call :: "phase \<Rightarrow> bool" where
  "new_call p \<longleftrightarrow> (\<exists>agentID request. p = Start (new_job agentID request)) \<or> (\<exists>i turnID. p = CancelStart i turnID) \<or> (\<exists>i. p = ResetStart i)"

fun emitting :: "phase \<Rightarrow> nat option" where
  "emitting (Executing j a) = Some a"
| "emitting (Generating j a) = Some a"
| "emitting _ = None"

inductive engine_step :: "engine_sys \<Rightarrow> unit \<Rightarrow> engine_sys \<Rightarrow> bool" where
  engine_call: "new_call p \<Longrightarrow> engine_step (e, calls, log) () (e, calls @ [p], log)"
| engine_work: "n < length calls \<Longrightarrow> phase_step env (calls ! n) e = Some (p, e') \<Longrightarrow>
    engine_step (e, calls, log) () (e', calls[n := p], log @ dispatched (calls ! n))"
| engine_emit: "p \<in> set calls \<Longrightarrow> emitting p = Some a \<Longrightarrow> engine_step (e, calls, log) () (snd (recordAndEmit now a event e), calls, log)"
| engine_detached: "a < length (en_turns e) \<Longrightarrow> engine_step (e, calls, log) () (snd (emitDetached i a q e), calls, log)"
| engine_interrupt: "engine_step (e, calls, log) () (snd (interruptAgent agentID now e), calls, log)"
| engine_other: "engine_step (e, calls, log) () (e\<lparr>en_interactions := c, en_files := fs\<rparr>, calls, log)"

definition engine_init :: "engine_sys \<Rightarrow> bool" where
  "engine_init x \<longleftrightarrow> x = (NewEngine, [], [])"

end
