(* ===== verification/EngineInv.thy ===== *)
theory EngineInv
  imports EngineRun "HOL-Library.Multiset"
begin

section \<open>The invariant of the engine\<close>

text \<open>
  The running turns and the control operations are two registries of the same form: a map from
  conversations to addresses, the flags of the addresses that have ended, and the calls that hold the
  entries. The invariant says that both are in order, what each call knows of the conversation it waits
  for or works in, and that the retained results are those of the last dispatched turns.
\<close>

declare map_of_eq_Some_iff [simp del] Some_eq_map_of_iff [simp del]

subsection \<open>Registries\<close>

definition registry_ok :: "(conversationIdentity, nat) gomap \<Rightarrow> bool list \<Rightarrow> (conversationIdentity \<times> nat) multiset \<Rightarrow> bool" where
  "registry_ok m flags held \<longleftrightarrow> distinct (map fst m) \<and> distinct (map snd m) \<and> mset m = held \<and>
     (\<forall>a. a \<in> snd ` set m \<longleftrightarrow> a < length flags \<and> \<not> flags ! a)"

lemma mput_fresh: "mget m i = None \<Longrightarrow> mput i a m = m @ [(i, a)]"
  by (induction m) (auto split: if_splits)

lemma mset_mdel: "distinct (map fst m) \<Longrightarrow> (i, a) \<in> set m \<Longrightarrow> mset (mdel i m) = mset m - {#(i, a)#}"
proof (induction m)
  case (Cons x m)
  show ?case
  proof (cases "fst x = i")
    case True
    have "i \<notin> fst ` set m" using Cons.prems(1) True by simp
    moreover from this have "x = (i, a)" using Cons.prems(2) by force
    ultimately show ?thesis by (simp add: delete_id)
  next
    case False
    with Cons.prems have "(i, a) \<in> set m" "x \<noteq> (i, a)" by auto
    with Cons False show ?thesis by (cases x) simp
  qed
qed simp

lemma value_unique: "distinct (map snd m) \<Longrightarrow> (i, a) \<in> set m \<Longrightarrow> (j, a) \<in> set m \<Longrightarrow> i = j"
  by (induction m) force+

lemma registry_get: "registry_ok m flags held \<Longrightarrow> mget m i = Some a \<longleftrightarrow> (i, a) \<in># held"
  by (auto simp: registry_ok_def map_of_eq_Some_iff)

lemma registry_flag: "registry_ok m flags held \<Longrightarrow> mget m i = Some a \<Longrightarrow> a < length flags \<and> \<not> flags ! a"
  unfolding registry_ok_def by (metis image_eqI mget_mem snd_conv)

lemma registry_open: "registry_ok m flags held \<Longrightarrow> a < length flags \<Longrightarrow> \<not> flags ! a \<Longrightarrow> \<exists>i. (i, a) \<in># held"
  unfolding registry_ok_def by (metis imageE prod.collapse set_mset_mset)

lemma registry_same: "registry_ok m flags held \<Longrightarrow> mget m i = Some a \<Longrightarrow> mget m j = Some a \<Longrightarrow> i = j"
  unfolding registry_ok_def by (blast dest: mget_mem value_unique)

lemma registry_add:
  assumes "registry_ok m flags held" and "mget m i = None"
  shows "registry_ok (mput i (length flags) m) (flags @ [False]) (add_mset (i, length flags) held)"
proof -
  have "length flags \<notin> snd ` set m" using assms(1) unfolding registry_ok_def by auto
  moreover have "i \<notin> fst ` set m" using assms(2) by (simp add: mget_None_key)
  moreover have "a \<in> insert (length flags) (snd ` set m) \<longleftrightarrow> a < length (flags @ [False]) \<and> \<not> (flags @ [False]) ! a" for a
    using assms(1) unfolding registry_ok_def by (cases "a < length flags") (auto simp: nth_append)
  ultimately show ?thesis using assms unfolding registry_ok_def by (simp add: mput_fresh)
qed

lemma registry_remove:
  assumes "registry_ok m flags (add_mset (i, a) held)"
  shows "registry_ok (mdel i m) (flags[a := True]) held"
proof -
  have d: "distinct (map fst m)" "distinct (map snd m)" "mset m = add_mset (i, a) held" using assms unfolding registry_ok_def by auto
  have mem: "(i, a) \<in> set m" using d(3) by (metis set_mset_mset union_single_eq_member)
  have "b \<in> snd ` set (mdel i m) \<longleftrightarrow> b \<in> snd ` set m \<and> b \<noteq> a" for b
  proof
    assume "b \<in> snd ` set (mdel i m)"
    then obtain j where j: "j \<noteq> i" "(j, b) \<in> set m" by (auto simp: mem_mdel)
    then show "b \<in> snd ` set m \<and> b \<noteq> a" using value_unique [OF d(2) mem, of j] by force
  next
    assume "b \<in> snd ` set m \<and> b \<noteq> a"
    then obtain j where j: "(j, b) \<in> set m" "b \<noteq> a" by auto
    then have "j \<noteq> i" using eq_key_imp_eq_value [OF d(1) mem] by blast
    with j(1) have "(j, b) \<in> set (mdel i m)" by (simp add: mem_mdel)
    then show "b \<in> snd ` set (mdel i m)" by (metis image_eqI snd_conv)
  qed
  moreover have "b \<in> snd ` set m \<and> b \<noteq> a \<longleftrightarrow> b < length (flags[a := True]) \<and> \<not> flags[a := True] ! b" for b
    using assms unfolding registry_ok_def by (cases "b = a") (auto simp: nth_list_update)
  moreover have "distinct (map snd (mdel i m))" using d(2) by (simp add: AList.delete_eq distinct_map_filter)
  ultimately show ?thesis using d mset_mdel [OF d(1) mem] unfolding registry_ok_def by simp
qed

lemma registry_other:
  assumes "registry_ok m flags (add_mset (i, a) held)" and "(j, b) \<in># held"
  shows "j \<noteq> i" "b \<noteq> a"
proof -
  have d: "distinct (map fst m)" "distinct (map snd m)" "mset m = add_mset (i, a) held" using assms unfolding registry_ok_def by auto
  have mem: "(i, a) \<in> set m" "(j, b) \<in> set m" using assms(2) d(3) by (metis set_mset_mset insert_iff set_mset_add_mset_insert)+
  have "distinct m" using d(1) by (simp add: distinct_map)
  then have "count (mset m) (i, a) \<le> 1" by (simp only: distinct_count_atmost_1) simp
  then have "(i, a) \<notin># held" by (simp add: d(3) not_in_iff)
  then have ne: "(j, b) \<noteq> (i, a)" using assms(2) by blast
  show "j \<noteq> i" using eq_key_imp_eq_value [OF d(1) mem(1), of b] mem(2) ne by blast
  show "b \<noteq> a" using value_unique [OF d(2) mem(1), of j] mem(2) ne by blast
qed

subsection \<open>Calls\<close>

fun owns :: "phase \<Rightarrow> (conversationIdentity \<times> nat) list" where
  "owns (Preparing j a) = [(job_conv j, a)]"
| "owns (Acquiring j a) = [(job_conv j, a)]"
| "owns (Generating j a) = [(job_conv j, a)]"
| "owns (Executing j a) = [(job_conv j, a)]"
| "owns (Settling j a r) = [(job_conv j, a)]"
| "owns (Ending j a r) = [(job_conv j, a)]"
| "owns _ = []"

fun owner_job :: "phase \<Rightarrow> job" where
  "owner_job (Preparing j a) = j"
| "owner_job (Acquiring j a) = j"
| "owner_job (Generating j a) = j"
| "owner_job (Executing j a) = j"
| "owner_job (Settling j a r) = j"
| "owner_job (Ending j a r) = j"
| "owner_job _ = undefined"

fun holds :: "phase \<Rightarrow> (conversationIdentity \<times> nat) list" where
  "holds (Superseding j k a) = [(job_conv j, k)]"
| "holds (Promoting j k) = [(job_conv j, k)]"
| "holds (ResetWaiting i k a) = [(i, k)]"
| "holds (ResetReady i k) = [(i, k)]"
| "holds (ResetRuntime i k) = [(i, k)]"
| "holds _ = []"

definition policy_ok :: "job \<Rightarrow> bool" where
  "policy_ok j \<longleftrightarrow> tr_Admission (jb_request j) \<in> {AdmissionRejectIfBusy, AdmissionWait, AdmissionSupersede}"

definition chan_ok :: "Engine \<Rightarrow> channel \<Rightarrow> bool" where
  "chan_ok e ch = (case ch of TurnDone a \<Rightarrow> a < length (en_turns e) | ControlDone k \<Rightarrow> k < length (en_controlHeap e))"

text \<open>A call that holds the control of a conversation waits for the turn that ran when it took it; no other one follows.\<close>

definition waits_for :: "Engine \<Rightarrow> conversationIdentity \<Rightarrow> nat \<Rightarrow> bool" where
  "waits_for e i a \<longleftrightarrow> a < length (en_turns e) \<and> (mget (en_active e) i = Some a \<or> mget (en_active e) i = None \<and> tn_done (en_turns e ! a))"

definition unseen :: "Engine \<Rightarrow> job \<Rightarrow> bool" where
  "unseen e j \<longleftrightarrow> (job_conv j, tr_ID (jb_request j)) \<notin> fst ` set (en_completed e)"

fun call_ok :: "Engine \<Rightarrow> phase \<Rightarrow> bool" where
  "call_ok e (Resolving j) = policy_ok j"
| "call_ok e (Admitting j) = policy_ok j"
| "call_ok e (Waiting j ch) = (policy_ok j \<and> chan_ok e ch)"
| "call_ok e (Superseding j k a) =
     (waits_for e (job_conv j) a \<and> tr_ID (tn_request (en_turns e ! a)) \<noteq> tr_ID (jb_request j) \<and> unseen e j)"
| "call_ok e (Promoting j k) = (mget (en_active e) (job_conv j) = None \<and> unseen e j)"
| "call_ok e (Following j a) = (a < length (en_turns e))"
| "call_ok e (CancelWaiting a) = (a < length (en_turns e))"
| "call_ok e (ResetWaiting i k a) = waits_for e i a"
| "call_ok e (ResetReady i k) = (mget (en_active e) i = None)"
| "call_ok e (ResetRuntime i k) = (mget (en_active e) i = None)"
| "call_ok e (Preparing j a) = (a < length (en_turns e) \<and> tn_request (en_turns e ! a) = jb_request j \<and> unseen e j)"
| "call_ok e (Acquiring j a) = (a < length (en_turns e) \<and> tn_request (en_turns e ! a) = jb_request j \<and> unseen e j)"
| "call_ok e (Generating j a) = (a < length (en_turns e) \<and> tn_request (en_turns e ! a) = jb_request j \<and> unseen e j)"
| "call_ok e (Executing j a) = (a < length (en_turns e) \<and> tn_request (en_turns e ! a) = jb_request j \<and> unseen e j)"
| "call_ok e (Settling j a r) = (a < length (en_turns e) \<and> tn_request (en_turns e ! a) = jb_request j \<and> unseen e j)"
| "call_ok e (Ending j a r) = (a < length (en_turns e) \<and> tn_request (en_turns e ! a) = jb_request j \<and> unseen e j)"
| "call_ok e _ = True"

definition held_by :: "(phase \<Rightarrow> 'a list) \<Rightarrow> phase list \<Rightarrow> 'a multiset" where
  "held_by f calls = mset (concat (map f calls))"

lemma held_by_simps [simp]:
  "held_by f [] = {#}" "held_by f (p # ps) = mset (f p) + held_by f ps" "held_by f (ps @ qs) = held_by f ps + held_by f qs"
  by (simp_all add: held_by_def)

lemma held_by_mem: "x \<in># held_by f calls \<longleftrightarrow> (\<exists>p \<in> set calls. x \<in> set (f p))"
  by (auto simp: held_by_def)

definition turns_ok :: "Engine \<Rightarrow> phase list \<Rightarrow> bool" where
  "turns_ok e calls \<longleftrightarrow> registry_ok (en_active e) (map tn_done (en_turns e)) (held_by owns calls)"

definition controls_ok :: "Engine \<Rightarrow> phase list \<Rightarrow> bool" where
  "controls_ok e calls \<longleftrightarrow> registry_ok (en_controls e) (en_controlHeap e) (held_by holds calls)"

text \<open>The retained turns are the last dispatched ones, and none of them is dispatched again.\<close>

definition cache_ok :: "Engine \<Rightarrow> turnIdentity list \<Rightarrow> bool" where
  "cache_ok e log \<longleftrightarrow> en_completedOrder e = drop (length log - maxCompletedTurns) log \<and>
     fst ` set (en_completed e) = set (en_completedOrder e) \<and> distinct (map fst (en_completed e)) \<and>
     distinct (en_completedOrder e) \<and> (\<forall>m n. m < n \<and> n < length log \<and> log ! m = log ! n \<longrightarrow> m + maxCompletedTurns < n)"

fun engine_inv :: "engine_sys \<Rightarrow> bool" where
  "engine_inv (e, calls, log) \<longleftrightarrow> turns_ok e calls \<and> controls_ok e calls \<and> cache_ok e log \<and> (\<forall>p \<in> set calls. call_ok e p)"

subsection \<open>What the invariant depends on\<close>

definition frame where
  "frame e = (en_active e, en_controls e, en_completedOrder e, map fst (en_completed e), en_controlHeap e,
     map (\<lambda>t. (tn_done t, tn_request t)) (en_turns e))"

lemma frame_fields:
  assumes "frame e' = frame e"
  shows "en_active e' = en_active e" "en_controls e' = en_controls e" "en_completedOrder e' = en_completedOrder e"
    "map fst (en_completed e') = map fst (en_completed e)" "fst ` set (en_completed e') = fst ` set (en_completed e)"
    "en_controlHeap e' = en_controlHeap e" "length (en_turns e') = length (en_turns e)"
    "map tn_done (en_turns e') = map tn_done (en_turns e)"
    "a < length (en_turns e) \<Longrightarrow> tn_done (en_turns e' ! a) = tn_done (en_turns e ! a)"
    "a < length (en_turns e) \<Longrightarrow> tn_request (en_turns e' ! a) = tn_request (en_turns e ! a)"
proof -
  let ?f = "\<lambda>t. (tn_done t, tn_request t)"
  have m: "map ?f (en_turns e') = map ?f (en_turns e)" using assms by (simp add: frame_def)
  from arg_cong [OF this, of "map fst"] show "map tn_done (en_turns e') = map tn_done (en_turns e)" by (simp add: comp_def)
  from m show len: "length (en_turns e') = length (en_turns e)" by (rule map_eq_imp_length_eq)
  show "a < length (en_turns e) \<Longrightarrow> tn_done (en_turns e' ! a) = tn_done (en_turns e ! a)"
    "a < length (en_turns e) \<Longrightarrow> tn_request (en_turns e' ! a) = tn_request (en_turns e ! a)"
    using nth_map [of a "en_turns e" ?f] nth_map [of a "en_turns e'" ?f] m len by (metis prod.inject)+
qed (use assms in \<open>simp_all add: frame_def flip: set_map\<close>)

lemma call_ok_frame:
  assumes "frame e' = frame e"
  shows "call_ok e' p = call_ok e p"
  by (cases p) (auto simp: frame_fields [OF assms] waits_for_def unseen_def chan_ok_def split: channel.splits)

lemma engine_inv_frame:
  assumes "frame e' = frame e"
  shows "engine_inv (e', calls, log) = engine_inv (e, calls, log)"
  by (simp add: turns_ok_def controls_ok_def cache_ok_def frame_fields [OF assms] call_ok_frame [OF assms])

lemma frame_set_turn:
  assumes "tn_done t = tn_done (en_turns e ! a)" and "tn_request t = tn_request (en_turns e ! a)"
  shows "frame (set_turn a t e) = frame e"
proof (cases "a < length (en_turns e)")
  case True
  with assms have "map (\<lambda>t. (tn_done t, tn_request t)) (en_turns e) ! a = (tn_done t, tn_request t)" by simp
  with True show ?thesis by (simp add: frame_def set_turn_def map_update list_update_same_conv)
qed (simp add: set_turn_def frame_def list_update_beyond)

lemma frame_cancel [simp]: "frame (cancel_turn a e) = frame e"
  by (simp add: cancel_turn_def frame_set_turn)

lemma frame_updates [simp]:
  "frame (e\<lparr>en_interactions := c\<rparr>) = frame e" "frame (e\<lparr>en_files := fs\<rparr>) = frame e"
  "frame (e\<lparr>en_interactions := c, en_files := fs\<rparr>) = frame e"
  by (simp_all add: frame_def)

lemma frame_setRuntime [simp]: "frame (setRuntime i a e) = frame e"
  by (simp add: setRuntime_def frame_set_turn)

lemma frame_recordAndEmit [simp]: "frame (snd (recordAndEmit now a event e)) = frame e"
  by (simp add: recordAndEmit_def Let_def frame_set_turn split: option.splits)

lemma map_fst_mput: "mget m k \<noteq> None \<Longrightarrow> map fst (mput k v m) = map fst m"
  by (induction m) (auto split: if_splits)

lemma frame_emitDetached [simp]: "frame (snd (emitDetached i a q e)) = frame e"
proof -
  have "frame (x\<lparr>en_completed := mput k v (en_completed x)\<rparr>) = frame x" if "mget (en_completed x) k \<noteq> None" for x :: Engine and k v
    using map_fst_mput [OF that] by (simp add: frame_def)
  then show ?thesis by (simp add: emitDetached_def Let_def frame_set_turn split: option.splits)
qed

lemma frame_interruptAgent [simp]: "frame (snd (interruptAgent agentID now e)) = frame e"
proof -
  have "frame (fold (\<lambda>((agent, _), a) e. if canonicalAgentID agent = agentID then cancel_turn a e else e) xs e) = frame e" for xs :: "((string \<times> string) \<times> nat) list"
    by (induction xs arbitrary: e) (auto split: prod.splits)
  then show ?thesis by (simp add: interruptAgent_def Let_def split: prod.splits)
qed

end
