(* ===== verification/EngineProps.thy ===== *)
theory EngineProps
  imports EngineInv
begin

section \<open>Turns of conversations\<close>

text \<open>
  Every step of a call keeps the invariant of the engine. So a conversation has one turn at a time, a
  dispatched turn is not dispatched again while its result is retained, and calls never wait for each
  other in a circle.
\<close>

declare map_of_eq_Some_iff [simp del] Some_eq_map_of_iff [simp del]

subsection \<open>Steps of one call\<close>

lemma call_replace:
  assumes "engine_inv (e, xs @ p # ys, log)" and "frame e' = frame e"
    and "owns p' = owns p" and "holds p' = holds p" and "call_ok e p'"
  shows "engine_inv (e', xs @ p' # ys, log)"
  unfolding engine_inv_frame [OF assms(2)] using assms(1,3-5) by (simp add: turns_ok_def controls_ok_def)

lemma frame_add_turn: "frame e' = frame e \<Longrightarrow> frame (add_turn i r e') = frame (add_turn i r e)"
  using frame_fields(7) [of e' e] by (simp add: frame_def add_turn_def)

lemma frame_add_control: "frame e' = frame e \<Longrightarrow> frame (add_control i e') = frame (add_control i e)"
  by (simp add: frame_def add_control_def)

lemma nth_add_turn: "a < length (en_turns e) \<Longrightarrow> en_turns (add_turn i r e) ! a = en_turns e ! a"
  by (simp add: add_turn_def nth_append)

lemma add_turn_simps [simp]:
  "en_controls (add_turn i r e) = en_controls e" "en_controlHeap (add_turn i r e) = en_controlHeap e"
  "en_completed (add_turn i r e) = en_completed e" "en_completedOrder (add_turn i r e) = en_completedOrder e"
  "en_active (add_turn i r e) = mput i (length (en_turns e)) (en_active e)"
  "length (en_turns (add_turn i r e)) = Suc (length (en_turns e))"
  "en_turns (add_turn i r e) ! length (en_turns e) = newActiveTurn r"
  by (simp_all add: add_turn_def)

lemma call_ok_add_turn:
  assumes "call_ok e p" and "\<And>k. (i, k) \<notin> set (holds p)"
  shows "call_ok (add_turn i r e) p"
  using assms by (cases p) (auto simp: waits_for_def unseen_def chan_ok_def nth_add_turn less_Suc_eq split: channel.splits)

lemma inv_add_turn:
  assumes inv: "engine_inv (e, xs @ p # ys, log)" and free: "mget (en_active e) i = None" "mget (en_controls e) i = None"
    and p: "owns p = []" "holds p = []" and p': "owns p' = [(i, length (en_turns e))]" "holds p' = []"
    and ok: "call_ok (add_turn i r e) p'"
  shows "engine_inv (add_turn i r e, xs @ p' # ys, log)"
proof -
  have reg: "registry_ok (en_active e) (map tn_done (en_turns e)) (held_by owns (xs @ ys))"
      "registry_ok (en_controls e) (en_controlHeap e) (held_by holds (xs @ ys))"
    using inv p by (simp_all add: turns_ok_def controls_ok_def)
  have "call_ok (add_turn i r e) q" if q: "q \<in> set (xs @ ys)" for q
  proof (rule call_ok_add_turn)
    show "call_ok e q" using inv q by auto
    fix k
    show "(i, k) \<notin> set (holds q)"
      using free(2) q registry_get [OF reg(2), of i k] by (auto simp: held_by_mem)
  qed
  moreover have "map tn_done (en_turns (add_turn i r e)) = map tn_done (en_turns e) @ [False]"
    by (simp add: add_turn_def newActiveTurn_def)
  ultimately show ?thesis
    using inv ok p p' registry_add [OF reg(1) free(1)] by (auto simp: turns_ok_def controls_ok_def cache_ok_def)
qed

lemma call_ok_controls:
  "call_ok (e\<lparr>en_controls := m, en_controlHeap := h\<rparr>) p = call_ok e p" if "length h = length (en_controlHeap e)"
  using that by (cases p) (auto simp: waits_for_def unseen_def chan_ok_def split: channel.splits)

lemma inv_end_control:
  assumes inv: "engine_inv (e, xs @ p # ys, log)" and p: "owns p = []" "holds p = [(i, k)]" and p': "owns p' = []" "holds p' = []"
    and ok: "call_ok e p'"
  shows "engine_inv (endControl i k e, xs @ p' # ys, log)" "mget (en_controls (endControl i k e)) i = None"
proof -
  have reg: "registry_ok (en_controls e) (en_controlHeap e) (add_mset (i, k) (held_by holds (xs @ ys)))"
    using inv p by (simp add: controls_ok_def)
  have g: "mget (en_controls e) i = Some k" using registry_get [OF reg] by simp
  then have e': "endControl i k e = e\<lparr>en_controls := mdel i (en_controls e), en_controlHeap := (en_controlHeap e)[k := True]\<rparr>"
    by (simp add: endControl_def)
  then show "mget (en_controls (endControl i k e)) i = None" by simp
  have "cache_ok (endControl i k e) l = cache_ok e l" for l by (simp add: e' cache_ok_def)
  then show "engine_inv (endControl i k e, xs @ p' # ys, log)"
    using inv ok p p' registry_remove [OF reg] unfolding e'
    by (simp add: turns_ok_def controls_ok_def call_ok_controls)
qed

lemma call_ok_add_control: "call_ok e p \<Longrightarrow> call_ok (add_control i e) p"
  by (cases p) (auto simp: waits_for_def unseen_def chan_ok_def add_control_def split: channel.splits)

lemma inv_add_control:
  assumes inv: "engine_inv (e, xs @ p # ys, log)" and free: "mget (en_controls e) i = None"
    and p: "owns p = []" "holds p = []" and p': "owns p' = []" "holds p' = [(i, length (en_controlHeap e))]"
    and ok: "call_ok (add_control i e) p'"
  shows "engine_inv (add_control i e, xs @ p' # ys, log)"
proof -
  have reg: "registry_ok (en_controls e) (en_controlHeap e) (held_by holds (xs @ ys))"
    using inv p by (simp add: controls_ok_def)
  have "turns_ok (add_control i e) calls = turns_ok e calls" "cache_ok (add_control i e) l = cache_ok e l" for calls l
    by (simp_all add: turns_ok_def cache_ok_def add_control_def)
  then show ?thesis
    using inv ok p p' registry_add [OF reg free] call_ok_add_control
    by (auto simp: controls_ok_def turns_ok_def) (simp_all add: add_control_def)
qed

subsection \<open>Completion\<close>

lemma call_ok_evict: "call_ok e p \<Longrightarrow> call_ok (evict e) p"
  by (cases p) (auto simp: evict_def waits_for_def unseen_def chan_ok_def split: channel.splits list.splits)

lemma evict_simps [simp]:
  "en_active (evict e) = en_active e" "en_controls (evict e) = en_controls e" "en_controlHeap (evict e) = en_controlHeap e"
  "en_turns (evict e) = en_turns e"
  by (auto simp: evict_def split: list.splits)

lemma cache_ok_dispatch:
  assumes c: "cache_ok e log" and key: "key \<notin> fst ` set (en_completed e)"
  shows "cache_ok (evict (e\<lparr>en_completed := mput key v (en_completed e), en_completedOrder := en_completedOrder e @ [key]\<rparr>)) (log @ [key])"
proof -
  let ?k = "length log - maxCompletedTurns"
  have o: "en_completedOrder e = drop ?k log" "fst ` set (en_completed e) = set (drop ?k log)"
    "distinct (map fst (en_completed e))" "distinct (drop ?k log)"
    and w: "\<And>m n. m < n \<Longrightarrow> n < length log \<Longrightarrow> log ! m = log ! n \<Longrightarrow> m + maxCompletedTurns < n"
    using c unfolding cache_ok_def by auto
  have new: "key \<notin> set (drop ?k log)" using key o(2) by simp
  have "m + maxCompletedTurns < n" if "m < n" "n < length (log @ [key])" "(log @ [key]) ! m = (log @ [key]) ! n" for m n
  proof (cases "n < length log")
    case True
    with that w show ?thesis by (simp add: nth_append)
  next
    case False
    with that have n: "n = length log" "log ! m = key" "m < length log" by (auto simp: nth_append)
    have "\<not> ?k \<le> m"
    proof
      assume "?k \<le> m"
      then have "log ! m \<in> set (drop ?k log)" using n(3) by (metis Cons_nth_drop_Suc list.set_intros(1) set_drop_subset_set_drop subsetD)
      with n(2) new show False by simp
    qed
    with n show ?thesis by simp
  qed
  then have w': "\<forall>m n. m < n \<and> n < length (log @ [key]) \<and> (log @ [key]) ! m = (log @ [key]) ! n \<longrightarrow> m + maxCompletedTurns < n" by blast
  show ?thesis
  proof (cases "maxCompletedTurns \<le> length log")
    case True
    then have len: "length (drop ?k log @ [key]) = Suc maxCompletedTurns" by simp
    then obtain x rest where d: "drop ?k log @ [key] = x # rest" by (cases "drop ?k log @ [key]") auto
    have "distinct (drop ?k log @ [key])" using o(4) new by simp
    then have "distinct (x # rest)" unfolding d .
    moreover have "insert key (set (drop ?k log)) = set (x # rest)" using arg_cong [OF d, of set] by simp
    ultimately have keys: "fst ` set (mdel x (mput key v (en_completed e))) = set rest" "distinct rest" using o(2) by auto
    have rest: "rest = drop (length (log @ [key]) - maxCompletedTurns) (log @ [key])"
    proof -
      have "rest = drop 1 (drop ?k (log @ [key]))" using d by simp
      then show ?thesis using True by (simp add: Suc_diff_le)
    qed
    obtain fs where e': "evict (e\<lparr>en_completed := mput key v (en_completed e), en_completedOrder := drop ?k log @ [key]\<rparr>) =
        e\<lparr>en_completedOrder := rest, en_completed := mdel x (mput key v (en_completed e)), en_files := fs\<rparr>"
      unfolding d evict_def using arg_cong [OF d, of length] len by (cases x) (auto split: prod.splits)
    show ?thesis using w' o(3) keys rest unfolding o(1) e' cache_ok_def by simp
  next
    case False
    then show ?thesis using w' o new by (auto simp: cache_ok_def evict_def)
  qed
qed

lemma inv_complete:
  assumes inv: "engine_inv (e, xs @ Ending j a result # ys, log)" and p': "owns p' = []" "holds p' = []"
    and ok: "\<And>x. call_ok x p'"
  shows "engine_inv (complete (job_conv j) a result e, xs @ p' # ys, log @ dispatched (Ending j a result))"
proof -
  let ?i = "job_conv j" and ?t = "en_turns e ! a"
  let ?key = "(?i, tr_ID (tn_request ?t))"
  let ?d = "(set_turn a (?t\<lparr>tn_result := cloneTurnResult result, tn_done := True\<rparr>) e)\<lparr>en_active := mdel ?i (en_active e)\<rparr>"
  have reg: "registry_ok (en_active e) (map tn_done (en_turns e)) (add_mset (?i, a) (held_by owns (xs @ ys)))"
      "registry_ok (en_controls e) (en_controlHeap e) (held_by holds (xs @ ys))"
    using inv by (simp_all add: turns_ok_def controls_ok_def)
  have own: "a < length (en_turns e)" "tn_request ?t = jb_request j" "?key \<notin> fst ` set (en_completed e)"
    using inv by (auto simp: unseen_def)
  have act: "mget (en_active e) ?i = Some a" using registry_get [OF reg(1)] by simp
  then have c: "complete ?i a result e =
      (if ts_Dispatched result then
         evict (?d\<lparr>en_completed := mput ?key \<lparr>ct_request = tn_request ?t, ct_events = tn_events ?t, ct_result = cloneTurnResult result\<rparr> (en_completed ?d),
           en_completedOrder := en_completedOrder ?d @ [?key]\<rparr>)
       else ?d)"
    by (simp add: complete_def Let_def set_turn_def)
  have others: "call_ok (?d\<lparr>en_completed := mput ?key v (en_completed ?d), en_completedOrder := l\<rparr>) q \<and> call_ok ?d q"
    if q: "q \<in> set (xs @ ys)" for q v l
  proof -
    have "call_ok e q" using inv q by auto
    moreover have "(h, b) \<in> set (owns q) \<Longrightarrow> h \<noteq> ?i \<and> b \<noteq> a" for h b
      using registry_other [OF reg(1), of h b] q by (auto simp: held_by_mem)
    moreover have "mget (en_active e) h = Some b \<Longrightarrow> h \<noteq> ?i \<Longrightarrow> b \<noteq> a" for h b
      using registry_same [OF reg(1)] act by blast
    ultimately show ?thesis using act own
      by (cases q) (auto simp: waits_for_def unseen_def chan_ok_def set_turn_def nth_list_update job_conv_def split: channel.splits)
  qed
  have "cache_ok ?d l = cache_ok e l" for l by (simp add: cache_ok_def set_turn_def)
  with inv have base: "cache_ok ?d log" "map tn_done (en_turns ?d) = (map tn_done (en_turns e))[a := True]" "en_controls ?d = en_controls e"
      "en_controlHeap ?d = en_controlHeap e" "en_active ?d = mdel ?i (en_active e)"
    by (simp_all add: set_turn_def map_update)
  show ?thesis
  proof (cases "ts_Dispatched result")
    case True
    have "cache_ok (complete ?i a result e) (log @ [?key])"
      using cache_ok_dispatch [OF base(1), of ?key] own(3) True by (simp add: c set_turn_def)
    moreover have "en_active (complete ?i a result e) = en_active ?d" "en_controls (complete ?i a result e) = en_controls ?d"
      "en_controlHeap (complete ?i a result e) = en_controlHeap ?d" "en_turns (complete ?i a result e) = en_turns ?d"
      using True by (simp_all add: c)
    moreover have "call_ok (complete ?i a result e) q" if "q \<in> set (xs @ ys)" for q
      using others [OF that] True by (simp add: c call_ok_evict)
    ultimately show ?thesis
      using registry_remove [OF reg(1)] reg(2) p' ok base own(2) True by (auto simp: turns_ok_def controls_ok_def)
  next
    case False
    then show ?thesis
      using registry_remove [OF reg(1)] reg(2) p' ok base others by (auto simp: turns_ok_def controls_ok_def c)
  qed
qed

subsection \<open>Every step of a call\<close>

declare engine_inv.simps [simp del]

lemma inv_idle:
  assumes "engine_inv (e, xs @ p # ys, log)" and "owns p = []" and "holds p = []"
    and "frame e' = frame e \<and> owns p' = [] \<and> holds p' = [] \<and> call_ok e p'"
  shows "engine_inv (e', xs @ p' # ys, log)"
  using call_replace [OF assms(1)] assms(2-4) by simp

lemma engine_inv_call: "engine_inv (e, xs @ p # ys, log) \<Longrightarrow> call_ok e p"
  by (simp add: engine_inv.simps)

lemma return_run_shape: "fst (return_run j out e) = Finished (fst out) (snd out)" "frame (snd (return_run j out e)) = frame e"
  by (simp_all add: return_run_def)

lemma return_runD: "return_run j out e = (p, e') \<Longrightarrow> frame e' = frame e \<and> owns p = [] \<and> holds p = [] \<and> (\<forall>x. call_ok x p)"
  by (auto simp: return_run_def)

lemma answer_knownD:
  assumes "answer_known env j known e = (p, e')" and "policy_ok j" and "\<And>a. known = Existing a \<Longrightarrow> a < length (en_turns e)"
  shows "frame e' = frame e \<and> owns p = [] \<and> holds p = [] \<and> call_ok e p"
  using assms by (auto simp: answer_known_def split: known_turn.splits dest!: return_runD)

lemma engine_inv_active:
  assumes "engine_inv (e, calls, log)" and "mget (en_active e) i = Some a"
  shows "a < length (en_turns e)" "\<not> tn_done (en_turns e ! a)"
proof -
  have "a < length (map tn_done (en_turns e)) \<and> \<not> map tn_done (en_turns e) ! a"
    using assms registry_flag by (metis engine_inv.simps turns_ok_def)
  then show "a < length (en_turns e)" "\<not> tn_done (en_turns e ! a)" by auto
qed

lemma engine_inv_control:
  assumes "engine_inv (e, calls, log)" and "mget (en_controls e) i = Some k"
  shows "k < length (en_controlHeap e)"
  using assms registry_flag by (metis engine_inv.simps controls_ok_def)

lemma preflight_existing:
  "engine_inv (e, calls, log) \<Longrightarrow> preflightTurn i r e = Existing a \<Longrightarrow> a < length (en_turns e)"
  by (auto simp: preflightTurn_def dest: engine_inv_active split: option.splits if_splits)

lemma preflight_unknown:
  assumes "preflightTurn i r e = Unknown"
  shows "(i, tr_ID r) \<notin> fst ` set (en_completed e)"
    "mget (en_active e) i = Some a \<Longrightarrow> tr_ID (tn_request (en_turns e ! a)) \<noteq> tr_ID r"
  using assms by (auto simp: preflightTurn_def simp flip: mget_None_key split: option.splits if_splits)

lemma request_policy: "request_error agentID r = None \<Longrightarrow> tr_Admission r \<in> {AdmissionRejectIfBusy, AdmissionWait, AdmissionSupersede}"
  by (auto simp: request_error_def split: if_splits)

lemma start_inv:
  assumes "engine_inv (e, xs @ Start j # ys, log)" and "start_step env j e = (p, e')"
  shows "engine_inv (e', xs @ p # ys, log)"
proof -
  let ?r = "normalize_request (jb_request j)"
  have "a < length (en_turns e)" if "preflightTurn (job_conv (j\<lparr>jb_request := ?r\<rparr>)) ?r e = Existing a" for a
    using preflight_existing [OF assms(1) that] .
  with assms(2) have "frame e' = frame e \<and> owns p = [] \<and> holds p = [] \<and> call_ok e p"
    by (auto simp: start_step_def Let_def policy_ok_def split: option.splits if_splits dest!: return_runD request_policy answer_knownD)
  then show ?thesis by (intro inv_idle [OF assms(1)]) simp_all
qed

lemma resolve_inv:
  assumes "engine_inv (e, xs @ Resolving j # ys, log)" and "resolve_step j e = (p, e')"
  shows "engine_inv (e', xs @ p # ys, log)"
proof -
  have "policy_ok j" using engine_inv_call [OF assms(1)] by simp
  with assms(2) have "frame e' = frame e \<and> owns p = [] \<and> holds p = [] \<and> call_ok e p"
    by (auto simp: resolve_step_def policy_ok_def split: sum.splits prod.splits dest!: return_runD)
  then show ?thesis by (intro inv_idle [OF assms(1)]) simp_all
qed

lemma admissions_distinct:
  "AdmissionWait \<noteq> AdmissionRejectIfBusy" "AdmissionSupersede \<noteq> AdmissionRejectIfBusy" "AdmissionSupersede \<noteq> AdmissionWait"
  by (simp_all add: AdmissionWait_def AdmissionRejectIfBusy_def AdmissionSupersede_def)

lemma admit_busy:
  assumes "admit_step env j e = Some (p, e')" and "preflightTurn (job_conv j) (jb_request j) e = Unknown" and "policy_ok j"
    and "mget (en_controls e) (job_conv j) \<noteq> None \<or> mget (en_active e) (job_conv j) \<noteq> None"
  obtains (refused) "return_run j (failedResult ErrorConversationBusy, []) e = (p, e')"
  | (control) k where "mget (en_controls e) (job_conv j) = Some k" "p = Waiting j (ControlDone k)" "e' = e"
  | (wait) a where "mget (en_active e) (job_conv j) = Some a" "p = Waiting j (TurnDone a)" "e' = e"
  | (supersede) a where "mget (en_controls e) (job_conv j) = None" "mget (en_active e) (job_conv j) = Some a"
      "p = Superseding j (length (en_controlHeap e)) a" "e' = cancel_turn a (add_control (job_conv j) e)"
proof -
  from assms(3) consider "tr_Admission (jb_request j) = AdmissionRejectIfBusy" | "tr_Admission (jb_request j) = AdmissionWait"
    | "tr_Admission (jb_request j) = AdmissionSupersede" by (auto simp: policy_ok_def)
  then show thesis
  proof cases
    case 1
    with assms(2,4) have "admit_step env j e = Some (return_run j (failedResult ErrorConversationBusy, []) e)"
      by (auto simp: admit_step_def admit_round_def split: option.splits)
    with assms(1) refused show thesis by simp
  next
    case 2
    show thesis
    proof (cases "mget (en_controls e) (job_conv j)")
      case None
      with assms(4) obtain a where a: "mget (en_active e) (job_conv j) = Some a" by auto
      with 2 None assms(1,2) have "p = Waiting j (TurnDone a)" "e' = e" by (simp_all add: admit_step_def admit_round_def admissions_distinct)
      with a show thesis by (rule wait)
    next
      case (Some k)
      with 2 assms(1,2) have "p = Waiting j (ControlDone k)" "e' = e" by (simp_all add: admit_step_def admit_round_def admissions_distinct)
      with Some show thesis by (rule control)
    qed
  next
    case 3
    show thesis
    proof (cases "mget (en_controls e) (job_conv j)")
      case None
      with assms(4) obtain a where a: "mget (en_active e) (job_conv j) = Some a" by auto
      with 3 None assms(1,2) have "p = Superseding j (length (en_controlHeap e)) a" "e' = cancel_turn a (add_control (job_conv j) e)"
        by (simp_all add: admit_step_def admit_round_def admissions_distinct)
      with None a show thesis by (rule supersede)
    next
      case (Some k)
      with 3 assms(1,2) have "p = Waiting j (ControlDone k)" "e' = e" by (simp_all add: admit_step_def admit_round_def admissions_distinct)
      with Some show thesis by (rule control)
    qed
  qed
qed

lemma admit_inv:
  assumes "engine_inv (e, xs @ Admitting j # ys, log)" and "admit_step env j e = Some (p, e')"
  shows "engine_inv (e', xs @ p # ys, log)"
proof -
  let ?i = "job_conv j" and ?r = "jb_request j"
  have pol: "policy_ok j" using engine_inv_call [OF assms(1)] by simp
  show ?thesis
  proof (cases "preflightTurn ?i ?r e = Unknown")
    case False
    then have "admit_round ?i ?r e = (Known (preflightTurn ?i ?r e), e)" by (simp add: admit_round_def split: known_turn.splits)
    with assms(2) have "answer_known env j (preflightTurn ?i ?r e) e = (p, e')" by (simp add: admit_step_def)
    from answer_knownD [OF this pol preflight_existing [OF assms(1)]] show ?thesis by (intro inv_idle [OF assms(1)]) simp_all
  next
    case True
    note un = preflight_unknown [OF True]
    show ?thesis
    proof (cases "mget (en_controls e) ?i = None \<and> mget (en_active e) ?i = None")
      case idle: True
      with assms(2) True have p: "p = Preparing j (length (en_turns e))" "e' = add_turn ?i ?r e"
        by (simp_all add: admit_step_def admit_round_def)
      from idle show ?thesis unfolding p
        by (intro inv_add_turn [OF assms(1)]) (use un(1) in \<open>simp_all add: unseen_def newActiveTurn_def\<close>)
    next
      case False
      then have "mget (en_controls e) ?i \<noteq> None \<or> mget (en_active e) ?i \<noteq> None" by simp
      from assms(2) True pol this show ?thesis
      proof (cases rule: admit_busy)
        case refused
        from return_runD [OF this] show ?thesis by (intro inv_idle [OF assms(1)]) simp_all
      next
        case (control k)
        then show ?thesis using engine_inv_control [OF assms(1) control(1)] pol
          by (intro inv_idle [OF assms(1)]) (simp_all add: chan_ok_def)
      next
        case (wait a)
        then show ?thesis using engine_inv_active [OF assms(1) wait(1)] pol
          by (intro inv_idle [OF assms(1)]) (simp_all add: chan_ok_def)
      next
        case (supersede a)
        have "engine_inv (add_control ?i e, xs @ p # ys, log)"
          by (rule inv_add_control [OF assms(1) supersede(1)])
             (use supersede un engine_inv_active [OF assms(1) supersede(2)] in \<open>simp_all add: waits_for_def unseen_def add_control_def\<close>)
        then show ?thesis unfolding supersede(4) using engine_inv_frame [OF frame_cancel] by blast
      qed
    qed
  qed
qed

lemma turn_ended:
  assumes "engine_inv (e, calls, log)" and "waits_for e i a" and "tn_done (en_turns e ! a)"
  shows "mget (en_active e) i = None"
  using assms engine_inv_active(2) [OF assms(1), of i a] by (auto simp: waits_for_def)

lemma promote_succeeds:
  assumes "engine_inv (e, xs @ Promoting j k # ys, log)"
  shows "mget (en_controls e) (job_conv j) = Some k" "mget (en_active e) (job_conv j) = None"
proof -
  have "registry_ok (en_controls e) (en_controlHeap e) (held_by holds (xs @ Promoting j k # ys))"
    using assms by (simp add: engine_inv.simps controls_ok_def)
  from registry_get [OF this] show "mget (en_controls e) (job_conv j) = Some k" by simp
  show "mget (en_active e) (job_conv j) = None" using engine_inv_call [OF assms] by simp
qed

lemma promote_inv:
  assumes "engine_inv (e, xs @ Promoting j k # ys, log)" and "phase_step env (Promoting j k) e = Some (p, e')"
  shows "engine_inv (e', xs @ p # ys, log)"
proof -
  let ?i = "job_conv j" and ?r = "jb_request j"
  note held = promote_succeeds [OF assms(1)]
  let ?d = "endControl ?i k e"
  have d: "engine_inv (?d, xs @ Ended None # ys, log)" "mget (en_controls ?d) ?i = None"
    using inv_end_control [OF assms(1), of ?i k "Ended None"] by simp_all
  have same: "en_turns ?d = en_turns e" "en_active ?d = en_active e" "en_completed ?d = en_completed e"
    by (simp_all add: endControl_def)
  have p: "p = Preparing j (length (en_turns e))" and e': "e' = add_turn ?i ?r ?d"
    using assms(2) held by (auto simp: promoteControl_def endControl_def add_turn_def)
  have "en_turns (add_turn ?i ?r ?d) ! length (en_turns e) = newActiveTurn ?r" using add_turn_simps(7) [of ?i ?r ?d] by (simp add: same)
  then have "engine_inv (add_turn ?i ?r ?d, xs @ p # ys, log)"
    by (intro inv_add_turn [OF d(1) _ d(2)])
       (use held engine_inv_call [OF assms(1)] in \<open>simp_all add: p same unseen_def newActiveTurn_def\<close>)
  then show ?thesis by (simp add: e')
qed

lemma supersede_inv:
  assumes "engine_inv (e, xs @ Superseding j k a # ys, log)" and "phase_step env (Superseding j k a) e = Some (p, e')"
  shows "engine_inv (e', xs @ p # ys, log)"
proof (cases "sx_ctxDone env")
  case True
  with assms(2) have r: "return_run j (resultFromContext, []) (endControl (job_conv j) k e) = (p, e')" by (simp add: wait_step_def)
  have "engine_inv (endControl (job_conv j) k e, xs @ p # ys, log)"
    by (rule inv_end_control(1) [OF assms(1)]) (use return_runD [OF r] in simp_all)
  then show ?thesis using engine_inv_frame return_runD [OF r] by blast
next
  case False
  with assms(2) have p: "p = Promoting j k" "e' = e" "tn_done (en_turns e ! a)" by (auto simp: wait_step_def closed_def split: if_splits)
  have "waits_for e (job_conv j) a" "unseen e j" using engine_inv_call [OF assms(1)] by simp_all
  then show ?thesis using turn_ended [OF assms(1) _ p(3)] p(1,2) by (intro call_replace [OF assms(1)]) simp_all
qed

lemma reset_inv:
  assumes "engine_inv (e, xs @ p # ys, log)" and "phase_step env p e = Some (p', e')"
    and "p \<in> {ResetWaiting i k a, ResetReady i k, ResetRuntime i k}"
  shows "engine_inv (e', xs @ p' # ys, log)"
proof (cases "(\<exists>r. p' = Ended r) \<and> e' = endControl i k e")
  case True
  then show ?thesis using assms(3) by (auto intro: inv_end_control(1) [OF assms(1)])
next
  case False
  from assms(3) consider "p = ResetWaiting i k a" | "p = ResetReady i k" | "p = ResetRuntime i k" by blast
  then show ?thesis
  proof cases
    case 1
    with assms(2) False have p': "p' = ResetReady i k" "e' = e" "tn_done (en_turns e ! a)"
      by (auto simp: wait_step_def closed_def split: if_splits)
    then have "mget (en_active e) i = None" using 1 engine_inv_call [OF assms(1)] turn_ended [OF assms(1), of i a] by simp
    with 1 p' show ?thesis by (intro call_replace [OF assms(1)]) simp_all
  next
    case 2
    with assms(2) False have p': "p' = ResetRuntime i k" "frame e' = frame e" by (auto split: option.splits)
    with 2 engine_inv_call [OF assms(1)] show ?thesis by (intro call_replace [OF assms(1)]) simp_all
  next
    case 3
    with assms(2) False show ?thesis by auto
  qed
qed

lemma reset_start_inv:
  assumes "engine_inv (e, xs @ ResetStart (agentID, key) # ys, log)" and "phase_step env (ResetStart (agentID, key)) e = Some (p, e')"
  shows "engine_inv (e', xs @ p # ys, log)"
proof -
  let ?i = "(agentID, TrimSpace key)"
  have step: "reset_start ?i e = (p, e')" using assms(2) by simp
  consider (ended) r where "p = Ended r" "e' = e"
    | (ready) "mget (en_controls e) ?i = None" "mget (en_active e) ?i = None" "p = ResetReady ?i (length (en_controlHeap e))" "e' = add_control ?i e"
    | (waiting) a where "mget (en_controls e) ?i = None" "mget (en_active e) ?i = Some a" "p = ResetWaiting ?i (length (en_controlHeap e)) a"
        "e' = cancel_turn a (add_control ?i e)"
  proof (cases "agentID = [] \<or> TrimSpace key = [] \<or> mget (en_controls e) ?i \<noteq> None")
    case True
    with step have "\<exists>r. p = Ended r" "e' = e" by (auto simp: reset_start_def beginControl_def split: if_splits)
    with ended show thesis by blast
  next
    case False
    show thesis
    proof (cases "mget (en_active e) ?i")
      case None
      with step False have "p = ResetReady ?i (length (en_controlHeap e))" "e' = add_control ?i e"
        by (simp_all add: reset_start_def beginControl_def)
      with ready False None show thesis by blast
    next
      case (Some a)
      with step False have "p = ResetWaiting ?i (length (en_controlHeap e)) a" "e' = cancel_turn a (add_control ?i e)"
        by (simp_all add: reset_start_def beginControl_def)
      with waiting False Some show thesis by blast
    qed
  qed
  then show ?thesis
  proof cases
    case ended
    then show ?thesis by (intro inv_idle [OF assms(1)]) simp_all
  next
    case ready
    then show ?thesis by (intro inv_add_control [OF assms(1), of ?i p, folded ready(4)]) (simp_all add: add_control_def)
  next
    case (waiting a)
    have "engine_inv (add_control ?i e, xs @ p # ys, log)"
      by (rule inv_add_control [OF assms(1) waiting(1)])
         (use waiting engine_inv_active [OF assms(1) waiting(2)] in \<open>simp_all add: waits_for_def add_control_def\<close>)
    then show ?thesis unfolding waiting(4) using engine_inv_frame [OF frame_cancel] by blast
  qed
qed

text \<open>A call that runs a turn goes on with it until it ends it.\<close>

lemma owner_step:
  assumes "phase_step env p e = Some (p', e')" and "owns p \<noteq> []" and "\<And>j a r. p \<noteq> Ending j a r"
  shows "frame e' = frame e" "owns p' = owns p" "holds p' = []" "call_ok e p \<Longrightarrow> call_ok e p'"
proof -
  have "frame e' = frame e \<and> owns p' = owns p \<and> holds p' = [] \<and> (call_ok e p \<longrightarrow> call_ok e p')"
  proof (cases p)
    case (Preparing j a)
    with assms(1) show ?thesis
      by (auto simp: prepare_step_def Let_def frame_set_turn split: if_splits prod.splits option.splits)
  next
    case (Settling j a r)
    with assms(1) show ?thesis
      by (auto simp: settle_interactions_def Let_def split: if_splits prod.splits option.splits sum.splits)
  qed (use assms in \<open>auto simp: job_conv_def unseen_def split: option.splits prod.splits\<close>)
  then show "frame e' = frame e" "owns p' = owns p" "holds p' = []" "call_ok e p \<Longrightarrow> call_ok e p'" by blast+
qed

lemma owner_holds: "owns p \<noteq> [] \<Longrightarrow> holds p = []"
  by (cases p) auto

lemma end_inv:
  assumes "engine_inv (e, xs @ Ending j a r # ys, log)" and "phase_step env (Ending j a r) e = Some (p, e')"
  shows "engine_inv (e', xs @ p # ys, log @ dispatched (Ending j a r))"
proof -
  have r: "return_run j (r, []) (complete (job_conv j) a r (cancel_turn a e)) = (p, e')" using assms(2) by (simp add: end_step_def)
  have "engine_inv (cancel_turn a e, xs @ Ending j a r # ys, log)" using assms(1) engine_inv_frame [OF frame_cancel] by blast
  from inv_complete [OF this, of p] return_runD [OF r] show ?thesis using engine_inv_frame by blast
qed

lemma follow_inv:
  assumes "engine_inv (e, xs @ p # ys, log)" and "phase_step env p e = Some (p', e')"
    and "(\<exists>j ch. p = Waiting j ch) \<or> (\<exists>j a. p = Following j a) \<or> (\<exists>a. p = CancelWaiting a) \<or> (\<exists>i t. p = CancelStart i t \<or> p = CancelLook i t)"
  shows "engine_inv (e', xs @ p' # ys, log)"
proof -
  have look: "frame e' = frame e \<and> owns p' = [] \<and> holds p' = [] \<and> call_ok e p'" if "cancel_look i t e = (p', e')" for i t
    using that engine_inv_active(1) [OF assms(1), of i] by (cases "mget (en_active e) i") (auto simp: cancel_look_def split: if_splits)
  have "frame e' = frame e \<and> owns p' = [] \<and> holds p' = [] \<and> call_ok e p'"
    using assms(2,3) engine_inv_call [OF assms(1)]
    by (auto simp: wait_step_def Let_def dest!: return_runD look split: if_splits)
  with assms(3) show ?thesis by (intro inv_idle [OF assms(1)]) auto
qed

lemma phase_inv:
  assumes "engine_inv (e, xs @ p # ys, log)" and "phase_step env p e = Some (p', e')"
  shows "engine_inv (e', xs @ p' # ys, log @ dispatched p)"
proof (cases "owns p \<noteq> [] \<and> (\<forall>j a r. p \<noteq> Ending j a r)")
  case True
  then have "dispatched p = []" by (cases p) auto
  with True owner_step [OF assms(2)] engine_inv_call [OF assms(1)] show ?thesis
    by (auto simp: owner_holds intro: call_replace [OF assms(1)])
next
  case False
  with assms show ?thesis
  proof (cases p)
    case (Start j)
    with assms show ?thesis by (auto intro: start_inv)
  next
    case (Resolving j)
    with assms show ?thesis by (auto intro: resolve_inv)
  next
    case (Admitting j)
    with assms show ?thesis by (auto intro: admit_inv)
  next
    case (Ending j a r)
    with assms show ?thesis using end_inv by metis
  next
    case (Finished r events)
    with assms(2) show ?thesis by simp
  next
    case (Ended r)
    with assms(2) show ?thesis by simp
  next
    case (ResetStart i)
    with assms show ?thesis by (cases i) (auto simp del: phase_step.simps intro: reset_start_inv)
  qed (auto simp del: phase_step.simps intro: follow_inv supersede_inv promote_inv reset_inv)
qed

lemma inv_new_call:
  assumes "engine_inv (e, calls, log)" and "new_call p"
  shows "engine_inv (e, calls @ [p], log)"
  using assms by (auto simp: new_call_def engine_inv.simps turns_ok_def controls_ok_def)

interpretation engine: invariant_system engine_init engine_step engine_inv
proof
  fix s :: engine_sys
  assume "engine_init s"
  then show "engine_inv s"
    by (simp add: engine_init_def NewEngine_def engine_inv.simps turns_ok_def controls_ok_def cache_ok_def registry_ok_def)
next
  fix s t :: engine_sys and l
  assume inv: "engine_inv s" and "engine_step s l t"
  from this(2) show "engine_inv t"
  proof cases
    case (engine_call p e calls log)
    then show ?thesis using inv_new_call inv by blast
  next
    case (engine_work n calls env e p e' log)
    let ?xs = "take n calls" and ?ys = "drop (Suc n) calls"
    have split: "calls = ?xs @ calls ! n # ?ys" "calls[n := p] = ?xs @ p # ?ys"
      using engine_work(4) by (simp_all add: id_take_nth_drop [symmetric] upd_conv_take_nth_drop)
    have "engine_inv (e, ?xs @ calls ! n # ?ys, log)" using inv engine_work(1) split(1) by simp
    from phase_inv [OF this engine_work(5)] show ?thesis using engine_work(3) split(2) by simp
  next
    case (engine_emit p calls a e log now event)
    then show ?thesis using inv engine_inv_frame [OF frame_recordAndEmit] by metis
  next
    case (engine_detached a e calls log i q)
    then show ?thesis using inv engine_inv_frame [OF frame_emitDetached] by metis
  next
    case (engine_interrupt e calls log agentID now)
    then show ?thesis using inv engine_inv_frame [OF frame_interruptAgent] by metis
  next
    case (engine_other e calls log c fs)
    then show ?thesis using inv engine_inv_frame [OF frame_updates(3)] by metis
  qed
qed

end
