(* ===== verification/EngineClaims.thy ===== *)
theory EngineClaims
  imports EngineProps
begin

section \<open>What the engine promises\<close>

text \<open>
  The properties of the engine over all interleavings of its callers: one turn or reset at a time in a
  conversation, no repeated dispatch, and no deadlock. The witnesses run two calls for one conversation.
\<close>

subsection \<open>Exclusion\<close>

text \<open>The conversation in which a call runs a turn, or resets the runtime.\<close>

fun works_in :: "phase \<Rightarrow> conversationIdentity option" where
  "works_in (Preparing j a) = Some (job_conv j)"
| "works_in (Acquiring j a) = Some (job_conv j)"
| "works_in (Generating j a) = Some (job_conv j)"
| "works_in (Executing j a) = Some (job_conv j)"
| "works_in (Settling j a r) = Some (job_conv j)"
| "works_in (Ending j a r) = Some (job_conv j)"
| "works_in (ResetReady i k) = Some i"
| "works_in (ResetRuntime i k) = Some i"
| "works_in _ = None"

lemma works_in_cases:
  assumes "works_in p = Some i"
  obtains (turn) a where "owns p = [(i, a)]"
  | (reset) k where "holds p = [(i, k)]" and "\<And>e. call_ok e p \<Longrightarrow> mget (en_active e) i = None"
  using assms by (cases p) auto

lemma other_call:
  assumes "m < length calls" and "n < length calls" and "m \<noteq> n"
  shows "calls ! n \<in> set (take m calls @ drop (Suc m) calls)"
proof (cases "n < m")
  case True
  then show ?thesis using assms(1) by (auto simp: in_set_conv_nth intro!: exI [of _ n])
next
  case False
  then have "calls ! n = drop (Suc m) calls ! (n - Suc m)" "n - Suc m < length (drop (Suc m) calls)" using assms by auto
  then have "calls ! n \<in> set (drop (Suc m) calls)" by (metis nth_mem)
  then show ?thesis by simp
qed

lemma held_by_split:
  "m < length calls \<Longrightarrow> held_by f calls = mset (f (calls ! m)) + held_by f (take m calls @ drop (Suc m) calls)"
  by (subst (1) id_take_nth_drop [of m calls]) simp_all

lemma registry_alone:
  assumes "registry_ok reg flags (held_by f calls)" and "m < length calls" and "n < length calls"
    and "f (calls ! m) = [(i, a)]" and "(i, b) \<in> set (f (calls ! n))"
  shows "m = n"
proof (rule ccontr)
  assume "m \<noteq> n"
  have "registry_ok reg flags (add_mset (i, a) (held_by f (take m calls @ drop (Suc m) calls)))"
    using assms(1,4) held_by_split [OF assms(2), of f] by simp
  moreover have "(i, b) \<in># held_by f (take m calls @ drop (Suc m) calls)"
    using other_call [OF assms(2,3) \<open>m \<noteq> n\<close>] assms(5) unfolding held_by_mem by blast
  ultimately show False using registry_other(1) by blast
qed

text \<open>
  C37. However callers run, join, supersede, cancel and reset turns: at most one call at a time works in
  a conversation, be it that it runs a turn there or that it resets the conversation's runtime.
\<close>

theorem conversation_exclusive:
  assumes "reachable engine_init engine_step (e, calls, log)" and "m < length calls" and "n < length calls"
    and "works_in (calls ! m) = Some i" and "works_in (calls ! n) = Some i"
  shows "m = n"
proof -
  have inv: "engine_inv (e, calls, log)" using engine.reachable_inv [OF assms(1)] .
  then have turns: "registry_ok (en_active e) (map tn_done (en_turns e)) (held_by owns calls)"
    and controls: "registry_ok (en_controls e) (en_controlHeap e) (held_by holds calls)"
    by (simp_all add: engine_inv.simps turns_ok_def controls_ok_def)
  have ok: "call_ok e (calls ! l)" if "l < length calls" for l using inv that by (simp add: engine_inv.simps)
  have runs: "mget (en_active e) i \<noteq> None" if "l < length calls" "owns (calls ! l) = [(i, a)]" for l a
  proof -
    have "(i, a) \<in># held_by owns calls" unfolding held_by_mem using that by (metis list.set_intros(1) nth_mem)
    then show ?thesis using registry_get [OF turns] by blast
  qed
  from assms(4) show ?thesis
  proof (cases rule: works_in_cases)
    case (turn a)
    note m = turn
    from assms(5) show ?thesis
    proof (cases rule: works_in_cases)
      case (turn b)
      then show ?thesis using registry_alone [OF turns assms(2,3) m] by simp
    next
      case (reset k)
      then show ?thesis using runs [OF assms(2) m] ok [OF assms(3)] by simp
    qed
  next
    case (reset k)
    note m = reset
    from assms(5) show ?thesis
    proof (cases rule: works_in_cases)
      case (turn b)
      then show ?thesis using runs [OF assms(3)] m(2) ok [OF assms(2)] by simp
    next
      case (reset l)
      then show ?thesis using registry_alone [OF controls assms(2,3) m(1)] by simp
    qed
  qed
qed

subsection \<open>Repeated turns\<close>

text \<open>
  C38. A turn that was dispatched to a runtime is not dispatched again for at least 1024 further
  dispatched turns: a repeated request is answered with the retained result, of which there are at most
  1024.
\<close>

theorem dispatched_once:
  assumes "reachable engine_init engine_step (e, calls, log)" and "m < n" and "n < length log" and "n \<le> m + maxCompletedTurns"
  shows "log ! m \<noteq> log ! n \<and> length (en_completed e) \<le> maxCompletedTurns"
proof -
  have c: "cache_ok e log" using engine.reachable_inv [OF assms(1)] by (simp add: engine_inv.simps)
  have "length (en_completed e) = card (set (en_completedOrder e))"
    using c by (metis cache_ok_def distinct_card length_map set_map)
  also have "\<dots> \<le> maxCompletedTurns" using c card_length [of "en_completedOrder e"] by (simp add: cache_ok_def)
  finally show ?thesis using c assms(2-4) unfolding cache_ok_def by (meson linorder_not_less)
qed

subsection \<open>Progress\<close>

fun over :: "phase \<Rightarrow> bool" where
  "over (Finished r events) = True"
| "over (Ended r) = True"
| "over _ = False"

definition ready :: "Engine \<Rightarrow> phase \<Rightarrow> bool" where
  "ready e p \<longleftrightarrow> \<not> over p \<and> (\<forall>env. phase_step env p e \<noteq> None)"

lemma admit_ready: "policy_ok j \<Longrightarrow> admit_step env j e \<noteq> None"
  by (auto simp: admit_step_def admit_round_def policy_ok_def split: known_turn.splits option.splits)

lemma owner_ready: "owns p \<noteq> [] \<Longrightarrow> ready e p"
  unfolding ready_def by (cases p) (auto split: option.splits prod.splits)

lemma ready_or_waits:
  assumes "call_ok e p" and "\<not> over p" and "\<not> ready e p"
  obtains (turn) a where "a < length (en_turns e)" and "\<not> tn_done (en_turns e ! a)"
  | (control) k where "holds p = []" and "k < length (en_controlHeap e)" and "\<not> en_controlHeap e ! k"
proof (cases p)
  case (Waiting j ch)
  then show thesis using assms turn control
    by (cases ch) (auto simp: ready_def wait_step_def closed_def chan_ok_def split: if_splits)
qed (use assms turn in \<open>auto simp: ready_def wait_step_def closed_def waits_for_def admit_ready Let_def simp del: not_None_eq split: if_splits option.splits prod.splits\<close>)

text \<open>
  C39. Calls do not deadlock: as long as some call has not returned there is one that can go on, whatever
  its context, agents, runtime and file system answer.
\<close>

theorem engine_progress:
  assumes "reachable engine_init engine_step (e, calls, log)" and "p \<in> set calls" and "\<not> over p"
  shows "\<exists>q \<in> set calls. ready e q"
proof -
  have inv: "engine_inv (e, calls, log)" using engine.reachable_inv [OF assms(1)] .
  have ok: "call_ok e q" if "q \<in> set calls" for q using inv that by (simp add: engine_inv.simps)
  have turn: ?thesis if a: "a < length (en_turns e)" "\<not> tn_done (en_turns e ! a)" for a
  proof -
    have "registry_ok (en_active e) (map tn_done (en_turns e)) (held_by owns calls)"
      using inv by (simp add: engine_inv.simps turns_ok_def)
    from registry_open [OF this, of a] a obtain i where "(i, a) \<in># held_by owns calls" by auto
    then obtain q where "q \<in> set calls" "owns q \<noteq> []" by (force simp: held_by_mem)
    then show ?thesis using owner_ready by blast
  qed
  have control: ?thesis if k: "k < length (en_controlHeap e)" "\<not> en_controlHeap e ! k" for k
  proof -
    have "registry_ok (en_controls e) (en_controlHeap e) (held_by holds calls)"
      using inv by (simp add: engine_inv.simps controls_ok_def)
    from registry_open [OF this k] obtain q where q: "q \<in> set calls" "holds q \<noteq> []" by (force simp: held_by_mem)
    have "\<not> over q" using q(2) by (cases q) auto
    show ?thesis
    proof (cases "ready e q")
      case False
      from ok [OF q(1)] \<open>\<not> over q\<close> this show ?thesis by (cases rule: ready_or_waits) (use q turn in auto)
    qed (use q in blast)
  qed
  show ?thesis
  proof (cases "ready e p")
    case False
    from ok [OF assms(2)] assms(3) this show ?thesis by (cases rule: ready_or_waits) (use turn control in auto)
  qed (use assms(2) in blast)
qed

subsection \<open>Two calls for one conversation\<close>

text \<open>A schedule names the call that makes the next step, in an environment in which all goes well.\<close>

definition demo_step_env :: step_env where
  "demo_step_env = \<lparr>sx_ctxDone = False, sx_now = 7, sx_archived = Some False, sx_refused = False, sx_runtimeError = None,
     sx_mediaError = False, sx_result = (zero_result TurnSucceeded)\<lparr>ts_Dispatched := True\<rparr>, sx_resetError = None, sx_token = ''0'',
     sx_sinkFails = None\<rparr>"

fun run_schedule :: "nat list \<Rightarrow> engine_sys \<Rightarrow> engine_sys" where
  "run_schedule [] x = x"
| "run_schedule (n # ns) (e, calls, log) =
     (if n < length calls then
        (case phase_step demo_step_env (calls ! n) e of
           Some (p, e') \<Rightarrow> run_schedule ns (e', calls[n := p], log @ dispatched (calls ! n))
         | None \<Rightarrow> run_schedule ns (e, calls, log))
      else run_schedule ns (e, calls, log))"

lemma run_schedule_reachable:
  "reachable engine_init engine_step x \<Longrightarrow> reachable engine_init engine_step (run_schedule ns x)"
proof (induction ns arbitrary: x)
  case (Cons n ns)
  obtain e calls log where x: "x = (e, calls, log)" by (cases x) auto
  show ?case
  proof (cases "n < length calls \<and> phase_step demo_step_env (calls ! n) e \<noteq> None")
    case True
    then obtain p e' where step: "phase_step demo_step_env (calls ! n) e = Some (p, e')" by auto
    from True have "engine_step x () (e', calls[n := p], log @ dispatched (calls ! n))"
      unfolding x by (intro engine_work [OF _ step]) simp
    with Cons.prems have "reachable engine_init engine_step (e', calls[n := p], log @ dispatched (calls ! n))" by (rule reachable_step)
    from Cons.IH [OF this] True step show ?thesis by (simp add: x)
  next
    case False
    with Cons.IH [OF Cons.prems] show ?thesis by (auto simp: x split: option.splits)
  qed
qed simp

definition demo_turn_request :: "string \<Rightarrow> TurnRequest" where
  "demo_turn_request turnID = \<lparr>tr_RespondingTo = [], tr_PreservePendingInteractions = False, tr_RoomConfiguration = None,
     tr_ImageGeneration = None, tr_VideoGeneration = None, tr_ID = turnID, tr_ConversationKey = ''room'',
     tr_Input = [\<lparr>ip_Kind = InputPartText, ip_Text = ''hello'', ip_File = None, ip_WorkspaceFile = None\<rparr>],
     tr_Admission = ''Wait'', tr_Continuation = [], tr_Interaction = []\<rparr>"

definition demo_calls :: "nat list \<Rightarrow> engine_sys" where
  "demo_calls ns = run_schedule ns (NewEngine, [Start (new_job ''a'' (demo_turn_request ''t1'')), Start (new_job ''a'' (demo_turn_request ''t2''))], [])"

lemma demo_calls_reachable: "reachable engine_init engine_step (demo_calls ns)"
proof -
  have "reachable engine_init engine_step (NewEngine, [], [])" by (rule reachable_init) (simp add: engine_init_def)
  then have "reachable engine_init engine_step (NewEngine, [] @ [Start (new_job ''a'' (demo_turn_request ''t1''))], [])"
    by (rule reachable_step) (rule engine_call, auto simp: new_call_def)
  then have "reachable engine_init engine_step (NewEngine, ([] @ [Start (new_job ''a'' (demo_turn_request ''t1''))]) @ [Start (new_job ''a'' (demo_turn_request ''t2''))], [])"
    by (rule reachable_step) (rule engine_call, auto simp: new_call_def)
  then show ?thesis unfolding demo_calls_def by (intro run_schedule_reachable) simp
qed

definition both_started :: "nat list" where "both_started = [0, 0, 0, 0, 0, 1, 1, 1]"
definition both_finished :: "nat list" where "both_finished = both_started @ [0, 0, 0, 1, 1, 1, 1, 1, 1, 1]"

lemma demo_started_values:
  "length (fst (snd (demo_calls both_started))) = 2"
  "works_in (fst (snd (demo_calls both_started)) ! 0) = Some (''a'', ''room'')"
  "\<not> over (fst (snd (demo_calls both_started)) ! 1) \<and> \<not> ready (fst (demo_calls both_started)) (fst (snd (demo_calls both_started)) ! 1)"
proof -
  show "length (fst (snd (demo_calls both_started))) = 2" "works_in (fst (snd (demo_calls both_started)) ! 0) = Some (''a'', ''room'')"
    by code_simp+
  have "\<not> over (fst (snd (demo_calls both_started)) ! 1) \<and>
      phase_step demo_step_env (fst (snd (demo_calls both_started)) ! 1) (fst (demo_calls both_started)) = None"
    by code_simp
  then show "\<not> over (fst (snd (demo_calls both_started)) ! 1) \<and> \<not> ready (fst (demo_calls both_started)) (fst (snd (demo_calls both_started)) ! 1)"
    unfolding ready_def by blast
qed

lemma demo_finished_values: "snd (snd (demo_calls both_finished)) = [((''a'', ''room''), ''t1''), ((''a'', ''room''), ''t2'')]"
  by code_simp

theorem conversation_exclusive_witness:
  "works_in (fst (snd (demo_calls both_started)) ! 0) = Some (''a'', ''room'') \<and>
   works_in (fst (snd (demo_calls both_started)) ! 1) \<noteq> Some (''a'', ''room'')"
proof -
  have r: "reachable engine_init engine_step (fst (demo_calls both_started), fst (snd (demo_calls both_started)), snd (snd (demo_calls both_started)))"
    using demo_calls_reachable by simp
  show ?thesis using conversation_exclusive [OF r, of 0 1 "(''a'', ''room'')"] demo_started_values by auto
qed

theorem dispatched_once_witness:
  "((''a'', ''room''), ''t1'') \<noteq> ((''a'', ''room''), ''t2'') \<and> length (en_completed (fst (demo_calls both_finished))) \<le> 1024"
proof -
  have r: "reachable engine_init engine_step (fst (demo_calls both_finished), fst (snd (demo_calls both_finished)), snd (snd (demo_calls both_finished)))"
    using demo_calls_reachable by simp
  have "snd (snd (demo_calls both_finished)) ! 0 \<noteq> snd (snd (demo_calls both_finished)) ! 1 \<and>
      length (en_completed (fst (demo_calls both_finished))) \<le> maxCompletedTurns"
    by (rule dispatched_once [OF r]) (simp_all add: demo_finished_values maxCompletedTurns_def)
  then show ?thesis by (simp add: demo_finished_values maxCompletedTurns_def)
qed

theorem engine_progress_witness:
  "\<not> ready (fst (demo_calls both_started)) (fst (snd (demo_calls both_started)) ! 1) \<and>
   (\<exists>q. q \<in> set (fst (snd (demo_calls both_started))) \<and> ready (fst (demo_calls both_started)) q)"
proof -
  have r: "reachable engine_init engine_step (fst (demo_calls both_started), fst (snd (demo_calls both_started)), snd (snd (demo_calls both_started)))"
    using demo_calls_reachable by simp
  have "fst (snd (demo_calls both_started)) ! 1 \<in> set (fst (snd (demo_calls both_started)))" using demo_started_values(1) by (intro nth_mem) simp
  from engine_progress [OF r this] demo_started_values(3) show ?thesis by blast
qed

end
