(* ===== verification/FileProps.thy ===== *)
theory FileProps
  imports TurnFiles "HOL-Library.Multiset"
begin

text \<open>
  The lifetime of the snapshots of files: whatever callers create, register, read and delete files, in
  any order, the content of a file is deleted from disk exactly when it has left the store and nobody
  reads it any more.
\<close>

declare map_of_eq_Some_iff [simp del] Some_eq_map_of_iff [simp del]

subsection \<open>Counted snapshots\<close>

text \<open>
  \<open>orig\<close> are the paths under which the snapshots were made, \<open>H\<close> the leases that readers hold.
\<close>

definition spent :: "nat multiset \<Rightarrow> FileStore \<Rightarrow> nat \<Rightarrow> bool" where
  "spent H fs a \<longleftrightarrow> sp_removed (fs_snaps fs ! a) \<and> count H a = 0"

definition snaps_ok :: "string list \<Rightarrow> nat multiset \<Rightarrow> FileStore \<Rightarrow> bool" where
  "snaps_ok orig H fs \<longleftrightarrow> length orig = length (fs_snaps fs) \<and> [] \<notin> set orig \<and> distinct orig \<and> set_mset H \<subseteq> {..<length orig} \<and>
     (\<forall>a < length orig. sp_leases (fs_snaps fs ! a) = count H a \<and>
        sp_path (fs_snaps fs ! a) = (if spent H fs a then [] else orig ! a)) \<and>
     set (fs_unlinked fs) = (!) orig ` {a. a < length orig \<and> spent H fs a}"

definition gone :: "FileStore \<Rightarrow> nat set" where
  "gone fs = {a. a < length (fs_snaps fs) \<and> sp_removed (fs_snaps fs ! a)}"

lemma settle_snap_fields [simp]:
  "fs_byAgent (settle_snap a s fs) = fs_byAgent fs" "length (fs_snaps (settle_snap a s fs)) = length (fs_snaps fs)"
  by (simp_all add: settle_snap_def set_snap_def removeOutputFileSnapshot_def split: prod.split)

text \<open>A change of a snapshot's mark and leases, as \<open>Cleanup\<close> and \<open>release\<close> make it.\<close>

lemma settle_ok:
  assumes ok: "snaps_ok orig H fs" and a: "a < length orig"
    and s: "s = (fs_snaps fs ! a)\<lparr>sp_removed := r, sp_leases := count H' a\<rparr>"
    and r: "sp_removed (fs_snaps fs ! a) \<Longrightarrow> r"
    and H': "set_mset H' \<subseteq> {..<length orig}" "\<And>b. b \<noteq> a \<Longrightarrow> count H' b = count H b" "count H' a \<le> count H a"
  shows "snaps_ok orig H' (settle_snap a s fs) \<and> gone (settle_snap a s fs) = (if r then insert a (gone fs) else gone fs)"
proof -
  let ?v = "settle_snap a s fs"
  have len: "length (fs_snaps fs) = length orig" using ok by (simp add: snaps_ok_def)
  have new: "fs_snaps ?v ! b = (if b = a then snd (takeRemovalLocked s) else fs_snaps fs ! b)" if "b < length orig" for b
    using that a len by (simp add: settle_snap_def set_snap_def removeOutputFileSnapshot_def split: prod.split)
  have path: "sp_path (fs_snaps fs ! a) = (if spent H fs a then [] else orig ! a)" "orig ! a \<noteq> []"
    using ok a by (auto simp: snaps_ok_def) (metis nth_mem)
  have spent: "spent H' ?v b = (if b = a then r \<and> count H' a = 0 else spent H fs b)" if "b < length orig" for b
    using new [OF that] H'(2) s by (simp add: spent_def takeRemovalLocked_def)
  have mono: "spent H fs a \<Longrightarrow> r \<and> count H' a = 0" using r H'(3) by (simp add: spent_def)
  have old: "set (fs_unlinked fs) = (!) orig ` {b. b < length orig \<and> spent H fs b}" using ok by (simp add: snaps_ok_def)
  have un: "set (fs_unlinked ?v) = set (fs_unlinked fs) \<union> (if r \<and> count H' a = 0 then {orig ! a} else {})"
    using path a s old
    by (auto simp: settle_snap_def set_snap_def removeOutputFileSnapshot_def takeRemovalLocked_def count_eq_zero_iff split: if_splits)
  have "{b. b < length orig \<and> spent H' ?v b} = {b. b < length orig \<and> spent H fs b} \<union> (if r \<and> count H' a = 0 then {a} else {})"
    using spent mono a by (auto simp: count_eq_zero_iff split: if_splits)
  then have "set (fs_unlinked ?v) = (!) orig ` {b. b < length orig \<and> spent H' ?v b}"
    by (auto simp: un old count_eq_zero_iff)
  moreover have "sp_leases (fs_snaps ?v ! b) = count H' b" if "b < length orig" for b
    using ok that new [OF that] s H'(2) by (auto simp: snaps_ok_def takeRemovalLocked_def)
  moreover have "sp_path (fs_snaps ?v ! b) = (if spent H' ?v b then [] else orig ! b)" if "b < length orig" for b
  proof (cases "b = a")
    case True
    with new [OF a] spent [OF a] path mono s show ?thesis by (auto simp: takeRemovalLocked_def count_eq_zero_iff)
  next
    case False
    with ok that new [OF that] spent [OF that] show ?thesis by (simp add: snaps_ok_def)
  qed
  ultimately have "snaps_ok orig H' ?v" using ok H'(1) by (simp add: snaps_ok_def)
  moreover have "gone ?v = (if r then insert a (gone fs) else gone fs)"
    using new r a len s by (auto simp: gone_def takeRemovalLocked_def split: if_splits)
  ultimately show ?thesis ..
qed

lemma cleanup_ok:
  assumes "snaps_ok orig H fs" and "a < length orig"
  shows "snaps_ok orig H (snapCleanup a fs) \<and> gone (snapCleanup a fs) = insert a (gone fs) \<and> fs_byAgent (snapCleanup a fs) = fs_byAgent fs"
proof -
  have "(fs_snaps fs ! a)\<lparr>sp_removed := True\<rparr> = (fs_snaps fs ! a)\<lparr>sp_removed := True, sp_leases := count H a\<rparr>"
    using assms by (simp add: snaps_ok_def)
  moreover have "set_mset H \<subseteq> {..<length orig}" using assms(1) unfolding snaps_ok_def by blast
  ultimately show ?thesis using settle_ok [OF assms, where r = True and H' = H] by (simp add: snapCleanup_def)
qed

lemma release_ok:
  assumes "snaps_ok orig H fs" and "a \<in># H"
  shows "snaps_ok orig (H - {#a#}) (snapRelease a fs) \<and> gone (snapRelease a fs) = gone fs \<and> fs_byAgent (snapRelease a fs) = fs_byAgent fs"
proof -
  have a: "a < length orig" using assms by (auto simp: snaps_ok_def)
  let ?s = "(fs_snaps fs ! a)\<lparr>sp_leases := sp_leases (fs_snaps fs ! a) - 1\<rparr>"
  have "?s = (fs_snaps fs ! a)\<lparr>sp_removed := sp_removed (fs_snaps fs ! a), sp_leases := count (H - {#a#}) a\<rparr>"
    using assms a by (simp add: snaps_ok_def)
  moreover have "set_mset (H - {#a#}) \<subseteq> {..<length orig}" using assms(1) by (auto simp: snaps_ok_def dest: in_diffD)
  moreover have "sp_removed (fs_snaps fs ! a) \<Longrightarrow> insert a (gone fs) = gone fs"
    using assms(1) a by (auto simp: gone_def snaps_ok_def)
  ultimately show ?thesis
    using settle_ok [OF assms(1) a, where s = ?s and r = "sp_removed (fs_snaps fs ! a)" and H' = "H - {#a#}"] by (auto simp: snapRelease_def)
qed

lemma lease_ok:
  assumes "snaps_ok orig H fs" and "a < length orig" and "sp_path (fs_snaps fs ! a) \<noteq> []"
  defines "fs' \<equiv> set_snap a ((fs_snaps fs ! a)\<lparr>sp_leases := sp_leases (fs_snaps fs ! a) + 1\<rparr>) fs"
  shows "snaps_ok orig (add_mset a H) fs' \<and> gone fs' = gone fs \<and> fs_byAgent fs' = fs_byAgent fs"
proof -
  have len: "length (fs_snaps fs) = length orig" using assms(1) by (simp add: snaps_ok_def)
  have new: "fs_snaps fs' ! b = (if b = a then (fs_snaps fs ! a)\<lparr>sp_leases := sp_leases (fs_snaps fs ! a) + 1\<rparr> else fs_snaps fs ! b)" for b
    using assms(2) len by (simp add: fs'_def set_snap_def)
  have "\<not> spent H fs a" using assms(1-3) by (auto simp: snaps_ok_def)
  then have "spent (add_mset a H) fs' b = spent H fs b" for b by (auto simp: spent_def new)
  then have "snaps_ok orig (add_mset a H) fs'"
    using assms(1,2) len by (auto simp: snaps_ok_def new) (simp_all add: fs'_def set_snap_def)
  moreover have "gone fs' = gone fs" "fs_byAgent fs' = fs_byAgent fs"
    using new by (auto simp: gone_def fs'_def set_snap_def)
  ultimately show ?thesis by blast
qed

lemma retain_ok:
  assumes "snaps_ok orig H fs" and "a < length orig" and "snapRetain a fs = (True, fs')"
  shows "snaps_ok orig (add_mset a H) fs' \<and> gone fs' = gone fs \<and> fs_byAgent fs' = fs_byAgent fs"
  using assms(3) lease_ok [OF assms(1,2)] by (auto simp: snapRetain_def Let_def split: if_splits)

lemma retain_refused: "snapRetain a fs = (False, fs') \<Longrightarrow> fs' = fs"
  by (auto simp: snapRetain_def Let_def split: if_splits)

lemma openVerified_ok:
  assumes "snaps_ok orig H fs" and "a < length orig" and "openVerified opens verified a fs = (b, fs')"
  shows "snaps_ok orig (if b then add_mset a H else H) fs' \<and> gone fs' = gone fs \<and> fs_byAgent fs' = fs_byAgent fs"
proof (cases "sp_path (fs_snaps fs ! a) = [] \<or> \<not> opens")
  case True
  with assms show ?thesis by (auto simp: openVerified_def Let_def)
next
  case False
  let ?v = "set_snap a ((fs_snaps fs ! a)\<lparr>sp_leases := sp_leases (fs_snaps fs ! a) + 1\<rparr>) fs"
  have v: "snaps_ok orig (add_mset a H) ?v" "gone ?v = gone fs" "fs_byAgent ?v = fs_byAgent fs"
    using lease_ok [OF assms(1,2)] False by simp_all
  with release_ok [OF v(1), of a] False assms(3) show ?thesis
    by (auto simp: openVerified_def Let_def split: if_splits)
qed

lemma new_snapshot_ok:
  assumes "snaps_ok orig H fs" and "new_snapshot path meta fs = (f, fs')" and "path \<noteq> []" and "path \<notin> set orig"
  shows "snaps_ok (orig @ [path]) H fs' \<and> gone fs' = gone fs \<and> fs_byAgent fs' = fs_byAgent fs \<and> f = meta\<lparr>of_snapshot := Some (length orig)\<rparr>"
proof -
  let ?n = "length orig"
  have len: "length (fs_snaps fs) = ?n" using assms(1) by (simp add: snaps_ok_def)
  have fs': "fs' = fs\<lparr>fs_snaps := fs_snaps fs @ [\<lparr>sp_path = path, sp_removed = False, sp_leases = 0\<rparr>]\<rparr>"
    "f = meta\<lparr>of_snapshot := Some ?n\<rparr>" using assms(2) len by (auto simp: new_snapshot_def)
  have n: "count H ?n = 0" using assms(1) by (auto simp: snaps_ok_def not_in_iff)
  have sp: "spent H fs' b = (b < ?n \<and> spent H fs b)" if "b \<le> ?n" for b
    using that len by (auto simp: spent_def fs' nth_append)
  have "{b. b < Suc ?n \<and> spent H fs' b} = {b. b < ?n \<and> spent H fs b}" using sp by auto
  moreover have "(!) (orig @ [path]) ` {b. b < ?n \<and> spent H fs b} = (!) orig ` {b. b < ?n \<and> spent H fs b}"
    by (auto simp: nth_append image_iff)
  ultimately have "set (fs_unlinked fs') = (!) (orig @ [path]) ` {b. b < Suc ?n \<and> spent H fs' b}"
    using assms(1) by (simp add: snaps_ok_def fs')
  moreover have "sp_leases (fs_snaps fs' ! b) = count H b \<and> sp_path (fs_snaps fs' ! b) = (if spent H fs' b then [] else (orig @ [path]) ! b)"
    if "b < Suc ?n" for b
    using that assms(1) len n sp by (cases "b = ?n") (auto simp: snaps_ok_def fs' nth_append)
  ultimately have "snaps_ok (orig @ [path]) H fs'"
    using assms len by (auto simp: snaps_ok_def fs'(1))
  moreover have "gone fs' = gone fs" by (auto simp: gone_def fs'(1) nth_append less_Suc_eq)
  ultimately show ?thesis by (simp add: fs')
qed

subsection \<open>The entries of the store\<close>

definition entries :: "FileStore \<Rightarrow> (string \<times> string \<times> storedFile) set" where
  "entries fs = {(g, i, f). (i, f) \<in> set (mgets (fs_byAgent fs) g)}"

definition addrs :: "OutputFile set \<Rightarrow> nat set" where
  "addrs A = {a. \<exists>f \<in> A. of_snapshot f = Some a}"

definition stored :: "FileStore \<Rightarrow> nat set" where
  "stored fs = addrs ((\<lambda>x. sf_file (snd (snd x))) ` entries fs)"

definition keyed :: "FileStore \<Rightarrow> bool" where
  "keyed fs \<longleftrightarrow> (\<forall>g. distinct (map fst (mgets (fs_byAgent fs) g)))"

definition apart :: "FileStore \<Rightarrow> bool" where
  "apart fs \<longleftrightarrow> (\<forall>x \<in> entries fs. \<forall>y \<in> entries fs. \<forall>a.
     of_snapshot (sf_file (snd (snd x))) = Some a \<longrightarrow> of_snapshot (sf_file (snd (snd y))) = Some a \<longrightarrow> x = y)"

lemma entries_cong: "fs_byAgent fs' = fs_byAgent fs \<Longrightarrow> entries fs' = entries fs \<and> keyed fs' = keyed fs"
  by (simp add: entries_def keyed_def)

lemma mgets_set_files [simp]:
  "mgets (fs_byAgent (set_files g files fs)) g' = (if g' = g then files else mgets (fs_byAgent fs) g')"
  by (simp add: set_files_def)

lemma set_files_snaps [simp]: "fs_snaps (set_files g files fs) = fs_snaps fs" "fs_unlinked (set_files g files fs) = fs_unlinked fs"
  by (simp_all add: set_files_def)

lemma snaps_ok_cong:
  "fs_snaps fs' = fs_snaps fs \<Longrightarrow> fs_unlinked fs' = fs_unlinked fs \<Longrightarrow> snaps_ok orig H fs' = snaps_ok orig H fs \<and> gone fs' = gone fs"
  by (simp add: snaps_ok_def gone_def spent_def)

lemma entry_lookup: "keyed fs \<Longrightarrow> mget (mgets (fs_byAgent fs) g) i = Some f \<longleftrightarrow> (g, i, f) \<in> entries fs"
  by (simp add: keyed_def entries_def map_of_eq_Some_iff)

lemma cleanup_file_ok:
  assumes "snaps_ok orig H fs" and "\<And>f a. file = Some f \<Longrightarrow> of_snapshot f = Some a \<Longrightarrow> a < length orig"
  shows "snaps_ok orig H (fileCleanup file fs) \<and> fs_byAgent (fileCleanup file fs) = fs_byAgent fs \<and>
    gone (fileCleanup file fs) = gone fs \<union> addrs (set_option file)"
  using assms cleanup_ok [OF assms(1)] by (auto simp: fileCleanup_def addrs_def split: option.splits)

lemma cleanup_files_ok:
  assumes "snaps_ok orig H fs" and "addrs (\<Union>(set_option ` set files)) \<subseteq> {..<length orig}"
  shows "snaps_ok orig H (cleanup_files files fs) \<and> fs_byAgent (cleanup_files files fs) = fs_byAgent fs \<and>
    gone (cleanup_files files fs) = gone fs \<union> addrs (\<Union>(set_option ` set files))"
  using assms
proof (induction files arbitrary: fs)
  case Nil
  then show ?case by (simp add: cleanup_files_def addrs_def)
next
  case (Cons x files)
  have one: "snaps_ok orig H (fileCleanup x fs)" "fs_byAgent (fileCleanup x fs) = fs_byAgent fs"
    "gone (fileCleanup x fs) = gone fs \<union> addrs (set_option x)"
    using cleanup_file_ok [OF Cons.prems(1), of x] Cons.prems(2) by (auto simp: addrs_def)
  have split: "addrs (\<Union>(set_option ` set (x # files))) = addrs (set_option x) \<union> addrs (\<Union>(set_option ` set files))"
    by (auto simp: addrs_def)
  have "addrs (\<Union>(set_option ` set files)) \<subseteq> {..<length orig}" using Cons.prems(2) split by blast
  from Cons.IH [OF one(1) this] one split show ?case by (simp add: cleanup_files_def Un_assoc)
qed

lemma filePut_ok:
  assumes "filePut g file fs = (r, fs')" and "keyed fs"
  shows "fs_snaps fs' = fs_snaps fs \<and> fs_unlinked fs' = fs_unlinked fs \<and> keyed fs' \<and>
    (case r of Some e \<Rightarrow> entries fs' = entries fs
     | None \<Rightarrow> of_snapshot (sf_file file) \<noteq> None \<and> entries fs' = insert (g, of_ID (sf_file file), file) (entries fs) \<and>
         (\<forall>f. (g, of_ID (sf_file file), f) \<notin> entries fs))"
proof (cases "of_snapshot (sf_file file) = None")
  case True
  with assms show ?thesis by (auto simp: filePut_def)
next
  case False
  let ?files = "mgets (fs_byAgent fs) g" and ?i = "of_ID (sf_file file)"
  have d: "distinct (map fst ?files)" using assms(2) by (simp add: keyed_def)
  show ?thesis
  proof (cases "mget ?files ?i")
    case None
    then have "r = None" "fs' = fs\<lparr>fs_byAgent := mput g (mput ?i file ?files) (fs_byAgent fs)\<rparr>"
      using assms(1) False by (auto simp: filePut_def)
    moreover have "(i, f) \<in> set (mput ?i file ?files) \<longleftrightarrow> (i, f) = (?i, file) \<or> (i, f) \<in> set ?files" for i f
      using None d by (auto simp: mem_mput mget_None_key image_iff)
    moreover have "(?i, f) \<notin> set ?files" for f using None by (auto simp: mget_None_key image_iff)
    ultimately show ?thesis using False assms(2) by (auto simp: entries_def keyed_def split: if_splits)
  next
    case (Some f)
    then have "r \<noteq> None" "fs' = fs\<lparr>fs_byAgent := mput g ?files (fs_byAgent fs)\<rparr>"
      using assms(1) False by (auto simp: filePut_def)
    then show ?thesis using assms(2) by (auto simp: entries_def keyed_def split: if_splits)
  qed
qed

lemma set_files_entries:
  "entries (set_files g files fs) = {(g', i, f). if g' = g then (i, f) \<in> set files else (g', i, f) \<in> entries fs}"
  by (auto simp: entries_def)

lemma fileDelete_ok:
  assumes "fileDelete g i fs = (r, fs')" and "keyed fs"
  shows "fs_snaps fs' = fs_snaps fs \<and> fs_unlinked fs' = fs_unlinked fs \<and> keyed fs' \<and>
    entries fs' = {(g', i', f). (g', i', f) \<in> entries fs \<and> \<not> (g' = g \<and> i' = i)} \<and>
    (case r of Some f \<Rightarrow> (g, i, f) \<in> entries fs | None \<Rightarrow> (\<forall>f. (g, i, f) \<notin> entries fs))"
proof (cases "mget (mgets (fs_byAgent fs) g) i")
  case None
  then have none: "(g, i, f) \<notin> entries fs" for f by (auto simp: entries_def mget_None_key image_iff)
  have "r = None" "fs' = fs" using assms(1) None by (simp_all add: fileDelete_def)
  with none assms(2) show ?thesis by auto
next
  case (Some f)
  then have "r = Some f" and fs': "fs' = set_files g (mdel i (mgets (fs_byAgent fs) g)) fs"
    using assms(1) by (simp_all add: fileDelete_def)
  moreover have "(g, i, f) \<in> entries fs" using Some assms(2) by (simp add: entry_lookup)
  moreover have "keyed fs'" using assms(2) by (simp add: keyed_def fs')
  moreover have "entries fs' = {(g', i', f). (g', i', f) \<in> entries fs \<and> \<not> (g' = g \<and> i' = i)}"
    by (auto simp: fs' set_files_entries mem_mdel) (auto simp: entries_def)
  ultimately show ?thesis by simp
qed

subsection \<open>Registration\<close>

lemma stored_alt: "stored fs = {a. \<exists>x \<in> entries fs. of_snapshot (sf_file (snd (snd x))) = Some a}"
  unfolding stored_def addrs_def by blast

lemma stored_addr: "a \<in> stored fs \<longleftrightarrow> (\<exists>g i f. (g, i, f) \<in> entries fs \<and> of_snapshot (sf_file f) = Some a)"
  by (simp add: stored_def addrs_def) (metis (no_types, lifting) prod.collapse snd_conv)

lemma stored_mono: "entries v \<subseteq> entries fs \<Longrightarrow> stored v \<subseteq> stored fs"
  unfolding stored_def addrs_def by blast

definition named_addrs :: "string \<Rightarrow> string set \<Rightarrow> FileStore \<Rightarrow> nat set" where
  "named_addrs g ids fs = addrs {sf_file f | f i. (g, i, f) \<in> entries fs \<and> i \<in> ids}"

lemma take_back_ok:
  assumes "snaps_ok orig H fs" and "keyed fs" and "stored fs \<subseteq> {..<length orig}"
  shows "snaps_ok orig H (take_back g i fs) \<and> keyed (take_back g i fs) \<and>
    entries (take_back g i fs) = {(g', i', f). (g', i', f) \<in> entries fs \<and> \<not> (g' = g \<and> i' = i)} \<and>
    gone fs \<subseteq> gone (take_back g i fs) \<and> gone (take_back g i fs) \<subseteq> gone fs \<union> named_addrs g {i} fs"
proof -
  obtain r v where del: "fileDelete g i fs = (r, v)" by (cases "fileDelete g i fs")
  note D = fileDelete_ok [OF del assms(2)]
  have v: "snaps_ok orig H v" "gone v = gone fs" using D snaps_ok_cong assms(1) by blast+
  show ?thesis
  proof (cases r)
    case None
    then have "take_back g i fs = v" using del by (simp add: take_back_def)
    with D v show ?thesis by auto
  next
    case (Some f)
    then have t: "take_back g i fs = fileCleanup (Some (sf_file f)) v" using del by (simp add: take_back_def)
    have f: "(g, i, f) \<in> entries fs" using D Some by simp
    then have "of_snapshot (sf_file f) = Some a \<Longrightarrow> a < length orig" for a using assms(3) stored_addr by blast
    then have C: "snaps_ok orig H (take_back g i fs)" "fs_byAgent (take_back g i fs) = fs_byAgent v"
        "gone (take_back g i fs) = gone fs \<union> addrs {sf_file f}"
      using cleanup_file_ok [OF v(1), of "Some (sf_file f)"] v(2) unfolding t by auto
    have "addrs {sf_file f} \<subseteq> named_addrs g {i} fs" using f by (auto simp: addrs_def named_addrs_def)
    with C D entries_cong [OF C(2)] show ?thesis by auto
  qed
qed

lemma take_back_all_ok:
  assumes "snaps_ok orig H fs" and "keyed fs" and "stored fs \<subseteq> {..<length orig}"
  shows "snaps_ok orig H (fold (take_back g) ids fs) \<and> keyed (fold (take_back g) ids fs) \<and>
    entries (fold (take_back g) ids fs) = {(g', i', f). (g', i', f) \<in> entries fs \<and> \<not> (g' = g \<and> i' \<in> set ids)} \<and>
    gone fs \<subseteq> gone (fold (take_back g) ids fs) \<and> gone (fold (take_back g) ids fs) \<subseteq> gone fs \<union> named_addrs g (set ids) fs"
  using assms
proof (induction ids arbitrary: fs)
  case Nil
  then show ?case by auto
next
  case (Cons i ids)
  let ?v = "take_back g i fs"
  note T = take_back_ok [OF Cons.prems, of g i]
  have "stored ?v \<subseteq> stored fs" using T by (intro stored_mono) auto
  then have "stored ?v \<subseteq> {..<length orig}" using Cons.prems(3) by blast
  note IH = Cons.IH [OF _ _ this] T
  have "named_addrs g (set ids) ?v \<subseteq> named_addrs g (set (i # ids)) fs" "named_addrs g {i} fs \<subseteq> named_addrs g (set (i # ids)) fs"
    using T by (auto simp: named_addrs_def addrs_def)
  then have "gone (fold (take_back g) ids ?v) \<subseteq> gone fs \<union> named_addrs g (set (i # ids)) fs" using IH by blast
  then show ?case using IH by auto
qed

abbreviation turn_entry :: "string \<Rightarrow> string \<Rightarrow> string \<Rightarrow> OutputFile \<Rightarrow> string \<times> string \<times> storedFile" where
  "turn_entry g key t f \<equiv> (g, of_ID f, \<lparr>sf_file = f, sf_conversationKey = key, sf_turnID = t\<rparr>)"

lemma register_ok:
  assumes "register_files g key t every files (map of_ID R) result fs = (r, fs')"
    and "snaps_ok orig H fs" and "keyed fs" and "stored fs \<subseteq> {..<length orig}"
    and "addrs (\<Union>(set_option ` set every)) \<subseteq> {..<length orig}"
    and "entries fs = E \<union> turn_entry g key t ` set R" and "\<forall>f \<in> set R. \<forall>x. (g, of_ID f, x) \<notin> E"
    and "Some ` set R \<subseteq> set every" and "set files \<subseteq> set every"
  shows "snaps_ok orig H fs' \<and> keyed fs' \<and>
    (case r of Inl e \<Rightarrow> entries fs' = E \<and> gone fs' = gone fs \<union> addrs (\<Union>(set_option ` set every))
     | Inr _ \<Rightarrow> gone fs' = gone fs \<and> entries fs' = E \<union> turn_entry g key t ` (set R \<union> {f. Some f \<in> set files \<and> of_snapshot f \<noteq> None}))"
  using assms
proof (induction files arbitrary: R result fs)
  case Nil
  then show ?case by auto
next
  case (Cons x files)
  show ?case
  proof (cases "x = None \<or> of_snapshot (the x) = None")
    case True
    then have "register_files g key t every files (map of_ID R) result fs = (r, fs')" using Cons.prems(1) by (cases x) auto
    from Cons.IH [OF this Cons.prems(2-8)] Cons.prems(9)
    have IH: "snaps_ok orig H fs' \<and> keyed fs' \<and>
      (case r of Inl e \<Rightarrow> entries fs' = E \<and> gone fs' = gone fs \<union> addrs (\<Union>(set_option ` set every))
       | Inr _ \<Rightarrow> gone fs' = gone fs \<and> entries fs' = E \<union> turn_entry g key t ` (set R \<union> {f. Some f \<in> set files \<and> of_snapshot f \<noteq> None}))" by simp
    have same: "{f. Some f \<in> set (x # files) \<and> of_snapshot f \<noteq> None} = {f. Some f \<in> set files \<and> of_snapshot f \<noteq> None}"
      using True by auto
    show ?thesis unfolding same by (rule IH)
  next
    case False
    then obtain f a where f: "x = Some f" "of_snapshot f = Some a" by auto
    let ?e = "\<lparr>sf_file = f, sf_conversationKey = key, sf_turnID = t\<rparr>"
    obtain q v where put: "filePut g ?e fs = (q, v)" by (cases "filePut g ?e fs")
    note P = filePut_ok [OF put Cons.prems(3)]
    have v: "snaps_ok orig H v" "gone v = gone fs" using P snaps_ok_cong Cons.prems(2) by blast+
    show ?thesis
    proof (cases q)
      case (Some e)
      let ?u = "fold (take_back g) (map of_ID R) v"
      have r: "r = Inl e" "fs' = cleanup_files every ?u" using Cons.prems(1) f put Some by auto
      have ent: "entries v = entries fs" and kv: "keyed v" using P Some by simp_all
      then have "stored v \<subseteq> {..<length orig}" using Cons.prems(4) by (simp add: stored_def)
      note T = take_back_all_ok [OF v(1) kv this, of g "map of_ID R"]
      have eu: "entries ?u = E" using T ent Cons.prems(6,7) by auto
      have "named_addrs g (of_ID ` set R) v \<subseteq> addrs (\<Union>(set_option ` set every))"
      proof
        fix b assume "b \<in> named_addrs g (of_ID ` set R) v"
        then obtain x i where x: "(g, i, x) \<in> entries fs" "i \<in> of_ID ` set R" "of_snapshot (sf_file x) = Some b"
          unfolding named_addrs_def addrs_def ent by blast
        then obtain h where "h \<in> set R" "(g, i, x) = turn_entry g key t h" using Cons.prems(6,7) by blast
        then have "Some h \<in> set every" "of_snapshot h = Some b" using Cons.prems(8) x(3) by auto
        then show "b \<in> addrs (\<Union>(set_option ` set every))" unfolding addrs_def by force
      qed
      then have gu: "gone fs \<subseteq> gone ?u" "gone ?u \<subseteq> gone fs \<union> addrs (\<Union>(set_option ` set every))" using T v(2) by auto
      have "snaps_ok orig H ?u" using T by blast
      note C = cleanup_files_ok [OF this Cons.prems(5)]
      have b: "fs_byAgent fs' = fs_byAgent ?u" using C r(2) by simp
      have "keyed fs'" "entries fs' = E" using entries_cong [OF b] T eu by simp_all
      with C gu r show ?thesis by auto
    next
      case None
      have reg: "register_files g key t every files (map of_ID (R @ [f])) (result @ [file_metadata f]) v = (r, fs')"
        using Cons.prems(1) f put None by simp
      have ev: "entries v = E \<union> turn_entry g key t ` set (R @ [f])" "\<forall>x. (g, of_ID f, x) \<notin> entries fs" "keyed v"
        using P None Cons.prems(6) by auto
      have "stored v \<subseteq> {..<length orig}"
      proof
        fix b assume "b \<in> stored v"
        then have "b \<in> stored fs \<or> b = a" using ev(1) f(2) Cons.prems(6) by (auto simp: stored_addr)
        moreover have "a \<in> addrs (\<Union>(set_option ` set every))" using f Cons.prems(9) by (auto simp: addrs_def)
        ultimately show "b \<in> {..<length orig}" using Cons.prems(4,5) by auto
      qed
      moreover have "\<forall>h \<in> set (R @ [f]). \<forall>x. (g, of_ID h, x) \<notin> E" using Cons.prems(6,7) ev(2) by auto
      moreover have "Some ` set (R @ [f]) \<subseteq> set every" "set files \<subseteq> set every" using Cons.prems(8,9) f by auto
      ultimately have IH: "snaps_ok orig H fs' \<and> keyed fs' \<and>
        (case r of Inl e \<Rightarrow> entries fs' = E \<and> gone fs' = gone v \<union> addrs (\<Union>(set_option ` set every))
         | Inr _ \<Rightarrow> gone fs' = gone v \<and> entries fs' = E \<union> turn_entry g key t ` (set (R @ [f]) \<union> {f. Some f \<in> set files \<and> of_snapshot f \<noteq> None}))"
        using Cons.IH [OF reg v(1) ev(3) _ Cons.prems(5) ev(1)] by blast
      have same: "set (R @ [f]) \<union> {f. Some f \<in> set files \<and> of_snapshot f \<noteq> None} = set R \<union> {f. Some f \<in> set (x # files) \<and> of_snapshot f \<noteq> None}"
        using f by auto
      show ?thesis using IH unfolding same v(2) .
    qed
  qed
qed

subsection \<open>All users of a store\<close>

text \<open>
  The state: the store, the files that runtimes have made and not yet handed over, the leases that
  readers hold, and the paths of all snapshots so far. A call of \<open>RegisterTurnFiles\<close> or of a deletion is one step;
  \<open>Get\<close> is two.
\<close>

type_synonym file_sys = "FileStore \<times> OutputFile set \<times> nat multiset \<times> string list"

definition contents :: "OutputFile option list \<Rightarrow> OutputFile set" where
  "contents files = {f. Some f \<in> set files \<and> of_snapshot f \<noteq> None}"

inductive file_step :: "file_sys \<Rightarrow> unit \<Rightarrow> file_sys \<Rightarrow> bool" where
  file_made: "path \<noteq> [] \<Longrightarrow> path \<notin> set orig \<Longrightarrow> new_snapshot path meta fs = (f, fs') \<Longrightarrow>
    file_step (fs, P, H, orig) () (fs', insert f P, H, orig @ [path])"
| file_registered: "contents files \<subseteq> P \<Longrightarrow> RegisterTurnFiles g key t files fs = (r, fs') \<Longrightarrow>
    file_step (fs, P, H, orig) () (fs', P - contents files, H, orig)"
| file_discarded: "contents files \<subseteq> P \<Longrightarrow> file_step (fs, P, H, orig) () (cleanup_files files fs, P - contents files, H, orig)"
| file_uploaded: "path \<noteq> [] \<Longrightarrow> path \<notin> set orig \<Longrightarrow> g \<noteq> [] \<Longrightarrow> filesCreate g (Inr (meta, path)) fs = (r, fs') \<Longrightarrow>
    file_step (fs, P, H, orig) () (fs', P, H, orig @ [path])"
| file_resolved: "fileResolve g i fs = (Inr (f, a), fs') \<Longrightarrow> file_step (fs, P, H, orig) () (fs', P, add_mset a H, orig)"
| file_looked_up: "filesGet_lookup g i fs = (Inr (f, a), fs') \<Longrightarrow> file_step (fs, P, H, orig) () (fs', P, add_mset a H, orig)"
| file_opened: "a \<in># H \<Longrightarrow> filesGet_open ctxDone opens verified a fs = (r, fs') \<Longrightarrow>
    file_step (fs, P, H, orig) () (fs', P, if is_ok r then H else H - {#a#}, orig)"
| file_closed: "a \<in># H \<Longrightarrow> file_step (fs, P, H, orig) () (snapRelease a fs, P, H - {#a#}, orig)"
| file_deleted: "filesDelete g i fs = (r, fs') \<Longrightarrow> file_step (fs, P, H, orig) () (fs', P, H, orig)"
| file_turn_deleted: "file_step (fs, P, H, orig) () (DeleteTurn g key t fs, P, H, orig)"
| file_agent_deleted: "file_step (fs, P, H, orig) () (DeleteAgent g fs, P, H, orig)"

definition file_init :: "file_sys \<Rightarrow> bool" where
  "file_init s \<longleftrightarrow> s = (NewFileStore, {}, {#}, [])"

fun file_inv :: "file_sys \<Rightarrow> bool" where
  "file_inv (fs, P, H, orig) \<longleftrightarrow>
     snaps_ok orig H fs \<and> keyed fs \<and> apart fs \<and> stored fs \<subseteq> {..<length orig} \<and>
     (\<forall>f \<in> P. \<exists>a < length orig. of_snapshot f = Some a) \<and> inj_on of_snapshot P \<and> addrs P \<inter> stored fs = {} \<and>
     gone fs = {..<length orig} - stored fs - addrs P"

text \<open>Deleting entries: their snapshots are marked, nothing else changes.\<close>

lemma delete_entries_inv:
  assumes inv: "file_inv (fs, P, H, orig)" and D: "D \<subseteq> entries fs"
    and v: "entries v = entries fs - D" "keyed v" "fs_snaps v = fs_snaps fs" "fs_unlinked v = fs_unlinked fs"
    and files: "\<Union>(set_option ` set files) = (\<lambda>x. sf_file (snd (snd x))) ` D"
  shows "file_inv (cleanup_files files v, P, H, orig)"
proof -
  let ?w = "cleanup_files files v"
  have I: "snaps_ok orig H fs" "apart fs" "stored fs \<subseteq> {..<length orig}" "addrs P \<inter> stored fs = {}"
    "gone fs = {..<length orig} - stored fs - addrs P" using inv by auto
  have A: "addrs (\<Union>(set_option ` set files)) = {a. \<exists>x \<in> D. of_snapshot (sf_file (snd (snd x))) = Some a}"
    unfolding files addrs_def by blast
  have sub: "addrs (\<Union>(set_option ` set files)) \<subseteq> stored fs" using D unfolding A stored_alt by blast
  have "snaps_ok orig H v" "gone v = gone fs" using snaps_ok_cong [OF v(3,4)] I(1) by simp_all
  then have C: "snaps_ok orig H ?w" "fs_byAgent ?w = fs_byAgent v" "gone ?w = gone fs \<union> addrs (\<Union>(set_option ` set files))"
    using cleanup_files_ok [of orig H v files] sub I(3) by auto
  have e: "entries ?w = entries fs - D" "keyed ?w" using entries_cong [OF C(2)] v(1,2) by simp_all
  have "stored ?w \<inter> addrs (\<Union>(set_option ` set files)) = {}"
  proof (rule ccontr)
    assume "stored ?w \<inter> addrs (\<Union>(set_option ` set files)) \<noteq> {}"
    then obtain a x y where "x \<in> entries fs - D" "of_snapshot (sf_file (snd (snd x))) = Some a"
        "y \<in> D" "of_snapshot (sf_file (snd (snd y))) = Some a" unfolding A stored_alt e(1) by blast
    moreover then have "x = y" using I(2) D unfolding apart_def by blast
    ultimately show False by blast
  qed
  moreover have "stored fs = stored ?w \<union> addrs (\<Union>(set_option ` set files))"
    using D unfolding A stored_alt e(1) by blast
  ultimately have "gone ?w = {..<length orig} - stored ?w - addrs P" "addrs P \<inter> stored ?w = {}" "stored ?w \<subseteq> {..<length orig}"
    using I(3,4,5) C(3) by auto
  moreover have "apart ?w" using I(2) e(1) unfolding apart_def by blast
  ultimately show ?thesis using inv C(1) e(2) by simp
qed

lemma addrs_apart:
  assumes "inj_on of_snapshot P" and "C \<subseteq> P"
  shows "addrs (P - C) \<inter> addrs C = {}"
proof (rule ccontr)
  assume "addrs (P - C) \<inter> addrs C \<noteq> {}"
  then obtain f h where "f \<in> P - C" "h \<in> C" "of_snapshot f = of_snapshot h" unfolding addrs_def by fastforce
  moreover then have "f = h" using assms by (auto dest: inj_onD)
  ultimately show False by blast
qed

lemma addrs_split: "C \<subseteq> P \<Longrightarrow> addrs P = addrs (P - C) \<union> addrs C"
  unfolding addrs_def by blast

lemma discard_inv:
  assumes "file_inv (fs, P, H, orig)" and "C \<subseteq> P"
    and "entries v = entries fs" and "keyed v" and "snaps_ok orig H v" and "gone v = gone fs \<union> addrs C"
  shows "file_inv (v, P - C, H, orig)"
proof -
  have I: "apart fs" "stored fs \<subseteq> {..<length orig}" "\<forall>f \<in> P. \<exists>a < length orig. of_snapshot f = Some a" "inj_on of_snapshot P"
    "addrs P \<inter> stored fs = {}" "gone fs = {..<length orig} - stored fs - addrs P" using assms(1) by auto
  have "addrs P \<subseteq> {..<length orig}" using I(3) by (force simp: addrs_def)
  then have "gone v = {..<length orig} - stored fs - addrs (P - C)"
    using addrs_apart [OF I(4) assms(2)] addrs_split [OF assms(2)] assms(6) I(5,6) by auto
  moreover have "stored v = stored fs" "apart v" using assms(3) I(1) by (simp_all add: stored_def apart_def)
  moreover have "\<forall>f \<in> P - C. \<exists>a < length orig. of_snapshot f = Some a" "inj_on of_snapshot (P - C)"
    using I(3,4) by (auto intro: inj_on_subset)
  moreover have "addrs (P - C) \<inter> stored fs = {}" using I(5) addrs_split [OF assms(2)] by blast
  ultimately show ?thesis using assms(4,5) I(2) by simp
qed

lemma made_inv:
  assumes "file_inv (fs, P, H, orig)" and "path \<noteq> []" and "path \<notin> set orig" and "new_snapshot path meta fs = (f, fs')"
  shows "file_inv (fs', insert f P, H, orig @ [path]) \<and> f \<notin> P \<and> of_snapshot f \<noteq> None \<and> of_ID f = of_ID meta"
proof -
  have I: "snaps_ok orig H fs" "apart fs" "stored fs \<subseteq> {..<length orig}" "\<forall>f \<in> P. \<exists>a < length orig. of_snapshot f = Some a"
    "inj_on of_snapshot P" "addrs P \<inter> stored fs = {}" "gone fs = {..<length orig} - stored fs - addrs P" "keyed fs" using assms(1) by auto
  note N = new_snapshot_ok [OF I(1) assms(4,2,3)]
  then have f: "of_snapshot f = Some (length orig)" "of_ID f = of_ID meta" by simp_all
  then have fresh: "f \<notin> P" "\<forall>h \<in> P. of_snapshot h \<noteq> of_snapshot f" using I(4) by fastforce+
  have b: "entries fs' = entries fs" "keyed fs'" using entries_cong [of fs' fs] N I(8) by auto
  then have "stored fs' = stored fs" "apart fs'" using I(2) by (simp_all add: stored_def apart_def)
  moreover have "addrs (insert f P) = insert (length orig) (addrs P)" using f(1) by (auto simp: addrs_def)
  moreover have "inj_on of_snapshot (insert f P)" using I(5) fresh by (auto simp: inj_on_def)
  moreover have "\<forall>h \<in> insert f P. \<exists>a < length (orig @ [path]). of_snapshot h = Some a" using I(4) f(1) by (auto simp: less_Suc_eq)
  ultimately have "file_inv (fs', insert f P, H, orig @ [path])"
    using N b I(3,6,7) by (auto simp: less_Suc_eq)
  with f fresh show ?thesis by simp
qed

lemma put_pending_inv:
  assumes "file_inv (fs, P, H, orig)" and "C \<subseteq> P"
    and "entries v = entries fs \<union> E" and "keyed v" and "snaps_ok orig H v" and "gone v = gone fs"
    and "\<And>x. x \<in> E \<Longrightarrow> sf_file (snd (snd x)) \<in> C" and "\<And>f. f \<in> C \<Longrightarrow> \<exists>x \<in> E. sf_file (snd (snd x)) = f"
    and "inj_on (\<lambda>x. sf_file (snd (snd x))) E"
  shows "file_inv (v, P - C, H, orig)"
proof -
  have I: "apart fs" "stored fs \<subseteq> {..<length orig}" "\<forall>f \<in> P. \<exists>a < length orig. of_snapshot f = Some a" "inj_on of_snapshot P"
    "addrs P \<inter> stored fs = {}" "gone fs = {..<length orig} - stored fs - addrs P" using assms(1) by auto
  have C: "addrs C \<subseteq> addrs P" "addrs P \<subseteq> {..<length orig}" using assms(2) I(3) by (force simp: addrs_def)+
  have "stored v = stored fs \<union> addrs ((\<lambda>x. sf_file (snd (snd x))) ` E)"
    unfolding stored_def assms(3) addrs_def by blast
  also have "(\<lambda>x. sf_file (snd (snd x))) ` E = C" using assms(7,8) by blast
  finally have st: "stored v = stored fs \<union> addrs C" .
  have "addrs (P - C) \<inter> addrs C = {}" by (rule addrs_apart [OF I(4) assms(2)])
  moreover have "addrs P = addrs (P - C) \<union> addrs C" using assms(2) by (auto simp: addrs_def)
  ultimately have g: "gone v = {..<length orig} - stored v - addrs (P - C)" "addrs (P - C) \<inter> stored v = {}" "stored v \<subseteq> {..<length orig}"
    using I(2,5,6) C assms(6) st by auto
  have "apart v"
    unfolding apart_def assms(3)
  proof (intro ballI allI impI)
    fix x y a
    assume x: "x \<in> entries fs \<union> E" "of_snapshot (sf_file (snd (snd x))) = Some a"
      and y: "y \<in> entries fs \<union> E" "of_snapshot (sf_file (snd (snd y))) = Some a"
    have old: "z \<in> entries fs \<Longrightarrow> of_snapshot (sf_file (snd (snd z))) = Some a \<Longrightarrow> a \<in> stored fs" for z
      unfolding stored_alt by blast
    have new: "z \<in> E \<Longrightarrow> of_snapshot (sf_file (snd (snd z))) = Some a \<Longrightarrow> a \<in> addrs P" for z
      using assms(2,7) unfolding addrs_def by blast
    show "x = y"
    proof (cases "a \<in> stored fs")
      case True
      then have "x \<in> entries fs" "y \<in> entries fs" using x y new I(5) by blast+
      with x(2) y(2) I(1) show ?thesis unfolding apart_def by blast
    next
      case False
      then have e: "x \<in> E" "y \<in> E" using x y old by blast+
      then have "sf_file (snd (snd x)) = sf_file (snd (snd y))"
        using I(4) assms(2,7) x(2) y(2) by (metis inj_onD subsetD)
      with assms(9) e show ?thesis by (auto dest: inj_onD)
    qed
  qed
  moreover have "\<forall>f \<in> P - C. \<exists>a < length orig. of_snapshot f = Some a" "inj_on of_snapshot (P - C)"
    using I(3,4) by (auto intro: inj_on_subset)
  ultimately show ?thesis using g assms(4,5) by simp
qed

lemma contents_addrs: "addrs (\<Union>(set_option ` set files)) = addrs (contents files)"
  by (auto simp: addrs_def contents_def)

lemma pending_bound: "file_inv (fs, P, H, orig) \<Longrightarrow> C \<subseteq> P \<Longrightarrow> addrs C \<subseteq> {..<length orig}"
  by (force simp: addrs_def)

lemma registered_inv:
  assumes "file_inv (fs, P, H, orig)" and "contents files \<subseteq> P" and "RegisterTurnFiles g key t files fs = (r, fs')"
  shows "file_inv (fs', P - contents files, H, orig)"
proof -
  have I: "snaps_ok orig H fs" "keyed fs" "stored fs \<subseteq> {..<length orig}" using assms(1) by auto
  have "register_files g key t files files (map of_ID []) [] fs = (r, fs')" using assms(3) by (simp add: RegisterTurnFiles_def)
  note R = register_ok [OF this I, of "entries fs", unfolded contents_addrs contents_def [symmetric] list.set(1) Un_empty_left]
  have S: "snaps_ok orig H fs'" "keyed fs'" "case r of Inl e \<Rightarrow> entries fs' = entries fs \<and> gone fs' = gone fs \<union> addrs (contents files)
     | Inr _ \<Rightarrow> gone fs' = gone fs \<and> entries fs' = entries fs \<union> turn_entry g key t ` contents files"
    using R pending_bound [OF assms(1,2)] by simp_all
  show ?thesis
  proof (cases r)
    case (Inl e)
    show ?thesis by (intro discard_inv [OF assms(1,2)]) (use S Inl in simp_all)
  next
    case (Inr x)
    show ?thesis
      by (rule put_pending_inv [OF assms(1,2), where E = "turn_entry g key t ` contents files"])
        (use S Inr in \<open>auto simp: inj_on_def\<close>)
  qed
qed

lemma uploaded_inv:
  assumes "file_inv (fs, P, H, orig)" and "path \<noteq> []" and "path \<notin> set orig" and "g \<noteq> []"
    and "filesCreate g (Inr (meta, path)) fs = (r, fs')"
  shows "file_inv (fs', P, H, orig @ [path])"
proof -
  obtain f v where new: "new_snapshot path meta fs = (f, v)" by (cases "new_snapshot path meta fs")
  have M: "file_inv (v, insert f P, H, orig @ [path])" "f \<notin> P" "of_snapshot f \<noteq> None" using made_inv [OF assms(1-3) new] by auto
  have P: "insert f P - {f} = P" using M(2) by blast
  let ?e = "\<lparr>sf_file = f, sf_conversationKey = [], sf_turnID = []\<rparr>"
  obtain q u where put: "filePut g ?e v = (q, u)" by (cases "filePut g ?e v")
  have I: "snaps_ok (orig @ [path]) H v" "keyed v" using M(1) by auto
  note U = filePut_ok [OF put I(2)]
  have u: "snaps_ok (orig @ [path]) H u" "gone u = gone v" using snaps_ok_cong [of u v] U I(1) by auto
  show ?thesis
  proof (cases q)
    case None
    then have "fs' = u" using assms(4,5) new put by (simp add: filesCreate_def)
    moreover have "file_inv (u, insert f P - {f}, H, orig @ [path])"
      by (rule put_pending_inv [OF M(1), where E = "{(g, of_ID f, ?e)}"]) (use U u None in auto)
    ultimately show ?thesis using P by simp
  next
    case (Some e)
    then have fs': "fs' = fileCleanup (Some f) u" using assms(4,5) new put by (simp add: filesCreate_def)
    have "of_snapshot f = Some a \<Longrightarrow> a < length (orig @ [path])" for a using M(1) by auto
    then have C: "snaps_ok (orig @ [path]) H fs'" "fs_byAgent fs' = fs_byAgent u" "gone fs' = gone v \<union> addrs {f}"
      using cleanup_file_ok [OF u(1), of "Some f"] u(2) fs' by auto
    have "entries fs' = entries v" "keyed fs'" using entries_cong [OF C(2)] U Some by simp_all
    from discard_inv [OF M(1), of "{f}", OF _ this C(1,3)] P show ?thesis by simp
  qed
qed

text \<open>Steps that only take and give leases.\<close>

lemma leases_inv:
  assumes "file_inv (fs, P, H, orig)" and "snaps_ok orig H' v" and "gone v = gone fs" and "fs_byAgent v = fs_byAgent fs"
  shows "file_inv (v, P, H', orig)"
  using assms entries_cong [OF assms(4)] by (simp add: stored_def apart_def)

lemma looked_up:
  assumes "file_inv (fs, P, H, orig)" and "mget (mgets (fs_byAgent fs) g) i = Some f" and "of_snapshot (sf_file f) = Some a"
    and "snapRetain a fs = (True, v)"
  shows "file_inv (v, P, add_mset a H, orig)"
proof -
  have I: "snaps_ok orig H fs" "keyed fs" "stored fs \<subseteq> {..<length orig}" using assms(1) by auto
  have "a < length orig" using I assms(2,3) entry_lookup stored_addr by blast
  from retain_ok [OF I(1) this assms(4)] show ?thesis using leases_inv [OF assms(1)] by blast
qed

lemma opened_inv:
  assumes "file_inv (fs, P, H, orig)" and "a \<in># H" and "filesGet_open ctxDone opens verified a fs = (r, fs')"
  shows "file_inv (fs', P, if is_ok r then H else H - {#a#}, orig)"
proof -
  have I: "snaps_ok orig H fs" "a < length orig" using assms(1,2) by (auto simp: snaps_ok_def)
  obtain b v where o: "(if ctxDone then (False, fs) else openVerified opens verified a fs) = (b, v)"
    by (cases "if ctxDone then (False, fs) else openVerified opens verified a fs")
  then have v: "snaps_ok orig (if b then add_mset a H else H) v" "gone v = gone fs" "fs_byAgent v = fs_byAgent fs"
    using openVerified_ok [OF I, of opens verified b v] I(1) by (auto split: if_splits)
  have r: "fs' = snapRelease a v" "is_ok r = b" using assms(3) o by (auto simp: filesGet_open_def split: bool.splits)
  have "snaps_ok orig (if b then H else H - {#a#}) fs' \<and> gone fs' = gone v \<and> fs_byAgent fs' = fs_byAgent v"
    using release_ok [OF v(1), of a] assms(2) r(1) by (cases b) auto
  then have "file_inv (fs', P, if b then H else H - {#a#}, orig)" by (intro leases_inv [OF assms(1)]) (use v in simp_all)
  then show ?thesis unfolding r(2) .
qed

lemma deleted_inv:
  assumes "file_inv (fs, P, H, orig)" and "fileDelete g i fs = (Some f, v)"
  shows "file_inv (fileCleanup (Some (sf_file f)) v, P, H, orig)"
proof -
  have "keyed fs" using assms(1) by simp
  note D = fileDelete_ok [OF assms(2) this]
  have "entries v = entries fs - {x \<in> entries fs. fst x = g \<and> fst (snd x) = i}" using D by auto
  moreover have "{x \<in> entries fs. fst x = g \<and> fst (snd x) = i} = {(g, i, f)}"
    using D \<open>keyed fs\<close> by (auto simp: entry_lookup [symmetric])
  ultimately show ?thesis
    using delete_entries_inv [OF assms(1), of "{(g, i, f)}" v "[Some (sf_file f)]"] D by (simp add: cleanup_files_def)
qed

lemma turn_deleted_inv:
  assumes "file_inv (fs, P, H, orig)"
  shows "file_inv (DeleteTurn g key t fs, P, H, orig)"
proof -
  let ?files = "mgets (fs_byAgent fs) g"
  let ?D = "{x \<in> entries fs. fst x = g \<and> of_turn key t (snd (snd x))}"
  let ?v = "set_files g (filter (\<lambda>(_, file). \<not> of_turn key t file) ?files) fs"
  have "keyed ?v" using assms by (auto simp: keyed_def distinct_map_filter)
  moreover have "entries ?v = entries fs - ?D" by (auto simp: set_files_entries) (auto simp: entries_def)
  moreover have "\<Union>(set_option ` set (map (\<lambda>(_, file). Some (sf_file file)) (filter (\<lambda>(_, file). of_turn key t file) ?files)))
      = (\<lambda>x. sf_file (snd (snd x))) ` ?D"
    by (auto simp: entries_def image_iff) force+
  ultimately show ?thesis
    unfolding DeleteTurn_def Let_def by (intro delete_entries_inv [OF assms, of ?D ?v]) (simp_all del: file_inv.simps, blast?)
qed

lemma agent_deleted_inv:
  assumes "file_inv (fs, P, H, orig)"
  shows "file_inv (DeleteAgent g fs, P, H, orig)"
proof -
  let ?files = "mgets (fs_byAgent fs) g"
  let ?D = "{x \<in> entries fs. fst x = g}"
  let ?v = "fs\<lparr>fs_byAgent := mdel g (fs_byAgent fs)\<rparr>"
  have "keyed ?v" using assms by (auto simp: keyed_def)
  moreover have "entries ?v = entries fs - ?D" by (auto simp: entries_def split: if_splits)
  moreover have "\<Union>(set_option ` set (map (\<lambda>(_, file). Some (sf_file file)) ?files)) = (\<lambda>x. sf_file (snd (snd x))) ` ?D"
    by (auto simp: entries_def image_iff) force+
  ultimately show ?thesis
    unfolding DeleteAgent_def Let_def by (intro delete_entries_inv [OF assms, of ?D ?v]) (simp_all del: file_inv.simps, blast?)
qed

lemma discarded_inv:
  assumes "file_inv (fs, P, H, orig)" and "contents files \<subseteq> P"
  shows "file_inv (cleanup_files files fs, P - contents files, H, orig)"
proof -
  have I: "snaps_ok orig H fs" "keyed fs" using assms(1) by auto
  have C: "snaps_ok orig H (cleanup_files files fs)" "fs_byAgent (cleanup_files files fs) = fs_byAgent fs"
    "gone (cleanup_files files fs) = gone fs \<union> addrs (contents files)"
    using cleanup_files_ok [OF I(1), of files] pending_bound [OF assms] by (simp_all add: contents_addrs)
  show ?thesis by (intro discard_inv [OF assms]) (use C entries_cong [OF C(2)] I(2) in simp_all)
qed

lemma closed_inv:
  assumes "file_inv (fs, P, H, orig)" and "a \<in># H"
  shows "file_inv (snapRelease a fs, P, H - {#a#}, orig)"
proof -
  have "snaps_ok orig H fs" using assms(1) by simp
  from release_ok [OF this assms(2)] show ?thesis by (intro leases_inv [OF assms(1)]) simp_all
qed

lemma resolved_inv:
  assumes "file_inv (fs, P, H, orig)" and "fileResolve g i fs = (Inr (f, a), fs')"
  shows "file_inv (fs', P, add_mset a H, orig)"
proof -
  obtain e where "mget (mgets (fs_byAgent fs) (TrimSpace g)) (TrimSpace i) = Some e" "of_snapshot (sf_file e) = Some a"
      "snapRetain a fs = (True, fs')"
    using assms(2) by (auto simp: fileResolve_def split: option.splits prod.splits bool.splits)
  then show ?thesis by (rule looked_up [OF assms(1)])
qed

lemma lookup_inv:
  assumes "file_inv (fs, P, H, orig)" and "filesGet_lookup g i fs = (Inr (f, a), fs')"
  shows "file_inv (fs', P, add_mset a H, orig)"
proof -
  obtain e where "mget (mgets (fs_byAgent fs) g) (TrimSpace i) = Some e" "of_snapshot (sf_file e) = Some a"
      "snapRetain a fs = (True, fs')"
    using assms(2) by (auto simp: filesGet_lookup_def split: option.splits prod.splits bool.splits if_splits)
  then show ?thesis by (rule looked_up [OF assms(1)])
qed

lemma delete_inv:
  assumes "file_inv (fs, P, H, orig)" and "filesDelete g i fs = (r, fs')"
  shows "file_inv (fs', P, H, orig)"
proof -
  obtain q v where q: "fileDelete g (TrimSpace i) fs = (q, v)" by (cases "fileDelete g (TrimSpace i) fs")
  have "q = None \<Longrightarrow> v = fs" using q by (auto simp: fileDelete_def Let_def split: option.splits)
  then consider "fs' = fs" | f where "q = Some f" "fs' = fileCleanup (Some (sf_file f)) v"
    using assms(2) q by (cases q) (auto simp: filesDelete_def split: if_splits)
  then show ?thesis
  proof cases
    case 1
    with assms(1) show ?thesis by (simp only:)
  next
    case (2 f)
    with deleted_inv [OF assms(1)] q show ?thesis by (simp only:)
  qed
qed

lemmas file_step_inv = registered_inv discarded_inv uploaded_inv resolved_inv lookup_inv opened_inv closed_inv delete_inv
  turn_deleted_inv agent_deleted_inv

interpretation file_store: invariant_system file_init file_step file_inv
proof
  fix s :: file_sys
  assume "file_init s"
  then show "file_inv s"
    by (simp add: file_init_def NewFileStore_def snaps_ok_def keyed_def apart_def stored_def addrs_def entries_def gone_def)
next
  fix s t :: file_sys and x
  assume "file_inv s" and "file_step s x t"
  from this(2,1) show "file_inv t"
    by (cases rule: file_step.cases) (simp only:, blast dest: made_inv intro: file_step_inv)+
qed

subsection \<open>The property\<close>

text \<open>C40. The content of a file, uploaded by a caller or made by a runtime, is deleted from disk exactly when the
  file is no longer in the store, no runtime still has to hand it over and no reader holds a lease: nothing
  that can be read is deleted early, and nothing is left behind.\<close>

theorem file_lifetime:
  assumes "reachable file_init file_step (fs, P, H, orig)" and "a < length orig"
  shows "orig ! a \<in> set (fs_unlinked fs) \<longleftrightarrow> a \<notin> stored fs \<and> a \<notin> addrs P \<and> a \<notin># H"
proof -
  have "file_inv (fs, P, H, orig)" using assms(1) by (rule file_store.reachable_inv)
  then have I: "snaps_ok orig H fs" "gone fs = {..<length orig} - stored fs - addrs P" by simp_all
  have "set (fs_unlinked fs) = (!) orig ` {a. a < length orig \<and> spent H fs a}" "distinct orig" "length (fs_snaps fs) = length orig"
    using I(1) by (simp_all add: snaps_ok_def)
  then have "orig ! a \<in> set (fs_unlinked fs) \<longleftrightarrow> a \<in> gone fs \<and> a \<notin># H"
    using assms(2) by (auto simp: spent_def gone_def nth_eq_iff_index_eq count_eq_zero_iff)
  with I(2) assms(2) show ?thesis by auto
qed

text \<open>A file is uploaded, resolved by a reader, deleted while it is read, and closed.\<close>

definition demo_meta :: OutputFile where
  "demo_meta = \<lparr>of_ID = ''file-1'', of_Name = ''a.txt'', of_MediaType = ''text/plain'', of_SizeBytes = 1, of_SHA256 = [], of_snapshot = None\<rparr>"

definition demo_uploaded :: FileStore where
  "demo_uploaded = snd (filesCreate ''agent'' (Inr (demo_meta, ''tmp1'')) NewFileStore)"

definition demo_reading :: FileStore where "demo_reading = snd (fileResolve ''agent'' ''file-1'' demo_uploaded)"

definition demo_deleted :: FileStore where "demo_deleted = snd (filesDelete ''agent'' ''file-1'' demo_reading)"

theorem file_lifetime_witness:
  "''tmp1'' \<notin> set (fs_unlinked demo_deleted) \<and>
   (''tmp1'' \<in> set (fs_unlinked demo_deleted) \<longleftrightarrow> 0 \<notin> stored demo_deleted \<and> 0 \<notin> addrs {} \<and> 0 \<notin># {#0#}) \<and>
   ''tmp1'' \<in> set (fs_unlinked (snapRelease 0 demo_deleted)) \<and>
   (''tmp1'' \<in> set (fs_unlinked (snapRelease 0 demo_deleted)) \<longleftrightarrow>
      0 \<notin> stored (snapRelease 0 demo_deleted) \<and> 0 \<notin> addrs {} \<and> 0 \<notin># {#})"
proof -
  let ?r = "reachable file_init file_step"
  have "?r (NewFileStore, {}, {#}, [])" by (rule reachable_init) (simp add: file_init_def)
  then have "?r (demo_uploaded, {}, {#}, [] @ [''tmp1''])"
    by (rule reachable_step) (rule file_uploaded [of _ _ "''agent''" demo_meta], simp_all add: demo_uploaded_def [symmetric] prod_eq_iff)
  then have "?r (demo_reading, {}, {#0#}, [''tmp1''])"
    by (rule reachable_step) (simp, rule file_resolved [of "''agent''" "''file-1''" _ "demo_meta\<lparr>of_snapshot := Some 0\<rparr>"], code_simp)
  then have 1: "?r (demo_deleted, {}, {#0#}, [''tmp1''])"
    by (rule reachable_step) (rule file_deleted [of "''agent''" "''file-1''"], simp add: demo_deleted_def prod_eq_iff)
  then have 2: "?r (snapRelease 0 demo_deleted, {}, {#0#} - {#0#}, [''tmp1''])"
    by (rule reachable_step) (rule file_closed, simp)
  have "fs_unlinked demo_deleted = []" "fs_unlinked (snapRelease 0 demo_deleted) = [''tmp1'']" by code_simp+
  with file_lifetime [OF 1, of 0] file_lifetime [OF 2, of 0] show ?thesis by simp
qed

end
