(* ===== verification/TaskMigration.thy ===== *)
theory TaskMigration
  imports TaskStore
begin

section \<open>Migration of task files (\<open>internal/taskcore/migration.go\<close>)\<close>

text \<open>
  Before a store is used, the files of earlier releases are brought into the current layout: records
  without a schema version are stamped, and the legacy files of a task (one aggregate, or a root with
  side files and a journal) become a record and a journal. The legacy files are never written, so they
  are an argument: the files of each directory.

  The order of the writes makes an interrupted migration harmless. Whatever fails, each directory keeps
  its meaning, what the store would load from it or what a later migration would make of it; and a
  migration that succeeds leaves no directory behind whose tasks do not clash with others.
\<close>

subsection \<open>Legacy files\<close>

definition legacyAggregateVersion :: int where "legacyAggregateVersion = 1"

record legacyTaskAggregate =
  lg_Task :: Task
  lg_AggregateVersion :: int
  lg_Children :: "Task list"
  lg_Events :: "TaskEvent list"
  lg_Approvals :: "TaskApproval list"
  lg_Presence :: "TaskPresence list"

definition zero_aggregate :: legacyTaskAggregate where
  "zero_aggregate = \<lparr>lg_Task = zero_task, lg_AggregateVersion = 0, lg_Children = [], lg_Events = [], lg_Approvals = [], lg_Presence = []\<rparr>"

text \<open>\<open>root.json\<close>, \<open>children.json\<close>, \<open>approvals.json\<close> and \<open>presence.json\<close> of a directory.\<close>

record legacy_files =
  lf_root :: "legacyTaskAggregate jfile option"
  lf_children :: "Task list jfile option"
  lf_approvals :: "TaskApproval list jfile option"
  lf_presence :: "TaskPresence list jfile option"

type_synonym legacy_store = "string \<Rightarrow> legacy_files"

definition readOptionalJSONFile :: "'a list jfile option \<Rightarrow> 'a list io" where
  "readOptionalJSONFile f = (case f of None \<Rightarrow> bindE io_step (\<lambda>_. returnE []) | Some g \<Rightarrow> readJSONFile (Some g) [])"

text \<open>Every line has to decode; only an unterminated rest may not.\<close>

fun legacy_lines :: "jline list \<Rightarrow> jtail \<Rightarrow> error + TaskEvent list" where
  "legacy_lines [] (TornEvent e) = Inr [e]"
| "legacy_lines [] _ = Inr []"
| "legacy_lines (Line e # ls) t = map_sum id ((#) e) (legacy_lines ls t)"
| "legacy_lines (BadLine # ls) t = Inl (ErrText ''decode'')"

definition readLegacyTaskEvents :: "string \<Rightarrow> TaskEvent list io" where
  "readLegacyTaskEvents d w =
     bindE io_step (\<lambda>_.
       case mget (w_journal w) d of
         None \<Rightarrow> returnE []
       | Some j \<Rightarrow> (case legacy_lines (j_lines j) (j_tail j) of Inl e \<Rightarrow> throwE e | Inr es \<Rightarrow> returnE es)) w"

definition readLegacyTaskSnapshot :: "legacy_files \<Rightarrow> string \<Rightarrow> Snapshot io" where
  "readLegacyTaskSnapshot files d =
     bindE (readJSONFile (lf_root files) zero_aggregate) (\<lambda>aggregate.
       if lg_AggregateVersion aggregate = legacyAggregateVersion then
         returnE \<lparr>sn_Root = lg_Task aggregate, sn_Children = lg_Children aggregate, sn_Approvals = lg_Approvals aggregate,
           sn_Presence = lg_Presence aggregate, sn_Events = lg_Events aggregate\<rparr>
       else if lg_AggregateVersion aggregate = 0 then
         bindE (readOptionalJSONFile (lf_children files)) (\<lambda>children.
         bindE (readOptionalJSONFile (lf_approvals files)) (\<lambda>approvals.
         bindE (readOptionalJSONFile (lf_presence files)) (\<lambda>presence.
         bindE (readLegacyTaskEvents d) (\<lambda>events.
           returnE \<lparr>sn_Root = lg_Task aggregate, sn_Children = children, sn_Approvals = approvals,
             sn_Presence = presence, sn_Events = events\<rparr>))))
       else throwE (ErrText ''unsupported legacy task aggregate version''))"

subsection \<open>The migration\<close>

definition snapshot_ids :: "Snapshot \<Rightarrow> string list" where
  "snapshot_ids sn = map (\<lambda>t. TrimSpace (t_ID t)) (sn_Root sn # sn_Children sn)"

definition reserveSnapshotTaskIDs :: "(string, string) gomap \<Rightarrow> Snapshot \<Rightarrow> error + (string, string) gomap" where
  "reserveSnapshotTaskIDs occupied sn =
     (let owner = TrimSpace (t_ID (sn_Root sn)) in
      if list_ex (\<lambda>i. mget occupied i \<noteq> None \<and> mget occupied i \<noteq> Some owner) (snapshot_ids sn)
      then Inl (ErrText ''task migration conflict'')
      else Inr (foldl (\<lambda>m i. mput i owner m) occupied (snapshot_ids sn)))"

text \<open>The first loop, over the directories with a record: their identifiers, and the records to be stamped.\<close>

fun current_records :: "string list \<Rightarrow> (string, string) gomap \<Rightarrow> (string \<times> taskRecord) list \<Rightarrow> ((string, string) gomap \<times> (string \<times> taskRecord) list) io" where
  "current_records [] occupied upgrades w = (Inr (occupied, upgrades), w)"
| "current_records (d # ds) occupied upgrades w =
     (case mget (w_tasks w) d of
        None \<Rightarrow> bindE io_step (\<lambda>_. current_records ds occupied upgrades) w
      | Some f \<Rightarrow>
          bindE (readJSONFile (Some f) zero_record) (\<lambda>rec.
            case validateTaskRecordVersion rec of
              Inl e \<Rightarrow> throwE e
            | Inr rec' \<Rightarrow>
                (case snapshotFromRecord d rec' of
                   Inl e \<Rightarrow> throwE e
                 | Inr sn \<Rightarrow>
                     (case reserveSnapshotTaskIDs occupied sn of
                        Inl e \<Rightarrow> throwE e
                      | Inr occupied' \<Rightarrow>
                          current_records ds occupied' (if r_SchemaVersion rec = 0 then upgrades @ [(d, rec')] else upgrades)))) w)"

text \<open>The second loop, over the directories without one. A task whose identifiers are taken is left alone.\<close>

fun legacy_records ::
  "legacy_store \<Rightarrow> string list \<Rightarrow> (string, string) gomap \<Rightarrow> (string \<times> taskRecord \<times> TaskEvent list) list \<Rightarrow> (string \<times> taskRecord \<times> TaskEvent list) list io" where
  "legacy_records legacy [] occupied migrations w = (Inr migrations, w)"
| "legacy_records legacy (d # ds) occupied migrations w =
     bindE io_step (\<lambda>_.
       if mget (w_tasks w) d \<noteq> None \<or> lf_root (legacy d) = None then legacy_records legacy ds occupied migrations
       else
         bindE (readLegacyTaskSnapshot (legacy d) d) (\<lambda>sn.
           case recordFromSnapshot sn of
             Inl e \<Rightarrow> throwE e
           | Inr rec \<Rightarrow>
               (case reserveSnapshotTaskIDs occupied sn of
                  Inl _ \<Rightarrow> legacy_records legacy ds occupied migrations
                | Inr occupied' \<Rightarrow> legacy_records legacy ds occupied' (migrations @ [(d, rec, sn_Events sn)])))) w"

definition write_record :: "string \<Rightarrow> taskRecord \<Rightarrow> unit io" where
  "write_record d rec = writeJSONFileAtomic (\<lambda>w. w\<lparr>w_tasks := mput d (Json rec) (w_tasks w)\<rparr>)"

text \<open>The events are written to a temporary file that is renamed over the journal.\<close>

definition writeTaskEventsAtomic :: "string \<Rightarrow> TaskEvent list \<Rightarrow> unit io" where
  "writeTaskEventsAtomic d events =
     writeJSONFileAtomic (\<lambda>w. w\<lparr>w_journal := mput d \<lparr>j_lines = map Line events, j_tail = NoTail\<rparr> (w_journal w)\<rparr>)"

fun write_upgrades :: "(string \<times> taskRecord) list \<Rightarrow> unit io" where
  "write_upgrades [] w = (Inr (), w)"
| "write_upgrades ((d, rec) # us) w = bindE (write_record d rec) (\<lambda>_. write_upgrades us) w"

fun write_migrations :: "(string \<times> taskRecord \<times> TaskEvent list) list \<Rightarrow> unit io" where
  "write_migrations [] w = (Inr (), w)"
| "write_migrations ((d, rec, events) # ms) w =
     bindE (writeTaskEventsAtomic d events) (\<lambda>_. bindE (write_record d rec) (\<lambda>_. write_migrations ms)) w"

text \<open>
  Directories are visited in the order of \<open>os.ReadDir\<close>, by name. A store that does not exist has no
  directories.
\<close>

definition migrateLegacyTaskRecords :: "legacy_store \<Rightarrow> unit io" where
  "migrateLegacyTaskRecords legacy w =
     (let dirs = sort (w_dirs w) in
      bindE io_step (\<lambda>_.
      bindE (current_records dirs [] []) (\<lambda>(occupied, upgrades).
      bindE (legacy_records legacy dirs occupied []) (\<lambda>migrations.
      bindE (write_upgrades (sort_key (\<lambda>(d, _). d @ ''/tasks.json'') upgrades)) (\<lambda>_.
        write_migrations (sort_key fst migrations))))) w)"

end
