(* ===== verification/MigrationProps.thy ===== *)
theory MigrationProps
  imports TaskMigration "HOL-Library.Sublist"
begin

text \<open>
  An interrupted migration can be repeated: whatever failed, running it again on the files that were
  left ends with the same files as a run without failures would have.
\<close>

subsection \<open>The two loops only read\<close>

definition reads :: "'a io \<Rightarrow> bool" where
  "reads f \<longleftrightarrow> (\<forall>w r w'. f w = (r, w') \<longrightarrow> disk w' = disk w \<and> (\<forall>v. r = Inr v \<longrightarrow> f (disk w) = (Inr v, disk w)))"

lemma reads_value: "reads f \<Longrightarrow> f w = (Inr v, w') \<Longrightarrow> f (disk w) = (Inr v, disk w) \<and> disk w' = disk w"
  by (simp add: reads_def)

lemma reads_disk: "reads f \<Longrightarrow> f w = (r, w') \<Longrightarrow> disk w' = disk w"
  by (simp add: reads_def)

lemma reads_same: "reads f \<Longrightarrow> w_faults w = [] \<Longrightarrow> f w = (r, w') \<Longrightarrow> disk w' = w"
  by (simp add: reads_def disk_def)

lemma reads_basic [simp, intro]: "reads (returnE v)" "reads (throwE e)" "reads io_step"
  by (auto simp: reads_def returnE_def throwE_def io_step_def dest: take_fault_disk split: prod.splits fault.splits)

lemma reads_bindE [intro]:
  assumes "reads f" and "\<And>v. reads (k v)"
  shows "reads (bindE f k)"
  unfolding reads_def
proof (intro allI impI)
  fix w r w'
  assume run: "bindE f k w = (r, w')"
  show "disk w' = disk w \<and> (\<forall>v. r = Inr v \<longrightarrow> bindE f k (disk w) = (Inr v, disk w))"
  proof (cases "f w")
    case (Pair q u)
    show ?thesis
    proof (cases q)
      case (Inl e)
      with run Pair reads_disk [OF assms(1) Pair] show ?thesis by auto
    next
      case (Inr v)
      then have f: "f (disk w) = (Inr v, disk w)" "disk u = disk w" using reads_value [OF assms(1)] Pair by simp_all
      have k: "k v u = (r, w')" using run Pair Inr by simp
      show ?thesis using reads_disk [OF assms(2) k] reads_value [OF assms(2), of v u] k f by auto
    qed
  qed
qed

lemma reads_local:
  assumes "\<And>w. reads (g w)" and "\<And>w. g (disk w) = g w" and "\<And>w. f w = g w w"
  shows "reads f"
proof -
  have "f (disk w) = g w (disk w)" for w by (simp add: assms(2,3))
  with assms(1,3) show ?thesis unfolding reads_def by metis
qed

lemma reads_readJSONFile [simp, intro]: "reads (readJSONFile f z)"
  unfolding readJSONFile_def by (auto split: option.split jfile.split)

lemma reads_readOptionalJSONFile [simp, intro]: "reads (readOptionalJSONFile f)"
  unfolding readOptionalJSONFile_def by (auto split: option.split)

lemma reads_readLegacyTaskEvents [simp, intro]: "reads (readLegacyTaskEvents d)"
proof -
  let ?g = "\<lambda>w. bindE io_step (\<lambda>_. case mget (w_journal w) d of None \<Rightarrow> returnE []
        | Some j \<Rightarrow> (case legacy_lines (j_lines j) (j_tail j) of Inl e \<Rightarrow> throwE e | Inr es \<Rightarrow> returnE es))"
  show ?thesis
  proof (rule reads_local [where g = ?g])
    show "reads (?g w)" for w by (auto intro!: reads_bindE split: option.split sum.split)
  qed (simp_all add: readLegacyTaskEvents_def)
qed

lemma reads_readLegacyTaskSnapshot [simp, intro]: "reads (readLegacyTaskSnapshot files d)"
  unfolding readLegacyTaskSnapshot_def
  by (intro reads_bindE) (simp_all add: reads_bindE)

lemma reads_current_records [simp, intro]: "reads (current_records ds occupied upgrades)"
proof (induction ds arbitrary: occupied upgrades)
  case Nil
  show ?case by (rule reads_local [where g = "\<lambda>_. returnE (occupied, upgrades)"]) (simp, simp, simp add: returnE_def)
next
  case (Cons d ds)
  let ?g = "\<lambda>w. case mget (w_tasks w) d of
        None \<Rightarrow> bindE io_step (\<lambda>_. current_records ds occupied upgrades)
      | Some f \<Rightarrow> bindE (readJSONFile (Some f) zero_record) (\<lambda>rec.
            case validateTaskRecordVersion rec of
              Inl e \<Rightarrow> throwE e
            | Inr rec' \<Rightarrow>
                (case snapshotFromRecord d rec' of
                   Inl e \<Rightarrow> throwE e
                 | Inr sn \<Rightarrow>
                     (case reserveSnapshotTaskIDs occupied sn of
                        Inl e \<Rightarrow> throwE e
                      | Inr occupied' \<Rightarrow>
                          current_records ds occupied' (if r_SchemaVersion rec = 0 then upgrades @ [(d, rec')] else upgrades))))"
  show ?case
  proof (rule reads_local [where g = ?g])
    show "current_records (d # ds) occupied upgrades w = ?g w w" for w by (simp split: option.split)
    show "reads (?g w)" for w by (auto intro!: reads_bindE Cons.IH split: option.split sum.split)
  qed simp
qed

lemma reads_legacy_records [simp, intro]: "reads (legacy_records legacy ds occupied migrations)"
proof (induction ds arbitrary: occupied migrations)
  case Nil
  show ?case by (rule reads_local [where g = "\<lambda>_. returnE migrations"]) (simp, simp, simp add: returnE_def)
next
  case (Cons d ds)
  let ?g = "\<lambda>w. bindE io_step (\<lambda>_.
       if mget (w_tasks w) d \<noteq> None \<or> lf_root (legacy d) = None then legacy_records legacy ds occupied migrations
       else
         bindE (readLegacyTaskSnapshot (legacy d) d) (\<lambda>sn.
           case recordFromSnapshot sn of
             Inl e \<Rightarrow> throwE e
           | Inr rec \<Rightarrow>
               (case reserveSnapshotTaskIDs occupied sn of
                  Inl _ \<Rightarrow> legacy_records legacy ds occupied migrations
                | Inr occupied' \<Rightarrow> legacy_records legacy ds occupied' (migrations @ [(d, rec, sn_Events sn)]))))"
  show ?case
  proof (rule reads_local [where g = ?g])
    show "legacy_records legacy (d # ds) occupied migrations w = ?g w w" for w by simp
    show "reads (?g w)" for w by (auto intro!: reads_bindE Cons.IH split: sum.split)
  qed simp
qed

subsection \<open>Which task belongs to which root\<close>

definition claims :: "Snapshot \<Rightarrow> (string \<times> string) set" where
  "claims sn = set (snapshot_ids sn) \<times> {TrimSpace (t_ID (sn_Root sn))}"

lemma mget_puts: "mget (foldl (\<lambda>m i. mput i v m) m ks) k = (if k \<in> set ks then Some v else mget m k)"
  by (induction ks arbitrary: m) auto

lemma reserve_graph:
  "reserveSnapshotTaskIDs occupied sn = Inr occupied' \<Longrightarrow> Map.graph (mget occupied') = Map.graph (mget occupied) \<union> claims sn"
  by (auto simp: reserveSnapshotTaskIDs_def Let_def Map.graph_def claims_def mget_puts list_ex_iff split: if_splits)
    fastforce

lemma reserve_possible:
  "(\<exists>occupied'. reserveSnapshotTaskIDs occupied sn = Inr occupied') \<longleftrightarrow> single_valued (Map.graph (mget occupied) \<union> claims sn)"
  by (auto simp: reserveSnapshotTaskIDs_def Let_def Map.graph_def claims_def list_ex_iff single_valued_def)

subsection \<open>The plan of a migration without failures\<close>

definition sound_at :: "World \<Rightarrow> string \<Rightarrow> bool" where
  "sound_at w d \<longleftrightarrow> (case mget (w_tasks w) d of None \<Rightarrow> True
     | Some f \<Rightarrow> \<exists>rec sn. f = Json rec \<and> r_SchemaVersion rec \<in> {0, 2} \<and> snapshotFromRecord d rec = Inr sn)"

definition claims_at :: "World \<Rightarrow> string \<Rightarrow> (string \<times> string) set" where
  "claims_at w d = (case mget (w_tasks w) d of
     Some (Json rec) \<Rightarrow> (\<lambda>t. TrimSpace (t_ID t)) ` set (r_Tasks rec) \<times> {TrimSpace d} | _ \<Rightarrow> {})"

definition stamp_at :: "World \<Rightarrow> string \<Rightarrow> (string \<times> taskRecord) list" where
  "stamp_at w d = (case mget (w_tasks w) d of
     Some (Json rec) \<Rightarrow> (if r_SchemaVersion rec = 0 then [(d, rec\<lparr>r_SchemaVersion := 2\<rparr>)] else []) | _ \<Rightarrow> [])"

lemma snapshot_claims:
  assumes "snapshotFromRecord d rec = Inr sn"
  shows "claims sn = (\<lambda>t. TrimSpace (t_ID t)) ` set (r_Tasks rec) \<times> {TrimSpace d}"
proof -
  note S = snapshotFromRecord_Inr [OF assms]
  then obtain t where t: "t \<in> set (r_Tasks rec)" "sn_Root sn = trim_id t" by blast
  then have "TrimSpace (t_ID t) = TrimSpace d" using S by simp
  with t(1) have "TrimSpace d \<in> (\<lambda>t. TrimSpace (t_ID t)) ` set (r_Tasks rec)" by (metis (no_types, lifting) image_eqI)
  then have "set (snapshot_ids sn) = (\<lambda>t. TrimSpace (t_ID t)) ` set (r_Tasks rec)"
    using S by (auto simp: snapshot_ids_def)
  with S show ?thesis by (simp add: claims_def)
qed

lemma readJSONFile_pure:
  "w_faults w = [] \<Longrightarrow> readJSONFile (Some f) z w =
     (case f of Blank \<Rightarrow> Inr z | Json v \<Rightarrow> Inr v | Garbled \<Rightarrow> Inl (ErrText ''decode''), w)"
  by (simp add: readJSONFile_def returnE_def throwE_def split: jfile.split)

lemma snapshotFromRecord_zero [simp]: "r_Tasks rec = [] \<Longrightarrow> snapshotFromRecord d rec = Inl (ErrText ''task record has no tasks'')"
  by (simp add: snapshotFromRecord_def)

lemma validate_Inr:
  "validateTaskRecordVersion rec = Inr rec' \<longleftrightarrow> r_SchemaVersion rec \<in> {0, 2} \<and> rec' = rec\<lparr>r_SchemaVersion := 2\<rparr>"
  by (cases rec) (auto simp: validateTaskRecordVersion_def currentTaskSchemaVersion_def)

lemma current_step:
  assumes "w_faults w = []"
  shows "current_records (d # ds) occupied upgrades w = (Inr res, w') \<longleftrightarrow>
    (mget (w_tasks w) d = None \<and> current_records ds occupied upgrades w = (Inr res, w') \<or>
     (\<exists>rec sn occupied'. mget (w_tasks w) d = Some (Json rec) \<and> r_SchemaVersion rec \<in> {0, 2} \<and>
        snapshotFromRecord d rec = Inr sn \<and> reserveSnapshotTaskIDs occupied sn = Inr occupied' \<and>
        current_records ds occupied' (upgrades @ stamp_at w d) w = (Inr res, w')))" (is "?L = ?R")
proof (cases "mget (w_tasks w) d")
  case None
  with assms show ?thesis by simp
next
  case (Some f)
  show ?thesis
  proof (cases f)
    case (Json rec)
    show ?thesis
    proof (cases "r_SchemaVersion rec \<in> {0, 2}")
      case True
      with Some Json assms show ?thesis
        by (auto simp: validateTaskRecordVersion_ok stamp_at_def throwE_def split: sum.splits)
    next
      case False
      then obtain e where "validateTaskRecordVersion rec = Inl e" by (metis sum.exhaust validate_Inr)
      with Some Json assms False show ?thesis by (simp add: throwE_def)
    qed
  qed (use Some assms in \<open>simp_all add: readJSONFile_def throwE_def returnE_def zero_record_def validateTaskRecordVersion_def\<close>)
qed

lemma claims_at_Json: "mget (w_tasks w) d = Some (Json rec) \<Longrightarrow> snapshotFromRecord d rec = Inr sn \<Longrightarrow> claims_at w d = claims sn"
  by (simp add: claims_at_def snapshot_claims)

lemma at_None [simp]:
  "mget (w_tasks w) d = None \<Longrightarrow> sound_at w d" "mget (w_tasks w) d = None \<Longrightarrow> claims_at w d = {}"
  "mget (w_tasks w) d = None \<Longrightarrow> stamp_at w d = []"
  by (simp_all add: sound_at_def claims_at_def stamp_at_def)

lemma current_sound:
  assumes "current_records ds occupied upgrades w = (Inr (occupied', upgrades'), w')" and "w_faults w = []"
  shows "w' = w \<and> (\<forall>d \<in> set ds. sound_at w d) \<and>
    Map.graph (mget occupied') = Map.graph (mget occupied) \<union> (\<Union>d \<in> set ds. claims_at w d) \<and>
    upgrades' = upgrades @ concat (map (stamp_at w) ds)"
  using assms(1)
proof (induction ds arbitrary: occupied upgrades)
  case Nil
  then show ?case by simp
next
  case (Cons d ds)
  from Cons.prems show ?case
    unfolding current_step [OF assms(2)]
  proof (elim disjE exE conjE, goal_cases)
    case 1
    with Cons.IH [OF 1(2)] show ?case by simp
  next
    case (2 rec sn occ)
    have "sound_at w d" using 2 by (simp add: sound_at_def)
    with Cons.IH [OF 2(5)] reserve_graph [OF 2(4)] claims_at_Json [OF 2(1,3)] show ?case by auto
  qed
qed

lemma current_complete:
  assumes "\<forall>d \<in> set ds. sound_at w d" and "w_faults w = []"
    and "single_valued (Map.graph (mget occupied) \<union> (\<Union>d \<in> set ds. claims_at w d))"
  shows "\<exists>occupied'. current_records ds occupied upgrades w = (Inr (occupied', upgrades @ concat (map (stamp_at w) ds)), w)"
  using assms(1,3)
proof (induction ds arbitrary: occupied upgrades)
  case Nil
  then show ?case by simp
next
  case (Cons d ds)
  show ?case
  proof (cases "mget (w_tasks w) d")
    case None
    with Cons show ?thesis unfolding current_step [OF assms(2)] by simp
  next
    case (Some f)
    with Cons.prems(1) obtain rec sn where rec: "f = Json rec" "r_SchemaVersion rec \<in> {0, 2}" "snapshotFromRecord d rec = Inr sn"
      by (auto simp: sound_at_def)
    have c: "claims_at w d = claims sn" using Some rec by (simp add: claims_at_Json)
    then have "single_valued (Map.graph (mget occupied) \<union> claims sn)"
      using Cons.prems(2) by (auto intro: single_valued_subset)
    then obtain occ where occ: "reserveSnapshotTaskIDs occupied sn = Inr occ" using reserve_possible by blast
    have "single_valued (Map.graph (mget occ) \<union> (\<Union>d \<in> set ds. claims_at w d))"
      using Cons.prems(2) by (simp add: reserve_graph [OF occ] c Un_assoc)
    with Cons.IH [of occ "upgrades @ stamp_at w d"] Cons.prems(1)
    obtain occ' where "current_records ds occ (upgrades @ stamp_at w d) w =
        (Inr (occ', (upgrades @ stamp_at w d) @ concat (map (stamp_at w) ds)), w)" by auto
    then show ?thesis using Some rec occ unfolding current_step [OF assms(2)] by auto
  qed
qed

subsection \<open>The choice of the legacy tasks\<close>

type_synonym pick = "(error + taskRecord \<times> Snapshot) option"

definition pick_at :: "legacy_store \<Rightarrow> World \<Rightarrow> string \<Rightarrow> pick" where
  "pick_at legacy w d =
     (if mget (w_tasks w) d \<noteq> None \<or> lf_root (legacy d) = None then None
      else Some (case fst (readLegacyTaskSnapshot (legacy d) d (disk w)) of Inl e \<Rightarrow> Inl e
        | Inr sn \<Rightarrow> map_sum id (\<lambda>rec. (rec, sn)) (recordFromSnapshot sn)))"

fun chosen :: "(string \<Rightarrow> pick) \<Rightarrow> string list \<Rightarrow> (string \<times> string) set \<Rightarrow> (string \<times> taskRecord \<times> TaskEvent list) list option" where
  "chosen pick [] C = Some []"
| "chosen pick (d # ds) C =
     (case pick d of None \<Rightarrow> chosen pick ds C
      | Some (Inl e) \<Rightarrow> None
      | Some (Inr (rec, sn)) \<Rightarrow>
          if single_valued (C \<union> claims sn) then map_option ((#) (d, rec, sn_Events sn)) (chosen pick ds (C \<union> claims sn))
          else chosen pick ds C)"

lemma legacy_chosen:
  assumes "w_faults w = []"
  shows "legacy_records legacy ds occupied migrations w = (Inr res, w') \<longleftrightarrow>
    w' = w \<and> (\<exists>ms. chosen (pick_at legacy w) ds (Map.graph (mget occupied)) = Some ms \<and> res = migrations @ ms)"
proof (induction ds arbitrary: occupied migrations)
  case Nil
  then show ?case by auto
next
  case (Cons d ds)
  let ?G = "Map.graph (mget occupied)"
  show ?case
  proof (cases "mget (w_tasks w) d \<noteq> None \<or> lf_root (legacy d) = None")
    case True
    then have "pick_at legacy w d = None" by (simp add: pick_at_def)
    with True assms Cons.IH show ?thesis by simp
  next
    case False
    obtain q u where q: "readLegacyTaskSnapshot (legacy d) d w = (q, u)" by (cases "readLegacyTaskSnapshot (legacy d) d w")
    have w: "disk w = w" using assms by (simp add: disk_def)
    show ?thesis
    proof (cases q)
      case (Inl e)
      then have "pick_at legacy w d = Some (Inl e)" using False q w by (simp add: pick_at_def)
      with False assms q Inl show ?thesis by auto
    next
      case (Inr sn)
      then have u: "u = w" using reads_value [OF reads_readLegacyTaskSnapshot] q w by (metis Pair_inject)
      have "pick_at legacy w d = Some (map_sum id (\<lambda>rec. (rec, sn)) (recordFromSnapshot sn))"
        using False q w Inr by (simp add: pick_at_def)
      note run = False assms q Inr u this
      show ?thesis
      proof (cases "recordFromSnapshot sn")
        case (Inl e)
        with run show ?thesis by (auto simp: throwE_def)
      next
        case rec: (Inr rec)
        show ?thesis
        proof (cases "reserveSnapshotTaskIDs occupied sn")
          case (Inl e)
          then have "\<not> single_valued (?G \<union> claims sn)" using reserve_possible [of occupied sn] by simp
          with run rec Inl Cons.IH show ?thesis by simp
        next
          case (Inr occ)
          then have "single_valued (?G \<union> claims sn)" using reserve_possible [of occupied sn] by simp
          with run rec Inr Cons.IH [of occ] reserve_graph [OF Inr] show ?thesis by auto
        qed
      qed
    qed
  qed
qed

lemma chosen_cong: "(\<And>d. d \<in> set ds \<Longrightarrow> p d = q d) \<Longrightarrow> chosen p ds C = chosen q ds C"
  by (induction ds arbitrary: C) (auto split: option.split sum.split)

lemma chosen_dirs: "chosen p ds C = Some ms \<Longrightarrow> subseq (map fst ms) ds"
proof (induction ds arbitrary: C ms)
  case (Cons d ds)
  have skip: "chosen p ds C' = Some ms' \<Longrightarrow> subseq (map fst ms') (d # ds)" for C' ms'
    by (rule list_emb_Cons) (rule Cons.IH)
  from Cons.prems show ?case
    by (auto split: option.splits sum.splits if_splits) (metis skip, metis Cons.IH, metis skip)
qed simp

lemma chosen_mem: "chosen p ds C = Some ms \<Longrightarrow> m \<in> set ms \<Longrightarrow> fst m \<in> set ds"
  using chosen_dirs [of p ds C ms] by (metis (no_types) imageI in_mono list.set_map set_nths_subset subseq_conv_nths)

lemma chosen_first:
  assumes "chosen p ds C = Some ((d, rec, es) # ms)" and "distinct ds"
  shows "\<exists>sn. p d = Some (Inr (rec, sn)) \<and> es = sn_Events sn \<and> d \<in> set ds \<and>
    single_valued (C \<union> claims sn) \<and> chosen (p(d := None)) ds (C \<union> claims sn) = Some ms"
  using assms
proof (induction ds)
  case (Cons x ds)
  have later: "chosen p ds C = Some ((d, rec, es) # ms) \<Longrightarrow> x \<noteq> d"
    using chosen_mem [of p ds C _ "(d, rec, es)"] Cons.prems(2) by auto
  show ?case
  proof (cases "p x")
    case None
    with Cons later show ?thesis by auto
  next
    case (Some q)
    with Cons.prems(1) obtain r sn where q: "q = Inr (r, sn)" by (cases q) auto
    show ?thesis
    proof (cases "single_valued (C \<union> claims sn)")
      case True
      then have "x = d" "r = rec" "es = sn_Events sn" and ms: "chosen p ds (C \<union> claims sn) = Some ms"
        using Cons.prems(1) Some q by auto
      moreover have "chosen (p(d := None)) ds (C \<union> claims sn) = chosen p ds (C \<union> claims sn)"
        using Cons.prems(2) \<open>x = d\<close> by (intro chosen_cong) auto
      ultimately show ?thesis using Some q True by (auto simp del: fun_upd_apply simp: fun_upd_same)
    next
      case False
      with Some q Cons later obtain sn' where "p d = Some (Inr (rec, sn'))" "es = sn_Events sn'" "d \<in> set ds" "x \<noteq> d"
        "single_valued (C \<union> claims sn')" "chosen (p(d := None)) ds (C \<union> claims sn') = Some ms"
        by (auto simp del: fun_upd_apply)
      moreover have "\<not> single_valued (C \<union> claims sn' \<union> claims sn)"
        using False by (meson Un_upper1 Un_mono single_valued_subset subset_refl)
      ultimately show ?thesis using Some q by (auto simp del: fun_upd_apply simp: fun_upd_other)
    qed
  qed
qed simp

subsection \<open>The plan\<close>

abbreviation dirs_of :: "World \<Rightarrow> string list" where
  "dirs_of w \<equiv> sort (w_dirs w)"

definition plan :: "legacy_store \<Rightarrow> World \<Rightarrow> (string \<times> taskRecord) list \<Rightarrow> (string \<times> taskRecord \<times> TaskEvent list) list \<Rightarrow> bool" where
  "plan legacy w ups migs \<longleftrightarrow>
     w_faults w = [] \<and> (\<forall>d \<in> set (dirs_of w). sound_at w d) \<and>
     single_valued (\<Union>d \<in> set (dirs_of w). claims_at w d) \<and>
     ups = sort_key (\<lambda>(d, _). d @ ''/tasks.json'') (concat (map (stamp_at w) (dirs_of w))) \<and>
     chosen (pick_at legacy w) (dirs_of w) (\<Union>d \<in> set (dirs_of w). claims_at w d) = Some migs"

definition put_record :: "string \<Rightarrow> taskRecord \<Rightarrow> World \<Rightarrow> World" where
  "put_record d rec w = w\<lparr>w_tasks := mput d (Json rec) (w_tasks w)\<rparr>"

definition put_events :: "string \<Rightarrow> TaskEvent list \<Rightarrow> World \<Rightarrow> World" where
  "put_events d es w = w\<lparr>w_journal := mput d \<lparr>j_lines = map Line es, j_tail = NoTail\<rparr> (w_journal w)\<rparr>"

definition after_plan :: "(string \<times> taskRecord) list \<Rightarrow> (string \<times> taskRecord \<times> TaskEvent list) list \<Rightarrow> World \<Rightarrow> World" where
  "after_plan ups migs w =
     fold (\<lambda>(d, rec, es) w. put_record d rec (put_events d es w)) migs (fold (\<lambda>(d, rec). put_record d rec) ups w)"

lemma put_disk [simp]:
  "disk (put_record d rec w) = put_record d rec (disk w)" "disk (put_events d es w) = put_events d es (disk w)"
  by (simp_all add: put_record_def put_events_def disk_def)

lemma write_pure:
  assumes "w_faults w = []"
  shows "write_record d rec w = (Inr (), put_record d rec w)" "writeTaskEventsAtomic d es w = (Inr (), put_events d es w)"
  using assms by (simp_all add: write_record_def writeTaskEventsAtomic_def writeJSONFileAtomic_def put_record_def put_events_def)

lemma put_faults [simp]: "w_faults (put_record d rec w) = w_faults w" "w_faults (put_events d es w) = w_faults w"
  by (simp_all add: put_record_def put_events_def)

lemma write_upgrades_pure:
  "w_faults w = [] \<Longrightarrow> write_upgrades us w = (Inr (), fold (\<lambda>(d, rec). put_record d rec) us w)"
  by (induction us w rule: write_upgrades.induct) (simp_all add: write_pure)

lemma write_migrations_pure:
  "w_faults w = [] \<Longrightarrow> write_migrations ms w = (Inr (), fold (\<lambda>(d, rec, es) w. put_record d rec (put_events d es w)) ms w)"
  by (induction ms w rule: write_migrations.induct) (simp_all add: write_pure)

lemma fold_puts_faults [simp]: "w_faults (fold (\<lambda>(d, rec). put_record d rec) us w) = w_faults w"
  by (induction us arbitrary: w) auto

lemma migs_sorted:
  assumes "plan legacy w ups migs"
  shows "sort_key fst migs = migs"
proof -
  have "subseq (map fst migs) (dirs_of w)" using assms unfolding plan_def by (blast dest: chosen_dirs)
  then have "sorted (map fst migs)" by (metis sorted_nths sorted_sort subseq_conv_nths)
  then show ?thesis by (rule sort_key_id_if_sorted)
qed

lemma migrate_planned:
  assumes "plan legacy w ups migs"
  shows "migrateLegacyTaskRecords legacy w = (Inr (), after_plan ups migs w)"
proof -
  have w: "w_faults w = []" using assms by (simp add: plan_def)
  obtain occ where cur: "current_records (dirs_of w) [] [] w = (Inr (occ, concat (map (stamp_at w) (dirs_of w))), w)"
    using current_complete [of "dirs_of w" w "[]" "[]"] assms by (auto simp: plan_def)
  have "Map.graph (mget occ) = (\<Union>d \<in> set (dirs_of w). claims_at w d)" using current_sound [OF cur w] by simp
  then have "legacy_records legacy (dirs_of w) occ [] w = (Inr migs, w)"
    using assms by (simp add: legacy_chosen [OF w] plan_def)
  with cur w migs_sorted [OF assms] assms show ?thesis
    by (simp add: migrateLegacyTaskRecords_def write_upgrades_pure write_migrations_pure after_plan_def plan_def)
qed

lemma current_single_valued:
  "current_records ds occupied upgrades w = (Inr (occupied', upgrades'), w') \<Longrightarrow> w_faults w = [] \<Longrightarrow>
     single_valued (Map.graph (mget occupied) \<union> (\<Union>d \<in> set ds. claims_at w d))"
  using current_sound [of ds occupied upgrades w occupied' upgrades' w']
  by (metis (no_types) single_valuedI Map.in_graphD option.inject)

lemma plan_exists:
  assumes "current_records (dirs_of w) [] [] w = (Inr (occ, ups), w)" and "w_faults w = []"
    and "legacy_records legacy (dirs_of w) occ [] w = (Inr migs, w)"
  shows "plan legacy w (sort_key (\<lambda>(d, _). d @ ''/tasks.json'') ups) migs"
  using current_sound [OF assms(1,2)] current_single_valued [OF assms(1,2)] assms(2,3)
  by (simp add: plan_def legacy_chosen [OF assms(2)])

subsection \<open>What is read from the legacy files\<close>

definition file_value :: "'a jfile option \<Rightarrow> 'a \<Rightarrow> error + 'a" where
  "file_value f z = (case f of None \<Rightarrow> Inl ErrIO | Some Blank \<Rightarrow> Inr z | Some (Json v) \<Rightarrow> Inr v | Some Garbled \<Rightarrow> Inl (ErrText ''decode''))"

definition optional_value :: "'a list jfile option \<Rightarrow> error + 'a list" where
  "optional_value f = (if f = None then Inr [] else file_value f [])"

definition events_value :: "journal option \<Rightarrow> error + TaskEvent list" where
  "events_value j = (case j of None \<Rightarrow> Inr [] | Some j \<Rightarrow> legacy_lines (j_lines j) (j_tail j))"

definition side_value :: "legacyTaskAggregate \<Rightarrow> legacy_files \<Rightarrow> journal option \<Rightarrow> error + Snapshot" where
  "side_value a files j =
     (case optional_value (lf_children files) of Inl e \<Rightarrow> Inl e | Inr cs \<Rightarrow>
      (case optional_value (lf_approvals files) of Inl e \<Rightarrow> Inl e | Inr as \<Rightarrow>
      (case optional_value (lf_presence files) of Inl e \<Rightarrow> Inl e | Inr ps \<Rightarrow>
       map_sum id (\<lambda>es. \<lparr>sn_Root = lg_Task a, sn_Children = cs, sn_Approvals = as, sn_Presence = ps, sn_Events = es\<rparr>)
         (events_value j))))"

definition legacy_value :: "legacy_files \<Rightarrow> journal option \<Rightarrow> error + Snapshot" where
  "legacy_value files j =
     (case file_value (lf_root files) zero_aggregate of Inl e \<Rightarrow> Inl e
      | Inr a \<Rightarrow>
          if lg_AggregateVersion a = legacyAggregateVersion then
            Inr \<lparr>sn_Root = lg_Task a, sn_Children = lg_Children a, sn_Approvals = lg_Approvals a, sn_Presence = lg_Presence a, sn_Events = lg_Events a\<rparr>
          else if lg_AggregateVersion a = 0 then side_value a files j
          else Inl (ErrText ''unsupported legacy task aggregate version''))"

lemma map_sum_Inr: "map_sum f g x = Inr y \<longleftrightarrow> (\<exists>a. x = Inr a \<and> y = g a)"
  by (cases x) auto

lemma bindE_still: "m w = (r, w) \<Longrightarrow> bindE m k w = (case r of Inl e \<Rightarrow> (Inl e, w) | Inr a \<Rightarrow> k a w)"
  by (simp add: bindE_def)

lemma readJSONFile_value': "w_faults w = [] \<Longrightarrow> readJSONFile f z w = (file_value f z, w)"
  by (simp add: readJSONFile_def file_value_def returnE_def throwE_def split: jfile.split option.split)

lemma readOptional_value: "w_faults w = [] \<Longrightarrow> readOptionalJSONFile f w = (optional_value f, w)"
  by (cases f) (simp_all add: readOptionalJSONFile_def optional_value_def readJSONFile_value' returnE_def)

lemma readEvents_value: "w_faults w = [] \<Longrightarrow> readLegacyTaskEvents d w = (events_value (mget (w_journal w) d), w)"
  by (simp add: readLegacyTaskEvents_def events_value_def returnE_def throwE_def split: option.split sum.split)

lemma readLegacy_value:
  assumes "w_faults w = []"
  shows "readLegacyTaskSnapshot files d w = (legacy_value files (mget (w_journal w) d), w)"
  unfolding readLegacyTaskSnapshot_def legacy_value_def side_value_def
  by (simp add: bindE_still [where m = "readJSONFile _ _", OF readJSONFile_value' [OF assms]]
      bindE_still [where m = "readOptionalJSONFile _", OF readOptional_value [OF assms]]
      bindE_still [where m = "readLegacyTaskEvents _", OF readEvents_value [OF assms]]
      returnE_def throwE_def split: sum.split)

lemma pick_at_value:
  "pick_at legacy w d =
     (if mget (w_tasks w) d \<noteq> None \<or> lf_root (legacy d) = None then None
      else Some (case legacy_value (legacy d) (mget (w_journal w) d) of Inl e \<Rightarrow> Inl e
        | Inr sn \<Rightarrow> map_sum id (\<lambda>rec. (rec, sn)) (recordFromSnapshot sn)))"
  by (simp add: pick_at_def readLegacy_value)

lemma legacy_lines_map [simp]: "legacy_lines (map Line es) NoTail = Inr es"
  by (induction es) auto

text \<open>Events that were read are read again from the journal they are written to.\<close>

lemma legacy_value_rewritten:
  "legacy_value files j = Inr sn \<Longrightarrow> legacy_value files (Some \<lparr>j_lines = map Line (sn_Events sn), j_tail = NoTail\<rparr>) = Inr sn"
  by (auto simp: legacy_value_def side_value_def events_value_def map_sum_Inr split: sum.splits if_splits)

lemma legacy_value_root:
  "legacy_value files j = Inr sn \<Longrightarrow> \<exists>a. file_value (lf_root files) zero_aggregate = Inr a \<and> sn_Root sn = lg_Task a"
  by (auto simp: legacy_value_def side_value_def map_sum_Inr split: sum.splits if_splits)

definition legacy_named :: "legacy_store \<Rightarrow> bool" where
  "legacy_named legacy \<longleftrightarrow> (\<forall>d a. lf_root (legacy d) = Some (Json a) \<longrightarrow> TrimSpace (t_ID (lg_Task a)) = TrimSpace d)"

lemma recordFromSnapshot_Inr:
  "recordFromSnapshot sn = Inr rec \<Longrightarrow> rec = record_of sn \<and> (\<exists>sn'. snapshotFromRecord (t_ID (sn_Root sn)) rec = Inr sn')"
  by (cases "snapshotFromRecord (t_ID (sn_Root sn)) (record_of sn)") (auto simp: recordFromSnapshot_alt)

lemma snapshotFromRecord_trim: "TrimSpace a = TrimSpace b \<Longrightarrow> snapshotFromRecord a rec = snapshotFromRecord b rec"
  by (simp add: snapshotFromRecord_def)

lemma picked:
  assumes "legacy_named legacy" and "pick_at legacy w d = Some (Inr (rec, sn))"
  shows "mget (w_tasks w) d = None" and "legacy_value (legacy d) (mget (w_journal w) d) = Inr sn"
    and "rec = record_of sn" and "\<exists>sn'. snapshotFromRecord d rec = Inr sn'"
    and "TrimSpace (t_ID (sn_Root sn)) = TrimSpace d"
proof -
  show "mget (w_tasks w) d = None" using assms(2) by (auto simp: pick_at_def split: if_splits)
  show v: "legacy_value (legacy d) (mget (w_journal w) d) = Inr sn" and r: "rec = record_of sn"
    using assms(2) by (auto simp: pick_at_value map_sum_Inr dest: recordFromSnapshot_Inr split: if_splits sum.splits)
  have rs: "recordFromSnapshot sn = Inr rec"
    using assms(2) v by (auto simp: pick_at_value map_sum_Inr split: if_splits)
  then obtain sn' where sn': "snapshotFromRecord (t_ID (sn_Root sn)) rec = Inr sn'" using recordFromSnapshot_Inr by blast
  then have ne: "TrimSpace (t_ID (sn_Root sn)) \<noteq> []" using snapshotFromRecord_Inr by blast
  obtain a where a: "file_value (lf_root (legacy d)) zero_aggregate = Inr a" "sn_Root sn = lg_Task a"
    using legacy_value_root [OF v] by blast
  have "a \<noteq> zero_aggregate" using ne a(2) by (auto simp: zero_aggregate_def zero_task_def)
  with a(1) have "lf_root (legacy d) = Some (Json a)" by (auto simp: file_value_def split: option.splits jfile.splits)
  with assms(1) a(2) show n: "TrimSpace (t_ID (sn_Root sn)) = TrimSpace d" by (simp add: legacy_named_def)
  from sn' show "\<exists>sn'. snapshotFromRecord d rec = Inr sn'" by (simp add: snapshotFromRecord_trim [OF n])
qed

subsection \<open>The plan after one write\<close>

lemma put_fields [simp]:
  "w_dirs (put_record d rec w) = w_dirs w" "w_dirs (put_events d es w) = w_dirs w"
  "w_journal (put_record d rec w) = w_journal w" "w_tasks (put_events d es w) = w_tasks w"
  "mget (w_tasks (put_record d rec w)) d' = (if d' = d then Some (Json rec) else mget (w_tasks w) d')"
  "mget (w_journal (put_events d es w)) d' =
     (if d' = d then Some \<lparr>j_lines = map Line es, j_tail = NoTail\<rparr> else mget (w_journal w) d')"
  by (simp_all add: put_record_def put_events_def)

lemma plan_stamped:
  assumes "plan legacy w ((d, rec) # ups) migs" and "distinct (w_dirs w)"
  shows "plan legacy (put_record d rec w) ups migs"
proof -
  let ?v = "put_record d rec w" and ?f = "\<lambda>(d, _ :: taskRecord). d @ ''/tasks.json''"
  have ups: "(d, rec) # ups = sort_key ?f (concat (map (stamp_at w) (dirs_of w)))"
    using assms(1) by (simp add: plan_def)
  then have "(d, rec) \<in> set (concat (map (stamp_at w) (dirs_of w)))" by (metis list.set_intros(1) set_sort)
  then obtain r where r: "mget (w_tasks w) d = Some (Json r)" "r_SchemaVersion r = 0" "rec = r\<lparr>r_SchemaVersion := 2\<rparr>"
    by (auto simp: stamp_at_def eq_commute [of "Some _"] split: option.splits jfile.splits if_splits)
  have at: "sound_at ?v = sound_at w" "claims_at ?v = claims_at w" "pick_at legacy ?v = pick_at legacy w"
    by (rule ext; use r in \<open>simp add: sound_at_def claims_at_def pick_at_value\<close>)+
  have st: "stamp_at ?v d' = filter (\<lambda>u. fst u \<noteq> d) (stamp_at w d')" for d'
    using r by (auto simp: stamp_at_def split: option.splits jfile.splits)
  have "distinct (map fst (concat (map (stamp_at w) ds)))" if "distinct ds" for ds
    using that by (induction ds) (auto simp: stamp_at_def split: option.splits jfile.splits if_splits)
  then have "distinct (map fst (concat (map (stamp_at w) (dirs_of w))))" using assms(2) by simp
  moreover have "mset (map fst ((d, rec) # ups)) = mset (map fst (concat (map (stamp_at w) (dirs_of w))))"
    by (simp only: ups mset_map mset_sort)
  ultimately have "distinct (map fst ((d, rec) # ups))" using mset_eq_imp_distinct_iff by blast
  then have flt: "filter (\<lambda>u. fst u \<noteq> d) ((d, rec) # ups) = ups" by (auto simp: filter_id_conv)
  have "sort_key ?f (filter (\<lambda>u. fst u \<noteq> d) (concat (map (stamp_at w) (dirs_of w)))) = ups"
    using flt unfolding ups filter_sort .
  then have "ups = sort_key ?f (filter (\<lambda>u. fst u \<noteq> d) (concat (map (stamp_at w) (dirs_of w))))" by (rule sym)
  also have "filter (\<lambda>u. fst u \<noteq> d) (concat (map (stamp_at w) (dirs_of w))) = concat (map (stamp_at ?v) (dirs_of ?v))"
    by (simp add: filter_concat ext [of "stamp_at ?v", OF st] comp_def)
  finally show ?thesis using assms(1) by (simp add: plan_def at)
qed

lemma plan_events:
  assumes "plan legacy w ups ((d, rec, es) # migs)" and "distinct (w_dirs w)" and "legacy_named legacy"
  shows "plan legacy (put_events d es w) ups ((d, rec, es) # migs)"
proof -
  let ?v = "put_events d es w"
  obtain sn where sn: "pick_at legacy w d = Some (Inr (rec, sn))" "es = sn_Events sn"
    using chosen_first [of "pick_at legacy w" "dirs_of w"] assms(1,2) unfolding plan_def by (metis distinct_sort)
  note P = picked [OF assms(3) sn(1)]
  have "pick_at legacy ?v d' = pick_at legacy w d'" for d'
    using P(2) legacy_value_rewritten [OF P(2)] sn(2) by (simp add: pick_at_value)
  then have "pick_at legacy ?v = pick_at legacy w" by blast
  moreover have "sound_at ?v = sound_at w" "claims_at ?v = claims_at w" "stamp_at ?v = stamp_at w"
    by (simp_all add: sound_at_def [abs_def] claims_at_def [abs_def] stamp_at_def [abs_def])
  ultimately show ?thesis using assms(1) by (simp add: plan_def)
qed

lemma plan_committed:
  assumes "plan legacy w ups ((d, rec, es) # migs)" and "distinct (w_dirs w)" and "legacy_named legacy"
  shows "plan legacy (put_record d rec w) ups migs"
proof -
  let ?v = "put_record d rec w" and ?C = "\<Union>d \<in> set (dirs_of w). claims_at w d"
  obtain sn where sn: "pick_at legacy w d = Some (Inr (rec, sn))" "d \<in> set (dirs_of w)" "single_valued (?C \<union> claims sn)"
      "chosen ((pick_at legacy w)(d := None)) (dirs_of w) (?C \<union> claims sn) = Some migs"
    using chosen_first [of "pick_at legacy w" "dirs_of w"] assms(1,2) unfolding plan_def
    by (metis distinct_sort)
  note P = picked [OF assms(3) sn(1)]
  have "claims_at ?v d = claims sn"
    using P(3,5) by (simp add: claims_at_def record_of_def claims_def snapshot_ids_def)
  then have c: "claims_at ?v d' = (if d' = d then claims sn else claims_at w d')" for d'
    by (simp add: claims_at_def)
  have "(\<Union>d \<in> set (dirs_of w). claims_at ?v d) = ?C \<union> claims sn"
    using sn(2) P(1) by (auto simp: c split: if_splits)
  moreover have "pick_at legacy ?v = (pick_at legacy w)(d := None)" by (auto simp: pick_at_value)
  moreover have "sound_at ?v d'" if "sound_at w d'" for d'
    using that P(3,4) by (simp add: sound_at_def record_of_def currentTaskSchemaVersion_def)
  moreover have "stamp_at ?v = stamp_at w"
    using P(1,3) by (auto simp: stamp_at_def record_of_def currentTaskSchemaVersion_def)
  ultimately show ?thesis using assms(1) sn(3,4) by (simp add: plan_def)
qed

subsection \<open>Interrupted writes\<close>

lemma write_as_put:
  "write_record d rec = writeJSONFileAtomic (put_record d rec)" "writeTaskEventsAtomic d es = writeJSONFileAtomic (put_events d es)"
  by (simp_all add: write_record_def writeTaskEventsAtomic_def put_record_def [abs_def] put_events_def [abs_def])

lemma write_cases:
  assumes "writeJSONFileAtomic g w = (r, w')" and "\<And>v. disk (g v) = g (disk v)"
  shows "(\<exists>e. r = Inl e) \<and> disk w' = disk w \<or> r = Inr () \<and> disk w' = g (disk w)"
  using assms(1) by (rule writeJSONFileAtomic_cases) (simp_all add: assms(2))

lemmas record_cases = write_cases [where g = "put_record d rec" for d rec, folded write_as_put, simplified]
lemmas events_cases = write_cases [where g = "put_events d es" for d es, folded write_as_put, simplified]

lemma upgrades_interrupted:
  assumes "write_upgrades ups w = (r, w')" and "plan legacy (disk w) ups migs" and "distinct (w_dirs w)"
  shows "\<exists>rest. plan legacy (disk w') rest migs \<and> after_plan rest migs (disk w') = after_plan ups migs (disk w) \<and>
    w_dirs w' = w_dirs w \<and> (\<forall>v. r = Inr v \<longrightarrow> rest = [])"
  using assms
proof (induction ups arbitrary: w)
  case Nil
  then show ?case by auto
next
  case (Cons u ups)
  obtain d rec where u: "u = (d, rec)" by (cases u)
  obtain q v where q: "write_record d rec w = (q, v)" by (cases "write_record d rec w")
  from record_cases [OF q] show ?case
  proof (elim disjE conjE exE, goal_cases)
    case (1 e)
    then have "r = Inl e" "w' = v" using Cons.prems(1) q u by simp_all
    with 1 Cons.prems show ?case by (metis disk_fields(1) sum.distinct(1))
  next
    case 2
    have d: "w_dirs v = w_dirs w" using arg_cong [OF 2(2), of w_dirs] by simp
    have p: "plan legacy (disk v) ups migs" using plan_stamped Cons.prems(2,3) u 2(2) by simp
    have "write_upgrades ups v = (r, w')" using Cons.prems(1) q u 2(1) by simp
    from Cons.IH [OF this p] Cons.prems(3) show ?case by (simp add: d u 2(2) after_plan_def)
  qed
qed

lemma migrations_interrupted:
  assumes "write_migrations migs w = (r, w')" and "plan legacy (disk w) [] migs" and "distinct (w_dirs w)" and "legacy_named legacy"
  shows "\<exists>rest. plan legacy (disk w') [] rest \<and> after_plan [] rest (disk w') = after_plan [] migs (disk w) \<and>
    (\<forall>v. r = Inr v \<longrightarrow> rest = [])"
  using assms(1-3)
proof (induction migs arbitrary: w)
  case Nil
  then show ?case by auto
next
  case (Cons m migs)
  obtain d rec es where m: "m = (d, rec, es)" by (cases m)
  note plan = Cons.prems(2) [unfolded m]
  obtain q v where q: "writeTaskEventsAtomic d es w = (q, v)" by (cases "writeTaskEventsAtomic d es w")
  from events_cases [OF q] show ?case
  proof (elim disjE conjE exE, goal_cases)
    case (1 e)
    then have "w' = v" "r = Inl e" using Cons.prems(1) q m by simp_all
    with 1 Cons.prems(2) show ?case by auto
  next
    case 2
    have d: "w_dirs v = w_dirs w" using arg_cong [OF 2(2), of w_dirs] by simp
    have p: "plan legacy (disk v) [] ((d, rec, es) # migs)"
      using plan_events [OF plan] Cons.prems(3) assms(4) 2(2) by simp
    have same: "put_events d es (put_events d es x) = put_events d es x" for x
      by (simp add: put_events_def)
    obtain q' v' where q': "write_record d rec v = (q', v')" by (cases "write_record d rec v")
    from record_cases [OF q'] show ?case
    proof (elim disjE conjE exE, goal_cases)
      case (1 e)
      then have "w' = v'" "r = Inl e" using Cons.prems(1) q q' m 2(1) by simp_all
      with p 1 2(2) m show ?case by (intro exI [of _ "m # migs"]) (simp add: after_plan_def same)
    next
      case r: 2
      have d': "w_dirs v' = w_dirs w" using arg_cong [OF r(2), of w_dirs] d by simp
      have p': "plan legacy (disk v') [] migs" using plan_committed [OF p] Cons.prems(3) assms(4) r(2) d by simp
      have "write_migrations migs v' = (r, w')" using Cons.prems(1) q q' m 2(1) r(1) by simp
      from Cons.IH [OF this p'] Cons.prems(3) show ?case by (simp add: d' m 2(2) r(2) after_plan_def)
    qed
  qed
qed

lemma migrate_has_plan:
  assumes "migrateLegacyTaskRecords legacy w = (Inr x, v)"
  shows "\<exists>ups migs. plan legacy (disk w) ups migs"
proof -
  obtain w1 occ up w2 ms w3 where run: "io_step w = (Inr (), w1)"
      "current_records (dirs_of w) [] [] w1 = (Inr (occ, up), w2)"
      "legacy_records legacy (dirs_of w) occ [] w2 = (Inr ms, w3)"
    using assms by (auto simp: migrateLegacyTaskRecords_def Let_def elim!: bindE_InrE)
  have w1: "disk w1 = disk w" using run(1) by (rule io_step_disk)
  have c: "current_records (dirs_of (disk w)) [] [] (disk w) = (Inr (occ, up), disk w)" "disk w2 = disk w"
    using reads_value [OF reads_current_records run(2)] w1 by simp_all
  have "legacy_records legacy (dirs_of (disk w)) occ [] (disk w) = (Inr ms, disk w)"
    using reads_value [OF reads_legacy_records run(3)] c(2) by simp
  from plan_exists [OF c(1) _ this] show ?thesis by auto
qed

lemma migrate_resumes:
  assumes "plan legacy (disk w) ups migs" and "distinct (w_dirs w)" and "legacy_named legacy"
    and "migrateLegacyTaskRecords legacy w = (r, w')"
  shows "\<exists>ups' migs'. plan legacy (disk w') ups' migs' \<and> after_plan ups' migs' (disk w') = after_plan ups migs (disk w) \<and>
    (\<forall>v. r = Inr v \<longrightarrow> ups' = [] \<and> migs' = [])"
proof -
  let ?f = "\<lambda>(d, _ :: taskRecord). d @ ''/tasks.json''"
  have faults: "w_faults (disk w) = []" by simp
  note planned = assms(1) [unfolded plan_def disk_fields]
  from assms(4) show ?thesis
    unfolding migrateLegacyTaskRecords_def Let_def
  proof (elim bindE_casesE, goal_cases)
    case (1 e)
    then have "disk w' = disk w" by (simp add: io_step_disk)
    with assms(1) 1(2) show ?case by auto
  next
    case (2 a w1 e)
    then have "disk w' = disk w" by (metis io_step_disk reads_current_records reads_disk)
    with assms(1) 2(3) show ?case by auto
  next
    case (3 a w1 p w2)
    obtain occ up where p: "p = (occ, up)" by (cases p)
    have w: "disk w1 = disk w" "disk w2 = disk w" using 3(1,2) by (metis io_step_disk reads_current_records reads_disk)+
    show ?case
    proof (rule bindE_casesE [OF 3(3) [unfolded p prod.case]], goal_cases)
      case (1 e)
      then have "disk w' = disk w" by (metis reads_disk reads_legacy_records w(2))
      with assms(1) 1(2) show ?case by auto
    next
      case l: (2 ms w3)
      have w3: "disk w3 = disk w" using l(1) by (metis reads_disk reads_legacy_records w(2))
      have cur: "current_records (dirs_of (disk w)) [] [] (disk w) = (Inr (occ, up), disk w)"
        using reads_value [OF reads_current_records 3(2)] w(1) p by simp
      have leg: "legacy_records legacy (dirs_of (disk w)) occ [] (disk w) = (Inr ms, disk w)"
        using reads_value [OF reads_legacy_records l(1)] w(2) by simp
      have P: "plan legacy (disk w) (sort_key ?f up) ms" using plan_exists [OF cur faults leg] .
      then have e: "sort_key ?f up = ups" "ms = migs" using assms(1) by (simp_all add: plan_def)
      show ?case
      proof (rule bindE_casesE [OF l(2)], goal_cases)
        case (1 x)
        show ?case
          using upgrades_interrupted [OF 1(1), of legacy migs] P e w3 assms(2) disk_eqD(1) [OF w3] 1(2) by auto
      next
        case u: (2 y w4)
        obtain rest where "plan legacy (disk w4) [] migs" "after_plan [] migs (disk w4) = after_plan ups migs (disk w)" "w_dirs w4 = w_dirs w"
          using upgrades_interrupted [OF u(1), of legacy migs] P e w3 assms(2) disk_eqD(1) [OF w3] by auto
        moreover have "write_migrations migs w4 = (r, w')" using u(2) migs_sorted [OF P] e(2) by simp
        ultimately show ?case using migrations_interrupted [of migs w4 r w' legacy] assms(2,3) by fastforce
      qed
    qed
  qed
qed

lemma migrate_success:
  assumes "migrateLegacyTaskRecords legacy w = (Inr x, w')" and "distinct (w_dirs w)" and "legacy_named legacy"
  shows "\<exists>ups migs. plan legacy (disk w) ups migs \<and> disk w' = after_plan ups migs (disk w)"
proof -
  obtain ups migs where P: "plan legacy (disk w) ups migs" using migrate_has_plan [OF assms(1)] by blast
  with migrate_resumes [OF P assms(2,3,1)] show ?thesis by (auto simp: after_plan_def [of "[]" "[]"])
qed

subsection \<open>What a migrated directory holds\<close>

lemma fold_records_other:
  "d \<notin> fst ` set ups \<Longrightarrow> mget (w_tasks (fold (\<lambda>(d, rec). put_record d rec) ups w)) d = mget (w_tasks w) d"
  by (induction ups arbitrary: w) auto

lemma fold_records_journal [simp]: "w_journal (fold (\<lambda>(d, rec). put_record d rec) ups w) = w_journal w"
  by (induction ups arbitrary: w) auto

lemma fold_migrations_other:
  "d \<notin> fst ` set migs \<Longrightarrow>
     mget (w_tasks (fold (\<lambda>(d, rec, es) w. put_record d rec (put_events d es w)) migs w)) d = mget (w_tasks w) d \<and>
     mget (w_journal (fold (\<lambda>(d, rec, es) w. put_record d rec (put_events d es w)) migs w)) d = mget (w_journal w) d"
  by (induction migs arbitrary: w) auto

lemma fold_migrations_this:
  "(d, rec, es) \<in> set migs \<Longrightarrow> distinct (map fst migs) \<Longrightarrow>
     mget (w_tasks (fold (\<lambda>(d, rec, es) w. put_record d rec (put_events d es w)) migs w)) d = Some (Json rec) \<and>
     mget (w_journal (fold (\<lambda>(d, rec, es) w. put_record d rec (put_events d es w)) migs w)) d
       = Some \<lparr>j_lines = map Line es, j_tail = NoTail\<rparr>"
proof (induction migs arbitrary: w)
  case (Cons m migs)
  show ?case
  proof (cases "m = (d, rec, es)")
    case True
    then have "d \<notin> fst ` set migs" using Cons.prems(2) by simp
    with True show ?thesis by (simp add: fold_migrations_other)
  next
    case False
    with Cons show ?thesis by (cases m) auto
  qed
qed simp

lemma plan_stamps_present:
  assumes "plan legacy w ups migs" and "mget (w_tasks w) d = None"
  shows "d \<notin> fst ` set ups"
proof -
  have "set ups = (\<Union>x \<in> set (dirs_of w). set (stamp_at w x))" using assms(1) by (simp add: plan_def)
  with assms(2) show ?thesis by (auto simp: stamp_at_def split: option.splits jfile.splits if_splits)
qed

lemma chosen_pick:
  "chosen p ds C = Some ms \<Longrightarrow> (d, rec, es) \<in> set ms \<Longrightarrow> \<exists>sn. p d = Some (Inr (rec, sn)) \<and> es = sn_Events sn"
  by (induction ds arbitrary: C ms) (auto split: option.splits sum.splits if_splits)

text \<open>A root whose identifier is not trimmed counts as its own child and is refused.\<close>

lemma record_of_trimmed:
  assumes "snapshotFromRecord i (record_of sn) = Inr sn'" and "TrimSpace (t_ID (sn_Root sn)) = TrimSpace i"
  shows "t_ID (sn_Root sn) = TrimSpace i"
proof (rule ccontr)
  assume ne: "t_ID (sn_Root sn) \<noteq> TrimSpace i"
  note S = snapshotFromRecord_Inr [OF assms(1)]
  have "TrimSpace i \<in> set (map (TrimSpace \<circ> t_ID) (filter (\<lambda>t. TrimSpace (t_ParentID t) = []) (r_Tasks (record_of sn))))"
    using S by (simp only: list.set_intros(1))
  then obtain z where z: "z \<in> set (r_Tasks (record_of sn))" "TrimSpace (t_ParentID z) = []" "TrimSpace (t_ID z) = TrimSpace i"
    by auto
  have "sn_Root sn \<in> set (r_Tasks (record_of sn))" by (simp add: record_of_def)
  then have z': "z = sn_Root sn" using S z assms(2) by (metis (no_types, lifting) comp_apply distinct_map inj_onD)
  have "sn_Children sn' = sort_key t_ID (filter (\<lambda>t. t_ID t \<noteq> TrimSpace i) (r_Tasks (record_of sn)))" using S by blast
  then have "sn_Root sn \<in> set (sn_Children sn')" using z(1) z' ne by simp
  then obtain u where "chain (map trim_id (r_Tasks (record_of sn))) (sn_Root sn) u" "t_ID u = TrimSpace i" using S by blast
  then show False using ne z' z(2) by (auto elim: chain.cases)
qed

subsection \<open>The property\<close>

text \<open>C7. A migration of the task files that is interrupted, by whatever failures, can simply be repeated: run
  again on the files that it left behind, it succeeds and ends with exactly the records and journals that
  one undisturbed migration would have produced. In particular a second migration changes nothing. The
  premise on the names is that the legacy directories are named after their root tasks.\<close>

theorem migration_restart:
  assumes "legacy_named legacy" and "distinct (w_dirs w)"
    and "migrateLegacyTaskRecords legacy w = (r, w')"
    and "migrateLegacyTaskRecords legacy (disk w) = (Inr (), v)"
  shows "migrateLegacyTaskRecords legacy (disk w') = (Inr (), v)"
proof -
  obtain ups migs where P: "plan legacy (disk w) ups migs"
    using migrate_has_plan [OF assms(4)] by auto
  then have v: "v = after_plan ups migs (disk w)" using migrate_planned [OF P] assms(4) by simp
  obtain ups' migs' where "plan legacy (disk w') ups' migs'" "after_plan ups' migs' (disk w') = v"
    using migrate_resumes [OF P assms(2,1,3)] v by auto
  with migrate_planned show ?thesis by metis
qed

definition demo_legacy :: legacy_store where
  "demo_legacy d =
     \<lparr>lf_root = (if d = ''task-1'' then Some (Json (zero_aggregate\<lparr>lg_Task := zero_task\<lparr>t_ID := ''task-1''\<rparr>\<rparr>)) else None),
      lf_children = None, lf_approvals = None, lf_presence = None\<rparr>"

definition demo_store :: World where
  "demo_store = \<lparr>w_dirs = [''task-1''], w_tasks = [],
     w_journal = [(''task-1'', \<lparr>j_lines = [Line (zero_event\<lparr>e_Seq := 1\<rparr>)], j_tail = TornEvent (zero_event\<lparr>e_Seq := 2\<rparr>)\<rparr>)],
     w_sequence = None, w_index = None, w_faults = replicate 9 NoFault @ [FailBefore]\<rparr>"

lemma demo_legacy_named: "legacy_named demo_legacy"
  by (simp add: legacy_named_def demo_legacy_def)

text \<open>The migration is stopped after the journal was rewritten and before the record is.\<close>

theorem migration_restart_witness:
  "fst (migrateLegacyTaskRecords demo_legacy demo_store) = Inl ErrIO \<and>
   w_journal (snd (migrateLegacyTaskRecords demo_legacy demo_store)) \<noteq> w_journal demo_store \<and>
   migrateLegacyTaskRecords demo_legacy (disk (snd (migrateLegacyTaskRecords demo_legacy demo_store)))
     = (Inr (), snd (migrateLegacyTaskRecords demo_legacy (disk demo_store)))"
proof -
  have f: "fst (migrateLegacyTaskRecords demo_legacy demo_store) = Inl ErrIO" by code_simp
  have j: "w_journal (snd (migrateLegacyTaskRecords demo_legacy demo_store)) \<noteq> w_journal demo_store" by code_simp
  have "fst (migrateLegacyTaskRecords demo_legacy (disk demo_store)) = Inr ()" by code_simp
  then have s: "migrateLegacyTaskRecords demo_legacy (disk demo_store) = (Inr (), snd (migrateLegacyTaskRecords demo_legacy (disk demo_store)))"
    by (metis prod.collapse)
  have "distinct (w_dirs demo_store)" by (simp add: demo_store_def)
  from migration_restart [OF demo_legacy_named this prod.collapse [symmetric] s] f j show ?thesis by blast
qed

text \<open>
  What a reader finds in a journal that holds exactly \<open>es\<close>, under a record that names the largest of
  their sequence numbers: it stops at the first event with that number.
\<close>

definition read_back :: "TaskEvent list \<Rightarrow> TaskEvent list" where
  "read_back es = (if latestEventSeq es = 0 then []
     else take (Suc (length (takeWhile (\<lambda>e. e_Seq e < latestEventSeq es) es))) es)"

lemma latestEventSeq_attained: "latestEventSeq es \<noteq> 0 \<Longrightarrow> \<exists>e \<in> set es. e_Seq e = latestEventSeq es"
proof (induction es rule: rev_induct)
  case (snoc e es)
  then show ?case by (cases "latestEventSeq es = 0") (auto simp: latestEventSeq_snoc max_def split: if_splits)
qed (simp add: latestEventSeq_def)

lemma scan_journal_lines:
  assumes "\<forall>e \<in> set es. e_Seq e \<le> c" and "l \<le> c" and "l < c \<longrightarrow> (\<exists>e \<in> set es. e_Seq e = c)"
  shows "scan_journal False c (map Line es) NoTail l =
    Inr (if l = c then [] else take (Suc (length (takeWhile (\<lambda>e. e_Seq e < c) es))) es, NoTail, c)"
  using assms
proof (induction es arbitrary: l)
  case (Cons e es)
  show ?case
  proof (cases "l = c")
    case False
    have "scan_journal False c (map Line es) NoTail (max l (e_Seq e)) =
        Inr (if max l (e_Seq e) = c then [] else take (Suc (length (takeWhile (\<lambda>e. e_Seq e < c) es))) es, NoTail, c)"
      using Cons.prems by (intro Cons.IH) (auto simp: max_def)
    with False Cons.prems show ?thesis by (auto simp: max_def)
  qed simp
qed auto

lemma readCommittedEvents_journal:
  assumes "mget (w_journal w) d = Some \<lparr>j_lines = map Line es, j_tail = NoTail\<rparr>" and "w_faults w = []"
  shows "readCommittedEvents d (latestEventSeq es) False w = (Inr (read_back es), w)"
proof -
  have "scan_journal False (latestEventSeq es) (map Line es) NoTail 0 = Inr (read_back es, NoTail, latestEventSeq es)"
    using latestEventSeq_ge [of _ es] latestEventSeq_ge0 [of es] latestEventSeq_attained [of es]
    by (subst scan_journal_lines) (auto simp: read_back_def)
  with assms show ?thesis by (simp add: readCommittedEvents_def)
qed

lemma read_back_ordered:
  assumes "seq_ok es"
  shows "read_back es = es"
proof (cases "es = []")
  case False
  then obtain xs e where es: "es = xs @ [e]" by (metis append_butlast_last_id)
  have m: "latestEventSeq es = e_Seq e" using latestEventSeq_seq_ok [OF assms] es by simp
  have "\<forall>x \<in> set xs. e_Seq x < e_Seq e" "0 < e_Seq e"
    using assms by (auto simp: es seq_ok_def sorted_wrt_append)
  then show ?thesis by (simp add: read_back_def m) (simp add: es takeWhile_append2)
qed (simp add: read_back_def latestEventSeq_def)

text \<open>C8. A migration that succeeds keeps the tasks it moves: loading a directory that had only legacy files gives
  the root task, the children (in the order of their identifiers), the approvals and the presence entries that
  the legacy files held, and their events up to the first one with the largest sequence number. These are all the
  events if the legacy files hold them in increasing order, as the service writes them; events behind the
  largest number are in the migrated journal, but are not read back. The premises say that the directory is
  named by its trimmed identifier and that its legacy files are readable and name that root.\<close>

theorem migration_roundtrip:
  assumes "legacy_named legacy" and "distinct (w_dirs w)" and "trimmed d"
    and "migrateLegacyTaskRecords legacy w = (Inr (), w')"
    and "mget (w_tasks w) d = None" and "mget (w_tasks w') d \<noteq> None"
    and "fst (readLegacyTaskSnapshot (legacy d) d (disk w)) = Inr sn"
  shows "LoadRoot d (disk w') = (Inr (sn\<lparr>sn_Children := sort_key t_ID (sn_Children sn),
      sn_Events := read_back (sn_Events sn)\<rparr>), disk w') \<and>
    (seq_ok (sn_Events sn) \<longrightarrow> read_back (sn_Events sn) = sn_Events sn) \<and>
    mget (w_journal w') d = Some \<lparr>j_lines = map Line (sn_Events sn), j_tail = NoTail\<rparr>"
proof -
  obtain ups migs where P: "plan legacy (disk w) ups migs" and v: "disk w' = after_plan ups migs (disk w)"
    using migrate_success [OF assms(4,2,1)] by blast
  have up: "d \<notin> fst ` set ups" using plan_stamps_present [OF P] assms(5) by simp
  have "d \<in> fst ` set migs"
  proof (rule ccontr)
    assume "d \<notin> fst ` set migs"
    then have "mget (w_tasks (disk w')) d = None" using up assms(5) by (simp add: v after_plan_def fold_migrations_other fold_records_other)
    with assms(6) show False by simp
  qed
  then obtain rec es where m: "(d, rec, es) \<in> set migs" by auto
  then obtain sn2 where sn2: "pick_at legacy (disk w) d = Some (Inr (rec, sn2))" "es = sn_Events sn2"
    using P chosen_pick unfolding plan_def by blast
  note K = picked [OF assms(1) sn2(1)]
  have sn: "sn2 = sn" using K(2) assms(7) by (simp add: readLegacy_value)
  have "distinct (map fst migs)" using P chosen_dirs assms(2) unfolding plan_def
    by (metis disk_fields(1) distinct_sort distinct_nthsI subseq_conv_nths)
  from fold_migrations_this [OF m this] have f: "mget (w_tasks w') d = Some (Json rec)"
      "mget (w_journal w') d = Some \<lparr>j_lines = map Line (sn_Events sn), j_tail = NoTail\<rparr>"
    using arg_cong [OF v, of w_tasks] arg_cong [OF v, of w_journal] sn2(2) sn by (simp_all add: after_plan_def)
  obtain sn' where sn': "snapshotFromRecord d (record_of sn) = Inr sn'" using K(3,4) sn by auto
  have i: "t_ID (sn_Root sn) = d" using record_of_trimmed [OF sn'] K(5) sn assms(3) by (simp add: trimmed_TrimSpace)
  have "d \<noteq> []" using snapshotFromRecord_Inr [OF sn'] assms(3) by (simp add: trimmed_TrimSpace)
  moreover have "readCommittedEvents d (r_EventSeq rec) False (disk w') = (Inr (read_back (sn_Events sn)), disk w')"
    using readCommittedEvents_journal [of "disk w'" d "sn_Events sn"] f(2) K(3) sn by (simp add: record_of_def)
  moreover have "validateTaskRecordVersion rec = Inr (rec\<lparr>r_SchemaVersion := 2\<rparr>)"
    using K(3) sn by (intro validateTaskRecordVersion_ok) (simp add: record_of_def currentTaskSchemaVersion_def)
  ultimately have "LoadRoot d (disk w') = (Inr (sn'\<lparr>sn_Events := read_back (sn_Events sn)\<rparr>), disk w')"
    using f(1) K(3) sn sn' assms(3) by (simp add: LoadRoot_def Let_def trimmed_TrimSpace readJSONFile_def)
  also have "sn'\<lparr>sn_Events := read_back (sn_Events sn)\<rparr> =
      sn\<lparr>sn_Children := sort_key t_ID (sn_Children sn), sn_Events := read_back (sn_Events sn)\<rparr>"
    using snapshotFromRecord_record_of [of sn sn' "read_back (sn_Events sn)"] sn' i assms(3) by simp
  finally show ?thesis using f(2) read_back_ordered by blast
qed

theorem migration_roundtrip_witness:
  "LoadRoot ''task-1'' (disk (snd (migrateLegacyTaskRecords demo_legacy (disk demo_store)))) =
     (Inr \<lparr>sn_Root = zero_task\<lparr>t_ID := ''task-1''\<rparr>, sn_Children = [], sn_Approvals = [], sn_Presence = [],
        sn_Events = [zero_event\<lparr>e_Seq := 1\<rparr>, zero_event\<lparr>e_Seq := 2\<rparr>]\<rparr>,
      disk (snd (migrateLegacyTaskRecords demo_legacy (disk demo_store))))"
proof -
  let ?sn = "\<lparr>sn_Root = zero_task\<lparr>t_ID := ''task-1''\<rparr>, sn_Children = [], sn_Approvals = [], sn_Presence = [],
        sn_Events = [zero_event\<lparr>e_Seq := 1\<rparr>, zero_event\<lparr>e_Seq := 2\<rparr>]\<rparr>"
  have "fst (migrateLegacyTaskRecords demo_legacy (disk demo_store)) = Inr ()" by code_simp
  then have s: "migrateLegacyTaskRecords demo_legacy (disk demo_store) = (Inr (), snd (migrateLegacyTaskRecords demo_legacy (disk demo_store)))"
    by (metis prod.collapse)
  have n: "mget (w_tasks (disk demo_store)) ''task-1'' = None" "distinct (w_dirs (disk demo_store))" by (simp_all add: demo_store_def)
  have t: "trimmed ''task-1''" by code_simp
  have m: "mget (w_tasks (snd (migrateLegacyTaskRecords demo_legacy (disk demo_store)))) ''task-1'' \<noteq> None" by code_simp
  have r: "fst (readLegacyTaskSnapshot (demo_legacy ''task-1'') ''task-1'' (disk (disk demo_store))) = Inr ?sn" by code_simp
  have q: "seq_ok (sn_Events ?sn)" by (simp add: seq_ok_def zero_event_def)
  from migration_roundtrip [OF demo_legacy_named n(2) t s n(1) m r] q show ?thesis by simp
qed

end
