(* ===== verification/GoText.thy ===== *)
theory GoText
  imports WorkTypes "HOL-Library.Word"
begin

section \<open>Digests and JSON strings of the Go library\<close>

text \<open>
  What the room context uses of the standard library: \<open>sha256.Sum256\<close> with \<open>hex.EncodeToString\<close>, and
  \<open>json.Marshal\<close> on a string, which escapes the characters that are special in HTML.
\<close>

declare map_of_eq_Some_iff [simp del] Some_eq_map_of_iff [simp del]

unbundle bit_operations_syntax

subsection \<open>SHA-256\<close>

text \<open>
  The round constants are the first 32 bits after the binary point of the cube roots of the first 64
  primes. The root is found bit by bit: the greatest number whose power does not exceed \<open>n\<close>.
\<close>

fun root_bits :: "nat \<Rightarrow> nat \<Rightarrow> nat \<Rightarrow> nat \<Rightarrow> nat" where
  "root_bits k n 0 r = r"
| "root_bits k n (Suc i) r = root_bits k n i (if (r + 2 ^ i) ^ k \<le> n then r + 2 ^ i else r)"

lemma root_bits_greatest:
  assumes "r ^ k \<le> n" and "n < (r + 2 ^ i) ^ k"
  shows "root_bits k n i r ^ k \<le> n \<and> n < (root_bits k n i r + 1) ^ k"
  using assms
proof (induction i arbitrary: r)
  case (Suc i)
  then show ?case using Suc.IH [of "r + 2 ^ i"] Suc.IH [of r] by (simp add: mult_2 add.assoc)
qed simp

definition sha_primes :: "nat list" where
  "sha_primes = filter (\<lambda>n. \<forall>d \<in> set [2..<n]. n mod d \<noteq> 0) [2..<312]"

definition sha_K :: "32 word list" where
  "sha_K = map (\<lambda>p. of_nat (root_bits 3 (p * 2 ^ 96) 35 0)) sha_primes"

type_synonym sha_state = "32 word \<times> 32 word \<times> 32 word \<times> 32 word \<times> 32 word \<times> 32 word \<times> 32 word \<times> 32 word"

definition sha_init :: sha_state where
  "sha_init = (0x6a09e667, 0xbb67ae85, 0x3c6ef372, 0xa54ff53a, 0x510e527f, 0x9b05688c, 0x1f83d9ab, 0x5be0cd19)"

fun sha_schedule :: "nat \<Rightarrow> 32 word list \<Rightarrow> 32 word list" where
  "sha_schedule 0 w = w"
| "sha_schedule (Suc n) w =
     (let t = length w; a = w ! (t - 15); b = w ! (t - 2);
          s0 = word_rotr 7 a XOR word_rotr 18 a XOR drop_bit 3 a;
          s1 = word_rotr 17 b XOR word_rotr 19 b XOR drop_bit 10 b in
      sha_schedule n (w @ [w ! (t - 16) + s0 + w ! (t - 7) + s1]))"

fun sha_round :: "32 word \<times> 32 word \<Rightarrow> sha_state \<Rightarrow> sha_state" where
  "sha_round (k, w) (a, b, c, d, e, f, g, h) =
     (let s1 = word_rotr 6 e XOR word_rotr 11 e XOR word_rotr 25 e;
          ch = (e AND f) XOR (NOT e AND g);
          t1 = h + s1 + ch + k + w;
          s0 = word_rotr 2 a XOR word_rotr 13 a XOR word_rotr 22 a;
          maj = (a AND b) XOR (a AND c) XOR (b AND c) in
      (t1 + (s0 + maj), a, b, c, d + t1, e, f, g))"

fun sha_add :: "sha_state \<Rightarrow> sha_state \<Rightarrow> sha_state" where
  "sha_add (a, b, c, d, e, f, g, h) (a', b', c', d', e', f', g', h') =
     (a + a', b + b', c + c', d + d', e + e', f + f', g + g', h + h')"

fun words_of :: "nat list \<Rightarrow> 32 word list" where
  "words_of (a # b # c # d # bs) = word_of_nat (((a * 256 + b) * 256 + c) * 256 + d) # words_of bs"
| "words_of _ = []"

definition sha_block :: "nat list \<Rightarrow> sha_state \<Rightarrow> sha_state" where
  "sha_block block s = sha_add s (fold sha_round (zip sha_K (sha_schedule 48 (words_of block))) s)"

function sha_blocks :: "nat list \<Rightarrow> sha_state \<Rightarrow> sha_state" where
  "sha_blocks bs s = (if length bs < 64 then s else sha_blocks (drop 64 bs) (sha_block (take 64 bs) s))"
  by pat_completeness auto
termination by (relation "measure (\<lambda>(bs, s). length bs)") auto

declare sha_blocks.simps [simp del]

definition big_endian :: "nat \<Rightarrow> nat \<Rightarrow> nat list" where
  "big_endian k n = map (\<lambda>i. n div 256 ^ (k - 1 - i) mod 256) [0..<k]"

definition sha_pad :: "nat list \<Rightarrow> nat list" where
  "sha_pad bs = bs @ [0x80] @ replicate ((119 - length bs mod 64) mod 64) 0 @ big_endian 8 (8 * length bs)"

definition Sum256 :: "string \<Rightarrow> nat list" where
  "Sum256 s =
     (case sha_blocks (sha_pad (map of_char s)) sha_init of
        (a, b, c, d, e, f, g, h) \<Rightarrow> concat (map (\<lambda>w. big_endian 4 (unat w)) [a, b, c, d, e, f, g, h]))"

definition hex_digit :: "nat \<Rightarrow> char" where
  "hex_digit n = char_of (if n < 10 then 48 + n else 87 + n)"

definition EncodeToString :: "nat list \<Rightarrow> string" where
  "EncodeToString bs = concat (map (\<lambda>b. [hex_digit (b div 16), hex_digit (b mod 16)]) bs)"

subsection \<open>JSON strings\<close>

text \<open>The escape of a byte below \<open>0x80\<close>.\<close>

definition json_escape :: "char \<Rightarrow> string" where
  "json_escape c =
     (let n = of_char c :: nat in
      if n = 0x22 \<or> n = 0x5C then [CHR 0x5C, c]
      else if n = 8 then [CHR 0x5C, CHR ''b'']
      else if n = 12 then [CHR 0x5C, CHR ''f'']
      else if n = 10 then [CHR 0x5C, CHR ''n'']
      else if n = 13 then [CHR 0x5C, CHR ''r'']
      else if n = 9 then [CHR 0x5C, CHR ''t'']
      else if n < 0x20 \<or> n = 0x3C \<or> n = 0x3E \<or> n = 0x26 then
        [CHR 0x5C, CHR ''u'', CHR ''0'', CHR ''0'', hex_digit (n div 16), hex_digit (n mod 16)]
      else [c])"

text \<open>The number of bytes of a first rune that is not ASCII; \<open>0\<close> if it is not validly encoded.\<close>

definition rune_size :: "string \<Rightarrow> nat" where
  "rune_size s =
     (if length s \<ge> 2 \<and> ValidString (take 2 s) then 2
      else if length s \<ge> 3 \<and> ValidString (take 3 s) then 3
      else if length s \<ge> 4 \<and> ValidString (take 4 s) then 4
      else 0)"

function json_body :: "string \<Rightarrow> string" where
  "json_body [] = []"
| "json_body (c # cs) =
     (if of_char c < (0x80 :: nat) then json_escape c @ json_body cs
      else
        let k = rune_size (c # cs) in
        if k = 0 then CHR 0x5C # ''ufffd'' @ json_body cs
        else if take 3 (c # cs) = [CHR 0xE2, CHR 0x80, CHR 0xA8] then CHR 0x5C # ''u2028'' @ json_body (drop 2 cs)
        else if take 3 (c # cs) = [CHR 0xE2, CHR 0x80, CHR 0xA9] then CHR 0x5C # ''u2029'' @ json_body (drop 2 cs)
        else take k (c # cs) @ json_body (drop (k - 1) cs))"
  by pat_completeness auto
termination by (relation "measure length") auto

declare json_body.simps(2) [simp del]

definition json_string :: "string \<Rightarrow> string" where
  "json_string s = CHR 0x22 # json_body s @ [CHR 0x22]"

subsection \<open>An encoded string has no angle brackets\<close>

lemma hex_digit_mem: "n < 16 \<Longrightarrow> hex_digit n \<in> set ''0123456789abcdef''"
proof -
  have "\<forall>n \<in> set [0..<16]. hex_digit n \<in> set ''0123456789abcdef''" by code_simp
  then show "n < 16 \<Longrightarrow> hex_digit n \<in> set ''0123456789abcdef''" by simp
qed

lemma EncodeToString_hex: "\<forall>b \<in> set bs. b < 256 \<Longrightarrow> set (EncodeToString bs) \<subseteq> set ''0123456789abcdef''"
proof
  fix c
  assume b: "\<forall>b \<in> set bs. b < 256" and "c \<in> set (EncodeToString bs)"
  then obtain n where "n \<in> set bs" "c = hex_digit (n div 16) \<or> c = hex_digit (n mod 16)"
    by (auto simp: EncodeToString_def)
  moreover then have "n div 16 < 16" "n mod 16 < 16" using b by auto
  ultimately show "c \<in> set ''0123456789abcdef''" using hex_digit_mem by blast
qed

lemma big_endian_bytes: "\<forall>b \<in> set (big_endian k n). b < 256"
  by (auto simp: big_endian_def)

lemma Sum256_bytes: "\<forall>b \<in> set (Sum256 s). b < 256"
  using big_endian_bytes by (auto simp: Sum256_def split: prod.split)

lemma json_escape_plain: "CHR ''<'' \<notin> set (json_escape c)"
proof (cases "of_char c < (0x20 :: nat) \<or> of_char c = (0x3C :: nat) \<or> of_char c = (0x3E :: nat) \<or> of_char c = (0x26 :: nat)")
  case True
  then have "of_char c div 16 < (16 :: nat)" by auto
  then have "CHR ''<'' \<noteq> hex_digit (of_char c div 16)" "CHR ''<'' \<noteq> hex_digit (of_char c mod 16)"
    using hex_digit_mem [of "of_char c div 16"] hex_digit_mem [of "of_char c mod 16"] by auto
  with True show ?thesis by (auto simp: json_escape_def Let_def)
next
  case False
  then have "c \<noteq> CHR ''<''" by auto
  with False show ?thesis by (auto simp: json_escape_def Let_def)
qed

lemma ValidString_rune:
  assumes "ValidString (take k (c # cs))" and "\<not> of_char c < (0x80 :: nat)" and "k \<in> {2, 3, 4}" and "k \<le> length (c # cs)"
    and "2 < k \<Longrightarrow> \<not> ValidString (take 2 (c # cs))" and "3 < k \<Longrightarrow> \<not> ValidString (take 3 (c # cs))" and "d \<in> set (take k (c # cs))"
  shows "\<not> of_char d < (0x80 :: nat)"
proof -
  obtain c1 r1 where c1: "cs = c1 # r1" using assms(3,4) by (cases cs) auto
  consider "k = 2" | "k = 3" | "k = 4" using assms(3) by blast
  then show ?thesis
  proof cases
    case 1
    with assms(1,2,7) c1 show ?thesis by (auto simp: ValidString_def cont_def numeral_2_eq_2 split: if_splits)
  next
    case 2
    then obtain c2 r2 where "r1 = c2 # r2" using assms(4) c1 by (cases r1) auto
    moreover have "\<not> ValidString (take 2 (c # cs))" using assms(5) 2 by simp
    ultimately show ?thesis using assms(1,2,7) 2 c1
      by (auto simp: ValidString_def cont_def numeral_2_eq_2 numeral_3_eq_3 split: if_splits)
  next
    case 3
    then obtain c2 c3 r3 where "r1 = c2 # c3 # r3" using assms(4) c1 by (cases r1; cases "tl r1") auto
    moreover have "\<not> ValidString (take 2 (c # cs))" "\<not> ValidString (take 3 (c # cs))" using assms(5,6) 3 by simp_all
    ultimately show ?thesis using assms(1,2,7) 3 c1
      by (auto simp: ValidString_def cont_def numeral_2_eq_2 numeral_3_eq_3 eval_nat_numeral split: if_splits)
  qed
qed

lemma rune_plain:
  assumes "\<not> of_char c < (0x80 :: nat)" and "d \<in> set (take (rune_size (c # cs)) (c # cs))"
  shows "\<not> of_char d < (0x80 :: nat)"
proof -
  let ?s = "c # cs" and ?k = "rune_size (c # cs)"
  have "?k \<noteq> 0" using assms(2) by (metis empty_iff empty_set take_0)
  then have "ValidString (take ?k ?s) \<and> ?k \<in> {2, 3, 4} \<and> ?k \<le> length ?s \<and>
      (2 < ?k \<longrightarrow> \<not> ValidString (take 2 ?s)) \<and> (3 < ?k \<longrightarrow> \<not> ValidString (take 3 ?s))"
    unfolding rune_size_def by (simp split: if_splits)
  then show ?thesis using ValidString_rune [of ?k c cs d] assms by blast
qed

lemma json_body_plain: "CHR ''<'' \<notin> set (json_body s)"
proof (induction s rule: json_body.induct)
  case 1
  then show ?case by simp
next
  case (2 c cs)
  let ?k = "rune_size (c # cs)"
  show ?case
  proof (cases "of_char c < (0x80 :: nat)")
    case True
    with 2 json_escape_plain show ?thesis by (simp add: json_body.simps(2))
  next
    case False
    have "CHR ''<'' \<notin> set (take ?k (c # cs))" using rune_plain [OF False, of "CHR ''<''" cs] by auto
    with False 2(2-5) [OF False refl] show ?thesis by (auto simp: json_body.simps(2) Let_def)
  qed
qed

lemma json_string_plain: "CHR ''<'' \<notin> set (json_string s)"
  by (simp add: json_string_def json_body_plain)

end
