(* ===== verification/ImIdentity.thy ===== *)
theory ImIdentity
  imports WorkTypes
begin

section \<open>Identities of the conversation service (\<open>internal/im/user_resolve.go\<close>)\<close>

text \<open>
  The spellings under which the service knows a user or a participant, and the identifiers in the
  mention tags of a message.
\<close>

declare map_of_eq_Some_iff [simp del] Some_eq_map_of_iff [simp del]

definition adminParticipantID :: string where "adminParticipantID = ''pt-admin''"
definition managerParticipantID :: string where "managerParticipantID = ''pt-manager''"
definition adminUserID :: string where "adminUserID = ''user-admin''"
definition legacyBareAdminUserID :: string where "legacyBareAdminUserID = ''admin''"
definition legacyAdminUserID :: string where "legacyAdminUserID = ''u-admin''"
definition managerParticipantUserID :: string where "managerParticipantUserID = ''user-manager''"
definition legacyManagerParticipantID :: string where "legacyManagerParticipantID = ''manager''"
definition legacyTypedManagerParticipantID :: string where "legacyTypedManagerParticipantID = ''pt-manager''"
definition legacyManagerUserID :: string where "legacyManagerUserID = ''u-manager''"

lemmas identity_defs =
  adminParticipantID_def managerParticipantID_def adminUserID_def legacyBareAdminUserID_def
  legacyAdminUserID_def managerParticipantUserID_def legacyManagerParticipantID_def
  legacyTypedManagerParticipantID_def legacyManagerUserID_def

text \<open>The loop removes the first prefix of the list that fits, until none does.\<close>

definition identity_prefixes :: "string list" where
  "identity_prefixes = [''user-'', ''agent-'', ''pt-'', ''u-'']"

definition trimLocalIdentityPrefixes :: "string \<Rightarrow> string" where
  "trimLocalIdentityPrefixes i = TrimSpace (strip identity_prefixes (TrimSpace i))"

definition canonicalIMUserID :: "string \<Rightarrow> string" where
  "canonicalIMUserID i =
     (let i = TrimSpace i in
      if i = [] then []
      else if i \<in> set [legacyBareAdminUserID, legacyAdminUserID, adminParticipantID] then adminUserID
      else if i \<in> set [legacyManagerParticipantID, legacyTypedManagerParticipantID, legacyManagerUserID] then managerParticipantUserID
      else if HasPrefix i ''user-'' then i
      else let suffix = trimLocalIdentityPrefixes i in
        if suffix \<noteq> [] then ''user-'' @ suffix else ''user-'' @ i)"

definition canonicalIMParticipantID :: "string \<Rightarrow> string" where
  "canonicalIMParticipantID i =
     (let i = TrimSpace i in
      if i = [] then []
      else if i \<in> set [legacyBareAdminUserID, legacyAdminUserID, adminUserID] then adminParticipantID
      else if i \<in> set [legacyManagerParticipantID, legacyTypedManagerParticipantID, legacyManagerUserID, managerParticipantUserID]
        then managerParticipantID
      else if HasPrefix i ''pt-'' then i
      else let suffix = trimLocalIdentityPrefixes i in
        if suffix \<noteq> [] then ''pt-'' @ suffix else ''pt-'' @ i)"

definition participantIDForUserID :: "string \<Rightarrow> string" where
  "participantIDForUserID userID = canonicalIMParticipantID (canonicalIMUserID userID)"

definition userIDForParticipantID :: "string \<Rightarrow> string" where
  "userIDForParticipantID participantID = canonicalIMUserID (canonicalIMParticipantID participantID)"

subsection \<open>Mention tags\<close>

text \<open>
  The pattern \<open><at\s+user_id="([^"]+)">[^<]*</at>\<close> at the start of a text: the identifier and the text
  after the match. No part of the pattern can match in two ways, so a scan from left to right finds
  the matches that the regular expression finds.
\<close>

definition quote_char :: char where "quote_char = CHR 0x22"

definition pattern_space :: "char \<Rightarrow> bool" where
  "pattern_space c \<longleftrightarrow> c \<in> set [CHR 0x09, CHR 0x0A, CHR 0x0C, CHR 0x0D, CHR 0x20]"

definition match_tag :: "string \<Rightarrow> (string \<times> string) option" where
  "match_tag s =
     (let spaced = drop 3 s; attr = dropWhile pattern_space spaced; val = drop 9 attr;
          i = takeWhile (\<lambda>c. c \<noteq> quote_char) val; closing = drop (length i) val;
          body = dropWhile (\<lambda>c. c \<noteq> CHR ''<'') (drop 2 closing) in
      if HasPrefix s ''<at'' \<and> length attr < length spaced \<and> HasPrefix attr (''user_id='' @ [quote_char]) \<and>
         i \<noteq> [] \<and> HasPrefix closing [quote_char, CHR ''>''] \<and> HasPrefix body ''</at>''
      then Some (i, drop 5 body) else None)"

lemma match_tag_shorter:
  assumes "match_tag s = Some (i, rest)"
  shows "length rest < length s"
proof -
  let ?attr = "dropWhile pattern_space (drop 3 s)"
  let ?closing = "drop (length i) (drop 9 ?attr)"
  have "HasPrefix s ''<at''" and rest: "rest = drop 5 (dropWhile (\<lambda>c. c \<noteq> CHR ''<'') (drop 2 ?closing))"
    using assms by (auto simp: match_tag_def Let_def split: if_splits)
  then have "s \<noteq> []" by (auto simp: HasPrefix_def starts_with_def)
  have "length rest \<le> length (drop 2 ?closing)"
    unfolding rest using length_dropWhile_le [of "\<lambda>c. c \<noteq> CHR ''<''" "drop 2 ?closing"] by simp
  also have "\<dots> \<le> length ?attr" by simp
  also have "\<dots> \<le> length s - 3" using length_dropWhile_le [of pattern_space "drop 3 s"] by simp
  also have "\<dots> < length s" using \<open>s \<noteq> []\<close> by (cases s) auto
  finally show ?thesis .
qed

function tag_ids :: "string \<Rightarrow> string list" where
  "tag_ids s =
     (case match_tag s of
        Some (i, rest) \<Rightarrow> i # tag_ids rest
      | None \<Rightarrow> (case s of [] \<Rightarrow> [] | c # cs \<Rightarrow> tag_ids cs))"
  by pat_completeness auto
termination by (relation "measure length") (auto dest: match_tag_shorter)

declare tag_ids.simps [simp del]

definition MentionTagUserIDs :: "string \<Rightarrow> string list" where
  "MentionTagUserIDs content = filter (\<lambda>i. i \<noteq> []) (map TrimSpace (tag_ids content))"

definition HasMentionTagForUser :: "string \<Rightarrow> string \<Rightarrow> bool" where
  "HasMentionTagForUser content userID =
     (let userID = canonicalIMUserID userID in
      userID \<noteq> [] \<and> list_ex (\<lambda>i. canonicalIMUserID i = userID) (MentionTagUserIDs content))"

subsection \<open>Canonical identifiers are stable\<close>

lemma go_spaces_invisible: "e \<in> set go_spaces \<Longrightarrow> c \<in> set e \<Longrightarrow> \<not> visible c"
  by (auto simp: go_spaces_def visible_def)

lemma trimmed_prefix:
  assumes "visible (hd p)" and "visible (last p)" and "p \<noteq> []" and "trimmed s"
  shows "trimmed (p @ s)"
proof -
  have "\<not> strippable go_spaces (p @ s)"
  proof
    assume "strippable go_spaces (p @ s)"
    then obtain e where "e \<in> set go_spaces" "e \<noteq> []" "starts_with e (p @ s)" by (auto simp: strippable_def)
    moreover from this(2,3) assms(3) have "hd e = hd p" by (cases e; cases p) (auto simp: starts_with_def)
    ultimately show False using assms(1) go_spaces_invisible [of e "hd e"] by (metis list.set_sel(1))
  qed
  moreover have "\<not> strippable (map rev go_spaces) (rev s @ rev p)"
  proof
    assume "strippable (map rev go_spaces) (rev s @ rev p)"
    then obtain e where e: "e \<in> set go_spaces" "e \<noteq> []" "starts_with (rev e) (rev s @ rev p)" by (auto simp: strippable_def)
    show False
    proof (cases "length e \<le> length s")
      case True
      with e(3) have "starts_with (rev e) (rev s)" by (simp add: starts_with_def)
      with e(1,2) have "strippable (map rev go_spaces) (rev s)" by (auto simp: strippable_def)
      with assms(4) show False by (simp add: trimmed_def)
    next
      case False
      with e(3) have "rev e = rev s @ take (length e - length s) (rev p)" "0 < length e - length s" by (simp_all add: starts_with_def)
      moreover from this(2) assms(3) have "last p \<in> set (take (length e - length s) (rev p))"
        by (cases p rule: rev_cases; cases "length e - length s") auto
      ultimately have "last p \<in> set (rev e)" by simp
      with e(1) assms(2) go_spaces_invisible show False by auto
    qed
  qed
  ultimately show ?thesis by (simp add: trimmed_def)
qed

lemma canonical_pt_fixed:
  assumes "trimmed i" and "HasPrefix i ''pt-''"
  shows "canonicalIMParticipantID i = i"
proof -
  from assms(2) obtain x where "i = ''pt-'' @ x" by (metis HasPrefixE)
  with assms show ?thesis by (auto simp: canonicalIMParticipantID_def Let_def trimmed_TrimSpace identity_defs)
qed

lemma canonicalIMParticipantID_cases:
  "canonicalIMParticipantID i = [] \<or> trimmed (canonicalIMParticipantID i) \<and> HasPrefix (canonicalIMParticipantID i) ''pt-''"
proof -
  have "trimmed (''pt-'' @ x)" if "trimmed x" for x by (rule trimmed_prefix) (use that in \<open>auto simp: visible_def\<close>)
  moreover from this [of "''admin''"] this [of "''manager''"] have "trimmed ''pt-admin''" "trimmed ''pt-manager''"
    by (auto simp: visible_trimmed visible_def)
  ultimately show ?thesis
    by (auto simp: canonicalIMParticipantID_def Let_def trimLocalIdentityPrefixes_def identity_defs HasPrefix_def starts_with_def)
qed

text \<open>So the queues of a participant have one key, however often a caller canonicalizes it.\<close>

lemma canonicalIMParticipantID_idem [simp]:
  "canonicalIMParticipantID (canonicalIMParticipantID i) = canonicalIMParticipantID i"
  using canonicalIMParticipantID_cases [of i] canonical_pt_fixed
  by (auto simp: canonicalIMParticipantID_def [of "[]"])

end
