(* ===== verification/ImBridge.thy ===== *)
theory ImBridge
  imports ImIdentity GoText WorkBus
begin

section \<open>Message routing and participant queues (\<open>internal/im/participant_bridge.go\<close>)\<close>

text \<open>
  Which participants of a room a message wakes, the event that each of them gets, and the queues
  in which the events wait: \<open>pending\<close> (no room at any subscriber), \<open>inflight\<close> (sent, not yet
  acknowledged) and \<open>seen\<close> (acknowledged). Every operation holds the mutex of the bridge.

  A channel of a subscriber is the list of the events in its buffer, oldest first; its number
  stands for its address. The events a consumer has not taken when it cancels its subscription are
  not in the bridge any more. The field \<open>pb_log\<close> is not in the code: it is the history of
  sends, acknowledgements and requeues, newest first, in which the theorems speak about deliveries.
  Left out are the two providers that the bridge keeps for the runtimes, and of the events the
  attachments, the resource selection, the thread context, the task attempt and the raw identifiers.
\<close>

declare map_of_eq_Some_iff [simp del] Some_eq_map_of_iff [simp del]

subsection \<open>Rooms, users and messages (\<open>internal/apitypes/types.go\<close>)\<close>

record Mention =
  mn_ID :: string
  mn_Name :: string

record EventPayload =
  ep_Key :: string
  ep_ActorID :: string
  ep_Title :: string
  ep_TargetIDs :: "string list"

record MessageRelation =
  mr_RelType :: string
  mr_EventID :: string

record Message =
  ms_ID :: string
  ms_SenderID :: string
  ms_Kind :: string
  ms_Content :: string
  ms_Event :: "EventPayload option"
  ms_Metadata :: "(string, meta) gomap"
  ms_CreatedAt :: time
  ms_Mentions :: "Mention list"
  ms_RelatesTo :: "MessageRelation option"

record User =
  us_ID :: string
  us_Name :: string
  us_Description :: string
  us_Role :: string

definition RoomTypeFree :: string where "RoomTypeFree = ''free''"
definition RoomTypeOnDemand :: string where "RoomTypeOnDemand = ''on_demand''"

definition NormalizeRoomType :: "string \<Rightarrow> string" where
  "NormalizeRoomType t = (if t = [] then RoomTypeFree else t)"

record Room =
  rm_ID :: string
  rm_Type :: string
  rm_ManagerID :: string
  rm_Locale :: string
  rm_IsDirect :: bool
  rm_NotifyAllAgents :: bool
  rm_Members :: "string list"

definition IsOnDemand :: "Room \<Rightarrow> bool" where
  "IsOnDemand room \<longleftrightarrow> NormalizeRoomType (rm_Type room) = RoomTypeOnDemand"

definition MessageKindMessage :: string where "MessageKindMessage = ''message''"
definition RelationTypeThread :: string where "RelationTypeThread = ''m.thread''"

definition containsUserIDInRoom :: "Room \<Rightarrow> string \<Rightarrow> bool" where
  "containsUserIDInRoom room userID =
     list_ex (\<lambda>m. canonicalIMUserID m = canonicalIMUserID userID) (rm_Members room)"

definition threadRootID :: "Message \<Rightarrow> string" where
  "threadRootID message = (case ms_RelatesTo message of
       None \<Rightarrow> []
     | Some r \<Rightarrow> if TrimSpace (mr_RelType r) \<noteq> RelationTypeThread then [] else TrimSpace (mr_EventID r))"

subsection \<open>What the Go library knows of Unicode and JSON\<close>

text \<open>
  \<open>lib_word\<close> says of the bytes of a rune that it is a letter, a mark, a number, a dot, an underscore or
  a hyphen; \<open>lib_lower\<close> is \<open>strings.ToLower\<close>; \<open>lib_type\<close> is the field \<open>type\<close> of a text that
  \<open>encoding/json\<close> decodes as an object, \<open>None\<close> if it does not decode it.
\<close>

record im_lib =
  lib_word :: "string \<Rightarrow> bool"
  lib_lower :: "string \<Rightarrow> string"
  lib_type :: "string \<Rightarrow> string option"

subsection \<open>Activity records (\<open>agent_activity.go\<close>)\<close>

definition meta_string :: "(string, meta) gomap \<Rightarrow> string \<Rightarrow> string" where
  "meta_string m k = (case mget m k of Some (MString v) \<Rightarrow> v | _ \<Rightarrow> [])"

definition meta_map :: "(string, meta) gomap \<Rightarrow> string \<Rightarrow> (string, meta) gomap option" where
  "meta_map m k = (case mget m k of Some (MMap v) \<Rightarrow> Some v | _ \<Rightarrow> None)"

definition activity_kind :: "string \<Rightarrow> bool" where
  "activity_kind kind \<longleftrightarrow> kind \<in> set [''tool'', ''thought'', ''activity'', ''task_reported'']"

definition wrench :: string where "wrench = [CHR 0xF0, CHR 0x9F, CHR 0x94, CHR 0xA7, CHR 0x20]"

definition IsAgentActivityMessage :: "im_lib \<Rightarrow> Message \<Rightarrow> bool" where
  "IsAgentActivityMessage lib message =
     (let md = ms_Metadata message; content = TrimSpace (ms_Content message) in
      (case meta_map md ''csgclaw'' of
         Some m \<Rightarrow> mget m ''agent_session_stream_direct'' = Some (MBool True) \<or> meta_string m ''delivery_kind'' = ''turn_stopped''
       | None \<Rightarrow> False) \<or>
      list_ex (\<lambda>key. case meta_map md key of Some m \<Rightarrow> activity_kind (meta_string m ''delivery_kind'') | None \<Rightarrow> False)
        [''codex'', ''csgclaw''] \<or>
      HasPrefix content wrench \<or>
      lib_type lib content = Some ''com.opencsg.csgclaw.agent.activity'')"

subsection \<open>Routing\<close>

definition messageMentionsParticipant :: "Message \<Rightarrow> string \<Rightarrow> bool" where
  "messageMentionsParticipant message participantID =
     (let userID = userIDForParticipantID participantID in
      userID \<noteq> [] \<and>
      (list_ex (\<lambda>m. canonicalIMUserID (mn_ID m) = userID) (ms_Mentions message) \<or>
       HasMentionTagForUser (ms_Content message) userID))"

definition ordinary :: "Message \<Rightarrow> bool" where
  "ordinary message \<longleftrightarrow> ms_Kind message = MessageKindMessage \<or> ms_Kind message = []"

definition onDemandHumanMessage :: "im_lib \<Rightarrow> Room \<Rightarrow> User \<Rightarrow> Message \<Rightarrow> bool" where
  "onDemandHumanMessage lib room sender message =
     (if rm_IsDirect room \<or> \<not> IsOnDemand room \<or> ms_Event message \<noteq> None \<or>
         \<not> ordinary message \<or> IsAgentActivityMessage lib message then False
      else if canonicalIMUserID (us_ID sender) \<noteq> canonicalIMUserID (ms_SenderID message) \<or>
              \<not> containsUserIDInRoom room (us_ID sender) then False
      else lib_lower lib (TrimSpace (us_Role sender)) \<in> set [''admin'', ''human'', ''user''])"

definition event_key :: "Message \<Rightarrow> string \<Rightarrow> bool" where
  "event_key message key \<longleftrightarrow> (case ms_Event message of None \<Rightarrow> False | Some e \<Rightarrow> ep_Key e = key)"

definition shouldNotifyParticipant :: "im_lib \<Rightarrow> Room \<Rightarrow> User \<Rightarrow> Message \<Rightarrow> string \<Rightarrow> bool" where
  "shouldNotifyParticipant lib room sender message participantID =
     (let userID = userIDForParticipantID participantID;
          author = canonicalIMUserID (ms_SenderID message) in
      if IsAgentActivityMessage lib message then False
      else if author = userID \<and> \<not> (IsOnDemand room \<and> event_key message ''task_feedback'') then False
      else if \<not> containsUserIDInRoom room participantID then False
      else if IsOnDemand room \<and> \<not> rm_IsDirect room then
        (let manager = canonicalIMUserID (rm_ManagerID room) in
         if manager = [] then False
         else if onDemandHumanMessage lib room sender message then userID = manager
         else if ms_Event message \<noteq> None then
           (userID = manager \<and> event_key message ''task_feedback'' \<or> author = manager \<and> event_key message ''task_assigned'') \<and>
           messageMentionsParticipant message participantID
         else if \<not> ordinary message then False
         else if author \<noteq> manager then userID = manager \<and> ms_Mentions message \<noteq> []
         else ID (ms_Metadata message) \<noteq> [] \<and> messageMentionsParticipant message participantID)
      else rm_IsDirect room \<or> rm_NotifyAllAgents room \<or> messageMentionsParticipant message participantID)"

subsection \<open>The text of an event\<close>

definition rune_len :: "string \<Rightarrow> nat" where
  "rune_len s = (if s \<noteq> [] \<and> of_char (hd s) \<ge> (0x80 :: nat) \<and> rune_size s > 0 then rune_size s else 1)"

definition word_at :: "im_lib \<Rightarrow> string \<Rightarrow> bool" where
  "word_at lib s \<longleftrightarrow> s \<noteq> [] \<and> (of_char (hd s) < (0x80 :: nat) \<or> rune_size s > 0) \<and> lib_word lib (take (rune_len s) s)"

lemma rune_len_pos [simp]: "0 < rune_len s" "rune_len s \<noteq> 0"
  by (simp_all add: rune_len_def)

function word_len :: "im_lib \<Rightarrow> string \<Rightarrow> nat" where
  "word_len lib s = (if word_at lib s then rune_len s + word_len lib (drop (rune_len s) s) else 0)"
  by pat_completeness auto
termination by (relation "measure (\<lambda>(lib, s). length s)") (auto simp: word_at_def)

declare word_len.simps [simp del]

text \<open>
  The pattern \<open>(^|[^\pL\pM\pN._-])@([\pL\pM\pN._-]+)\<close> at the start of a text: the text before the sign,
  the name and the text after the match. The first alternative holds at the start of the content.
\<close>

definition name_at :: "im_lib \<Rightarrow> string \<Rightarrow> (string \<times> string) option" where
  "name_at lib s =
     (case s of [] \<Rightarrow> None
      | c # cs \<Rightarrow> let n = word_len lib cs in if c = CHR ''@'' \<and> n > 0 then Some (take n cs, drop n cs) else None)"

definition mention_at :: "im_lib \<Rightarrow> bool \<Rightarrow> string \<Rightarrow> (string \<times> string \<times> string) option" where
  "mention_at lib start s =
     (case if start then name_at lib s else None of
        Some (name, rest) \<Rightarrow> Some ([], name, rest)
      | None \<Rightarrow>
          if s = [] \<or> word_at lib s then None
          else map_option (\<lambda>(name, rest). (take (rune_len s) s, name, rest)) (name_at lib (drop (rune_len s) s)))"

lemma name_at_shorter: "name_at lib s = Some (name, rest) \<Longrightarrow> length rest < length s"
  by (auto simp: name_at_def Let_def split: list.splits if_splits)

lemma mention_at_shorter: "mention_at lib start s = Some (before, name, rest) \<Longrightarrow> length rest < length s"
  by (auto simp: mention_at_def dest!: name_at_shorter split: option.splits if_splits)

definition normalizeMentionName :: "im_lib \<Rightarrow> string \<Rightarrow> string" where
  "normalizeMentionName lib v = TrimPrefix (lib_lower lib (TrimSpace v)) ''@''"

definition mentionNameCandidates :: "im_lib \<Rightarrow> Mention \<Rightarrow> string list" where
  "mentionNameCandidates lib mention =
     (let name = normalizeMentionName lib (mn_Name mention); idName = trimLocalIdentityPrefixes (mn_ID mention) in
      (if name \<noteq> [] then [name] else []) @ (if idName \<noteq> [] then [lib_lower lib idName] else []))"

definition mentionDisplayName :: "Mention \<Rightarrow> string" where
  "mentionDisplayName mention =
     (if TrimSpace (mn_Name mention) \<noteq> [] then TrimSpace (mn_Name mention)
      else if TrimSpace (mn_ID mention) \<noteq> [] then TrimSpace (mn_ID mention)
      else ''user'')"

definition mention_tag :: "string \<Rightarrow> string \<Rightarrow> string" where
  "mention_tag i name = ''<at user_id='' @ [quote_char] @ TrimSpace i @ [quote_char] @ ''>'' @ name @ ''</at>''"

text \<open>Each match with a candidate becomes the tag after the rune before the sign; the rest is copied.\<close>

function retag :: "im_lib \<Rightarrow> string list \<Rightarrow> string \<Rightarrow> bool \<Rightarrow> string \<Rightarrow> string" where
  "retag lib candidates tag start s =
     (case mention_at lib start s of
        Some (before, name, rest) \<Rightarrow>
          before @ (if lib_lower lib (TrimSpace name) \<in> set candidates then tag else CHR ''@'' # name) @
          retag lib candidates tag False rest
      | None \<Rightarrow>
          if s = [] then []
          else take (rune_len s) s @ retag lib candidates tag False (drop (rune_len s) s))"
  by pat_completeness auto
termination
  by (relation "measure (\<lambda>(lib, candidates, tag, start, s). length s)") (auto dest: mention_at_shorter)

declare retag.simps [simp del]

definition replaceMentionNameWithTag :: "im_lib \<Rightarrow> string \<Rightarrow> Mention \<Rightarrow> string" where
  "replaceMentionNameWithTag lib content mention =
     (let candidates = mentionNameCandidates lib mention in
      if candidates = [] then content
      else retag lib candidates (mention_tag (mn_ID mention) (mentionDisplayName mention)) True content)"

definition mentionForUserID :: "Mention \<Rightarrow> string \<Rightarrow> Mention" where
  "mentionForUserID mention userID = mention\<lparr>mn_ID := canonicalIMUserID userID\<rparr>"

definition textForParticipantEvent :: "im_lib \<Rightarrow> Message \<Rightarrow> string \<Rightarrow> string" where
  "textForParticipantEvent lib message participantID =
     (let content = ms_Content message; userID = userIDForParticipantID participantID in
      if content = [] \<or> userID = [] \<or> HasMentionTagForUser content userID then content
      else case find (\<lambda>m. canonicalIMUserID (mn_ID m) = userID) (ms_Mentions message) of
        Some mention \<Rightarrow> replaceMentionNameWithTag lib content (mentionForUserID mention userID)
      | None \<Rightarrow> content)"

definition mentionTagForParticipant :: "Message \<Rightarrow> string \<Rightarrow> string" where
  "mentionTagForParticipant message participantID =
     (let userID = userIDForParticipantID participantID in
      case find (\<lambda>m. canonicalIMUserID (mn_ID m) = userID) (ms_Mentions message) of
        Some mention \<Rightarrow> mention_tag userID (mentionDisplayName mention)
      | None \<Rightarrow> mention_tag userID (TrimSpace userID))"

definition participantActionTextForEvent :: "Message \<Rightarrow> string \<Rightarrow> string \<Rightarrow> string" where
  "participantActionTextForEvent message participantID txt =
     (let txt = TrimSpace txt; userID = userIDForParticipantID participantID in
      if txt = [] \<or> userID = [] \<or> HasMentionTagForUser txt userID \<or> \<not> messageMentionsParticipant message participantID then txt
      else txt @ '' '' @ mentionTagForParticipant message participantID)"

subsection \<open>The event of a message\<close>

record ParticipantSender =
  se_ID :: string
  se_Username :: string
  se_DisplayName :: string
  se_Description :: string

record ParticipantMessageContext =
  cx_Channel :: string
  cx_Account :: string
  cx_ChatID :: string
  cx_ChatType :: string
  cx_TopicID :: string
  cx_SenderID :: string
  cx_MessageID :: string
  cx_Mentioned :: bool

record ParticipantEvent =
  pe_RoomManager :: bool
  pe_TaskID :: string
  pe_MessageID :: string
  pe_RoomID :: string
  pe_Locale :: string
  pe_Channel :: string
  pe_ChatID :: string
  pe_ChatType :: string
  pe_Sender :: ParticipantSender
  pe_SenderID :: string
  pe_Text :: string
  pe_Timestamp :: string
  pe_Mentions :: "string list"
  pe_Mentioned :: bool
  pe_ThreadRootID :: string
  pe_Context :: ParticipantMessageContext

definition chatTypeForRoom :: "Room \<Rightarrow> string" where
  "chatTypeForRoom room = (if rm_IsDirect room then ''direct'' else ''group'')"

definition mentionsForParticipant :: "Mention list \<Rightarrow> string \<Rightarrow> string list" where
  "mentionsForParticipant mentions participantID =
     (let userID = userIDForParticipantID participantID in
      map (\<lambda>m. userID) (filter (\<lambda>m. canonicalIMUserID (mn_ID m) = userID) mentions))"

definition roomExecutionTaskID :: "Room \<Rightarrow> Message \<Rightarrow> string" where
  "roomExecutionTaskID room message = (if IsOnDemand room then ID (ms_Metadata message) else [])"

text \<open>Instants count from the year 1, \<open>UnixMilli\<close> from 1970, which is 62135596800 seconds later.\<close>

definition UnixMilli :: "time \<Rightarrow> int" where
  "UnixMilli t = (t - 62135596800 * 10 ^ 9) div 10 ^ 6"

definition messageEventForParticipant :: "im_lib \<Rightarrow> Room \<Rightarrow> User \<Rightarrow> Message \<Rightarrow> string \<Rightarrow> ParticipantEvent" where
  "messageEventForParticipant lib room sender message participantID =
     (let root = threadRootID message;
          chatType = chatTypeForRoom room;
          addressed = IsOnDemand room \<and> canonicalIMUserID participantID = canonicalIMUserID (rm_ManagerID room);
          own = mentionsForParticipant (ms_Mentions message) participantID;
          mentions = (if addressed then map mn_ID (ms_Mentions message) else own);
          mentioned = addressed \<or> own \<noteq> [] \<or> \<not> rm_IsDirect room \<and> rm_NotifyAllAgents room in
      \<lparr>pe_RoomManager = addressed, pe_TaskID = roomExecutionTaskID room message,
       pe_MessageID = ms_ID message, pe_RoomID = rm_ID room, pe_Locale = rm_Locale room,
       pe_Channel = ''csgclaw'', pe_ChatID = rm_ID room, pe_ChatType = chatType,
       pe_Sender = \<lparr>se_ID = us_ID sender, se_Username = us_Name sender, se_DisplayName = us_Name sender,
         se_Description = us_Description sender\<rparr>,
       pe_SenderID = us_ID sender, pe_Text = textForParticipantEvent lib message participantID,
       pe_Timestamp = dec_of_int (UnixMilli (ms_CreatedAt message)), pe_Mentions = mentions,
       pe_Mentioned = mentioned, pe_ThreadRootID = root,
       pe_Context = \<lparr>cx_Channel = ''csgclaw'', cx_Account = TrimSpace participantID, cx_ChatID = rm_ID room,
         cx_ChatType = chatType, cx_TopicID = root, cx_SenderID = us_ID sender, cx_MessageID = ms_ID message,
         cx_Mentioned = mentioned\<rparr>\<rparr>)"

definition ensureParticipantMentioned :: "string \<Rightarrow> ParticipantEvent \<Rightarrow> ParticipantEvent" where
  "ensureParticipantMentioned participantID evt =
     (let userID = userIDForParticipantID participantID in
      if userID = [] then evt
      else let evt' = (if list_ex (\<lambda>m. canonicalIMUserID m = userID) (pe_Mentions evt) then evt
                       else evt\<lparr>pe_Mentions := pe_Mentions evt @ [userID]\<rparr>) in
        evt'\<lparr>pe_Context := (pe_Context evt')\<lparr>cx_Mentioned := True\<rparr>\<rparr>)"

subsection \<open>The queues\<close>

datatype delivery = Sent string string | Acked string string | Requeued string string

record ParticipantBridge =
  pb_subscribers :: "(string, (nat, ParticipantEvent list) gomap) gomap"
  pb_pending :: "(string, ParticipantEvent list) gomap"
  pb_inflight :: "(string, (string, ParticipantEvent) gomap) gomap"
  pb_seen :: "(string, (string, unit) gomap) gomap"
  pb_channels :: nat
  pb_log :: "delivery list"

definition NewParticipantBridge :: ParticipantBridge where
  "NewParticipantBridge =
     \<lparr>pb_subscribers = [], pb_pending = [], pb_inflight = [], pb_seen = [], pb_channels = 0, pb_log = []\<rparr>"

definition maxPendingParticipantEventsPerParticipant :: nat where
  "maxPendingParticipantEventsPerParticipant = 64"

definition channel_capacity :: nat where "channel_capacity = 16"

abbreviation event_id :: "ParticipantEvent \<Rightarrow> string" where
  "event_id evt \<equiv> TrimSpace (pe_MessageID evt)"

abbreviation noted :: "delivery \<Rightarrow> ParticipantBridge \<Rightarrow> ParticipantBridge" where
  "noted d b \<equiv> b\<lparr>pb_log := d # pb_log b\<rparr>"

definition hasSeenLocked :: "string \<Rightarrow> string \<Rightarrow> ParticipantBridge \<Rightarrow> bool" where
  "hasSeenLocked participantID messageID b \<longleftrightarrow>
     messageID \<noteq> [] \<and> mget (mgets (pb_seen b) participantID) messageID \<noteq> None"

definition hasSeenOrInflightLocked :: "string \<Rightarrow> string \<Rightarrow> ParticipantBridge \<Rightarrow> bool" where
  "hasSeenOrInflightLocked participantID messageID b =
     (let messageID = TrimSpace messageID in
      messageID \<noteq> [] \<and>
      (hasSeenLocked participantID messageID b \<or> mget (mgets (pb_inflight b) participantID) messageID \<noteq> None))"

definition hasPendingLocked :: "string \<Rightarrow> string \<Rightarrow> ParticipantBridge \<Rightarrow> bool" where
  "hasPendingLocked participantID messageID b =
     (let messageID = TrimSpace messageID in
      messageID \<noteq> [] \<and> list_ex (\<lambda>evt. event_id evt = messageID) (mgets (pb_pending b) participantID))"

definition removePendingLocked :: "string \<Rightarrow> string \<Rightarrow> ParticipantBridge \<Rightarrow> ParticipantBridge" where
  "removePendingLocked participantID messageID b =
     (let messageID = TrimSpace messageID in
      if messageID = [] then b
      else let pending = filter (\<lambda>evt. event_id evt \<noteq> messageID) (mgets (pb_pending b) participantID) in
        b\<lparr>pb_pending := (if pending = [] then mdel participantID (pb_pending b) else mput participantID pending (pb_pending b))\<rparr>)"

definition markSeenLocked :: "string \<Rightarrow> string \<Rightarrow> ParticipantBridge \<Rightarrow> ParticipantBridge" where
  "markSeenLocked participantID messageID b =
     (if messageID = [] then b
      else b\<lparr>pb_seen := mput participantID (mput messageID () (mgets (pb_seen b) participantID)) (pb_seen b)\<rparr>)"

definition markInflightLocked :: "string \<Rightarrow> ParticipantEvent \<Rightarrow> ParticipantBridge \<Rightarrow> ParticipantBridge" where
  "markInflightLocked participantID evt b =
     (let messageID = event_id evt in
      if messageID = [] \<or> hasSeenLocked participantID messageID b then b
      else removePendingLocked participantID messageID
        (b\<lparr>pb_inflight := mput participantID (mput messageID evt (mgets (pb_inflight b) participantID)) (pb_inflight b)\<rparr>))"

definition addPendingLocked :: "string \<Rightarrow> ParticipantEvent \<Rightarrow> ParticipantBridge \<Rightarrow> ParticipantBridge" where
  "addPendingLocked participantID evt b =
     (if hasSeenOrInflightLocked participantID (pe_MessageID evt) b \<or> hasPendingLocked participantID (pe_MessageID evt) b then b
      else
        let pending = mgets (pb_pending b) participantID @ [evt] in
        b\<lparr>pb_pending := mput participantID
            (if length pending > maxPendingParticipantEventsPerParticipant
             then drop (length pending - maxPendingParticipantEventsPerParticipant) pending else pending) (pb_pending b)\<rparr>)"

text \<open>Offer an event to every channel of the participant; the result says whether one had room.\<close>

definition send_all :: "string \<Rightarrow> ParticipantEvent \<Rightarrow> ParticipantBridge \<Rightarrow> bool \<times> ParticipantBridge" where
  "send_all participantID evt b =
     (let subs = mgets (pb_subscribers b) participantID in
      if list_ex (\<lambda>(c, ch). length ch < channel_capacity) subs then
        (True, noted (Sent participantID (event_id evt))
           (b\<lparr>pb_subscribers := mput participantID (map (\<lambda>(c, ch). (c, try_send channel_capacity evt ch)) subs) (pb_subscribers b)\<rparr>))
      else (False, b))"

definition offer :: "string \<Rightarrow> ParticipantEvent \<Rightarrow> ParticipantBridge \<Rightarrow> bool \<times> ParticipantBridge" where
  "offer participantID evt b =
     (case send_all participantID evt b of
        (True, b) \<Rightarrow> (True, markInflightLocked participantID evt b)
      | (False, b) \<Rightarrow> (False, addPendingLocked participantID evt b))"

definition enqueue :: "string \<Rightarrow> ParticipantEvent \<Rightarrow> ParticipantBridge \<Rightarrow> bool \<times> ParticipantBridge" where
  "enqueue participantID evt b =
     (let participantID = canonicalIMParticipantID participantID in
      if hasSeenOrInflightLocked participantID (pe_MessageID evt) b then (True, b)
      else if mgets (pb_subscribers b) participantID = [] then (False, addPendingLocked participantID evt b)
      else offer participantID evt b)"

text \<open>The new channel takes the waiting events, as many as its buffer holds.\<close>

fun feed :: "string \<Rightarrow> nat \<Rightarrow> ParticipantEvent list \<Rightarrow> ParticipantBridge \<Rightarrow> ParticipantBridge" where
  "feed participantID c [] b = b"
| "feed participantID c (evt # evts) b =
     (let subs = mgets (pb_subscribers b) participantID; ch = mgets subs c in
      feed participantID c evts
        (if length ch < channel_capacity then
           markInflightLocked participantID evt
             (noted (Sent participantID (event_id evt))
                (b\<lparr>pb_subscribers := mput participantID (mput c (ch @ [evt]) subs) (pb_subscribers b)\<rparr>))
         else addPendingLocked participantID evt b))"

definition BridgeSubscribe :: "string \<Rightarrow> ParticipantBridge \<Rightarrow> nat \<times> ParticipantBridge" where
  "BridgeSubscribe participantID b =
     (let participantID = canonicalIMParticipantID participantID;
          c = pb_channels b;
          pending = mgets (pb_pending b) participantID in
      (c, feed participantID c pending
        (b\<lparr>pb_channels := Suc c,
           pb_subscribers := mput participantID (mput c [] (mgets (pb_subscribers b) participantID)) (pb_subscribers b),
           pb_pending := mdel participantID (pb_pending b)\<rparr>)))"

text \<open>The function that \<open>Subscribe\<close> returns; it works once, and the channel is gone afterwards.\<close>

definition BridgeCancel :: "string \<Rightarrow> nat \<Rightarrow> ParticipantBridge \<Rightarrow> ParticipantBridge" where
  "BridgeCancel participantID c b =
     b\<lparr>pb_subscribers := drop_entry (canonicalIMParticipantID participantID) c (pb_subscribers b)\<rparr>"

definition SubscriberCount :: "string \<Rightarrow> ParticipantBridge \<Rightarrow> nat" where
  "SubscriberCount participantID b = length (mgets (pb_subscribers b) (canonicalIMParticipantID participantID))"

text \<open>A consumer takes the oldest event from its channel.\<close>

definition BridgeReceive :: "string \<Rightarrow> nat \<Rightarrow> ParticipantBridge \<Rightarrow> ParticipantEvent option \<times> ParticipantBridge" where
  "BridgeReceive participantID c b =
     (let subs = mgets (pb_subscribers b) participantID in
      case mgets subs c of
        [] \<Rightarrow> (None, b)
      | evt # ch \<Rightarrow> (Some evt, b\<lparr>pb_subscribers := mput participantID (mput c ch subs) (pb_subscribers b)\<rparr>))"

fun refill :: "string \<Rightarrow> ParticipantEvent list \<Rightarrow> ParticipantBridge \<Rightarrow> ParticipantBridge" where
  "refill participantID [] b = b"
| "refill participantID (evt # evts) b =
     refill participantID evts
       (if hasSeenOrInflightLocked participantID (pe_MessageID evt) b then b else snd (offer participantID evt b))"

definition drainPendingLocked :: "string \<Rightarrow> ParticipantBridge \<Rightarrow> ParticipantBridge" where
  "drainPendingLocked participantID b =
     (let pending = mgets (pb_pending b) participantID in
      if pending = [] then b
      else refill participantID pending (b\<lparr>pb_pending := mdel participantID (pb_pending b)\<rparr>))"

definition Ack :: "string \<Rightarrow> string \<Rightarrow> ParticipantBridge \<Rightarrow> ParticipantBridge" where
  "Ack participantID messageID b =
     (let participantID = canonicalIMParticipantID participantID; messageID = TrimSpace messageID in
      if participantID = [] \<or> messageID = [] then b
      else drainPendingLocked participantID (markSeenLocked participantID messageID (removePendingLocked participantID messageID
        (noted (Acked participantID messageID)
           (b\<lparr>pb_inflight := drop_entry participantID messageID (pb_inflight b)\<rparr>)))))"

definition Requeue :: "string \<Rightarrow> ParticipantEvent \<Rightarrow> ParticipantBridge \<Rightarrow> ParticipantBridge" where
  "Requeue participantID evt b =
     (let participantID = canonicalIMParticipantID participantID; messageID = event_id evt in
      if participantID = [] then b
      else addPendingLocked participantID evt (noted (Requeued participantID messageID)
        (if messageID \<noteq> [] then b\<lparr>pb_inflight := drop_entry participantID messageID (pb_inflight b)\<rparr> else b)))"

fun delivery_scan :: "string \<Rightarrow> string \<Rightarrow> string list \<Rightarrow> bool \<Rightarrow> ParticipantBridge \<Rightarrow> string" where
  "delivery_scan roomID messageID [] seen b = (if seen then ''unavailable'' else ''no_execution'')"
| "delivery_scan roomID messageID (i # is') seen b =
     (let i = canonicalIMParticipantID i in
      if list_ex (\<lambda>evt. pe_RoomID evt = roomID \<and> pe_MessageID evt = messageID) (mgets (pb_pending b) i) \<or>
         (case mget (mgets (pb_inflight b) i) messageID of Some evt \<Rightarrow> pe_RoomID evt = roomID | None \<Rightarrow> False)
      then ''waiting''
      else delivery_scan roomID messageID is' (seen \<or> mget (mgets (pb_seen b) i) messageID \<noteq> None) b)"

definition MessageDeliveryState :: "string \<Rightarrow> string \<Rightarrow> string list \<Rightarrow> ParticipantBridge \<Rightarrow> string" where
  "MessageDeliveryState roomID messageID participantIDs b = delivery_scan roomID messageID participantIDs False b"

subsection \<open>Publishing a message\<close>

definition EnqueueMessageEvent ::
  "im_lib \<Rightarrow> Room \<Rightarrow> User \<Rightarrow> Message \<Rightarrow> string \<Rightarrow> ParticipantBridge \<Rightarrow> bool \<times> ParticipantBridge" where
  "EnqueueMessageEvent lib room sender message participantID b =
     (let participantID = canonicalIMParticipantID participantID in
      if \<not> shouldNotifyParticipant lib room sender message participantID then (True, b)
      else enqueue participantID (messageEventForParticipant lib room sender message participantID) b)"

definition EnqueueMessageEventWithText ::
  "im_lib \<Rightarrow> Room \<Rightarrow> User \<Rightarrow> Message \<Rightarrow> string \<Rightarrow> string \<Rightarrow> ParticipantBridge \<Rightarrow> bool \<times> ParticipantBridge" where
  "EnqueueMessageEventWithText lib room sender message participantID txt b =
     (let participantID = canonicalIMParticipantID participantID in
      if \<not> shouldNotifyParticipant lib room sender message participantID then (True, b)
      else
        let evt = (messageEventForParticipant lib room sender message participantID)
              \<lparr>pe_Text := participantActionTextForEvent message participantID txt\<rparr>;
            evt = (if messageMentionsParticipant message participantID then ensureParticipantMentioned participantID evt else evt) in
        enqueue participantID evt b)"

fun publish_members ::
  "im_lib \<Rightarrow> Room \<Rightarrow> User \<Rightarrow> Message \<Rightarrow> string list \<Rightarrow> ParticipantBridge \<Rightarrow> string list \<times> ParticipantBridge" where
  "publish_members lib room sender message [] b = ([], b)"
| "publish_members lib room sender message (p # ps) b =
     (if \<not> shouldNotifyParticipant lib room sender message p then publish_members lib room sender message ps b
      else
        let (ok, b1) = EnqueueMessageEvent lib room sender message p b;
            (missed, b2) = publish_members lib room sender message ps b1 in
        (if ok then missed else p # missed, b2))"

definition PublishMessageEvent ::
  "im_lib \<Rightarrow> Room \<Rightarrow> User \<Rightarrow> Message \<Rightarrow> ParticipantBridge \<Rightarrow> string list \<times> ParticipantBridge" where
  "PublishMessageEvent lib room sender message b = publish_members lib room sender message (rm_Members room) b"

subsection \<open>Consumers (\<open>channel/csgclaw/source/source.go\<close>, \<open>api/participant_bridge.go\<close>)\<close>

text \<open>
  What the two consumers do with the events that are left in the channel of a cancelled
  subscription: the source in the process goes on until a submission is not accepted; the event
  stream puts all of them back. \<open>accepted\<close> says what \<open>submitWithRetry\<close> returns for an event, and
  the source may also end early, when its context has ended, so that it sees a prefix of the events.
\<close>

fun forward :: "(ParticipantEvent \<Rightarrow> bool) \<Rightarrow> string \<Rightarrow> ParticipantEvent list \<Rightarrow> ParticipantBridge \<Rightarrow> ParticipantBridge" where
  "forward accepted participantID [] b = b"
| "forward accepted participantID (evt # evts) b =
     (if accepted evt then forward accepted participantID evts (Ack participantID (pe_MessageID evt) b)
      else Requeue participantID evt b)"

definition requeueBufferedParticipantEvents :: "string \<Rightarrow> ParticipantEvent list \<Rightarrow> ParticipantBridge \<Rightarrow> ParticipantBridge" where
  "requeueBufferedParticipantEvents participantID evts b = fold (Requeue participantID) evts b"

end
