(* ===== verification/BridgeProps.thy ===== *)
theory BridgeProps
  imports ImBridge
begin

text \<open>
  Deliveries of the participant bridge: in every interleaving of publishers and consumers an
  acknowledged message is not sent again, a message is sent twice only after it was put back, and a
  message is lost only as the oldest of 64 waiting ones. Messages of an on-demand room reach its
  workers only through its manager.
\<close>

declare map_of_eq_Some_iff [simp del] Some_eq_map_of_iff [simp del]

subsection \<open>The queues of a participant\<close>

abbreviation pend :: "string \<Rightarrow> ParticipantBridge \<Rightarrow> ParticipantEvent list" where
  "pend p b \<equiv> mgets (pb_pending b) p"

definition ids :: "ParticipantEvent list \<Rightarrow> string list" where
  "ids evts = filter (\<lambda>m. m \<noteq> []) (map (\<lambda>evt. event_id evt) evts)"

definition infl :: "string \<Rightarrow> ParticipantBridge \<Rightarrow> string set" where
  "infl p b = fst ` set (mgets (pb_inflight b) p)"

definition acked :: "string \<Rightarrow> ParticipantBridge \<Rightarrow> string set" where
  "acked p b = fst ` set (mgets (pb_seen b) p)"

text \<open>A message is out with the consumers if it was sent and not put back since.\<close>

fun holding :: "string \<Rightarrow> string \<Rightarrow> delivery list \<Rightarrow> bool" where
  "holding p m [] = False"
| "holding p m (Sent q k # l) = (q = p \<and> k = m \<or> holding p m l)"
| "holding p m (Requeued q k # l) = (\<not> (q = p \<and> k = m) \<and> holding p m l)"
| "holding p m (Acked q k # l) = holding p m l"

fun log_ok :: "delivery list \<Rightarrow> bool" where
  "log_ok [] = True"
| "log_ok (Sent p m # l) = (log_ok l \<and> (m \<noteq> [] \<longrightarrow> Acked p m \<notin> set l \<and> \<not> holding p m l))"
| "log_ok (Requeued p m # l) = log_ok l"
| "log_ok (Acked p m # l) = log_ok l"

text \<open>\<open>rest\<close> are waiting events that a loop has taken from the queue and not yet handled.\<close>

definition queue_ok :: "string \<Rightarrow> ParticipantEvent list \<Rightarrow> ParticipantBridge \<Rightarrow> bool" where
  "queue_ok p rest b \<longleftrightarrow>
     length (pend p b @ rest) \<le> maxPendingParticipantEventsPerParticipant \<and> distinct (ids (pend p b @ rest)) \<and>
     set (ids (pend p b @ rest)) \<inter> (infl p b \<union> acked p b) = {} \<and> infl p b \<inter> acked p b = {} \<and>
     [] \<notin> infl p b \<and> [] \<notin> acked p b \<and>
     (\<forall>m. m \<noteq> [] \<longrightarrow> (m \<in> acked p b \<longleftrightarrow> Acked p m \<in> set (pb_log b))) \<and>
     (\<forall>m. m \<noteq> [] \<longrightarrow> m \<notin> acked p b \<longrightarrow> (m \<in> infl p b \<longleftrightarrow> holding p m (pb_log b)))"

definition bridge_ok :: "ParticipantBridge \<Rightarrow> bool" where
  "bridge_ok b \<longleftrightarrow> log_ok (pb_log b) \<and> (\<forall>p. queue_ok p [] b)"

definition known :: "string \<Rightarrow> ParticipantEvent list \<Rightarrow> ParticipantBridge \<Rightarrow> string set" where
  "known p rest b = set (ids (pend p b @ rest)) \<union> infl p b \<union> acked p b"

lemma queue_updates [simp]:
  "infl q (b\<lparr>pb_log := l\<rparr>) = infl q b" "infl q (b\<lparr>pb_subscribers := x\<rparr>) = infl q b"
  "infl q (b\<lparr>pb_pending := y\<rparr>) = infl q b" "infl q (b\<lparr>pb_channels := n\<rparr>) = infl q b"
  "acked q (b\<lparr>pb_log := l\<rparr>) = acked q b" "acked q (b\<lparr>pb_subscribers := x\<rparr>) = acked q b"
  "acked q (b\<lparr>pb_pending := y\<rparr>) = acked q b" "acked q (b\<lparr>pb_channels := n\<rparr>) = acked q b"
  "acked q (b\<lparr>pb_inflight := z\<rparr>) = acked q b"
  by (simp_all add: infl_def acked_def)

lemma ids_simps [simp]:
  "ids [] = []" "ids (e # es) = (if event_id e = [] then ids es else event_id e # ids es)"
  "ids (es @ es') = ids es @ ids es'"
  by (simp_all add: ids_def)

lemma ids_filter: "ids (filter (\<lambda>e. event_id e \<noteq> m) es) = filter (\<lambda>k. k \<noteq> m) (ids es)"
  by (induction es) auto

lemma Nil_not_ids [simp]: "[] \<notin> set (ids es)"
  by (simp add: ids_def)

lemma mgets_drop_entry [simp]:
  "mgets (drop_entry p m x) q = (if q = p then mdel m (mgets x p) else mgets x q)"
  by (auto simp: drop_entry_def mgets_def split: option.splits)

lemma seen_or_inflight_iff:
  "hasSeenOrInflightLocked p m b \<longleftrightarrow> TrimSpace m \<noteq> [] \<and> TrimSpace m \<in> infl p b \<union> acked p b"
  by (auto simp: hasSeenOrInflightLocked_def hasSeenLocked_def infl_def acked_def Let_def mget_None_key)

lemma has_pending_iff: "hasPendingLocked p m b \<longleftrightarrow> TrimSpace m \<in> set (ids (pend p b))"
  by (auto simp: hasPendingLocked_def ids_def Let_def list_ex_iff intro: image_eqI [OF sym])

lemma seen_iff: "hasSeenLocked p m b \<longleftrightarrow> m \<noteq> [] \<and> m \<in> acked p b"
  by (auto simp: hasSeenLocked_def acked_def mget_None_key)

subsection \<open>What the small operations do\<close>

text \<open>Nothing about other participants.\<close>

definition aside :: "string \<Rightarrow> ParticipantBridge \<Rightarrow> ParticipantBridge \<Rightarrow> bool" where
  "aside q b b' \<longleftrightarrow> pend q b' = pend q b \<and> infl q b' = infl q b \<and> acked q b' = acked q b \<and>
     (\<forall>m. Acked q m \<in> set (pb_log b') \<longleftrightarrow> Acked q m \<in> set (pb_log b)) \<and> (\<forall>m. holding q m (pb_log b') = holding q m (pb_log b))"

lemma aside_refl [simp]: "aside q b b"
  by (simp add: aside_def)

lemma aside_trans [trans]: "aside q b c \<Longrightarrow> aside q c d \<Longrightarrow> aside q b d"
  by (simp add: aside_def)

lemma aside_queue_ok: "aside q b b' \<Longrightarrow> queue_ok q rest b' = queue_ok q rest b"
  by (simp add: aside_def queue_ok_def)

lemma removePending_view:
  assumes "TrimSpace m = m"
  shows "pend q (removePendingLocked p m b) = (if q = p \<and> m \<noteq> [] then filter (\<lambda>e. event_id e \<noteq> m) (pend p b) else pend q b)"
    "infl q (removePendingLocked p m b) = infl q b" "acked q (removePendingLocked p m b) = acked q b"
    "pb_log (removePendingLocked p m b) = pb_log b" "pb_subscribers (removePendingLocked p m b) = pb_subscribers b"
    "pb_channels (removePendingLocked p m b) = pb_channels b"
  using assms by (auto simp: removePendingLocked_def Let_def infl_def acked_def)

lemma markInflight_view:
  fixes evt defines "m \<equiv> event_id evt"
  assumes "m \<notin> acked p b" and "m \<noteq> []"
  shows "pend q (markInflightLocked p evt b) = (if q = p then filter (\<lambda>e. event_id e \<noteq> m) (pend p b) else pend q b)"
    "infl q (markInflightLocked p evt b) = (if q = p then insert m (infl p b) else infl q b)"
    "acked q (markInflightLocked p evt b) = acked q b"
proof -
  have b: "markInflightLocked p evt b = removePendingLocked p m
      (b\<lparr>pb_inflight := mput p (mput m evt (mgets (pb_inflight b) p)) (pb_inflight b)\<rparr>)"
    using assms by (simp add: markInflightLocked_def Let_def seen_iff)
  have m: "TrimSpace m = m" by (simp add: m_def)
  show "pend q (markInflightLocked p evt b) = (if q = p then filter (\<lambda>e. event_id e \<noteq> m) (pend p b) else pend q b)"
    "infl q (markInflightLocked p evt b) = (if q = p then insert m (infl p b) else infl q b)"
    "acked q (markInflightLocked p evt b) = acked q b"
    using assms(3) unfolding b by (simp_all add: removePending_view [OF m]) (simp_all add: infl_def acked_def)
qed

lemma markInflight_blank: "event_id evt = [] \<Longrightarrow> markInflightLocked p evt b = b"
  by (simp add: markInflightLocked_def)

lemma markInflight_other [simp]:
  "pb_log (markInflightLocked p evt b) = pb_log b" "pb_subscribers (markInflightLocked p evt b) = pb_subscribers b"
  "pb_channels (markInflightLocked p evt b) = pb_channels b"
  by (simp_all add: markInflightLocked_def Let_def removePending_view)

definition kept_tail :: "ParticipantEvent list \<Rightarrow> ParticipantEvent list" where
  "kept_tail pending = drop (length pending - maxPendingParticipantEventsPerParticipant) pending"

lemma addPending_view:
  "pend q (addPendingLocked p evt b) =
     (if q = p \<and> event_id evt \<notin> infl p b \<union> acked p b \<union> set (ids (pend p b)) \<or> q = p \<and> event_id evt = []
      then kept_tail (pend p b @ [evt]) else pend q b)"
  "infl q (addPendingLocked p evt b) = infl q b" "acked q (addPendingLocked p evt b) = acked q b"
  "pb_log (addPendingLocked p evt b) = pb_log b" "pb_subscribers (addPendingLocked p evt b) = pb_subscribers b"
  "pb_channels (addPendingLocked p evt b) = pb_channels b"
  by (auto simp: addPendingLocked_def Let_def seen_or_inflight_iff has_pending_iff kept_tail_def infl_def acked_def)

lemma aside_markInflight [simp]: "q \<noteq> p \<Longrightarrow> aside q b (markInflightLocked p evt b)"
  by (auto simp: aside_def markInflightLocked_def Let_def removePending_view) (simp_all add: infl_def acked_def)

lemma aside_addPending [simp]: "q \<noteq> p \<Longrightarrow> aside q b (addPendingLocked p evt b)"
  by (simp add: aside_def addPending_view)

lemma aside_noted [simp]:
  "q \<noteq> p \<Longrightarrow> aside q b (noted (Sent p m) b')  = aside q b b'"
  "q \<noteq> p \<Longrightarrow> aside q b (noted (Acked p m) b') = aside q b b'"
  "q \<noteq> p \<Longrightarrow> aside q b (noted (Requeued p m) b') = aside q b b'"
  by (simp_all add: aside_def infl_def acked_def)

lemma aside_subscribers [simp]: "aside q b (b'\<lparr>pb_subscribers := x\<rparr>) = aside q b b'"
  by (simp add: aside_def infl_def acked_def)

lemma aside_sent:
  assumes "q \<noteq> p"
  shows "aside q b (markInflightLocked p evt (b\<lparr>pb_subscribers := x, pb_log := Sent p m # pb_log b\<rparr>))"
proof -
  have "aside q b (b\<lparr>pb_subscribers := x, pb_log := Sent p m # pb_log b\<rparr>)" using assms by (simp add: aside_def)
  also have "aside q \<dots> (markInflightLocked p evt \<dots>)" using assms by simp
  finally show ?thesis .
qed

subsection \<open>A send and a wait\<close>

lemma queue_sent:
  fixes evt x defines "m \<equiv> event_id evt"
  assumes ok: "queue_ok p rest b" "log_ok (pb_log b)" and new: "m = [] \<or> m \<notin> infl p b \<union> acked p b \<union> set (ids rest)"
  defines "b' \<equiv> markInflightLocked p evt (noted (Sent p m) (b\<lparr>pb_subscribers := x\<rparr>))"
  shows "queue_ok p rest b' \<and> log_ok (pb_log b') \<and> known p rest b' = (if m = [] then known p rest b else insert m (known p rest b))"
proof (cases "m = []")
  case True
  then have "b' = noted (Sent p m) (b\<lparr>pb_subscribers := x\<rparr>)" by (simp add: b'_def m_def markInflight_blank)
  moreover have "queue_ok p rest (noted (Sent p m) (b\<lparr>pb_subscribers := x\<rparr>))"
    using ok(1) True by (simp add: queue_ok_def infl_def acked_def)
  ultimately show ?thesis using ok(2) True by (simp add: known_def infl_def acked_def)
next
  case False
  let ?c = "noted (Sent p m) (b\<lparr>pb_subscribers := x\<rparr>)"
  have m: "m \<notin> acked p b" "m \<notin> infl p b" "m \<notin> set (ids rest)" using new False by auto
  have v: "pend p b' = filter (\<lambda>e. event_id e \<noteq> m) (pend p b)" "infl p b' = insert m (infl p b)" "acked p b' = acked p b"
    "pb_log b' = Sent p m # pb_log b"
    using markInflight_view [of evt p ?c p] False m(1) unfolding b'_def m_def by simp_all
  have "length (pend p b' @ rest) \<le> maxPendingParticipantEventsPerParticipant"
    using ok(1) length_filter_le [of "\<lambda>e. event_id e \<noteq> m" "pend p b"] unfolding queue_ok_def v(1) length_append by linarith
  moreover have "distinct (ids (pend p b' @ rest))" "set (ids (pend p b' @ rest)) \<inter> (infl p b' \<union> acked p b') = {}"
    "infl p b' \<inter> acked p b' = {}" "[] \<notin> infl p b'" "[] \<notin> acked p b'"
    using ok(1) m False by (auto simp: queue_ok_def v ids_filter)
  moreover have "k \<in> acked p b' \<longleftrightarrow> Acked p k \<in> set (pb_log b')" if "k \<noteq> []" for k
    using ok(1) that by (simp add: queue_ok_def v)
  moreover have "k \<in> infl p b' \<longleftrightarrow> holding p k (pb_log b')" if "k \<noteq> []" "k \<notin> acked p b'" for k
    using ok(1) that by (auto simp: queue_ok_def v)
  ultimately have "queue_ok p rest b'" by (simp add: queue_ok_def)
  moreover have "log_ok (pb_log b')" using ok m False by (simp add: v queue_ok_def)
  moreover have "known p rest b' = insert m (known p rest b)" by (auto simp: known_def v ids_filter)
  ultimately show ?thesis using False by simp
qed

lemma queue_waits:
  fixes evt defines "m \<equiv> event_id evt"
  assumes ok: "queue_ok p rest b" and new: "m = [] \<or> m \<notin> set (ids rest)"
    and space: "length (pend p b @ rest) < maxPendingParticipantEventsPerParticipant"
  defines "b' \<equiv> addPendingLocked p evt b"
  shows "queue_ok p rest b' \<and> known p rest b' = (if m = [] then known p rest b else insert m (known p rest b))"
proof (cases "m = [] \<or> m \<notin> infl p b \<union> acked p b \<union> set (ids (pend p b))")
  case True
  then have v: "pend p b' = pend p b @ [evt]" "infl p b' = infl p b" "acked p b' = acked p b" "pb_log b' = pb_log b"
    using space by (auto simp: b'_def m_def addPending_view kept_tail_def)
  show ?thesis using ok new True space by (auto simp: queue_ok_def known_def v m_def)
next
  case False
  then have "b' = b" by (auto simp: b'_def m_def addPendingLocked_def seen_or_inflight_iff has_pending_iff)
  with ok False show ?thesis by (auto simp: known_def)
qed

text \<open>The oldest waiting event makes room for a new one.\<close>

lemma queue_overflows:
  fixes evt defines "m \<equiv> event_id evt"
  assumes ok: "queue_ok p [] b" and full: "length (pend p b) = maxPendingParticipantEventsPerParticipant"
  defines "b' \<equiv> addPendingLocked p evt b"
  shows "queue_ok p [] b' \<and> known p [] b - {event_id (hd (pend p b))} \<subseteq> known p [] b' \<and> (m \<noteq> [] \<longrightarrow> m \<in> known p [] b')"
proof (cases "m = [] \<or> m \<notin> infl p b \<union> acked p b \<union> set (ids (pend p b))")
  case True
  obtain e es where es: "pend p b = e # es" using full by (cases "pend p b") (auto simp: maxPendingParticipantEventsPerParticipant_def)
  then have v: "pend p b' = es @ [evt]" "infl p b' = infl p b" "acked p b' = acked p b" "pb_log b' = pb_log b"
    using True full by (auto simp: b'_def m_def addPending_view kept_tail_def)
  show ?thesis using ok full True by (auto simp: queue_ok_def known_def v m_def es split: if_splits)
next
  case False
  then have "b' = b" by (auto simp: b'_def m_def addPendingLocked_def seen_or_inflight_iff has_pending_iff)
  with ok False show ?thesis by (auto simp: known_def)
qed

lemma queue_add:
  fixes evt
  assumes ok: "queue_ok p [] b"
  defines "b' \<equiv> addPendingLocked p evt b"
  shows "queue_ok p [] b'" "event_id evt \<noteq> [] \<Longrightarrow> event_id evt \<in> known p [] b'"
    "k \<in> known p [] b \<Longrightarrow> k \<notin> known p [] b' \<Longrightarrow>
       length (pend p b) = maxPendingParticipantEventsPerParticipant \<and> k = event_id (hd (pend p b))"
proof -
  consider "length (pend p b) = maxPendingParticipantEventsPerParticipant" | "length (pend p b) < maxPendingParticipantEventsPerParticipant"
    using ok by (auto simp: queue_ok_def le_less)
  then have "queue_ok p [] b' \<and> (event_id evt \<noteq> [] \<longrightarrow> event_id evt \<in> known p [] b') \<and> (k \<in> known p [] b \<longrightarrow> k \<notin> known p [] b' \<longrightarrow>
      length (pend p b) = maxPendingParticipantEventsPerParticipant \<and> k = event_id (hd (pend p b)))"
  proof cases
    case 1
    with queue_overflows [OF ok 1, of evt] show ?thesis unfolding b'_def by blast
  next
    case 2
    with queue_waits [OF ok, of evt] show ?thesis unfolding b'_def by auto
  qed
  then show "queue_ok p [] b'" "event_id evt \<noteq> [] \<Longrightarrow> event_id evt \<in> known p [] b'"
    "k \<in> known p [] b \<Longrightarrow> k \<notin> known p [] b' \<Longrightarrow>
       length (pend p b) = maxPendingParticipantEventsPerParticipant \<and> k = event_id (hd (pend p b))" by blast+
qed

subsection \<open>The loops over waiting events\<close>

lemma queue_take:
  assumes "queue_ok p (evt # rest) b"
  shows "queue_ok p rest b" "event_id evt = [] \<or> event_id evt \<notin> infl p b \<union> acked p b \<union> set (ids rest)"
    "length (pend p b @ rest) < maxPendingParticipantEventsPerParticipant"
    "known p (evt # rest) b = (if event_id evt = [] then known p rest b else insert (event_id evt) (known p rest b))"
  using assms by (auto simp: queue_ok_def known_def split: if_splits)

definition full :: "string \<Rightarrow> ParticipantBridge \<Rightarrow> bool" where
  "full p b \<longleftrightarrow> list_all (\<lambda>(c, ch). channel_capacity \<le> length ch) (mgets (pb_subscribers b) p)"

lemma offer_cases:
  obtains (sent) x where "\<not> full p b"
      "offer p evt b = (True, markInflightLocked p evt (noted (Sent p (event_id evt)) (b\<lparr>pb_subscribers := x\<rparr>)))"
  | (waits) "full p b" "offer p evt b = (False, addPendingLocked p evt b)"
proof (cases "full p b")
  case True
  then have "\<not> list_ex (\<lambda>(c, ch). length ch < channel_capacity) (mgets (pb_subscribers b) p)"
    by (auto simp: full_def list_ex_iff list_all_iff)
  then have "offer p evt b = (False, addPendingLocked p evt b)" by (simp add: offer_def send_all_def Let_def)
  with True show ?thesis by (rule waits)
next
  case False
  then have "list_ex (\<lambda>(c, ch). length ch < channel_capacity) (mgets (pb_subscribers b) p)"
    by (force simp: full_def list_ex_iff list_all_iff not_le)
  then have "\<exists>x. offer p evt b = (True, markInflightLocked p evt (noted (Sent p (event_id evt)) (b\<lparr>pb_subscribers := x\<rparr>)))"
    by (auto simp: offer_def send_all_def Let_def)
  with False show ?thesis using sent by blast
qed

lemma aside_offer [simp]: "q \<noteq> p \<Longrightarrow> aside q b (snd (offer p evt b))"
  by (cases rule: offer_cases [of p b evt]) (simp_all add: aside_sent)

lemma refill_ok:
  assumes "queue_ok p evts b" and "log_ok (pb_log b)"
  shows "queue_ok p [] (refill p evts b) \<and> log_ok (pb_log (refill p evts b)) \<and> known p [] (refill p evts b) = known p evts b"
  using assms
proof (induction p evts b rule: refill.induct)
  case (2 p evt evts b)
  note take = queue_take [OF "2.prems"(1)]
  have unseen: "\<not> hasSeenOrInflightLocked p (pe_MessageID evt) b" using take(2) by (auto simp: seen_or_inflight_iff)
  have "queue_ok p evts (snd (offer p evt b)) \<and> log_ok (pb_log (snd (offer p evt b))) \<and>
      known p evts (snd (offer p evt b)) = known p (evt # evts) b"
  proof (cases rule: offer_cases [of p b evt])
    case (sent x)
    with queue_sent [OF take(1) "2.prems"(2) take(2), of x] take(4) show ?thesis by simp
  next
    case waits
    with queue_waits [OF take(1) _ take(3)] take(2,4) "2.prems"(2) show ?thesis by (auto simp: addPending_view)
  qed
  with "2.IH" unseen show ?case by simp
qed simp

lemma refill_full:
  "(pend p b \<noteq> [] \<longrightarrow> full p b) \<Longrightarrow> pend p (refill p evts b) \<noteq> [] \<longrightarrow> full p (refill p evts b)"
proof (induction p evts b rule: refill.induct)
  case (2 p evt evts b)
  have "pend p (snd (offer p evt b)) \<noteq> [] \<longrightarrow> full p (snd (offer p evt b))"
  proof (cases rule: offer_cases [of p b evt])
    case (sent x)
    then have "pend p (noted (Sent p (event_id evt)) (b\<lparr>pb_subscribers := x\<rparr>)) = []" using "2.prems" by simp
    then have "pend p (snd (offer p evt b)) = []"
      unfolding sent(2) snd_conv by (simp add: markInflightLocked_def Let_def removePending_view)
    then show ?thesis by simp
  next
    case waits
    then show ?thesis by (simp add: full_def addPending_view)
  qed
  with "2.IH" "2.prems" show ?case by simp
qed simp

lemma feed_ok:
  assumes "queue_ok p evts b" and "log_ok (pb_log b)"
  shows "queue_ok p [] (feed p c evts b) \<and> log_ok (pb_log (feed p c evts b)) \<and> known p [] (feed p c evts b) = known p evts b"
  using assms
proof (induction p c evts b rule: feed.induct)
  case (2 p c evt evts b)
  note take = queue_take [OF "2.prems"(1)]
  note sent = queue_sent [OF take(1) "2.prems"(2) take(2)]
  note waits = queue_waits [OF take(1) _ take(3), of evt]
  show ?case using "2.IH" [OF refl refl] sent waits take(2,4) "2.prems"(2) by (auto simp: Let_def addPending_view)
qed simp

lemma feed_full:
  defines "chan b \<equiv> \<lambda>p c. mgets (mgets (pb_subscribers b) p) c"
  assumes "pend p b \<noteq> [] \<longrightarrow> channel_capacity \<le> length (chan b p c)"
  shows "pend p (feed p c evts b) \<noteq> [] \<longrightarrow> channel_capacity \<le> length (chan (feed p c evts b) p c)"
  using assms
proof (induction p c evts b rule: feed.induct)
  case (2 p c evt evts b)
  show ?case
  proof (cases "length (chan b p c) < channel_capacity")
    case True
    with 2 show ?thesis by (auto simp: Let_def markInflightLocked_def removePending_view)
  next
    case False
    with 2 show ?thesis by (auto simp: Let_def addPending_view)
  qed
qed simp

lemma aside_refill [simp]: "q \<noteq> p \<Longrightarrow> aside q b (refill p evts b)"
proof (induction p evts b rule: refill.induct)
  case (2 p evt evts b)
  then show ?case using aside_trans [OF aside_offer [of q p b evt]] by auto
qed simp

lemma aside_feed [simp]: "q \<noteq> p \<Longrightarrow> aside q b (feed p c evts b)"
proof (induction p c evts b rule: feed.induct)
  case (2 p c evt evts b)
  let ?subs = "mgets (pb_subscribers b) p"
  let ?b = "if length (mgets ?subs c) < channel_capacity then markInflightLocked p evt (noted (Sent p (event_id evt))
      (b\<lparr>pb_subscribers := mput p (mput c (mgets ?subs c @ [evt]) ?subs) (pb_subscribers b)\<rparr>)) else addPendingLocked p evt b"
  have "aside q b ?b" using "2.prems" by (simp add: aside_sent)
  also have "aside q ?b (feed p c evts ?b)" using "2.IH" [OF refl refl "2.prems"] .
  finally show ?case by (simp only: feed.simps Let_def)
qed simp

subsection \<open>The operations\<close>

lemma bridge_okI:
  assumes "bridge_ok b" and "\<And>q. q \<noteq> p \<Longrightarrow> aside q b b'" and "queue_ok p [] b'" and "log_ok (pb_log b')"
  shows "bridge_ok b'"
proof -
  have "queue_ok q [] b'" for q
    using assms(1,3) aside_queue_ok [OF assms(2), of q "[]"] by (cases "q = p") (auto simp: bridge_ok_def)
  with assms(4) show ?thesis by (simp add: bridge_ok_def)
qed

lemma known_aside: "aside q b b' \<Longrightarrow> known q rest b' = known q rest b"
  by (simp add: aside_def known_def)

text \<open>
  What an operation on the queues of \<open>p\<close> does: the invariant holds afterwards, the queues of other
  participants are as before, and a message leaves the queues only as the oldest of 64 waiting ones
  when \<open>grows\<close> says that the operation adds an event.
\<close>

definition lossless :: "bool \<Rightarrow> string \<Rightarrow> ParticipantBridge \<Rightarrow> ParticipantBridge \<Rightarrow> bool" where
  "lossless grows p b b' \<longleftrightarrow> bridge_ok b' \<and> (\<forall>q. q \<noteq> p \<longrightarrow> aside q b b') \<and>
     (\<forall>m \<in> known p [] b. m \<in> known p [] b' \<or>
        grows \<and> length (pend p b) = maxPendingParticipantEventsPerParticipant \<and> m = event_id (hd (pend p b)))"

lemma losslessI:
  assumes "bridge_ok b" and "\<And>q. q \<noteq> p \<Longrightarrow> aside q b b'" and "queue_ok p [] b'" and "log_ok (pb_log b')"
    and "\<And>m. m \<in> known p [] b \<Longrightarrow> m \<notin> known p [] b' \<Longrightarrow>
       grows \<and> length (pend p b) = maxPendingParticipantEventsPerParticipant \<and> m = event_id (hd (pend p b))"
  shows "lossless grows p b b'"
  using bridge_okI [OF assms(1-4)] assms(2,5) by (auto simp: lossless_def)

lemma enqueue_lossless:
  fixes participantID
  assumes "bridge_ok b"
  defines "p \<equiv> canonicalIMParticipantID participantID"
  shows "lossless True p b (snd (enqueue participantID evt b))"
    "event_id evt \<noteq> [] \<Longrightarrow> event_id evt \<in> known p [] (snd (enqueue participantID evt b))"
proof -
  have ok: "queue_ok p [] b" "log_ok (pb_log b)" using assms(1) by (simp_all add: bridge_ok_def)
  let ?b = "snd (enqueue participantID evt b)"
  have "lossless True p b ?b \<and> (event_id evt \<noteq> [] \<longrightarrow> event_id evt \<in> known p [] ?b)"
  proof (cases "hasSeenOrInflightLocked p (pe_MessageID evt) b")
    case True
    then have "?b = b" by (simp add: enqueue_def p_def)
    with True assms(1) show ?thesis by (auto simp: lossless_def known_def seen_or_inflight_iff)
  next
    case False
    then have new: "event_id evt = [] \<or> event_id evt \<notin> infl p b \<union> acked p b \<union> set (ids [])" by (auto simp: seen_or_inflight_iff)
    have add: "lossless True p b (addPendingLocked p evt b) \<and> (event_id evt \<noteq> [] \<longrightarrow> event_id evt \<in> known p [] (addPendingLocked p evt b))"
      using queue_add [OF ok(1), where evt = evt] ok(2) by (auto intro!: losslessI [OF assms(1)] simp: addPending_view)
    consider "?b = addPendingLocked p evt b" | x where "?b = markInflightLocked p evt (noted (Sent p (event_id evt)) (b\<lparr>pb_subscribers := x\<rparr>))"
    proof (cases rule: offer_cases [of p b evt])
      case (sent x)
      then have "mgets (pb_subscribers b) p \<noteq> []" by (auto simp: full_def)
      with sent False that(2) [of x] show ?thesis by (simp add: enqueue_def p_def Let_def)
    qed (use False that(1) in \<open>auto simp: enqueue_def p_def Let_def\<close>)
    then show ?thesis
    proof cases
      case 2
      with queue_sent [OF ok new, of x] show ?thesis
        by (auto intro!: losslessI [OF assms(1)] simp: aside_sent split: if_splits)
    qed (use add in simp)
  qed
  then show "lossless True p b ?b" "event_id evt \<noteq> [] \<Longrightarrow> event_id evt \<in> known p [] ?b" by blast+
qed

lemma drain_lossless:
  assumes ok: "queue_ok p [] b" "log_ok (pb_log b)"
  defines "b' \<equiv> drainPendingLocked p b"
  shows "queue_ok p [] b'" "log_ok (pb_log b')" "known p [] b' = known p [] b" "q \<noteq> p \<Longrightarrow> aside q b b'"
    "pend p b' \<noteq> [] \<Longrightarrow> full p b'"
proof -
  let ?c = "b\<lparr>pb_pending := mdel p (pb_pending b)\<rparr>"
  have "queue_ok p (pend p b) ?c" "log_ok (pb_log ?c)" "known p (pend p b) ?c = known p [] b" using ok by (simp_all add: queue_ok_def known_def)
  note r = refill_ok [OF this(1,2)] this(3) refill_full [where p = p and b = ?c and evts = "pend p b"]
  have "aside q b ?c" if "q \<noteq> p" for q using that by (simp add: aside_def)
  then have "aside q b (refill p evts ?c)" if "q \<noteq> p" for q evts using that aside_trans [OF _ aside_refill] by blast
  with r ok show "queue_ok p [] b'" "log_ok (pb_log b')" "known p [] b' = known p [] b" "q \<noteq> p \<Longrightarrow> aside q b b'"
    "pend p b' \<noteq> [] \<Longrightarrow> full p b'"
    by (auto simp: b'_def drainPendingLocked_def Let_def)
qed

lemma infl_drop_entry [simp]:
  "infl q (b\<lparr>pb_inflight := drop_entry p m (pb_inflight b)\<rparr>) = (if q = p then infl p b - {m} else infl q b)"
  by (simp add: infl_def)

lemma markSeen_view:
  "m \<noteq> [] \<Longrightarrow> acked q (markSeenLocked p m b) = (if q = p then insert m (acked p b) else acked q b)"
  "infl q (markSeenLocked p m b) = infl q b" "pend q (markSeenLocked p m b) = pend q b"
  "pb_log (markSeenLocked p m b) = pb_log b"
  by (auto simp: markSeenLocked_def acked_def infl_def)

lemma Ack_lossless:
  fixes participantID messageID
  assumes "bridge_ok b"
  defines "p \<equiv> canonicalIMParticipantID participantID" and "m \<equiv> TrimSpace messageID"
  defines "b' \<equiv> Ack participantID messageID b"
  shows "lossless False p b b'" "p \<noteq> [] \<Longrightarrow> m \<noteq> [] \<Longrightarrow> pend p b' \<noteq> [] \<Longrightarrow> full p b'"
proof -
  have "lossless False p b b' \<and> (p \<noteq> [] \<longrightarrow> m \<noteq> [] \<longrightarrow> pend p b' \<noteq> [] \<longrightarrow> full p b')"
  proof (cases "p = [] \<or> m = []")
    case True
    then have "b' = b" by (auto simp: b'_def Ack_def p_def m_def Let_def)
    with True assms(1) show ?thesis by (auto simp: lossless_def)
  next
    case False
    define c where "c = markSeenLocked p m (removePendingLocked p m
        (noted (Acked p m) (b\<lparr>pb_inflight := drop_entry p m (pb_inflight b)\<rparr>)))"
    have b': "b' = drainPendingLocked p c" using False by (simp add: b'_def Ack_def p_def m_def c_def Let_def)
    have m: "TrimSpace m = m" by (simp add: m_def)
    note view = markSeen_view removePending_view [OF m]
    have v: "pend p c = filter (\<lambda>e. event_id e \<noteq> m) (pend p b)" "infl p c = infl p b - {m}" "acked p c = insert m (acked p b)"
      "pb_log c = Acked p m # pb_log b"
      using False by (simp_all add: c_def view)
    have ok: "queue_ok p [] b" "log_ok (pb_log b)" using assms(1) by (simp_all add: bridge_ok_def)
    have "length (pend p c) \<le> maxPendingParticipantEventsPerParticipant"
      using ok(1) length_filter_le [of "\<lambda>e. event_id e \<noteq> m" "pend p b"] unfolding queue_ok_def v(1) append_Nil2 by linarith
    moreover have "distinct (ids (pend p c))" "set (ids (pend p c)) \<inter> (infl p c \<union> acked p c) = {}"
      "infl p c \<inter> acked p c = {}" "[] \<notin> infl p c" "[] \<notin> acked p c"
      using ok(1) False by (auto simp: queue_ok_def v ids_filter)
    moreover have "k \<in> acked p c \<longleftrightarrow> Acked p k \<in> set (pb_log c)" if "k \<noteq> []" for k
      using ok(1) that by (auto simp: queue_ok_def v)
    moreover have "k \<in> infl p c \<longleftrightarrow> holding p k (pb_log c)" if "k \<noteq> []" "k \<notin> acked p c" for k
      using ok(1) that by (auto simp: queue_ok_def v)
    ultimately have cok: "queue_ok p [] c" by (simp add: queue_ok_def)
    have "log_ok (pb_log c)" using ok(2) by (simp add: v)
    note d = drain_lossless [OF cok this, folded b']
    have "aside q b b'" if "q \<noteq> p" for q
      by (rule aside_trans [OF _ d(4) [OF that]]) (use that False in \<open>simp add: aside_def c_def view\<close>)
    moreover have "known p [] b \<subseteq> known p [] b'" unfolding d(3) by (auto simp: known_def v ids_filter)
    ultimately have "lossless False p b b'" by (intro losslessI [OF assms(1)] d(1,2)) auto
    with d(5) show ?thesis by blast
  qed
  then show "lossless False p b b'" "p \<noteq> [] \<Longrightarrow> m \<noteq> [] \<Longrightarrow> pend p b' \<noteq> [] \<Longrightarrow> full p b'" by blast+
qed

lemma Requeue_lossless:
  fixes participantID evt
  assumes "bridge_ok b"
  defines "p \<equiv> canonicalIMParticipantID participantID"
  shows "lossless True p b (Requeue participantID evt b)"
proof (cases "p = []")
  case True
  with assms(1) show ?thesis by (simp add: Requeue_def p_def lossless_def)
next
  case False
  define m where "m = event_id evt"
  define c where "c = noted (Requeued p m) (if m \<noteq> [] then b\<lparr>pb_inflight := drop_entry p m (pb_inflight b)\<rparr> else b)"
  have ok: "queue_ok p [] b" "log_ok (pb_log b)" using assms(1) by (simp_all add: bridge_ok_def)
  have v: "pend q c = pend q b" "infl p c = infl p b - {m}" "acked q c = acked q b" "pb_log c = Requeued p m # pb_log b"
    "q \<noteq> p \<Longrightarrow> infl q c = infl q b" for q
    using ok(1) by (auto simp: queue_ok_def c_def)
  have cok: "queue_ok p [] c" using ok(1) by (auto simp: queue_ok_def v)
  have "Requeue participantID evt b = addPendingLocked p evt c"
    using False by (simp add: Requeue_def p_def m_def c_def Let_def)
  moreover have "aside q b c" if "q \<noteq> p" for q using that by (simp add: aside_def c_def)
  then have "aside q b (addPendingLocked p evt c)" if "q \<noteq> p" for q using that aside_trans [OF _ aside_addPending] by blast
  moreover have "k \<in> known p [] c \<or> k = m \<and> m \<noteq> []" if "k \<in> known p [] b" for k
    using that ok(1) by (auto simp: known_def v queue_ok_def)
  ultimately show ?thesis
    using queue_add [OF cok, where evt = evt] ok(2) v
    by (auto intro!: losslessI [OF assms(1)] simp: addPending_view m_def)
qed

lemma Subscribe_lossless:
  fixes participantID
  assumes "bridge_ok b"
  defines "p \<equiv> canonicalIMParticipantID participantID"
  defines "b' \<equiv> snd (BridgeSubscribe participantID b)"
  shows "lossless False p b b'"
    "pend p b' \<noteq> [] \<Longrightarrow> channel_capacity \<le> length (mgets (mgets (pb_subscribers b') p) (pb_channels b))"
proof -
  let ?c = "b\<lparr>pb_channels := Suc (pb_channels b),
      pb_subscribers := mput p (mput (pb_channels b) [] (mgets (pb_subscribers b) p)) (pb_subscribers b),
      pb_pending := mdel p (pb_pending b)\<rparr>"
  have b': "b' = feed p (pb_channels b) (pend p b) ?c" by (simp add: b'_def p_def BridgeSubscribe_def Let_def)
  have "queue_ok p (pend p b) ?c" "log_ok (pb_log ?c)" "known p (pend p b) ?c = known p [] b"
    using assms(1) by (simp_all add: bridge_ok_def queue_ok_def known_def)
  note f = feed_ok [OF this(1,2), of "pb_channels b", folded b'] this(3)
  have "aside q b ?c" if "q \<noteq> p" for q using that by (simp add: aside_def)
  then have "aside q b b'" if "q \<noteq> p" for q unfolding b' using that aside_trans [OF _ aside_feed] by blast
  with f show "lossless False p b b'" by (intro losslessI [OF assms(1)]) auto
  show "pend p b' \<noteq> [] \<Longrightarrow> channel_capacity \<le> length (mgets (mgets (pb_subscribers b') p) (pb_channels b))"
    using feed_full [where p = p and b = ?c and c = "pb_channels b" and evts = "pend p b"] unfolding b' by simp
qed

subsection \<open>Runs of the bridge\<close>

text \<open>
  Publishers and consumers interleave: each operation is a critical section, and a consumer takes an
  event from its channel at any time.
\<close>

datatype bridge_op =
    BSubscribe string | BCancel string nat | BEnqueue string ParticipantEvent
  | BAck string string | BRequeue string ParticipantEvent | BReceive string nat

inductive bridge_step :: "ParticipantBridge \<Rightarrow> bridge_op \<Rightarrow> ParticipantBridge \<Rightarrow> bool" where
  step_subscribe: "bridge_step b (BSubscribe p) (snd (BridgeSubscribe p b))"
| step_cancel: "bridge_step b (BCancel p c) (BridgeCancel p c b)"
| step_enqueue: "bridge_step b (BEnqueue p evt) (snd (enqueue p evt b))"
| step_ack: "bridge_step b (BAck p m) (Ack p m b)"
| step_requeue: "bridge_step b (BRequeue p evt) (Requeue p evt b)"
| step_receive: "bridge_step b (BReceive p c) (snd (BridgeReceive p c b))"

inductive_simps bridge_step_simps:
  "bridge_step b (BSubscribe p) b'" "bridge_step b (BCancel p c) b'" "bridge_step b (BEnqueue p evt) b'"
  "bridge_step b (BAck p m) b'" "bridge_step b (BRequeue p evt) b'" "bridge_step b (BReceive p c) b'"

definition new_bridge :: "ParticipantBridge \<Rightarrow> bool" where
  "new_bridge b \<longleftrightarrow> b = NewParticipantBridge"

definition grows :: "bridge_op \<Rightarrow> string \<Rightarrow> bool" where
  "grows op p \<longleftrightarrow> (case op of
       BEnqueue q evt \<Rightarrow> canonicalIMParticipantID q = p
     | BRequeue q evt \<Rightarrow> canonicalIMParticipantID q = p
     | _ \<Rightarrow> False)"

lemma BridgeReceive_shape: "\<exists>x. snd (BridgeReceive p c b) = b\<lparr>pb_subscribers := x\<rparr>"
  by (auto simp: BridgeReceive_def Let_def split: list.split) (metis (full_types) ParticipantBridge.surjective ParticipantBridge.update_convs(1))

lemma channels_lossless:
  assumes "bridge_ok b"
  shows "lossless g p b (b\<lparr>pb_subscribers := x\<rparr>)"
  by (rule losslessI [OF assms]) (use assms in \<open>auto simp: bridge_ok_def queue_ok_def known_def\<close>)

lemma lossless_any:
  assumes "lossless g p b b'" and "m \<in> known q [] b"
  shows "m \<in> known q [] b' \<or> g \<and> q = p \<and> length (pend q b) = maxPendingParticipantEventsPerParticipant \<and> m = event_id (hd (pend q b))"
  using assms known_aside [of q b b' "[]"] by (cases "q = p") (auto simp: lossless_def)

lemma step_lossless:
  assumes "bridge_step b op b'" and "bridge_ok b"
  shows "bridge_ok b' \<and> (m \<in> known q [] b \<longrightarrow> m \<in> known q [] b' \<or>
     grows op q \<and> length (pend q b) = maxPendingParticipantEventsPerParticipant \<and> m = event_id (hd (pend q b)))"
proof -
  have "\<exists>g p. lossless g p b b' \<and> (g \<longrightarrow> grows op p)"
    using assms(1)
  proof cases
    case (step_receive p c)
    then show ?thesis using BridgeReceive_shape [of p c b] channels_lossless [OF assms(2), of False p] by metis
  next
    case (step_enqueue p evt)
    then show ?thesis using enqueue_lossless(1) [OF assms(2), of p evt] by (auto simp: grows_def)
  next
    case (step_requeue p evt)
    then show ?thesis using Requeue_lossless [OF assms(2), of p evt] by (auto simp: grows_def)
  next
    case (step_cancel p c)
    then show ?thesis using channels_lossless [OF assms(2), of False p] by (auto simp: BridgeCancel_def)
  qed (use Subscribe_lossless(1) [OF assms(2)] Ack_lossless(1) [OF assms(2)] in blast)+
  then obtain g p where l: "lossless g p b b'" "g \<longrightarrow> grows op p" by blast
  then have "bridge_ok b'" by (simp add: lossless_def)
  moreover from lossless_any [OF l(1)] l(2) have "m \<in> known q [] b \<longrightarrow> m \<in> known q [] b' \<or>
     grows op q \<and> length (pend q b) = maxPendingParticipantEventsPerParticipant \<and> m = event_id (hd (pend q b))" by blast
  ultimately show ?thesis ..
qed

interpretation bridge: invariant_system new_bridge bridge_step bridge_ok
proof unfold_locales
  show "bridge_ok b" if "new_bridge b" for b
    using that by (simp add: new_bridge_def NewParticipantBridge_def bridge_ok_def queue_ok_def infl_def acked_def)
  show "bridge_ok b'" if "bridge_ok b" "bridge_step b op b'" for b op b'
    using step_lossless [OF that(2,1)] by blast
qed

lemma known_iff:
  assumes "TrimSpace m = m" and "m \<noteq> []"
  shows "m \<in> known p [] b \<longleftrightarrow> hasPendingLocked p m b \<or> hasSeenOrInflightLocked p m b"
  using assms by (auto simp: known_def has_pending_iff seen_or_inflight_iff)

lemma log_ok_sent:
  "log_ok (ys @ Sent p m # xs) \<Longrightarrow> m \<noteq> [] \<Longrightarrow> Acked p m \<notin> set xs \<and> \<not> holding p m xs"
proof (induction ys)
  case (Cons d ys)
  then show ?case by (cases d) auto
qed simp

lemma holding_sent: "Requeued p m \<notin> set us \<Longrightarrow> holding p m (us @ Sent p m # vs)"
proof (induction us)
  case (Cons d us)
  then show ?case by (cases d) auto
qed simp

subsection \<open>What the history of a run holds\<close>

definition settles :: "bridge_op \<Rightarrow> string \<Rightarrow> string \<Rightarrow> bool" where
  "settles op p m \<longleftrightarrow> (case op of
       BAck q k \<Rightarrow> canonicalIMParticipantID q = p \<and> TrimSpace k = m
     | BRequeue q evt \<Rightarrow> canonicalIMParticipantID q = p \<and> event_id evt = m
     | _ \<Rightarrow> False)"

definition logged :: "delivery set \<Rightarrow> ParticipantBridge \<Rightarrow> ParticipantBridge \<Rightarrow> bool" where
  "logged ds b b' \<longleftrightarrow> (\<exists>news. pb_log b' = news @ pb_log b \<and> (\<forall>d \<in> set news. d \<in> ds \<or> (\<exists>p m. d = Sent p m)))"

lemma logged_refl [simp]: "logged ds b b"
  by (simp add: logged_def)

lemma logged_trans [trans]: "logged ds b c \<Longrightarrow> logged ds c d \<Longrightarrow> logged ds b d"
  unfolding logged_def by (metis Un_iff append.assoc set_append)

lemma logged_same: "pb_log b' = pb_log b \<Longrightarrow> logged ds b b'"
  by (simp add: logged_def)

lemma logged_mono: "logged ds b b' \<Longrightarrow> ds \<subseteq> es \<Longrightarrow> logged es b b'"
  unfolding logged_def by blast

lemma logged_offer: "logged ds b (snd (offer p evt b))"
  by (cases rule: offer_cases [of p b evt]) (auto simp: logged_def addPending_view)

lemma logged_refill: "logged ds b (refill p evts b)"
proof (induction p evts b rule: refill.induct)
  case (2 p evt evts b)
  then show ?case using logged_trans [OF logged_offer [of ds b p evt]] by auto
qed simp

lemma logged_feed: "logged ds b (feed p c evts b)"
proof (induction p c evts b rule: feed.induct)
  case (2 p c evt evts b)
  let ?subs = "mgets (pb_subscribers b) p"
  let ?b = "if length (mgets ?subs c) < channel_capacity then markInflightLocked p evt (noted (Sent p (event_id evt))
      (b\<lparr>pb_subscribers := mput p (mput c (mgets ?subs c @ [evt]) ?subs) (pb_subscribers b)\<rparr>)) else addPendingLocked p evt b"
  have "logged ds b ?b" by (simp add: logged_def addPending_view)
  also have "logged ds ?b (feed p c evts ?b)" using "2.IH" [OF refl refl] .
  finally show ?case by (simp only: feed.simps Let_def)
qed simp

lemma logged_drain: "logged ds b (drainPendingLocked p b)"
  using logged_refill [of ds "b\<lparr>pb_pending := mdel p (pb_pending b)\<rparr>" p "pend p b"]
  by (auto simp: drainPendingLocked_def Let_def logged_def)

lemma logged_Ack: "logged {Acked (canonicalIMParticipantID p) (TrimSpace m)} b (Ack p m b)"
proof (cases "canonicalIMParticipantID p = [] \<or> TrimSpace m = []")
  case False
  let ?p = "canonicalIMParticipantID p" and ?m = "TrimSpace m"
  let ?c = "markSeenLocked ?p ?m (removePendingLocked ?p ?m (noted (Acked ?p ?m) (b\<lparr>pb_inflight := drop_entry ?p ?m (pb_inflight b)\<rparr>)))"
  have "logged {Acked ?p ?m} b ?c" by (simp add: logged_def markSeen_view removePending_view)
  moreover have "Ack p m b = drainPendingLocked ?p ?c" using False by (simp add: Ack_def Let_def)
  ultimately show ?thesis using logged_trans [OF _ logged_drain] by metis
qed (auto simp: Ack_def Let_def)

lemma logged_step:
  assumes "bridge_step b op b'" and "\<not> settles op p m"
  shows "logged {d. d \<noteq> Acked p m \<and> d \<noteq> Requeued p m} b b'"
  using assms(1)
proof cases
  case (step_ack q k)
  with assms(2) show ?thesis by (auto simp: settles_def intro: logged_mono [OF logged_Ack])
next
  case (step_requeue q evt)
  with assms(2) show ?thesis by (auto simp: settles_def logged_def Requeue_def Let_def addPending_view)
next
  case (step_enqueue q evt)
  then show ?thesis by (auto simp: enqueue_def Let_def addPending_view intro: logged_offer logged_same)
next
  case (step_subscribe q)
  show ?thesis
    unfolding step_subscribe(2) BridgeSubscribe_def Let_def snd_conv by (rule logged_trans [OF logged_same logged_feed]) simp
next
  case (step_receive q c)
  then show ?thesis using BridgeReceive_shape [of q c b] by (auto intro: logged_same)
qed (auto simp: BridgeCancel_def intro: logged_same)

lemma logged_steps:
  "steps bridge_step b ops b' \<Longrightarrow> \<forall>op \<in> set ops. \<not> settles op p m \<Longrightarrow> logged {d. d \<noteq> Acked p m \<and> d \<noteq> Requeued p m} b b'"
  by (induction rule: steps.induct) (auto intro: logged_trans logged_step)

text \<open>A message in flight stays there until it is acknowledged or put back.\<close>

lemma inflight_stays:
  assumes "bridge_ok b" and "steps bridge_step b ops b'" and "\<forall>op \<in> set ops. \<not> settles op p m"
    and "m \<in> infl p b" and "m \<noteq> []"
  shows "m \<in> infl p b'" "\<exists>news. pb_log b' = news @ pb_log b \<and> Sent p m \<notin> set news"
proof -
  from logged_steps [OF assms(2,3)] obtain news where log: "pb_log b' = news @ pb_log b"
    and news: "\<forall>d \<in> set news. d \<noteq> Acked p m \<and> d \<noteq> Requeued p m" by (fastforce simp: logged_def)
  have ok: "queue_ok p [] b" "queue_ok p [] b'" "log_ok (pb_log b')"
    using assms(1) bridge.steps_inv [OF assms(2,1)] by (simp_all add: bridge_ok_def)
  have "m \<notin> acked p b" using ok(1) assms(4) by (auto simp: queue_ok_def)
  then have hold: "holding p m (pb_log b)" "Acked p m \<notin> set (pb_log b)"
    using ok(1) assms(4,5) by (auto simp: queue_ok_def)
  have still: "holding p m (us @ pb_log b)" if "\<forall>d \<in> set us. d \<noteq> Requeued p m" for us
    using that
  proof (induction us)
    case (Cons d us)
    then show ?case by (cases d) auto
  qed (simp add: hold)
  have "m \<notin> acked p b'" using ok(2) assms(5) hold(2) news log by (auto simp: queue_ok_def)
  moreover have "holding p m (pb_log b')" unfolding log using news by (intro still) blast
  ultimately show "m \<in> infl p b'" using ok(2) assms(5) by (auto simp: queue_ok_def)
  have False if "Sent p m \<in> set news"
  proof -
    obtain ys us where n: "news = ys @ Sent p m # us" using split_list [OF \<open>Sent p m \<in> set news\<close>] by blast
    with ok(3) log assms(5) log_ok_sent [of ys p m "us @ pb_log b"] have "\<not> holding p m (us @ pb_log b)" by simp
    moreover have "holding p m (us @ pb_log b)" using news n by (intro still) auto
    ultimately show False by blast
  qed
  with log show "\<exists>news. pb_log b' = news @ pb_log b \<and> Sent p m \<notin> set news" by blast
qed

lemma forward_steps:
  assumes "\<forall>e \<in> set pre. accepted e" and "\<not> accepted evt"
  shows "steps bridge_step b (map (\<lambda>e. BAck q (pe_MessageID e)) pre @ [BRequeue q evt]) (forward accepted q (pre @ evt # rest) b)"
  using assms(1)
proof (induction pre arbitrary: b)
  case Nil
  with assms(2) show ?case by (simp add: steps_Cons_iff bridge_step_simps)
next
  case (Cons e pre)
  then show ?case by (simp add: steps_Cons_iff bridge_step_simps)
qed

subsection \<open>A run\<close>

definition bridge_do :: "bridge_op \<Rightarrow> ParticipantBridge \<Rightarrow> ParticipantBridge" where
  "bridge_do op b = (case op of
       BSubscribe p \<Rightarrow> snd (BridgeSubscribe p b) | BCancel p c \<Rightarrow> BridgeCancel p c b
     | BEnqueue p evt \<Rightarrow> snd (enqueue p evt b) | BAck p m \<Rightarrow> Ack p m b
     | BRequeue p evt \<Rightarrow> Requeue p evt b | BReceive p c \<Rightarrow> snd (BridgeReceive p c b))"

lemma step_do: "bridge_step b op (bridge_do op b)"
  by (cases op) (simp_all add: bridge_do_def bridge_step_simps)

lemma run_reachable: "reachable new_bridge bridge_step (fold bridge_do ops NewParticipantBridge)"
proof (induction ops rule: rev_induct)
  case Nil
  show ?case by (simp add: reachable_init new_bridge_def)
next
  case (snoc op ops)
  from reachable_step [OF snoc step_do, of op] show ?case by simp
qed

definition demo_message :: "string \<Rightarrow> ParticipantEvent" where
  "demo_message m =
     \<lparr>pe_RoomManager = False, pe_TaskID = [], pe_MessageID = m, pe_RoomID = ''room'', pe_Locale = [], pe_Channel = ''csgclaw'',
      pe_ChatID = ''room'', pe_ChatType = ''direct'', pe_Sender = \<lparr>se_ID = ''user-b'', se_Username = [], se_DisplayName = [], se_Description = []\<rparr>,
      pe_SenderID = ''user-b'', pe_Text = ''hi'', pe_Timestamp = ''0'', pe_Mentions = [], pe_Mentioned = False, pe_ThreadRootID = [],
      pe_Context = \<lparr>cx_Channel = [], cx_Account = [], cx_ChatID = [], cx_ChatType = [], cx_TopicID = [], cx_SenderID = [],
        cx_MessageID = [], cx_Mentioned = False\<rparr>\<rparr>"

definition demo_bridge :: ParticipantBridge where
  "demo_bridge = fold bridge_do
     [BSubscribe ''u-a'', BEnqueue ''pt-a'' (demo_message ''m1''), BEnqueue ''pt-a'' (demo_message ''m2''),
      BRequeue ''pt-a'' (demo_message ''m1''), BSubscribe ''pt-a''] NewParticipantBridge"

lemma demo_reachable: "reachable new_bridge bridge_step demo_bridge"
  unfolding demo_bridge_def by (rule run_reachable)

lemma bridge_demo_log:
  "pb_log demo_bridge = [Sent ''pt-a'' ''m1'', Requeued ''pt-a'' ''m1'', Sent ''pt-a'' ''m2'', Sent ''pt-a'' ''m1'']"
  by code_simp

subsection \<open>Claims\<close>

text \<open>
  C20. In every interleaving of publishers and consumers, once a message was acknowledged for a
  participant it is never sent to that participant again; between two sends of a message to the
  same participant it was put back; and at most 64 events wait for a participant.
\<close>

theorem bridge_delivery:
  assumes "reachable new_bridge bridge_step b"
    and "pb_log b = later @ Sent p m # earlier" and "m \<noteq> []"
  shows "Acked p m \<notin> set earlier \<and>
    (\<forall>between before. earlier = between @ Sent p m # before \<longrightarrow> Requeued p m \<in> set between) \<and>
    length (mgets (pb_pending b) p) \<le> 64"
proof -
  have ok: "log_ok (pb_log b)" "queue_ok p [] b" using bridge.reachable_inv [OF assms(1)] by (simp_all add: bridge_ok_def)
  have "Acked p m \<notin> set earlier \<and> \<not> holding p m earlier" using ok(1) assms(2,3) by (auto dest: log_ok_sent)
  moreover have "length (mgets (pb_pending b) p) \<le> 64"
    using ok(2) by (simp add: queue_ok_def maxPendingParticipantEventsPerParticipant_def)
  ultimately show ?thesis using holding_sent by blast
qed

theorem bridge_delivery_witness:
  "Acked ''pt-a'' ''m1'' \<notin> set [Requeued ''pt-a'' ''m1'', Sent ''pt-a'' ''m2'', Sent ''pt-a'' ''m1''] \<and>
   Requeued ''pt-a'' ''m1'' \<in> set [Requeued ''pt-a'' ''m1'', Sent ''pt-a'' ''m2''] \<and>
   length (mgets (pb_pending demo_bridge) ''pt-a'') \<le> 64"
  using bridge_delivery [OF demo_reachable, of "[]" "''pt-a''" "''m1''"
      "[Requeued ''pt-a'' ''m1'', Sent ''pt-a'' ''m2'', Sent ''pt-a'' ''m1'']"]
  by (simp add: bridge_demo_log)

text \<open>
  C21. A message that is enqueued for a participant stays pending, in flight or seen whatever
  happens to the bridge, except that an event that arrives while 64 are waiting drops the oldest of them.
\<close>

theorem bridge_no_loss:
  assumes "reachable new_bridge bridge_step b" and "bridge_step b op b'" and "TrimSpace m = m" and "m \<noteq> []"
    and "hasPendingLocked p m b \<or> hasSeenOrInflightLocked p m b \<or>
      (\<exists>q evt. op = BEnqueue q evt \<and> canonicalIMParticipantID q = p \<and> TrimSpace (pe_MessageID evt) = m)"
  shows "hasPendingLocked p m b' \<or> hasSeenOrInflightLocked p m b' \<or>
    grows op p \<and> length (mgets (pb_pending b) p) = 64 \<and> m = TrimSpace (pe_MessageID (hd (mgets (pb_pending b) p)))"
proof -
  have ok: "bridge_ok b" by (rule bridge.reachable_inv [OF assms(1)])
  have "m \<in> known p [] b'" if "op = BEnqueue q evt" "canonicalIMParticipantID q = p" "TrimSpace (pe_MessageID evt) = m" for q evt
    using that assms(2,4) enqueue_lossless(2) [OF ok, of evt q] by (simp add: bridge_step_simps)
  moreover have "m \<in> known p [] b \<or> (\<exists>q evt. op = BEnqueue q evt \<and> canonicalIMParticipantID q = p \<and> TrimSpace (pe_MessageID evt) = m)"
    using assms(5) known_iff [OF assms(3,4)] by blast
  ultimately have "m \<in> known p [] b' \<or>
      grows op p \<and> length (pend p b) = maxPendingParticipantEventsPerParticipant \<and> m = event_id (hd (pend p b))"
    using step_lossless [OF assms(2) ok, of m p] by blast
  then show ?thesis unfolding known_iff [OF assms(3,4)] maxPendingParticipantEventsPerParticipant_def by blast
qed

theorem bridge_no_loss_witness:
  "hasSeenOrInflightLocked ''pt-a'' ''m2'' (bridge_do (BAck ''pt-a'' ''m1'') demo_bridge)"
proof -
  have trim: "TrimSpace ''m2'' = ''m2''" by code_simp
  have old: "hasSeenOrInflightLocked ''pt-a'' ''m2'' demo_bridge" by code_simp
  have gone: "\<not> hasPendingLocked ''pt-a'' ''m2'' (bridge_do (BAck ''pt-a'' ''m1'') demo_bridge)" by code_simp
  from trim old gone bridge_no_loss [OF demo_reachable step_do, of "''m2''" "''pt-a''" "BAck ''pt-a'' ''m1''"] show ?thesis
    by (simp add: grows_def)
qed

text \<open>
  An acknowledgement refills the channels: if events still wait afterwards, every channel of the
  participant is full; and if events still wait after a subscription, the new channel is full.
\<close>

lemma bridge_refills:
  assumes "reachable new_bridge bridge_step b" and "canonicalIMParticipantID q = p" and "p \<noteq> []"
  shows "(TrimSpace m \<noteq> [] \<longrightarrow> mgets (pb_pending (Ack q m b)) p \<noteq> [] \<longrightarrow>
      list_all (\<lambda>(c, ch). 16 \<le> length ch) (mgets (pb_subscribers (Ack q m b)) p)) \<and>
    (case BridgeSubscribe q b of (c, b') \<Rightarrow> mgets (pb_pending b') p \<noteq> [] \<longrightarrow> 16 \<le> length (mgets (mgets (pb_subscribers b') p) c))"
proof -
  have ok: "bridge_ok b" by (rule bridge.reachable_inv [OF assms(1)])
  have "fst (BridgeSubscribe q b) = pb_channels b" by (simp add: BridgeSubscribe_def Let_def)
  then show ?thesis
    using Ack_lossless(2) [OF ok, of q m] Subscribe_lossless(2) [OF ok, of q] assms(2,3)
    by (auto simp: full_def channel_capacity_def split: prod.split)
qed

text \<open>
  C22. When the in-process source stops with events left in its channel, it puts back only the first
  that it cannot submit. A later one stays in flight for as long as nobody acknowledges it or puts it
  back: it is never sent again, and publishing it again reports success and does nothing.
\<close>

theorem forward_strands:
  assumes "reachable new_bridge bridge_step b"
    and "\<forall>e \<in> set pre. accepted e" and "\<not> accepted evt" and "late \<in> set rest"
    and "m = TrimSpace (pe_MessageID late)" and "m \<noteq> []" and "p = canonicalIMParticipantID q"
    and "mget (mgets (pb_inflight b) p) m \<noteq> None"
    and "\<forall>e \<in> set (pre @ [evt]). TrimSpace (pe_MessageID e) \<noteq> m"
    and "steps bridge_step (forward accepted q (pre @ evt # rest) b) ops b'" and "\<forall>op \<in> set ops. \<not> settles op p m"
  shows "(\<exists>news. pb_log b' = news @ pb_log b \<and> Sent p m \<notin> set news) \<and>
    \<not> hasPendingLocked p m b' \<and> enqueue q late b' = (True, b')"
proof -
  have ok: "bridge_ok b" by (rule bridge.reachable_inv [OF assms(1)])
  note fw = forward_steps [OF assms(2,3), of b q rest]
  have m: "m \<in> infl p b" using assms(8) by (auto simp: infl_def mget_None_key)
  have quiet: "\<forall>op \<in> set (map (\<lambda>e. BAck q (pe_MessageID e)) pre @ [BRequeue q evt]). \<not> settles op p m"
    using assms(9) by (auto simp: settles_def)
  note one = inflight_stays [OF ok fw quiet m assms(6)]
  note two = inflight_stays [OF bridge.steps_inv [OF fw ok] assms(10,11) one(1) assms(6)]
  have trim: "TrimSpace m = m" by (simp add: assms(5))
  have "queue_ok p [] b'" using bridge.steps_inv [OF assms(10) bridge.steps_inv [OF fw ok]] by (simp add: bridge_ok_def)
  with two(1) have "\<not> hasPendingLocked p m b'" by (auto simp: queue_ok_def has_pending_iff trim)
  moreover have "enqueue q late b' = (True, b')"
    using two(1) assms(5-7) by (simp add: enqueue_def seen_or_inflight_iff)
  moreover obtain n1 n2 where "pb_log b' = n2 @ n1 @ pb_log b" "Sent p m \<notin> set (n2 @ n1)" using one(2) two(2) by auto
  ultimately show ?thesis by (metis append.assoc)
qed

theorem forward_strands_witness:
  "\<exists>news. pb_log (forward (\<lambda>e. False) ''pt-a'' [demo_message ''m1'', demo_message ''m2''] demo_bridge) = news @ pb_log demo_bridge \<and>
     Sent ''pt-a'' ''m2'' \<notin> set news"
proof -
  have "canonicalIMParticipantID ''pt-a'' = ''pt-a''" "TrimSpace (pe_MessageID (demo_message ''m2'')) = ''m2''"
    "TrimSpace (pe_MessageID (demo_message ''m1'')) = ''m1''" "mget (mgets (pb_inflight demo_bridge) ''pt-a'') ''m2'' \<noteq> None" by code_simp+
  with forward_strands [OF demo_reachable, of "[]" "\<lambda>e. False" "demo_message ''m1''" "demo_message ''m2''" "[demo_message ''m2'']"
      "''m2''" "''pt-a''" "''pt-a''" "[]"]
  show ?thesis by simp
qed

lemma on_demand_logic:
  assumes "if act then False
     else if a = u \<and> \<not> own then False
     else if \<not> member then False
     else if demand then
       (if mgr = [] then False
        else if human then u = mgr
        else if event then (u = mgr \<and> feedback \<or> a = mgr \<and> assigned) \<and> mention
        else if \<not> plain then False
        else if a \<noteq> mgr then u = mgr \<and> any
        else task \<and> mention)
     else other"
    and "demand" and "u \<noteq> mgr"
  shows "a = mgr \<and> mention \<and> member \<and> \<not> act \<and> (assigned \<or> \<not> event \<and> task)"
  using assms by (auto split: if_splits)

text \<open>
  C23. In an on-demand group room the bridge hands a message to a member that is not the manager only
  if the manager wrote it, it mentions that member, and it is a task assignment or belongs to a task.
\<close>

theorem on_demand_gate:
  assumes "IsOnDemand room" and "\<not> rm_IsDirect room"
    and "userIDForParticipantID (canonicalIMParticipantID q) \<noteq> canonicalIMUserID (rm_ManagerID room)"
    and "snd (EnqueueMessageEvent lib room sender message q b) \<noteq> b \<or> snd (EnqueueMessageEventWithText lib room sender message q txt b) \<noteq> b"
  shows "canonicalIMUserID (ms_SenderID message) = canonicalIMUserID (rm_ManagerID room) \<and>
    messageMentionsParticipant message (canonicalIMParticipantID q) \<and>
    containsUserIDInRoom room (canonicalIMParticipantID q) \<and>
    \<not> IsAgentActivityMessage lib message \<and>
    (event_key message ''task_assigned'' \<or> ms_Event message = None \<and> ID (ms_Metadata message) \<noteq> [])"
proof -
  let ?p = "canonicalIMParticipantID q"
  have "shouldNotifyParticipant lib room sender message ?p"
    using assms(4) by (auto simp: EnqueueMessageEvent_def EnqueueMessageEventWithText_def Let_def split: if_splits)
  from on_demand_logic [OF this [unfolded shouldNotifyParticipant_def Let_def] _ assms(3)] assms(1,2)
  show ?thesis by blast
qed

definition demo_on_demand_room :: Room where
  "demo_on_demand_room = \<lparr>rm_ID = ''room'', rm_Type = ''on_demand'', rm_ManagerID = ''user-manager'', rm_Locale = [], rm_IsDirect = False,
     rm_NotifyAllAgents = False, rm_Members = [''user-manager'', ''user-a'']\<rparr>"

definition demo_lib :: im_lib where
  "demo_lib = \<lparr>lib_word = (\<lambda>r. False), lib_lower = id, lib_type = (\<lambda>s. None)\<rparr>"

definition demo_manager :: User where
  "demo_manager = \<lparr>us_ID = ''user-manager'', us_Name = ''manager'', us_Description = [], us_Role = ''agent''\<rparr>"

definition demo_assignment :: Message where
  "demo_assignment = \<lparr>ms_ID = ''m1'', ms_SenderID = ''manager'', ms_Kind = [], ms_Content = ''work'',
     ms_Event = Some \<lparr>ep_Key = ''task_assigned'', ep_ActorID = [], ep_Title = [], ep_TargetIDs = []\<rparr>, ms_Metadata = [],
     ms_CreatedAt = 62135596800000000000, ms_Mentions = [\<lparr>mn_ID = ''u-a'', mn_Name = ''a''\<rparr>], ms_RelatesTo = None\<rparr>"

theorem on_demand_gate_witness:
  "messageMentionsParticipant demo_assignment (canonicalIMParticipantID ''user-a'') \<and> event_key demo_assignment ''task_assigned''"
proof -
  have room: "IsOnDemand demo_on_demand_room" "\<not> rm_IsDirect demo_on_demand_room"
    "userIDForParticipantID (canonicalIMParticipantID ''user-a'') \<noteq> canonicalIMUserID (rm_ManagerID demo_on_demand_room)" by code_simp+
  have "length (pb_pending (snd (EnqueueMessageEvent demo_lib demo_on_demand_room demo_manager demo_assignment ''user-a'' NewParticipantBridge))) = 1"
    by code_simp
  then have sent: "snd (EnqueueMessageEvent demo_lib demo_on_demand_room demo_manager demo_assignment ''user-a'' NewParticipantBridge) \<noteq> NewParticipantBridge"
    by (auto simp: NewParticipantBridge_def)
  from on_demand_gate [OF room disjI1 [OF sent]] show ?thesis by (simp add: demo_assignment_def)
qed

end
