(* ===== verification/Spec2Isabelle.thy ===== *)
theory Spec2Isabelle
  imports RoomLive LeaseStatus LifecycleProps AgentRuns InteractionSecrets EngineClaims FileProps MigrationProps ContextProps BridgeProps
begin

text \<open>
  \<^bold>\<open>The coordination core of CSGClaw\<close>

  CSGClaw runs teams of agents. A manager agent and worker agents meet in rooms; tasks are planned,
  dispatched, reviewed and reported there; messages are routed to the participants and wait in their
  queues; a scheduler creates tasks at given times; runtimes hold
  leases while they work on a turn and may be asked to stop; the engine admits turns to conversations,
  runs them and keeps their files; a turn may ask the user a question; an agent can be changed or
  archived only while none of its turns runs. This development models the Go
  packages that decide all this, from the files they write up to the interleaving of their callers,
  and proves what the rest of the program relies on.

  \<^bold>\<open>Parts, theories and sources\<close> (sources under \<open>src/internal\<close>)

  \<^item> \<open>Prelude\<close>: Go values and the library functions that the sources call; results and errors; the
    locales \<open>invariant_system\<close> and \<open>monotone_system\<close> of state machines with an invariant.
  \<^item> \<open>TaskModel\<close>, \<open>TaskDisk\<close>, \<open>TaskStore\<close>, \<open>TaskIDs\<close>, \<open>TaskService\<close>, \<open>TaskProps\<close>: \<open>taskcore\<close>. The structs of
    \<open>model.go\<close> are records. A disk has a directory for each root task with its record and its event
    journal, the index and the file of the identifier counter (\<open>store.go\<close>); every access takes the next
    entry of a list of faults, so a theorem over all disks is one over all patterns of failures and
    torn writes. The allocator (\<open>id_allocator.go\<close>) is an \<open>int64\<close> counter, opened through the entry that the
    registry of a process has for the store. The service (\<open>service.go\<close>,
    \<open>transaction.go\<close>) is the record of its maps; each method is a function of it and the disk.
  \<^item> \<open>TaskMigration\<close>, \<open>MigrationProps\<close>: the start-up migration of task files (\<open>taskcore/migration.go\<close>). Legacy files
    are only read, so they are an argument beside the disk.
  \<^item> \<open>RoomTask\<close>, \<open>RoomPlan\<close>, \<open>RoomEdits\<close>, \<open>RoomRun\<close>, \<open>RoomInv\<close>, \<open>RoomProps\<close>, \<open>RoomClaims\<close>, \<open>RoomRetry\<close>,
    \<open>RoomLive\<close>: \<open>roomtask\<close> (\<open>service.go\<close>, \<open>extend.go\<close>, \<open>projection.go\<close>, \<open>recovery.go\<close>). An operation runs a
    callback (the definitions with suffix \<open>_fn\<close>) in one transaction of the task service and then
    replays the notifications that are not delivered yet.
  \<^item> \<open>GoText\<close>, \<open>RoomContext\<close>, \<open>ContextProps\<close>: the private context block of a room turn
    (\<open>roomtask/context_projection.go\<close>, the directives of \<open>turn_instructions.go\<close>), with SHA-256, hexadecimal and the JSON
    encoding of strings.
  \<^item> \<open>ImIdentity\<close>, \<open>ImBridge\<close>, \<open>BridgeProps\<close>: the participant bridge of \<open>im\<close> (\<open>participant_bridge.go\<close>, \<open>user_resolve.go\<close>,
    \<open>agent_activity.go\<close>): which participants a message wakes, the event each of them gets, and the queues of
    pending, sent and acknowledged events. A channel is the list of the events in its buffer; a history
    of the sends is kept beside the state. Of the consumers (\<open>channel/csgclaw/source\<close>, \<open>api/participant_bridge.go\<close>)
    it has what they do with the events of a stopped subscription.
  \<^item> \<open>WorkTypes\<close>, \<open>WorkBus\<close>, \<open>WorkLease\<close>, \<open>LeaseInv\<close>, \<open>LeaseProps\<close>, \<open>LeaseStatus\<close>: \<open>worklease\<close>, with the
    structs of \<open>apitypes/participant_work.go\<close>, \<open>modelcap\<close>, \<open>runtime/turn_control.go\<close> and \<open>taskmeta\<close>. The
    part of a method under the lock is a definition of its own (suffix \<open>_locked\<close> or \<open>_section\<close>); the method
    composes it with the validation before it and the publication after it.
  \<^item> \<open>Calendar\<close>, \<open>ScheduledTask\<close>, \<open>SchedProps\<close>: \<open>scheduledtask\<close>. \<open>trigger\<close> has three sections:
    \<open>trigger_begin\<close> reserves a run, the agent task is created without the lock, \<open>trigger_end\<close> records the
    outcome.
  \<^item> \<open>AgentTask\<close>, \<open>AgentProps\<close>, \<open>AgentRuns\<close>: \<open>agenttask\<close>, tasks for one agent on top of the task service.
    \<open>AgentRuns\<close> composes it with the scheduler: the locale \<open>agent_task_runner\<close> is what the scheduler
    expects of the interface \<open>agentTaskRunner\<close>, and the agent task service is an instance of it.
  \<^item> \<open>Lifecycle\<close>, \<open>LifecycleProps\<close>: \<open>agentengine/lifecycle\<close>, the gate of an agent between executions and
    mutations. A channel is a number with the set of the closed ones.
  \<^item> \<open>UserInput\<close>, \<open>Interaction\<close>, \<open>InteractionProps\<close>, \<open>InteractionSecrets\<close>: the questions and permissions of
    \<open>activity\<close> and their coordinator, \<open>agentengine/interactionstate\<close>. Its records are shared by pointer,
    so they are in a heap; \<open>Resolve\<close> is split at its critical sections (\<open>reserve\<close>, \<open>check_interrupted\<close>,
    \<open>dispatch\<close>, \<open>complete_resolve\<close>).
  \<^item> \<open>Contract\<close>: the types of \<open>agentengine/contract\<close> (\<open>conversation.go\<close>, \<open>input.go\<close>).
  \<^item> \<open>TurnFiles\<close>, \<open>FileProps\<close>: the files of conversations and the leases of their snapshots
    (\<open>contract/file_store.go\<close>, \<open>contract/output_file.go\<close>).
  \<^item> \<open>Engine\<close>, \<open>EngineRun\<close>, \<open>EngineInv\<close>, \<open>EngineProps\<close>, \<open>EngineClaims\<close>: \<open>agentengine/engine.go\<close>. \<open>Engine\<close> has the critical
    sections on the maps of active turns, control operations and completed turns; \<open>EngineRun\<close> composes them
    to \<open>Run\<close>, \<open>Cancel\<close> and \<open>Reset\<close>, each call a value of the datatype \<open>phase\<close> that \<open>phase_step\<close> moves on.

  \<^bold>\<open>How the model reads\<close>

  A Go string is a list of bytes, an instant a number of nanoseconds with \<open>0\<close> for the zero time, a
  pointer to a time an option, a Go map an association list with distinct keys (the order of \<open>range\<close>
  over it is the order of the list; theorems hold for every list). \<open>(T, error)\<close> is a sum with the
  errors on the left, and an operation on a state is a function to its result and the new state,
  also when it fails: what a failed operation leaves behind is part of the model. A 64-bit integer is
  an integer with the wrap-around written out where it can occur. A panic does not occur in the code
  that is modelled.

  Code outside a component enters as an argument that the theorems quantify over: the roster of a
  room and the delivery callback of the room tasks, the participants and the conversation service of
  the leases and of the agent tasks, the runner of the scheduler, the turn controllers of the
  runtimes, the results and events of a runtime, the content of files, the callbacks of an interaction,
  the classes and the lower case of Unicode,
  the readings of the clock, and the failures of the file system.

  Methods that hold a mutex from start to end are single steps. Where a method releases its lock and
  takes it again, or calls back without it, its parts are steps of their own in the lease registry, the
  scheduler, the lifecycle and interaction coordinators, the engine and the bridge; the exceptions are listed
  under "Where the model is coarser". The inductive relations
  \<open>alloc_step\<close>, \<open>svc_step\<close>, \<open>room_step\<close>, \<open>lease_step\<close>, \<open>sched_step\<close>, \<open>agent_step\<close>, \<open>lc_step\<close>, \<open>ia_step\<close>, \<open>engine_step\<close>, \<open>file_step\<close> and
  \<open>bridge_step\<close> let the steps of all callers follow each other in any order. Each has an invariant, and an interpretation of
  \<open>invariant_system\<close> proves it of every reachable state.

  \<^bold>\<open>Where the model is coarser than the code\<close>

  \<^item> A step of \<open>room_step\<close> is an operation of the room service together with the replay of notifications that
    follows it, and a step of \<open>agent_step\<close> that creates an agent task is the whole call, although the source
    takes the lock of the task service several times in them and calls the messaging service in between.
  \<^item> \<open>complete_resolve\<close> expires old records in the same step, and \<open>Publish\<close> of the update bus sends to its
    subscribers in the step that reads them; the source unlocks before.
  \<^item> Encoding a value as JSON and decoding it gives the value back: the replacement of invalid UTF-8 and the
    location of a time are dropped.
  \<^item> The directory of a task is keyed by its identifier; \<open>filepath.Join\<close> would normalise an identifier with a
    slash or with \<open>..\<close>. The registry of allocators has one store, and the absolute path that is its key is
    left out.
  \<^item> \<open>AddDate\<close> works in a zone of fixed offset.
  \<^item> \<open>removeOutputFileSnapshot\<close> records the path as deleted; the source ignores a failure of \<open>os.Remove\<close>.

  \<^bold>\<open>What is proved\<close>

  \<^item> Tasks: a save is atomic under all failures; a record that is accepted is a tree; no identifier is
    handed out twice over the life of a store, whatever processes open it; the tasks of a service have
    distinct identifiers until a root is created with the identifier of a child; memory and disk
    agree after creations and transactions; a restart recovers all tasks of a run whose operations
    succeeded or rolled back; statuses follow the lifecycle; approvals and claims are exclusive; and two
    flaws, the event that is lost when a save fails outside a creation or transaction, and a transaction
    that cannot add the first event. An interrupted migration can be repeated, and migrated tasks load as
    they were, with their events up to the largest sequence number.
  \<^item> Rooms: the plan check decides acyclicity; a worker never has two tasks; a closed parent has no
    open child; a room under deletion is quiet; what a dispatch requires; stale attempts and repeated
    requests change nothing; the log only grows; the replay of notifications ends. A conversation has
    always been told the current facts by the texts it got, and no guide can end the private block.
  \<^item> Leases: the counters are exact, a closed lease stays closed, revisions are consecutive, the status
    check and its declarative form agree, a lease lives as long as it must, a stop request is
    recorded, and the bus is a lossy FIFO.
  \<^item> Schedules: at most one unfinished run of a schedule, also over the agent tasks that the runs
    create; restart; the next occurrence. Agent tasks: what a creation leaves behind, depending on whether
    the messaging service accepts the assignment.
  \<^item> Agents: exclusion and progress of mutations, and the refinement of a readers-writer lock.
  \<^item> Interactions: resolved at most once; answers reach a runtime only while the request is pending;
    what a new turn finds; the notes for secret questions are retained nowhere.
  \<^item> Engine: one call at a time works in a conversation; a dispatched turn is not dispatched again while
    it is remembered; calls do not deadlock; the content of a file is deleted exactly when nobody can
    read it any more.

  \<^item> Messages: an acknowledged message is not sent again, and none is sent twice unless it was put
    back; a message is lost only as the oldest of 64 waiting ones; the workers of an on-demand room get
    messages only from its manager and for a task; and a flaw, the events that a stopped source leaves
    in its channel.

  \<^bold>\<open>Bounds and fuel\<close>

  Loops are structural or have a termination proof (\<open>walk_parents\<close>, \<open>visit\<close>, \<open>advance_loop\<close>, \<open>fields_of\<close>,
  \<open>json_body\<close>, \<open>sha_blocks\<close>, \<open>tag_ids\<close>, \<open>word_len\<close>, \<open>retag\<close>).
  Only the replay \<open>RetryDelivery\<close>, which calls \<open>releaseCapacity\<close> and through it itself for other rooms,
  has fuel; \<open>RetryDelivery_terminates\<close> shows that from every reachable state some fuel suffices and
  that more gives the same result. Theorems on the task service assume that its counters are not at
  the end of \<open>int64\<close> (\<open>alloc_room\<close>, \<open>op_room\<close>); \<open>Next_overflow\<close> shows what happens there, and the theorem on
  the identifiers of a store needs no such premise. Time zones have a fixed
  offset, so the recurrence of schedules is exact for those and does not cover daylight saving. The
  digests of the room context are the real ones; that the digests in use do not collide is a premise.

  \<^bold>\<open>Not modelled\<close>

  The policies that are written to \<open>AGENTS.md\<close> (constants of \<open>roomtask/turn_instructions.go\<close>); the ticker loops, which
  only call the modelled operations; log output and diagnostics; the JSON encoding of records, of which
  only that it can be read back, or not, is used; the order of goroutines within a section under a
  lock. The administration of agents, the generation of media, the runtimes and sandboxes, the
  storage of rooms and messages, participants and teams, the channels to chat services, the HTTP interface, the
  command line, storage migrations, model and skill catalogues and the user interfaces are outside: they
  mostly call processes, networks and files, and what the modelled parts use of them is an argument.
\<close>

end
